(* ===== verification/Fdb_Prelude.thy ===== *)
theory Fdb_Prelude
  imports Main "HOL-Library.Word" "HOL-Library.Monad_Syntax"
begin

text \<open>
  Shared vocabulary of the development: the error codes of FlashDB, bytes, 32-bit unsigned
  and signed arithmetic on \<^typ>\<open>nat\<close> and \<^typ>\<open>int\<close> with the wrap-around written out, the
  little-endian layout of 32-bit fields, byte buffers (\<open>slice\<close> reads a range, \<open>splice\<close> is a
  \<open>memcpy\<close> into an array), C strings, and the alignment macros.

  Functions of the model that may have no defined continuation in C (an endless loop, a
  failed \<open>FDB_ASSERT\<close>, which is an endless loop too, or an access outside an array)
  return an option: \<^const>\<open>None\<close> is that case, and \<^const>\<open>Some\<close> is a normal return.
\<close>

unbundle bit_operations_syntax

named_theorems fdb_const \<open>the numeric constants of the source, to be unfolded together\<close>
named_theorems buf_simps \<open>reading back slices of spliced buffers\<close>

subsection \<open>Types\<close>

type_synonym byte = "8 word"
type_synonym bytes = "8 word list"

datatype fdb_err =
    FDB_NO_ERR
  | FDB_ERASE_ERR
  | FDB_READ_ERR
  | FDB_WRITE_ERR
  | FDB_PART_NOT_FOUND
  | FDB_KV_NAME_ERR
  | FDB_KV_NAME_EXIST
  | FDB_SAVED_FULL
  | FDB_INIT_FAILED

subsection \<open>32-bit arithmetic\<close>

text \<open>
  \<open>uint32_t\<close>, \<open>size_t\<close> and \<open>unsigned long\<close> are 32 bits wide on the module's target (32-bit
  ARM), \<open>int\<close>, \<open>long\<close> and \<open>fdb_time_t\<close> are signed 32 bits.
\<close>

definition u32 :: "nat \<Rightarrow> nat" where
  "u32 n = n mod 4294967296"

definition u32_sub :: "nat \<Rightarrow> nat \<Rightarrow> nat" where
  "u32_sub a b = (a + (4294967296 - b mod 4294967296)) mod 4294967296"

definition s32 :: "int \<Rightarrow> int" where
  "s32 i = (i + 2147483648) mod 4294967296 - 2147483648"

definition u32_of_int :: "int \<Rightarrow> nat" where
  "u32_of_int i = nat (i mod 4294967296)"

lemma u32_less [simp]: "u32 n < 4294967296"
  by (simp add: u32_def)

lemma u32_le_max [simp]: "u32 n \<le> 4294967295"
  using u32_less [of n] by linarith

lemma u32_id: "n < 4294967296 \<Longrightarrow> u32 n = n"
  by (simp add: u32_def)

lemma u32_le: "u32 n \<le> n"
  by (simp add: u32_def)

lemma u32_0 [simp]: "u32 0 = 0"
  by (simp add: u32_def)

lemma u32_idem [simp]: "u32 (u32 n) = u32 n"
  by (simp add: u32_def)

lemma u32_sub_less [simp]: "u32_sub a b < 4294967296"
  by (simp add: u32_sub_def)

lemma u32_sub_id:
  assumes "b \<le> a" "a < 4294967296"
  shows "u32_sub a b = a - b"
proof -
  have b: "b mod 4294967296 = b" using assms by simp
  have e: "a + (4294967296 - b) = 4294967296 + (a - b)" using assms by linarith
  have "u32_sub a b = (4294967296 + (a - b)) mod 4294967296"
    by (simp only: u32_sub_def b e)
  also have "\<dots> = (a - b) mod 4294967296" by (rule mod_add_self1)
  finally show ?thesis using assms by simp
qed

lemma u32_sub_wrap: "a < b \<Longrightarrow> b < 4294967296 \<Longrightarrow> u32_sub a b = a + 4294967296 - b"
  by (simp add: u32_sub_def)

lemma s32_id: "- 2147483648 \<le> i \<Longrightarrow> i < 2147483648 \<Longrightarrow> s32 i = i"
  by (simp add: s32_def)

lemma s32_range: "- 2147483648 \<le> s32 i \<and> s32 i < 2147483648"
  using pos_mod_bound [of 4294967296 "i + 2147483648"]
    pos_mod_sign [of 4294967296 "i + 2147483648"]
  by (simp add: s32_def)

lemma u32_of_int_less [simp]: "u32_of_int i < 4294967296"
  by (simp add: u32_of_int_def nat_less_iff)

lemma s32_u32_of_int: "s32 (int (u32_of_int i)) = s32 i"
  by (simp add: s32_def u32_of_int_def mod_add_left_eq)

lemma sector_end:
  fixes k N Z :: nat
  assumes "k < N" "x \<le> Z"
  shows "k * Z + x \<le> N * Z"
proof -
  have "Suc k * Z \<le> N * Z" using assms(1) by (intro mult_le_mono1) simp
  then show ?thesis using assms(2) by simp
qed

subsection \<open>Alignment macros of \<open>fdb_low_lvl.h\<close>\<close>

definition FDB_ALIGN :: "nat \<Rightarrow> nat \<Rightarrow> nat" where
  "FDB_ALIGN sz align =
     (let n = u32 (sz + (align - 1)) in n - n mod align)"

definition FDB_ALIGN_DOWN :: "nat \<Rightarrow> nat \<Rightarrow> nat" where
  "FDB_ALIGN_DOWN sz align = (sz div align) * align"

text \<open>The write granularity of the module (\<open>porting/inc/fdb_cfg.h\<close>): one bit.\<close>

definition FDB_WRITE_GRAN :: nat where
  [fdb_const]: "FDB_WRITE_GRAN = 1"

definition FDB_WG_ALIGN :: "nat \<Rightarrow> nat" where
  "FDB_WG_ALIGN sz = FDB_ALIGN sz ((FDB_WRITE_GRAN + 7) div 8)"

definition FDB_WG_ALIGN_DOWN :: "nat \<Rightarrow> nat" where
  "FDB_WG_ALIGN_DOWN sz = FDB_ALIGN_DOWN sz ((FDB_WRITE_GRAN + 7) div 8)"

definition FDB_BYTE_ERASED :: byte where
  [fdb_const]: "FDB_BYTE_ERASED = 0xFF"

definition FDB_BYTE_WRITTEN :: byte where
  [fdb_const]: "FDB_BYTE_WRITTEN = 0x00"

definition FDB_DATA_UNUSED :: nat where
  [fdb_const]: "FDB_DATA_UNUSED = 0xFFFFFFFF"

definition FDB_FAILED_ADDR :: nat where
  [fdb_const]: "FDB_FAILED_ADDR = 0xFFFFFFFF"

lemma FDB_WG_ALIGN_eq [simp]: "FDB_WG_ALIGN n = u32 n"
  by (simp add: FDB_WG_ALIGN_def FDB_ALIGN_def FDB_WRITE_GRAN_def Let_def)

lemma FDB_WG_ALIGN_DOWN_eq [simp]: "FDB_WG_ALIGN_DOWN n = n"
  by (simp add: FDB_WG_ALIGN_DOWN_def FDB_ALIGN_DOWN_def FDB_WRITE_GRAN_def)

lemma FDB_ALIGN_ge:
  assumes "0 < k" "n + (k - 1) < 4294967296"
  shows "n \<le> FDB_ALIGN n k" and "FDB_ALIGN n k < n + k" and "k dvd FDB_ALIGN n k"
proof -
  let ?m = "n + (k - 1)"
  have u: "u32 ?m = ?m" using assms(2) by (rule u32_id)
  have r: "?m mod k < k" using assms(1) by simp
  show "n \<le> FDB_ALIGN n k" "FDB_ALIGN n k < n + k"
    using r assms(1) unfolding FDB_ALIGN_def Let_def u by linarith+
  show "k dvd FDB_ALIGN n k"
    by (simp add: FDB_ALIGN_def u Let_def dvd_minus_mod)
qed

subsection \<open>Byte buffers\<close>

definition slice :: "nat \<Rightarrow> nat \<Rightarrow> 'a list \<Rightarrow> 'a list" where
  "slice a n m = take n (drop a m)"

definition splice :: "'a list \<Rightarrow> nat \<Rightarrow> 'a list \<Rightarrow> 'a list" where
  "splice m a bs = take a m @ bs @ drop (a + length bs) m"

lemma length_slice [simp]: "a + n \<le> length m \<Longrightarrow> length (slice a n m) = n"
  by (simp add: slice_def)

lemma length_splice [simp]: "a + length bs \<le> length m \<Longrightarrow> length (splice m a bs) = length m"
  by (simp add: splice_def)

lemma slice_0 [simp]: "slice a 0 m = []"
  by (simp add: slice_def)

lemma splice_Nil [simp]: "splice m a [] = m"
  by (simp add: splice_def)

lemma slice_all: "slice 0 (length m) m = m"
  by (simp add: slice_def)

lemma nth_slice: "i < n \<Longrightarrow> a + n \<le> length m \<Longrightarrow> slice a n m ! i = m ! (a + i)"
  by (simp add: slice_def)

lemma nth_splice:
  assumes "a + length bs \<le> length m" "i < length m"
  shows "splice m a bs ! i = (if a \<le> i \<and> i < a + length bs then bs ! (i - a) else m ! i)"
  using assms by (auto simp: splice_def nth_append min_def)

lemma slice_eqI:
  assumes "a + n \<le> length m" "a + n \<le> length m'"
    and "\<And>i. i < n \<Longrightarrow> m ! (a + i) = m' ! (a + i)"
  shows "slice a n m = slice a n m'"
  using assms by (intro nth_equalityI) (simp_all add: nth_slice)

lemma slice_splice_same:
  assumes "a + length bs \<le> length m" "n = length bs"
  shows "slice a n (splice m a bs) = bs"
  using assms by (simp add: slice_def splice_def)

lemma slice_splice_disj:
  assumes "a + length bs \<le> length m" "b + n \<le> length m" "b + n \<le> a \<or> a + length bs \<le> b"
  shows "slice b n (splice m a bs) = slice b n m"
  using assms by (intro slice_eqI) (auto simp: nth_splice)

lemma slice_splice_inside:
  assumes "a + length bs \<le> length m" "a \<le> b" "b + n \<le> a + length bs"
  shows "slice b n (splice m a bs) = slice (b - a) n bs"
proof (rule nth_equalityI)
  show "length (slice b n (splice m a bs)) = length (slice (b - a) n bs)"
    using assms by simp
next
  fix i assume "i < length (slice b n (splice m a bs))"
  then have "i < n" using assms by simp
  then show "slice b n (splice m a bs) ! i = slice (b - a) n bs ! i"
    using assms by (simp add: nth_slice nth_splice)
qed

lemma slice_append_split:
  "slice a (n + k) m = slice a n m @ slice (a + n) k m"
  by (simp add: slice_def take_add add.commute [of n a])

lemma slice_slice:
  "b + k \<le> n \<Longrightarrow> slice b k (slice a n m) = slice (a + b) k m"
  by (simp add: slice_def drop_take add.commute)

lemma splice_splice_adj:
  assumes "a + length bs + length cs \<le> length m"
  shows "splice (splice m a bs) (a + length bs) cs = splice m a (bs @ cs)"
proof (rule nth_equalityI)
  show "length (splice (splice m a bs) (a + length bs) cs) = length (splice m a (bs @ cs))"
    using assms by simp
next
  fix i assume "i < length (splice (splice m a bs) (a + length bs) cs)"
  then have "i < length m" using assms by simp
  then show "splice (splice m a bs) (a + length bs) cs ! i = splice m a (bs @ cs) ! i"
    using assms by (auto simp: nth_splice nth_append)
qed

lemma splice_splice_over:
  assumes "length cs = length bs" "a + length bs \<le> length m"
  shows "splice (splice m a bs) a cs = splice m a cs"
  using assms by (intro nth_equalityI) (auto simp: nth_splice)

lemmas slice_splice [buf_simps] = slice_splice_same slice_splice_disj

subsection \<open>Little-endian 32-bit fields\<close>

definition le32 :: "nat \<Rightarrow> bytes" where
  "le32 n = [word_of_nat n, word_of_nat (n div 256), word_of_nat (n div 65536),
             word_of_nat (n div 16777216)]"

definition of_le32 :: "bytes \<Rightarrow> nat" where
  "of_le32 bs = unat (bs ! 0) + unat (bs ! 1) * 256 + unat (bs ! 2) * 65536
                + unat (bs ! 3) * 16777216"

lemma length_le32 [simp]: "length (le32 n) = 4"
  by (simp add: le32_def)

lemma unat_byte_less: "unat (b :: byte) < 256"
  using unsigned_less [of b, where ?'a = nat] by simp

lemma of_le32_less: "of_le32 bs < 4294967296"
proof -
  have "unat (bs ! 0) \<le> 255" "unat (bs ! 1) \<le> 255" "unat (bs ! 2) \<le> 255" "unat (bs ! 3) \<le> 255"
    using unat_byte_less by (simp_all add: less_Suc_eq_le [symmetric])
  then show ?thesis by (simp add: of_le32_def)
qed

lemma of_le32_le32: "of_le32 (le32 n) = u32 n"
proof -
  have "of_le32 (le32 n) =
      n mod 256 + (n div 256) mod 256 * 256 + (n div 65536) mod 256 * 65536
      + (n div 16777216) mod 256 * 16777216"
    by (simp add: of_le32_def le32_def unat_of_nat)
  also have "\<dots> = n mod 4294967296"
    using mod_mult2_eq [of n 256 16777216] mod_mult2_eq [of "n div 256" 256 65536]
      mod_mult2_eq [of "n div 65536" 256 256]
    by (simp add: div_mult2_eq [symmetric])
  finally show ?thesis by (simp add: u32_def)
qed

lemma of_le32_inverse:
  assumes "length bs = 4"
  shows "le32 (of_le32 bs) = bs"
proof -
  obtain a b c d where bs: "bs = [a, b, c, d]"
    using assms by (auto simp: length_Suc_conv eval_nat_numeral)
  let ?a = "unat a" let ?b = "unat b" let ?c = "unat c" let ?d = "unat d"
  let ?n = "?a + ?b * 256 + ?c * 65536 + ?d * 16777216"
  note lt = unat_byte_less [of a] unat_byte_less [of b] unat_byte_less [of c] unat_byte_less [of d]
  have "?n div 256 = ?b + ?c * 256 + ?d * 65536" "?n div 65536 = ?c + ?d * 256"
    "?n div 16777216 = ?d"
    using lt by linarith+
  moreover have "?n mod 256 = ?a" "(?b + ?c * 256 + ?d * 65536) mod 256 = ?b"
    "(?c + ?d * 256) mod 256 = ?c" "?d mod 256 = ?d"
    using lt by (simp_all add: mod_add_right_eq [symmetric] mod_mult_right_eq [symmetric])
  ultimately have d: "?n mod 256 = ?a" "?n div 256 mod 256 = ?b" "?n div 65536 mod 256 = ?c"
    "?n div 16777216 mod 256 = ?d"
    by simp_all
  then have "word_of_nat ?n = a" "word_of_nat (?n div 256) = b"
    "word_of_nat (?n div 65536) = c" "word_of_nat (?n div 16777216) = d"
    using d by (simp_all add: word_unat_eq_iff unat_of_nat del: of_nat_add of_nat_mult)
  then show ?thesis by (simp add: bs le32_def of_le32_def)
qed

subsection \<open>C strings\<close>

text \<open>
  A C string is the list of its characters before the terminating zero byte. \<open>strncmp_eq s t n\<close>
  is \<open>!strncmp(s, t, n)\<close> on the two arrays \<open>s\<close> and \<open>t\<close>: the comparison stops after \<open>n\<close>
  characters or at a common zero byte, and an array that ends first is read as if a zero followed.
\<close>

fun strncmp_eq :: "bytes \<Rightarrow> bytes \<Rightarrow> nat \<Rightarrow> bool" where
  "strncmp_eq s t 0 = True"
| "strncmp_eq s t (Suc n) =
     (let a = (case s of [] \<Rightarrow> 0 | x # _ \<Rightarrow> x); b = (case t of [] \<Rightarrow> 0 | y # _ \<Rightarrow> y)
      in if a \<noteq> b then False else if a = 0 then True else strncmp_eq (tl s) (tl t) n)"

definition c_string :: "bytes \<Rightarrow> bool" where
  "c_string s \<longleftrightarrow> 0 \<notin> set s"

lemma strncmp_eq_refl: "strncmp_eq s s n"
proof (induction n arbitrary: s)
  case (Suc n)
  then show ?case by (simp add: Let_def split: list.split)
qed simp

lemma strncmp_eq_iff:
  assumes "c_string s" "length s = n" "n \<le> length t"
  shows "strncmp_eq s t n \<longleftrightarrow> take n t = s"
  using assms
proof (induction n arbitrary: s t)
  case 0
  then show ?case by simp
next
  case (Suc n)
  then obtain a s' b t' where [simp]: "s = a # s'" "t = b # t'"
    by (metis Suc_le_length_iff length_Suc_conv)
  from Suc.prems have "a \<noteq> 0" by (simp add: c_string_def)
  moreover have "strncmp_eq s' t' n \<longleftrightarrow> take n t' = s'"
    using Suc.prems by (intro Suc.IH) (simp_all add: c_string_def)
  ultimately show ?case by auto
qed

lemma strncmp_eq_sym: "strncmp_eq s t n = strncmp_eq t s n"
  by (induction n arbitrary: s t) (auto simp: Let_def)

end
