(* ===== verification/Fdb_Crc.thy ===== *)
theory Fdb_Crc
  imports Fdb_Prelude
begin

text \<open>
  CRC-32 of \<open>fdb_utils.c\<close>: the table and \<open>fdb_calc_crc32\<close>. The lemmas show that the table is
  the one of the reflected polynomial \<open>0xEDB88320\<close>, that the checksum of a buffer can be
  accumulated piece by piece (the code calls it up to eight times for one KV node), and that
  one changed byte always changes the checksum.
\<close>

definition crc32_table :: "32 word list" where
  "crc32_table =
   [0x00000000, 0x77073096, 0xee0e612c, 0x990951ba, 0x076dc419, 0x706af48f,
    0xe963a535, 0x9e6495a3, 0x0edb8832, 0x79dcb8a4, 0xe0d5e91e, 0x97d2d988,
    0x09b64c2b, 0x7eb17cbd, 0xe7b82d07, 0x90bf1d91, 0x1db71064, 0x6ab020f2,
    0xf3b97148, 0x84be41de, 0x1adad47d, 0x6ddde4eb, 0xf4d4b551, 0x83d385c7,
    0x136c9856, 0x646ba8c0, 0xfd62f97a, 0x8a65c9ec, 0x14015c4f, 0x63066cd9,
    0xfa0f3d63, 0x8d080df5, 0x3b6e20c8, 0x4c69105e, 0xd56041e4, 0xa2677172,
    0x3c03e4d1, 0x4b04d447, 0xd20d85fd, 0xa50ab56b, 0x35b5a8fa, 0x42b2986c,
    0xdbbbc9d6, 0xacbcf940, 0x32d86ce3, 0x45df5c75, 0xdcd60dcf, 0xabd13d59,
    0x26d930ac, 0x51de003a, 0xc8d75180, 0xbfd06116, 0x21b4f4b5, 0x56b3c423,
    0xcfba9599, 0xb8bda50f, 0x2802b89e, 0x5f058808, 0xc60cd9b2, 0xb10be924,
    0x2f6f7c87, 0x58684c11, 0xc1611dab, 0xb6662d3d, 0x76dc4190, 0x01db7106,
    0x98d220bc, 0xefd5102a, 0x71b18589, 0x06b6b51f, 0x9fbfe4a5, 0xe8b8d433,
    0x7807c9a2, 0x0f00f934, 0x9609a88e, 0xe10e9818, 0x7f6a0dbb, 0x086d3d2d,
    0x91646c97, 0xe6635c01, 0x6b6b51f4, 0x1c6c6162, 0x856530d8, 0xf262004e,
    0x6c0695ed, 0x1b01a57b, 0x8208f4c1, 0xf50fc457, 0x65b0d9c6, 0x12b7e950,
    0x8bbeb8ea, 0xfcb9887c, 0x62dd1ddf, 0x15da2d49, 0x8cd37cf3, 0xfbd44c65,
    0x4db26158, 0x3ab551ce, 0xa3bc0074, 0xd4bb30e2, 0x4adfa541, 0x3dd895d7,
    0xa4d1c46d, 0xd3d6f4fb, 0x4369e96a, 0x346ed9fc, 0xad678846, 0xda60b8d0,
    0x44042d73, 0x33031de5, 0xaa0a4c5f, 0xdd0d7cc9, 0x5005713c, 0x270241aa,
    0xbe0b1010, 0xc90c2086, 0x5768b525, 0x206f85b3, 0xb966d409, 0xce61e49f,
    0x5edef90e, 0x29d9c998, 0xb0d09822, 0xc7d7a8b4, 0x59b33d17, 0x2eb40d81,
    0xb7bd5c3b, 0xc0ba6cad, 0xedb88320, 0x9abfb3b6, 0x03b6e20c, 0x74b1d29a,
    0xead54739, 0x9dd277af, 0x04db2615, 0x73dc1683, 0xe3630b12, 0x94643b84,
    0x0d6d6a3e, 0x7a6a5aa8, 0xe40ecf0b, 0x9309ff9d, 0x0a00ae27, 0x7d079eb1,
    0xf00f9344, 0x8708a3d2, 0x1e01f268, 0x6906c2fe, 0xf762575d, 0x806567cb,
    0x196c3671, 0x6e6b06e7, 0xfed41b76, 0x89d32be0, 0x10da7a5a, 0x67dd4acc,
    0xf9b9df6f, 0x8ebeeff9, 0x17b7be43, 0x60b08ed5, 0xd6d6a3e8, 0xa1d1937e,
    0x38d8c2c4, 0x4fdff252, 0xd1bb67f1, 0xa6bc5767, 0x3fb506dd, 0x48b2364b,
    0xd80d2bda, 0xaf0a1b4c, 0x36034af6, 0x41047a60, 0xdf60efc3, 0xa867df55,
    0x316e8eef, 0x4669be79, 0xcb61b38c, 0xbc66831a, 0x256fd2a0, 0x5268e236,
    0xcc0c7795, 0xbb0b4703, 0x220216b9, 0x5505262f, 0xc5ba3bbe, 0xb2bd0b28,
    0x2bb45a92, 0x5cb36a04, 0xc2d7ffa7, 0xb5d0cf31, 0x2cd99e8b, 0x5bdeae1d,
    0x9b64c2b0, 0xec63f226, 0x756aa39c, 0x026d930a, 0x9c0906a9, 0xeb0e363f,
    0x72076785, 0x05005713, 0x95bf4a82, 0xe2b87a14, 0x7bb12bae, 0x0cb61b38,
    0x92d28e9b, 0xe5d5be0d, 0x7cdcefb7, 0x0bdbdf21, 0x86d3d2d4, 0xf1d4e242,
    0x68ddb3f8, 0x1fda836e, 0x81be16cd, 0xf6b9265b, 0x6fb077e1, 0x18b74777,
    0x88085ae6, 0xff0f6a70, 0x66063bca, 0x11010b5c, 0x8f659eff, 0xf862ae69,
    0x616bffd3, 0x166ccf45, 0xa00ae278, 0xd70dd2ee, 0x4e048354, 0x3903b3c2,
    0xa7672661, 0xd06016f7, 0x4969474d, 0x3e6e77db, 0xaed16a4a, 0xd9d65adc,
    0x40df0b66, 0x37d83bf0, 0xa9bcae53, 0xdebb9ec5, 0x47b2cf7f, 0x30b5ffe9,
    0xbdbdf21c, 0xcabac28a, 0x53b39330, 0x24b4a3a6, 0xbad03605, 0xcdd70693,
    0x54de5729, 0x23d967bf, 0xb3667a2e, 0xc4614ab8, 0x5d681b02, 0x2a6f2b94,
    0xb40bbe37, 0xc30c8ea1, 0x5a05df1b, 0x2d02ef8d]"

text \<open>One round of the \<open>while\<close> loop of \<open>fdb_calc_crc32\<close>.\<close>

definition crc32_step :: "32 word \<Rightarrow> byte \<Rightarrow> 32 word" where
  "crc32_step crc b =
     crc32_table ! unat ((crc XOR ucast b) AND 0xFF) XOR drop_bit 8 crc"

fun crc32_loop :: "32 word \<Rightarrow> bytes \<Rightarrow> 32 word" where
  "crc32_loop crc [] = crc"
| "crc32_loop crc (b # bs) = crc32_loop (crc32_step crc b) bs"

definition fdb_calc_crc32 :: "32 word \<Rightarrow> bytes \<Rightarrow> 32 word" where
  "fdb_calc_crc32 crc buf = crc32_loop (crc XOR NOT 0) buf XOR NOT 0"

text \<open>
  The defining bitwise CRC: eight steps of the division by the reflected polynomial for each
  byte. \<open>crc32_entry n\<close> is the table entry it prescribes, \<open>crc32_bitwise\<close> the checksum.
\<close>

definition crc32_bit :: "32 word \<Rightarrow> 32 word" where
  "crc32_bit c = (if bit c 0 then drop_bit 1 c XOR 0xEDB88320 else drop_bit 1 c)"

definition crc32_entry :: "nat \<Rightarrow> 32 word" where
  "crc32_entry n = (crc32_bit ^^ 8) (word_of_nat n)"

definition crc32_bitwise :: "32 word \<Rightarrow> bytes \<Rightarrow> 32 word" where
  "crc32_bitwise crc buf =
     foldl (\<lambda>c b. (crc32_bit ^^ 8) (c XOR ucast b)) (crc XOR NOT 0) buf XOR NOT 0"

subsection \<open>Accumulation\<close>

lemma crc32_loop_append: "crc32_loop crc (xs @ ys) = crc32_loop (crc32_loop crc xs) ys"
  by (induction xs arbitrary: crc) simp_all

lemma crc_append: "fdb_calc_crc32 (fdb_calc_crc32 crc xs) ys = fdb_calc_crc32 crc (xs @ ys)"
  by (simp add: fdb_calc_crc32_def crc32_loop_append xor.assoc)

lemma crc_Nil [simp]: "fdb_calc_crc32 crc [] = crc"
  by (simp add: fdb_calc_crc32_def xor.assoc)

subsection \<open>The table\<close>

lemma xor_cancel_right: "(a :: 32 word) XOR c = b XOR c \<Longrightarrow> a = b"
  by (metis xor.assoc xor_self_eq xor.right_neutral)

lemma crc32_bit_xor: "crc32_bit (a XOR b) = crc32_bit a XOR crc32_bit b"
  by (simp add: crc32_bit_def bit_xor_iff drop_bit_xor ac_simps)

lemma crc32_bits_xor: "(crc32_bit ^^ n) (a XOR b) = (crc32_bit ^^ n) a XOR (crc32_bit ^^ n) b"
  by (induction n) (simp_all add: crc32_bit_xor)

lemma of_nat_add_power:
  assumes "i < 2 ^ k"
  shows "(word_of_nat (2 ^ k + i) :: 32 word) = word_of_nat i XOR word_of_nat (2 ^ k)"
proof -
  have b: "\<not> bit i k" using assms by (metis bit_take_bit_iff less_irrefl take_bit_nat_eq_self)
  have "2 ^ k + i = (2 ^ k OR i :: nat)"
    by (rule disjunctive_add) (use b in \<open>auto simp: bit_exp_iff\<close>)
  also have "\<dots> = i XOR 2 ^ k"
    by (rule bit_eqI) (use b in \<open>auto simp: bit_or_iff bit_xor_iff bit_exp_iff\<close>)
  finally have "2 ^ k + i = i XOR 2 ^ k" .
  then have "(word_of_nat (2 ^ k + i) :: 32 word) = word_of_nat (i XOR 2 ^ k)" by simp
  also have "\<dots> = word_of_nat i XOR word_of_nat (2 ^ k)"
    by (rule of_nat_xor_eq)
  finally show ?thesis .
qed

lemma crc32_entry_add_power:
  "i < 2 ^ k \<Longrightarrow> crc32_entry (2 ^ k + i) = crc32_entry i XOR crc32_entry (2 ^ k)"
  unfolding crc32_entry_def by (subst of_nat_add_power) (simp_all only: crc32_bits_xor)

lemma crc32_table_step:
  assumes "take (2 ^ k) crc32_table = map crc32_entry [0..<2 ^ k]"
    and "take (2 ^ k) (drop (2 ^ k) crc32_table) = map (\<lambda>w. w XOR t) (take (2 ^ k) crc32_table)"
    and "crc32_entry (2 ^ k) = t"
  shows "take (2 ^ Suc k) crc32_table = map crc32_entry [0..<2 ^ Suc k]"
proof -
  have "take (2 ^ Suc k) crc32_table = take (2 ^ k) crc32_table @ take (2 ^ k) (drop (2 ^ k) crc32_table)"
    by (simp add: take_add [symmetric] mult_2)
  also have "\<dots> = map crc32_entry [0..<2 ^ k] @ map (\<lambda>i. crc32_entry i XOR t) [0..<2 ^ k]"
    by (simp add: assms)
  also have "map (\<lambda>i. crc32_entry i XOR t) [0..<2 ^ k] = map (\<lambda>i. crc32_entry (2 ^ k + i)) [0..<2 ^ k]"
    by (rule map_cong) (simp_all add: crc32_entry_add_power assms(3))
  also have "\<dots> = map crc32_entry [2 ^ k..<2 ^ k + 2 ^ k]"
    by (rule nth_equalityI) simp_all
  also have "map crc32_entry [0..<2 ^ k] @ map crc32_entry [2 ^ k..<2 ^ k + 2 ^ k]
      = map crc32_entry [0..<2 ^ Suc k]"
    by (simp add: upt_add_eq_append [of 0 "2 ^ k" "2 ^ k", simplified] mult_2)
  finally show ?thesis .
qed

lemma crc32_entry_powers:
  "crc32_entry 0 = 0" "crc32_entry 1 = 0x77073096" "crc32_entry 2 = 0xee0e612c"
  "crc32_entry 4 = 0x076dc419" "crc32_entry 8 = 0x0edb8832" "crc32_entry 16 = 0x1db71064"
  "crc32_entry 32 = 0x3b6e20c8" "crc32_entry 64 = 0x76dc4190" "crc32_entry 128 = 0xedb88320"
  by code_simp+

lemma crc32_table_slices:
  "take 1 (drop 1 crc32_table) = map (\<lambda>w. w XOR 0x77073096) (take 1 crc32_table)"
  "take 2 (drop 2 crc32_table) = map (\<lambda>w. w XOR 0xee0e612c) (take 2 crc32_table)"
  "take 4 (drop 4 crc32_table) = map (\<lambda>w. w XOR 0x076dc419) (take 4 crc32_table)"
  "take 8 (drop 8 crc32_table) = map (\<lambda>w. w XOR 0x0edb8832) (take 8 crc32_table)"
  "take 16 (drop 16 crc32_table) = map (\<lambda>w. w XOR 0x1db71064) (take 16 crc32_table)"
  "take 32 (drop 32 crc32_table) = map (\<lambda>w. w XOR 0x3b6e20c8) (take 32 crc32_table)"
  "take 64 (drop 64 crc32_table) = map (\<lambda>w. w XOR 0x76dc4190) (take 64 crc32_table)"
  "take 128 (drop 128 crc32_table) = map (\<lambda>w. w XOR 0xedb88320) (take 128 crc32_table)"
  by (simp_all add: crc32_table_def)

lemma crc32_table_entries: "crc32_table = map crc32_entry [0..<256]"
proof -
  note step = crc32_table_step [rotated -1, OF _ _ _]
  have 0: "take (2 ^ 0) crc32_table = map crc32_entry [0..<2 ^ 0]"
    using crc32_entry_powers(1) by (simp add: crc32_table_def)
  note e = crc32_entry_powers and s = crc32_table_slices
  have 1: "take (2 ^ Suc 0) crc32_table = map crc32_entry [0..<2 ^ Suc 0]"
    using e(2) s(1) by (intro crc32_table_step [OF 0]) simp_all
  have 2: "take (2 ^ Suc 1) crc32_table = map crc32_entry [0..<2 ^ Suc 1]"
    using e(3) s(2) 1 by (intro crc32_table_step) simp_all
  have 3: "take (2 ^ Suc 2) crc32_table = map crc32_entry [0..<2 ^ Suc 2]"
    using e(4) s(3) 2 by (intro crc32_table_step) simp_all
  have 4: "take (2 ^ Suc 3) crc32_table = map crc32_entry [0..<2 ^ Suc 3]"
    using e(5) s(4) 3 by (intro crc32_table_step) simp_all
  have 5: "take (2 ^ Suc 4) crc32_table = map crc32_entry [0..<2 ^ Suc 4]"
    using e(6) s(5) 4 by (intro crc32_table_step) simp_all
  have 6: "take (2 ^ Suc 5) crc32_table = map crc32_entry [0..<2 ^ Suc 5]"
    using e(7) s(6) 5 by (intro crc32_table_step) simp_all
  have 7: "take (2 ^ Suc 6) crc32_table = map crc32_entry [0..<2 ^ Suc 6]"
    using e(8) s(7) 6 by (intro crc32_table_step) simp_all
  have "take (2 ^ Suc 7) crc32_table = map crc32_entry [0..<2 ^ Suc 7]"
    using e(9) s(8) 7 by (intro crc32_table_step) simp_all
  moreover have "length crc32_table = 256" by (simp add: crc32_table_def)
  ultimately show ?thesis by simp
qed

subsection \<open>One round is eight steps of the bitwise division\<close>

lemma crc32_bits_zeros:
  "(\<And>i. i < n \<Longrightarrow> \<not> bit c i) \<Longrightarrow> (crc32_bit ^^ n) c = drop_bit n c"
proof (induction n)
  case (Suc n)
  then have "(crc32_bit ^^ n) c = drop_bit n c" by simp
  moreover have "\<not> bit (drop_bit n c) 0" using Suc.prems [of n] by (simp add: bit_drop_bit_eq)
  ultimately show ?case by (simp add: crc32_bit_def [of "drop_bit n c"])
qed simp

lemma crc32_bit_inj:
  assumes eq: "crc32_bit a = crc32_bit b"
  shows "a = b"
proof -
  have top: "bit (crc32_bit c) 31 = bit c 0" for c :: "32 word"
    using bit_imp_le_length [of c 32]
    by (auto simp: crc32_bit_def bit_xor_iff bit_drop_bit_eq)
  have b0: "bit a 0 = bit b 0" using eq top by metis
  have "drop_bit 1 a = drop_bit 1 b"
  proof (cases "bit a 0")
    case True
    with b0 eq have "drop_bit 1 a XOR 0xEDB88320 = drop_bit 1 b XOR 0xEDB88320"
      by (simp add: crc32_bit_def)
    then show ?thesis by (rule xor_cancel_right)
  next
    case False
    with b0 eq show ?thesis by (simp add: crc32_bit_def)
  qed
  then have "bit (drop_bit 1 a) n = bit (drop_bit 1 b) n" for n by simp
  then have "bit a (Suc n) = bit b (Suc n)" for n
    by (simp add: bit_drop_bit_eq)
  with b0 have "bit a n = bit b n" for n by (cases n) auto
  then show "a = b" by (simp add: bit_eq_iff)
qed

lemma crc32_bits_inj: "(crc32_bit ^^ n) a = (crc32_bit ^^ n) b \<Longrightarrow> a = b"
  by (induction n) (auto dest: crc32_bit_inj)

lemma crc32_step_bitwise: "crc32_step crc b = (crc32_bit ^^ 8) (crc XOR ucast b)"
proof -
  have FF: "(0xFF :: 32 word) = mask 8" by (simp add: mask_eq_exp_minus_1)
  let ?x = "crc XOR ucast b :: 32 word"
  let ?lo = "?x AND 0xFF" and ?hi = "?x AND NOT 0xFF"
  have split: "?x = ?lo XOR ?hi"
    unfolding FF by (rule bit_eqI) (auto simp: bit_xor_iff bit_and_iff bit_not_iff)
  have "unat ?lo = unat (take_bit 8 ?x)" by (simp only: FF take_bit_eq_mask)
  also have "\<dots> = take_bit 8 (unat ?x)" by (rule unsigned_take_bit_eq)
  also have "\<dots> < 2 ^ 8" by (rule take_bit_nat_less_exp)
  finally have lo: "unat ?lo < 256" by simp
  have "(crc32_bit ^^ 8) ?x = (crc32_bit ^^ 8) ?lo XOR (crc32_bit ^^ 8) ?hi"
    by (subst split) (rule crc32_bits_xor)
  also have "(crc32_bit ^^ 8) ?lo = crc32_table ! unat ?lo"
    using lo by (simp add: crc32_table_entries crc32_entry_def)
  also have "(crc32_bit ^^ 8) ?hi = drop_bit 8 ?hi"
    unfolding FF by (rule crc32_bits_zeros) (simp add: bit_and_iff bit_not_iff bit_mask_iff)
  also have "drop_bit 8 ?hi = drop_bit 8 crc"
    unfolding FF
    by (rule bit_eqI)
      (auto simp: bit_drop_bit_eq bit_and_iff bit_not_iff bit_mask_iff bit_xor_iff bit_ucast_iff
        dest: bit_imp_le_length)
  finally show ?thesis by (simp add: crc32_step_def)
qed

lemma crc32_step_inj_crc: "crc32_step c b = crc32_step c' b \<Longrightarrow> c = c'"
  unfolding crc32_step_bitwise by (blast dest: crc32_bits_inj xor_cancel_right)

lemma crc32_step_inj_byte:
  assumes "crc32_step c b = crc32_step c b'"
  shows "b = b'"
proof -
  have "c XOR ucast b = c XOR ucast b'"
    using assms unfolding crc32_step_bitwise by (rule crc32_bits_inj)
  then have u: "(ucast b :: 32 word) = ucast b'"
    using xor_cancel_right by (metis xor.commute)
  have "unat b = unat (ucast b :: 32 word)" for b :: byte
    by (simp add: unsigned_ucast_eq take_bit_nat_eq_self order_less_trans [OF unat_byte_less])
  with u show "b = b'" by (simp add: word_unat_eq_iff)
qed

lemma crc32_loop_inj: "crc32_loop c bs = crc32_loop c' bs \<Longrightarrow> c = c'"
proof (induction bs arbitrary: c c')
  case (Cons b bs)
  then have "crc32_step c b = crc32_step c' b" by simp
  then show ?case by (rule crc32_step_inj_crc)
qed simp

lemma crc32_loop_bitwise:
  "crc32_loop c bs = foldl (\<lambda>c b. (crc32_bit ^^ 8) (c XOR ucast b)) c bs"
  by (induction bs arbitrary: c) (simp_all only: crc32_loop.simps foldl.simps crc32_step_bitwise)

subsection \<open>Properties\<close>

text \<open>
  C21: the table-driven checksum of \<open>fdb_calc_crc32\<close> is the bitwise CRC-32 of the polynomial
  \<open>0xEDB88320\<close> on every buffer and from every starting value.
\<close>

theorem crc_table_is_bitwise: "fdb_calc_crc32 crc buf = crc32_bitwise crc buf"
  by (simp only: fdb_calc_crc32_def crc32_bitwise_def crc32_loop_bitwise)

text \<open>
  C24: the checksum detects every change of a single byte: two buffers that differ in exactly
  one byte never have the same CRC, whatever the starting value.
\<close>

theorem crc_detects_one_byte:
  assumes "b \<noteq> b'"
  shows "fdb_calc_crc32 crc (xs @ b # ys) \<noteq> fdb_calc_crc32 crc (xs @ b' # ys)"
proof
  let ?s = "crc32_loop (crc XOR NOT 0) xs"
  assume "fdb_calc_crc32 crc (xs @ b # ys) = fdb_calc_crc32 crc (xs @ b' # ys)"
  then have "crc32_loop (crc XOR NOT 0) (xs @ b # ys) = crc32_loop (crc XOR NOT 0) (xs @ b' # ys)"
    unfolding fdb_calc_crc32_def by (rule xor_cancel_right)
  then have "crc32_loop (crc32_step ?s b) ys = crc32_loop (crc32_step ?s b') ys"
    by (simp add: crc32_loop_append)
  then have "crc32_step ?s b = crc32_step ?s b'" by (rule crc32_loop_inj)
  with assms show False by (blast dest: crc32_step_inj_byte)
qed

theorem crc_detects_one_byte_witness:
  "(1 :: byte) \<noteq> 2 \<and> fdb_calc_crc32 0 ([3] @ 1 # [4]) \<noteq> fdb_calc_crc32 0 ([3] @ 2 # [4])"
proof -
  have h: "(1 :: byte) \<noteq> 2" by simp
  show ?thesis using h crc_detects_one_byte [OF h] by blast
qed

end
