(* ===== verification/Fdb_Status.thy ===== *)
theory Fdb_Status
  imports Fdb_Crc
begin

text \<open>
  Status tables (\<open>fdb_utils.c\<close>, \<open>fdb_low_lvl.h\<close>): a status is stored on flash as a table that is
  all ones when erased and in which one bit (write granularity 1) or one granule (granularity
  8, 32, 64, 128) is programmed per step, so that the next status can be written without an
  erase. The granularity \<open>wg\<close> is the \<open>FDB_WRITE_GRAN\<close> the preprocessor selects on; the module
  is built with \<open>wg = 1\<close>. The enumerations stored this way are here too, with the casts the
  code applies to the number it reads back.
\<close>

subsection \<open>Enumerations\<close>

datatype fdb_kv_status =
    FDB_KV_UNUSED | FDB_KV_PRE_WRITE | FDB_KV_WRITE | FDB_KV_PRE_DELETE | FDB_KV_DELETED
  | FDB_KV_ERR_HDR

datatype fdb_tsl_status =
    FDB_TSL_UNUSED | FDB_TSL_PRE_WRITE | FDB_TSL_WRITE | FDB_TSL_USER_STATUS1 | FDB_TSL_DELETED
  | FDB_TSL_USER_STATUS2

datatype fdb_sector_store_status =
    FDB_SECTOR_STORE_UNUSED | FDB_SECTOR_STORE_EMPTY | FDB_SECTOR_STORE_USING
  | FDB_SECTOR_STORE_FULL

datatype fdb_sector_dirty_status =
    FDB_SECTOR_DIRTY_UNUSED | FDB_SECTOR_DIRTY_FALSE | FDB_SECTOR_DIRTY_TRUE
  | FDB_SECTOR_DIRTY_GC

definition FDB_KV_STATUS_NUM :: nat where [fdb_const]: "FDB_KV_STATUS_NUM = 6"
definition FDB_TSL_STATUS_NUM :: nat where [fdb_const]: "FDB_TSL_STATUS_NUM = 6"
definition FDB_SECTOR_STORE_STATUS_NUM :: nat where [fdb_const]: "FDB_SECTOR_STORE_STATUS_NUM = 4"
definition FDB_SECTOR_DIRTY_STATUS_NUM :: nat where [fdb_const]: "FDB_SECTOR_DIRTY_STATUS_NUM = 4"

text \<open>
  The value of each enumerator, and the cast of a number to the enumeration. The numbers the
  code casts are results of \<open>_fdb_get_status\<close>, which are below the number of enumerators
  (lemma \<open>fdb_get_status_less\<close>), so the last clause of each cast is the last enumerator only.
\<close>

fun kv_status_num :: "fdb_kv_status \<Rightarrow> nat" where
  "kv_status_num FDB_KV_UNUSED = 0"
| "kv_status_num FDB_KV_PRE_WRITE = 1"
| "kv_status_num FDB_KV_WRITE = 2"
| "kv_status_num FDB_KV_PRE_DELETE = 3"
| "kv_status_num FDB_KV_DELETED = 4"
| "kv_status_num FDB_KV_ERR_HDR = 5"

definition kv_status_of :: "nat \<Rightarrow> fdb_kv_status" where
  "kv_status_of n =
     (if n = 0 then FDB_KV_UNUSED else if n = 1 then FDB_KV_PRE_WRITE
      else if n = 2 then FDB_KV_WRITE else if n = 3 then FDB_KV_PRE_DELETE
      else if n = 4 then FDB_KV_DELETED else FDB_KV_ERR_HDR)"

fun tsl_status_num :: "fdb_tsl_status \<Rightarrow> nat" where
  "tsl_status_num FDB_TSL_UNUSED = 0"
| "tsl_status_num FDB_TSL_PRE_WRITE = 1"
| "tsl_status_num FDB_TSL_WRITE = 2"
| "tsl_status_num FDB_TSL_USER_STATUS1 = 3"
| "tsl_status_num FDB_TSL_DELETED = 4"
| "tsl_status_num FDB_TSL_USER_STATUS2 = 5"

definition tsl_status_of :: "nat \<Rightarrow> fdb_tsl_status" where
  "tsl_status_of n =
     (if n = 0 then FDB_TSL_UNUSED else if n = 1 then FDB_TSL_PRE_WRITE
      else if n = 2 then FDB_TSL_WRITE else if n = 3 then FDB_TSL_USER_STATUS1
      else if n = 4 then FDB_TSL_DELETED else FDB_TSL_USER_STATUS2)"

fun store_num :: "fdb_sector_store_status \<Rightarrow> nat" where
  "store_num FDB_SECTOR_STORE_UNUSED = 0"
| "store_num FDB_SECTOR_STORE_EMPTY = 1"
| "store_num FDB_SECTOR_STORE_USING = 2"
| "store_num FDB_SECTOR_STORE_FULL = 3"

definition store_of :: "nat \<Rightarrow> fdb_sector_store_status" where
  "store_of n =
     (if n = 0 then FDB_SECTOR_STORE_UNUSED else if n = 1 then FDB_SECTOR_STORE_EMPTY
      else if n = 2 then FDB_SECTOR_STORE_USING else FDB_SECTOR_STORE_FULL)"

fun dirty_num :: "fdb_sector_dirty_status \<Rightarrow> nat" where
  "dirty_num FDB_SECTOR_DIRTY_UNUSED = 0"
| "dirty_num FDB_SECTOR_DIRTY_FALSE = 1"
| "dirty_num FDB_SECTOR_DIRTY_TRUE = 2"
| "dirty_num FDB_SECTOR_DIRTY_GC = 3"

definition dirty_of :: "nat \<Rightarrow> fdb_sector_dirty_status" where
  "dirty_of n =
     (if n = 0 then FDB_SECTOR_DIRTY_UNUSED else if n = 1 then FDB_SECTOR_DIRTY_FALSE
      else if n = 2 then FDB_SECTOR_DIRTY_TRUE else FDB_SECTOR_DIRTY_GC)"

lemma kv_status_of_num [simp]: "kv_status_of (kv_status_num s) = s"
  by (cases s) (simp_all add: kv_status_of_def)

lemma tsl_status_of_num [simp]: "tsl_status_of (tsl_status_num s) = s"
  by (cases s) (simp_all add: tsl_status_of_def)

lemma store_of_num [simp]: "store_of (store_num s) = s"
  by (cases s) (simp_all add: store_of_def)

lemma dirty_of_num [simp]: "dirty_of (dirty_num s) = s"
  by (cases s) (simp_all add: dirty_of_def)

lemma status_num_less [simp]:
  "kv_status_num k < FDB_KV_STATUS_NUM" "tsl_status_num t < FDB_TSL_STATUS_NUM"
  "store_num s < FDB_SECTOR_STORE_STATUS_NUM" "dirty_num d < FDB_SECTOR_DIRTY_STATUS_NUM"
  by (cases k; cases t; cases s; cases d; simp add: fdb_const)+

lemma status_num_le_8 [simp]:
  "FDB_KV_STATUS_NUM \<le> 8" "FDB_TSL_STATUS_NUM \<le> 8"
  "FDB_SECTOR_STORE_STATUS_NUM \<le> 8" "FDB_SECTOR_DIRTY_STATUS_NUM \<le> 8"
  by (simp_all add: fdb_const)

text \<open>The enumerations are ordered as in C, by the value of the enumerator.\<close>

instantiation fdb_kv_status :: linorder
begin

definition less_eq_fdb_kv_status :: "fdb_kv_status \<Rightarrow> fdb_kv_status \<Rightarrow> bool" where
  "less_eq_fdb_kv_status a b = (kv_status_num a \<le> kv_status_num b)"

definition less_fdb_kv_status :: "fdb_kv_status \<Rightarrow> fdb_kv_status \<Rightarrow> bool" where
  "less_fdb_kv_status a b = (kv_status_num a < kv_status_num b)"

instance
proof
  fix a b :: fdb_kv_status
  assume "a \<le> b" "b \<le> a"
  then have "kv_status_of (kv_status_num a) = kv_status_of (kv_status_num b)"
    by (simp add: less_eq_fdb_kv_status_def)
  then show "a = b" by simp
qed (auto simp: less_eq_fdb_kv_status_def less_fdb_kv_status_def)

end

subsection \<open>The tables\<close>

definition SIZE_MAX :: nat where
  [fdb_const]: "SIZE_MAX = 0xFFFFFFFF"

definition FDB_STATUS_TABLE_SIZE :: "nat \<Rightarrow> nat \<Rightarrow> nat" where
  "FDB_STATUS_TABLE_SIZE wg status_number =
     (if wg = 1 then (status_number * wg + 7) div 8 else ((status_number - 1) * wg + 7) div 8)"

text \<open>The byte index (\<open>SIZE_MAX\<close> when nothing has to be programmed) and the table.\<close>

definition fdb_set_status :: "nat \<Rightarrow> nat \<Rightarrow> nat \<Rightarrow> nat \<times> bytes" where
  "fdb_set_status wg status_num status_index =
     (let table = replicate (FDB_STATUS_TABLE_SIZE wg status_num) FDB_BYTE_ERASED in
      if status_index > 0 then
        if wg = 1 then
          let byte_index = (status_index - 1) div 8
          in (byte_index, table[byte_index := table ! byte_index AND drop_bit (status_index mod 8) 0xFF])
        else
          let byte_index = (status_index - 1) * (wg div 8)
          in (byte_index, table[byte_index := FDB_BYTE_WRITTEN])
      else (SIZE_MAX, table))"

definition status_cleared :: "nat \<Rightarrow> bytes \<Rightarrow> nat \<Rightarrow> bool" where
  "status_cleared wg table k =
     (if wg = 1 then (table ! (k div 8)) AND drop_bit (k mod 8) 0x80 = 0x00
      else table ! (k * wg div 8) = FDB_BYTE_WRITTEN)"

text \<open>The \<open>while (status_num --)\<close> loop: the number of rounds \<open>i\<close> before the \<open>break\<close>.\<close>

fun get_status_rounds :: "nat \<Rightarrow> bytes \<Rightarrow> nat \<Rightarrow> nat" where
  "get_status_rounds wg table 0 = 0"
| "get_status_rounds wg table (Suc k) =
     (if status_cleared wg table k then 0 else Suc (get_status_rounds wg table k))"

definition fdb_get_status :: "nat \<Rightarrow> bytes \<Rightarrow> nat \<Rightarrow> nat" where
  "fdb_get_status wg table status_num =
     (let n = u32_sub status_num 1 in n - get_status_rounds wg table n)"

text \<open>The granularities \<open>fdb_kvdb.c\<close> accepts at compile time.\<close>

definition valid_gran :: "nat \<Rightarrow> bool" where
  "valid_gran wg \<longleftrightarrow> wg \<in> {1, 8, 32, 64, 128}"

subsection \<open>What is read back\<close>

lemma get_status_rounds_le: "get_status_rounds wg t n \<le> n"
  by (induction n) auto

lemma get_status_rounds_eq:
  assumes "s \<le> n" "\<And>k. s \<le> k \<Longrightarrow> k < n \<Longrightarrow> \<not> status_cleared wg t k"
    and "0 < s \<Longrightarrow> status_cleared wg t (s - 1)"
  shows "get_status_rounds wg t n = n - s"
  using assms
proof (induction n)
  case (Suc n)
  show ?case
  proof (cases "s = Suc n")
    case True
    then show ?thesis using Suc.prems(3) by simp
  next
    case False
    with Suc.prems(1) have "s \<le> n" by simp
    then have "get_status_rounds wg t n = n - s"
      using Suc.prems(2,3) by (intro Suc.IH) auto
    then show ?thesis using Suc.prems(2) [of n] \<open>s \<le> n\<close> by (simp add: Suc_diff_le)
  qed
qed simp

lemma fdb_get_status_eq:
  assumes "s < n" "n < 4294967296" "\<And>k. s \<le> k \<Longrightarrow> Suc k < n \<Longrightarrow> \<not> status_cleared wg t k"
    and "0 < s \<Longrightarrow> status_cleared wg t (s - 1)"
  shows "fdb_get_status wg t n = s"
proof -
  have "get_status_rounds wg t (n - 1) = (n - 1) - s"
    using assms by (intro get_status_rounds_eq) auto
  then show ?thesis using assms by (simp add: fdb_get_status_def u32_sub_id Let_def)
qed

lemma fdb_get_status_less: "0 < n \<Longrightarrow> n < 4294967296 \<Longrightarrow> fdb_get_status wg t n < n"
  by (simp add: fdb_get_status_def u32_sub_id Let_def)

lemma status_bit_cleared:
  assumes "s < 8" "k < 8"
  shows "(drop_bit s 0xFF AND drop_bit k (0x80 :: byte) = 0) = (k < s)"
proof -
  have "s \<in> {0, 1, 2, 3, 4, 5, 6, 7}" "k \<in> {0, 1, 2, 3, 4, 5, 6, 7}" using assms by auto
  then show ?thesis by (elim insertE emptyE; simp)
qed

lemma byte_ones_and [simp]: "(255 :: byte) AND x = x" "x AND (255 :: byte) = x"
proof -
  have "(255 :: byte) = - 1" by simp
  then show "(255 :: byte) AND x = x" "x AND (255 :: byte) = x"
    by (simp_all only: and.left_neutral and.right_neutral)
qed

lemma table_size_wide:
  assumes "0 < m"
  shows "FDB_STATUS_TABLE_SIZE (8 * m) n = (n - 1) * m"
proof -
  have e: "(n - 1) * (8 * m) + 7 = 8 * ((n - 1) * m) + 7" by simp
  have "(8 * a + 7) div 8 = a" for a :: nat by simp
  then have "((n - 1) * (8 * m) + 7) div 8 = (n - 1) * m" unfolding e .
  moreover have "8 * m \<noteq> 1" using assms by presburger
  ultimately show ?thesis by (simp only: FDB_STATUS_TABLE_SIZE_def if_False)
qed

lemma cleared_set_status:
  assumes "valid_gran wg" "s < n" "Suc k < n" "n \<le> 8"
  shows "status_cleared wg (snd (fdb_set_status wg n s)) k =
         (if wg = 1 then k < s else 0 < s \<and> k = s - 1)"
proof (cases "wg = 1")
  case True
  then show ?thesis using assms status_bit_cleared [of s k]
    by (auto simp: fdb_set_status_def status_cleared_def FDB_STATUS_TABLE_SIZE_def fdb_const Let_def)
next
  case False
  then obtain m where m: "wg = 8 * m" "0 < m"
    using assms(1) by (auto simp: valid_gran_def) 
  have "k * m < (n - 1) * m" "(s - 1) * m < (n - 1) * m \<or> s = 0"
    using assms m by auto
  then show ?thesis using False m
    by (auto simp: fdb_set_status_def status_cleared_def table_size_wide [OF m(2)] m(1) fdb_const Let_def nth_list_update split: if_splits)
qed

lemma length_set_status [simp]:
  "length (snd (fdb_set_status wg n s)) = FDB_STATUS_TABLE_SIZE wg n"
  by (simp add: fdb_set_status_def Let_def)

lemma get_set_status:
  assumes "valid_gran wg" "s < n" "n \<le> 8"
  shows "fdb_get_status wg (snd (fdb_set_status wg n s)) n = s"
  using assms by (intro fdb_get_status_eq) (auto simp: cleared_set_status)

lemma status_cleared_and:
  assumes "valid_gran wg" "Suc k < n" "n \<le> 8"
    and t: "t = snd (fdb_set_status wg n i)" and u: "u = snd (fdb_set_status wg n j)"
    and ij: "i < n" "j < n"
  shows "status_cleared wg (map2 (AND) t u) k =
         (status_cleared wg t k \<or> status_cleared wg u k)"
proof (cases "wg = 1")
  case True
  have k: "k < 8" using assms by simp
  have len: "length t = 1" "length u = 1"
    using assms(2,3) True by (simp_all add: t u FDB_STATUS_TABLE_SIZE_def)
  have d: "drop_bit k (0x80 :: byte) = push_bit (7 - k) 1"
  proof -
    have "k \<in> {0, 1, 2, 3, 4, 5, 6, 7}" using k by auto
    then show ?thesis by (elim insertE emptyE; simp)
  qed
  have "(a AND drop_bit k 0x80 = 0) = (\<not> bit a (7 - k))" for a :: byte
    by (simp add: d and_exp_eq_0_iff_not_bit flip: push_bit_eq_mult)
  then show ?thesis using True k len
    by (simp add: status_cleared_def bit_and_iff)
next
  case False
  then obtain m where m: "wg = 8 * m" "0 < m"
    using assms(1) by (auto simp: valid_gran_def)
  have "k * m < (n - 1) * m" using assms m by auto
  then have len: "k * m < length t" "k * m < length u"
    by (simp_all add: t u m table_size_wide)
  have "set t \<subseteq> {0, 255}" "set u \<subseteq> {0, 255}"
    using False by (auto simp: t u fdb_set_status_def fdb_const Let_def
      dest!: set_update_subset_insert [THEN subsetD])
  then have "t ! (k * m) \<in> {0, 255}" "u ! (k * m) \<in> {0, 255}"
    using len by (auto dest!: nth_mem)
  then show ?thesis using False m len by (auto simp: status_cleared_def fdb_const)
qed

lemma get_programmed_status:
  assumes "valid_gran wg" "i < n" "j < n" "n \<le> 8"
  shows "fdb_get_status wg (map2 (AND) (snd (fdb_set_status wg n i)) (snd (fdb_set_status wg n j))) n
         = max i j"
proof (rule fdb_get_status_eq)
  show "max i j < n" "n < 4294967296" using assms by auto
next
  fix k assume "max i j \<le> k" "Suc k < n"
  then show "\<not> status_cleared wg (map2 (AND) (snd (fdb_set_status wg n i)) (snd (fdb_set_status wg n j))) k"
    using assms by (subst status_cleared_and [where n = n and i = i and j = j])
      (auto simp: cleared_set_status split: if_splits)
next
  assume "0 < max i j"
  then show "status_cleared wg (map2 (AND) (snd (fdb_set_status wg n i)) (snd (fdb_set_status wg n j))) (max i j - 1)"
    using assms by (subst status_cleared_and [where n = n and i = i and j = j])
      (auto simp: cleared_set_status max_def)
qed


lemma set_status_1:
  assumes "0 < s" "s < n" "n \<le> 8"
  shows "fdb_set_status FDB_WRITE_GRAN n s = (0, [drop_bit s 0xFF])"
proof -
  have "(n + 7) div 8 = 1" "(s - 1) div 8 = 0" using assms by linarith+
  moreover have "s mod 8 = s" using assms by simp
  ultimately show ?thesis using assms
    by (simp add: fdb_set_status_def FDB_STATUS_TABLE_SIZE_def fdb_const Let_def)
qed

lemma get_status_1:
  assumes "s < n" "n \<le> 8"
  shows "fdb_get_status FDB_WRITE_GRAN [drop_bit s 0xFF] n = s"
proof -
  have "fdb_get_status FDB_WRITE_GRAN (snd (fdb_set_status FDB_WRITE_GRAN n s)) n = s"
    using assms by (intro get_set_status) (auto simp: valid_gran_def FDB_WRITE_GRAN_def)
  moreover have "snd (fdb_set_status FDB_WRITE_GRAN n s) = [drop_bit s 0xFF]"
  proof (cases "s = 0")
    case True
    have "(n + 7) div 8 = 1" using assms by linarith
    then show ?thesis using True
      by (simp add: fdb_set_status_def FDB_STATUS_TABLE_SIZE_def fdb_const Let_def)
  next
    case False
    then show ?thesis using assms by (simp add: set_status_1)
  qed
  ultimately show ?thesis by simp
qed

subsection \<open>Properties\<close>

text \<open>
  C22: status round trip. For every write granularity the code supports and for each of the four
  enumerations, the status read back from the table \<open>_fdb_set_status\<close> builds is the status that
  was set.
\<close>

theorem status_roundtrip:
  assumes "valid_gran wg"
  shows "kv_status_of (fdb_get_status wg
           (snd (fdb_set_status wg FDB_KV_STATUS_NUM (kv_status_num k))) FDB_KV_STATUS_NUM) = k
       \<and> tsl_status_of (fdb_get_status wg
           (snd (fdb_set_status wg FDB_TSL_STATUS_NUM (tsl_status_num t))) FDB_TSL_STATUS_NUM) = t
       \<and> store_of (fdb_get_status wg
           (snd (fdb_set_status wg FDB_SECTOR_STORE_STATUS_NUM (store_num s)))
           FDB_SECTOR_STORE_STATUS_NUM) = s
       \<and> dirty_of (fdb_get_status wg
           (snd (fdb_set_status wg FDB_SECTOR_DIRTY_STATUS_NUM (dirty_num d)))
           FDB_SECTOR_DIRTY_STATUS_NUM) = d"
  by (simp add: get_set_status [OF assms] status_num_le_8)

theorem status_roundtrip_witness:
  "valid_gran 32 \<and> kv_status_of (fdb_get_status 32
     (snd (fdb_set_status 32 FDB_KV_STATUS_NUM (kv_status_num FDB_KV_PRE_DELETE)))
     FDB_KV_STATUS_NUM) = FDB_KV_PRE_DELETE"
proof -
  have h: "valid_gran 32" by (simp add: valid_gran_def)
  show ?thesis using h status_roundtrip [OF h, of FDB_KV_PRE_DELETE] by blast
qed

text \<open>
  C23: status steps only clear bits and never go back. Programming the table of status \<open>j\<close> over
  the table of status \<open>i\<close> on NOR flash (a write can only turn ones into zeros) leaves a table
  that reads as the later of the two, for every granularity: a step needs no erase, and a step
  that is repeated or that comes late after a power failure cannot undo a later status.
\<close>

theorem status_program_monotone:
  assumes "valid_gran wg" "status_num \<le> 8" "i < status_num" "j < status_num"
  shows "fdb_get_status wg
           (map2 (AND) (snd (fdb_set_status wg status_num i)) (snd (fdb_set_status wg status_num j)))
           status_num = max i j"
  using assms by (intro get_programmed_status)

theorem status_program_monotone_witness:
  "valid_gran 8 \<and> fdb_get_status 8
     (map2 (AND) (snd (fdb_set_status 8 6 4)) (snd (fdb_set_status 8 6 1))) 6 = 4"
proof -
  have h: "valid_gran 8" by (simp add: valid_gran_def)
  show ?thesis using h status_program_monotone [OF h, of 6 4 1] by simp
qed

end
