(* ===== verification/Fal_Flash.thy ===== *)
theory Fal_Flash
  imports Fdb_Prelude
begin

text \<open>
  Flash devices of the flash abstraction layer: \<open>fal_def.h\<close>, \<open>fal_flash.c\<close> and the three
  drivers of the module, \<open>porting/fal_flash_mem_blk.c\<close> (a block of RAM),
  \<open>porting/fal_flash_virt_parts.c\<close> (a read-only page holding the partition table) and
  \<open>porting/fal_flash_nor_flash.c\<close> (detection of MTD partitions; its accesses are stubs).

  A driver is a record of its function pointers. Every driver function gets the driver's own
  data, and \<open>init\<close> the data of all devices in the order of the device table, since the drivers
  share globals. A driver returns \<^const>\<open>None\<close> where its \<open>memcpy\<close> or \<open>memset\<close> would leave the
  memory it owns. What the kernel provides is a parameter: \<open>malloc\<close> (\<open>flashdb_malloc\<close>, the
  contents of the block it returns), the list of MTD devices, and the module parameters.
\<close>

subsection \<open>Devices (\<open>fal_def.h\<close>)\<close>

definition FAL_DEV_NAME_MAX :: nat where
  [fdb_const]: "FAL_DEV_NAME_MAX = 24"

definition FAL_PART_MAGIC_WORD :: nat where
  [fdb_const]: "FAL_PART_MAGIC_WORD = 0x45503130"

record flash_info =
  dev_name :: bytes
  dev_addr :: nat
  dev_len :: nat
  dev_blk_size :: nat
  dev_write_gran :: nat
  dev_mem :: "bytes option"

text \<open>
  \<open>op_init\<close> is \<^const>\<open>None\<close> for a null pointer. The buffer given to \<open>op_read\<close> has the
  length of the read; the buffer after the call is returned beside the code's \<open>int\<close> result.
\<close>

record flash_ops =
  op_init :: "(flash_info list \<Rightarrow> (int \<times> flash_info list) option) option"
  op_read :: "flash_info \<Rightarrow> int \<Rightarrow> bytes \<Rightarrow> (int \<times> bytes) option"
  op_write :: "flash_info \<Rightarrow> int \<Rightarrow> bytes \<Rightarrow> (int \<times> flash_info) option"
  op_erase :: "flash_info \<Rightarrow> int \<Rightarrow> nat \<Rightarrow> (int \<times> flash_info) option"

definition cstr :: "string \<Rightarrow> bytes" where
  "cstr s = map of_char s"

subsection \<open>Memory accesses of a driver\<close>

definition mem_load :: "bytes \<Rightarrow> int \<Rightarrow> nat \<Rightarrow> bytes option" where
  "mem_load m off n =
     (if 0 \<le> off \<and> nat off + n \<le> length m then Some (slice (nat off) n m) else None)"

definition mem_store :: "bytes \<Rightarrow> int \<Rightarrow> bytes \<Rightarrow> bytes option" where
  "mem_store m off bs =
     (if 0 \<le> off \<and> nat off + length bs \<le> length m then Some (splice m (nat off) bs) else None)"

subsection \<open>The RAM device (\<open>fal_flash_mem_blk.c\<close>)\<close>

definition MEM_FLASH_DEV_NAME :: bytes where
  "MEM_FLASH_DEV_NAME = cstr ''MEM''"

definition mem_blk :: flash_info where
  "mem_blk = \<lparr>dev_name = MEM_FLASH_DEV_NAME, dev_addr = 0, dev_len = 32 * 1024,
     dev_blk_size = 4096, dev_write_gran = 1, dev_mem = None\<rparr>"

text \<open>\<open>_init\<close> sets the length to the module parameter; \<open>mem_blk\<close> is entry 1 of the device table.\<close>

definition mem_blk_init :: "int \<Rightarrow> flash_info list \<Rightarrow> (int \<times> flash_info list) option" where
  "mem_blk_init param_part_size devs =
     Some (0, devs[1 := (devs ! 1)\<lparr>dev_len := u32_of_int param_part_size\<rparr>])"

text \<open>
  \<open>_get_mem_blk_addr\<close>: the block is allocated at the first access, in a static pointer. The
  allocation is deterministic here, so an access that only reads need not record it.
\<close>

definition get_mem_blk_addr :: "(nat \<Rightarrow> bytes option) \<Rightarrow> flash_info \<Rightarrow> bytes option" where
  "get_mem_blk_addr malloc dev =
     (case dev_mem dev of None \<Rightarrow> malloc (dev_len dev) | Some m \<Rightarrow> Some m)"

definition mem_blk_read ::
  "(nat \<Rightarrow> bytes option) \<Rightarrow> flash_info \<Rightarrow> int \<Rightarrow> bytes \<Rightarrow> (int \<times> bytes) option" where
  "mem_blk_read malloc dev offset buf =
     (case get_mem_blk_addr malloc dev of
        None \<Rightarrow> Some (0, buf)
      | Some m \<Rightarrow> do {
          bs \<leftarrow> mem_load m offset (length buf);
          Some (s32 (int (length buf)), bs)
        })"

definition mem_blk_write ::
  "(nat \<Rightarrow> bytes option) \<Rightarrow> flash_info \<Rightarrow> int \<Rightarrow> bytes \<Rightarrow> (int \<times> flash_info) option" where
  "mem_blk_write malloc dev offset buf =
     (case get_mem_blk_addr malloc dev of
        None \<Rightarrow> Some (0, dev)
      | Some m \<Rightarrow> do {
          m' \<leftarrow> mem_store m offset buf;
          Some (s32 (int (length buf)), dev\<lparr>dev_mem := Some m'\<rparr>)
        })"

definition mem_blk_erase ::
  "(nat \<Rightarrow> bytes option) \<Rightarrow> flash_info \<Rightarrow> int \<Rightarrow> nat \<Rightarrow> (int \<times> flash_info) option" where
  "mem_blk_erase malloc dev offset sz =
     (case get_mem_blk_addr malloc dev of
        None \<Rightarrow> Some (0, dev)
      | Some m \<Rightarrow> do {
          m' \<leftarrow> mem_store m offset (replicate sz 0xFF);
          Some (s32 (int sz), dev\<lparr>dev_mem := Some m'\<rparr>)
        })"

definition mem_blk_ops :: "(nat \<Rightarrow> bytes option) \<Rightarrow> int \<Rightarrow> flash_ops" where
  "mem_blk_ops malloc param_part_size =
     \<lparr>op_init = Some (mem_blk_init param_part_size), op_read = mem_blk_read malloc,
      op_write = mem_blk_write malloc, op_erase = mem_blk_erase malloc\<rparr>"

subsection \<open>Writing partition entries into the table page\<close>

text \<open>
  \<open>struct fal_partition\<close> is 64 bytes on the target: \<open>magic_word\<close> at 0, \<open>name[24]\<close> at 4,
  \<open>flash_name[24]\<close> at 28, \<open>offset\<close> at 52, \<open>len\<close> at 56, \<open>reserved\<close> at 60. The detection code
  writes the fields one by one through a pointer into the page, the names with \<open>strcpy\<close>.
\<close>

definition PART_SIZE :: nat where [fdb_const]: "PART_SIZE = 64"
definition PART_NAME_OFS :: nat where [fdb_const]: "PART_NAME_OFS = 4"
definition PART_FLASH_NAME_OFS :: nat where [fdb_const]: "PART_FLASH_NAME_OFS = 28"
definition PART_OFFSET_OFS :: nat where [fdb_const]: "PART_OFFSET_OFS = 52"
definition PART_LEN_OFS :: nat where [fdb_const]: "PART_LEN_OFS = 56"

definition put_field :: "nat \<Rightarrow> nat \<Rightarrow> bytes \<Rightarrow> bytes \<Rightarrow> bytes option" where
  "put_field i ofs bs page = mem_store page (int (i * PART_SIZE + ofs)) bs"

text \<open>\<open>fal_flash_mem_blk_detect\<close>, for the entry number \<open>i\<close> of the page.\<close>

definition fal_flash_mem_blk_detect ::
  "bytes \<Rightarrow> flash_info \<Rightarrow> nat \<Rightarrow> bytes \<Rightarrow> (int \<times> bytes) option" where
  "fal_flash_mem_blk_detect param_part_name blk i page = do {
     page \<leftarrow> put_field i 0 (le32 FAL_PART_MAGIC_WORD) page;
     page \<leftarrow> put_field i PART_NAME_OFS (param_part_name @ [0]) page;
     page \<leftarrow> put_field i PART_FLASH_NAME_OFS (MEM_FLASH_DEV_NAME @ [0]) page;
     page \<leftarrow> put_field i PART_OFFSET_OFS (le32 0) page;
     page \<leftarrow> put_field i PART_LEN_OFS (le32 (dev_len blk)) page;
     Some (0, page)
   }"

subsection \<open>MTD detection (\<open>fal_flash_nor_flash.c\<close>)\<close>

text \<open>What the MTD layer says of one device: a parameter, its code is the kernel's.\<close>

record mtd_dev =
  mtd_name :: bytes
  mtd_size :: nat
  mtd_master_ofs :: nat
  master_name :: bytes
  master_size :: nat
  master_erasesize :: nat

definition NOR_FLASH_DEV_NAME :: bytes where
  "NOR_FLASH_DEV_NAME = cstr ''norflash0''"

definition nor_flash0 :: flash_info where
  "nor_flash0 = \<lparr>dev_name = NOR_FLASH_DEV_NAME, dev_addr = 0, dev_len = 0, dev_blk_size = 0,
     dev_write_gran = 1, dev_mem = None\<rparr>"

text \<open>
  \<open>_init\<close> uses the first MTD device without checking that there is one; without one it
  works on an error pointer. \<open>strcpy\<close> of a master name longer than the field leaves the array.
\<close>

definition nor_flash_init :: "mtd_dev list \<Rightarrow> flash_info list \<Rightarrow> (int \<times> flash_info list) option" where
  "nor_flash_init mtds devs =
     (case mtds of
        [] \<Rightarrow> None
      | mtd # _ \<Rightarrow>
          if length (master_name mtd) < FAL_DEV_NAME_MAX then
            Some (0, devs[2 := (devs ! 2)\<lparr>dev_len := u32 (master_size mtd),
              dev_blk_size := master_erasesize mtd, dev_name := master_name mtd\<rparr>])
          else None)"

text \<open>The accesses of this driver are stubs: they succeed with result 0 and do nothing.\<close>

definition nor_flash_read :: "flash_info \<Rightarrow> int \<Rightarrow> bytes \<Rightarrow> (int \<times> bytes) option" where
  "nor_flash_read dev offset buf = Some (0, buf)"

definition nor_flash_write :: "flash_info \<Rightarrow> int \<Rightarrow> bytes \<Rightarrow> (int \<times> flash_info) option" where
  "nor_flash_write dev offset buf = Some (0, dev)"

definition nor_flash_erase :: "flash_info \<Rightarrow> int \<Rightarrow> nat \<Rightarrow> (int \<times> flash_info) option" where
  "nor_flash_erase dev offset sz = Some (0, dev)"

definition nor_flash_ops :: "mtd_dev list \<Rightarrow> flash_ops" where
  "nor_flash_ops mtds =
     \<lparr>op_init = Some (nor_flash_init mtds), op_read = nor_flash_read,
      op_write = nor_flash_write, op_erase = nor_flash_erase\<rparr>"

text \<open>
  \<open>fal_flash_nor_flash_detect\<close>: the first 64 MTD devices, those of the configured master get
  an entry each, starting at entry \<open>base\<close>. The loop stops at the first number without a device.
\<close>

fun nor_flash_detect_loop ::
  "bytes \<Rightarrow> mtd_dev list \<Rightarrow> nat \<Rightarrow> int \<Rightarrow> bytes \<Rightarrow> (int \<times> bytes) option" where
  "nor_flash_detect_loop param_mtd_name [] base part_num page = Some (part_num, page)"
| "nor_flash_detect_loop param_mtd_name (mtd # mtds) base part_num page =
     (if \<not> strncmp_eq (master_name mtd @ [0]) (param_mtd_name @ [0]) (Suc (length (master_name mtd)))
      then nor_flash_detect_loop param_mtd_name mtds base part_num page
      else
        let i = base + nat part_num in do {
          page \<leftarrow> put_field i PART_FLASH_NAME_OFS (master_name mtd @ [0]) page;
          page \<leftarrow> put_field i 0 (le32 FAL_PART_MAGIC_WORD) page;
          page \<leftarrow> put_field i PART_NAME_OFS (mtd_name mtd @ [0]) page;
          page \<leftarrow> put_field i PART_OFFSET_OFS (le32 (mtd_master_ofs mtd)) page;
          page \<leftarrow> put_field i PART_LEN_OFS (le32 (mtd_size mtd)) page;
          nor_flash_detect_loop param_mtd_name mtds base (part_num + 1) page
        })"

definition fal_flash_nor_flash_detect ::
  "bytes \<Rightarrow> mtd_dev list \<Rightarrow> nat \<Rightarrow> bytes \<Rightarrow> (int \<times> bytes) option" where
  "fal_flash_nor_flash_detect param_mtd_name mtds base page =
     nor_flash_detect_loop param_mtd_name (take 64 mtds) base 0 page"

subsection \<open>The partition table page (\<open>fal_flash_virt_parts.c\<close>)\<close>

definition VIRT_FLASH_SIZE :: nat where
  [fdb_const]: "VIRT_FLASH_SIZE = 1024"

definition VIRT_PARTS_FLASH_DEV_NAME :: bytes where
  "VIRT_PARTS_FLASH_DEV_NAME = cstr ''virt''"

definition virt_parts :: flash_info where
  "virt_parts = \<lparr>dev_name = VIRT_PARTS_FLASH_DEV_NAME, dev_addr = 0, dev_len = VIRT_FLASH_SIZE,
     dev_blk_size = 1024, dev_write_gran = 1, dev_mem = Some (replicate VIRT_FLASH_SIZE 0)\<rparr>"

text \<open>
  \<open>detect_partition\<close>, with \<open>STORE_VIRT_PARTS_TO_TABLE\<close> undefined as in the module's build. The
  entry of the RAM device takes the length \<open>mem_blk\<close> has at this moment.
\<close>

definition detect_partition ::
  "bytes \<Rightarrow> bytes \<Rightarrow> mtd_dev list \<Rightarrow> flash_info list \<Rightarrow> (int \<times> flash_info list) option" where
  "detect_partition param_part_name param_mtd_name mtds devs =
     (let page = (case dev_mem (devs ! 0) of None \<Rightarrow> [] | Some m \<Rightarrow> m) in do {
        (ret, page) \<leftarrow> fal_flash_nor_flash_detect param_mtd_name mtds 0 page;
        if ret < 0 then Some (- 1, devs[0 := (devs ! 0)\<lparr>dev_mem := Some page\<rparr>])
        else do {
          let count = ret;
          (ret, page) \<leftarrow> fal_flash_mem_blk_detect param_part_name (devs ! 1) (nat count) page;
          let devs = devs[0 := (devs ! 0)\<lparr>dev_mem := Some page\<rparr>];
          if ret < 0 then Some (- 1, devs) else Some (count + ret, devs)
        }
      })"

definition virt_parts_read :: "flash_info \<Rightarrow> int \<Rightarrow> bytes \<Rightarrow> (int \<times> bytes) option" where
  "virt_parts_read dev offset buf =
     (if offset < 0 then Some (0, buf)
      else if u32 (nat offset + length buf) > VIRT_FLASH_SIZE then Some (0, buf)
      else case dev_mem dev of
        None \<Rightarrow> None
      | Some m \<Rightarrow> do {
          bs \<leftarrow> mem_load m offset (length buf);
          Some (s32 (int (length buf)), bs)
        })"

definition virt_parts_write :: "flash_info \<Rightarrow> int \<Rightarrow> bytes \<Rightarrow> (int \<times> flash_info) option" where
  "virt_parts_write dev offset buf = Some (0, dev)"

definition virt_parts_erase :: "flash_info \<Rightarrow> int \<Rightarrow> nat \<Rightarrow> (int \<times> flash_info) option" where
  "virt_parts_erase dev offset sz = Some (0, dev)"

definition virt_parts_ops :: "bytes \<Rightarrow> bytes \<Rightarrow> mtd_dev list \<Rightarrow> flash_ops" where
  "virt_parts_ops param_part_name param_mtd_name mtds =
     \<lparr>op_init = Some (detect_partition param_part_name param_mtd_name mtds),
      op_read = virt_parts_read, op_write = virt_parts_write, op_erase = virt_parts_erase\<rparr>"

subsection \<open>The device table (\<open>fal_cfg.h\<close>, \<open>fal_flash.c\<close>)\<close>

definition device_infos_init :: "flash_info list" where
  "device_infos_init = [virt_parts, mem_blk, nor_flash0]"

definition device_table ::
  "bytes \<Rightarrow> int \<Rightarrow> bytes \<Rightarrow> mtd_dev list \<Rightarrow> (nat \<Rightarrow> bytes option) \<Rightarrow> flash_ops list" where
  "device_table param_part_name param_part_size param_mtd_name mtds malloc =
     [virt_parts_ops param_part_name param_mtd_name mtds, mem_blk_ops malloc param_part_size,
      nor_flash_ops mtds]"

text \<open>
  The loop of \<open>fal_flash_init\<close>. \<open>ret\<close> keeps its value where a device has no \<open>init\<close>; the loop
  stops at the first negative result.
\<close>

fun flash_init_loop ::
  "flash_ops list \<Rightarrow> int \<Rightarrow> flash_info list \<Rightarrow> (int \<times> flash_info list) option" where
  "flash_init_loop [] ret devs = Some (0, devs)"
| "flash_init_loop (ops # rest) ret devs = do {
     (ret, devs) \<leftarrow> (case op_init ops of None \<Rightarrow> Some (ret, devs) | Some init \<Rightarrow> init devs);
     if ret < 0 then Some (ret, devs) else flash_init_loop rest ret devs
   }"

definition flash_device_find :: "flash_info list \<Rightarrow> bytes \<Rightarrow> nat option" where
  "flash_device_find devs name =
     List.find (\<lambda>i. strncmp_eq (name @ [0]) (dev_name (devs ! i) @ [0]) FAL_DEV_NAME_MAX)
       [0..<length devs]"

end
