(* ===== verification/Fal_Partition.thy ===== *)
theory Fal_Partition
  imports Fal_Flash
begin

text \<open>
  Partitions of the flash abstraction layer (\<open>fal_partition.c\<close>, \<open>fal_flash.c\<close>, \<open>fal.c\<close>) as the
  module builds them: \<open>FDB_LKM\<close> defined, \<open>FAL_PART_HAS_TABLE_CFG\<close> undefined, so the partition
  table is searched for on the device \<open>virt\<close>. The state of the layer is the record \<open>fal\<close>: the
  device table with the drivers' data, and the static variables of the three files. A pointer
  to a partition is its index in the partition table.
\<close>

record fal_partition =
  part_magic_word :: nat
  part_name :: bytes
  part_flash_name :: bytes
  part_offset :: int
  part_len :: nat
  part_reserved :: nat

text \<open>
  An entry of \<open>part_flash_cache\<close>: a device pointer. The cache comes from \<open>FAL_MALLOC\<close>, which
  does not clear it, so an entry that is never assigned is \<open>Dev_junk\<close>, not a null pointer.
\<close>

datatype part_flash_info = Dev_null | Dev nat | Dev_junk

record fal =
  fal_ops :: "flash_ops list"
  fal_infos :: "flash_info list"
  fal_flash_init_ok :: bool
  fal_partition_table :: "fal_partition list"
  fal_part_flash_cache :: "part_flash_info list"
  fal_partition_table_len :: nat
  fal_partition_init_ok :: bool
  fal_init_ok :: bool
  fal_kmalloc_ok :: "nat \<Rightarrow> bool"
  fal_stack_junk :: byte

text \<open>
  \<open>fal_kmalloc_ok\<close> (whether an allocation of so many bytes succeeds) and \<open>fal_stack_junk\<close> (what
  memory that was never written reads as) stand for the environment; nothing changes them.
\<close>

subsection \<open>Devices by name\<close>

definition fal_flash_init :: "fal \<Rightarrow> (int \<times> fal) option" where
  "fal_flash_init f =
     (if fal_flash_init_ok f then Some (0, f)
      else do {
        (ret, infos) \<leftarrow> flash_init_loop (fal_ops f) 0 (fal_infos f);
        let f = f\<lparr>fal_infos := infos\<rparr>;
        if ret < 0 then Some (ret, f) else Some (0, f\<lparr>fal_flash_init_ok := True\<rparr>)
      })"

definition fal_flash_device_find :: "fal \<Rightarrow> bytes \<Rightarrow> nat option" where
  "fal_flash_device_find f name = flash_device_find (fal_infos f) name"

subsection \<open>The cache of device pointers\<close>

fun part_cache_loop ::
  "fal \<Rightarrow> fal_partition list \<Rightarrow> nat \<Rightarrow> part_flash_info list \<Rightarrow> int \<times> part_flash_info list" where
  "part_cache_loop f [] i cache = (0, cache)"
| "part_cache_loop f (p # ps) i cache =
     (case fal_flash_device_find f (part_flash_name p) of
        None \<Rightarrow> part_cache_loop f ps (Suc i) cache
      | Some d \<Rightarrow>
          if part_offset p \<ge> s32 (int (dev_len (fal_infos f ! d))) then (- 1, cache)
          else part_cache_loop f ps (Suc i) (cache[i := Dev d]))"

definition check_and_update_part_cache :: "fal \<Rightarrow> fal_partition list \<Rightarrow> int \<times> fal" where
  "check_and_update_part_cache f table =
     (if \<not> fal_kmalloc_ok f (length table * 4) then (- 2, f\<lparr>fal_part_flash_cache := []\<rparr>)
      else
        let (ret, cache) = part_cache_loop f table 0 (replicate (length table) Dev_junk);
            f = f\<lparr>fal_part_flash_cache := cache\<rparr>
        in if ret < 0 then (ret, f\<lparr>fal_partition_table_len := 0\<rparr>) else (0, f))"

subsection \<open>Loading the partition table\<close>

definition FAL_PART_TABLE_FLASH_DEV_NAME :: bytes where
  "FAL_PART_TABLE_FLASH_DEV_NAME = VIRT_PARTS_FLASH_DEV_NAME"

definition FAL_PART_TABLE_END_OFFSET :: int where
  [fdb_const]: "FAL_PART_TABLE_END_OFFSET = 1023"

definition c_str_at :: "bytes \<Rightarrow> nat \<Rightarrow> bytes" where
  "c_str_at m a = takeWhile (\<lambda>b. b \<noteq> 0) (drop a m)"

definition partition_of_bytes :: "bytes \<Rightarrow> fal_partition" where
  "partition_of_bytes m =
     \<lparr>part_magic_word = of_le32 (slice 0 4 m), part_name = c_str_at m PART_NAME_OFS,
      part_flash_name = c_str_at m PART_FLASH_NAME_OFS,
      part_offset = s32 (int (of_le32 (slice PART_OFFSET_OFS 4 m))),
      part_len = of_le32 (slice PART_LEN_OFS 4 m), part_reserved = of_le32 (slice 60 4 m)\<rparr>"

definition find_part_magic :: "bytes \<Rightarrow> nat option" where
  "find_part_magic read_buf =
     List.find (\<lambda>i. of_le32 (slice i 4 read_buf) = FAL_PART_MAGIC_WORD) [0..<61]"

text \<open>
  The search for the table, downwards from its end offset in windows of 64 bytes that overlap
  by three: \<^const>\<open>Some\<close> of whether it was found, and the offset.
\<close>

partial_function (option) find_part_table ::
  "flash_ops \<Rightarrow> flash_info \<Rightarrow> bytes \<Rightarrow> int \<Rightarrow> (bool \<times> int) option" where
  "find_part_table ops dev read_buf offset =
     (if offset < 0 then Some (False, offset)
      else do {
        (ret, read_buf) \<leftarrow> op_read ops dev offset read_buf;
        if ret > 0 then
          (case find_part_magic read_buf of
             Some i \<Rightarrow> Some (True, offset + int i)
           | None \<Rightarrow>
               if offset \<ge> 64 then find_part_table ops dev read_buf (offset - 64 + 3)
               else if offset \<noteq> 0 then find_part_table ops dev read_buf 0
               else Some (False, offset))
        else Some (False, offset)
      })"

text \<open>
  The first pass counts the entries, downwards from the one that was found. \<open>memset\<close> clears
  \<open>table_num\<close> bytes of the buffer, not its whole length.
\<close>

partial_function (option) count_parts ::
  "flash_ops \<Rightarrow> flash_info \<Rightarrow> int \<Rightarrow> bytes \<Rightarrow> nat \<Rightarrow> (nat \<times> bytes) option" where
  "count_parts ops dev offset new_part table_num =
     (if table_num > PART_SIZE then None
      else do {
        let new_part = replicate table_num 0 @ drop table_num new_part;
        (ret, new_part) \<leftarrow> op_read ops dev (s32 (offset - int (PART_SIZE * table_num))) new_part;
        if ret < 0 then Some (0, new_part)
        else if of_le32 (slice 0 4 new_part) \<noteq> FAL_PART_MAGIC_WORD then Some (table_num, new_part)
        else count_parts ops dev offset new_part (Suc table_num)
      })"

text \<open>The second pass reads the entries: \<^const>\<open>None\<close> inside the pair is a read error.\<close>

fun load_parts ::
  "flash_ops \<Rightarrow> flash_info \<Rightarrow> int \<Rightarrow> nat list \<Rightarrow> fal_partition list \<Rightarrow> fal_partition list option option"
where
  "load_parts ops dev offset [] acc = Some (Some acc)"
| "load_parts ops dev offset (i # is) acc = do {
     (ret, new_part) \<leftarrow> op_read ops dev (s32 (offset - int (PART_SIZE * i))) (replicate PART_SIZE 0);
     if ret < 0 then Some None
     else load_parts ops dev offset is (acc @ [partition_of_bytes new_part])
   }"

definition fal_partition_init :: "fal \<Rightarrow> (int \<times> fal) option" where
  "fal_partition_init f =
     (if fal_partition_init_ok f then Some (int (fal_partition_table_len f), f)
      else case fal_flash_device_find f FAL_PART_TABLE_FLASH_DEV_NAME of
        None \<Rightarrow> Some (int (fal_partition_table_len f), f)
      | Some d \<Rightarrow>
          let ops = fal_ops f ! d; dev = fal_infos f ! d; junk = fal_stack_junk f in
          if FAL_PART_TABLE_END_OFFSET < 0 \<or> FAL_PART_TABLE_END_OFFSET \<ge> s32 (int (dev_len dev))
          then Some (int (fal_partition_table_len f), f)
          else if \<not> fal_kmalloc_ok f PART_SIZE then Some (int (fal_partition_table_len f), f)
          else do {
            (found, offset) \<leftarrow>
              find_part_table ops dev (replicate 64 junk) (FAL_PART_TABLE_END_OFFSET - 64);
            (table_num, new_part) \<leftarrow>
              (if found then count_parts ops dev offset (replicate PART_SIZE junk) 0
               else Some (0, replicate PART_SIZE junk));
            if table_num = 0 then Some (int (fal_partition_table_len f), f)
            else if \<not> fal_kmalloc_ok f (PART_SIZE * table_num)
            then Some (int (fal_partition_table_len f), f\<lparr>fal_partition_table := []\<rparr>)
            else do {
              loaded \<leftarrow> load_parts ops dev offset [0..<table_num] [];
              case loaded of
                None \<Rightarrow> Some (int (fal_partition_table_len f), f\<lparr>fal_partition_table := []\<rparr>)
              | Some table \<Rightarrow>
                  let f = f\<lparr>fal_partition_table := table, fal_partition_table_len := table_num\<rparr>;
                      (ret, f) = check_and_update_part_cache f table
                  in if ret \<noteq> 0 then Some (int (fal_partition_table_len f), f)
                     else Some (int (fal_partition_table_len f), f\<lparr>fal_partition_init_ok := True\<rparr>)
            }
          })"

subsection \<open>Partitions by name\<close>

definition fal_partition_find :: "fal \<Rightarrow> bytes \<Rightarrow> nat option" where
  "fal_partition_find f name =
     List.find (\<lambda>i. part_name (fal_partition_table f ! i) = name) [0..<fal_partition_table_len f]"

definition fal_get_partition_table :: "fal \<Rightarrow> fal_partition list \<times> nat" where
  "fal_get_partition_table f = (fal_partition_table f, fal_partition_table_len f)"

definition fal_set_partition_table_temp :: "fal \<Rightarrow> fal_partition list \<Rightarrow> fal" where
  "fal_set_partition_table_temp f table =
     (let (ret, f) = check_and_update_part_cache f table
      in f\<lparr>fal_partition_table_len := length table, fal_partition_table := table\<rparr>)"

text \<open>\<^const>\<open>None\<close> outside the cache: the code indexes the array without a check.\<close>

definition flash_device_find_by_part :: "fal \<Rightarrow> nat \<Rightarrow> part_flash_info option" where
  "flash_device_find_by_part f p =
     (if p < length (fal_part_flash_cache f) then Some (fal_part_flash_cache f ! p) else None)"

subsection \<open>Access to a partition\<close>

text \<open>\<open>long + uint32_t\<close>, passed on as a \<open>long\<close>.\<close>

definition dev_offset :: "fal \<Rightarrow> nat \<Rightarrow> nat \<Rightarrow> int" where
  "dev_offset f p addr = s32 (part_offset (fal_partition_table f ! p) + int addr)"

definition fal_partition_read :: "fal \<Rightarrow> nat \<Rightarrow> nat \<Rightarrow> bytes \<Rightarrow> (int \<times> bytes) option" where
  "fal_partition_read f p addr buf =
     (if u32 (addr + length buf) > part_len (fal_partition_table f ! p) then Some (- 1, buf)
      else do {
        dev \<leftarrow> flash_device_find_by_part f p;
        case dev of
          Dev_null \<Rightarrow> Some (- 1, buf)
        | Dev_junk \<Rightarrow> None
        | Dev d \<Rightarrow> op_read (fal_ops f ! d) (fal_infos f ! d) (dev_offset f p addr) buf
      })"

definition fal_partition_write :: "fal \<Rightarrow> nat \<Rightarrow> nat \<Rightarrow> bytes \<Rightarrow> (int \<times> fal) option" where
  "fal_partition_write f p addr buf =
     (if u32 (addr + length buf) > part_len (fal_partition_table f ! p) then Some (- 1, f)
      else do {
        dev \<leftarrow> flash_device_find_by_part f p;
        case dev of
          Dev_null \<Rightarrow> Some (- 1, f)
        | Dev_junk \<Rightarrow> None
        | Dev d \<Rightarrow> do {
            (ret, info) \<leftarrow> op_write (fal_ops f ! d) (fal_infos f ! d) (dev_offset f p addr) buf;
            Some (ret, f\<lparr>fal_infos := (fal_infos f)[d := info]\<rparr>)
          }
      })"

definition fal_partition_erase :: "fal \<Rightarrow> nat \<Rightarrow> nat \<Rightarrow> nat \<Rightarrow> (int \<times> fal) option" where
  "fal_partition_erase f p addr sz =
     (if u32 (addr + sz) > part_len (fal_partition_table f ! p) then Some (- 1, f)
      else do {
        dev \<leftarrow> flash_device_find_by_part f p;
        case dev of
          Dev_null \<Rightarrow> Some (- 1, f)
        | Dev_junk \<Rightarrow> None
        | Dev d \<Rightarrow> do {
            (ret, info) \<leftarrow> op_erase (fal_ops f ! d) (fal_infos f ! d) (dev_offset f p addr) sz;
            Some (ret, f\<lparr>fal_infos := (fal_infos f)[d := info]\<rparr>)
          }
      })"

definition fal_partition_erase_all :: "fal \<Rightarrow> nat \<Rightarrow> (int \<times> fal) option" where
  "fal_partition_erase_all f p = fal_partition_erase f p 0 (part_len (fal_partition_table f ! p))"

subsection \<open>Initialisation (\<open>fal.c\<close>)\<close>

definition fal_init :: "fal \<Rightarrow> (int \<times> fal) option" where
  "fal_init f = do {
     (result, f) \<leftarrow> fal_flash_init f;
     (result, f) \<leftarrow> (if result < 0 then Some (result, f) else fal_partition_init f);
     if result > 0 \<and> \<not> fal_init_ok f then Some (result, f\<lparr>fal_init_ok := True\<rparr>)
     else if result \<le> 0 then Some (result, f\<lparr>fal_init_ok := False\<rparr>)
     else Some (result, f)
   }"

definition fal_init_check :: "fal \<Rightarrow> bool" where
  "fal_init_check f = fal_init_ok f"

text \<open>The state of the layer when the module is loaded.\<close>

definition fal_load ::
  "bytes \<Rightarrow> int \<Rightarrow> bytes \<Rightarrow> mtd_dev list \<Rightarrow> (nat \<Rightarrow> bytes option) \<Rightarrow> (nat \<Rightarrow> bool) \<Rightarrow> byte \<Rightarrow> fal" where
  "fal_load param_part_name param_part_size param_mtd_name mtds malloc kmalloc_ok junk =
     \<lparr>fal_ops = device_table param_part_name param_part_size param_mtd_name mtds malloc,
      fal_infos = device_infos_init, fal_flash_init_ok = False, fal_partition_table = [],
      fal_part_flash_cache = [], fal_partition_table_len = 0, fal_partition_init_ok = False,
      fal_init_ok = False, fal_kmalloc_ok = kmalloc_ok, fal_stack_junk = junk\<rparr>"

end
