(* ===== verification/Fdb_Flash.thy ===== *)
theory Fdb_Flash
  imports Fdb_Status Fal_Partition
begin

text \<open>
  The database object shared by both databases (\<open>struct fdb_db\<close>), its initialisation (\<open>fdb.c\<close>),
  and the flash primitives of \<open>fdb_utils.c\<close>: read, write and erase through the partition of the
  database, status words, the search for the erased tail of a sector, blobs.

  The module is built with \<open>FDB_USING_FAL_MODE\<close> and without file mode. The flash abstraction
  layer is global in C; here the database carries it in the field \<open>db_fal\<close>. The lock callbacks
  are the user's: \<open>db_lock_set\<close> and \<open>db_unlock_set\<close> say whether they are installed, and
  \<open>db_lock_cnt\<close> counts the calls of the first minus those of the second.
\<close>

datatype fdb_db_type = FDB_DB_TYPE_KV | FDB_DB_TYPE_TS

record fdb_db =
  db_name :: bytes
  db_type :: fdb_db_type
  db_part :: nat
  db_sec_size :: nat
  db_max_size :: nat
  db_oldest_addr :: nat
  db_init_ok :: bool
  db_file_mode :: bool
  db_not_formatable :: bool
  db_lock_set :: bool
  db_unlock_set :: bool
  db_lock_cnt :: int
  db_user_data :: nat
  db_fal :: fal

definition db_lock :: "fdb_db \<Rightarrow> fdb_db" where
  "db_lock db = (if db_lock_set db then db\<lparr>db_lock_cnt := db_lock_cnt db + 1\<rparr> else db)"

definition db_unlock :: "fdb_db \<Rightarrow> fdb_db" where
  "db_unlock db = (if db_unlock_set db then db\<lparr>db_lock_cnt := db_lock_cnt db - 1\<rparr> else db)"

text \<open>What a stack byte that was never written reads as.\<close>

definition stk :: "fdb_db \<Rightarrow> byte" where
  "stk db = fal_stack_junk (db_fal db)"

subsection \<open>Flash access (\<open>fdb_utils.c\<close>)\<close>

definition fdb_flash_read :: "fdb_db \<Rightarrow> nat \<Rightarrow> bytes \<Rightarrow> (fdb_err \<times> bytes) option" where
  "fdb_flash_read db addr buf =
     (if db_file_mode db then Some (FDB_READ_ERR, buf)
      else do {
        (ret, buf) \<leftarrow> fal_partition_read (db_fal db) (db_part db) addr buf;
        Some (if ret < 0 then FDB_READ_ERR else FDB_NO_ERR, buf)
      })"

definition fdb_flash_erase :: "fdb_db \<Rightarrow> nat \<Rightarrow> nat \<Rightarrow> (fdb_err \<times> fdb_db) option" where
  "fdb_flash_erase db addr sz =
     (if db_file_mode db then Some (FDB_ERASE_ERR, db)
      else do {
        (ret, f) \<leftarrow> fal_partition_erase (db_fal db) (db_part db) addr sz;
        Some (if ret < 0 then FDB_ERASE_ERR else FDB_NO_ERR, db\<lparr>db_fal := f\<rparr>)
      })"

text \<open>\<open>sync\<close> is only used in file mode.\<close>

definition fdb_flash_write :: "fdb_db \<Rightarrow> nat \<Rightarrow> bytes \<Rightarrow> bool \<Rightarrow> (fdb_err \<times> fdb_db) option" where
  "fdb_flash_write db addr buf sync =
     (if db_file_mode db then Some (FDB_WRITE_ERR, db)
      else do {
        (ret, f) \<leftarrow> fal_partition_write (db_fal db) (db_part db) addr buf;
        Some (if ret < 0 then FDB_WRITE_ERR else FDB_NO_ERR, db\<lparr>db_fal := f\<rparr>)
      })"

subsection \<open>Status words on flash\<close>

definition fdb_write_status :: "fdb_db \<Rightarrow> nat \<Rightarrow> nat \<Rightarrow> nat \<Rightarrow> bool \<Rightarrow> (fdb_err \<times> fdb_db) option" where
  "fdb_write_status db addr status_num status_index sync =
     (if \<not> status_index < status_num then None
      else
        let (byte_index, status_table) = fdb_set_status FDB_WRITE_GRAN status_num status_index in
        if byte_index = SIZE_MAX then Some (FDB_NO_ERR, db)
        else if FDB_WRITE_GRAN = 1
        then fdb_flash_write db (u32 (addr + byte_index)) (slice byte_index 1 status_table) sync
        else fdb_flash_write db (u32 (addr + byte_index))
               (slice byte_index (FDB_WRITE_GRAN div 8) status_table) sync)"

definition fdb_read_status :: "fdb_db \<Rightarrow> nat \<Rightarrow> nat \<Rightarrow> nat option" where
  "fdb_read_status db addr total_num = do {
     (err, status_table) \<leftarrow>
       fdb_flash_read db addr (replicate (FDB_STATUS_TABLE_SIZE FDB_WRITE_GRAN total_num) (stk db));
     Some (fdb_get_status FDB_WRITE_GRAN status_table total_num)
   }"

subsection \<open>The erased tail of a range\<close>

text \<open>The inner loop over one buffer, from \<open>pos\<close> on: the address and the last byte seen.\<close>

fun ff_scan :: "bytes \<Rightarrow> nat \<Rightarrow> nat \<Rightarrow> byte \<Rightarrow> nat \<times> byte" where
  "ff_scan [] pos addr last_data = (addr, last_data)"
| "ff_scan (b # bs) pos addr last_data =
     ff_scan bs (Suc pos)
       (if last_data \<noteq> FDB_BYTE_ERASED \<and> b = FDB_BYTE_ERASED then pos else addr) b"

partial_function (option) continue_ff_loop ::
  "fdb_db \<Rightarrow> bytes \<Rightarrow> nat \<Rightarrow> nat \<Rightarrow> nat \<Rightarrow> byte \<Rightarrow> (nat \<times> byte) option" where
  "continue_ff_loop db buf start end_addr addr last_data =
     (if start < end_addr then do {
        let read_size = (if u32 (start + 32) < end_addr then 32 else u32_sub end_addr start);
        (err, rd) \<leftarrow> fdb_flash_read db start (take read_size buf);
        let (addr, last_data) = ff_scan rd start addr last_data;
        continue_ff_loop db (rd @ drop read_size buf) (u32 (start + 32)) end_addr addr last_data
      } else Some (addr, last_data))"

definition fdb_continue_ff_addr :: "fdb_db \<Rightarrow> nat \<Rightarrow> nat \<Rightarrow> nat option" where
  "fdb_continue_ff_addr db start end_addr = do {
     (addr, last_data) \<leftarrow>
       continue_ff_loop db (replicate 32 (stk db)) start end_addr start FDB_BYTE_WRITTEN;
     Some (if last_data = FDB_BYTE_ERASED then FDB_WG_ALIGN addr else end_addr)
   }"

subsection \<open>Blobs\<close>

text \<open>\<open>blob_buf\<close> is the buffer the pointer points to, \<^const>\<open>None\<close> a null pointer.\<close>

record fdb_blob =
  blob_buf :: "bytes option"
  blob_size :: nat
  blob_saved_meta_addr :: nat
  blob_saved_addr :: nat
  blob_saved_len :: nat

definition fdb_blob_make :: "fdb_blob \<Rightarrow> bytes option \<Rightarrow> nat \<Rightarrow> fdb_blob" where
  "fdb_blob_make blob value_buf buf_len = blob\<lparr>blob_buf := value_buf, blob_size := buf_len\<rparr>"

text \<open>A read into a null pointer or past the end of the buffer has no defined result.\<close>

definition fdb_blob_read :: "fdb_db \<Rightarrow> fdb_blob \<Rightarrow> (nat \<times> fdb_blob) option" where
  "fdb_blob_read db blob =
     (let read_len = (if blob_size blob > blob_saved_len blob then blob_saved_len blob
                      else blob_size blob)
      in case blob_buf blob of
        None \<Rightarrow> None
      | Some buf \<Rightarrow>
          if length buf < read_len then None
          else do {
            (err, rd) \<leftarrow> fdb_flash_read db (blob_saved_addr blob) (take read_len buf);
            Some (if err \<noteq> FDB_NO_ERR then 0 else read_len,
                  blob\<lparr>blob_buf := Some (rd @ drop read_len buf)\<rparr>)
          })"

subsection \<open>Initialisation (\<open>fdb.c\<close>)\<close>

text \<open>
  \<open>_fdb_init_ex\<close>. A null device pointer is dereferenced, and a zero block size or sector size is
  a division by zero, without a check in the code: \<^const>\<open>None\<close>, as for the failed assertion.
\<close>

definition fdb_init_sizes :: "fdb_db \<Rightarrow> (fdb_err \<times> fdb_db) option" where
  "fdb_init_sizes db =
     (if (db_sec_size db) AND (u32_sub (db_sec_size db) 1) \<noteq> 0 then None
      else if db_sec_size db = 0 then None
      else if db_max_size db mod db_sec_size db \<noteq> 0 then Some (FDB_INIT_FAILED, db)
      else if db_max_size db div db_sec_size db < 2 then Some (FDB_INIT_FAILED, db)
      else Some (FDB_NO_ERR, db))"

definition fdb_init_ex ::
  "fdb_db \<Rightarrow> bytes \<Rightarrow> bytes \<Rightarrow> fdb_db_type \<Rightarrow> nat \<Rightarrow> (fdb_err \<times> fdb_db) option" where
  "fdb_init_ex db name path type user_data =
     (if db_init_ok db then Some (FDB_NO_ERR, db)
      else
        let db = db\<lparr>db_name := name, db_type := type, db_user_data := user_data\<rparr> in
        if db_file_mode db then fdb_init_sizes db
        else do {
          (result, f) \<leftarrow> fal_init (db_fal db);
          let db = db\<lparr>db_fal := f\<rparr>;
          case fal_partition_find f path of
            None \<Rightarrow> Some (FDB_PART_NOT_FOUND, db)
          | Some p \<Rightarrow>
              let db = db\<lparr>db_part := p\<rparr>; part = fal_partition_table f ! p in
              (case fal_flash_device_find f (part_flash_name part) of
                 None \<Rightarrow> None
               | Some d \<Rightarrow>
                   let block_size = dev_blk_size (fal_infos f ! d) in
                   if db_sec_size db = 0
                   then fdb_init_sizes (db\<lparr>db_sec_size := block_size, db_max_size := part_len part\<rparr>)
                   else if block_size = 0 then None
                   else if db_sec_size db mod block_size \<noteq> 0 then Some (FDB_INIT_FAILED, db)
                   else fdb_init_sizes (db\<lparr>db_max_size := part_len part\<rparr>))
        })"

definition fdb_init_finish :: "fdb_db \<Rightarrow> fdb_err \<Rightarrow> fdb_db" where
  "fdb_init_finish db result = (if result = FDB_NO_ERR then db\<lparr>db_init_ok := True\<rparr> else db)"

definition fdb_deinit :: "fdb_db \<Rightarrow> fdb_db" where
  "fdb_deinit db = db\<lparr>db_init_ok := False\<rparr>"

definition fdb_db_path :: "fdb_db \<Rightarrow> bytes option" where
  "fdb_db_path db =
     (if db_file_mode db then None
      else Some (part_name (fal_partition_table (db_fal db) ! db_part db)))"

end
