(* ===== verification/Fdb_Store.thy ===== *)
theory Fdb_Store
  imports Fdb_Flash
begin

text \<open>
  The contract of the flash primitives. The locale \<open>flash_store\<close> states what the databases rely
  on: a store has an image (the bytes of its partition), a read returns a range of it, a write and
  an erase replace a range, and accesses that leave the partition are refused. \<open>lifted_store\<close>
  carries the contract from the embedded \<open>struct fdb_db\<close> to a database that contains it. The
  contract is proved for the primitives of \<open>fdb_utils.c\<close> over the partition layer and the RAM
  driver; \<open>flash_ok\<close> says that the database sits on such a device.
\<close>

subsection \<open>The interface\<close>

locale flash_store =
  fixes rd :: "'s \<Rightarrow> nat \<Rightarrow> bytes \<Rightarrow> (fdb_err \<times> bytes) option"
    and wr :: "'s \<Rightarrow> nat \<Rightarrow> bytes \<Rightarrow> bool \<Rightarrow> (fdb_err \<times> 's) option"
    and er :: "'s \<Rightarrow> nat \<Rightarrow> nat \<Rightarrow> (fdb_err \<times> 's) option"
    and img :: "'s \<Rightarrow> bytes"
    and put :: "bytes \<Rightarrow> 's \<Rightarrow> 's"
    and ok :: "'s \<Rightarrow> bool"
  assumes rd_in: "ok s \<Longrightarrow> a + length buf \<le> length (img s)
      \<Longrightarrow> rd s a buf = Some (FDB_NO_ERR, slice a (length buf) (img s))"
    and rd_out: "ok s \<Longrightarrow> length (img s) < u32 (a + length buf)
      \<Longrightarrow> rd s a buf = Some (FDB_READ_ERR, buf)"
    and wr_in: "ok s \<Longrightarrow> a + length bs \<le> length (img s)
      \<Longrightarrow> wr s a bs sync = Some (FDB_NO_ERR, put (splice (img s) a bs) s)"
    and wr_out: "ok s \<Longrightarrow> length (img s) < u32 (a + length bs)
      \<Longrightarrow> wr s a bs sync = Some (FDB_WRITE_ERR, s)"
    and wr_keeps: "ok s \<Longrightarrow> wr s a bs sync = Some (e, s')
      \<Longrightarrow> ok s' \<and> length (img s') = length (img s)"
    and er_in: "ok s \<Longrightarrow> a + n \<le> length (img s)
      \<Longrightarrow> er s a n = Some (FDB_NO_ERR, put (splice (img s) a (replicate n FDB_BYTE_ERASED)) s)"
    and er_out: "ok s \<Longrightarrow> length (img s) < u32 (a + n) \<Longrightarrow> er s a n = Some (FDB_ERASE_ERR, s)"
    and er_keeps: "ok s \<Longrightarrow> er s a n = Some (e, s')
      \<Longrightarrow> ok s' \<and> length (img s') = length (img s)"
    and img_put: "ok s \<Longrightarrow> length m = length (img s) \<Longrightarrow> img (put m s) = m"
    and ok_put: "ok s \<Longrightarrow> length m = length (img s) \<Longrightarrow> ok (put m s)"
    and put_put: "ok s \<Longrightarrow> length m = length (img s) \<Longrightarrow> length m' = length (img s)
      \<Longrightarrow> put m' (put m s) = put m' s"
    and img_bound: "ok s \<Longrightarrow> length (img s) < 2147483648"
begin

lemma wr_img:
  assumes "ok s" "a + length bs \<le> length (img s)"
  shows "\<exists>s'. wr s a bs sync = Some (FDB_NO_ERR, s') \<and> ok s' \<and> img s' = splice (img s) a bs"
  using assms by (simp add: wr_in ok_put img_put)

lemma er_img:
  assumes "ok s" "a + n \<le> length (img s)"
  shows "\<exists>s'. er s a n = Some (FDB_NO_ERR, s') \<and> ok s'
    \<and> img s' = splice (img s) a (replicate n FDB_BYTE_ERASED)"
  using assms by (simp add: er_in ok_put img_put)

lemma read_after_write:
  assumes "ok s" "a + length bs \<le> length (img s)" "length buf = length bs"
    and "wr s a bs sync = Some (e, s')"
  shows "e = FDB_NO_ERR \<and> rd s' a buf = Some (FDB_NO_ERR, bs)"
  using assms by (auto simp: wr_in rd_in ok_put img_put slice_splice_same)

lemma read_beside_write:
  assumes "ok s" "a + length bs \<le> length (img s)" "b + length buf \<le> length (img s)"
    and "b + length buf \<le> a \<or> a + length bs \<le> b" "wr s a bs sync = Some (e, s')"
  shows "rd s' b buf = rd s b buf"
  using assms by (auto simp: wr_in rd_in ok_put img_put slice_splice_disj)

lemma read_after_erase:
  assumes "ok s" "a + n \<le> length (img s)" "a \<le> b" "b + length buf \<le> a + n"
    and "er s a n = Some (e, s')"
  shows "rd s' b buf = Some (FDB_NO_ERR, replicate (length buf) FDB_BYTE_ERASED)"
  using assms
  by (auto simp: er_in rd_in ok_put img_put slice_splice_inside) (auto simp: slice_def)

lemma write_write:
  assumes "ok s" "a + length bs \<le> length (img s)" "b + length cs \<le> length (img s)"
  shows "wr (put (splice (img s) a bs) s) b cs sync
         = Some (FDB_NO_ERR, put (splice (splice (img s) a bs) b cs) s)"
  using assms by (simp add: wr_in ok_put img_put put_put)

end

subsection \<open>Carrying the interface to a larger state\<close>

locale lifted_store = base: flash_store rd wr er img put ok
  for rd :: "'s \<Rightarrow> nat \<Rightarrow> bytes \<Rightarrow> (fdb_err \<times> bytes) option"
    and wr :: "'s \<Rightarrow> nat \<Rightarrow> bytes \<Rightarrow> bool \<Rightarrow> (fdb_err \<times> 's) option"
    and er :: "'s \<Rightarrow> nat \<Rightarrow> nat \<Rightarrow> (fdb_err \<times> 's) option"
    and img :: "'s \<Rightarrow> bytes"
    and put :: "bytes \<Rightarrow> 's \<Rightarrow> 's"
    and ok :: "'s \<Rightarrow> bool" +
  fixes get :: "'t \<Rightarrow> 's" and set_base :: "'s \<Rightarrow> 't \<Rightarrow> 't"
  assumes get_set: "get (set_base s t) = s"
    and set_get: "set_base (get t) t = t"
    and set_set: "set_base s' (set_base s t) = set_base s' t"

sublocale lifted_store \<subseteq> lifted: flash_store
  "\<lambda>t. rd (get t)"
  "\<lambda>t a bs sync. map_option (\<lambda>(e, s). (e, set_base s t)) (wr (get t) a bs sync)"
  "\<lambda>t a n. map_option (\<lambda>(e, s). (e, set_base s t)) (er (get t) a n)"
  "\<lambda>t. img (get t)" "\<lambda>m t. set_base (put m (get t)) t" "\<lambda>t. ok (get t)"
  by unfold_locales
    (auto simp: base.rd_in base.rd_out base.wr_in base.wr_out base.er_in base.er_out base.img_put
      base.ok_put base.put_put base.img_bound get_set set_get set_set
      dest: base.wr_keeps base.er_keeps)

subsection \<open>A database on the RAM device\<close>

definition on_mem_blk :: "fal \<Rightarrow> nat \<Rightarrow> (nat \<Rightarrow> bytes option) \<Rightarrow> nat \<Rightarrow> bytes \<Rightarrow> bool" where
  "on_mem_blk f p malloc d mem \<longleftrightarrow>
     p < length (fal_part_flash_cache f) \<and> fal_part_flash_cache f ! p = Dev d
   \<and> d < length (fal_infos f)
   \<and> op_read (fal_ops f ! d) = mem_blk_read malloc
   \<and> op_write (fal_ops f ! d) = mem_blk_write malloc
   \<and> op_erase (fal_ops f ! d) = mem_blk_erase malloc
   \<and> get_mem_blk_addr malloc (fal_infos f ! d) = Some mem
   \<and> 0 \<le> part_offset (fal_partition_table f ! p)
   \<and> nat (part_offset (fal_partition_table f ! p)) + part_len (fal_partition_table f ! p) \<le> length mem
   \<and> length mem < 2147483648"

definition flash_ok :: "fdb_db \<Rightarrow> bool" where
  "flash_ok db \<longleftrightarrow>
     \<not> db_file_mode db \<and> (\<exists>malloc d mem. on_mem_blk (db_fal db) (db_part db) malloc d mem)"

text \<open>The bytes of the partition, read with one read, and the database with other bytes there.\<close>

definition db_flash_len :: "fdb_db \<Rightarrow> nat" where
  "db_flash_len db = part_len (fal_partition_table (db_fal db) ! db_part db)"

definition db_img :: "fdb_db \<Rightarrow> bytes" where
  "db_img db =
     (case fdb_flash_read db 0 (replicate (db_flash_len db) 0) of
        Some (_, m) \<Rightarrow> m | None \<Rightarrow> [])"

definition db_put :: "bytes \<Rightarrow> fdb_db \<Rightarrow> fdb_db" where
  "db_put m db = (case fdb_flash_write db 0 m True of Some (_, db') \<Rightarrow> db' | None \<Rightarrow> db)"


subsection \<open>The accesses on such a device\<close>

lemma mem_slice_splice:
  assumes "off + len \<le> length mem" "a + length bs \<le> len"
  shows "slice off len (splice mem (off + a) bs) = splice (slice off len mem) a bs"
    and "splice mem off (splice (slice off len mem) a bs) = splice mem (off + a) bs"
proof -
  show "slice off len (splice mem (off + a) bs) = splice (slice off len mem) a bs"
    using assms by (intro nth_equalityI) (auto simp: nth_slice nth_splice)
  show "splice mem off (splice (slice off len mem) a bs) = splice mem (off + a) bs"
    using assms by (intro nth_equalityI) (auto simp: nth_slice nth_splice)
qed

lemma splice_over_slice: "off + len \<le> length mem \<Longrightarrow> length m = len \<Longrightarrow> slice off len (splice mem off m) = m"
  by (simp add: slice_splice_same)

definition mem_update :: "fal \<Rightarrow> nat \<Rightarrow> bytes \<Rightarrow> fal" where
  "mem_update f d mem = f\<lparr>fal_infos := (fal_infos f)[d := (fal_infos f ! d)\<lparr>dev_mem := Some mem\<rparr>]\<rparr>"

lemma on_mem_blk_update:
  assumes "on_mem_blk f p malloc d mem" "length mem' = length mem"
  shows "on_mem_blk (mem_update f d mem') p malloc d mem'"
  using assms by (simp add: on_mem_blk_def mem_update_def get_mem_blk_addr_def)

lemma mem_update_twice: "mem_update (mem_update f d mem) d mem' = mem_update f d mem'"
  by (cases "d < length (fal_infos f)") (simp_all add: mem_update_def list_update_beyond)

lemma part_access:
  assumes "on_mem_blk f p malloc d mem" "a + n \<le> part_len (fal_partition_table f ! p)"
  shows "dev_offset f p a = int (nat (part_offset (fal_partition_table f ! p)) + a)"
    and "u32 (a + n) = a + n"
    and "nat (part_offset (fal_partition_table f ! p)) + a + n \<le> length mem"
    and "s32 (int n) = int n"
  using assms by (auto simp: on_mem_blk_def dev_offset_def s32_id u32_id)

lemma nat_add_int: "0 \<le> x \<Longrightarrow> nat (x + int a) = nat x + a"
  by simp

lemma part_read:
  assumes "on_mem_blk f p malloc d mem" "a + length buf \<le> part_len (fal_partition_table f ! p)"
  shows "fal_partition_read f p a buf = Some (int (length buf),
           slice (nat (part_offset (fal_partition_table f ! p)) + a) (length buf) mem)"
  using assms part_access [OF assms]
  by (simp add: on_mem_blk_def fal_partition_read_def flash_device_find_by_part_def mem_blk_read_def
      mem_load_def nat_add_int)

lemma part_write:
  assumes "on_mem_blk f p malloc d mem" "a + length bs \<le> part_len (fal_partition_table f ! p)"
  shows "fal_partition_write f p a bs = Some (int (length bs),
           mem_update f d (splice mem (nat (part_offset (fal_partition_table f ! p)) + a) bs))"
  using assms part_access [OF assms]
  by (simp add: on_mem_blk_def fal_partition_write_def flash_device_find_by_part_def mem_blk_write_def
      mem_store_def mem_update_def nat_add_int)

lemma part_erase:
  assumes "on_mem_blk f p malloc d mem" "a + n \<le> part_len (fal_partition_table f ! p)"
  shows "fal_partition_erase f p a n = Some (int n,
           mem_update f d (splice mem (nat (part_offset (fal_partition_table f ! p)) + a)
             (replicate n 0xFF)))"
  using assms part_access [OF assms]
  by (simp add: on_mem_blk_def fal_partition_erase_def flash_device_find_by_part_def mem_blk_erase_def
      mem_store_def mem_update_def nat_add_int)

text \<open>Whatever the address, a write or an erase that returns keeps the device.\<close>

lemma part_write_keeps:
  assumes "on_mem_blk f p malloc d mem" "fal_partition_write f p a bs = Some (r, f')"
  shows "f' = f \<or> (\<exists>mem'. length mem' = length mem \<and> f' = mem_update f d mem')"
proof (cases "part_len (fal_partition_table f ! p) < u32 (a + length bs)")
  case True
  then show ?thesis using assms by (simp add: fal_partition_write_def)
next
  case False
  then have "f' = mem_update f d (splice mem (nat (dev_offset f p a)) bs)
      \<and> nat (dev_offset f p a) + length bs \<le> length mem"
    using assms
    by (auto simp: on_mem_blk_def fal_partition_write_def flash_device_find_by_part_def
        mem_blk_write_def mem_store_def mem_update_def split: if_splits Option.bind_splits)
  then show ?thesis by (metis length_splice)
qed

lemma part_erase_keeps:
  assumes "on_mem_blk f p malloc d mem" "fal_partition_erase f p a n = Some (r, f')"
  shows "f' = f \<or> (\<exists>mem'. length mem' = length mem \<and> f' = mem_update f d mem')"
proof (cases "part_len (fal_partition_table f ! p) < u32 (a + n)")
  case True
  then show ?thesis using assms by (simp add: fal_partition_erase_def)
next
  case False
  then have "f' = mem_update f d (splice mem (nat (dev_offset f p a)) (replicate n 0xFF))
      \<and> nat (dev_offset f p a) + n \<le> length mem"
    using assms
    by (auto simp: on_mem_blk_def fal_partition_erase_def flash_device_find_by_part_def
        mem_blk_erase_def mem_store_def mem_update_def split: if_splits Option.bind_splits)
  then show ?thesis by (metis length_splice length_replicate)
qed

lemma db_img_eq:
  assumes "\<not> db_file_mode db" "on_mem_blk (db_fal db) (db_part db) malloc d mem"
  shows "db_img db = slice (nat (part_offset (fal_partition_table (db_fal db) ! db_part db)))
                       (db_flash_len db) mem"
  using assms(1) part_read [OF assms(2), of 0 "replicate (db_flash_len db) 0"]
  by (simp add: db_img_def fdb_flash_read_def db_flash_len_def)

lemma db_put_eq:
  assumes "\<not> db_file_mode db" "on_mem_blk (db_fal db) (db_part db) malloc d mem"
    and "length m = db_flash_len db"
  shows "db_put m db = db\<lparr>db_fal := mem_update (db_fal db) d
           (splice mem (nat (part_offset (fal_partition_table (db_fal db) ! db_part db))) m)\<rparr>"
  using assms(1,3) part_write [OF assms(2), of 0 m]
  by (simp add: db_put_def fdb_flash_write_def db_flash_len_def)

lemma length_db_img: "flash_ok db \<Longrightarrow> length (db_img db) = db_flash_len db"
  by (auto simp: flash_ok_def db_img_eq on_mem_blk_def db_flash_len_def)


lemma flash_ok_cases:
  assumes "flash_ok db"
  obtains malloc d mem where "\<not> db_file_mode db" "on_mem_blk (db_fal db) (db_part db) malloc d mem"
    "db_img db = slice (nat (part_offset (fal_partition_table (db_fal db) ! db_part db)))
       (db_flash_len db) mem"
    "nat (part_offset (fal_partition_table (db_fal db) ! db_part db)) + db_flash_len db \<le> length mem"
  using assms db_img_eq by (auto simp: flash_ok_def on_mem_blk_def db_flash_len_def)

lemma mem_update_table [simp]:
  "fal_partition_table (mem_update f d m) = fal_partition_table f"
  "fal_stack_junk (mem_update f d m) = fal_stack_junk f"
  by (simp_all add: mem_update_def)

lemma db_flash_len_fal [simp]: "db_flash_len (db\<lparr>db_fal := mem_update (db_fal db) d m\<rparr>) = db_flash_len db"
  by (simp add: db_flash_len_def)

lemma update_keeps:
  assumes "flash_ok db" "\<not> db_file_mode db" "on_mem_blk (db_fal db) (db_part db) malloc d mem"
    and "f' = db_fal db \<or> (\<exists>mem'. length mem' = length mem \<and> f' = mem_update (db_fal db) d mem')"
  shows "flash_ok (db\<lparr>db_fal := f'\<rparr>) \<and> db_flash_len (db\<lparr>db_fal := f'\<rparr>) = db_flash_len db"
  using assms on_mem_blk_update by (fastforce simp: flash_ok_def)

lemma db_put_props:
  assumes "flash_ok db" "length m = db_flash_len db"
  shows "flash_ok (db_put m db)" "db_flash_len (db_put m db) = db_flash_len db" "db_img (db_put m db) = m"
proof -
  obtain malloc d mem where h: "\<not> db_file_mode db" "on_mem_blk (db_fal db) (db_part db) malloc d mem"
    "nat (part_offset (fal_partition_table (db_fal db) ! db_part db)) + db_flash_len db \<le> length mem"
    using flash_ok_cases [OF assms(1)] by metis
  let ?m = "splice mem (nat (part_offset (fal_partition_table (db_fal db) ! db_part db))) m"
  have l: "length ?m = length mem" using h assms by simp
  have e: "db_put m db = db\<lparr>db_fal := mem_update (db_fal db) d ?m\<rparr>"
    using h assms by (intro db_put_eq) auto
  have o: "on_mem_blk (mem_update (db_fal db) d ?m) (db_part db) malloc d ?m"
    using h(2) l by (rule on_mem_blk_update)
  show "flash_ok (db_put m db)" "db_flash_len (db_put m db) = db_flash_len db"
    using h o by (auto simp: e flash_ok_def)
  show "db_img (db_put m db) = m"
    using h o db_img_eq [of "db_put m db" malloc d ?m] assms(2)
    by (simp add: e slice_splice_same)
qed

lemma db_put_put:
  assumes "flash_ok db" "length m = db_flash_len db" "length m' = db_flash_len db"
  shows "db_put m' (db_put m db) = db_put m' db"
proof -
  obtain malloc d mem where h: "\<not> db_file_mode db" "on_mem_blk (db_fal db) (db_part db) malloc d mem"
    "nat (part_offset (fal_partition_table (db_fal db) ! db_part db)) + db_flash_len db \<le> length mem"
    using flash_ok_cases [OF assms(1)] by metis
  let ?s = "splice mem (nat (part_offset (fal_partition_table (db_fal db) ! db_part db)))"
  have l: "length (?s m) = length mem" using h assms by simp
  have e: "db_put m db = db\<lparr>db_fal := mem_update (db_fal db) d (?s m)\<rparr>"
    "db_put m' db = db\<lparr>db_fal := mem_update (db_fal db) d (?s m')\<rparr>"
    using h assms by (auto intro!: db_put_eq)
  have o: "on_mem_blk (mem_update (db_fal db) d (?s m)) (db_part db) malloc d (?s m)"
    using h(2) l by (rule on_mem_blk_update)
  show ?thesis
    using h o assms db_put_eq [of "db_put m db" malloc d "?s m" m']
    by (simp add: e mem_update_twice splice_splice_over)
qed


lemma flash_read_in:
  assumes "flash_ok db" "a + length buf \<le> length (db_img db)"
  shows "fdb_flash_read db a buf = Some (FDB_NO_ERR, slice a (length buf) (db_img db))"
proof -
  from flash_ok_cases [OF assms(1)] obtain malloc d mem where h: "\<not> db_file_mode db"
    "on_mem_blk (db_fal db) (db_part db) malloc d mem"
    "db_img db = slice (nat (part_offset (fal_partition_table (db_fal db) ! db_part db)))
       (db_flash_len db) mem"
    by metis
  have "a + length buf \<le> db_flash_len db" using assms by (simp add: length_db_img)
  then show ?thesis using h(1) part_read [OF h(2), of a buf]
    by (simp add: fdb_flash_read_def h(3) slice_slice db_flash_len_def)
qed

lemma flash_write_in:
  assumes "flash_ok db" "a + length bs \<le> length (db_img db)"
  shows "fdb_flash_write db a bs sync = Some (FDB_NO_ERR, db_put (splice (db_img db) a bs) db)"
proof -
  from flash_ok_cases [OF assms(1)] obtain malloc d mem where h: "\<not> db_file_mode db"
    "on_mem_blk (db_fal db) (db_part db) malloc d mem"
    "db_img db = slice (nat (part_offset (fal_partition_table (db_fal db) ! db_part db)))
       (db_flash_len db) mem"
    "nat (part_offset (fal_partition_table (db_fal db) ! db_part db)) + db_flash_len db \<le> length mem"
    by metis
  have l: "a + length bs \<le> db_flash_len db" using assms by (simp add: length_db_img)
  have "length (splice (db_img db) a bs) = db_flash_len db"
    using assms by (simp add: length_db_img)
  from db_put_eq [OF h(1,2) this] show ?thesis
    using l h(1,4) part_write [OF h(2), of a bs]
    by (simp add: fdb_flash_write_def h(3) mem_slice_splice db_flash_len_def)
qed

lemma flash_erase_in:
  assumes "flash_ok db" "a + n \<le> length (db_img db)"
  shows "fdb_flash_erase db a n
         = Some (FDB_NO_ERR, db_put (splice (db_img db) a (replicate n FDB_BYTE_ERASED)) db)"
proof -
  from flash_ok_cases [OF assms(1)] obtain malloc d mem where h: "\<not> db_file_mode db"
    "on_mem_blk (db_fal db) (db_part db) malloc d mem"
    "db_img db = slice (nat (part_offset (fal_partition_table (db_fal db) ! db_part db)))
       (db_flash_len db) mem"
    "nat (part_offset (fal_partition_table (db_fal db) ! db_part db)) + db_flash_len db \<le> length mem"
    by metis
  let ?bs = "replicate n FDB_BYTE_ERASED"
  have l: "a + length ?bs \<le> db_flash_len db" using assms by (simp add: length_db_img)
  have "length (splice (db_img db) a ?bs) = db_flash_len db"
    using assms by (simp add: length_db_img)
  from db_put_eq [OF h(1,2) this] show ?thesis
    using l h(1,4) part_erase [OF h(2), of a n] mem_slice_splice [OF h(4) l]
    by (simp add: fdb_flash_erase_def h(3) db_flash_len_def FDB_BYTE_ERASED_def)
qed

lemma flash_out:
  assumes "flash_ok db" "length (db_img db) < u32 (a + n)"
  shows "length buf = n \<Longrightarrow> fdb_flash_read db a buf = Some (FDB_READ_ERR, buf)"
    and "length bs = n \<Longrightarrow> fdb_flash_write db a bs sync = Some (FDB_WRITE_ERR, db)"
    and "fdb_flash_erase db a n = Some (FDB_ERASE_ERR, db)"
  using assms length_db_img [OF assms(1)]
  by (auto simp: fdb_flash_read_def fdb_flash_write_def fdb_flash_erase_def fal_partition_read_def
      fal_partition_write_def fal_partition_erase_def db_flash_len_def flash_ok_def)

lemma flash_write_keeps:
  assumes "flash_ok db" "fdb_flash_write db a bs sync = Some (e, db')"
  shows "flash_ok db' \<and> db_flash_len db' = db_flash_len db"
    and "\<exists>f. db' = db\<lparr>db_fal := f\<rparr> \<and> fal_stack_junk f = fal_stack_junk (db_fal db)"
proof -
  from flash_ok_cases [OF assms(1)] obtain malloc d mem where h: "\<not> db_file_mode db"
    "on_mem_blk (db_fal db) (db_part db) malloc d mem"
    by metis
  from assms(2) h(1) obtain r f' where f: "fal_partition_write (db_fal db) (db_part db) a bs = Some (r, f')"
    "db' = db\<lparr>db_fal := f'\<rparr>"
    by (auto simp: fdb_flash_write_def split: Option.bind_splits)
  have k: "f' = db_fal db \<or> (\<exists>mem'. length mem' = length mem \<and> f' = mem_update (db_fal db) d mem')"
    using part_write_keeps [OF h(2) f(1)] .
  then show "flash_ok db' \<and> db_flash_len db' = db_flash_len db"
    using update_keeps [OF assms(1) h] f(2) by auto
  show "\<exists>f. db' = db\<lparr>db_fal := f\<rparr> \<and> fal_stack_junk f = fal_stack_junk (db_fal db)"
    using k f(2) by auto
qed

lemma flash_erase_keeps:
  assumes "flash_ok db" "fdb_flash_erase db a n = Some (e, db')"
  shows "flash_ok db' \<and> db_flash_len db' = db_flash_len db"
    and "\<exists>f. db' = db\<lparr>db_fal := f\<rparr> \<and> fal_stack_junk f = fal_stack_junk (db_fal db)"
proof -
  from flash_ok_cases [OF assms(1)] obtain malloc d mem where h: "\<not> db_file_mode db"
    "on_mem_blk (db_fal db) (db_part db) malloc d mem"
    by metis
  from assms(2) h(1) obtain r f' where f: "fal_partition_erase (db_fal db) (db_part db) a n = Some (r, f')"
    "db' = db\<lparr>db_fal := f'\<rparr>"
    by (auto simp: fdb_flash_erase_def split: Option.bind_splits)
  have k: "f' = db_fal db \<or> (\<exists>mem'. length mem' = length mem \<and> f' = mem_update (db_fal db) d mem')"
    using part_erase_keeps [OF h(2) f(1)] .
  then show "flash_ok db' \<and> db_flash_len db' = db_flash_len db"
    using update_keeps [OF assms(1) h] f(2) by auto
  show "\<exists>f. db' = db\<lparr>db_fal := f\<rparr> \<and> fal_stack_junk f = fal_stack_junk (db_fal db)"
    using k f(2) by auto
qed

interpretation dbs: flash_store fdb_flash_read fdb_flash_write fdb_flash_erase db_img db_put flash_ok
proof
  fix s :: fdb_db
  assume ok: "flash_ok s"
  show "length (db_img s) < 2147483648"
    using ok length_db_img [OF ok] by (auto simp: flash_ok_def on_mem_blk_def db_flash_len_def)
  fix m m' :: bytes
  assume m: "length m = length (db_img s)"
  show "db_img (db_put m s) = m" "flash_ok (db_put m s)"
    using ok m by (simp_all add: db_put_props length_db_img)
  assume "length m' = length (db_img s)"
  then show "db_put m' (db_put m s) = db_put m' s"
    using ok m by (simp add: db_put_put length_db_img)
qed (auto simp: flash_read_in flash_write_in flash_erase_in flash_out length_db_img
      dest: flash_write_keeps flash_erase_keeps)


subsection \<open>What a write keeps\<close>

lemma bind_pair_map: "(m \<bind> (\<lambda>(e, p). Some (e, f p))) = map_option (\<lambda>(e, p). (e, f p)) m"
  by (cases m) auto

lemma db_put_same_fields:
  "flash_ok db \<Longrightarrow> length m = length (db_img db) \<Longrightarrow>
     \<exists>f. db_put m db = db\<lparr>db_fal := f\<rparr> \<and> fal_stack_junk f = fal_stack_junk (db_fal db)"
  by (metis dbs.wr_in flash_write_keeps(2) db_put_put length_db_img le_refl length_splice
      flash_write_in add.left_neutral dbs.img_put splice_def append_Nil append_Nil2 drop_all take0)

lemma db_put_fields:
  assumes "flash_ok db" "length m = length (db_img db)"
  shows "db_sec_size (db_put m db) = db_sec_size db" "db_max_size (db_put m db) = db_max_size db"
    "db_oldest_addr (db_put m db) = db_oldest_addr db" "stk (db_put m db) = stk db"
    "db_init_ok (db_put m db) = db_init_ok db" "db_lock_cnt (db_put m db) = db_lock_cnt db"
    "db_lock_set (db_put m db) = db_lock_set db" "db_unlock_set (db_put m db) = db_unlock_set db"
    "db_not_formatable (db_put m db) = db_not_formatable db"
  using db_put_same_fields [OF assms] by (auto simp: stk_def)

text \<open>A status word is one byte; \<open>k\<close> is not the erased status.\<close>

lemma write_status_1:
  assumes "0 < k" "k < n" "n \<le> 8"
  shows "fdb_write_status db a n k sync = fdb_flash_write db (u32 a) [drop_bit k 0xFF] sync"
  using assms
  by (simp add: fdb_write_status_def set_status_1 SIZE_MAX_def slice_def)
     (simp add: FDB_WRITE_GRAN_def)

lemma db_lock_img [simp]:
  "flash_ok (db_lock p) = flash_ok p" "db_img (db_lock p) = db_img p"
  "flash_ok (db_unlock p) = flash_ok p" "db_img (db_unlock p) = db_img p"
  by (simp_all add: db_lock_def db_unlock_def flash_ok_def db_img_def fdb_flash_read_def db_flash_len_def)

lemma db_lock_fields [simp]:
  "db_sec_size (db_lock p) = db_sec_size p" "db_sec_size (db_unlock p) = db_sec_size p"
  "db_max_size (db_lock p) = db_max_size p" "db_max_size (db_unlock p) = db_max_size p"
  "db_oldest_addr (db_lock p) = db_oldest_addr p" "db_oldest_addr (db_unlock p) = db_oldest_addr p"
  "db_init_ok (db_lock p) = db_init_ok p" "db_init_ok (db_unlock p) = db_init_ok p"
  "db_fal (db_lock p) = db_fal p" "db_fal (db_unlock p) = db_fal p"
  "db_lock_set (db_lock p) = db_lock_set p" "db_lock_set (db_unlock p) = db_lock_set p"
  "db_unlock_set (db_lock p) = db_unlock_set p" "db_unlock_set (db_unlock p) = db_unlock_set p"
  by (simp_all add: db_lock_def db_unlock_def)

lemma db_lock_cnts [simp]:
  "db_lock_cnt (db_lock p) = db_lock_cnt p + (if db_lock_set p then 1 else 0)"
  "db_lock_cnt (db_unlock p) = db_lock_cnt p - (if db_unlock_set p then 1 else 0)"
  by (simp_all add: db_lock_def db_unlock_def)

subsection \<open>The erased tail of a range\<close>

text \<open>The first address from which the range \<open>start..<end_addr\<close> holds only erased bytes.\<close>

definition erased_tail :: "bytes \<Rightarrow> nat \<Rightarrow> nat \<Rightarrow> nat" where
  "erased_tail m start end_addr =
     end_addr - length (takeWhile (\<lambda>b. b = FDB_BYTE_ERASED) (rev (slice start (end_addr - start) m)))"

lemma ff_scan_append:
  "ff_scan (xs @ ys) pos addr l =
     (case ff_scan xs pos addr l of (addr', l') \<Rightarrow> ff_scan ys (pos + length xs) addr' l')"
  by (induction xs arbitrary: pos addr l) auto

lemma ff_scan_last: "snd (ff_scan xs pos addr l) = (if xs = [] then l else last xs)"
  by (induction xs arbitrary: pos addr l) auto

lemma ff_scan_tail:
  assumes "l \<noteq> FDB_BYTE_ERASED"
  shows "xs \<noteq> [] \<Longrightarrow> last xs = FDB_BYTE_ERASED \<Longrightarrow>
    fst (ff_scan xs pos addr l)
    = pos + length xs - length (takeWhile (\<lambda>b. b = FDB_BYTE_ERASED) (rev xs))"
proof (induction xs rule: rev_induct)
  case (snoc b xs)
  then have b: "b = FDB_BYTE_ERASED" by simp
  obtain a' l' where sc: "ff_scan xs pos addr l = (a', l')" by fastforce
  have l': "l' = (if xs = [] then l else last xs)" using ff_scan_last [of xs pos addr l] sc by simp
  show ?case
  proof (cases "xs \<noteq> [] \<and> last xs = FDB_BYTE_ERASED")
    case True
    moreover have "length (takeWhile (\<lambda>b. b = FDB_BYTE_ERASED) (rev xs)) \<le> length xs"
      by (metis length_rev length_takeWhile_le)
    ultimately show ?thesis using snoc.IH b sc l' by (simp add: ff_scan_append)
  next
    case False
    then have "takeWhile (\<lambda>b. b = FDB_BYTE_ERASED) (rev xs) = []"
      by (cases xs rule: rev_cases) auto
    then show ?thesis using False b sc l' assms by (auto simp: ff_scan_append)
  qed
qed simp

lemma continue_ff_loop_eq:
  assumes "flash_ok db" "end_addr \<le> length (db_img db)" "length buf = 32" "start \<le> end_addr"
  shows "continue_ff_loop db buf start end_addr addr l
         = Some (ff_scan (slice start (end_addr - start) (db_img db)) start addr l)"
  using assms(3,4)
proof (induction "end_addr - start" arbitrary: buf start addr l rule: less_induct)
  case less
  note bound = dbs.img_bound [OF assms(1)]
  show ?case
  proof (cases "start < end_addr")
    case False
    then show ?thesis using less.prems by (subst continue_ff_loop.simps) simp
  next
    case True
    define n where "n = (if start + 32 < end_addr then 32 else end_addr - start)"
    have u: "u32 (start + 32) = start + 32" using True assms(2) bound by (intro u32_id) linarith
    have n: "(if u32 (start + 32) < end_addr then 32 else u32_sub end_addr start) = n"
      using True assms(2) bound by (simp add: n_def u u32_sub_id)
    have nb: "start + n \<le> end_addr" "n \<le> 32" "n + (end_addr - (start + n)) = end_addr - start"
      using True by (auto simp: n_def)
    have r: "fdb_flash_read db start (take n buf) = Some (FDB_NO_ERR, slice start n (db_img db))"
      using assms(1,2) nb less.prems(1) by (subst flash_read_in) auto
    obtain a' l' where sc: "ff_scan (slice start n (db_img db)) start addr l = (a', l')" by fastforce
    have app: "slice start (end_addr - start) (db_img db)
        = slice start n (db_img db) @ slice (start + n) (end_addr - (start + n)) (db_img db)"
      using slice_append_split [of start n "end_addr - (start + n)" "db_img db"] nb(3) by simp
    have len: "length (slice start n (db_img db)) = n" using nb assms(2) by simp
    have step: "continue_ff_loop db buf start end_addr addr l
        = continue_ff_loop db (slice start n (db_img db) @ drop n buf) (start + 32) end_addr a' l'"
      using True n
      by (subst continue_ff_loop.simps) (simp add: Let_def u r sc split del: if_split)
    show ?thesis
    proof (cases "start + 32 < end_addr")
      case True
      then have n32: "n = 32" by (simp add: n_def)
      have "continue_ff_loop db (slice start n (db_img db) @ drop n buf) (start + 32) end_addr a' l'
          = Some (ff_scan (slice (start + 32) (end_addr - (start + 32)) (db_img db)) (start + 32) a' l')"
        using True \<open>start < end_addr\<close> less.prems(1) len n32 by (intro less.hyps) auto
      then show ?thesis using step len by (simp add: app ff_scan_append sc [unfolded n32] n32)
    next
      case False
      then have "n = end_addr - start" by (simp add: n_def)
      then have "slice start (end_addr - start) (db_img db) = slice start n (db_img db)" by simp
      moreover have "continue_ff_loop db b (start + 32) end_addr a' l' = Some (a', l')" for b
        using False by (subst continue_ff_loop.simps) simp
      ultimately show ?thesis using step sc by simp
    qed
  qed
qed

lemma continue_ff_tail:
  assumes "flash_ok db" "end_addr \<le> length (db_img db)" "start < end_addr"
  shows "fdb_continue_ff_addr db start end_addr = Some (erased_tail (db_img db) start end_addr)"
proof -
  let ?xs = "slice start (end_addr - start) (db_img db)"
  have len: "length ?xs = end_addr - start" using assms by simp
  then have ne: "?xs \<noteq> []" using assms(3) by fastforce
  obtain a l where sc: "ff_scan ?xs start start FDB_BYTE_WRITTEN = (a, l)" by fastforce
  then have l: "l = last ?xs" using ff_scan_last [of ?xs start start FDB_BYTE_WRITTEN] ne by simp
  have w: "FDB_BYTE_WRITTEN \<noteq> FDB_BYTE_ERASED" by (simp add: fdb_const)
  note bound = dbs.img_bound [OF assms(1)]
  show ?thesis
  proof (cases "l = FDB_BYTE_ERASED")
    case True
    have a: "a = erased_tail (db_img db) start end_addr"
      using ff_scan_tail [OF w ne, of start start] sc True l assms(3) len
      by (simp add: erased_tail_def)
    have "a < 4294967296" using a assms bound by (simp add: erased_tail_def)
    then show ?thesis using True a assms
      by (simp add: fdb_continue_ff_addr_def continue_ff_loop_eq sc u32_id)
  next
    case False
    then have "takeWhile (\<lambda>b. b = FDB_BYTE_ERASED) (rev ?xs) = []"
      using ne l by (cases ?xs rule: rev_cases) auto
    then show ?thesis using False assms
      by (simp add: fdb_continue_ff_addr_def continue_ff_loop_eq sc erased_tail_def)
  qed
qed

lemma erased_tail_spec:
  assumes "start \<le> end_addr" "end_addr \<le> length m"
  defines "r \<equiv> erased_tail m start end_addr"
  shows "start \<le> r \<and> r \<le> end_addr"
    and "r \<le> i \<Longrightarrow> i < end_addr \<Longrightarrow> m ! i = FDB_BYTE_ERASED"
    and "start < r \<Longrightarrow> m ! (r - 1) \<noteq> FDB_BYTE_ERASED"
proof -
  let ?xs = "slice start (end_addr - start) m"
  let ?n = "length (takeWhile (\<lambda>b. b = FDB_BYTE_ERASED) (rev ?xs))"
  have len: "length ?xs = end_addr - start" using assms by simp
  have n: "?n \<le> end_addr - start" by (metis len length_rev length_takeWhile_le)
  have r: "r = end_addr - ?n" by (simp add: r_def erased_tail_def)
  show "start \<le> r \<and> r \<le> end_addr" using n r assms(1) by linarith
  have nth: "rev ?xs ! k = m ! (end_addr - Suc k)" if "k < end_addr - start" for k
    using that assms(2) len by (simp add: rev_nth nth_slice)
  show "m ! i = FDB_BYTE_ERASED" if "r \<le> i" "i < end_addr"
  proof -
    have k: "end_addr - Suc i < ?n" using that r by linarith
    then have "rev ?xs ! (end_addr - Suc i) = FDB_BYTE_ERASED"
      using nth_mem [OF k] set_takeWhileD takeWhile_nth [OF k] by metis
    then show ?thesis using nth [of "end_addr - Suc i"] that k n by simp
  qed
  show "m ! (r - 1) \<noteq> FDB_BYTE_ERASED" if "start < r"
  proof -
    have k: "?n < length (rev ?xs)" using that r len by simp
    have "rev ?xs ! ?n \<noteq> FDB_BYTE_ERASED" using nth_length_takeWhile [OF k] .
    moreover have "end_addr - Suc ?n = r - 1" "?n < end_addr - start" using that r by linarith+
    ultimately show ?thesis using nth [of ?n] by simp
  qed
qed


subsection \<open>A small RAM disk\<close>

text \<open>
  A flash abstraction layer with one RAM device of \<open>n\<close> erased bytes and one partition that
  covers it, and a database on it: concrete inputs for the properties.
\<close>

definition ram_fal :: "nat \<Rightarrow> fal" where
  "ram_fal n =
     \<lparr>fal_ops = [mem_blk_ops (\<lambda>_. None) 0],
      fal_infos = [mem_blk\<lparr>dev_len := n, dev_mem := Some (replicate n FDB_BYTE_ERASED)\<rparr>],
      fal_flash_init_ok = True,
      fal_partition_table = [\<lparr>part_magic_word = FAL_PART_MAGIC_WORD, part_name = cstr ''db'',
        part_flash_name = MEM_FLASH_DEV_NAME, part_offset = 0, part_len = n, part_reserved = 0\<rparr>],
      fal_part_flash_cache = [Dev 0], fal_partition_table_len = 1, fal_partition_init_ok = True,
      fal_init_ok = True, fal_kmalloc_ok = (\<lambda>_. True), fal_stack_junk = 0xA5\<rparr>"

definition ram_db :: "nat \<Rightarrow> nat \<Rightarrow> fdb_db" where
  "ram_db n sec_size =
     \<lparr>db_name = cstr ''db'', db_type = FDB_DB_TYPE_KV, db_part = 0, db_sec_size = sec_size,
      db_max_size = n, db_oldest_addr = 0, db_init_ok = True, db_file_mode = False,
      db_not_formatable = False, db_lock_set = True, db_unlock_set = True, db_lock_cnt = 0,
      db_user_data = 0, db_fal = ram_fal n\<rparr>"

definition demo_blob :: "byte list \<Rightarrow> fdb_blob" where
  "demo_blob bs = \<lparr>blob_buf = Some bs, blob_size = length bs, blob_saved_meta_addr = 0, blob_saved_addr = 0,
     blob_saved_len = 0\<rparr>"

lemma ram_db_ok:
  assumes "n < 2147483648"
  shows "flash_ok (ram_db n k)" "db_flash_len (ram_db n k) = n"
    "db_img (ram_db n k) = replicate n FDB_BYTE_ERASED"
proof -
  have f: "\<not> db_file_mode (ram_db n k)" by (simp add: ram_db_def)
  have o: "on_mem_blk (db_fal (ram_db n k)) (db_part (ram_db n k)) (\<lambda>_. None) 0
      (replicate n FDB_BYTE_ERASED)"
    using assms
    by (simp add: on_mem_blk_def ram_db_def ram_fal_def mem_blk_ops_def get_mem_blk_addr_def)
  show "flash_ok (ram_db n k)" using f o by (auto simp: flash_ok_def)
  show l: "db_flash_len (ram_db n k) = n" by (simp add: db_flash_len_def ram_db_def ram_fal_def)
  show "db_img (ram_db n k) = replicate n FDB_BYTE_ERASED"
    using db_img_eq [OF f o] l by (simp add: ram_db_def ram_fal_def slice_def)
qed

subsection \<open>Properties\<close>

text \<open>A write inside the partition of a database on the RAM device succeeds; afterwards the
  range reads back as written, every range beside it reads as before, and the device is still in
  order.\<close>

theorem flash_read_back:
  assumes "flash_ok db" "a + length bs \<le> db_flash_len db"
  shows "\<exists>db'. fdb_flash_write db a bs sync = Some (FDB_NO_ERR, db') \<and> flash_ok db'
    \<and> (\<forall>buf. length buf = length bs \<longrightarrow> fdb_flash_read db' a buf = Some (FDB_NO_ERR, bs))
    \<and> (\<forall>b buf. b + length buf \<le> db_flash_len db
           \<and> (b + length buf \<le> a \<or> a + length bs \<le> b)
         \<longrightarrow> fdb_flash_read db' b buf = fdb_flash_read db b buf)"
proof -
  have l: "a + length bs \<le> length (db_img db)" using assms by (simp add: length_db_img)
  obtain db' where w: "fdb_flash_write db a bs sync = Some (FDB_NO_ERR, db')" "flash_ok db'"
    using dbs.wr_img [OF assms(1) l] by blast
  have "\<And>buf. length buf = length bs \<Longrightarrow> fdb_flash_read db' a buf = Some (FDB_NO_ERR, bs)"
    using dbs.read_after_write [OF assms(1) l _ w(1)] by simp
  moreover have "\<And>b buf. b + length buf \<le> db_flash_len db \<Longrightarrow> b + length buf \<le> a \<or> a + length bs \<le> b
      \<Longrightarrow> fdb_flash_read db' b buf = fdb_flash_read db b buf"
    using dbs.read_beside_write [OF assms(1) l _ _ w(1)] by (simp add: length_db_img assms(1))
  ultimately show ?thesis using w by blast
qed

theorem flash_read_back_witness:
  "\<exists>db'. fdb_flash_write (ram_db 64 32) 5 [1, 2, 3] True = Some (FDB_NO_ERR, db') \<and> flash_ok db'
    \<and> fdb_flash_read db' 5 [0, 0, 0] = Some (FDB_NO_ERR, [1, 2, 3])"
proof -
  have "flash_ok (ram_db 64 32)" "5 + length [1, 2, 3 :: byte] \<le> db_flash_len (ram_db 64 32)"
    by (simp_all add: ram_db_ok)
  from flash_read_back [OF this, of True] show ?thesis by auto
qed

text \<open>An access whose end (computed in 32 bits) lies beyond the partition is refused with
  the error code of the access, and changes neither the database nor the caller's buffer.\<close>

theorem flash_out_of_bounds:
  assumes "flash_ok db" "db_flash_len db < u32 (a + length bs)"
  shows "fdb_flash_read db a bs = Some (FDB_READ_ERR, bs)
    \<and> fdb_flash_write db a bs sync = Some (FDB_WRITE_ERR, db)
    \<and> fdb_flash_erase db a (length bs) = Some (FDB_ERASE_ERR, db)"
  using assms by (simp add: flash_out length_db_img)

theorem flash_out_of_bounds_witness:
  "flash_ok (ram_db 64 32) \<and> fdb_flash_write (ram_db 64 32) 62 [1, 2, 3] True
     = Some (FDB_WRITE_ERR, ram_db 64 32)"
proof -
  have "flash_ok (ram_db 64 32)" "db_flash_len (ram_db 64 32) < u32 (62 + length [1, 2, 3 :: byte])"
    by (simp_all add: ram_db_ok u32_def)
  from this(1) flash_out_of_bounds [OF this] show ?thesis by blast
qed

text \<open>C39: The search for the erased tail of a range returns, for a range inside the partition, the
  start of the longest run of erased bytes that ends at the end of the range: everything from
  there on is erased, and the byte before it is not.\<close>

theorem continue_ff_spec:
  assumes "flash_ok db" "start < end_addr" "end_addr \<le> db_flash_len db"
  shows "\<exists>r. fdb_continue_ff_addr db start end_addr = Some r \<and> start \<le> r \<and> r \<le> end_addr
    \<and> (\<forall>i. r \<le> i \<and> i < end_addr \<longrightarrow> db_img db ! i = FDB_BYTE_ERASED)
    \<and> (start < r \<longrightarrow> db_img db ! (r - 1) \<noteq> FDB_BYTE_ERASED)"
proof -
  have l: "end_addr \<le> length (db_img db)" using assms by (simp add: length_db_img)
  note spec = erased_tail_spec [OF less_imp_le [OF assms(2)] l]
  show ?thesis
    using continue_ff_tail [OF assms(1) l assms(2)] spec by blast
qed

theorem continue_ff_spec_witness:
  "\<exists>r. fdb_continue_ff_addr (ram_db 64 32) 3 60 = Some r \<and> 3 \<le> r \<and> r \<le> 60"
  using continue_ff_spec [of "ram_db 64 32" 3 60] by (auto simp: ram_db_ok)

end
