(* ===== verification/Fal_Boot.thy ===== *)
theory Fal_Boot
  imports Fdb_Store
begin

text \<open>
  The flash abstraction layer as the module starts it: \<open>fal_init\<close> runs the drivers, the first of
  which writes the partition table page, finds the table in it and loads it. This theory follows
  the whole path for a system whose MTD devices do not belong to the configured master, where the
  only partition is the RAM block, up to the state \<open>flash_ok\<close> on which the databases are proved.
\<close>

subsection \<open>The page with the entry of the RAM block\<close>

definition mem_entry :: "bytes \<Rightarrow> bytes" where
  "mem_entry name = le32 FAL_PART_MAGIC_WORD @ name @ replicate (24 - length name) 0
     @ MEM_FLASH_DEV_NAME @ replicate 21 0 @ le32 0 @ le32 32768 @ replicate 4 0"

definition mem_page :: "bytes \<Rightarrow> bytes" where
  "mem_page name = mem_entry name @ replicate 960 0"

lemma length_mem_dev_name [simp]: "length MEM_FLASH_DEV_NAME = 3"
  by (simp add: MEM_FLASH_DEV_NAME_def cstr_def)

lemma length_mem_entry [simp]: "length name \<le> 23 \<Longrightarrow> length (mem_entry name) = 64"
  by (simp add: mem_entry_def)

lemma splice_head: "length a = n \<Longrightarrow> splice (a @ m) n bs = a @ splice m 0 bs"
  by (simp add: splice_def)

lemma splice_zeros: "length bs \<le> n \<Longrightarrow> splice (replicate n 0) 0 bs = bs @ replicate (n - length bs) 0"
  by (simp add: splice_def)

lemma splice_split:
  assumes "length a + k = n" "k + length bs \<le> j"
  shows "splice (a @ replicate j 0) n bs = (a @ replicate k 0 @ bs) @ replicate (j - k - length bs) 0"
proof -
  have "replicate j (0 :: 'a) = replicate k 0 @ replicate (j - k) 0" using assms(2) by (simp add: replicate_add [symmetric])
  then have "splice (a @ replicate j 0) n bs = splice ((a @ replicate k 0) @ replicate (j - k) 0) n bs" by simp
  also have "\<dots> = (a @ replicate k 0) @ splice (replicate (j - k) 0) 0 bs" using assms(1) by (intro splice_head) simp
  also have "\<dots> = (a @ replicate k 0 @ bs) @ replicate (j - k - length bs) 0" using assms(2) by (simp add: splice_zeros)
  finally show ?thesis .
qed

lemma zeros_21: "replicate 21 (0 :: byte) = 0 # replicate 20 0"
  by (simp add: replicate_Suc [symmetric] del: replicate_Suc replicate.simps)

lemma mem_blk_detect_page:
  assumes "length name \<le> 23" "dev_len blk = 32768"
  shows "fal_flash_mem_blk_detect name blk 0 (replicate 1024 0) = Some (0, mem_page name)"
proof -
  let ?n = "length name"
  let ?a = "le32 FAL_PART_MAGIC_WORD" and ?m = "MEM_FLASH_DEV_NAME"
  have s1: "splice (replicate 1024 0) 0 ?a = ?a @ replicate 1020 0" by (simp add: splice_zeros)
  have s2: "splice (?a @ replicate 1020 0) 4 (name @ [0]) = (?a @ name @ [0]) @ replicate (1019 - ?n) 0"
    using splice_split [of ?a 0 4 "name @ [0]" 1020] assms(1) by simp
  have "24 - ?n = Suc (23 - ?n)" using assms(1) by simp
  then have r: "replicate (24 - ?n) (0 :: byte) = 0 # replicate (23 - ?n) 0" by simp
  have s3: "splice ((?a @ name @ [0]) @ replicate (1019 - ?n) 0) 28 (?m @ [0])
      = (?a @ name @ replicate (24 - ?n) 0 @ ?m @ [0]) @ replicate 992 0"
    using splice_split [of "?a @ name @ [0]" "23 - ?n" 28 "?m @ [0]" "1019 - ?n"] assms(1) r by simp
  let ?b = "?a @ name @ replicate (24 - ?n) 0 @ ?m @ [0]"
  have b: "length ?b = 32" using assms(1) by simp
  have s4: "splice (?b @ replicate 992 0) 52 (le32 0) = (?b @ replicate 20 0 @ le32 0) @ replicate 968 0"
    using splice_split [of ?b 20 52 "le32 0" 992] b by simp
  have s5: "splice ((?b @ replicate 20 0 @ le32 0) @ replicate 968 0) 56 (le32 32768)
      = (?b @ replicate 20 0 @ le32 0 @ le32 32768) @ replicate 964 0"
    using splice_split [of "?b @ replicate 20 0 @ le32 0" 0 56 "le32 32768" 968] b by simp
  have z: "replicate 964 (0 :: byte) = replicate 4 0 @ replicate 960 0" by (simp add: replicate_add [symmetric])
  show ?thesis using assms s1 s2 s3 s4 s5 z zeros_21
    by (simp add: fal_flash_mem_blk_detect_def put_field_def mem_store_def fdb_const mem_page_def mem_entry_def)
qed

subsection \<open>Searching the page\<close>

lemma no_part_magic:
  assumes "length buf = 64" "0x30 \<notin> set buf"
  shows "find_part_magic buf = None"
proof -
  have "of_le32 (slice i 4 buf) \<noteq> FAL_PART_MAGIC_WORD" if "i < 61" for i
  proof
    let ?b = "slice i 4 buf"
    assume "of_le32 ?b = FAL_PART_MAGIC_WORD"
    then have "unat (?b ! 0) + 256 * (unat (?b ! 1) + unat (?b ! 2) * 256 + unat (?b ! 3) * 65536) = 1162883376"
      by (simp add: of_le32_def fdb_const)
    moreover have "a = 48" if "a + 256 * x = 1162883376" "a < 256" for a x :: nat using that by presburger
    ultimately have "unat (?b ! 0) = 48" using unat_byte_less by blast
    then have "?b ! 0 = 0x30" by (simp add: word_unat_eq_iff)
    moreover have "?b ! 0 = buf ! i" using nth_slice [of 0 4 i buf] that assms(1) by simp
    moreover have "buf ! i \<in> set buf" using that assms(1) by simp
    ultimately show False using assms(2) by simp
  qed
  then show ?thesis by (auto simp: find_part_magic_def find_None_iff)
qed

lemma part_magic_first: "of_le32 (slice 0 4 buf) = FAL_PART_MAGIC_WORD \<Longrightarrow> find_part_magic buf = Some 0"
  unfolding find_part_magic_def find_Some_iff by (intro exI [of _ 0]) simp

lemma virt_read:
  assumes "dev_mem dev = Some m" "length m = 1024" "0 \<le> off" "nat off + length buf \<le> 1024"
  shows "virt_parts_read dev off buf = Some (int (length buf), slice (nat off) (length buf) m)"
  using assms by (simp add: virt_parts_read_def u32_id mem_load_def s32_id fdb_const)

lemma virt_read_before: "off < 0 \<Longrightarrow> virt_parts_read dev off buf = Some (0, buf)"
  by (simp add: virt_parts_read_def)

lemma length_mem_page [simp]: "length name \<le> 23 \<Longrightarrow> length (mem_page name) = 1024"
  by (simp add: mem_page_def)

lemma mem_page_windows:
  assumes "length name \<le> 23"
  shows "64 \<le> o' \<Longrightarrow> o' + 64 \<le> 1024 \<Longrightarrow> slice o' 64 (mem_page name) = replicate 64 0"
    "0x30 \<notin> set (slice 44 64 (mem_page name))" "slice 0 64 (mem_page name) = mem_entry name"
    "slice 0 4 (mem_entry name) = le32 FAL_PART_MAGIC_WORD"
proof -
  show "slice 0 4 (mem_entry name) = le32 FAL_PART_MAGIC_WORD" by (simp add: mem_entry_def slice_def)
  show "slice 0 64 (mem_page name) = mem_entry name" using assms by (simp add: slice_def mem_page_def)
  { assume "64 \<le> o'" "o' + 64 \<le> 1024"
    then show "slice o' 64 (mem_page name) = replicate 64 0" using assms by (simp add: slice_def mem_page_def) }
  let ?e = "replicate 8 0 @ le32 0 @ le32 32768 @ replicate 4 (0 :: byte)"
  have "24 - length name + length name = 24" "44 - (4 + length name) - (24 - length name) = 16" using assms by simp_all
  then have "drop 44 (mem_entry name) = ?e" by (simp add: mem_entry_def)
  then have "slice 44 64 (mem_page name) = ?e @ replicate 44 0" using assms by (simp add: slice_def mem_page_def)
  then show "0x30 \<notin> set (slice 44 64 (mem_page name))" by (auto simp: le32_def)
qed

lemma find_part_table_mem:
  assumes "length name \<le> 23" "op_read ops = virt_parts_read" "dev_mem dev = Some (mem_page name)"
    and "length buf = 64" "k \<le> 15"
  shows "find_part_table ops dev buf (44 + 61 * int k) = Some (True, 0)"
  using assms(4,5)
proof (induction k arbitrary: buf)
  case 0
  note w = mem_page_windows [OF assms(1)]
  have r: "virt_parts_read dev 44 buf = Some (64, slice 44 64 (mem_page name))"
    using virt_read [OF assms(3), of 44 buf] assms(1) 0 by simp
  have n: "find_part_magic (slice 44 64 (mem_page name)) = None"
    using w(2) assms(1) by (intro no_part_magic) simp_all
  have r': "virt_parts_read dev 0 (slice 44 64 (mem_page name)) = Some (64, mem_entry name)"
    using virt_read [OF assms(3), of 0 "slice 44 64 (mem_page name)"] assms(1) w(3) by simp
  have y: "find_part_magic (mem_entry name) = Some 0"
    using w(4) of_le32_le32 [of FAL_PART_MAGIC_WORD] by (intro part_magic_first) (simp add: u32_def fdb_const)
  have "find_part_table ops dev (slice 44 64 (mem_page name)) 0 = Some (True, 0)"
    using r' y assms(2) by (subst find_part_table.simps) simp
  then show ?case using r n assms(2) by (subst find_part_table.simps) simp
next
  case (Suc k)
  let ?o = "105 + 61 * k"
  have r: "virt_parts_read dev (int ?o) buf = Some (64, replicate 64 0)"
    using virt_read [OF assms(3), of "int ?o" buf] mem_page_windows(1) [OF assms(1), of ?o] Suc.prems assms(1)
    by (simp add: nat_add_distrib nat_mult_distrib)
  have "find_part_magic (replicate 64 0) = None" by (intro no_part_magic) simp_all
  moreover have "find_part_table ops dev (replicate 64 0) (44 + 61 * int k) = Some (True, 0)"
    using Suc.prems by (intro Suc.IH) simp_all
  ultimately show ?case using r assms(2) by (subst find_part_table.simps) (simp add: algebra_simps)
qed

subsection \<open>Loading the table\<close>

definition mem_partition :: "bytes \<Rightarrow> fal_partition" where
  "mem_partition name = \<lparr>part_magic_word = FAL_PART_MAGIC_WORD, part_name = name, part_flash_name = MEM_FLASH_DEV_NAME,
     part_offset = 0, part_len = 32768, part_reserved = 0\<rparr>"

lemma takeWhile_terminated: "0 \<notin> set xs \<Longrightarrow> takeWhile (\<lambda>b. b \<noteq> 0) (xs @ 0 # ys) = (xs :: bytes)"
  by (induction xs) auto

lemma partition_of_mem_entry:
  assumes "length name \<le> 23" "c_string name"
  shows "partition_of_bytes (mem_entry name) = mem_partition name"
proof -
  let ?n = "length name"
  have r: "24 - ?n = Suc (23 - ?n)" "?n + (24 - ?n) = 24" using assms(1) by simp_all
  have d4: "drop 4 (mem_entry name) = name @ 0 # replicate (23 - ?n) 0 @ MEM_FLASH_DEV_NAME @ replicate 21 0 @ le32 0 @ le32 32768 @ replicate 4 0"
    by (simp add: mem_entry_def r(1))
  have d28: "drop 28 (mem_entry name) = MEM_FLASH_DEV_NAME @ 0 # replicate 20 0 @ le32 0 @ le32 32768 @ replicate 4 0"
    using assms(1) by (simp add: mem_entry_def zeros_21)
  have d52: "drop 52 (mem_entry name) = le32 0 @ le32 32768 @ replicate 4 0"
    using assms(1) r(2) by (simp add: mem_entry_def)
  have "c_str_at (mem_entry name) 4 = name" "c_str_at (mem_entry name) 28 = MEM_FLASH_DEV_NAME"
    using takeWhile_terminated [of name] takeWhile_terminated [of MEM_FLASH_DEV_NAME] assms(2)
    by (simp_all add: c_str_at_def d4 d28 c_string_def MEM_FLASH_DEV_NAME_def cstr_def)
  moreover have "slice 52 4 (mem_entry name) = le32 0" using d52 by (simp add: slice_def)
  moreover have "replicate 4 (0 :: byte) = [0, 0, 0, 0]" by (simp add: eval_nat_numeral)
  then have "replicate 4 0 = le32 0" by (simp add: le32_def)
  then have "slice 56 4 (mem_entry name) = le32 32768" "slice 60 4 (mem_entry name) = le32 0"
    using arg_cong [OF d52, of "drop 4"] arg_cong [OF d52, of "drop 8"] by (simp_all add: slice_def)
  ultimately show ?thesis
    using mem_page_windows(4) [OF assms(1)]
    by (simp add: partition_of_bytes_def mem_partition_def fdb_const of_le32_le32 u32_def s32_def)
qed

lemma count_parts_mem:
  assumes "length name \<le> 23" "op_read ops = virt_parts_read" "dev_mem dev = Some (mem_page name)" "length buf = 64"
  shows "\<exists>b. count_parts ops dev 0 buf 0 = Some (1, b)"
proof -
  note w = mem_page_windows [OF assms(1)]
  have r: "virt_parts_read dev 0 buf = Some (64, mem_entry name)"
    using virt_read [OF assms(3), of 0 buf] assms(1,4) w(3) by simp
  have m: "of_le32 (slice 0 4 (mem_entry name)) = FAL_PART_MAGIC_WORD"
    using w(4) by (simp add: of_le32_le32 fdb_const u32_def)
  let ?b = "0 # drop 1 (mem_entry name)"
  have n: "of_le32 (slice 0 4 ?b) \<noteq> FAL_PART_MAGIC_WORD"
    by (simp add: mem_entry_def slice_def le32_def of_le32_def fdb_const)
  have v: "virt_parts_read dev (s32 (- 64)) ?b = Some (0, ?b)"
    using virt_read_before [of "s32 (- 64)"] by (simp add: s32_def)
  have "count_parts ops dev 0 (mem_entry name) 1 = Some (1, ?b)"
    using v n assms(2) by (subst count_parts.simps) (simp add: fdb_const)
  then show ?thesis using r m assms(2) by (subst count_parts.simps) (simp add: fdb_const s32_def)
qed

subsection \<open>\<open>fal_init\<close>\<close>

lemma nor_detect_none:
  "\<forall>m \<in> set mtds. \<not> strncmp_eq (master_name m @ [0]) (pn @ [0]) (Suc (length (master_name m)))
     \<Longrightarrow> nor_flash_detect_loop pn mtds base n page = Some (n, page)"
  by (induction mtds) simp_all

text \<open>The layer after \<open>fal_init\<close>, with \<open>size\<close> and the MTD devices as the module parameters say.\<close>

definition fal_booted ::
  "bytes \<Rightarrow> int \<Rightarrow> bytes \<Rightarrow> mtd_dev list \<Rightarrow> (nat \<Rightarrow> bytes option) \<Rightarrow> (nat \<Rightarrow> bool) \<Rightarrow> byte \<Rightarrow> fal" where
  "fal_booted name sz pn mtds malloc kmalloc_ok junk =
     (fal_load name sz pn mtds malloc kmalloc_ok junk)
       \<lparr>fal_infos := [virt_parts\<lparr>dev_mem := Some (mem_page name)\<rparr>, mem_blk\<lparr>dev_len := u32_of_int sz\<rparr>,
          nor_flash0\<lparr>dev_len := u32 (master_size (hd mtds)), dev_blk_size := master_erasesize (hd mtds),
            dev_name := master_name (hd mtds)\<rparr>],
        fal_flash_init_ok := True, fal_partition_table := [mem_partition name], fal_partition_table_len := 1,
        fal_part_flash_cache := [Dev 1], fal_partition_init_ok := True, fal_init_ok := True\<rparr>"

text \<open>The system has an MTD device, and none of the first 64 belongs to the configured master.\<close>

definition no_mtd_partition :: "bytes \<Rightarrow> mtd_dev list \<Rightarrow> bool" where
  "no_mtd_partition pn mtds \<longleftrightarrow>
     mtds \<noteq> [] \<and> length (master_name (hd mtds)) < FAL_DEV_NAME_MAX
   \<and> (\<forall>m \<in> set (take 64 mtds). \<not> strncmp_eq (master_name m @ [0]) (pn @ [0]) (Suc (length (master_name m))))"

lemma flash_init_mem:
  assumes "length name \<le> 23" "no_mtd_partition pn mtds"
  shows "flash_init_loop (device_table name sz pn mtds malloc) 0 device_infos_init
    = Some (0, [virt_parts\<lparr>dev_mem := Some (mem_page name)\<rparr>, mem_blk\<lparr>dev_len := u32_of_int sz\<rparr>,
          nor_flash0\<lparr>dev_len := u32 (master_size (hd mtds)), dev_blk_size := master_erasesize (hd mtds),
            dev_name := master_name (hd mtds)\<rparr>])"
proof -
  obtain m ms where mt: "mtds = m # ms" using assms(2) by (cases mtds) (simp_all add: no_mtd_partition_def)
  have "fal_flash_nor_flash_detect pn mtds 0 (replicate 1024 0) = Some (0, replicate 1024 0)"
    using assms(2) nor_detect_none by (simp add: fal_flash_nor_flash_detect_def no_mtd_partition_def)
  moreover have "fal_flash_mem_blk_detect name mem_blk 0 (replicate 1024 0) = Some (0, mem_page name)"
    using assms(1) by (intro mem_blk_detect_page) (simp_all add: mem_blk_def)
  ultimately have "detect_partition name pn mtds device_infos_init
      = Some (0, [virt_parts\<lparr>dev_mem := Some (mem_page name)\<rparr>, mem_blk, nor_flash0])"
    by (simp add: detect_partition_def device_infos_init_def virt_parts_def VIRT_FLASH_SIZE_def)
  then show ?thesis using assms(2)
    by (simp add: device_table_def virt_parts_ops_def mem_blk_ops_def nor_flash_ops_def mem_blk_init_def nor_flash_init_def
        no_mtd_partition_def mt)
qed

lemma find_virt: "flash_device_find (virt_parts\<lparr>dev_mem := m\<rparr> # ds) VIRT_PARTS_FLASH_DEV_NAME = Some 0"
  by (simp add: flash_device_find_def upt_conv_Cons strncmp_eq_refl virt_parts_def del: upt_Suc)

lemma find_mem: "flash_device_find (virt_parts\<lparr>dev_mem := m\<rparr> # mem_blk\<lparr>dev_len := n\<rparr> # ds) MEM_FLASH_DEV_NAME = Some 1"
proof -
  have "\<not> strncmp_eq (MEM_FLASH_DEV_NAME @ [0]) (VIRT_PARTS_FLASH_DEV_NAME @ [0]) (Suc 23)"
    unfolding strncmp_eq.simps by (simp add: MEM_FLASH_DEV_NAME_def VIRT_PARTS_FLASH_DEV_NAME_def cstr_def)
  then have "\<not> strncmp_eq (MEM_FLASH_DEV_NAME @ [0]) (VIRT_PARTS_FLASH_DEV_NAME @ [0]) FAL_DEV_NAME_MAX"
    by (simp add: FAL_DEV_NAME_MAX_def)
  then show ?thesis by (simp add: flash_device_find_def upt_conv_Cons strncmp_eq_refl virt_parts_def mem_blk_def del: upt_Suc)
qed

lemma fal_init_mem:
  assumes "length name \<le> 23" "c_string name" "no_mtd_partition pn mtds" "0 < sz" "sz < 2147483648" "\<forall>n. kmalloc_ok n"
  shows "fal_init (fal_load name sz pn mtds malloc kmalloc_ok junk) = Some (1, fal_booted name sz pn mtds malloc kmalloc_ok junk)"
proof -
  let ?f = "fal_load name sz pn mtds malloc kmalloc_ok junk"
  let ?i = "[virt_parts\<lparr>dev_mem := Some (mem_page name)\<rparr>, mem_blk\<lparr>dev_len := u32_of_int sz\<rparr>,
    nor_flash0\<lparr>dev_len := u32 (master_size (hd mtds)), dev_blk_size := master_erasesize (hd mtds), dev_name := master_name (hd mtds)\<rparr>]"
  define g where "g = ?f\<lparr>fal_infos := ?i, fal_flash_init_ok := True\<rparr>"
  have fi: "fal_flash_init ?f = Some (0, g)"
    using flash_init_mem [OF assms(1,3)] by (simp add: fal_flash_init_def fal_load_def g_def)
  let ?o = "virt_parts_ops name pn mtds" and ?d = "virt_parts\<lparr>dev_mem := Some (mem_page name)\<rparr>"
  have sel: "fal_ops g ! 0 = ?o" "fal_infos g ! 0 = ?d" "fal_infos g ! 1 = mem_blk\<lparr>dev_len := u32_of_int sz\<rparr>"
    "\<not> fal_partition_init_ok g" "fal_stack_junk g = junk" "fal_kmalloc_ok g = kmalloc_ok"
    by (simp_all add: g_def fal_load_def device_table_def)
  have o: "op_read ?o = virt_parts_read" by (simp add: virt_parts_ops_def)
  have d: "dev_mem ?d = Some (mem_page name)" "dev_len ?d = 1024" by (simp_all add: virt_parts_def VIRT_FLASH_SIZE_def)
  have fp: "find_part_table ?o ?d (replicate 64 junk) 959 = Some (True, 0)"
    using find_part_table_mem [OF assms(1) o d(1), of "replicate 64 junk" 15] by simp
  obtain b where cp: "count_parts ?o ?d 0 (replicate 64 junk) 0 = Some (1, b)"
    using count_parts_mem [OF assms(1) o d(1), of "replicate 64 junk"] by auto
  have lp: "load_parts ?o ?d 0 [0..<1] [] = Some (Some [mem_partition name])"
    using virt_read [OF d(1), of 0 "replicate 64 0"] mem_page_windows(3) [OF assms(1)] partition_of_mem_entry [OF assms(1,2)] o assms(1)
    by (simp add: fdb_const s32_def)
  have u: "u32_of_int sz = nat sz" "s32 (int (nat sz)) = sz" using assms(4,5) by (simp_all add: u32_of_int_def s32_id)
  have fd: "fal_flash_device_find g VIRT_PARTS_FLASH_DEV_NAME = Some 0" by (simp add: fal_flash_device_find_def find_virt g_def)
  let ?h = "g\<lparr>fal_partition_table := [mem_partition name], fal_partition_table_len := 1\<rparr>"
  have "fal_flash_device_find ?h MEM_FLASH_DEV_NAME = Some 1" using find_mem by (simp add: fal_flash_device_find_def g_def)
  then have pc: "check_and_update_part_cache ?h [mem_partition name] = (0, ?h\<lparr>fal_part_flash_cache := [Dev 1]\<rparr>)"
    using assms(4,6) u sel by (simp add: check_and_update_part_cache_def mem_partition_def mem_blk_def)
  have "fal_partition_init g = Some (1, ?h\<lparr>fal_part_flash_cache := [Dev 1], fal_partition_init_ok := True\<rparr>)"
    using fd sel o fp cp lp pc d assms(6)
    by (simp add: fal_partition_init_def FAL_PART_TABLE_FLASH_DEV_NAME_def Let_def s32_def fdb_const)
  then show ?thesis using fi by (simp add: fal_init_def fal_booted_def g_def)
qed

subsection \<open>A database on the loaded partition\<close>

lemma fal_booted_partition:
  assumes "0 < sz" "sz < 2147483648"
  and f: "f = fal_booted name sz pn mtds malloc kmalloc_ok junk"
  shows "fal_partition_find f name = Some 0" "fal_partition_table f ! 0 = mem_partition name"
    "fal_flash_device_find f MEM_FLASH_DEV_NAME = Some 1" "dev_blk_size (fal_infos f ! 1) = 4096"
    "fal_infos f ! 1 = mem_blk\<lparr>dev_len := nat sz\<rparr>" "fal_part_flash_cache f = [Dev 1]" "length (fal_infos f) = 3"
    "fal_ops f ! 1 = mem_blk_ops malloc sz" "fal_init_ok f"
proof -
  have "u32_of_int sz = nat sz" using assms(1,2) by (simp add: u32_of_int_def)
  then show "fal_partition_find f name = Some 0" "fal_partition_table f ! 0 = mem_partition name"
    "dev_blk_size (fal_infos f ! 1) = 4096" "fal_infos f ! 1 = mem_blk\<lparr>dev_len := nat sz\<rparr>" "fal_part_flash_cache f = [Dev 1]"
    "length (fal_infos f) = 3" "fal_ops f ! 1 = mem_blk_ops malloc sz" "fal_init_ok f"
    by (simp_all add: f fal_booted_def fal_partition_find_def mem_partition_def mem_blk_def fal_load_def device_table_def)
  show "fal_flash_device_find f MEM_FLASH_DEV_NAME = Some 1"
    using find_mem by (simp add: fal_flash_device_find_def f fal_booted_def)
qed

text \<open>The database \<open>db\<close> after \<open>_fdb_init_ex\<close> on the partition of the module.\<close>

definition module_db :: "fdb_db \<Rightarrow> bytes \<Rightarrow> bytes \<Rightarrow> int \<Rightarrow> bytes \<Rightarrow> mtd_dev list \<Rightarrow> (nat \<Rightarrow> bytes option)
    \<Rightarrow> (nat \<Rightarrow> bool) \<Rightarrow> byte \<Rightarrow> fdb_db_type \<Rightarrow> nat \<Rightarrow> fdb_db" where
  "module_db db dbname name sz pn mtds malloc kmalloc_ok junk type u =
     db\<lparr>db_name := dbname, db_type := type, db_user_data := u, db_part := 0, db_sec_size := 4096, db_max_size := 32768,
        db_fal := fal_booted name sz pn mtds malloc kmalloc_ok junk\<rparr>"

lemma module_init_ex:
  assumes "length name \<le> 23" "c_string name" "no_mtd_partition pn mtds" "0 < sz" "sz < 2147483648" "\<forall>n. kmalloc_ok n"
    and "\<not> db_init_ok db" "\<not> db_file_mode db" "db_sec_size db = 0"
    "db_fal db = fal_load name sz pn mtds malloc kmalloc_ok junk"
  shows "fdb_init_ex db dbname name type u = Some (FDB_NO_ERR, module_db db dbname name sz pn mtds malloc kmalloc_ok junk type u)"
proof -
  note b = fal_booted_partition [OF assms(4,5) refl, of name pn mtds malloc kmalloc_ok junk]
  have "(4096 :: nat) AND 4095 = 0" by simp
  then show ?thesis using assms(7-10) fal_init_mem [OF assms(1-6), of malloc junk] b
    by (simp add: fdb_init_ex_def fdb_init_sizes_def module_db_def mem_partition_def Let_def u32_sub_def)
qed

lemma module_db_mem:
  assumes "0 < sz" "sz < 2147483648" "\<not> db_file_mode db" "malloc (nat sz) = Some mem" "length mem = nat sz" "32768 \<le> sz"
  and d: "d = module_db db dbname name sz pn mtds malloc kmalloc_ok junk type u"
  shows "flash_ok d" "db_flash_len d = 32768" "db_img d = take 32768 mem"
proof -
  note b = fal_booted_partition [OF assms(1,2) refl, of name pn mtds malloc kmalloc_ok junk]
  have f: "\<not> db_file_mode d" using assms(3) by (simp add: d module_db_def)
  have n: "32768 \<le> nat sz" "nat sz < 2147483648" using assms(2,6) by linarith+
  have o: "on_mem_blk (db_fal d) (db_part d) malloc 1 mem"
    using b n assms(1,2,4-6) by (simp add: on_mem_blk_def d module_db_def mem_blk_ops_def get_mem_blk_addr_def mem_blk_def mem_partition_def)
  show "flash_ok d" using f o by (auto simp: flash_ok_def)
  show l: "db_flash_len d = 32768" using b by (simp add: db_flash_len_def d module_db_def mem_partition_def)
  show "db_img d = take 32768 mem" using db_img_eq [OF f o] l b by (simp add: d module_db_def mem_partition_def slice_def)
qed

lemma module_db_outside:
  assumes "0 < sz" "sz < 2147483648" "\<not> db_file_mode db" "malloc (nat sz) = Some mem" "length mem = nat sz"
    and "a + length bs \<le> 32768" "nat sz < a + length bs"
  and d: "d = module_db db dbname name sz pn mtds malloc kmalloc_ok junk type u"
  shows "fdb_flash_write d a bs sync = None"
proof -
  note b = fal_booted_partition [OF assms(1,2) refl, of name pn mtds malloc kmalloc_ok junk]
  show ?thesis using b assms(3-7)
    by (simp add: fdb_flash_write_def fal_partition_write_def flash_device_find_by_part_def dev_offset_def d module_db_def
        mem_partition_def mem_blk_ops_def mem_blk_write_def get_mem_blk_addr_def mem_store_def mem_blk_def u32_id s32_id)
qed

subsection \<open>Properties\<close>

text \<open>C18: Starting the module. With no MTD partition to use, \<open>fal_init\<close> finds the table page that the
  driver of the device \<open>virt\<close> wrote and loads its one partition, the RAM block under the name of the
  module parameter. \<open>_fdb_init_ex\<close> on this name then succeeds with sectors of 4096 bytes and 32768
  bytes in all, and when the block has that size the database sits on a working device whose bytes
  are those of the block.\<close>

theorem module_starts:
  assumes "length name \<le> 23" "c_string name" "no_mtd_partition pn mtds" "32768 \<le> sz" "sz < 2147483648" "\<forall>n. kmalloc_ok n"
    and "\<not> db_init_ok db" "\<not> db_file_mode db" "db_sec_size db = 0"
    and "db_fal db = fal_load name sz pn mtds malloc kmalloc_ok junk" "malloc (nat sz) = Some mem" "length mem = nat sz"
  shows "\<exists>f db'. fal_init (db_fal db) = Some (1, f) \<and> fal_init_check f \<and> fal_partition_find f name = Some 0
    \<and> fdb_init_ex db dbname name type u = Some (FDB_NO_ERR, db') \<and> db_fal db' = f
    \<and> flash_ok db' \<and> db_sec_size db' = 4096 \<and> db_max_size db' = 32768 \<and> db_img db' = take 32768 mem"
proof -
  have z: "0 < sz" using assms(4) by simp
  note b = fal_booted_partition [OF z assms(5) refl, of name pn mtds malloc kmalloc_ok junk]
  show ?thesis
    using fal_init_mem [OF assms(1-3) z assms(5,6), of malloc junk] b
      module_init_ex [OF assms(1-3) z assms(5,6,7,8,9,10), of dbname type u]
      module_db_mem [OF z assms(5,8,11,12,4) refl [of "module_db db dbname name sz pn mtds malloc kmalloc_ok junk type u"]] assms(10)
    by (intro exI [of _ "fal_booted name sz pn mtds malloc kmalloc_ok junk"]
        exI [of _ "module_db db dbname name sz pn mtds malloc kmalloc_ok junk type u"])
      (simp add: fal_init_check_def module_db_def)
qed

definition demo_mtd :: mtd_dev where
  "demo_mtd = \<lparr>mtd_name = cstr ''boot'', mtd_size = 4096, mtd_master_ofs = 0, master_name = cstr ''nand0'',
     master_size = 65536, master_erasesize = 4096\<rparr>"

text \<open>A database object of zero bytes on the layer of the module just loaded, with a RAM block of \<open>n\<close> bytes.\<close>

definition module_blank :: "nat \<Rightarrow> fdb_db" where
  "module_blank n = (ram_db 0 0)\<lparr>db_init_ok := False, db_max_size := 0,
     db_fal := fal_load (cstr ''flashdb'') (int n) (cstr ''spi0.0'') [demo_mtd] (\<lambda>k. Some (replicate k 0)) (\<lambda>_. True) 0xA5\<rparr>"

lemma module_blank_facts:
  "length (cstr ''flashdb'') \<le> 23" "c_string (cstr ''flashdb'')" "no_mtd_partition (cstr ''spi0.0'') [demo_mtd]"
  "\<not> db_init_ok (module_blank n)" "\<not> db_file_mode (module_blank n)" "db_sec_size (module_blank n) = 0"
proof -
  have "\<not> strncmp_eq (cstr ''nand0'' @ [0]) (cstr ''spi0.0'' @ [0]) (Suc (length (cstr ''nand0'')))"
    unfolding strncmp_eq.simps by (simp add: cstr_def)
  then show "no_mtd_partition (cstr ''spi0.0'') [demo_mtd]"
    by (simp add: no_mtd_partition_def demo_mtd_def FAL_DEV_NAME_MAX_def) (simp add: cstr_def)
  show "length (cstr ''flashdb'') \<le> 23" "c_string (cstr ''flashdb'')" by (simp_all add: cstr_def c_string_def)
  show "\<not> db_init_ok (module_blank n)" "\<not> db_file_mode (module_blank n)" "db_sec_size (module_blank n) = 0"
    by (simp_all add: module_blank_def ram_db_def)
qed

theorem module_starts_witness:
  "\<exists>db'. fdb_init_ex (module_blank 32768) (cstr ''env'') (cstr ''flashdb'') FDB_DB_TYPE_KV 0 = Some (FDB_NO_ERR, db')
    \<and> flash_ok db' \<and> db_max_size db' = 32768"
  using module_starts [OF module_blank_facts(1-3), of 32768 "\<lambda>_. True" "module_blank 32768" "\<lambda>k. Some (replicate k 0)" "0xA5"
      "replicate 32768 0" "cstr ''env''" FDB_DB_TYPE_KV 0] module_blank_facts(4-6)
  by (auto simp: module_blank_def)

text \<open>C30: The partition of the RAM block has 32768 bytes whatever the module parameter \<open>size\<close> says,
  because its entry is written before the driver of the block takes the parameter over. With a
  smaller size, a write inside the partition but behind the end of the block leaves the memory of
  the block.\<close>

theorem module_size_parameter:
  assumes "length name \<le> 23" "c_string name" "no_mtd_partition pn mtds" "0 < sz" "sz < 2147483648" "\<forall>n. kmalloc_ok n"
    and "\<not> db_init_ok db" "\<not> db_file_mode db" "db_sec_size db = 0"
    and "db_fal db = fal_load name sz pn mtds malloc kmalloc_ok junk" "malloc (nat sz) = Some mem" "length mem = nat sz"
    and "a + length bs \<le> 32768" "nat sz < a + length bs"
  shows "\<exists>db'. fdb_init_ex db dbname name type u = Some (FDB_NO_ERR, db') \<and> db_max_size db' = 32768
    \<and> fdb_flash_write db' a bs sync = None"
  using module_init_ex [OF assms(1-10), of dbname type u]
    module_db_outside [OF assms(4,5,8,11,12,13,14) refl [of "module_db db dbname name sz pn mtds malloc kmalloc_ok junk type u"], of sync]
  by (simp add: module_db_def)

theorem module_size_parameter_witness:
  "\<exists>db'. fdb_init_ex (module_blank 4096) (cstr ''env'') (cstr ''flashdb'') FDB_DB_TYPE_KV 0 = Some (FDB_NO_ERR, db')
    \<and> db_max_size db' = 32768 \<and> fdb_flash_write db' 4096 [0] True = None"
  using module_size_parameter [OF module_blank_facts(1-3), of 4096 "\<lambda>_. True" "module_blank 4096" "\<lambda>k. Some (replicate k 0)" "0xA5"
      "replicate 4096 0" 4096 "[0]" "cstr ''env''" FDB_DB_TYPE_KV 0 True] module_blank_facts(4-6)
  by (auto simp: module_blank_def)

end
