(* ===== verification/Kvdb_Cache.thy ===== *)
theory Kvdb_Cache
  imports Fdb_Flash
begin

text \<open>
  The data of the key-value database (\<open>fdb_kvdb.c\<close>, \<open>fdb_def.h\<close>) and its two RAM caches: the
  sector cache and the cache of KV addresses by name CRC. A pointer into the sector cache is an
  index, a null pointer \<^const>\<open>None\<close>. The proofs state what a lookup returns after an update.
\<close>

subsection \<open>Constants\<close>

definition FDB_KV_NAME_MAX :: nat where [fdb_const]: "FDB_KV_NAME_MAX = 64"
definition FDB_KV_CACHE_TABLE_SIZE :: nat where [fdb_const]: "FDB_KV_CACHE_TABLE_SIZE = 64"
definition FDB_SECTOR_CACHE_TABLE_SIZE :: nat where [fdb_const]: "FDB_SECTOR_CACHE_TABLE_SIZE = 8"
definition SECTOR_MAGIC_WORD :: nat where [fdb_const]: "SECTOR_MAGIC_WORD = 0x30424446"
definition KV_MAGIC_WORD :: nat where [fdb_const]: "KV_MAGIC_WORD = 0x3030564B"
definition SECTOR_NOT_COMBINED :: nat where [fdb_const]: "SECTOR_NOT_COMBINED = 0xFFFFFFFF"
definition SECTOR_COMBINED :: nat where [fdb_const]: "SECTOR_COMBINED = 0"
definition FAILED_ADDR :: nat where [fdb_const]: "FAILED_ADDR = 0xFFFFFFFF"
definition FDB_GC_EMPTY_SEC_THRESHOLD :: nat where [fdb_const]: "FDB_GC_EMPTY_SEC_THRESHOLD = 1"
definition FDB_STR_KV_VALUE_MAX_SIZE :: nat where [fdb_const]: "FDB_STR_KV_VALUE_MAX_SIZE = 128"

text \<open>
  The layout of \<open>struct sector_hdr_data\<close> (16 bytes: \<open>store\<close> at 0, \<open>dirty\<close> at 1, two bytes of
  padding, \<open>magic\<close> at 4, \<open>combined\<close> at 8, \<open>reserved\<close> at 12) and of \<open>struct kv_hdr_data\<close>
  (24 bytes: \<open>status_table\<close> at 0, three bytes of padding, \<open>magic\<close> at 4, \<open>len\<close> at 8, \<open>crc32\<close> at
  12, \<open>name_len\<close> at 16, three bytes of padding, \<open>value_len\<close> at 20), for write granularity 1.
\<close>

definition SECTOR_HDR_DATA_SIZE :: nat where [fdb_const]: "SECTOR_HDR_DATA_SIZE = 16"
definition SECTOR_STORE_OFFSET :: nat where [fdb_const]: "SECTOR_STORE_OFFSET = 0"
definition SECTOR_DIRTY_OFFSET :: nat where [fdb_const]: "SECTOR_DIRTY_OFFSET = 1"
definition SECTOR_MAGIC_OFFSET :: nat where [fdb_const]: "SECTOR_MAGIC_OFFSET = 4"
definition KV_HDR_DATA_SIZE :: nat where [fdb_const]: "KV_HDR_DATA_SIZE = 24"
definition KV_MAGIC_OFFSET :: nat where [fdb_const]: "KV_MAGIC_OFFSET = 4"
definition FDB_SEC_REMAIN_THRESHOLD :: nat where
  [fdb_const]: "FDB_SEC_REMAIN_THRESHOLD = KV_HDR_DATA_SIZE + FDB_KV_NAME_MAX"

subsection \<open>Data (\<open>fdb_def.h\<close>)\<close>

record fdb_kv =
  kv_status :: fdb_kv_status
  kv_crc_is_ok :: bool
  kv_name_len :: nat
  kv_magic :: nat
  kv_len :: nat
  kv_value_len :: nat
  kv_name :: bytes
  kv_addr_start :: nat
  kv_addr_value :: nat

record kvdb_sec_info =
  sec_check_ok :: bool
  sec_store :: fdb_sector_store_status
  sec_dirty :: fdb_sector_dirty_status
  sec_addr :: nat
  sec_magic :: nat
  sec_combined :: nat
  sec_remain :: nat
  sec_empty_kv :: nat

record kv_cache_node =
  node_name_crc :: nat
  node_active :: nat
  node_addr :: nat

record fdb_default_kv_node =
  dkv_key :: bytes
  dkv_value :: bytes
  dkv_value_len :: nat

record fdb_kvdb =
  kv_parent :: fdb_db
  kv_default_kvs :: "fdb_default_kv_node list"
  kv_gc_request :: bool
  kv_in_recovery_check :: bool
  kv_cur_kv :: fdb_kv
  kv_cur_sector :: kvdb_sec_info
  kv_last_is_complete_del :: bool
  kv_cache_table :: "kv_cache_node list"
  kv_sector_cache_table :: "kvdb_sec_info list"

text \<open>What a local \<open>struct fdb_kv\<close> or \<open>struct kvdb_sec_info\<close> holds before it is assigned.\<close>

definition junk_kv :: "byte \<Rightarrow> fdb_kv" where
  "junk_kv b =
     (let n = of_le32 (replicate 4 b) in
      \<lparr>kv_status = kv_status_of n, kv_crc_is_ok = (b \<noteq> 0), kv_name_len = unat b, kv_magic = n,
       kv_len = n, kv_value_len = n, kv_name = replicate FDB_KV_NAME_MAX b, kv_addr_start = n,
       kv_addr_value = n\<rparr>)"

definition junk_sec :: "byte \<Rightarrow> kvdb_sec_info" where
  "junk_sec b =
     (let n = of_le32 (replicate 4 b) in
      \<lparr>sec_check_ok = (b \<noteq> 0), sec_store = store_of n, sec_dirty = dirty_of n, sec_addr = n,
       sec_magic = n, sec_combined = n, sec_remain = n, sec_empty_kv = n\<rparr>)"

abbreviation kvdb_sec_size :: "fdb_kvdb \<Rightarrow> nat" where
  "kvdb_sec_size db \<equiv> db_sec_size (kv_parent db)"

abbreviation kvdb_max_size :: "fdb_kvdb \<Rightarrow> nat" where
  "kvdb_max_size db \<equiv> db_max_size (kv_parent db)"

abbreviation kvdb_oldest_addr :: "fdb_kvdb \<Rightarrow> nat" where
  "kvdb_oldest_addr db \<equiv> db_oldest_addr (kv_parent db)"

abbreviation kvdb_stk :: "fdb_kvdb \<Rightarrow> byte" where
  "kvdb_stk db \<equiv> stk (kv_parent db)"

definition kvdb_lock :: "fdb_kvdb \<Rightarrow> fdb_kvdb" where
  "kvdb_lock db = db\<lparr>kv_parent := db_lock (kv_parent db)\<rparr>"

definition kvdb_unlock :: "fdb_kvdb \<Rightarrow> fdb_kvdb" where
  "kvdb_unlock db = db\<lparr>kv_parent := db_unlock (kv_parent db)\<rparr>"

text \<open>The flash primitives on the embedded \<open>struct fdb_db\<close>.\<close>

definition kv_flash_read :: "fdb_kvdb \<Rightarrow> nat \<Rightarrow> bytes \<Rightarrow> (fdb_err \<times> bytes) option" where
  "kv_flash_read db addr buf = fdb_flash_read (kv_parent db) addr buf"

definition kv_flash_write :: "fdb_kvdb \<Rightarrow> nat \<Rightarrow> bytes \<Rightarrow> bool \<Rightarrow> (fdb_err \<times> fdb_kvdb) option" where
  "kv_flash_write db addr buf sync = do {
     (err, p) \<leftarrow> fdb_flash_write (kv_parent db) addr buf sync;
     Some (err, db\<lparr>kv_parent := p\<rparr>)
   }"

definition kv_flash_erase :: "fdb_kvdb \<Rightarrow> nat \<Rightarrow> nat \<Rightarrow> (fdb_err \<times> fdb_kvdb) option" where
  "kv_flash_erase db addr sz = do {
     (err, p) \<leftarrow> fdb_flash_erase (kv_parent db) addr sz;
     Some (err, db\<lparr>kv_parent := p\<rparr>)
   }"

definition kv_write_status :: "fdb_kvdb \<Rightarrow> nat \<Rightarrow> nat \<Rightarrow> nat \<Rightarrow> bool \<Rightarrow> (fdb_err \<times> fdb_kvdb) option" where
  "kv_write_status db addr num idx sync = do {
     (err, p) \<leftarrow> fdb_write_status (kv_parent db) addr num idx sync;
     Some (err, db\<lparr>kv_parent := p\<rparr>)
   }"

subsection \<open>The sector cache\<close>

text \<open>
  The loop of \<open>update_sector_cache\<close> over the indices \<open>is\<close>: the entry with the sector's address is
  replaced or dropped and the function returns; otherwise the last free index is the result.
\<close>

fun update_sector_cache_loop ::
  "nat list \<Rightarrow> kvdb_sec_info \<Rightarrow> kvdb_sec_info list \<Rightarrow> nat \<Rightarrow> bool \<times> kvdb_sec_info list \<times> nat" where
  "update_sector_cache_loop [] sector t empty_index = (False, t, empty_index)"
| "update_sector_cache_loop (i # is) sector t empty_index =
     (if sec_addr (t ! i) = sec_addr sector
      then (True,
            (if sec_check_ok sector then t[i := sector]
             else t[i := (t ! i)\<lparr>sec_addr := FDB_DATA_UNUSED\<rparr>]),
            empty_index)
      else if sec_addr (t ! i) = FDB_DATA_UNUSED then update_sector_cache_loop is sector t i
      else update_sector_cache_loop is sector t empty_index)"

definition update_sector_cache :: "fdb_kvdb \<Rightarrow> kvdb_sec_info \<Rightarrow> fdb_kvdb" where
  "update_sector_cache db sector =
     (let (returned, t, empty_index) =
        update_sector_cache_loop [0..<FDB_SECTOR_CACHE_TABLE_SIZE] sector
          (kv_sector_cache_table db) FDB_SECTOR_CACHE_TABLE_SIZE
      in if \<not> returned \<and> sec_check_ok sector \<and> empty_index < FDB_SECTOR_CACHE_TABLE_SIZE
         then db\<lparr>kv_sector_cache_table := t[empty_index := sector]\<rparr>
         else db\<lparr>kv_sector_cache_table := t\<rparr>)"

definition get_sector_from_cache :: "fdb_kvdb \<Rightarrow> nat \<Rightarrow> nat option" where
  "get_sector_from_cache db addr =
     List.find (\<lambda>i. sec_addr (kv_sector_cache_table db ! i) = addr) [0..<FDB_SECTOR_CACHE_TABLE_SIZE]"

definition update_sector_empty_addr_cache :: "fdb_kvdb \<Rightarrow> nat \<Rightarrow> nat \<Rightarrow> fdb_kvdb" where
  "update_sector_empty_addr_cache db addr empty_addr =
     (case get_sector_from_cache db addr of
        None \<Rightarrow> db
      | Some i \<Rightarrow>
          let s = kv_sector_cache_table db ! i in
          db\<lparr>kv_sector_cache_table := (kv_sector_cache_table db)
               [i := s\<lparr>sec_empty_kv := empty_addr,
                      sec_remain := u32_sub (kvdb_sec_size db) (u32_sub empty_addr (sec_addr s))\<rparr>]\<rparr>)"

definition update_sector_status_store_cache ::
  "fdb_kvdb \<Rightarrow> nat \<Rightarrow> fdb_sector_store_status \<Rightarrow> fdb_kvdb" where
  "update_sector_status_store_cache db addr status =
     (case get_sector_from_cache db addr of
        None \<Rightarrow> db
      | Some i \<Rightarrow>
          db\<lparr>kv_sector_cache_table := (kv_sector_cache_table db)
               [i := (kv_sector_cache_table db ! i)\<lparr>sec_store := status\<rparr>]\<rparr>)"

subsection \<open>The cache of KV addresses\<close>

text \<open>\<open>(uint16_t) (fdb_calc_crc32(0, name, name_len) >> 16)\<close>.\<close>

definition kv_name_crc :: "bytes \<Rightarrow> nat" where
  "kv_name_crc name = unat (drop_bit 16 (fdb_calc_crc32 0 name)) mod 65536"

text \<open>
  The loop of \<open>update_kv_cache\<close> over the indices \<open>is\<close>; the first component says whether it
  returned from inside, the last two are \<open>empty_index\<close> and \<open>min_activity_index\<close>.
\<close>

fun update_kv_cache_loop ::
  "nat list \<Rightarrow> nat \<Rightarrow> nat \<Rightarrow> kv_cache_node list \<Rightarrow> nat \<Rightarrow> nat \<Rightarrow> nat
   \<Rightarrow> bool \<times> kv_cache_node list \<times> nat \<times> nat" where
  "update_kv_cache_loop [] name_crc addr t empty_index min_index min_activity =
     (False, t, empty_index, min_index)"
| "update_kv_cache_loop (i # is) name_crc addr t empty_index min_index min_activity =
     (let n = t ! i in
      if addr \<noteq> FDB_DATA_UNUSED then
        if node_name_crc n = name_crc
        then (True, t[i := n\<lparr>node_addr := addr\<rparr>], empty_index, min_index)
        else if node_addr n = FDB_DATA_UNUSED \<and> empty_index = FDB_KV_CACHE_TABLE_SIZE
        then update_kv_cache_loop is name_crc addr t i min_index min_activity
        else if node_addr n \<noteq> FDB_DATA_UNUSED then
          let n = (if node_active n > 0 then n\<lparr>node_active := node_active n - 1\<rparr> else n);
              t = t[i := n] in
          if node_active n < min_activity
          then update_kv_cache_loop is name_crc addr t empty_index i (node_active n)
          else update_kv_cache_loop is name_crc addr t empty_index min_index min_activity
        else update_kv_cache_loop is name_crc addr t empty_index min_index min_activity
      else if node_name_crc n = name_crc
      then (True, t[i := n\<lparr>node_addr := FDB_DATA_UNUSED, node_active := 0\<rparr>], empty_index, min_index)
      else update_kv_cache_loop is name_crc addr t empty_index min_index min_activity)"

definition update_kv_cache :: "fdb_kvdb \<Rightarrow> bytes \<Rightarrow> nat \<Rightarrow> fdb_kvdb" where
  "update_kv_cache db name addr =
     (let name_crc = kv_name_crc name;
          (returned, t, empty_index, min_index) =
            update_kv_cache_loop [0..<FDB_KV_CACHE_TABLE_SIZE] name_crc addr (kv_cache_table db)
              FDB_KV_CACHE_TABLE_SIZE FDB_KV_CACHE_TABLE_SIZE 0xFFFF;
          new = \<lparr>node_name_crc = name_crc, node_active = FDB_KV_CACHE_TABLE_SIZE, node_addr = addr\<rparr>
      in if returned then db\<lparr>kv_cache_table := t\<rparr>
         else if empty_index < FDB_KV_CACHE_TABLE_SIZE
         then db\<lparr>kv_cache_table := t[empty_index := new]\<rparr>
         else if min_index < FDB_KV_CACHE_TABLE_SIZE
         then db\<lparr>kv_cache_table := t[min_index := new]\<rparr>
         else db\<lparr>kv_cache_table := t\<rparr>)"

text \<open>
  The loop of \<open>get_kv_from_cache\<close>: each candidate's name is read from flash, in a buffer of
  \<open>FDB_KV_NAME_MAX\<close> zero bytes, and compared. A comparison that would run past that buffer has
  no defined result.
\<close>

fun get_kv_from_cache_loop ::
  "nat list \<Rightarrow> fdb_kvdb \<Rightarrow> bytes \<Rightarrow> (nat option \<times> fdb_kvdb) option" where
  "get_kv_from_cache_loop [] db name = Some (None, db)"
| "get_kv_from_cache_loop (i # is) db name =
     (let n = kv_cache_table db ! i in
      if node_addr n \<noteq> FDB_DATA_UNUSED \<and> node_name_crc n = kv_name_crc name then do {
        (err, saved_name) \<leftarrow>
          kv_flash_read db (u32 (node_addr n + KV_HDR_DATA_SIZE)) (replicate FDB_KV_NAME_MAX 0);
        if strncmp_eq name saved_name (length name)
        then
          let n' = (if node_active n \<ge> 0xFFFF - FDB_KV_CACHE_TABLE_SIZE then n\<lparr>node_active := 0xFFFF\<rparr>
                    else n\<lparr>node_active := node_active n + FDB_KV_CACHE_TABLE_SIZE\<rparr>)
          in Some (Some (node_addr n), db\<lparr>kv_cache_table := (kv_cache_table db)[i := n']\<rparr>)
        else if FDB_KV_NAME_MAX < length name \<and> take FDB_KV_NAME_MAX name = saved_name
        then None
        else get_kv_from_cache_loop is db name
      }
      else get_kv_from_cache_loop is db name)"

definition get_kv_from_cache :: "fdb_kvdb \<Rightarrow> bytes \<Rightarrow> (nat option \<times> fdb_kvdb) option" where
  "get_kv_from_cache db name = get_kv_from_cache_loop [0..<FDB_KV_CACHE_TABLE_SIZE] db name"

end
