(* ===== verification/Kvdb_Read.thy ===== *)
theory Kvdb_Read
  imports Kvdb_Cache
begin

text \<open>
  The reading half of \<open>fdb_kvdb.c\<close>: finding the next KV in a sector, reading a KV and a sector
  header from flash, walking over all sectors and KVs, and the API that looks a key up.

  A function that can write to the flash or change a cache returns the database; one with an
  out parameter returns it. A callback gets its \<open>void *\<close> arguments as one value, returns it
  changed, and gets and returns the database.
\<close>

subsection \<open>The next KV of a sector\<close>

definition kv_magic_at :: "bytes \<Rightarrow> nat \<Rightarrow> nat" where
  "kv_magic_at buf i = of_le32 (slice i 4 buf)"

text \<open>The test of the inner loop of \<open>find_next_kv_addr\<close>, and the outer loop.\<close>

definition kv_magic_hit :: "bytes \<Rightarrow> nat \<Rightarrow> nat \<Rightarrow> nat \<Rightarrow> bool" where
  "kv_magic_hit buf start_bak start i \<longleftrightarrow>
     kv_magic_at buf i = KV_MAGIC_WORD \<and> u32_sub (u32 (start + i)) KV_MAGIC_OFFSET \<ge> start_bak"

partial_function (option) find_next_kv_loop ::
  "fdb_kvdb \<Rightarrow> nat \<Rightarrow> bytes \<Rightarrow> nat \<Rightarrow> nat \<Rightarrow> nat option" where
  "find_next_kv_loop db start_bak buf start end_addr =
     (if start < end_addr \<and> u32 (start + 32) < end_addr then do {
        (err, buf) \<leftarrow> kv_flash_read db start buf;
        if err \<noteq> FDB_NO_ERR then Some FAILED_ADDR
        else case List.find (kv_magic_hit buf start_bak start)
                    (takeWhile (\<lambda>i. u32 (start + i) < end_addr) [0..<28]) of
          Some i \<Rightarrow> Some (u32_sub (u32 (start + i)) KV_MAGIC_OFFSET)
        | None \<Rightarrow> find_next_kv_loop db start_bak buf (u32 (start + 28)) end_addr
      } else Some FAILED_ADDR)"

definition find_next_kv_addr :: "fdb_kvdb \<Rightarrow> nat \<Rightarrow> nat \<Rightarrow> nat option" where
  "find_next_kv_addr db start end_addr =
     (case get_sector_from_cache db (FDB_ALIGN_DOWN start (kvdb_sec_size db)) of
        Some i \<Rightarrow>
          if start = sec_empty_kv (kv_sector_cache_table db ! i) then Some FAILED_ADDR
          else find_next_kv_loop db start (replicate 32 (kvdb_stk db)) start end_addr
      | None \<Rightarrow> find_next_kv_loop db start (replicate 32 (kvdb_stk db)) start end_addr)"

definition get_next_kv_addr :: "fdb_kvdb \<Rightarrow> kvdb_sec_info \<Rightarrow> fdb_kv \<Rightarrow> nat option" where
  "get_next_kv_addr db sector pre_kv =
     (let sec_end = u32 (sec_addr sector + kvdb_sec_size db) in
      if sec_store sector = FDB_SECTOR_STORE_EMPTY then Some FAILED_ADDR
      else if kv_addr_start pre_kv = FAILED_ADDR
      then Some (u32 (sec_addr sector + SECTOR_HDR_DATA_SIZE))
      else if kv_addr_start pre_kv \<le> sec_end then do {
        addr \<leftarrow> find_next_kv_addr db
          (if kv_crc_is_ok pre_kv then u32 (kv_addr_start pre_kv + kv_len pre_kv)
           else u32 (kv_addr_start pre_kv + FDB_WG_ALIGN 1))
          (u32_sub sec_end SECTOR_HDR_DATA_SIZE);
        if addr = FAILED_ADDR \<or> addr > sec_end \<or> kv_len pre_kv = 0 then Some FAILED_ADDR
        else Some addr
      }
      else Some FAILED_ADDR)"

subsection \<open>Reading a KV\<close>

text \<open>The CRC of \<open>total\<close> bytes from \<open>base\<close> on, read through a buffer of 32 bytes.\<close>

partial_function (option) kv_crc_loop ::
  "fdb_kvdb \<Rightarrow> nat \<Rightarrow> nat \<Rightarrow> 32 word \<Rightarrow> bytes \<Rightarrow> nat \<Rightarrow> (32 word) option" where
  "kv_crc_loop db base data_len crc buf len =
     (if len < data_len then do {
        let sz = (if u32 (len + 32) < data_len then 32 else u32_sub data_len len);
        (err, rd) \<leftarrow> kv_flash_read db (u32 (base + len)) (take (FDB_WG_ALIGN sz) buf);
        kv_crc_loop db base data_len (fdb_calc_crc32 crc (take sz rd)) (rd @ drop sz buf) (u32 (len + sz))
      } else Some crc)"

text \<open>
  \<open>read_kv\<close>. The name is read into an array of \<open>FDB_KV_NAME_MAX\<close> bytes: a longer name whose
  CRC is right overflows it, and has no defined result.
\<close>

definition read_kv :: "fdb_kvdb \<Rightarrow> fdb_kv \<Rightarrow> (fdb_err \<times> fdb_kv \<times> fdb_kvdb) option" where
  "read_kv db kv = do {
     (err, hdr) \<leftarrow> kv_flash_read db (kv_addr_start kv) (replicate KV_HDR_DATA_SIZE (kvdb_stk db));
     let status = kv_status_of (fdb_get_status FDB_WRITE_GRAN (slice 0 1 hdr) FDB_KV_STATUS_NUM);
     let len = of_le32 (slice 8 4 hdr);
     let hdr_crc32 = of_le32 (slice 12 4 hdr);
     let hdr_name_len = unat (hdr ! 16);
     let hdr_value_len = of_le32 (slice 20 4 hdr);
     let kv = kv\<lparr>kv_status := status, kv_len := len\<rparr>;
     if len = 0xFFFFFFFF \<or> len > kvdb_max_size db \<or> len < KV_HDR_DATA_SIZE then do {
       let kv = kv\<lparr>kv_len := KV_HDR_DATA_SIZE\<rparr>;
       (kv, db) \<leftarrow>
         (if status \<noteq> FDB_KV_ERR_HDR then do {
            (err, db) \<leftarrow> kv_write_status db (kv_addr_start kv) FDB_KV_STATUS_NUM
                          (kv_status_num FDB_KV_ERR_HDR) True;
            Some (kv\<lparr>kv_status := FDB_KV_ERR_HDR\<rparr>, db)
          } else Some (kv, db));
       Some (FDB_READ_ERR, kv\<lparr>kv_crc_is_ok := False\<rparr>, db)
     } else do {
       let crc = fdb_calc_crc32 0 (slice 16 4 hdr);
       let crc = fdb_calc_crc32 crc (slice 20 4 hdr);
       let kv_name_addr = u32 (kv_addr_start kv + KV_HDR_DATA_SIZE);
       calc_crc32 \<leftarrow> kv_crc_loop db kv_name_addr (len - KV_HDR_DATA_SIZE) crc
                       (replicate 32 (kvdb_stk db)) 0;
       if unat calc_crc32 \<noteq> hdr_crc32 then do {
         let name_len = (if hdr_name_len > FDB_KV_NAME_MAX then FDB_KV_NAME_MAX else hdr_name_len);
         (err, rd) \<leftarrow> kv_flash_read db kv_name_addr (take (FDB_WG_ALIGN name_len) (kv_name kv));
         Some (FDB_READ_ERR,
               kv\<lparr>kv_crc_is_ok := False, kv_name := rd @ drop name_len (kv_name kv)\<rparr>, db)
       } else if hdr_name_len > FDB_KV_NAME_MAX then None
       else do {
         (err, rd) \<leftarrow> kv_flash_read db kv_name_addr (take (FDB_WG_ALIGN hdr_name_len) (kv_name kv));
         let name = rd @ drop hdr_name_len (kv_name kv);
         let nul = (if hdr_name_len \<ge> FDB_KV_NAME_MAX then FDB_KV_NAME_MAX - 1 else hdr_name_len);
         Some (FDB_NO_ERR,
               kv\<lparr>kv_crc_is_ok := True,
                  kv_addr_value := u32 (kv_name_addr + FDB_WG_ALIGN hdr_name_len),
                  kv_value_len := hdr_value_len, kv_name_len := hdr_name_len,
                  kv_name := name[nul := 0]\<rparr>, db)
       }
     }
   }"

subsection \<open>Reading a sector header\<close>

text \<open>The \<open>do\<close> loop of \<open>read_sector_info\<close> over the KVs of a sector in use.\<close>

partial_function (option) sector_kvs_loop ::
  "fdb_kvdb \<Rightarrow> kvdb_sec_info \<Rightarrow> fdb_kv \<Rightarrow> (fdb_err \<times> kvdb_sec_info \<times> fdb_kvdb) option" where
  "sector_kvs_loop db sector kv_obj = do {
     (err, kv_obj, db) \<leftarrow> read_kv db kv_obj;
     if \<not> kv_crc_is_ok kv_obj \<and> kv_status kv_obj \<noteq> FDB_KV_PRE_WRITE
        \<and> kv_status kv_obj \<noteq> FDB_KV_ERR_HDR
     then Some (FDB_READ_ERR, sector\<lparr>sec_remain := 0\<rparr>, db)
     else do {
       let sector = sector\<lparr>sec_empty_kv := u32 (sec_empty_kv sector + kv_len kv_obj),
                           sec_remain := u32_sub (sec_remain sector) (kv_len kv_obj)\<rparr>;
       addr \<leftarrow> get_next_kv_addr db sector kv_obj;
       if addr \<noteq> FAILED_ADDR then sector_kvs_loop db sector (kv_obj\<lparr>kv_addr_start := addr\<rparr>)
       else Some (FDB_NO_ERR, sector, db)
     }
   }"

definition sector_traverse ::
  "fdb_kvdb \<Rightarrow> kvdb_sec_info \<Rightarrow> (fdb_err \<times> kvdb_sec_info \<times> fdb_kvdb) option" where
  "sector_traverse db sector =
     (let first = u32 (sec_addr sector + SECTOR_HDR_DATA_SIZE);
          room = u32_sub (kvdb_sec_size db) SECTOR_HDR_DATA_SIZE;
          sector = sector\<lparr>sec_remain := 0, sec_empty_kv := first\<rparr>
      in if sec_store sector = FDB_SECTOR_STORE_EMPTY
      then Some (FDB_NO_ERR, sector\<lparr>sec_remain := room\<rparr>, db)
      else if sec_store sector = FDB_SECTOR_STORE_USING then do {
        (result, sector, db) \<leftarrow>
          sector_kvs_loop db (sector\<lparr>sec_remain := room\<rparr>)
            ((junk_kv (kvdb_stk db))\<lparr>kv_addr_start := first\<rparr>);
        ff_addr \<leftarrow> fdb_continue_ff_addr (kv_parent db) (sec_empty_kv sector)
                    (u32 (sec_addr sector + kvdb_sec_size db));
        Some (result,
              (if sec_empty_kv sector \<noteq> ff_addr
               then sector\<lparr>sec_empty_kv := ff_addr,
                           sec_remain := u32_sub (kvdb_sec_size db) (u32_sub ff_addr (sec_addr sector))\<rparr>
               else sector), db)
      }
      else Some (FDB_NO_ERR, sector, db))"

text \<open>The part of \<open>read_sector_info\<close> after the cache missed.\<close>

definition read_sector_hdr ::
  "fdb_kvdb \<Rightarrow> nat \<Rightarrow> kvdb_sec_info \<Rightarrow> bool \<Rightarrow> (fdb_err \<times> kvdb_sec_info \<times> fdb_kvdb) option" where
  "read_sector_hdr db addr sector traversal = do {
     (err, hdr) \<leftarrow> kv_flash_read db addr (replicate SECTOR_HDR_DATA_SIZE 0);
     let combined = of_le32 (slice 8 4 hdr);
     let sector = sector\<lparr>sec_store := FDB_SECTOR_STORE_UNUSED, sec_dirty := FDB_SECTOR_DIRTY_UNUSED,
                         sec_addr := addr, sec_magic := of_le32 (slice 4 4 hdr)\<rparr>;
     if sec_magic sector \<noteq> SECTOR_MAGIC_WORD
        \<or> combined \<noteq> SECTOR_NOT_COMBINED \<and> combined \<noteq> SECTOR_COMBINED
     then Some (FDB_INIT_FAILED,
                sector\<lparr>sec_check_ok := False, sec_combined := SECTOR_NOT_COMBINED\<rparr>, db)
     else do {
       let sector = sector\<lparr>sec_check_ok := True, sec_combined := combined,
             sec_store := store_of (fdb_get_status FDB_WRITE_GRAN (slice SECTOR_STORE_OFFSET 1 hdr)
                                     FDB_SECTOR_STORE_STATUS_NUM),
             sec_dirty := dirty_of (fdb_get_status FDB_WRITE_GRAN (slice SECTOR_DIRTY_OFFSET 1 hdr)
                                     FDB_SECTOR_DIRTY_STATUS_NUM)\<rparr>;
       if traversal then do {
         (result, sector, db) \<leftarrow> sector_traverse db sector;
         Some (result, sector, update_sector_cache db sector)
       }
       else if get_sector_from_cache db (sec_addr sector) = None then
         let sector = sector\<lparr>sec_empty_kv := FAILED_ADDR, sec_remain := 0\<rparr>
         in Some (FDB_NO_ERR, sector, update_sector_cache db sector)
       else Some (FDB_NO_ERR, sector, db)
     }
   }"

definition read_sector_info ::
  "fdb_kvdb \<Rightarrow> nat \<Rightarrow> kvdb_sec_info \<Rightarrow> bool \<Rightarrow> (fdb_err \<times> kvdb_sec_info \<times> fdb_kvdb) option" where
  "read_sector_info db addr sector traversal =
     (if kvdb_sec_size db = 0 \<or> addr mod kvdb_sec_size db \<noteq> 0 then None
      else
        let cached = (case get_sector_from_cache db addr of
                        None \<Rightarrow> None | Some i \<Rightarrow> Some (kv_sector_cache_table db ! i)) in
        case cached of
          Some c \<Rightarrow>
            if \<not> traversal \<or> sec_empty_kv c \<noteq> FAILED_ADDR then Some (FDB_NO_ERR, c, db)
            else read_sector_hdr db addr sector traversal
        | None \<Rightarrow> read_sector_hdr db addr sector traversal)"

subsection \<open>Walking over sectors and KVs\<close>

definition get_next_sector_addr :: "fdb_kvdb \<Rightarrow> kvdb_sec_info \<Rightarrow> nat \<Rightarrow> nat" where
  "get_next_sector_addr db pre_sec traversed_len =
     (let cur_block_size =
        (if sec_combined pre_sec = SECTOR_NOT_COMBINED then kvdb_sec_size db
         else u32 (sec_combined pre_sec * kvdb_sec_size db))
      in if u32 (traversed_len + cur_block_size) \<le> kvdb_max_size db
         then if u32 (sec_addr pre_sec + cur_block_size) < kvdb_max_size db
              then u32 (sec_addr pre_sec + cur_block_size) else 0
         else FAILED_ADDR)"

text \<open>
  The inner loop of \<open>kv_iterator\<close> over the KVs of one sector. The first component of the result
  says that the callback stopped the walk.
\<close>

partial_function (option) kv_iter_sector ::
  "(fdb_kv \<Rightarrow> 'a \<Rightarrow> fdb_kvdb \<Rightarrow> (bool \<times> 'a \<times> fdb_kvdb) option) \<Rightarrow> fdb_kvdb \<Rightarrow> kvdb_sec_info
   \<Rightarrow> fdb_kv \<Rightarrow> 'a \<Rightarrow> (bool \<times> fdb_kv \<times> 'a \<times> fdb_kvdb) option" where
  "kv_iter_sector callback db sector kv arg = do {
     (err, kv, db) \<leftarrow> read_kv db kv;
     (stop, arg, db) \<leftarrow> callback kv arg db;
     if stop then Some (True, kv, arg, db)
     else do {
       addr \<leftarrow> get_next_kv_addr db sector kv;
       let kv = kv\<lparr>kv_addr_start := addr\<rparr>;
       if addr \<noteq> FAILED_ADDR then kv_iter_sector callback db sector kv arg
       else Some (False, kv, arg, db)
     }
   }"

partial_function (option) kv_iter_loop ::
  "(fdb_kv \<Rightarrow> 'a \<Rightarrow> fdb_kvdb \<Rightarrow> (bool \<times> 'a \<times> fdb_kvdb) option) \<Rightarrow> fdb_kvdb \<Rightarrow> fdb_kv \<Rightarrow> 'a
   \<Rightarrow> kvdb_sec_info \<Rightarrow> nat \<Rightarrow> nat \<Rightarrow> (fdb_kv \<times> 'a \<times> fdb_kvdb) option" where
  "kv_iter_loop callback db kv arg sector addr traversed_len = do {
     let traversed_len = u32 (traversed_len + kvdb_sec_size db);
     (err, sector, db) \<leftarrow> read_sector_info db addr sector False;
     (stop, kv, arg, db) \<leftarrow>
       (if err = FDB_NO_ERR \<and> (sec_store sector = FDB_SECTOR_STORE_USING
                               \<or> sec_store sector = FDB_SECTOR_STORE_FULL)
        then kv_iter_sector callback db sector
               (kv\<lparr>kv_addr_start := u32 (sec_addr sector + SECTOR_HDR_DATA_SIZE)\<rparr>) arg
        else Some (False, kv, arg, db));
     if stop then Some (kv, arg, db)
     else
       let next = get_next_sector_addr db sector traversed_len in
       if next \<noteq> FAILED_ADDR then kv_iter_loop callback db kv arg sector next traversed_len
       else Some (kv, arg, db)
   }"

definition kv_iterator ::
  "fdb_kvdb \<Rightarrow> fdb_kv \<Rightarrow> 'a \<Rightarrow> (fdb_kv \<Rightarrow> 'a \<Rightarrow> fdb_kvdb \<Rightarrow> (bool \<times> 'a \<times> fdb_kvdb) option)
   \<Rightarrow> (fdb_kv \<times> 'a \<times> fdb_kvdb) option" where
  "kv_iterator db kv arg callback =
     kv_iter_loop callback db kv arg (junk_sec (kvdb_stk db)) (kvdb_oldest_addr db) 0"

subsection \<open>Finding a key\<close>

text \<open>The callback's arguments are the key and the flag \<open>find_ok\<close>.\<close>

definition find_kv_cb :: "bytes \<Rightarrow> fdb_kv \<Rightarrow> bool \<Rightarrow> fdb_kvdb \<Rightarrow> (bool \<times> bool \<times> fdb_kvdb) option" where
  "find_kv_cb key kv find_ok db =
     (if length key \<noteq> kv_name_len kv then Some (False, find_ok, db)
      else if kv_crc_is_ok kv \<and> kv_status kv = FDB_KV_WRITE
              \<and> strncmp_eq (kv_name kv) key (length key)
      then Some (True, True, db)
      else Some (False, find_ok, db))"

definition find_kv_no_cache :: "fdb_kvdb \<Rightarrow> bytes \<Rightarrow> fdb_kv \<Rightarrow> (bool \<times> fdb_kv \<times> fdb_kvdb) option" where
  "find_kv_no_cache db key kv = do {
     (kv, find_ok, db) \<leftarrow> kv_iterator db kv False (find_kv_cb key);
     Some (find_ok, kv, db)
   }"

definition find_kv :: "fdb_kvdb \<Rightarrow> bytes \<Rightarrow> fdb_kv \<Rightarrow> (bool \<times> fdb_kv \<times> fdb_kvdb) option" where
  "find_kv db key kv = do {
     (hit, db) \<leftarrow> get_kv_from_cache db key;
     case hit of
       Some addr \<Rightarrow> do {
         (err, kv, db) \<leftarrow> read_kv db (kv\<lparr>kv_addr_start := addr\<rparr>);
         Some (True, kv, db)
       }
     | None \<Rightarrow> do {
         (find_ok, kv, db) \<leftarrow> find_kv_no_cache db key kv;
         Some (find_ok, kv, if find_ok then update_kv_cache db key (kv_addr_start kv) else db)
       }
   }"

subsection \<open>Getting a value\<close>

definition fdb_is_str :: "bytes \<Rightarrow> nat \<Rightarrow> bool" where
  "fdb_is_str value len =
     list_all (\<lambda>ch. u32_of_int (int (unat ch) - 32) < 127 - 32) (take len value)"

text \<open>
  \<open>get_kv\<close>, whose callers all pass a length pointer. The result is the length read, the buffer
  and the value length. A read past the end of the caller's buffer has no defined result.
\<close>

definition get_kv ::
  "fdb_kvdb \<Rightarrow> bytes \<Rightarrow> bytes option \<Rightarrow> nat \<Rightarrow> (nat \<times> bytes option \<times> nat \<times> fdb_kvdb) option" where
  "get_kv db key value_buf buf_len = do {
     (found, kv, db) \<leftarrow> find_kv db key (junk_kv (kvdb_stk db));
     if found then do {
       let read_len = (if buf_len > kv_value_len kv then kv_value_len kv else buf_len);
       case value_buf of
         None \<Rightarrow> Some (read_len, None, kv_value_len kv, db)
       | Some buf \<Rightarrow>
           if length buf < read_len then None
           else do {
             (err, rd) \<leftarrow> kv_flash_read db (kv_addr_value kv) (take read_len buf);
             Some (read_len, Some (rd @ drop read_len buf), kv_value_len kv, db)
           }
     }
     else Some (0, value_buf, 0, db)
   }"

definition fdb_kv_get_obj :: "fdb_kvdb \<Rightarrow> bytes \<Rightarrow> fdb_kv \<Rightarrow> (bool \<times> fdb_kv \<times> fdb_kvdb) option" where
  "fdb_kv_get_obj db key kv =
     (if \<not> db_init_ok (kv_parent db) then Some (False, kv, db)
      else do {
        (find_ok, kv, db) \<leftarrow> find_kv (kvdb_lock db) key kv;
        Some (find_ok, kv, kvdb_unlock db)
      })"

definition fdb_kv_to_blob :: "fdb_kv \<Rightarrow> fdb_blob \<Rightarrow> fdb_blob" where
  "fdb_kv_to_blob kv blob =
     blob\<lparr>blob_saved_meta_addr := kv_addr_start kv, blob_saved_addr := kv_addr_value kv,
          blob_saved_len := kv_value_len kv\<rparr>"

definition fdb_kv_get_blob :: "fdb_kvdb \<Rightarrow> bytes \<Rightarrow> fdb_blob \<Rightarrow> (nat \<times> fdb_blob \<times> fdb_kvdb) option" where
  "fdb_kv_get_blob db key blob =
     (if \<not> db_init_ok (kv_parent db) then Some (0, blob, db)
      else do {
        (read_len, buf, saved_len, db) \<leftarrow>
          get_kv (kvdb_lock db) key (blob_buf blob) (blob_size blob);
        Some (read_len, blob\<lparr>blob_buf := buf, blob_saved_len := saved_len\<rparr>, kvdb_unlock db)
      })"

text \<open>
  \<open>fdb_kv_get\<close>. \<open>value\<close> is its static buffer of \<open>FDB_STR_KV_VALUE_MAX_SIZE + 1\<close> bytes; the result
  is the returned string, or \<^const>\<open>None\<close> for a null pointer, and the buffer after the call.
\<close>

definition fdb_kv_get :: "bytes \<Rightarrow> fdb_kvdb \<Rightarrow> bytes \<Rightarrow> (bytes option \<times> bytes \<times> fdb_kvdb) option" where
  "fdb_kv_get value db key = do {
     let junk = of_le32 (replicate 4 (kvdb_stk db));
     let blob = \<lparr>blob_buf = None, blob_size = junk, blob_saved_meta_addr = junk,
                 blob_saved_addr = junk, blob_saved_len = junk\<rparr>;
     (get_size, blob, db) \<leftarrow>
       fdb_kv_get_blob db key (fdb_blob_make blob (Some value) FDB_STR_KV_VALUE_MAX_SIZE);
     let value = (case blob_buf blob of None \<Rightarrow> value | Some v \<Rightarrow> v);
     if get_size > 0 \<and> fdb_is_str value get_size
     then let value = value[get_size := 0] in Some (Some (takeWhile (\<lambda>b. b \<noteq> 0) value), value, db)
     else Some (None, value, db)
   }"

end
