(* ===== verification/Kvdb_Write.thy ===== *)
theory Kvdb_Write
  imports Kvdb_Read
begin

text \<open>
  The writing half of \<open>fdb_kvdb.c\<close>: formatting a sector, allocating room for a KV, writing one,
  deleting one, moving one to another sector, and garbage collection. The status tables that the
  code fills only as scratch space for \<open>_fdb_write_status\<close> and \<open>_fdb_read_status\<close> are left out.
\<close>

subsection \<open>Headers\<close>

text \<open>\<open>hdr\<close> is the memory of the \<open>struct kv_hdr_data\<close>.\<close>

definition write_kv_hdr :: "fdb_kvdb \<Rightarrow> nat \<Rightarrow> bytes \<Rightarrow> (fdb_err \<times> fdb_kvdb) option" where
  "write_kv_hdr db addr hdr = do {
     (result, db) \<leftarrow> kv_write_status db addr FDB_KV_STATUS_NUM (kv_status_num FDB_KV_PRE_WRITE) False;
     if result \<noteq> FDB_NO_ERR then Some (result, db)
     else kv_flash_write db (u32 (addr + KV_MAGIC_OFFSET))
            (slice KV_MAGIC_OFFSET (KV_HDR_DATA_SIZE - KV_MAGIC_OFFSET) hdr) False
   }"

definition sector_hdr_image :: "nat \<Rightarrow> bytes" where
  "sector_hdr_image combined_value =
     snd (fdb_set_status FDB_WRITE_GRAN FDB_SECTOR_STORE_STATUS_NUM (store_num FDB_SECTOR_STORE_EMPTY))
     @ snd (fdb_set_status FDB_WRITE_GRAN FDB_SECTOR_DIRTY_STATUS_NUM (dirty_num FDB_SECTOR_DIRTY_FALSE))
     @ [FDB_BYTE_ERASED, FDB_BYTE_ERASED]
     @ le32 SECTOR_MAGIC_WORD @ le32 combined_value @ le32 FDB_DATA_UNUSED"

definition format_sector :: "fdb_kvdb \<Rightarrow> nat \<Rightarrow> nat \<Rightarrow> (fdb_err \<times> fdb_kvdb) option" where
  "format_sector db addr combined_value =
     (if kvdb_sec_size db = 0 \<or> addr mod kvdb_sec_size db \<noteq> 0 then None
      else do {
        (result, db) \<leftarrow> kv_flash_erase db addr (kvdb_sec_size db);
        if result = FDB_NO_ERR then do {
          (result, db) \<leftarrow> kv_flash_write db addr (sector_hdr_image combined_value) True;
          Some (result, update_sector_cache db
                  ((junk_sec 0)\<lparr>sec_addr := addr, sec_check_ok := False,
                                sec_empty_kv := FAILED_ADDR\<rparr>))
        }
        else Some (result, db)
      })"

text \<open>\<open>is_full\<close> is \<^const>\<open>None\<close> for a null pointer.\<close>

definition update_sec_status ::
  "fdb_kvdb \<Rightarrow> kvdb_sec_info \<Rightarrow> nat \<Rightarrow> bool option \<Rightarrow> (fdb_err \<times> bool option \<times> fdb_kvdb) option" where
  "update_sec_status db sector new_kv_len is_full =
     (if sec_store sector = FDB_SECTOR_STORE_EMPTY then do {
        (result, db) \<leftarrow> kv_write_status db (sec_addr sector) FDB_SECTOR_STORE_STATUS_NUM
                         (store_num FDB_SECTOR_STORE_USING) True;
        Some (result, is_full,
              update_sector_status_store_cache db (sec_addr sector) FDB_SECTOR_STORE_USING)
      }
      else if sec_store sector = FDB_SECTOR_STORE_USING then
        if sec_remain sector < FDB_SEC_REMAIN_THRESHOLD
           \<or> u32_sub (sec_remain sector) new_kv_len < FDB_SEC_REMAIN_THRESHOLD
        then do {
          (result, db) \<leftarrow> kv_write_status db (sec_addr sector) FDB_SECTOR_STORE_STATUS_NUM
                           (store_num FDB_SECTOR_STORE_FULL) True;
          Some (result, map_option (\<lambda>_. True) is_full,
                update_sector_status_store_cache db (sec_addr sector) FDB_SECTOR_STORE_FULL)
        }
        else Some (FDB_NO_ERR, map_option (\<lambda>_. False) is_full, db)
      else Some (FDB_NO_ERR, is_full, db))"

subsection \<open>Walking over the sectors\<close>

partial_function (option) sector_iter_loop ::
  "(kvdb_sec_info \<Rightarrow> 'a \<Rightarrow> fdb_kvdb \<Rightarrow> (bool \<times> 'a \<times> fdb_kvdb) option) \<Rightarrow> bool
   \<Rightarrow> fdb_sector_store_status \<Rightarrow> fdb_kvdb \<Rightarrow> kvdb_sec_info \<Rightarrow> 'a \<Rightarrow> nat \<Rightarrow> nat
   \<Rightarrow> (kvdb_sec_info \<times> 'a \<times> fdb_kvdb) option" where
  "sector_iter_loop callback traversal_kv status db sector arg addr traversed_len = do {
     let traversed_len = u32 (traversed_len + kvdb_sec_size db);
     (err, sector, db) \<leftarrow> read_sector_info db addr sector False;
     (stop, sector, arg, db) \<leftarrow>
       (if status = FDB_SECTOR_STORE_UNUSED \<or> status = sec_store sector then do {
          (err, sector, db) \<leftarrow> (if traversal_kv then read_sector_info db addr sector True
                                else Some (FDB_NO_ERR, sector, db));
          (stop, arg, db) \<leftarrow> callback sector arg db;
          Some (stop, sector, arg, db)
        }
        else Some (False, sector, arg, db));
     if stop then Some (sector, arg, db)
     else
       let next = get_next_sector_addr db sector traversed_len in
       if next \<noteq> FAILED_ADDR
       then sector_iter_loop callback traversal_kv status db sector arg next traversed_len
       else Some (sector, arg, db)
   }"

definition sector_iterator ::
  "fdb_kvdb \<Rightarrow> kvdb_sec_info \<Rightarrow> fdb_sector_store_status \<Rightarrow> 'a
   \<Rightarrow> (kvdb_sec_info \<Rightarrow> 'a \<Rightarrow> fdb_kvdb \<Rightarrow> (bool \<times> 'a \<times> fdb_kvdb) option) \<Rightarrow> bool
   \<Rightarrow> (kvdb_sec_info \<times> 'a \<times> fdb_kvdb) option" where
  "sector_iterator db sector status arg callback traversal_kv =
     sector_iter_loop callback traversal_kv status db sector arg (kvdb_oldest_addr db) 0"

subsection \<open>Allocation\<close>

text \<open>The argument is the pair of counters \<open>empty_sector\<close> and \<open>using_sector\<close>.\<close>

definition sector_statistics_cb ::
  "kvdb_sec_info \<Rightarrow> nat \<times> nat \<Rightarrow> fdb_kvdb \<Rightarrow> (bool \<times> (nat \<times> nat) \<times> fdb_kvdb) option" where
  "sector_statistics_cb sector cnt db =
     (if sec_check_ok sector \<and> sec_store sector = FDB_SECTOR_STORE_EMPTY
      then Some (False, (u32 (fst cnt + 1), snd cnt), db)
      else if sec_check_ok sector \<and> sec_store sector = FDB_SECTOR_STORE_USING
      then Some (False, (fst cnt, u32 (snd cnt + 1)), db)
      else Some (False, cnt, db))"

text \<open>The argument is the variable \<open>empty_kv\<close>.\<close>

definition alloc_kv_cb ::
  "nat \<Rightarrow> kvdb_sec_info \<Rightarrow> nat \<Rightarrow> fdb_kvdb \<Rightarrow> (bool \<times> nat \<times> fdb_kvdb) option" where
  "alloc_kv_cb kv_size sector empty_kv db =
     (if sec_check_ok sector \<and> sec_remain sector > u32 (kv_size + FDB_SEC_REMAIN_THRESHOLD)
         \<and> (sec_dirty sector = FDB_SECTOR_DIRTY_FALSE
            \<or> sec_dirty sector = FDB_SECTOR_DIRTY_TRUE \<and> \<not> kv_gc_request db)
      then Some (True, sec_empty_kv sector, db)
      else Some (False, empty_kv, db))"

definition alloc_kv ::
  "fdb_kvdb \<Rightarrow> kvdb_sec_info \<Rightarrow> nat \<Rightarrow> (nat \<times> kvdb_sec_info \<times> fdb_kvdb) option" where
  "alloc_kv db sector kv_size = do {
     (sector, cnt, db) \<leftarrow>
       sector_iterator db sector FDB_SECTOR_STORE_UNUSED (0, 0) sector_statistics_cb False;
     (sector, empty_kv, db) \<leftarrow>
       (if snd cnt > 0
        then sector_iterator db sector FDB_SECTOR_STORE_USING FAILED_ADDR (alloc_kv_cb kv_size) True
        else Some (sector, FAILED_ADDR, db));
     if fst cnt > 0 \<and> empty_kv = FAILED_ADDR then
       if fst cnt > FDB_GC_EMPTY_SEC_THRESHOLD \<or> kv_gc_request db then do {
         (sector, empty_kv, db) \<leftarrow>
           sector_iterator db sector FDB_SECTOR_STORE_EMPTY empty_kv (alloc_kv_cb kv_size) True;
         Some (empty_kv, sector, db)
       }
       else Some (empty_kv, sector, db\<lparr>kv_gc_request := True\<rparr>)
     else Some (empty_kv, sector, db)
   }"

subsection \<open>Deleting\<close>

text \<open>
  The dirty flag of the sector of the deleted KV, in \<open>del_kv\<close> after the status of the KV.
\<close>

definition del_kv_dirty :: "fdb_kvdb \<Rightarrow> fdb_kv \<Rightarrow> (fdb_err \<times> fdb_kvdb) option" where
  "del_kv_dirty db old_kv = do {
     let base = FDB_ALIGN_DOWN (kv_addr_start old_kv) (kvdb_sec_size db);
     let dirty_status_addr = u32 (base + SECTOR_DIRTY_OFFSET);
     st \<leftarrow> fdb_read_status (kv_parent db) dirty_status_addr FDB_SECTOR_DIRTY_STATUS_NUM;
     if st = dirty_num FDB_SECTOR_DIRTY_FALSE then do {
       (result, db) \<leftarrow> kv_write_status db dirty_status_addr FDB_SECTOR_DIRTY_STATUS_NUM
                        (dirty_num FDB_SECTOR_DIRTY_TRUE) True;
       Some (result,
             case get_sector_from_cache db base of
               None \<Rightarrow> db
             | Some i \<Rightarrow> db\<lparr>kv_sector_cache_table := (kv_sector_cache_table db)
                   [i := (kv_sector_cache_table db ! i)\<lparr>sec_dirty := FDB_SECTOR_DIRTY_TRUE\<rparr>]\<rparr>)
     }
     else Some (FDB_NO_ERR, db)
   }"

text \<open>\<open>del_kv\<close> once the KV is known; \<open>key\<close> is \<^const>\<open>None\<close> for a null pointer.\<close>

definition del_kv_found ::
  "fdb_kvdb \<Rightarrow> bytes option \<Rightarrow> fdb_kv \<Rightarrow> bool \<Rightarrow> (fdb_err \<times> fdb_kvdb) option" where
  "del_kv_found db key old_kv complete_del = do {
     (result, db) \<leftarrow>
       (if \<not> complete_del then do {
          (result, db) \<leftarrow> kv_write_status db (kv_addr_start old_kv) FDB_KV_STATUS_NUM
                           (kv_status_num FDB_KV_PRE_DELETE) False;
          Some (result, db\<lparr>kv_last_is_complete_del := True\<rparr>)
        } else do {
          (result, db) \<leftarrow> kv_write_status db (kv_addr_start old_kv) FDB_KV_STATUS_NUM
                           (kv_status_num FDB_KV_DELETED) True;
          let db = (if \<not> kv_last_is_complete_del db \<and> result = FDB_NO_ERR
                    then update_kv_cache db
                           (case key of Some k \<Rightarrow> k | None \<Rightarrow> take (kv_name_len old_kv) (kv_name old_kv))
                           FDB_DATA_UNUSED
                    else db);
          Some (result, db\<lparr>kv_last_is_complete_del := False\<rparr>)
        });
     if result = FDB_NO_ERR then del_kv_dirty db old_kv else Some (result, db)
   }"

definition del_kv ::
  "fdb_kvdb \<Rightarrow> bytes option \<Rightarrow> fdb_kv option \<Rightarrow> bool \<Rightarrow> (fdb_err \<times> fdb_kvdb) option" where
  "del_kv db key old_kv complete_del =
     (case old_kv of
        Some kv \<Rightarrow> del_kv_found db key kv complete_del
      | None \<Rightarrow> (case key of
            None \<Rightarrow> None
          | Some k \<Rightarrow> do {
              (found, kv, db) \<leftarrow> find_kv db k (junk_kv 0);
              if found then del_kv_found db key kv complete_del
              else Some (FDB_KV_NAME_ERR, db)
            }))"

subsection \<open>Moving\<close>

partial_function (option) move_kv_loop ::
  "fdb_kvdb \<Rightarrow> nat \<Rightarrow> nat \<Rightarrow> nat \<Rightarrow> bytes \<Rightarrow> nat \<Rightarrow> fdb_err \<Rightarrow> (fdb_err \<times> fdb_kvdb) option" where
  "move_kv_loop db src dst kv_size buf len result =
     (if len < kv_size then do {
        let sz = (if u32 (len + 32) < kv_size then 32 else u32_sub kv_size len);
        (err, rd) \<leftarrow> kv_flash_read db (u32 (src + KV_MAGIC_OFFSET + len)) (take (FDB_WG_ALIGN sz) buf);
        (result, db) \<leftarrow> kv_flash_write db (u32 (dst + KV_MAGIC_OFFSET + len)) (take sz rd) True;
        move_kv_loop db src dst kv_size (rd @ drop sz buf) (u32 (len + sz)) result
      } else Some (result, db))"

text \<open>The copying part of \<open>move_kv\<close>, after the room was allocated.\<close>

definition move_kv_copy ::
  "fdb_kvdb \<Rightarrow> kvdb_sec_info \<Rightarrow> fdb_kv \<Rightarrow> nat \<Rightarrow> (fdb_err \<times> fdb_kvdb) option" where
  "move_kv_copy db sector kv addr = do {
     (err, is_full, db) \<leftarrow> update_sec_status db sector (kv_len kv) None;
     (err, db) \<leftarrow> kv_write_status db addr FDB_KV_STATUS_NUM (kv_status_num FDB_KV_PRE_WRITE) False;
     (result, db) \<leftarrow> move_kv_loop db (kv_addr_start kv) addr (u32_sub (kv_len kv) KV_MAGIC_OFFSET)
                      (replicate 32 (kvdb_stk db)) 0 FDB_NO_ERR;
     (err, db) \<leftarrow> kv_write_status db addr FDB_KV_STATUS_NUM (kv_status_num FDB_KV_WRITE) True;
     let db = update_sector_empty_addr_cache db (FDB_ALIGN_DOWN addr (kvdb_sec_size db))
                (u32 (addr + KV_HDR_DATA_SIZE + FDB_WG_ALIGN (kv_name_len kv)
                      + FDB_WG_ALIGN (kv_value_len kv)));
     Some (result, update_kv_cache db (take (kv_name_len kv) (kv_name kv)) addr)
   }"

definition move_kv :: "fdb_kvdb \<Rightarrow> fdb_kv \<Rightarrow> (fdb_err \<times> fdb_kvdb) option" where
  "move_kv db kv = do {
     (err, db) \<leftarrow> (if kv_status kv = FDB_KV_WRITE then del_kv db None (Some kv) False
                   else Some (FDB_NO_ERR, db));
     (addr, sector, db) \<leftarrow> alloc_kv db (junk_sec (kvdb_stk db)) (kv_len kv);
     if addr = FAILED_ADDR then Some (FDB_SAVED_FULL, db)
     else do {
       (created, db) \<leftarrow>
         (if kv_in_recovery_check db \<and> kv_status kv = FDB_KV_PRE_DELETE then do {
            (found, bak, db) \<leftarrow>
              find_kv_no_cache db (takeWhile (\<lambda>b. b \<noteq> 0) (take (kv_name_len kv) (kv_name kv)))
                (junk_kv (kvdb_stk db));
            Some (found, db)
          } else Some (False, db));
       (result, db) \<leftarrow> (if created then Some (FDB_NO_ERR, db) else move_kv_copy db sector kv addr);
       (err, db) \<leftarrow> del_kv db None (Some kv) True;
       Some (result, db)
     }
   }"

subsection \<open>Garbage collection\<close>

definition gc_check_cb :: "kvdb_sec_info \<Rightarrow> nat \<Rightarrow> fdb_kvdb \<Rightarrow> (bool \<times> nat \<times> fdb_kvdb) option" where
  "gc_check_cb sector empty_sec db =
     Some (False, if sec_check_ok sector then u32 (empty_sec + 1) else empty_sec, db)"

text \<open>The loop of \<open>do_gc\<close> over the KVs of the sector.\<close>

partial_function (option) do_gc_loop :: "fdb_kvdb \<Rightarrow> kvdb_sec_info \<Rightarrow> fdb_kv \<Rightarrow> fdb_kvdb option" where
  "do_gc_loop db sector kv = do {
     (err, kv, db) \<leftarrow> read_kv db kv;
     (err, db) \<leftarrow>
       (if kv_crc_is_ok kv \<and> (kv_status kv = FDB_KV_WRITE \<or> kv_status kv = FDB_KV_PRE_DELETE)
        then move_kv db kv else Some (FDB_NO_ERR, db));
     addr \<leftarrow> get_next_kv_addr db sector kv;
     if addr \<noteq> FAILED_ADDR then do_gc_loop db sector (kv\<lparr>kv_addr_start := addr\<rparr>) else Some db
   }"

text \<open>The argument is \<open>cur_free_size\<close>.\<close>

definition do_gc ::
  "nat \<Rightarrow> kvdb_sec_info \<Rightarrow> nat \<Rightarrow> fdb_kvdb \<Rightarrow> (bool \<times> nat \<times> fdb_kvdb) option" where
  "do_gc setting_free_size sector cur_free_size db =
     (if sec_check_ok sector
         \<and> (sec_dirty sector = FDB_SECTOR_DIRTY_TRUE \<or> sec_dirty sector = FDB_SECTOR_DIRTY_GC)
      then do {
        (err, db) \<leftarrow> kv_write_status db (u32 (sec_addr sector + SECTOR_DIRTY_OFFSET))
                      FDB_SECTOR_DIRTY_STATUS_NUM (dirty_num FDB_SECTOR_DIRTY_GC) True;
        db \<leftarrow> do_gc_loop db sector
                ((junk_kv (kvdb_stk db))\<lparr>kv_addr_start := u32 (sec_addr sector + SECTOR_HDR_DATA_SIZE)\<rparr>);
        (err, db) \<leftarrow> format_sector db (sec_addr sector) SECTOR_NOT_COMBINED;
        let cur_free_size =
              u32 (cur_free_size + u32_sub (kvdb_sec_size db) SECTOR_HDR_DATA_SIZE);
        let db = db\<lparr>kv_parent := (kv_parent db)\<lparr>db_oldest_addr := get_next_sector_addr db sector 0\<rparr>\<rparr>;
        Some (cur_free_size \<ge> setting_free_size, cur_free_size, db)
      }
      else Some (False, cur_free_size, db))"

definition gc_collect_by_free_size :: "fdb_kvdb \<Rightarrow> nat \<Rightarrow> fdb_kvdb option" where
  "gc_collect_by_free_size db free_size = do {
     (sector, empty_sec, db) \<leftarrow>
       sector_iterator db (junk_sec (kvdb_stk db)) FDB_SECTOR_STORE_EMPTY 0 gc_check_cb False;
     (sector, cur, db) \<leftarrow>
       (if empty_sec \<le> FDB_GC_EMPTY_SEC_THRESHOLD
        then sector_iterator db sector FDB_SECTOR_STORE_UNUSED 0 (do_gc free_size) False
        else Some (sector, 0, db));
     Some (db\<lparr>kv_gc_request := False\<rparr>)
   }"

definition gc_collect :: "fdb_kvdb \<Rightarrow> fdb_kvdb option" where
  "gc_collect db = gc_collect_by_free_size db (kvdb_max_size db)"

text \<open>\<open>new_kv\<close>: the jump to \<open>__retry\<close> happens at most once, after the collection.\<close>

definition new_kv ::
  "fdb_kvdb \<Rightarrow> kvdb_sec_info \<Rightarrow> nat \<Rightarrow> (nat \<times> kvdb_sec_info \<times> fdb_kvdb) option" where
  "new_kv db sector kv_size = do {
     (empty_kv, sector, db) \<leftarrow> alloc_kv db sector kv_size;
     if empty_kv = FAILED_ADDR \<and> kv_gc_request db then do {
       db \<leftarrow> gc_collect_by_free_size db kv_size;
       (empty_kv, sector, db) \<leftarrow> alloc_kv db sector kv_size;
       if empty_kv = FAILED_ADDR then Some (empty_kv, sector, db\<lparr>kv_gc_request := False\<rparr>)
       else Some (empty_kv, sector, db)
     }
     else Some (empty_kv, sector, db)
   }"

definition new_kv_ex ::
  "fdb_kvdb \<Rightarrow> kvdb_sec_info \<Rightarrow> nat \<Rightarrow> nat \<Rightarrow> (nat \<times> kvdb_sec_info \<times> fdb_kvdb) option" where
  "new_kv_ex db sector key_len buf_len =
     new_kv db sector (u32 (KV_HDR_DATA_SIZE + FDB_WG_ALIGN key_len + FDB_WG_ALIGN buf_len))"

subsection \<open>Creating\<close>

definition align_write :: "fdb_kvdb \<Rightarrow> nat \<Rightarrow> bytes \<Rightarrow> (fdb_err \<times> fdb_kvdb) option" where
  "align_write db addr buf = do {
     let down = FDB_WG_ALIGN_DOWN (length buf);
     (result, db) \<leftarrow> kv_flash_write db addr (take down buf) False;
     let align_remain = length buf - down;
     if result = FDB_NO_ERR \<and> align_remain \<noteq> 0
     then kv_flash_write db (u32 (addr + down))
            (splice [FDB_BYTE_ERASED] 0 (drop down buf)) False
     else Some (result, db)
   }"

text \<open>\<open>while (align_remain--)\<close> over the bytes that pad to the write granularity.\<close>

definition crc_padded :: "32 word \<Rightarrow> bytes \<Rightarrow> 32 word" where
  "crc_padded crc bs =
     fdb_calc_crc32 (fdb_calc_crc32 crc bs)
       (replicate (FDB_WG_ALIGN (length bs) - length bs) FDB_BYTE_ERASED)"

definition kv_node_len :: "bytes \<Rightarrow> bytes \<Rightarrow> nat" where
  "kv_node_len key value =
     u32 (KV_HDR_DATA_SIZE + FDB_WG_ALIGN (length key) + FDB_WG_ALIGN (length value))"

definition kv_node_crc :: "bytes \<Rightarrow> bytes \<Rightarrow> 32 word" where
  "kv_node_crc key value =
     (let name_len_field = word_of_nat (length key) # replicate 3 FDB_BYTE_ERASED;
          crc = fdb_calc_crc32 0 name_len_field;
          crc = fdb_calc_crc32 crc (le32 (length value));
          crc = crc_padded crc key
      in crc_padded crc value)"

text \<open>The memory of \<open>kv_hdr\<close> when it is written: \<open>memset\<close> to the erased byte, then the fields.\<close>

definition kv_hdr_image :: "bytes \<Rightarrow> bytes \<Rightarrow> bytes" where
  "kv_hdr_image key value =
     replicate 4 FDB_BYTE_ERASED @ le32 KV_MAGIC_WORD @ le32 (kv_node_len key value)
     @ le32 (unat (kv_node_crc key value))
     @ (word_of_nat (length key) # replicate 3 FDB_BYTE_ERASED) @ le32 (length value)"

text \<open>
  \<open>create_kv_blob\<close> from the place where the room is known, and the whole function. A value is a
  list of \<open>len\<close> bytes.
\<close>

definition create_kv_at ::
  "fdb_kvdb \<Rightarrow> kvdb_sec_info \<Rightarrow> bytes \<Rightarrow> bytes \<Rightarrow> nat \<Rightarrow> (fdb_err \<times> fdb_kvdb) option" where
  "create_kv_at db sector key value addr = do {
     let name_addr = u32 (addr + KV_HDR_DATA_SIZE);
     let value_addr = u32 (addr + KV_HDR_DATA_SIZE + FDB_WG_ALIGN (length key));
     (result, full, db) \<leftarrow> update_sec_status db sector (kv_node_len key value) (Some False);
     let is_full = (full = Some True);
     (result, db) \<leftarrow> (if result = FDB_NO_ERR then write_kv_hdr db addr (kv_hdr_image key value)
                      else Some (result, db));
     (result, db) \<leftarrow>
       (if result = FDB_NO_ERR then do {
          (result, db) \<leftarrow> align_write db name_addr key;
          let db = (if \<not> is_full
                    then update_sector_empty_addr_cache db (sec_addr sector)
                           (u32 (value_addr + FDB_WG_ALIGN (length value)))
                    else db);
          Some (result, update_kv_cache db key addr)
        } else Some (result, db));
     (result, db) \<leftarrow> (if result = FDB_NO_ERR then align_write db value_addr value
                      else Some (result, db));
     (result, db) \<leftarrow> (if result = FDB_NO_ERR
                      then kv_write_status db addr FDB_KV_STATUS_NUM (kv_status_num FDB_KV_WRITE) True
                      else Some (result, db));
     Some (result, if result = FDB_NO_ERR \<and> is_full then db\<lparr>kv_gc_request := True\<rparr> else db)
   }"

definition create_kv_blob ::
  "fdb_kvdb \<Rightarrow> kvdb_sec_info \<Rightarrow> bytes \<Rightarrow> bytes \<Rightarrow> (fdb_err \<times> kvdb_sec_info \<times> fdb_kvdb) option" where
  "create_kv_blob db sector key value =
     (if length key > FDB_KV_NAME_MAX then Some (FDB_KV_NAME_ERR, sector, db)
      else if kv_node_len key value > u32_sub (kvdb_sec_size db) SECTOR_HDR_DATA_SIZE
      then Some (FDB_SAVED_FULL, sector, db)
      else do {
        (addr, sector, db) \<leftarrow>
          (if sec_empty_kv sector \<noteq> FAILED_ADDR then Some (sec_empty_kv sector, sector, db)
           else new_kv db sector (kv_node_len key value));
        if addr = FAILED_ADDR then Some (FDB_SAVED_FULL, sector, db)
        else do {
          (result, db) \<leftarrow> create_kv_at db sector key value addr;
          Some (result, sector, db)
        }
      })"

end
