(* ===== verification/Kvdb_Api.thy ===== *)
theory Kvdb_Api
  imports Kvdb_Write
begin

text \<open>
  The writing API of \<open>fdb_kvdb.c\<close>: deleting and setting a key, resetting to the default KVs,
  loading and recovering a database, its options, initialisation, iteration and the integrity
  check. Keys and strings are the bytes before the terminating zero; a null pointer is
  \<^const>\<open>None\<close>.
\<close>

subsection \<open>Deleting and setting\<close>

definition fdb_kv_del :: "fdb_kvdb \<Rightarrow> bytes \<Rightarrow> (fdb_err \<times> fdb_kvdb) option" where
  "fdb_kv_del db key =
     (if \<not> db_init_ok (kv_parent db) then Some (FDB_INIT_FAILED, db)
      else do {
        (result, db) \<leftarrow> del_kv (kvdb_lock db) (Some key) None True;
        Some (result, kvdb_unlock db)
      })"

text \<open>
  \<open>set_kv\<close> for a value that is not null: the old KV is prepared for deletion, the new one is
  created, then the old one is deleted. \<open>db->cur_sector\<close> and \<open>db->cur_kv\<close> are its work space.
\<close>

definition set_kv_value :: "fdb_kvdb \<Rightarrow> bytes \<Rightarrow> bytes \<Rightarrow> (fdb_err \<times> fdb_kvdb) option" where
  "set_kv_value db key value = do {
     (addr, sector, db) \<leftarrow> new_kv_ex db (kv_cur_sector db) (length key) (length value);
     let db = db\<lparr>kv_cur_sector := sector\<rparr>;
     if addr = FAILED_ADDR then Some (FDB_SAVED_FULL, db)
     else do {
       (found, cur_kv, db) \<leftarrow> find_kv db key (kv_cur_kv db);
       let db = db\<lparr>kv_cur_kv := cur_kv\<rparr>;
       (result, db) \<leftarrow> (if found then del_kv db (Some key) (Some cur_kv) False
                        else Some (FDB_NO_ERR, db));
       (result, db) \<leftarrow>
         (if result = FDB_NO_ERR then do {
            (result, sector, db) \<leftarrow> create_kv_blob db (kv_cur_sector db) key value;
            Some (result, db\<lparr>kv_cur_sector := sector\<rparr>)
          } else Some (result, db));
       (result, db) \<leftarrow> (if found \<and> result = FDB_NO_ERR
                        then del_kv db (Some key) (Some cur_kv) True
                        else Some (result, db));
       db \<leftarrow> (if kv_gc_request db
              then gc_collect_by_free_size db
                     (u32 (KV_HDR_DATA_SIZE + FDB_WG_ALIGN (length key) + FDB_WG_ALIGN (length value)))
              else Some db);
       Some (result, db)
     }
   }"

text \<open>A length beyond the caller's buffer has no defined result.\<close>

definition set_kv :: "fdb_kvdb \<Rightarrow> bytes \<Rightarrow> bytes option \<Rightarrow> nat \<Rightarrow> (fdb_err \<times> fdb_kvdb) option" where
  "set_kv db key value_buf buf_len =
     (case value_buf of
        None \<Rightarrow> del_kv db (Some key) None True
      | Some buf \<Rightarrow> if length buf < buf_len then None else set_kv_value db key (take buf_len buf))"

definition fdb_kv_set_blob :: "fdb_kvdb \<Rightarrow> bytes \<Rightarrow> fdb_blob \<Rightarrow> (fdb_err \<times> fdb_kvdb) option" where
  "fdb_kv_set_blob db key blob =
     (if \<not> db_init_ok (kv_parent db) then Some (FDB_INIT_FAILED, db)
      else do {
        (result, db) \<leftarrow> set_kv (kvdb_lock db) key (blob_buf blob) (blob_size blob);
        Some (result, kvdb_unlock db)
      })"

definition fdb_kv_set :: "fdb_kvdb \<Rightarrow> bytes \<Rightarrow> bytes option \<Rightarrow> (fdb_err \<times> fdb_kvdb) option" where
  "fdb_kv_set db key value =
     (case value of
        Some v \<Rightarrow>
          let junk = of_le32 (replicate 4 (kvdb_stk db)) in
          fdb_kv_set_blob db key
            (fdb_blob_make \<lparr>blob_buf = None, blob_size = junk, blob_saved_meta_addr = junk,
                            blob_saved_addr = junk, blob_saved_len = junk\<rparr> (Some v) (length v))
      | None \<Rightarrow> fdb_kv_del db key)"

subsection \<open>Default KVs\<close>

partial_function (option) format_all_loop :: "fdb_kvdb \<Rightarrow> nat \<Rightarrow> fdb_err \<Rightarrow> (fdb_err \<times> fdb_kvdb) option" where
  "format_all_loop db addr result =
     (if addr < kvdb_max_size db then do {
        (result, db) \<leftarrow> format_sector db addr SECTOR_NOT_COMBINED;
        if result \<noteq> FDB_NO_ERR then Some (result, db)
        else format_all_loop db (u32 (addr + kvdb_sec_size db)) result
      } else Some (result, db))"

text \<open>
  The value of a default KV: a string when its length is 0. A length beyond the object the value
  pointer points to has no defined result.
\<close>

definition default_kv_value :: "fdb_default_kv_node \<Rightarrow> bytes option" where
  "default_kv_value d =
     (if dkv_value_len d = 0
      then (if 0 \<in> set (dkv_value d) then Some (takeWhile (\<lambda>b. b \<noteq> 0) (dkv_value d)) else None)
      else if length (dkv_value d) < dkv_value_len d then None
      else Some (take (dkv_value_len d) (dkv_value d)))"

text \<open>The result of \<open>create_kv_blob\<close> is not kept: the loop tests the result of formatting.\<close>

fun default_kvs_loop ::
  "fdb_default_kv_node list \<Rightarrow> fdb_kvdb \<Rightarrow> kvdb_sec_info \<Rightarrow> fdb_kvdb option" where
  "default_kvs_loop [] db sector = Some db"
| "default_kvs_loop (d # ds) db sector = do {
     value \<leftarrow> default_kv_value d;
     (err, sector, db) \<leftarrow> create_kv_blob db (sector\<lparr>sec_empty_kv := FAILED_ADDR\<rparr>) (dkv_key d) value;
     default_kvs_loop ds db sector
   }"

definition fdb_kv_set_default :: "fdb_kvdb \<Rightarrow> (fdb_err \<times> fdb_kvdb) option" where
  "fdb_kv_set_default db = do {
     let db = kvdb_lock db;
     let db = db\<lparr>kv_cache_table := map (\<lambda>n. n\<lparr>node_addr := FDB_DATA_UNUSED\<rparr>) (kv_cache_table db)\<rparr>;
     (result, db) \<leftarrow> format_all_loop db 0 FDB_NO_ERR;
     db \<leftarrow> (if result = FDB_NO_ERR
            then default_kvs_loop (kv_default_kvs db) db (junk_sec (kvdb_stk db))
            else Some db);
     let db = db\<lparr>kv_parent := (kv_parent db)\<lparr>db_oldest_addr := 0\<rparr>\<rparr>;
     Some (result, kvdb_unlock db)
   }"

subsection \<open>Loading and recovery\<close>

text \<open>The argument is \<open>sector_oldest_addr\<close> and \<open>last_sector_status\<close>.\<close>

definition check_oldest_addr_cb ::
  "kvdb_sec_info \<Rightarrow> nat \<times> fdb_sector_store_status \<Rightarrow> fdb_kvdb
   \<Rightarrow> (bool \<times> (nat \<times> fdb_sector_store_status) \<times> fdb_kvdb) option" where
  "check_oldest_addr_cb sector arg db =
     Some (False,
           ((if snd arg = FDB_SECTOR_STORE_EMPTY
                \<and> (sec_store sector = FDB_SECTOR_STORE_FULL \<or> sec_store sector = FDB_SECTOR_STORE_USING)
             then sec_addr sector else fst arg),
            sec_store sector), db)"

text \<open>The argument is \<open>failed_count\<close>.\<close>

definition check_sec_hdr_cb :: "kvdb_sec_info \<Rightarrow> nat \<Rightarrow> fdb_kvdb \<Rightarrow> (bool \<times> nat \<times> fdb_kvdb) option" where
  "check_sec_hdr_cb sector failed_count db =
     (if \<not> sec_check_ok sector
      then if db_not_formatable (kv_parent db) then Some (True, u32 (failed_count + 1), db)
           else do {
             (err, db) \<leftarrow> format_sector db (sec_addr sector) SECTOR_NOT_COMBINED;
             Some (False, u32 (failed_count + 1), db)
           }
      else Some (False, failed_count, db))"

definition check_and_recovery_gc_cb ::
  "kvdb_sec_info \<Rightarrow> unit \<Rightarrow> fdb_kvdb \<Rightarrow> (bool \<times> unit \<times> fdb_kvdb) option" where
  "check_and_recovery_gc_cb sector arg db =
     (if sec_check_ok sector \<and> sec_dirty sector = FDB_SECTOR_DIRTY_GC
      then do {
        db \<leftarrow> gc_collect (db\<lparr>kv_gc_request := True\<rparr>);
        Some (False, arg, db)
      }
      else Some (False, arg, db))"

definition check_and_recovery_kv_cb ::
  "fdb_kv \<Rightarrow> unit \<Rightarrow> fdb_kvdb \<Rightarrow> (bool \<times> unit \<times> fdb_kvdb) option" where
  "check_and_recovery_kv_cb kv arg db =
     (if kv_crc_is_ok kv \<and> kv_status kv = FDB_KV_PRE_DELETE
      then do {
        (result, db) \<leftarrow> move_kv db kv;
        Some (result \<noteq> FDB_NO_ERR, arg, db)
      }
      else if kv_status kv = FDB_KV_PRE_WRITE
      then do {
        (err, db) \<leftarrow> kv_write_status db (kv_addr_start kv) FDB_KV_STATUS_NUM
                      (kv_status_num FDB_KV_ERR_HDR) True;
        Some (True, arg, db)
      }
      else if kv_crc_is_ok kv \<and> kv_status kv = FDB_KV_WRITE
      then Some (False, arg,
                 update_kv_cache db (take (kv_name_len kv) (kv_name kv)) (kv_addr_start kv))
      else Some (False, arg, db))"

text \<open>The code after the label \<open>__retry\<close>.\<close>

partial_function (option) kv_load_retry :: "fdb_kvdb \<Rightarrow> fdb_kv \<Rightarrow> fdb_kvdb option" where
  "kv_load_retry db kv = do {
     (kv, arg, db) \<leftarrow> kv_iterator db kv () check_and_recovery_kv_cb;
     if kv_gc_request db then do {
       db \<leftarrow> gc_collect db;
       kv_load_retry db kv
     }
     else Some db
   }"

definition fdb_kv_load :: "fdb_kvdb \<Rightarrow> (fdb_err \<times> fdb_kvdb) option" where
  "fdb_kv_load db = do {
     let db = db\<lparr>kv_in_recovery_check := True\<rparr>;
     (sector, failed_count, db) \<leftarrow>
       sector_iterator db (junk_sec (kvdb_stk db)) FDB_SECTOR_STORE_UNUSED 0 check_sec_hdr_cb False;
     if db_not_formatable (kv_parent db) \<and> failed_count > 0 then Some (FDB_READ_ERR, db)
     else do {
       db \<leftarrow> (if failed_count = kvdb_max_size db div kvdb_sec_size db
              then do { (err, db) \<leftarrow> fdb_kv_set_default db; Some db }
              else Some db);
       (sector, arg, db) \<leftarrow>
         sector_iterator db sector FDB_SECTOR_STORE_UNUSED () check_and_recovery_gc_cb False;
       db \<leftarrow> kv_load_retry db (junk_kv (kvdb_stk db));
       Some (FDB_NO_ERR, db\<lparr>kv_in_recovery_check := False\<rparr>)
     }
   }"

subsection \<open>Options\<close>

text \<open>
  A command of \<open>fdb_kvdb_control\<close> with its argument. The commands for file mode and the
  maximum size do nothing in this configuration. The second component of the result is what
  \<open>GET_SEC_SIZE\<close> stores through its pointer.
\<close>

datatype kvdb_cmd =
    KVDB_SET_SEC_SIZE nat
  | KVDB_GET_SEC_SIZE
  | KVDB_SET_LOCK bool
  | KVDB_SET_UNLOCK bool
  | KVDB_SET_FILE_MODE bool
  | KVDB_SET_MAX_SIZE nat
  | KVDB_SET_NOT_FORMAT bool

fun fdb_kvdb_control :: "fdb_kvdb \<Rightarrow> kvdb_cmd \<Rightarrow> (fdb_kvdb \<times> nat option) option" where
  "fdb_kvdb_control db (KVDB_SET_SEC_SIZE n) =
     (if db_init_ok (kv_parent db) then None
      else Some (db\<lparr>kv_parent := (kv_parent db)\<lparr>db_sec_size := n\<rparr>\<rparr>, None))"
| "fdb_kvdb_control db KVDB_GET_SEC_SIZE = Some (db, Some (kvdb_sec_size db))"
| "fdb_kvdb_control db (KVDB_SET_LOCK l) =
     Some (db\<lparr>kv_parent := (kv_parent db)\<lparr>db_lock_set := l\<rparr>\<rparr>, None)"
| "fdb_kvdb_control db (KVDB_SET_UNLOCK l) =
     Some (db\<lparr>kv_parent := (kv_parent db)\<lparr>db_unlock_set := l\<rparr>\<rparr>, None)"
| "fdb_kvdb_control db (KVDB_SET_FILE_MODE b) = Some (db, None)"
| "fdb_kvdb_control db (KVDB_SET_MAX_SIZE n) = Some (db, None)"
| "fdb_kvdb_control db (KVDB_SET_NOT_FORMAT b) =
     (if db_init_ok (kv_parent db) then None
      else Some (db\<lparr>kv_parent := (kv_parent db)\<lparr>db_not_formatable := b\<rparr>\<rparr>, None))"

subsection \<open>Initialisation\<close>

text \<open>The part of \<open>fdb_kvdb_init\<close> after \<open>_fdb_init_ex\<close> succeeded.\<close>

definition kvdb_init_load ::
  "fdb_kvdb \<Rightarrow> fdb_default_kv_node list option \<Rightarrow> (fdb_err \<times> fdb_kvdb) option" where
  "kvdb_init_load db default_kv = do {
     let db = kvdb_lock db;
     let db = db\<lparr>kv_gc_request := False, kv_in_recovery_check := False,
                 kv_default_kvs := (case default_kv of Some d \<Rightarrow> d | None \<Rightarrow> [])\<rparr>;
     let db = db\<lparr>kv_parent := (kv_parent db)\<lparr>db_oldest_addr := 0\<rparr>\<rparr>;
     (sector, arg, db) \<leftarrow>
       sector_iterator db (junk_sec (kvdb_stk db)) FDB_SECTOR_STORE_UNUSED
         (0, FDB_SECTOR_STORE_UNUSED) check_oldest_addr_cb False;
     let db = db\<lparr>kv_parent := (kv_parent db)\<lparr>db_oldest_addr := fst arg\<rparr>\<rparr>;
     if \<not> (0 < FDB_GC_EMPTY_SEC_THRESHOLD
           \<and> FDB_GC_EMPTY_SEC_THRESHOLD < kvdb_max_size db div kvdb_sec_size db)
     then None
     else do {
       let db = db\<lparr>kv_sector_cache_table :=
             map (\<lambda>s. s\<lparr>sec_check_ok := False, sec_empty_kv := FAILED_ADDR,
                       sec_addr := FDB_DATA_UNUSED\<rparr>) (kv_sector_cache_table db),
           kv_cache_table :=
             map (\<lambda>n. n\<lparr>node_addr := FDB_DATA_UNUSED\<rparr>) (kv_cache_table db)\<rparr>;
       let db = kvdb_unlock db;
       (result, db) \<leftarrow> fdb_kv_load db;
       Some (result, kvdb_unlock (kvdb_lock db))
     }
   }"

definition fdb_kvdb_init ::
  "fdb_kvdb \<Rightarrow> bytes \<Rightarrow> bytes \<Rightarrow> fdb_default_kv_node list option \<Rightarrow> nat
   \<Rightarrow> (fdb_err \<times> fdb_kvdb) option" where
  "fdb_kvdb_init db name path default_kv user_data =
     (if (FDB_STR_KV_VALUE_MAX_SIZE * 8) mod FDB_WRITE_GRAN \<noteq> 0 then None
      else do {
        (result, p) \<leftarrow> fdb_init_ex (kv_parent db) name path FDB_DB_TYPE_KV user_data;
        let db = db\<lparr>kv_parent := p\<rparr>;
        (result, db) \<leftarrow> (if result \<noteq> FDB_NO_ERR then Some (result, db)
                         else kvdb_init_load db default_kv);
        Some (result, db\<lparr>kv_parent := fdb_init_finish (kv_parent db) result\<rparr>)
      })"

definition fdb_kvdb_deinit :: "fdb_kvdb \<Rightarrow> fdb_err \<times> fdb_kvdb" where
  "fdb_kvdb_deinit db = (FDB_NO_ERR, db\<lparr>kv_parent := fdb_deinit (kv_parent db)\<rparr>)"

subsection \<open>Iterating\<close>

record fdb_kv_iterator =
  itr_curr_kv :: fdb_kv
  itr_iterated_cnt :: nat
  itr_iterated_obj_bytes :: nat
  itr_iterated_value_bytes :: nat
  itr_sector_addr :: nat
  itr_traversed_len :: nat

definition fdb_kv_iterator_init :: "fdb_kvdb \<Rightarrow> fdb_kv_iterator \<Rightarrow> fdb_kv_iterator" where
  "fdb_kv_iterator_init db itr =
     itr\<lparr>itr_curr_kv := (itr_curr_kv itr)\<lparr>kv_addr_start := 0\<rparr>, itr_iterated_cnt := 0,
         itr_iterated_obj_bytes := 0, itr_iterated_value_bytes := 0, itr_traversed_len := 0,
         itr_sector_addr := kvdb_oldest_addr db\<rparr>"

text \<open>
  The inner \<open>do\<close> loop of \<open>fdb_kv_iterate\<close>: whether a valid KV was found, and the KV.
\<close>

partial_function (option) kv_iterate_sector ::
  "fdb_kvdb \<Rightarrow> kvdb_sec_info \<Rightarrow> fdb_kv \<Rightarrow> (bool \<times> fdb_kv \<times> fdb_kvdb) option" where
  "kv_iterate_sector db sector kv = do {
     (err, kv, db) \<leftarrow> read_kv db kv;
     if kv_status kv = FDB_KV_WRITE \<and> kv_crc_is_ok kv then Some (True, kv, db)
     else do {
       addr \<leftarrow> get_next_kv_addr db sector kv;
       let kv = kv\<lparr>kv_addr_start := addr\<rparr>;
       if addr \<noteq> FAILED_ADDR then kv_iterate_sector db sector kv else Some (False, kv, db)
     }
   }"

text \<open>One sector of the outer loop, up to its condition; \<open>continue\<close> jumps to the condition.\<close>

definition kv_iterate_step ::
  "fdb_kvdb \<Rightarrow> fdb_kv_iterator \<Rightarrow> kvdb_sec_info
   \<Rightarrow> (bool \<times> fdb_kv_iterator \<times> kvdb_sec_info \<times> fdb_kvdb) option" where
  "kv_iterate_step db itr sector = do {
     let next = (\<lambda>itr kv. itr\<lparr>itr_curr_kv := kv\<lparr>kv_addr_start := 0\<rparr>,
                     itr_traversed_len := u32 (itr_traversed_len itr + kvdb_sec_size db)\<rparr>);
     let kv = itr_curr_kv itr;
     (err, sector, db) \<leftarrow> read_sector_info db (itr_sector_addr itr) sector False;
     if err = FDB_NO_ERR \<and> (sec_store sector = FDB_SECTOR_STORE_USING
                             \<or> sec_store sector = FDB_SECTOR_STORE_FULL)
     then do {
       addr \<leftarrow> (if kv_addr_start kv = 0 then Some (u32 (sec_addr sector + SECTOR_HDR_DATA_SIZE))
                else get_next_kv_addr db sector kv);
       if kv_addr_start kv \<noteq> 0 \<and> addr = FAILED_ADDR then Some (False, next itr kv, sector, db)
       else do {
         (found, kv, db) \<leftarrow> kv_iterate_sector db sector (kv\<lparr>kv_addr_start := addr\<rparr>);
         if found
         then Some (True,
                itr\<lparr>itr_curr_kv := kv, itr_iterated_cnt := u32 (itr_iterated_cnt itr + 1),
                    itr_iterated_obj_bytes := u32 (itr_iterated_obj_bytes itr + kv_len kv),
                    itr_iterated_value_bytes :=
                      u32 (itr_iterated_value_bytes itr + kv_value_len kv)\<rparr>, sector, db)
         else Some (False, next itr kv, sector, db)
       }
     }
     else Some (False, next itr kv, sector, db)
   }"

partial_function (option) kv_iterate_loop ::
  "fdb_kvdb \<Rightarrow> fdb_kv_iterator \<Rightarrow> kvdb_sec_info \<Rightarrow> (bool \<times> fdb_kv_iterator \<times> fdb_kvdb) option" where
  "kv_iterate_loop db itr sector = do {
     (found, itr, sector, db) \<leftarrow> kv_iterate_step db itr sector;
     if found then Some (True, itr, db)
     else
       let next = get_next_sector_addr db sector (itr_traversed_len itr);
           itr = itr\<lparr>itr_sector_addr := next\<rparr> in
       if next \<noteq> FAILED_ADDR then kv_iterate_loop db itr sector else Some (False, itr, db)
   }"

definition fdb_kv_iterate ::
  "fdb_kvdb \<Rightarrow> fdb_kv_iterator \<Rightarrow> (bool \<times> fdb_kv_iterator \<times> fdb_kvdb) option" where
  "fdb_kv_iterate db itr = kv_iterate_loop db itr (junk_sec (kvdb_stk db))"

subsection \<open>Integrity check\<close>

partial_function (option) kvdb_check_sector ::
  "fdb_kvdb \<Rightarrow> kvdb_sec_info \<Rightarrow> fdb_kv \<Rightarrow> (fdb_err \<times> fdb_kv \<times> fdb_kvdb) option" where
  "kvdb_check_sector db sector kv = do {
     (result, kv, db) \<leftarrow> read_kv db kv;
     addr \<leftarrow> get_next_kv_addr db sector kv;
     let kv = kv\<lparr>kv_addr_start := addr\<rparr>;
     if addr \<noteq> FAILED_ADDR \<and> result = FDB_NO_ERR then kvdb_check_sector db sector kv
     else Some (result, kv, db)
   }"

partial_function (option) kvdb_check_loop ::
  "fdb_kvdb \<Rightarrow> kvdb_sec_info \<Rightarrow> fdb_kv \<Rightarrow> nat \<Rightarrow> nat \<Rightarrow> (fdb_err \<times> fdb_kvdb) option" where
  "kvdb_check_loop db sector kv addr traversed_len = do {
     let traversed_len = u32 (traversed_len + kvdb_sec_size db);
     (result, sector, db) \<leftarrow> read_sector_info db addr sector False;
     (result, kv, db) \<leftarrow>
       (if result = FDB_NO_ERR \<and> (sec_store sector = FDB_SECTOR_STORE_USING
                                  \<or> sec_store sector = FDB_SECTOR_STORE_FULL)
        then kvdb_check_sector db sector
               (kv\<lparr>kv_addr_start := u32 (sec_addr sector + SECTOR_HDR_DATA_SIZE)\<rparr>)
        else Some (result, kv, db));
     let next = get_next_sector_addr db sector traversed_len;
     if next \<noteq> FAILED_ADDR \<and> result = FDB_NO_ERR
     then kvdb_check_loop db sector kv next traversed_len
     else Some (result, db)
   }"

definition fdb_kvdb_check :: "fdb_kvdb \<Rightarrow> (fdb_err \<times> fdb_kvdb) option" where
  "fdb_kvdb_check db =
     (if \<not> db_init_ok (kv_parent db) then Some (FDB_INIT_FAILED, db)
      else do {
        let db = kvdb_lock db;
        (result, db) \<leftarrow> kvdb_check_loop db (junk_sec (kvdb_stk db)) (junk_kv (kvdb_stk db))
                         (kvdb_oldest_addr db) 0;
        Some (result, kvdb_unlock db)
      })"

end
