(* ===== verification/Fdb_Ring.thy ===== *)
theory Fdb_Ring
  imports Fdb_Prelude
begin

text \<open>
  The sectors of a database form a ring, and every walk over a database follows a function of the
  code that returns the next sector from the address of the last one and the length traversed so
  far. The locale \<open>sector_ring\<close> states the contract of such a function; under it a walk visits
  every sector exactly once, whatever sector it starts from.
\<close>

locale sector_ring =
  fixes nxt :: "'d \<Rightarrow> nat \<Rightarrow> nat \<Rightarrow> nat"
    and sec_size :: "'d \<Rightarrow> nat"
    and count :: "'d \<Rightarrow> nat"
    and ok :: "'d \<Rightarrow> bool"
    and step :: "nat \<Rightarrow> nat \<Rightarrow> nat"
  assumes nxt_go: "ok d \<Longrightarrow> k < count d \<Longrightarrow> j < count d
      \<Longrightarrow> nxt d (k * sec_size d) (j * sec_size d) = step (count d) k * sec_size d"
    and nxt_stop: "ok d \<Longrightarrow> k < count d
      \<Longrightarrow> nxt d (k * sec_size d) (count d * sec_size d) = FDB_FAILED_ADDR"
    and step_less: "k < n \<Longrightarrow> step n k < n"
    and step_distinct: "k < n \<Longrightarrow> i < j \<Longrightarrow> j < n \<Longrightarrow> (step n ^^ i) k \<noteq> (step n ^^ j) k"
    and sec_size_pos: "ok d \<Longrightarrow> 0 < sec_size d"
begin

text \<open>The numbers of the sectors of a walk of \<open>m\<close> steps.\<close>

definition walk :: "nat \<Rightarrow> nat \<Rightarrow> nat \<Rightarrow> nat list" where
  "walk n k m = map (\<lambda>i. (step n ^^ i) k) [0..<m]"

lemma length_walk [simp]: "length (walk n k m) = m"
  by (simp add: walk_def)

lemma iter_less: "k < n \<Longrightarrow> (step n ^^ i) k < n"
  by (induction i) (auto intro: step_less)

lemma walk_Suc: "walk n k (Suc m) = k # walk n (step n k) m"
  by (simp add: walk_def upt_conv_Cons map_Suc_upt [symmetric] funpow_swap1 o_def
      del: upt_Suc map_Suc_upt)

lemma distinct_walk: "k < n \<Longrightarrow> distinct (walk n k n)"
  unfolding walk_def distinct_map
  by (auto simp: inj_on_def) (metis linorder_neqE_nat step_distinct)

lemma set_walk: "k < n \<Longrightarrow> set (walk n k n) = {..<n}"
proof -
  assume k: "k < n"
  have "set (walk n k n) \<subseteq> {..<n}" using k iter_less by (auto simp: walk_def)
  moreover have "card (set (walk n k n)) = n"
    using distinct_card [OF distinct_walk [OF k]] by simp
  ultimately show ?thesis by (simp add: card_subset_eq)
qed

text \<open>A walk along the code's function visits the addresses of \<open>walk\<close> and then fails.\<close>

lemma nxt_walk:
  assumes "ok d" "k < count d" "i < count d"
  shows "nxt d ((walk (count d) k (count d) ! i) * sec_size d) (Suc i * sec_size d)
    = (if Suc i < count d then (walk (count d) k (count d) ! Suc i) * sec_size d else FDB_FAILED_ADDR)"
proof -
  have l: "(step (count d) ^^ i) k < count d" using assms by (auto intro: iter_less)
  show ?thesis
  proof (cases "Suc i < count d")
    case True
    then show ?thesis using nxt_go [OF assms(1) l True] assms(3) by (simp add: walk_def)
  next
    case False
    then have "Suc i = count d" using assms(3) by simp
    then show ?thesis using nxt_stop [OF assms(1) l] assms(3) by (simp add: walk_def)
  qed
qed

text \<open>So every sector is visited exactly once.\<close>

lemma visits_all:
  assumes "ok d" "k < count d"
  shows "distinct (map (\<lambda>s. s * sec_size d) (walk (count d) k (count d)))
    \<and> set (map (\<lambda>s. s * sec_size d) (walk (count d) k (count d)))
      = (\<lambda>s. s * sec_size d) ` {..<count d}"
  using assms sec_size_pos [OF assms(1)] distinct_walk [OF assms(2)] set_walk [OF assms(2)]
  by (simp add: distinct_map inj_on_def)

end

text \<open>The two directions: after the last sector the first one, and before the first the last.\<close>

definition ring_up :: "nat \<Rightarrow> nat \<Rightarrow> nat" where
  "ring_up n k = (if Suc k < n then Suc k else 0)"

definition ring_down :: "nat \<Rightarrow> nat \<Rightarrow> nat" where
  "ring_down n k = (if 0 < k then k - 1 else n - 1)"

lemma ring_up_iter: "k < n \<Longrightarrow> (ring_up n ^^ i) k = (k + i) mod n"
proof (induction i)
  case (Suc i)
  then have "(ring_up n ^^ Suc i) k = ring_up n ((k + i) mod n)" by simp
  moreover have "ring_up n x = Suc x mod n" if "x < n" for x
    using that by (auto simp: ring_up_def) (metis Suc_lessI mod_self)
  ultimately show ?case using Suc.prems by (simp add: mod_Suc_eq)
qed simp

lemma ring_down_iter: "k < n \<Longrightarrow> i \<le> n \<Longrightarrow> (ring_down n ^^ i) k = (k + (n - i)) mod n"
proof (induction i)
  case (Suc i)
  then have "(ring_down n ^^ Suc i) k = ring_down n ((k + (n - i)) mod n)" by simp
  moreover have "k + (n - i) = Suc (k + (n - Suc i))" using Suc.prems by simp
  moreover have "ring_down n (Suc y mod n) = y mod n" for y
    using Suc.prems by (auto simp: ring_down_def mod_Suc)
  ultimately show ?case by simp
qed simp

lemma ring_up_props:
  "k < n \<Longrightarrow> ring_up n k < n"
  "k < n \<Longrightarrow> i < j \<Longrightarrow> j < n \<Longrightarrow> (ring_up n ^^ i) k \<noteq> (ring_up n ^^ j) k"
proof -
  show "k < n \<Longrightarrow> ring_up n k < n" by (simp add: ring_up_def)
  assume "k < n" "i < j" "j < n"
  then show "(ring_up n ^^ i) k \<noteq> (ring_up n ^^ j) k"
    by (auto simp: ring_up_iter mod_if split: if_splits)
qed

lemma ring_down_props:
  "k < n \<Longrightarrow> ring_down n k < n"
  "k < n \<Longrightarrow> i < j \<Longrightarrow> j < n \<Longrightarrow> (ring_down n ^^ i) k \<noteq> (ring_down n ^^ j) k"
proof -
  show "k < n \<Longrightarrow> ring_down n k < n" by (auto simp: ring_down_def)
  assume "k < n" "i < j" "j < n"
  then show "(ring_down n ^^ i) k \<noteq> (ring_down n ^^ j) k"
    by (auto simp: ring_down_iter mod_if split: if_splits)
qed

end
