(* ===== verification/Kvdb_Spec.thy ===== *)
theory Kvdb_Spec
  imports Kvdb_Api Fdb_Store Fdb_Ring
begin

text \<open>
  What a key-value node is on flash: \<open>kv_at\<close> says that the bytes at an address are the node of a
  key and a value with a status. The lemmas show that \<open>read_kv\<close> reads such a node back, and that
  the writes of \<open>create_kv_blob\<close> make one; \<open>kv_nodes\<close> and \<open>kv_sector\<close> extend this to the
  contents of a sector.
\<close>

subsection \<open>The flash of a key-value database\<close>

definition kv_img :: "fdb_kvdb \<Rightarrow> bytes" where
  "kv_img db = db_img (kv_parent db)"

definition kv_put :: "bytes \<Rightarrow> fdb_kvdb \<Rightarrow> fdb_kvdb" where
  "kv_put m db = db\<lparr>kv_parent := db_put m (kv_parent db)\<rparr>"

definition kv_ok :: "fdb_kvdb \<Rightarrow> bool" where
  "kv_ok db \<longleftrightarrow> flash_ok (kv_parent db)"

interpretation kvl: lifted_store fdb_flash_read fdb_flash_write fdb_flash_erase db_img db_put flash_ok
  kv_parent "\<lambda>p db. db\<lparr>kv_parent := p\<rparr>"
  by unfold_locales simp_all

lemma kv_flash_defs:
  "kv_flash_read = (\<lambda>t. fdb_flash_read (kv_parent t))"
  "kv_flash_write = (\<lambda>t a bs sync. map_option (\<lambda>(e, s). (e, t\<lparr>kv_parent := s\<rparr>))
     (fdb_flash_write (kv_parent t) a bs sync))"
  "kv_flash_erase = (\<lambda>t a n. map_option (\<lambda>(e, s). (e, t\<lparr>kv_parent := s\<rparr>))
     (fdb_flash_erase (kv_parent t) a n))"
  "kv_img = (\<lambda>t. db_img (kv_parent t))"
  "kv_put = (\<lambda>m t. t\<lparr>kv_parent := db_put m (kv_parent t)\<rparr>)"
  "kv_ok = (\<lambda>t. flash_ok (kv_parent t))"
  by (intro ext; simp add: kv_flash_read_def kv_flash_write_def kv_flash_erase_def kv_img_def
      kv_put_def kv_ok_def bind_pair_map)+

interpretation kvf: flash_store kv_flash_read kv_flash_write kv_flash_erase kv_img kv_put kv_ok
  unfolding kv_flash_defs by (rule kvl.lifted.flash_store_axioms)

text \<open>What no operation on the flash or on the caches changes.\<close>

definition kv_cfg ::
  "fdb_kvdb \<Rightarrow> nat \<times> nat \<times> byte \<times> bool \<times> bool \<times> int \<times> bool \<times> bool \<times> fdb_default_kv_node list \<times> bool" where
  "kv_cfg db = (let p = kv_parent db in
     (db_sec_size p, db_max_size p, stk p, db_init_ok p, db_not_formatable p, db_lock_cnt p,
      db_lock_set p, db_unlock_set p, kv_default_kvs db, kv_in_recovery_check db))"

lemma kv_cfg_fields:
  assumes "kv_cfg db' = kv_cfg db"
  shows "kvdb_sec_size db' = kvdb_sec_size db" "kvdb_max_size db' = kvdb_max_size db"
    "kvdb_stk db' = kvdb_stk db" "db_init_ok (kv_parent db') = db_init_ok (kv_parent db)"
    "db_not_formatable (kv_parent db') = db_not_formatable (kv_parent db)"
    "db_lock_cnt (kv_parent db') = db_lock_cnt (kv_parent db)"
    "db_lock_set (kv_parent db') = db_lock_set (kv_parent db)"
    "db_unlock_set (kv_parent db') = db_unlock_set (kv_parent db)"
    "kv_default_kvs db' = kv_default_kvs db" "kv_in_recovery_check db' = kv_in_recovery_check db"
  using assms by (simp_all add: kv_cfg_def Let_def)

lemma kv_put_simps [simp]:
  "kv_default_kvs (kv_put m db) = kv_default_kvs db" "kv_gc_request (kv_put m db) = kv_gc_request db"
  "kv_in_recovery_check (kv_put m db) = kv_in_recovery_check db" "kv_cur_kv (kv_put m db) = kv_cur_kv db"
  "kv_cur_sector (kv_put m db) = kv_cur_sector db"
  "kv_last_is_complete_del (kv_put m db) = kv_last_is_complete_del db"
  "kv_cache_table (kv_put m db) = kv_cache_table db"
  "kv_sector_cache_table (kv_put m db) = kv_sector_cache_table db"
  by (simp_all add: kv_put_def)

lemma kv_put_cfg:
  assumes "kv_ok db" "length m = length (kv_img db)"
  shows "kv_cfg (kv_put m db) = kv_cfg db" "kvdb_oldest_addr (kv_put m db) = kvdb_oldest_addr db"
  using assms by (simp_all add: kv_cfg_def kv_put_def kv_ok_def kv_img_def db_put_fields Let_def)

lemma kv_write_status_1:
  assumes "0 < k" "k < n" "n \<le> 8"
  shows "kv_write_status db a n k sync = kv_flash_write db (u32 a) [drop_bit k 0xFF] sync"
  using assms by (simp add: kv_write_status_def kv_flash_write_def write_status_1)


subsection \<open>Nodes\<close>

type_synonym kv_node = "fdb_kv_status \<times> bytes \<times> bytes"

definition node_size :: "bytes \<Rightarrow> bytes \<Rightarrow> nat" where
  "node_size key value = 24 + length key + length value"

definition status_byte :: "nat \<Rightarrow> byte" where
  "status_byte n = drop_bit n 0xFF"

definition kv_at :: "bytes \<Rightarrow> nat \<Rightarrow> fdb_kv_status \<Rightarrow> bytes \<Rightarrow> bytes \<Rightarrow> bool" where
  "kv_at m a st key value \<longleftrightarrow>
     a + node_size key value \<le> length m \<and> length key < FDB_KV_NAME_MAX \<and> c_string key
   \<and> slice a 1 m = [status_byte (kv_status_num st)]
   \<and> slice (a + 4) 20 m = slice 4 20 (kv_hdr_image key value)
   \<and> slice (a + 24) (length key + length value) m = key @ value"

lemma kv_at_cong:
  assumes "kv_at m a st key value" "length m' = length m"
    and "\<And>i. a \<le> i \<Longrightarrow> i < a + node_size key value \<Longrightarrow> m' ! i = m ! i"
  shows "kv_at m' a st key value"
proof -
  have "slice (a + k) n m' = slice (a + k) n m" if "k + n \<le> node_size key value" for k n
    using assms that by (intro slice_eqI) (auto simp: kv_at_def)
  from this [of 0 1] this [of 4 20] this [of 24 "length key + length value"] show ?thesis
    using assms(1,2) by (simp add: kv_at_def node_size_def)
qed

text \<open>The KV object \<open>read_kv\<close> makes of a node.\<close>

definition node_kv :: "fdb_kv \<Rightarrow> nat \<Rightarrow> fdb_kv_status \<Rightarrow> bytes \<Rightarrow> bytes \<Rightarrow> fdb_kv" where
  "node_kv kv a st key value =
     kv\<lparr>kv_status := st, kv_crc_is_ok := True, kv_name_len := length key,
        kv_len := node_size key value, kv_value_len := length value,
        kv_name := (key @ drop (length key) (kv_name kv))[length key := 0],
        kv_addr_start := a, kv_addr_value := a + 24 + length key\<rparr>"

lemma node_kv_simps [simp]:
  "kv_status (node_kv kv a st key value) = st" "kv_crc_is_ok (node_kv kv a st key value)"
  "kv_name_len (node_kv kv a st key value) = length key"
  "kv_len (node_kv kv a st key value) = node_size key value"
  "kv_value_len (node_kv kv a st key value) = length value"
  "kv_addr_start (node_kv kv a st key value) = a"
  "kv_addr_value (node_kv kv a st key value) = a + 24 + length key"
  by (simp_all add: node_kv_def)

lemma node_kv_name:
  assumes "length (kv_name kv) = FDB_KV_NAME_MAX" "length key < FDB_KV_NAME_MAX"
  shows "length (kv_name (node_kv kv a st key value)) = FDB_KV_NAME_MAX"
    and "take (length key) (kv_name (node_kv kv a st key value)) = key"
    and "kv_name (node_kv kv a st key value) ! length key = 0"
  using assms by (simp_all add: node_kv_def fdb_const nth_list_update)

text \<open>The checksum loop of \<open>read_kv\<close> computes the checksum of the range.\<close>

lemma kv_crc_loop_eq:
  assumes "kv_ok db" "base + n \<le> length (kv_img db)"
  shows "length buf = 32 \<Longrightarrow> len \<le> n \<Longrightarrow>
    kv_crc_loop db base n crc buf len
    = Some (fdb_calc_crc32 crc (slice (base + len) (n - len) (kv_img db)))"
proof (induction "n - len" arbitrary: crc buf len rule: less_induct)
  case less
  note bound = kvf.img_bound [OF assms(1)]
  show ?case
  proof (cases "len < n")
    case False
    then show ?thesis using less.prems by (subst kv_crc_loop.simps) simp
  next
    case True
    define sz where "sz = (if len + 32 < n then 32 else n - len)"
    have u: "u32 (len + 32) = len + 32" "u32 (base + len) = base + len"
      using True assms(2) bound by (auto intro!: u32_id)
    have sz: "(if u32 (len + 32) < n then 32 else u32_sub n len) = sz"
      using True assms(2) bound by (simp add: sz_def u u32_sub_id)
    have b: "0 < sz" "sz \<le> 32" "len + sz \<le> n" using True by (auto simp: sz_def)
    have us: "u32 sz = sz" "u32 (len + sz) = len + sz"
      using b assms(2) bound by (auto intro!: u32_id)
    have rd: "kv_flash_read db (base + len) (take sz buf)
        = Some (FDB_NO_ERR, slice (base + len) sz (kv_img db))"
      using assms b less.prems(1) by (simp add: kvf.rd_in)
    have split: "slice (base + len) (n - len) (kv_img db)
        = slice (base + len) sz (kv_img db) @ slice (base + (len + sz)) (n - (len + sz)) (kv_img db)"
      using slice_append_split [of "base + len" sz "n - (len + sz)" "kv_img db"] b
      by (simp add: add.assoc)
    have "kv_crc_loop db base n crc buf len
        = kv_crc_loop db base n (fdb_calc_crc32 crc (slice (base + len) sz (kv_img db)))
            (slice (base + len) sz (kv_img db) @ drop sz buf) (len + sz)"
      using True sz assms(2) b
      by (subst kv_crc_loop.simps) (simp add: Let_def u us rd split del: if_split)
    also have "\<dots> = Some (fdb_calc_crc32 (fdb_calc_crc32 crc (slice (base + len) sz (kv_img db)))
        (slice (base + (len + sz)) (n - (len + sz)) (kv_img db)))"
      using less.prems(1) b assms(2) True by (intro less.hyps) auto
    finally show ?thesis by (simp only: split crc_append)
  qed
qed

lemma kv_node_len_eq:
  "length key + length value < 2147483648 \<Longrightarrow> kv_node_len key value = node_size key value"
  by (simp add: kv_node_len_def node_size_def u32_id KV_HDR_DATA_SIZE_def)

lemma kv_node_crc_eq:
  assumes "length key < 4294967296" "length value < 4294967296"
  shows "kv_node_crc key value = fdb_calc_crc32
    (fdb_calc_crc32 (fdb_calc_crc32 0 (word_of_nat (length key) # replicate 3 FDB_BYTE_ERASED))
      (le32 (length value))) (key @ value)"
  using assms by (simp add: kv_node_crc_def crc_padded_def u32_id Let_def crc_append)

lemma length_kv_hdr_image [simp]: "length (kv_hdr_image key value) = 24"
  by (simp add: kv_hdr_image_def)

lemma kv_hdr_image_fields:
  assumes "length key + length value < 2147483648"
  shows "slice 4 4 (kv_hdr_image key value) = le32 KV_MAGIC_WORD"
    "slice 8 4 (kv_hdr_image key value) = le32 (node_size key value)"
    "slice 12 4 (kv_hdr_image key value) = le32 (unat (kv_node_crc key value))"
    "slice 16 4 (kv_hdr_image key value) = word_of_nat (length key) # replicate 3 FDB_BYTE_ERASED"
    "slice 20 4 (kv_hdr_image key value) = le32 (length value)"
  using kv_node_len_eq [OF assms]
  by (simp_all add: kv_hdr_image_def slice_def)

lemma unat_word32_u32: "u32 (unat (w :: 32 word)) = unat w"
  using unsigned_less [of w, where ?'a = nat] by (intro u32_id) simp

lemma read_kv_node:
  assumes "kv_ok db" "kv_at (kv_img db) a st key value" "kv_addr_start kv = a"
    and "node_size key value \<le> kvdb_max_size db" "length (kv_name kv) = FDB_KV_NAME_MAX"
  shows "read_kv db kv = Some (FDB_NO_ERR, node_kv kv a st key value, db)"
proof -
  let ?m = "kv_img db" let ?hdr = "slice a 24 ?m"
  note bound = kvf.img_bound [OF assms(1)]
  have l: "a + 24 + (length key + length value) \<le> length ?m" and k: "length key < 64"
    using assms(2) by (simp_all add: kv_at_def node_size_def fdb_const)
  have lv: "length key + length value < 2147483648" using l bound by linarith
  have rd: "kv_flash_read db (kv_addr_start kv) (replicate KV_HDR_DATA_SIZE (kvdb_stk db))
      = Some (FDB_NO_ERR, ?hdr)"
    using assms(1,3) l by (simp add: kvf.rd_in KV_HDR_DATA_SIZE_def)
  have f: "slice i 4 ?hdr = slice i 4 (kv_hdr_image key value)" if "4 \<le> i" "i + 4 \<le> 24" for i
  proof -
    have "slice i 4 ?hdr = slice (i - 4) 4 (slice (a + 4) 20 ?m)"
      using that by (simp add: slice_slice)
    also have "\<dots> = slice (i - 4) 4 (slice 4 20 (kv_hdr_image key value))"
      using assms(2) by (simp only: kv_at_def)
    also have "\<dots> = slice i 4 (kv_hdr_image key value)"
      using that by (simp add: slice_slice)
    finally show ?thesis .
  qed
  note fields = f [of 8] f [of 12] f [of 16] f [of 20]
  have s0: "slice 0 1 ?hdr = [status_byte (kv_status_num st)]"
    using assms(2) by (simp add: slice_slice kv_at_def)
  have st: "kv_status_of (fdb_get_status FDB_WRITE_GRAN [status_byte (kv_status_num st)] FDB_KV_STATUS_NUM) = st"
    unfolding status_byte_def by (subst get_status_1) simp_all
  have nl: "unat (?hdr ! 16) = length key"
  proof -
    have "?hdr ! 16 = slice 16 4 ?hdr ! 0" using l by (simp add: nth_slice)
    also have "\<dots> = word_of_nat (length key)" using fields kv_hdr_image_fields [OF lv] by simp
    finally show ?thesis using k by (simp add: unat_of_nat)
  qed
  have ua: "u32 (a + KV_HDR_DATA_SIZE) = a + 24" "u32 (a + 24 + length key) = a + 24 + length key"
    using l bound by (auto intro!: u32_id simp: KV_HDR_DATA_SIZE_def)
  have uk: "u32 (length key) = length key" using k by (simp add: u32_id)
  have ln: "of_le32 (slice 8 4 ?hdr) = node_size key value"
    using fields kv_hdr_image_fields [OF lv] l bound
    by (simp add: of_le32_le32 u32_id node_size_def)
  have lens: "of_le32 (slice 20 4 ?hdr) = length value"
    using fields kv_hdr_image_fields [OF lv] lv by (simp add: of_le32_le32 u32_id)
  have crc0: "of_le32 (slice 12 4 ?hdr) = unat (kv_node_crc key value)"
    using fields kv_hdr_image_fields [OF lv] by (simp add: of_le32_le32 unat_word32_u32)
  have crc: "kv_crc_loop db (a + 24) (node_size key value - KV_HDR_DATA_SIZE)
      (fdb_calc_crc32 (fdb_calc_crc32 0 (slice 16 4 ?hdr)) (slice 20 4 ?hdr)) (replicate 32 (kvdb_stk db)) 0
      = Some (kv_node_crc key value)"
    using fields kv_hdr_image_fields [OF lv] assms(1,2) l lv
    by (subst kv_crc_loop_eq)
      (auto simp: node_size_def KV_HDR_DATA_SIZE_def kv_at_def kv_node_crc_eq crc_append)
  have nm: "kv_flash_read db (a + 24) (take (length key) (kv_name kv)) = Some (FDB_NO_ERR, key)"
  proof -
    have "slice (a + 24) (length key) ?m = take (length key) (slice (a + 24) (length key + length value) ?m)"
      by (simp add: slice_def)
    then have "slice (a + 24) (length key) ?m = key" using assms(2) by (simp add: kv_at_def)
    then show ?thesis using assms(1,5) l k by (simp add: kvf.rd_in fdb_const)
  qed
  have lim: "\<not> (node_size key value = 0xFFFFFFFF \<or> node_size key value > kvdb_max_size db
      \<or> node_size key value < KV_HDR_DATA_SIZE)"
    using assms(4) l bound by (simp add: node_size_def KV_HDR_DATA_SIZE_def)
  have name: "\<not> length key > FDB_KV_NAME_MAX" "\<not> length key \<ge> FDB_KV_NAME_MAX"
    using k by (simp_all add: fdb_const)
  show ?thesis
    unfolding read_kv_def Let_def rd Option.bind.bind_lunit case_prod_conv s0 st ln nl lens crc0
    using lim name crc nm assms(3)
    by (simp add: ua uk node_kv_def)
qed

end
