(* ===== verification/Kvdb_Caches.thy ===== *)
theory Kvdb_Caches
  imports Kvdb_Spec
begin

text \<open>
  The two RAM caches of the key-value database as one interface. A cache may forget, but what it
  answers is what was put last: the locale \<open>lossy_cache\<close> states this, and under it the caches
  stay coherent with the flash. It is proved for the sector cache (by address) and for the cache
  of KV addresses (by name CRC), whose update evicts the least active entry.
\<close>

subsection \<open>The interface\<close>

locale lossy_cache =
  fixes get :: "'t \<Rightarrow> 'k \<Rightarrow> 'v option"
    and put :: "'k \<Rightarrow> 'v \<Rightarrow> 't \<Rightarrow> 't"
    and drop_key :: "'k \<Rightarrow> 't \<Rightarrow> 't"
    and ok :: "'t \<Rightarrow> bool"
    and valid :: "'k \<Rightarrow> 'v \<Rightarrow> bool"
  assumes get_put: "ok t \<Longrightarrow> valid k v \<Longrightarrow> get (put k v t) k' = Some w
      \<Longrightarrow> if k' = k then w = v else get t k' = Some w"
    and get_drop: "ok t \<Longrightarrow> get (drop_key k t) k' = Some w \<Longrightarrow> k' \<noteq> k \<and> get t k' = Some w"
    and ok_put: "ok t \<Longrightarrow> valid k v \<Longrightarrow> ok (put k v t)"
    and ok_drop: "ok t \<Longrightarrow> ok (drop_key k t)"
begin

definition coherent :: "('k \<Rightarrow> 'v \<Rightarrow> bool) \<Rightarrow> 't \<Rightarrow> bool" where
  "coherent R t \<longleftrightarrow> ok t \<and> (\<forall>k v. get t k = Some v \<longrightarrow> R k v)"

lemma coherentD: "coherent R t \<Longrightarrow> get t k = Some v \<Longrightarrow> R k v"
  by (simp add: coherent_def)

lemma coherent_ok: "coherent R t \<Longrightarrow> ok t"
  by (simp add: coherent_def)

lemma coherent_mono: "coherent R t \<Longrightarrow> (\<And>k v. R k v \<Longrightarrow> R' k v) \<Longrightarrow> coherent R' t"
  by (simp add: coherent_def)

lemma coherent_put:
  assumes "coherent R t" "valid k v" "R' k v" "\<And>k' w. k' \<noteq> k \<Longrightarrow> R k' w \<Longrightarrow> R' k' w"
  shows "coherent R' (put k v t)"
  unfolding coherent_def
proof (intro conjI allI impI)
  show "ok (put k v t)" using assms(1,2) by (simp add: coherent_def ok_put)
  fix k' w
  assume g: "get (put k v t) k' = Some w"
  show "R' k' w"
    using get_put [OF coherent_ok [OF assms(1)] assms(2) g] assms(3,4) coherentD [OF assms(1)]
    by (auto split: if_splits)
qed

lemma coherent_drop:
  assumes "coherent R t" "\<And>k' w. k' \<noteq> k \<Longrightarrow> R k' w \<Longrightarrow> R' k' w"
  shows "coherent R' (drop_key k t)"
  using assms get_drop [OF coherent_ok [OF assms(1)]] ok_drop [OF coherent_ok [OF assms(1)]]
  unfolding coherent_def by blast

end

subsection \<open>The sector cache\<close>

definition sc_get :: "kvdb_sec_info list \<Rightarrow> nat \<Rightarrow> kvdb_sec_info option" where
  "sc_get t a =
     (if a = FDB_DATA_UNUSED then None
      else map_option (nth t) (List.find (\<lambda>i. sec_addr (t ! i) = a) [0..<FDB_SECTOR_CACHE_TABLE_SIZE]))"

definition sc_ok :: "kvdb_sec_info list \<Rightarrow> bool" where
  "sc_ok t \<longleftrightarrow> length t = FDB_SECTOR_CACHE_TABLE_SIZE
   \<and> (\<forall>i j. i < j \<and> j < length t \<and> sec_addr (t ! i) = sec_addr (t ! j)
        \<longrightarrow> sec_addr (t ! i) = FDB_DATA_UNUSED)"

definition sc_update :: "kvdb_sec_info \<Rightarrow> kvdb_sec_info list \<Rightarrow> kvdb_sec_info list" where
  "sc_update sector t =
     (let (returned, t, empty_index) =
        update_sector_cache_loop [0..<FDB_SECTOR_CACHE_TABLE_SIZE] sector t FDB_SECTOR_CACHE_TABLE_SIZE
      in if \<not> returned \<and> sec_check_ok sector \<and> empty_index < FDB_SECTOR_CACHE_TABLE_SIZE
         then t[empty_index := sector] else t)"

lemma update_sector_cache_eq:
  "update_sector_cache db sector
   = db\<lparr>kv_sector_cache_table := sc_update sector (kv_sector_cache_table db)\<rparr>"
  by (simp add: update_sector_cache_def sc_update_def split: prod.split)

lemma find_Some_upt:
  "List.find P [0..<n] = Some i \<longleftrightarrow> i < n \<and> P i \<and> (\<forall>j < i. \<not> P j)"
  by (auto simp: find_Some_iff)

lemma find_None_upt: "List.find P [0..<n] = None \<longleftrightarrow> (\<forall>i < n. \<not> P i)"
  by (auto simp: find_None_iff)

lemma sc_get_iff:
  assumes "sc_ok t"
  shows "sc_get t a = Some s \<longleftrightarrow> a \<noteq> FDB_DATA_UNUSED
    \<and> (\<exists>i < FDB_SECTOR_CACHE_TABLE_SIZE. t ! i = s \<and> sec_addr s = a)"
proof -
  have uniq: "i = j" if "i < FDB_SECTOR_CACHE_TABLE_SIZE" "j < FDB_SECTOR_CACHE_TABLE_SIZE"
    "sec_addr (t ! i) = a" "sec_addr (t ! j) = a" "a \<noteq> FDB_DATA_UNUSED" for i j
    using assms that by (metis linorder_neqE_nat sc_ok_def)
  have sg: "sc_get t a = Some s \<longleftrightarrow> a \<noteq> FDB_DATA_UNUSED \<and>
      (\<exists>i. (i < FDB_SECTOR_CACHE_TABLE_SIZE \<and> sec_addr (t ! i) = a \<and> (\<forall>j < i. sec_addr (t ! j) \<noteq> a))
         \<and> t ! i = s)"
    by (auto simp: sc_get_def find_Some_upt)
  show ?thesis unfolding sg
    using uniq by (metis order_less_trans less_irrefl)
qed

text \<open>The cached sector whose address is looked up, and its index.\<close>

lemma get_sector_from_cache_get:
  assumes "a \<noteq> FDB_DATA_UNUSED"
  shows "sc_get (kv_sector_cache_table db) a
    = map_option (nth (kv_sector_cache_table db)) (get_sector_from_cache db a)"
  using assms by (simp add: sc_get_def get_sector_from_cache_def)

lemma sc_loop:
  assumes "sec_addr s \<noteq> FDB_DATA_UNUSED"
  shows "update_sector_cache_loop is s t e = (r, t', e') \<Longrightarrow>
    (r \<longrightarrow> (\<exists>i \<in> set is. sec_addr (t ! i) = sec_addr s \<and>
        t' = (if sec_check_ok s then t[i := s] else t[i := (t ! i)\<lparr>sec_addr := FDB_DATA_UNUSED\<rparr>])))
    \<and> (\<not> r \<longrightarrow> t' = t \<and> (\<forall>i \<in> set is. sec_addr (t ! i) \<noteq> sec_addr s)
        \<and> (e' = e \<or> e' \<in> set is \<and> sec_addr (t ! e') = FDB_DATA_UNUSED))"
proof (induction "is" arbitrary: e)
  case (Cons i "is")
  consider (here) "sec_addr (t ! i) = sec_addr s" | (free) "sec_addr (t ! i) = FDB_DATA_UNUSED"
    "sec_addr (t ! i) \<noteq> sec_addr s"
    | (other) "sec_addr (t ! i) \<noteq> FDB_DATA_UNUSED" "sec_addr (t ! i) \<noteq> sec_addr s" by blast
  then show ?case
  proof cases
    case here
    then show ?thesis using Cons.prems by auto
  next
    case free
    then show ?thesis using Cons.prems Cons.IH [of i] by auto
  next
    case other
    then show ?thesis using Cons.prems Cons.IH [of e] by auto
  qed
qed simp

lemma sc_update_cases:
  assumes "sec_addr s \<noteq> FDB_DATA_UNUSED"
  obtains (hit) i where "i < FDB_SECTOR_CACHE_TABLE_SIZE" "sec_addr (t ! i) = sec_addr s"
      "sc_update s t = (if sec_check_ok s then t[i := s] else t[i := (t ! i)\<lparr>sec_addr := FDB_DATA_UNUSED\<rparr>])"
  | (new) i where "\<forall>i < FDB_SECTOR_CACHE_TABLE_SIZE. sec_addr (t ! i) \<noteq> sec_addr s" "sec_check_ok s"
      "i < FDB_SECTOR_CACHE_TABLE_SIZE" "sec_addr (t ! i) = FDB_DATA_UNUSED" "sc_update s t = t[i := s]"
  | (none) "\<forall>i < FDB_SECTOR_CACHE_TABLE_SIZE. sec_addr (t ! i) \<noteq> sec_addr s" "sc_update s t = t"
proof -
  obtain r t' e' where l: "update_sector_cache_loop [0..<FDB_SECTOR_CACHE_TABLE_SIZE] s t
      FDB_SECTOR_CACHE_TABLE_SIZE = (r, t', e')" by (metis prod_cases3)
  note f = sc_loop [OF assms l]
  show ?thesis
  proof (cases r)
    case True
    then show ?thesis using f l hit by (auto simp: sc_update_def)
  next
    case False
    then show ?thesis using f l new none
      by (cases "sec_check_ok s \<and> e' < FDB_SECTOR_CACHE_TABLE_SIZE") (auto simp: sc_update_def)
  qed
qed

definition sc_put :: "nat \<Rightarrow> kvdb_sec_info \<Rightarrow> kvdb_sec_info list \<Rightarrow> kvdb_sec_info list" where
  "sc_put a s t = sc_update s t"

definition sc_valid :: "nat \<Rightarrow> kvdb_sec_info \<Rightarrow> bool" where
  "sc_valid a s \<longleftrightarrow> sec_addr s = a \<and> a \<noteq> FDB_DATA_UNUSED \<and> sec_check_ok s"

text \<open>Replacing one entry of a table without doubles.\<close>

lemma sc_get_list_update:
  assumes "sc_ok t" "i < FDB_SECTOR_CACHE_TABLE_SIZE"
    and "sec_addr s = FDB_DATA_UNUSED \<or> sec_addr (t ! i) = sec_addr s
      \<or> (\<forall>j < FDB_SECTOR_CACHE_TABLE_SIZE. sec_addr (t ! j) \<noteq> sec_addr s)"
  shows "sc_ok (t[i := s])"
    and "sc_get (t[i := s]) a = Some w \<Longrightarrow>
      if a = sec_addr s then w = s else sc_get t a = Some w \<and> sec_addr (t ! i) \<noteq> a"
proof -
  have l: "length t = FDB_SECTOR_CACHE_TABLE_SIZE" using assms(1) by (simp add: sc_ok_def)
  show ok: "sc_ok (t[i := s])"
    using assms unfolding sc_ok_def by (auto simp: nth_list_update) metis+
  assume g: "sc_get (t[i := s]) a = Some w"
  then obtain j where j: "a \<noteq> FDB_DATA_UNUSED" "j < FDB_SECTOR_CACHE_TABLE_SIZE"
    "t[i := s] ! j = w" "sec_addr w = a"
    using sc_get_iff [OF ok] by blast
  show "if a = sec_addr s then w = s else sc_get t a = Some w \<and> sec_addr (t ! i) \<noteq> a"
  proof (cases "j = i")
    case True
    then show ?thesis using j l by simp
  next
    case False
    then have tj: "t ! j = w" using j by simp
    have "sec_addr (t ! i) \<noteq> a"
      using False tj j l assms(1,2) unfolding sc_ok_def by (metis linorder_neqE_nat)
    then show ?thesis
      using tj j assms(3) sc_get_iff [OF assms(1), of a w] by auto
  qed
qed

lemma sc_update_props:
  assumes "sc_ok t" "sec_addr s \<noteq> FDB_DATA_UNUSED"
  shows "sc_ok (sc_update s t)"
    and "sc_get (sc_update s t) a = Some w \<Longrightarrow>
      if a = sec_addr s then w = s \<and> sec_check_ok s else sc_get t a = Some w"
proof -
  have "sc_ok (sc_update s t) \<and> (sc_get (sc_update s t) a = Some w \<longrightarrow>
      (if a = sec_addr s then w = s \<and> sec_check_ok s else sc_get t a = Some w))"
    using assms(2)
  proof (cases rule: sc_update_cases [where t = t])
    case (hit i)
    let ?s = "if sec_check_ok s then s else (t ! i)\<lparr>sec_addr := FDB_DATA_UNUSED\<rparr>"
    have e: "sc_update s t = t[i := ?s]" using hit(3) by simp
    have c: "sec_addr ?s = FDB_DATA_UNUSED \<or> sec_addr (t ! i) = sec_addr ?s
      \<or> (\<forall>j < FDB_SECTOR_CACHE_TABLE_SIZE. sec_addr (t ! j) \<noteq> sec_addr ?s)"
      using hit(2) by simp
    note u = sc_get_list_update [OF assms(1) hit(1) c]
    have "sc_get (t[i := ?s]) a = Some w \<Longrightarrow>
        if a = sec_addr s then w = s \<and> sec_check_ok s else sc_get t a = Some w"
      using u(2) [of a w] hit(2) sc_get_iff [OF u(1), of a w] by (auto split: if_splits)
    then show ?thesis unfolding e using u(1) by blast
  next
    case (new i)
    then have c: "sec_addr s = FDB_DATA_UNUSED \<or> sec_addr (t ! i) = sec_addr s
      \<or> (\<forall>j < FDB_SECTOR_CACHE_TABLE_SIZE. sec_addr (t ! j) \<noteq> sec_addr s)" by blast
    show ?thesis
      using sc_get_list_update(1) [OF assms(1) new(3) c] sc_get_list_update(2) [OF assms(1) new(3) c, of a w]
        new(2,5) by auto
  next
    case none
    then show ?thesis using assms(1) sc_get_iff [OF assms(1), of a w] by auto
  qed
  then show "sc_ok (sc_update s t)"
    "sc_get (sc_update s t) a = Some w \<Longrightarrow>
      if a = sec_addr s then w = s \<and> sec_check_ok s else sc_get t a = Some w"
    by auto
qed

text \<open>Dropping an address is what \<open>format_sector\<close> does.\<close>

definition sc_drop :: "nat \<Rightarrow> kvdb_sec_info list \<Rightarrow> kvdb_sec_info list" where
  "sc_drop a t =
     (if a = FDB_DATA_UNUSED then t
      else sc_update ((junk_sec 0)\<lparr>sec_addr := a, sec_check_ok := False, sec_empty_kv := FAILED_ADDR\<rparr>) t)"

interpretation scc: lossy_cache sc_get sc_put sc_drop sc_ok sc_valid
proof
  fix t k v k' w
  assume h: "sc_ok t" "sc_valid k v"
  then show "sc_ok (sc_put k v t)" by (simp add: sc_put_def sc_valid_def sc_update_props)
  assume "sc_get (sc_put k v t) k' = Some w"
  then show "if k' = k then w = v else sc_get t k' = Some w"
    using h sc_update_props(2) [OF h(1), of v k' w] by (auto simp: sc_put_def sc_valid_def)
next
  fix t k k' w
  assume h: "sc_ok t"
  show "sc_ok (sc_drop k t)" using h by (simp add: sc_drop_def sc_update_props)
  assume "sc_get (sc_drop k t) k' = Some w"
  then show "k' \<noteq> k \<and> sc_get t k' = Some w"
    using h sc_update_props(2) [OF h, of "(junk_sec 0)\<lparr>sec_addr := k, sec_check_ok := False,
      sec_empty_kv := FAILED_ADDR\<rparr>" k' w]
    by (auto simp: sc_drop_def sc_get_def split: if_splits)
qed

subsection \<open>The cache of KV addresses\<close>

definition kvc_get :: "kv_cache_node list \<Rightarrow> nat \<Rightarrow> nat option" where
  "kvc_get t c =
     map_option (\<lambda>i. node_addr (t ! i))
       (List.find (\<lambda>i. node_addr (t ! i) \<noteq> FDB_DATA_UNUSED \<and> node_name_crc (t ! i) = c)
          [0..<FDB_KV_CACHE_TABLE_SIZE])"

text \<open>An entry in use is the first one of its CRC: updates change the first one.\<close>

definition kvc_ok :: "kv_cache_node list \<Rightarrow> bool" where
  "kvc_ok t \<longleftrightarrow> length t = FDB_KV_CACHE_TABLE_SIZE
   \<and> (\<forall>i j. i < j \<and> j < length t \<and> node_addr (t ! j) \<noteq> FDB_DATA_UNUSED
        \<longrightarrow> node_name_crc (t ! i) \<noteq> node_name_crc (t ! j))"

definition kvc_update :: "nat \<Rightarrow> nat \<Rightarrow> kv_cache_node list \<Rightarrow> kv_cache_node list" where
  "kvc_update c addr t =
     (let (returned, t, empty_index, min_index) =
            update_kv_cache_loop [0..<FDB_KV_CACHE_TABLE_SIZE] c addr t
              FDB_KV_CACHE_TABLE_SIZE FDB_KV_CACHE_TABLE_SIZE 0xFFFF;
          new = \<lparr>node_name_crc = c, node_active = FDB_KV_CACHE_TABLE_SIZE, node_addr = addr\<rparr>
      in if returned then t
         else if empty_index < FDB_KV_CACHE_TABLE_SIZE then t[empty_index := new]
         else if min_index < FDB_KV_CACHE_TABLE_SIZE then t[min_index := new] else t)"

lemma update_kv_cache_eq:
  "update_kv_cache db name addr
   = db\<lparr>kv_cache_table := kvc_update (kv_name_crc name) addr (kv_cache_table db)\<rparr>"
  by (simp add: update_kv_cache_def kvc_update_def Let_def split: prod.split)

text \<open>Two tables that differ in the activity counters only.\<close>

definition kvc_sim :: "kv_cache_node list \<Rightarrow> kv_cache_node list \<Rightarrow> bool" where
  "kvc_sim t u \<longleftrightarrow> length u = length t
   \<and> (\<forall>i < length t. node_name_crc (u ! i) = node_name_crc (t ! i) \<and> node_addr (u ! i) = node_addr (t ! i))"

lemma kvc_sim_refl [simp]: "kvc_sim t t"
  by (simp add: kvc_sim_def)

lemma kvc_sim_active: "kvc_sim t (t[i := (t ! i)\<lparr>node_active := k\<rparr>])"
  by (cases "i < length t") (simp_all add: kvc_sim_def nth_list_update list_update_beyond)

lemma kvc_get_iff:
  assumes "kvc_ok t"
  shows "kvc_get t c = Some a \<longleftrightarrow> a \<noteq> FDB_DATA_UNUSED
    \<and> (\<exists>i < FDB_KV_CACHE_TABLE_SIZE. node_name_crc (t ! i) = c \<and> node_addr (t ! i) = a)"
proof -
  have uniq: "i = j" if "i < FDB_KV_CACHE_TABLE_SIZE" "j < FDB_KV_CACHE_TABLE_SIZE"
    "node_name_crc (t ! i) = node_name_crc (t ! j)" "node_addr (t ! i) \<noteq> FDB_DATA_UNUSED"
    "node_addr (t ! j) \<noteq> FDB_DATA_UNUSED" for i j
    using assms that by (metis linorder_neqE_nat kvc_ok_def)
  have kg: "kvc_get t c = Some a \<longleftrightarrow>
      (\<exists>i. (i < FDB_KV_CACHE_TABLE_SIZE \<and> (node_addr (t ! i) \<noteq> FDB_DATA_UNUSED \<and> node_name_crc (t ! i) = c)
        \<and> (\<forall>j < i. \<not> (node_addr (t ! j) \<noteq> FDB_DATA_UNUSED \<and> node_name_crc (t ! j) = c)))
        \<and> node_addr (t ! i) = a)"
    by (auto simp: kvc_get_def find_Some_upt)
  show ?thesis unfolding kg
  proof (intro iffI conjI; elim conjE exE)
    fix i
    assume h: "a \<noteq> FDB_DATA_UNUSED" "i < FDB_KV_CACHE_TABLE_SIZE" "node_name_crc (t ! i) = c"
      "node_addr (t ! i) = a"
    have "\<not> (node_addr (t ! j) \<noteq> FDB_DATA_UNUSED \<and> node_name_crc (t ! j) = c)" if "j < i" for j
      using uniq [of j i] h that by auto
    then show "\<exists>i. (i < FDB_KV_CACHE_TABLE_SIZE \<and> (node_addr (t ! i) \<noteq> FDB_DATA_UNUSED \<and> node_name_crc (t ! i) = c)
        \<and> (\<forall>j < i. \<not> (node_addr (t ! j) \<noteq> FDB_DATA_UNUSED \<and> node_name_crc (t ! j) = c)))
        \<and> node_addr (t ! i) = a"
      using h by blast
  qed auto
qed

lemma kvc_ok_list_update:
  assumes "kvc_ok t" "i < FDB_KV_CACHE_TABLE_SIZE"
    and "\<forall>j < i. node_name_crc (t ! j) \<noteq> node_name_crc n"
    and "node_name_crc n = node_name_crc (t ! i)
      \<or> (\<forall>j < FDB_KV_CACHE_TABLE_SIZE. node_name_crc (t ! j) \<noteq> node_name_crc n)"
  shows "kvc_ok (t[i := n])"
  using assms unfolding kvc_ok_def by (auto simp: nth_list_update)

lemma kvc_ok_sim: "kvc_ok t \<Longrightarrow> kvc_sim t u \<Longrightarrow> kvc_ok u"
  by (auto simp: kvc_ok_def kvc_sim_def)

text \<open>The loop of \<open>update_kv_cache\<close> for an address, and for dropping a name.\<close>

lemma kvc_loop_put:
  assumes "addr \<noteq> FDB_DATA_UNUSED"
  shows "update_kv_cache_loop is c addr t e mi ma = (r, t', e', mi') \<Longrightarrow> set is \<subseteq> {..<length t} \<Longrightarrow>
    \<exists>u. kvc_sim t u
      \<and> (r \<longrightarrow> (\<exists>xs i ys. is = xs @ i # ys \<and> node_name_crc (t ! i) = c
            \<and> (\<forall>j \<in> set xs. node_name_crc (t ! j) \<noteq> c) \<and> t' = u[i := (u ! i)\<lparr>node_addr := addr\<rparr>]))
      \<and> (\<not> r \<longrightarrow> t' = u \<and> (\<forall>j \<in> set is. node_name_crc (t ! j) \<noteq> c))
      \<and> (e' = e \<or> e' \<in> set is) \<and> (mi' = mi \<or> mi' \<in> set is)"
proof (induction "is" arbitrary: t e mi ma)
  case (Cons i "is")
  let ?n = "t ! i"
  show ?case
  proof (cases "node_name_crc ?n = c")
    case True
    then show ?thesis using Cons.prems assms
      by (intro exI [of _ t]) (auto simp: Let_def intro!: exI [of _ "[]"])
  next
    case False
    let ?m = "if node_active ?n > 0 then ?n\<lparr>node_active := node_active ?n - 1\<rparr> else ?n"
    obtain t1 e1 mi1 ma1 where s: "update_kv_cache_loop is c addr t1 e1 mi1 ma1 = (r, t', e', mi')"
      "t1 = t \<or> t1 = t[i := ?m]" "e1 = e \<or> e1 = i" "mi1 = mi \<or> mi1 = i"
      using Cons.prems(1) False assms by (auto simp: Let_def split: if_splits)
    have m: "?m = ?n \<or> (\<exists>k. ?m = ?n\<lparr>node_active := k\<rparr>)" by auto
    have t1: "kvc_sim t t1"
      using s(2) m kvc_sim_active by (metis kvc_sim_refl list_update_id)
    have crc: "node_name_crc (t1 ! j) = node_name_crc (t ! j)" if "j \<in> set is" for j
      using t1 that Cons.prems(2) by (auto simp: kvc_sim_def)
    have "set is \<subseteq> {..<length t1}" using Cons.prems(2) t1 by (simp add: kvc_sim_def)
    from Cons.IH [OF s(1) this] obtain u where u: "kvc_sim t1 u"
      "r \<Longrightarrow> \<exists>xs i ys. is = xs @ i # ys \<and> node_name_crc (t1 ! i) = c
            \<and> (\<forall>j \<in> set xs. node_name_crc (t1 ! j) \<noteq> c) \<and> t' = u[i := (u ! i)\<lparr>node_addr := addr\<rparr>]"
      "\<not> r \<Longrightarrow> t' = u \<and> (\<forall>j \<in> set is. node_name_crc (t1 ! j) \<noteq> c)"
      "e' = e1 \<or> e' \<in> set is" "mi' = mi1 \<or> mi' \<in> set is"
      by blast
    have "kvc_sim t u" using t1 u(1) by (simp add: kvc_sim_def)
    moreover have "\<exists>xs k ys. i # is = xs @ k # ys \<and> node_name_crc (t ! k) = c
        \<and> (\<forall>j \<in> set xs. node_name_crc (t ! j) \<noteq> c) \<and> t' = u[k := (u ! k)\<lparr>node_addr := addr\<rparr>]" if r: r
    proof -
      obtain xs k ys where k: "is = xs @ k # ys" "node_name_crc (t1 ! k) = c"
        "\<forall>j \<in> set xs. node_name_crc (t1 ! j) \<noteq> c" "t' = u[k := (u ! k)\<lparr>node_addr := addr\<rparr>]"
        using u(2) [OF r] by blast
      then show ?thesis using crc False
        by (intro exI [of _ "i # xs"] exI [of _ k] exI [of _ ys]) auto
    qed
    moreover have "t' = u \<and> (\<forall>j \<in> set (i # is). node_name_crc (t ! j) \<noteq> c)" if "\<not> r"
      using u(3) [OF that] crc False by auto
    moreover have "(e' = e \<or> e' \<in> set (i # is)) \<and> (mi' = mi \<or> mi' \<in> set (i # is))"
      using u(4,5) s(3,4) by auto
    ultimately show ?thesis by blast
  qed
qed simp

lemma kvc_loop_drop:
  "update_kv_cache_loop is c FDB_DATA_UNUSED t e mi ma = (r, t', e', mi') \<Longrightarrow>
     (r \<longrightarrow> (\<exists>xs i ys. is = xs @ i # ys \<and> node_name_crc (t ! i) = c
          \<and> (\<forall>j \<in> set xs. node_name_crc (t ! j) \<noteq> c)
          \<and> t' = t[i := (t ! i)\<lparr>node_addr := FDB_DATA_UNUSED, node_active := 0\<rparr>]))
     \<and> (\<not> r \<longrightarrow> t' = t \<and> e' = e \<and> mi' = mi \<and> (\<forall>j \<in> set is. node_name_crc (t ! j) \<noteq> c))"
proof (induction "is")
  case (Cons i "is")
  show ?case
  proof (cases "node_name_crc (t ! i) = c")
    case True
    then have "r" "t' = t[i := (t ! i)\<lparr>node_addr := FDB_DATA_UNUSED, node_active := 0\<rparr>]"
      using Cons.prems by (simp_all add: Let_def)
    moreover have "i # is = [] @ i # is" by simp
    ultimately show ?thesis using True by (metis empty_iff empty_set)
  next
    case False
    then have "update_kv_cache_loop is c FDB_DATA_UNUSED t e mi ma = (r, t', e', mi')"
      using Cons.prems by (simp add: Let_def)
    note IH = Cons.IH [OF this]
    show ?thesis
    proof (cases r)
      case True
      then obtain xs k ys where "is = xs @ k # ys" "node_name_crc (t ! k) = c"
        "\<forall>j \<in> set xs. node_name_crc (t ! j) \<noteq> c"
        "t' = t[k := (t ! k)\<lparr>node_addr := FDB_DATA_UNUSED, node_active := 0\<rparr>]"
        using IH by blast
      then show ?thesis using True False
        by (intro conjI impI exI [of _ "i # xs"] exI [of _ k] exI [of _ ys]) auto
    next
      case r: False
      then show ?thesis using IH False by auto
    qed
  qed
qed simp

lemma upt_split:
  assumes "[0..<n] = xs @ i # ys"
  shows "i < n \<and> xs = [0..<i]"
proof -
  have "i \<in> set [0..<n]" unfolding assms by simp
  then have i: "i < n" by simp
  have n: "length xs < n" using arg_cong [OF assms, of length] by simp
  have "i = [0..<n] ! length xs" unfolding assms by simp
  then have "length xs = i" using n by simp
  then have "xs = take i [0..<n]" unfolding assms by simp
  then show ?thesis using i by (simp add: take_upt)
qed

text \<open>Where an update leaves its address, and what it does when it drops a name.\<close>

lemma kvc_put_cases:
  assumes "kvc_ok t" "addr \<noteq> FDB_DATA_UNUSED"
  obtains u where "kvc_sim t u" "kvc_update c addr t = u"
      "\<forall>j < FDB_KV_CACHE_TABLE_SIZE. node_name_crc (t ! j) \<noteq> c"
  | u i n where "kvc_sim t u" "i < FDB_KV_CACHE_TABLE_SIZE" "kvc_update c addr t = u[i := n]"
      "node_name_crc n = c" "node_addr n = addr" "\<forall>j < i. node_name_crc (t ! j) \<noteq> c"
      "c = node_name_crc (t ! i) \<or> (\<forall>j < FDB_KV_CACHE_TABLE_SIZE. node_name_crc (t ! j) \<noteq> c)"
proof -
  let ?is = "[0..<FDB_KV_CACHE_TABLE_SIZE]"
  obtain r t' e' mi' where l: "update_kv_cache_loop ?is c addr t
      FDB_KV_CACHE_TABLE_SIZE FDB_KV_CACHE_TABLE_SIZE 0xFFFF = (r, t', e', mi')"
    by (metis prod_cases4)
  have len: "length t = FDB_KV_CACHE_TABLE_SIZE" using assms(1) by (simp add: kvc_ok_def)
  then obtain u where u: "kvc_sim t u"
    "r \<longrightarrow> (\<exists>xs i ys. ?is = xs @ i # ys \<and> node_name_crc (t ! i) = c
       \<and> (\<forall>j \<in> set xs. node_name_crc (t ! j) \<noteq> c) \<and> t' = u[i := (u ! i)\<lparr>node_addr := addr\<rparr>])"
    "\<not> r \<longrightarrow> t' = u \<and> (\<forall>j \<in> set ?is. node_name_crc (t ! j) \<noteq> c)"
    using kvc_loop_put [OF assms(2) l] by (metis atLeast0LessThan set_upt order_refl)
  have upd: "kvc_update c addr t = (if r then t'
      else if e' < FDB_KV_CACHE_TABLE_SIZE then t'[e' := \<lparr>node_name_crc = c, node_active = FDB_KV_CACHE_TABLE_SIZE, node_addr = addr\<rparr>]
      else if mi' < FDB_KV_CACHE_TABLE_SIZE then t'[mi' := \<lparr>node_name_crc = c, node_active = FDB_KV_CACHE_TABLE_SIZE, node_addr = addr\<rparr>]
      else t')"
    by (simp add: kvc_update_def l Let_def)
  show ?thesis
  proof (cases r)
    case True
    then obtain xs i ys where i: "?is = xs @ i # ys" "node_name_crc (t ! i) = c"
      "\<forall>j \<in> set xs. node_name_crc (t ! j) \<noteq> c" "t' = u[i := (u ! i)\<lparr>node_addr := addr\<rparr>]"
      using u(2) by blast
    have il: "i < FDB_KV_CACHE_TABLE_SIZE" "xs = [0..<i]" using upt_split [OF i(1)] by simp_all
    have "node_name_crc (u ! i) = c" using u(1) i(2) il(1) len by (simp add: kvc_sim_def)
    then show ?thesis
      using True upd i il u(1) by (intro that(2) [of u i "(u ! i)\<lparr>node_addr := addr\<rparr>"]) auto
  next
    case False
    then have f: "t' = u" "\<forall>j < FDB_KV_CACHE_TABLE_SIZE. node_name_crc (t ! j) \<noteq> c" using u(3) by auto
    define n where "n = \<lparr>node_name_crc = c, node_active = FDB_KV_CACHE_TABLE_SIZE, node_addr = addr\<rparr>"
    consider "kvc_update c addr t = u" | i where "i < FDB_KV_CACHE_TABLE_SIZE" "kvc_update c addr t = u[i := n]"
      using upd False f(1) n_def by (cases "e' < FDB_KV_CACHE_TABLE_SIZE"; cases "mi' < FDB_KV_CACHE_TABLE_SIZE") auto
    then show ?thesis
    proof cases
      case 1
      then show ?thesis using u(1) f(2) by (intro that(1)) auto
    next
      case (2 i)
      then show ?thesis using u(1) f(2) by (intro that(2) [of u i n]) (auto simp: n_def)
    qed
  qed
qed

definition kvc_put :: "nat \<Rightarrow> nat \<Rightarrow> kv_cache_node list \<Rightarrow> kv_cache_node list" where
  "kvc_put c a t = kvc_update c a t"

definition kvc_drop :: "nat \<Rightarrow> kv_cache_node list \<Rightarrow> kv_cache_node list" where
  "kvc_drop c t = kvc_update c FDB_DATA_UNUSED t"

definition kvc_valid :: "nat \<Rightarrow> nat \<Rightarrow> bool" where
  "kvc_valid c a \<longleftrightarrow> a \<noteq> FDB_DATA_UNUSED"

lemma kvc_put_props:
  assumes "kvc_ok t" "addr \<noteq> FDB_DATA_UNUSED"
  shows "kvc_ok (kvc_update c addr t)
    \<and> (kvc_get (kvc_update c addr t) k = Some w \<longrightarrow> (if k = c then w = addr else kvc_get t k = Some w))"
  using assms
proof (cases rule: kvc_put_cases [where c = c])
  case (1 u)
  have ok: "kvc_ok u" using 1(1) assms(1) kvc_ok_sim by blast
  moreover have "kvc_get t k = Some w \<and> k \<noteq> c" if "kvc_get u k = Some w"
    using that 1 kvc_get_iff [OF ok, of k w] kvc_get_iff [OF assms(1), of k w] assms(1)
    by (auto simp: kvc_sim_def kvc_ok_def)
  ultimately show ?thesis using 1(2) by auto
next
  case (2 u i n)
  have oku: "kvc_ok u" using 2(1) assms(1) kvc_ok_sim by blast
  have l: "length t = FDB_KV_CACHE_TABLE_SIZE" using assms(1) by (simp add: kvc_ok_def)
  have crc: "node_name_crc (u ! j) = node_name_crc (t ! j)" "node_addr (u ! j) = node_addr (t ! j)"
    if "j < FDB_KV_CACHE_TABLE_SIZE" for j
    using 2(1) that l by (simp_all add: kvc_sim_def)
  have ok: "kvc_ok (u[i := n])"
    using oku 2(2) by (rule kvc_ok_list_update) (use 2 crc in auto)
  moreover have "if k = c then w = addr else kvc_get t k = Some w" if g: "kvc_get (u[i := n]) k = Some w"
  proof -
    obtain j where j: "w \<noteq> FDB_DATA_UNUSED" "j < FDB_KV_CACHE_TABLE_SIZE"
      "node_name_crc (u[i := n] ! j) = k" "node_addr (u[i := n] ! j) = w"
      using g kvc_get_iff [OF ok] by blast
    have ul: "length u = FDB_KV_CACHE_TABLE_SIZE" using oku by (simp add: kvc_ok_def)
    show ?thesis
    proof (cases "j = i")
      case True
      then show ?thesis using j 2(4,5) ul by simp
    next
      case False
      then have tj: "node_name_crc (t ! j) = k" "node_addr (t ! j) = w" using j crc by auto
      have "k \<noteq> c"
      proof
        assume "k = c"
        then have "\<not> j < i" using 2(6) tj by blast
        then have "i < j" using False by simp
        moreover have "node_name_crc (t ! i) = node_name_crc (t ! j)"
          using 2(7) tj \<open>k = c\<close> j(2) by auto
        ultimately show False using assms(1) j(1,2) tj(2) l unfolding kvc_ok_def by metis
      qed
      then show ?thesis using tj j(1,2) kvc_get_iff [OF assms(1), of k w] by auto
    qed
  qed
  ultimately show ?thesis using 2(3) by simp
qed

lemma kvc_drop_props:
  assumes "kvc_ok t"
  shows "kvc_ok (kvc_drop c t) \<and> (kvc_get (kvc_drop c t) k = Some w \<longrightarrow> k \<noteq> c \<and> kvc_get t k = Some w)"
proof -
  let ?is = "[0..<FDB_KV_CACHE_TABLE_SIZE]"
  obtain r t' e' mi' where l: "update_kv_cache_loop ?is c FDB_DATA_UNUSED t
      FDB_KV_CACHE_TABLE_SIZE FDB_KV_CACHE_TABLE_SIZE 0xFFFF = (r, t', e', mi')"
    by (metis prod_cases4)
  note f = kvc_loop_drop [OF l]
  have len: "length t = FDB_KV_CACHE_TABLE_SIZE" using assms by (simp add: kvc_ok_def)
  show ?thesis
  proof (cases r)
    case True
    then obtain xs i ys where x: "?is = xs @ i # ys" "node_name_crc (t ! i) = c"
      "\<forall>j \<in> set xs. node_name_crc (t ! j) \<noteq> c"
      "t' = t[i := (t ! i)\<lparr>node_addr := FDB_DATA_UNUSED, node_active := 0\<rparr>]"
      using f by blast
    define n where "n = (t ! i)\<lparr>node_addr := FDB_DATA_UNUSED, node_active := 0\<rparr>"
    note il = upt_split [OF x(1)]
    have e: "kvc_drop c t = t[i := n]"
      using True l x(4) by (simp add: kvc_drop_def kvc_update_def n_def)
    have before: "node_name_crc (t ! j) \<noteq> c" if "j < i" for j using x(3) il that by simp
    have after: "node_addr (t ! j) = FDB_DATA_UNUSED"
      if "i < j" "j < FDB_KV_CACHE_TABLE_SIZE" "node_name_crc (t ! j) = c" for j
      using assms that x(2) len unfolding kvc_ok_def by metis
    have ok: "kvc_ok (t[i := n])"
      using assms by (rule kvc_ok_list_update) (use il x(2) before in \<open>auto simp: n_def\<close>)
    have "k \<noteq> c \<and> kvc_get t k = Some w" if g: "kvc_get (t[i := n]) k = Some w"
    proof -
      obtain j where j: "w \<noteq> FDB_DATA_UNUSED" "j < FDB_KV_CACHE_TABLE_SIZE"
        "node_name_crc (t[i := n] ! j) = k" "node_addr (t[i := n] ! j) = w"
        using g kvc_get_iff [OF ok] by blast
      have ji: "j \<noteq> i" using j len by (auto simp: n_def)
      then have tj: "node_name_crc (t ! j) = k" "node_addr (t ! j) = w" using j by auto
      have "k \<noteq> c" using before [of j] after [of j] ji tj j by (metis linorder_neqE_nat)
      then show ?thesis using tj j(1,2) kvc_get_iff [OF assms, of k w] by auto
    qed
    then show ?thesis using ok e by simp
  next
    case False
    then have "t' = t" "e' = FDB_KV_CACHE_TABLE_SIZE" "mi' = FDB_KV_CACHE_TABLE_SIZE"
      "\<forall>j < FDB_KV_CACHE_TABLE_SIZE. node_name_crc (t ! j) \<noteq> c" using f by auto
    moreover from this have "kvc_drop c t = t"
      using False l by (simp add: kvc_drop_def kvc_update_def)
    ultimately show ?thesis using assms kvc_get_iff [OF assms, of k w] by auto
  qed
qed


interpretation kvc: lossy_cache kvc_get kvc_put kvc_drop kvc_ok kvc_valid
proof
  fix t k v k' w
  assume h: "kvc_ok t" "kvc_valid k v"
  then show "kvc_ok (kvc_put k v t)" by (simp add: kvc_put_def kvc_valid_def kvc_put_props)
  assume "kvc_get (kvc_put k v t) k' = Some w"
  then show "if k' = k then w = v else kvc_get t k' = Some w"
    using h kvc_put_props [OF h(1), of v k k' w] by (simp add: kvc_put_def kvc_valid_def)
qed (use kvc_drop_props in blast)+

end
