(* ===== verification/Kvdb_Sector.thy ===== *)
theory Kvdb_Sector
  imports Kvdb_Caches
begin

text \<open>
  The contents of a sector of the key-val database as a list of nodes, and the walk over it:
  \<open>get_next_kv_addr\<close> steps from a node to the next one and stops after the last, although it
  searches the flash for the magic word of a node and takes a short cut through the sector cache.
\<close>

subsection \<open>Sectors\<close>

record kv_sec =
  ks_store :: fdb_sector_store_status
  ks_dirty :: fdb_sector_dirty_status
  ks_nodes :: "kv_node list"

fun nodes_end :: "nat \<Rightarrow> kv_node list \<Rightarrow> nat" where
  "nodes_end a [] = a"
| "nodes_end a ((st, key, val) # ns) = nodes_end (a + node_size key val) ns"

fun kv_nodes :: "bytes \<Rightarrow> nat \<Rightarrow> kv_node list \<Rightarrow> bool" where
  "kv_nodes m a [] = True"
| "kv_nodes m a ((st, key, val) # ns) =
     (kv_at m a st key val \<and> kv_nodes m (a + node_size key val) ns)"

definition kv_hdr :: "bytes \<Rightarrow> nat \<Rightarrow> fdb_sector_store_status \<Rightarrow> fdb_sector_dirty_status \<Rightarrow> bool" where
  "kv_hdr m S st d \<longleftrightarrow>
     slice S 1 m = [status_byte (store_num st)] \<and> slice (S + 1) 1 m = [status_byte (dirty_num d)]
   \<and> of_le32 (slice (S + 4) 4 m) = SECTOR_MAGIC_WORD
   \<and> of_le32 (slice (S + 8) 4 m) = SECTOR_NOT_COMBINED"

text \<open>
  A sector always keeps more than \<open>FDB_SEC_REMAIN_THRESHOLD\<close> = 88 erased bytes at its end, since
  \<open>alloc_kv\<close> asks for them: so it never becomes full.
\<close>

definition kv_sector :: "bytes \<Rightarrow> nat \<Rightarrow> nat \<Rightarrow> kv_sec \<Rightarrow> bool" where
  "kv_sector m S Z s \<longleftrightarrow>
     S + Z \<le> length m \<and> kv_hdr m S (ks_store s) (ks_dirty s) \<and> kv_nodes m (S + 16) (ks_nodes s)
   \<and> nodes_end (S + 16) (ks_nodes s) + 88 < S + Z
   \<and> (\<forall>i. nodes_end (S + 16) (ks_nodes s) \<le> i \<and> i < S + Z \<longrightarrow> m ! i = FDB_BYTE_ERASED)
   \<and> ks_store s = (if ks_nodes s = [] then FDB_SECTOR_STORE_EMPTY else FDB_SECTOR_STORE_USING)"

lemma nodes_end_append [simp]: "nodes_end a (xs @ ys) = nodes_end (nodes_end a xs) ys"
  by (induction a xs rule: nodes_end.induct) auto

lemma nodes_end_ge: "a + 24 * length ns \<le> nodes_end a ns"
  by (induction a ns rule: nodes_end.induct) (auto simp: node_size_def)

lemma nodes_end_shift: "nodes_end (a + k) ns = nodes_end a ns + k"
proof (induction a ns rule: nodes_end.induct)
  case (2 a st key val ns)
  have e: "a + k + node_size key val = a + node_size key val + k" by simp
  show ?case using 2 unfolding nodes_end.simps e .
qed simp

lemma kv_nodes_append: "kv_nodes m a (xs @ ys) \<longleftrightarrow> kv_nodes m a xs \<and> kv_nodes m (nodes_end a xs) ys"
  by (induction m a xs rule: kv_nodes.induct) auto

lemma kv_nodes_cong:
  assumes "kv_nodes m a ns" "length m' = length m"
    and "\<And>i. a \<le> i \<Longrightarrow> i < nodes_end a ns \<Longrightarrow> m' ! i = m ! i"
  shows "kv_nodes m' a ns"
  using assms
proof (induction m a ns rule: kv_nodes.induct)
  case (2 m a st key val ns)
  have e: "a + node_size key val \<le> nodes_end (a + node_size key val) ns"
    using nodes_end_ge [of "a + node_size key val" ns] by linarith
  have n: "kv_at m a st key val" "kv_nodes m (a + node_size key val) ns" using "2.prems"(1) by simp_all
  have eq: "m' ! i = m ! i" if "a \<le> i" "i < nodes_end (a + node_size key val) ns" for i
    using "2.prems"(3) [of i] that by simp
  have "kv_at m' a st key val"
    using n(1) "2.prems"(2) by (rule kv_at_cong) (rule eq, use e in auto)
  moreover have "kv_nodes m' (a + node_size key val) ns"
    using n(2) "2.prems"(2) by (rule "2.IH") (rule eq, auto)
  ultimately show ?case by simp
qed simp

lemma kv_hdr_cong:
  assumes "kv_hdr m S st d" "S + 16 \<le> length m" "length m' = length m"
    and "\<And>i. S \<le> i \<Longrightarrow> i < S + 16 \<Longrightarrow> m' ! i = m ! i"
  shows "kv_hdr m' S st d"
proof -
  have "slice (S + k) n m' = slice (S + k) n m" if "k + n \<le> 16" for k n
    using assms that by (intro slice_eqI) auto
  from this [of 0 1] this [of 1 1] this [of 4 4] this [of 8 4] show ?thesis
    using assms(1) by (simp add: kv_hdr_def)
qed

lemma kv_sectorD:
  assumes "kv_sector m S Z s"
  shows "S + Z \<le> length m" "kv_hdr m S (ks_store s) (ks_dirty s)" "kv_nodes m (S + 16) (ks_nodes s)"
    "nodes_end (S + 16) (ks_nodes s) + 88 < S + Z"
    "\<And>i. nodes_end (S + 16) (ks_nodes s) \<le> i \<Longrightarrow> i < S + Z \<Longrightarrow> m ! i = FDB_BYTE_ERASED"
    "ks_store s = (if ks_nodes s = [] then FDB_SECTOR_STORE_EMPTY else FDB_SECTOR_STORE_USING)"
    "S + 16 \<le> nodes_end (S + 16) (ks_nodes s)"
proof -
  show "S + 16 \<le> nodes_end (S + 16) (ks_nodes s)"
    using nodes_end_ge [of "S + 16" "ks_nodes s"] by linarith
qed (use assms in \<open>unfold kv_sector_def, blast\<close>)+

lemma kv_sector_cong:
  assumes "kv_sector m S Z s" "length m' = length m"
    and eq: "\<And>i. S \<le> i \<Longrightarrow> i < S + Z \<Longrightarrow> m' ! i = m ! i"
  shows "kv_sector m' S Z s"
proof -
  note d = kv_sectorD [OF assms(1)]
  have "kv_hdr m' S (ks_store s) (ks_dirty s)"
    using d(2) by (rule kv_hdr_cong) (use d(1,4,7) assms(2) eq in auto)
  moreover have "kv_nodes m' (S + 16) (ks_nodes s)"
    using d(3) assms(2) by (rule kv_nodes_cong) (use d(4) eq in auto)
  moreover have "m' ! i = FDB_BYTE_ERASED" if "nodes_end (S + 16) (ks_nodes s) \<le> i" "i < S + Z" for i
    using d(5) [OF that] that d(7) eq [of i] by simp
  ultimately show ?thesis using d(1,4,6) assms(2) unfolding kv_sector_def by auto
qed

subsection \<open>What the code knows of a sector\<close>

text \<open>
  The cached dirty flag may be one step behind: \<open>do_gc\<close> marks the sector it collects on flash only.
\<close>

definition sec_view :: "nat \<Rightarrow> kv_sec \<Rightarrow> kvdb_sec_info \<Rightarrow> bool" where
  "sec_view S s c \<longleftrightarrow>
     sec_check_ok c \<and> sec_addr c = S \<and> sec_store c = ks_store s
   \<and> (sec_dirty c = ks_dirty s
      \<or> ks_dirty s = FDB_SECTOR_DIRTY_GC \<and> sec_dirty c = FDB_SECTOR_DIRTY_TRUE)
   \<and> sec_combined c = SECTOR_NOT_COMBINED"

definition sec_room :: "nat \<Rightarrow> nat \<Rightarrow> kv_sec \<Rightarrow> kvdb_sec_info \<Rightarrow> bool" where
  "sec_room S Z s c \<longleftrightarrow>
     sec_empty_kv c = nodes_end (S + 16) (ks_nodes s)
   \<and> sec_remain c = S + Z - nodes_end (S + 16) (ks_nodes s)"

text \<open>An entry of the sector cache: the room may not have been counted yet.\<close>

definition sec_cached :: "nat \<Rightarrow> nat \<Rightarrow> kv_sec \<Rightarrow> kvdb_sec_info \<Rightarrow> bool" where
  "sec_cached S Z s c \<longleftrightarrow> sec_view S s c \<and> (sec_empty_kv c = FAILED_ADDR \<or> sec_room S Z s c)"

subsection \<open>The next node\<close>

lemma takeWhile_window:
  assumes "start + 32 < e" "e < 2147483648"
  shows "takeWhile (\<lambda>i. u32 (start + i) < e) [0..<28] = [0..<28]"
proof -
  have "u32 (start + i) < e" if "i < 28" for i
    using assms that by (subst u32_id) auto
  then show ?thesis by (subst takeWhile_eq_all_conv) simp
qed

lemma kv_at_magic:
  assumes "kv_at m a st key val"
  shows "of_le32 (slice (a + 4) 4 m) = KV_MAGIC_WORD"
proof -
  have "slice (a + 4) 4 m = take 4 (slice (a + 4) 20 m)" by (simp add: slice_def)
  also have "\<dots> = take 4 (slice 4 20 (kv_hdr_image key val))" using assms by (simp only: kv_at_def)
  also have "\<dots> = le32 KV_MAGIC_WORD" by (simp add: slice_def kv_hdr_image_def)
  finally show ?thesis by (simp add: of_le32_le32 u32_def fdb_const)
qed

lemma find_next_at_node:
  assumes "kv_ok db" "kv_at (kv_img db) start st key val" "length buf = 32" "4 \<le> start"
    and "start + 32 < e" "e \<le> length (kv_img db)"
  shows "find_next_kv_loop db start buf start e = Some start"
proof -
  let ?m = "kv_img db" let ?b = "slice start 32 ?m"
  note bound = kvf.img_bound [OF assms(1)]
  have u: "u32 (start + 32) = start + 32" "u32 (start + 4) = start + 4"
    using assms bound by (auto intro!: u32_id)
  have rd: "kv_flash_read db start buf = Some (FDB_NO_ERR, ?b)"
    using assms by (simp add: kvf.rd_in)
  have hit: "kv_magic_hit ?b start start 4"
  proof -
    have "kv_magic_at ?b 4 = KV_MAGIC_WORD"
      using kv_at_magic [OF assms(2)] by (simp add: kv_magic_at_def slice_slice)
    moreover have "u32_sub (start + 4) 4 = start"
      using assms bound by (subst u32_sub_id) auto
    ultimately show ?thesis by (simp add: kv_magic_hit_def u KV_MAGIC_OFFSET_def)
  qed
  have miss: "\<not> kv_magic_hit ?b start start j" if "j < 4" for j
  proof -
    have "u32 (start + j) = start + j" using that assms bound by (intro u32_id) linarith
    moreover have "u32_sub (start + j) 4 = start + j - 4"
      using that assms bound by (intro u32_sub_id) linarith+
    moreover have "\<not> start \<le> start + j - 4" using that assms(4) by linarith
    ultimately show ?thesis by (simp add: kv_magic_hit_def KV_MAGIC_OFFSET_def)
  qed
  have f: "List.find (kv_magic_hit ?b start start) [0..<28] = Some 4"
    unfolding find_Some_upt using hit miss by simp
  have w: "takeWhile (\<lambda>i. u32 (start + i) < e) [0..<28] = [0..<28]"
    using assms bound by (intro takeWhile_window) linarith+
  have "u32_sub (start + 4) KV_MAGIC_OFFSET = start"
    using assms bound by (subst u32_sub_id) (auto simp: KV_MAGIC_OFFSET_def)
  then show ?thesis
    using assms(5) by (subst find_next_kv_loop.simps) (simp add: u rd f w)
qed

lemma find_next_in_erased:
  assumes "kv_ok db" "e \<le> length (kv_img db)"
  shows "length buf = 32 \<Longrightarrow> (\<And>i. start \<le> i \<Longrightarrow> i < e \<Longrightarrow> kv_img db ! i = FDB_BYTE_ERASED) \<Longrightarrow>
    find_next_kv_loop db start_bak buf start e = Some FAILED_ADDR"
proof (induction "e - start" arbitrary: start buf rule: less_induct)
  case less
  let ?m = "kv_img db"
  note bound = kvf.img_bound [OF assms(1)]
  show ?case
  proof (cases "start + 32 < e")
    case False
    have "\<not> (start < e \<and> u32 (start + 32) < e)"
      using False assms(2) bound by (auto simp: u32_id)
    then show ?thesis by (subst find_next_kv_loop.simps) (simp del: de_Morgan_conj)
  next
    case True
    have u: "u32 (start + 32) = start + 32" "u32 (start + 28) = start + 28"
      using True assms(2) bound by (auto intro!: u32_id)
    have b: "slice start 32 ?m = replicate 32 FDB_BYTE_ERASED"
      using less.prems(2) True assms(2) by (intro nth_equalityI) (auto simp: nth_slice)
    have rd: "kv_flash_read db start buf = Some (FDB_NO_ERR, replicate 32 FDB_BYTE_ERASED)"
      using assms less.prems(1) True b by (simp add: kvf.rd_in)
    have "kv_magic_at (replicate 32 FDB_BYTE_ERASED) i = 0xFFFFFFFF" if "i < 28" for i
    proof -
      have "slice i 4 (replicate 32 FDB_BYTE_ERASED) = replicate 4 FDB_BYTE_ERASED"
        using that by (simp add: slice_def)
      then show ?thesis by (simp add: kv_magic_at_def of_le32_def FDB_BYTE_ERASED_def)
    qed
    then have f: "List.find (kv_magic_hit (replicate 32 FDB_BYTE_ERASED) start_bak start) [0..<28] = None"
      unfolding find_None_upt by (simp add: kv_magic_hit_def KV_MAGIC_WORD_def)
    have w: "takeWhile (\<lambda>i. u32 (start + i) < e) [0..<28] = [0..<28]"
      using True assms bound by (intro takeWhile_window) linarith+
    have "find_next_kv_loop db start_bak (replicate 32 FDB_BYTE_ERASED) (start + 28) e
        = Some FAILED_ADDR"
      using True less.prems by (intro less.hyps) auto
    then show ?thesis
      using True by (subst find_next_kv_loop.simps) (simp add: u rd f w)
  qed
qed

text \<open>What a walk needs to know of the sector cache: no entry hides a node.\<close>

definition sc_fits :: "fdb_kvdb \<Rightarrow> nat \<Rightarrow> kv_sec \<Rightarrow> bool" where
  "sc_fits db S s \<longleftrightarrow>
     (\<forall>c. sc_get (kv_sector_cache_table db) S = Some c \<longrightarrow> sec_cached S (kvdb_sec_size db) s c)"

lemma align_down_in:
  assumes "S = k * Z" "S \<le> a" "a < S + Z"
  shows "FDB_ALIGN_DOWN a Z = S"
proof -
  have "a div Z = k" using assms by (metis add.commute div_nat_eqI mult.commute mult_Suc)
  then show ?thesis using assms(1) by (simp add: FDB_ALIGN_DOWN_def)
qed

lemma find_next_kv_addr_eq:
  assumes "kv_ok db" "kv_sector (kv_img db) S (kvdb_sec_size db) s" "S = k * kvdb_sec_size db"
    and "sc_fits db S s" "ks_nodes s = xs @ ys" "a = nodes_end (S + 16) xs"
    and "e = S + kvdb_sec_size db - 16"
  shows "find_next_kv_addr db a e = Some (if ys = [] then FAILED_ADDR else a)"
proof -
  let ?m = "kv_img db" let ?Z = "kvdb_sec_size db"
  note bound = kvf.img_bound [OF assms(1)]
  have s: "S + ?Z \<le> length ?m" "kv_nodes ?m a ys" "nodes_end a ys + 88 < S + ?Z"
    "\<And>i. nodes_end a ys \<le> i \<Longrightarrow> i < S + ?Z \<Longrightarrow> ?m ! i = FDB_BYTE_ERASED"
    using assms(2,5,6) by (simp_all add: kv_sector_def kv_nodes_append)
  have a: "S + 16 \<le> a" "a + 24 * length ys \<le> nodes_end a ys"
    using nodes_end_ge [of "S + 16" xs] nodes_end_ge [of a ys] assms(6) by linarith+
  have nf: "S \<noteq> FDB_DATA_UNUSED" "a \<noteq> FAILED_ADDR"
    using s bound a by (auto simp: fdb_const)
  have down: "FDB_ALIGN_DOWN a ?Z = S"
    using assms(3) a s(3) by (intro align_down_in [of S k]) linarith+
  have scan: "find_next_kv_loop db a (replicate 32 (kvdb_stk db)) a e = Some (if ys = [] then FAILED_ADDR else a)"
  proof (cases ys)
    case Nil
    have "find_next_kv_loop db a (replicate 32 (kvdb_stk db)) a e = Some FAILED_ADDR"
      using assms(1) s(1) assms(7) s(4) Nil by (intro find_next_in_erased) auto
    then show ?thesis using Nil by simp
  next
    case (Cons n ns)
    obtain st key val where n: "n = (st, key, val)" by (metis prod_cases3)
    have "find_next_kv_loop db a (replicate 32 (kvdb_stk db)) a e = Some a"
      using assms(1,7) s a Cons n by (intro find_next_at_node [of _ _ st key val]) auto
    then show ?thesis using Cons by simp
  qed
  show ?thesis
  proof (cases "get_sector_from_cache db S")
    case None
    then show ?thesis using scan by (simp add: find_next_kv_addr_def down)
  next
    case (Some i)
    let ?c = "kv_sector_cache_table db ! i"
    have "sc_get (kv_sector_cache_table db) S = Some ?c"
      using Some nf(1) by (simp add: get_sector_from_cache_get)
    then have c: "sec_empty_kv ?c = FAILED_ADDR \<or> sec_empty_kv ?c = nodes_end a ys"
      using assms(4-6) by (auto simp: sc_fits_def sec_cached_def sec_room_def)
    show ?thesis
    proof (cases "a = sec_empty_kv ?c")
      case True
      then have "ys = []" using c nf(2) a(2) by auto
      then show ?thesis unfolding find_next_kv_addr_def down Some using True by simp
    next
      case False
      then show ?thesis using Some scan by (simp add: find_next_kv_addr_def down)
    qed
  qed
qed

lemma get_next_kv_addr_eq:
  assumes "kv_ok db" "kv_sector (kv_img db) S (kvdb_sec_size db) s" "S = k * kvdb_sec_size db"
    and "sc_fits db S s" "ks_nodes s = xs @ (st, key, val) # ys"
    and "sec_addr c = S" "sec_store c = ks_store s"
  shows "get_next_kv_addr db c (node_kv kv (nodes_end (S + 16) xs) st key val)
    = Some (if ys = [] then FAILED_ADDR else nodes_end (S + 16) (xs @ [(st, key, val)]))"
proof -
  let ?m = "kv_img db" let ?Z = "kvdb_sec_size db" let ?a = "nodes_end (S + 16) xs"
  note bound = kvf.img_bound [OF assms(1)]
  have s: "S + ?Z \<le> length ?m" "nodes_end (?a + node_size key val) ys + 88 < S + ?Z"
    "ks_store s \<noteq> FDB_SECTOR_STORE_EMPTY"
    using assms(2,5) by (simp_all add: kv_sector_def)
  have a: "S + 16 \<le> ?a" "?a + node_size key val \<le> nodes_end (?a + node_size key val) ys"
    using nodes_end_ge [of "S + 16" xs] nodes_end_ge [of "?a + node_size key val" ys] by linarith+
  have u: "u32 (S + ?Z) = S + ?Z" "u32 (?a + node_size key val) = ?a + node_size key val"
    "u32_sub (S + ?Z) 16 = S + ?Z - 16"
    using s a bound by (auto intro!: u32_id u32_sub_id)
  have nf: "?a \<noteq> FAILED_ADDR" "node_size key val \<noteq> 0" "?a \<le> S + ?Z"
    "?a + node_size key val \<noteq> FAILED_ADDR" "?a + node_size key val \<le> S + ?Z"
    using s a bound by (auto simp: fdb_const node_size_def)
  have "find_next_kv_addr db (?a + node_size key val) (S + ?Z - 16)
      = Some (if ys = [] then FAILED_ADDR else ?a + node_size key val)"
    using assms by (intro find_next_kv_addr_eq [of _ S s k "xs @ [(st, key, val)]" ys]) auto
  then show ?thesis
    using assms(6,7) s(3) nf u
    by (simp add: get_next_kv_addr_def SECTOR_HDR_DATA_SIZE_def)
qed

end
