(* ===== verification/Kvdb_Walk.thy ===== *)
theory Kvdb_Walk
  imports Kvdb_Sector
begin

text \<open>
  The memory of a key-value database: one list of nodes for each sector of its flash (\<open>kv_mem\<close>),
  with a sector cache that agrees with it. \<open>read_sector_info\<close> reports what the flash holds,
  whether it answers from the cache or counts the nodes, and the walks over the sectors
  (\<open>sector_iterator\<close>) get a rule in the style of a loop invariant.
\<close>

subsection \<open>The memory of a database\<close>

definition kv_flash :: "fdb_kvdb \<Rightarrow> kv_sec list \<Rightarrow> bool" where
  "kv_flash db D \<longleftrightarrow>
     kv_ok db \<and> 0 < kvdb_sec_size db \<and> 2 \<le> length D
   \<and> kvdb_max_size db = length D * kvdb_sec_size db \<and> kvdb_max_size db \<le> length (kv_img db)
   \<and> (\<forall>k < length D. kv_sector (kv_img db) (k * kvdb_sec_size db) (kvdb_sec_size db) (D ! k))
   \<and> (\<exists>k < length D. kvdb_oldest_addr db = k * kvdb_sec_size db)"

definition sc_agrees :: "nat \<Rightarrow> kv_sec list \<Rightarrow> kvdb_sec_info list \<Rightarrow> bool" where
  "sc_agrees Z D t \<longleftrightarrow>
     scc.coherent (\<lambda>a c. \<exists>k < length D. a = k * Z \<and> sec_cached a Z (D ! k) c) t"

definition kv_mem :: "fdb_kvdb \<Rightarrow> kv_sec list \<Rightarrow> bool" where
  "kv_mem db D \<longleftrightarrow> kv_flash db D \<and> sc_agrees (kvdb_sec_size db) D (kv_sector_cache_table db)"

lemma kv_flashD:
  assumes "kv_flash db D"
  shows "kv_ok db" "0 < kvdb_sec_size db" "2 \<le> length D"
    "kvdb_max_size db = length D * kvdb_sec_size db" "kvdb_max_size db \<le> length (kv_img db)"
    "\<And>k. k < length D \<Longrightarrow> kv_sector (kv_img db) (k * kvdb_sec_size db) (kvdb_sec_size db) (D ! k)"
    "\<exists>k < length D. kvdb_oldest_addr db = k * kvdb_sec_size db" "kvdb_max_size db < 2147483648"
  using assms kvf.img_bound [of db] unfolding kv_flash_def by (blast, blast, blast, blast, blast, blast, blast, linarith)

lemma kv_memD:
  assumes "kv_mem db D"
  shows "kv_ok db" "0 < kvdb_sec_size db" "2 \<le> length D"
    "kvdb_max_size db = length D * kvdb_sec_size db" "kvdb_max_size db \<le> length (kv_img db)"
    "\<And>k. k < length D \<Longrightarrow> kv_sector (kv_img db) (k * kvdb_sec_size db) (kvdb_sec_size db) (D ! k)"
    "\<exists>k < length D. kvdb_oldest_addr db = k * kvdb_sec_size db" "kvdb_max_size db < 2147483648"
    "sc_agrees (kvdb_sec_size db) D (kv_sector_cache_table db)"
  using assms kv_flashD [of db D] unfolding kv_mem_def by blast+

lemma kv_flash_sc [simp]: "kv_flash (db\<lparr>kv_sector_cache_table := t\<rparr>) D = kv_flash db D"
  by (simp add: kv_flash_def kv_ok_def kv_img_def)

lemma kv_mem_sc: "kv_mem db D \<Longrightarrow> sc_agrees (kvdb_sec_size db) D t \<Longrightarrow> kv_mem (db\<lparr>kv_sector_cache_table := t\<rparr>) D"
  by (simp add: kv_mem_def)

lemma mult_le_less: "Suc k \<le> n \<Longrightarrow> k * Z + Z \<le> n * (Z :: nat)"
  using mult_le_mono1 [of "Suc k" n Z] by simp

lemma sector_addr:
  assumes "kv_mem db D" "k < length D"
  shows "k * kvdb_sec_size db + kvdb_sec_size db \<le> kvdb_max_size db"
    "k * kvdb_sec_size db + kvdb_sec_size db < 2147483648"
    "k * kvdb_sec_size db \<noteq> FDB_DATA_UNUSED" "k * kvdb_sec_size db mod kvdb_sec_size db = 0"
    "FDB_ALIGN_DOWN (k * kvdb_sec_size db) (kvdb_sec_size db) = k * kvdb_sec_size db"
proof -
  show a: "k * kvdb_sec_size db + kvdb_sec_size db \<le> kvdb_max_size db"
    using mult_le_less [of k "length D" "kvdb_sec_size db"] assms(2) kv_memD(4) [OF assms(1)] by simp
  then show "k * kvdb_sec_size db + kvdb_sec_size db < 2147483648"
    using kv_memD(8) [OF assms(1)] by linarith
  then show "k * kvdb_sec_size db \<noteq> FDB_DATA_UNUSED" by (simp add: fdb_const)
qed (use kv_memD(2) [OF assms(1)] in \<open>simp_all add: FDB_ALIGN_DOWN_def\<close>)

lemma sc_agrees_fits:
  assumes "kv_mem db D" "k < length D"
  shows "sc_fits db (k * kvdb_sec_size db) (D ! k)"
  unfolding sc_fits_def
proof (intro allI impI)
  fix c
  assume "sc_get (kv_sector_cache_table db) (k * kvdb_sec_size db) = Some c"
  then obtain k' where "k' < length D" "k * kvdb_sec_size db = k' * kvdb_sec_size db"
    "sec_cached (k * kvdb_sec_size db) (kvdb_sec_size db) (D ! k') c"
    using scc.coherentD kv_memD(9) [OF assms(1)] unfolding sc_agrees_def by blast
  then show "sec_cached (k * kvdb_sec_size db) (kvdb_sec_size db) (D ! k) c"
    using kv_memD(2) [OF assms(1)] by simp
qed

lemma sc_agrees_put:
  assumes "sc_agrees Z D t" "k < length D" "sec_cached (k * Z) Z (D ! k) c" "k * Z \<noteq> FDB_DATA_UNUSED"
  shows "sc_agrees Z D (sc_update c t)"
proof -
  have a: "sec_addr c = k * Z" "sec_check_ok c" using assms(3) by (auto simp: sec_cached_def sec_view_def)
  have "sc_agrees Z D (sc_put (k * Z) c t)"
    using assms a unfolding sc_agrees_def
    by (intro scc.coherent_put [where R = "\<lambda>a c. \<exists>k < length D. a = k * Z \<and> sec_cached a Z (D ! k) c"])
      (auto simp: sc_valid_def)
  then show ?thesis by (simp add: sc_put_def)
qed

subsection \<open>Counting the nodes of a sector\<close>

lemma sector_kvs_loop_eq:
  assumes "kv_ok db" "kv_sector (kv_img db) S (kvdb_sec_size db) s" "S = k * kvdb_sec_size db"
    and "sc_fits db S s" "kvdb_sec_size db \<le> kvdb_max_size db"
    and "sec_addr c = S" "sec_store c = ks_store s"
  shows "ks_nodes s = xs @ ns \<Longrightarrow> ns \<noteq> [] \<Longrightarrow> a = nodes_end (S + 16) xs \<Longrightarrow>
    length (kv_name kv) = FDB_KV_NAME_MAX \<Longrightarrow> kv_addr_start kv = a \<Longrightarrow>
    sector_kvs_loop db (c\<lparr>sec_empty_kv := a, sec_remain := S + kvdb_sec_size db - a\<rparr>) kv
    = Some (FDB_NO_ERR, c\<lparr>sec_empty_kv := nodes_end a ns,
        sec_remain := S + kvdb_sec_size db - nodes_end a ns\<rparr>, db)"
proof (induction ns arbitrary: xs a kv)
  case (Cons n ns)
  obtain st key val where n: "n = (st, key, val)" by (metis prod_cases3)
  let ?m = "kv_img db" let ?Z = "kvdb_sec_size db" let ?a' = "a + node_size key val"
  note bound = kvf.img_bound [OF assms(1)] and d = kv_sectorD [OF assms(2)]
  have e: "?a' \<le> nodes_end ?a' ns" "S + 16 \<le> a"
    using nodes_end_ge [of ?a' ns] nodes_end_ge [of "S + 16" xs] Cons.prems(3) by linarith+
  have ed: "nodes_end ?a' ns + 88 < S + ?Z" using d(4) Cons.prems n by simp
  have at: "kv_at ?m a st key val"
    using d(3) Cons.prems n by (simp add: kv_nodes_append)
  have rd: "read_kv db kv = Some (FDB_NO_ERR, node_kv kv a st key val, db)"
    using assms(1) at Cons.prems(5) _ Cons.prems(4)
    by (rule read_kv_node) (use e ed assms(5) in linarith)
  have u: "u32 (a + node_size key val) = ?a'"
    using e ed d(1) bound by (intro u32_id) linarith
  have u2: "u32_sub (S + ?Z - a) (node_size key val) = S + ?Z - ?a'"
    using e ed d(1) bound by (subst u32_sub_id) linarith+
  let ?c = "c\<lparr>sec_empty_kv := ?a', sec_remain := S + ?Z - ?a'\<rparr>"
  have nx: "get_next_kv_addr db ?c (node_kv kv a st key val)
      = Some (if ns = [] then FAILED_ADDR else ?a')"
    using assms(1-4) Cons.prems(1,3) n assms(6,7)
    by (subst Cons.prems(3), subst get_next_kv_addr_eq [where s = s and S = S and xs = xs and ys = ns]) auto
  have step: "sector_kvs_loop db (c\<lparr>sec_empty_kv := a, sec_remain := S + ?Z - a\<rparr>) kv
      = (if ns = [] then Some (FDB_NO_ERR, ?c, db)
         else sector_kvs_loop db ?c ((node_kv kv a st key val)\<lparr>kv_addr_start := ?a'\<rparr>))"
  proof -
    have "?a' \<noteq> FAILED_ADDR" using e ed d(1) bound by (simp add: fdb_const)
    then show ?thesis
      by (subst sector_kvs_loop.simps) (simp add: rd u u2 nx Let_def)
  qed
  show ?case
  proof (cases "ns = []")
    case True
    then show ?thesis using step n by simp
  next
    case False
    have "length (kv_name ((node_kv kv a st key val)\<lparr>kv_addr_start := ?a'\<rparr>)) = FDB_KV_NAME_MAX"
      using node_kv_name(1) [OF Cons.prems(4)] at by (simp add: kv_at_def)
    then have "sector_kvs_loop db ?c ((node_kv kv a st key val)\<lparr>kv_addr_start := ?a'\<rparr>)
      = Some (FDB_NO_ERR, c\<lparr>sec_empty_kv := nodes_end ?a' ns, sec_remain := S + ?Z - nodes_end ?a' ns\<rparr>, db)"
      using Cons.prems n False by (intro Cons.IH [of "xs @ [n]"]) auto
    then show ?thesis using step n False by simp
  qed
qed simp

lemma erased_tail_all:
  assumes "start \<le> e" "e \<le> length m" "\<And>i. start \<le> i \<Longrightarrow> i < e \<Longrightarrow> m ! i = FDB_BYTE_ERASED"
  shows "erased_tail m start e = start"
proof -
  note spec = erased_tail_spec [OF assms(1,2)]
  show ?thesis
  proof (rule ccontr)
    assume "erased_tail m start e \<noteq> start"
    then have "start < erased_tail m start e" using spec(1) by linarith
    then show False using spec(1) spec(3) assms(3) [of "erased_tail m start e - 1"] by fastforce
  qed
qed

lemma junk_kv_name: "length (kv_name (junk_kv b)) = FDB_KV_NAME_MAX"
  by (simp add: junk_kv_def Let_def)

lemma sector_traverse_eq:
  assumes "kv_mem db D" "k < length D" "S = k * kvdb_sec_size db"
    and "sec_addr c = S" "sec_store c = ks_store (D ! k)"
  shows "sector_traverse db c = Some (FDB_NO_ERR,
    c\<lparr>sec_empty_kv := nodes_end (S + 16) (ks_nodes (D ! k)),
      sec_remain := S + kvdb_sec_size db - nodes_end (S + 16) (ks_nodes (D ! k))\<rparr>, db)"
proof -
  let ?Z = "kvdb_sec_size db" let ?ns = "ks_nodes (D ! k)" let ?e = "nodes_end (S + 16) ?ns"
  note m = kv_memD [OF assms(1)] and a = sector_addr [OF assms(1,2)]
  note d = kv_sectorD [OF m(6) [OF assms(2)], folded assms(3)]
  have u: "u32 (S + SECTOR_HDR_DATA_SIZE) = S + 16" "u32_sub ?Z SECTOR_HDR_DATA_SIZE = ?Z - 16"
    "u32 (S + ?Z) = S + ?Z"
    using a(2) d(4,7) assms(3) by (auto intro!: u32_id u32_sub_id simp: SECTOR_HDR_DATA_SIZE_def)
  show ?thesis
  proof (cases "?ns = []")
    case True
    then have "sec_store c = FDB_SECTOR_STORE_EMPTY" using assms(5) d(6) by simp
    then show ?thesis using True assms(4) by (simp add: sector_traverse_def u Let_def)
  next
    case False
    then have us: "sec_store c = FDB_SECTOR_STORE_USING" using assms(5) d(6) by simp
    let ?c = "c\<lparr>sec_empty_kv := S + 16, sec_remain := S + ?Z - (S + 16)\<rparr>"
    have r: "S + ?Z - (S + 16) = ?Z - 16" by simp
    have l: "sector_kvs_loop db ?c ((junk_kv (kvdb_stk db))\<lparr>kv_addr_start := S + 16\<rparr>)
      = Some (FDB_NO_ERR, c\<lparr>sec_empty_kv := ?e, sec_remain := S + ?Z - ?e\<rparr>, db)"
    proof (rule sector_kvs_loop_eq [where s = "D ! k" and k = k and xs = "[]"])
      show "sc_fits db S (D ! k)" using sc_agrees_fits [OF assms(1,2)] assms(3) by simp
      show "kvdb_sec_size db \<le> kvdb_max_size db" using a(1) by simp
    qed (use m(1) m(6) [OF assms(2)] assms(3-5) False in \<open>auto simp: junk_kv_name\<close>)
    have t: "fdb_continue_ff_addr (kv_parent db) ?e (S + ?Z) = Some ?e"
    proof -
      have "?e < S + ?Z" "S + ?Z \<le> length (kv_img db)" using d(1,4) by simp_all
      moreover from this have "erased_tail (kv_img db) ?e (S + ?Z) = ?e"
        using d(5) by (intro erased_tail_all) auto
      ultimately show ?thesis
        using continue_ff_tail [of "kv_parent db" "S + ?Z" ?e] m(1) by (simp add: kv_ok_def kv_img_def)
    qed
    show ?thesis using us l [unfolded r] t assms(4)
      by (simp add: sector_traverse_def u Let_def)
  qed
qed

subsection \<open>Reading a sector\<close>

lemma status_byte_of:
  "store_of (fdb_get_status FDB_WRITE_GRAN [status_byte (store_num st)] FDB_SECTOR_STORE_STATUS_NUM) = st"
  "dirty_of (fdb_get_status FDB_WRITE_GRAN [status_byte (dirty_num d)] FDB_SECTOR_DIRTY_STATUS_NUM) = d"
  "kv_status_of (fdb_get_status FDB_WRITE_GRAN [status_byte (kv_status_num ks)] FDB_KV_STATUS_NUM) = ks"
  unfolding status_byte_def by (subst get_status_1; simp)+

lemma read_sector_hdr_eq:
  assumes "kv_mem db D" "k < length D" "S = k * kvdb_sec_size db"
  shows "\<exists>c t. read_sector_hdr db S sec trav = Some (FDB_NO_ERR, c, db\<lparr>kv_sector_cache_table := t\<rparr>)
    \<and> sc_agrees (kvdb_sec_size db) D t \<and> sec_view S (D ! k) c
    \<and> (trav \<longrightarrow> sec_room S (kvdb_sec_size db) (D ! k) c)"
proof -
  let ?Z = "kvdb_sec_size db" let ?m = "kv_img db" let ?hdr = "slice S 16 ?m"
  note m = kv_memD [OF assms(1)] and a = sector_addr [OF assms(1,2), folded assms(3)]
  note d = kv_sectorD [OF m(6) [OF assms(2)], folded assms(3)]
  have rd: "kv_flash_read db S (replicate SECTOR_HDR_DATA_SIZE 0) = Some (FDB_NO_ERR, ?hdr)"
    using m(1) d(1,4,7) by (simp add: kvf.rd_in SECTOR_HDR_DATA_SIZE_def)
  have h: "slice 0 1 ?hdr = [status_byte (store_num (ks_store (D ! k)))]"
    "slice 1 1 ?hdr = [status_byte (dirty_num (ks_dirty (D ! k)))]"
    "of_le32 (slice 4 4 ?hdr) = SECTOR_MAGIC_WORD" "of_le32 (slice 8 4 ?hdr) = SECTOR_NOT_COMBINED"
    using d(2) by (simp_all add: kv_hdr_def slice_slice)
  note h = h h(1,2) [unfolded One_nat_def]
  let ?c = "sec\<lparr>sec_addr := S, sec_magic := SECTOR_MAGIC_WORD, sec_check_ok := True,
    sec_combined := SECTOR_NOT_COMBINED, sec_store := ks_store (D ! k), sec_dirty := ks_dirty (D ! k)\<rparr>"
  have v: "sec_view S (D ! k) (?c\<lparr>sec_empty_kv := x, sec_remain := y\<rparr>)" for x y
    by (simp add: sec_view_def)
  show ?thesis
  proof (cases trav)
    case True
    let ?c' = "?c\<lparr>sec_empty_kv := nodes_end (S + 16) (ks_nodes (D ! k)),
      sec_remain := S + ?Z - nodes_end (S + 16) (ks_nodes (D ! k))\<rparr>"
    have t: "sector_traverse db ?c = Some (FDB_NO_ERR, ?c', db)"
      using assms by (intro sector_traverse_eq) auto
    have r: "sec_room S ?Z (D ! k) ?c'" by (simp add: sec_room_def)
    have "sc_agrees ?Z D (sc_update ?c' (kv_sector_cache_table db))"
      using m(9) assms(2)
      by (rule sc_agrees_put) (use v r a(3) assms(3) in \<open>auto simp: sec_cached_def\<close>)
    moreover have "read_sector_hdr db S sec trav
        = Some (FDB_NO_ERR, ?c', db\<lparr>kv_sector_cache_table := sc_update ?c' (kv_sector_cache_table db)\<rparr>)"
      unfolding read_sector_hdr_def rd Let_def using True t
      by (simp add: h status_byte_of SECTOR_STORE_OFFSET_def SECTOR_DIRTY_OFFSET_def update_sector_cache_eq)
    ultimately show ?thesis using v r by blast
  next
    case False
    show ?thesis
    proof (cases "get_sector_from_cache db S")
      case None
      let ?c' = "?c\<lparr>sec_empty_kv := FAILED_ADDR, sec_remain := 0\<rparr>"
      have "sc_agrees ?Z D (sc_update ?c' (kv_sector_cache_table db))"
        using m(9) assms(2)
        by (rule sc_agrees_put) (use v a(3) assms(3) in \<open>auto simp: sec_cached_def\<close>)
      moreover have "read_sector_hdr db S sec trav
          = Some (FDB_NO_ERR, ?c', db\<lparr>kv_sector_cache_table := sc_update ?c' (kv_sector_cache_table db)\<rparr>)"
        unfolding read_sector_hdr_def rd Let_def using False None
        by (simp add: h status_byte_of SECTOR_STORE_OFFSET_def SECTOR_DIRTY_OFFSET_def update_sector_cache_eq)
      ultimately show ?thesis using v False by blast
    next
      case (Some i)
      have "read_sector_hdr db S sec trav = Some (FDB_NO_ERR, ?c, db)"
        unfolding read_sector_hdr_def rd Let_def using False Some
        by (simp add: h status_byte_of SECTOR_STORE_OFFSET_def SECTOR_DIRTY_OFFSET_def)
      moreover have "sec_view S (D ! k) ?c" by (simp add: sec_view_def)
      ultimately show ?thesis using False m(9)
        by (intro exI [of _ ?c] exI [of _ "kv_sector_cache_table db"]) simp
    qed
  qed
qed

lemma read_sector_info_eq:
  assumes "kv_mem db D" "k < length D" "S = k * kvdb_sec_size db"
  shows "\<exists>c t. read_sector_info db S sec trav = Some (FDB_NO_ERR, c, db\<lparr>kv_sector_cache_table := t\<rparr>)
    \<and> sc_agrees (kvdb_sec_size db) D t \<and> sec_view S (D ! k) c
    \<and> (trav \<longrightarrow> sec_room S (kvdb_sec_size db) (D ! k) c)"
proof -
  note m = kv_memD [OF assms(1)] and a = sector_addr [OF assms(1,2), folded assms(3)]
  have g: "\<not> (kvdb_sec_size db = 0 \<or> S mod kvdb_sec_size db \<noteq> 0)" using m(2) a(4) by simp
  note hdr = read_sector_hdr_eq [OF assms, of sec trav]
  show ?thesis
  proof (cases "get_sector_from_cache db S")
    case None
    then show ?thesis using g hdr by (simp add: read_sector_info_def)
  next
    case (Some i)
    let ?c = "kv_sector_cache_table db ! i"
    have "sc_get (kv_sector_cache_table db) S = Some ?c"
      using Some a(3) by (simp add: get_sector_from_cache_get)
    then have c: "sec_cached S (kvdb_sec_size db) (D ! k) ?c"
      using sc_agrees_fits [OF assms(1,2), folded assms(3)] by (simp add: sc_fits_def)
    show ?thesis
    proof (cases "\<not> trav \<or> sec_empty_kv ?c \<noteq> FAILED_ADDR")
      case True
      then have "read_sector_info db S sec trav = Some (FDB_NO_ERR, ?c, db)"
        using g Some by (simp add: read_sector_info_def)
      then show ?thesis using c True m(9)
        by (intro exI [of _ ?c] exI [of _ "kv_sector_cache_table db"]) (auto simp: sec_cached_def)
    next
      case False
      then show ?thesis using g Some hdr by (simp add: read_sector_info_def)
    qed
  qed
qed

end
