(* ===== verification/Kvdb_Find.thy ===== *)
theory Kvdb_Find
  imports Kvdb_Walk
begin

text \<open>
  The walks over the sectors and nodes of a key-value database, and the lookup of a key. The
  abstract value of a database is the map from the keys of its written nodes to their values;
  \<open>find_kv\<close> finds the node of a key in it, through the cache of KV addresses or by a walk.
\<close>

subsection \<open>The ring of sectors\<close>

definition kv_next :: "fdb_kvdb \<Rightarrow> nat \<Rightarrow> nat \<Rightarrow> nat" where
  "kv_next db a len =
     get_next_sector_addr db ((junk_sec 0)\<lparr>sec_addr := a, sec_combined := SECTOR_NOT_COMBINED\<rparr>) len"

definition kv_count :: "fdb_kvdb \<Rightarrow> nat" where
  "kv_count db = kvdb_max_size db div kvdb_sec_size db"

definition kv_geom :: "fdb_kvdb \<Rightarrow> bool" where
  "kv_geom db \<longleftrightarrow> 0 < kvdb_sec_size db \<and> kvdb_max_size db mod kvdb_sec_size db = 0
   \<and> kvdb_max_size db < 2147483648"

lemma kv_next_eq: "sec_combined c = SECTOR_NOT_COMBINED \<Longrightarrow>
    get_next_sector_addr db c len = kv_next db (sec_addr c) len"
  by (simp add: kv_next_def get_next_sector_addr_def Let_def)

interpretation kvr: sector_ring kv_next "\<lambda>db. kvdb_sec_size db" kv_count kv_geom ring_up
proof
  fix d :: fdb_kvdb and k j :: nat
  let ?Z = "kvdb_sec_size d" let ?N = "kv_count d"
  assume g: "kv_geom d" and k: "k < ?N"
  have m: "kvdb_max_size d = ?N * ?Z"
    using g by (auto simp: kv_geom_def kv_count_def)
  have b: "?N * ?Z < 2147483648" using g m by (simp add: kv_geom_def)
  have kz: "k * ?Z + ?Z \<le> ?N * ?Z" using k by (intro mult_le_less) simp
  have us: "u32 (k * ?Z + ?Z) = k * ?Z + ?Z" using kz b by (intro u32_id) linarith
  { assume j: "j < ?N"
    have jz: "j * ?Z + ?Z \<le> ?N * ?Z" using j by (intro mult_le_less) simp
    have uj: "u32 (j * ?Z + ?Z) = j * ?Z + ?Z" using jz b by (intro u32_id) linarith
    have "(k * ?Z + ?Z < ?N * ?Z) = (Suc k < ?N)"
      using g by (metis kv_geom_def mult_Suc add.commute mult_less_cancel2)
    then show "kv_next d (k * ?Z) (j * ?Z) = ring_up ?N k * ?Z"
      using jz by (simp add: kv_next_def get_next_sector_addr_def m us uj ring_up_def Let_def) }
  have un: "u32 (?N * ?Z + ?Z) = ?N * ?Z + ?Z" using b kz by (intro u32_id) linarith
  have "0 < ?Z" using g by (simp add: kv_geom_def)
  then show "kv_next d (k * ?Z) (?N * ?Z) = FDB_FAILED_ADDR"
    by (simp add: kv_next_def get_next_sector_addr_def m un fdb_const Let_def)
qed (auto simp: ring_up_props kv_geom_def)

lemma kv_mem_ring:
  assumes "kv_mem db D"
  shows "kv_geom db" "kv_count db = length D"
  using kv_memD [OF assms] by (simp_all add: kv_geom_def kv_count_def)

lemma walk_step:
  assumes "kv_mem db D" "k < length D" "Suc m \<le> length D"
  shows "kv_next db (k * kvdb_sec_size db) ((length D - m) * kvdb_sec_size db)
    = (if m = 0 then FAILED_ADDR else ring_up (length D) k * kvdb_sec_size db)"
proof -
  note r = kv_mem_ring [OF assms(1)]
  show ?thesis
  proof (cases "m = 0")
    case True
    then show ?thesis using kvr.nxt_stop [OF r(1), of k] assms(2) r(2) by (simp add: fdb_const)
  next
    case False
    then show ?thesis using kvr.nxt_go [OF r(1), of k "length D - m"] assms r(2) by simp
  qed
qed

subsection \<open>A loop over the ring\<close>

text \<open>
  The loops over the sectors have one shape: a step at a sector either stops or goes to the next
  sector of the ring. \<open>I ks s\<close> is the invariant with the sectors \<open>ks\<close> still to be visited, \<open>R s\<close>
  what holds when a step stopped the loop.
\<close>

lemma ring_loop:
  fixes L :: "'s \<Rightarrow> nat \<Rightarrow> nat \<Rightarrow> 'r option" and dbof :: "'s \<Rightarrow> fdb_kvdb"
  assumes mem: "\<And>ks s. I ks s \<Longrightarrow> \<exists>D. kv_mem (dbof s) D \<and> length D = N \<and> kvdb_sec_size (dbof s) = Z"
    and step: "\<And>k ks s len. I (k # ks) s \<Longrightarrow> k < N \<Longrightarrow>
        \<exists>stop s'. L s (k * Z) len
          = (if stop then Some (res s')
             else if kv_next (dbof s') (k * Z) (u32 (len + Z)) \<noteq> FAILED_ADDR
             then L s' (kv_next (dbof s') (k * Z) (u32 (len + Z))) (u32 (len + Z)) else Some (res s'))
          \<and> (if stop then R s' else I ks s')"
  shows "I (kvr.walk N k (Suc m)) s \<Longrightarrow> k < N \<Longrightarrow> Suc m \<le> N \<Longrightarrow>
    \<exists>s'. L s (k * Z) ((N - Suc m) * Z) = Some (res s') \<and> (R s' \<or> I [] s')"
proof (induction m arbitrary: k s)
  case (0 k s)
  have I0: "I (k # []) s" using 0(1) by (simp add: kvr.walk_def)
  obtain stop s' where s: "L s (k * Z) ((N - Suc 0) * Z)
      = (if stop then Some (res s')
         else if kv_next (dbof s') (k * Z) (u32 ((N - Suc 0) * Z + Z)) \<noteq> FAILED_ADDR
         then L s' (kv_next (dbof s') (k * Z) (u32 ((N - Suc 0) * Z + Z))) (u32 ((N - Suc 0) * Z + Z))
         else Some (res s'))"
    "if stop then R s' else I [] s'"
    using step [OF I0 0(2), of "(N - Suc 0) * Z"] by blast
  show ?case
  proof (cases stop)
    case True
    then show ?thesis using s by auto
  next
    case False
    then have I': "I [] s'" using s(2) by simp
    obtain D' where m': "kv_mem (dbof s') D'" "length D' = N" "kvdb_sec_size (dbof s') = Z"
      using mem [OF I'] by blast
    have len: "u32 ((N - Suc 0) * Z + Z) = (N - 0) * Z"
    proof -
      have "(N - Suc 0) * Z + Z = N * Z" using 0 by (cases N) auto
      then show ?thesis using kv_memD(4,8) [OF m'(1)] m' by (simp add: u32_id)
    qed
    have "kv_next (dbof s') (k * Z) ((N - 0) * Z) = FAILED_ADDR"
      using walk_step [of "dbof s'" D' k 0] m' 0 by auto
    then show ?thesis using s(1) False len I' by auto
  qed
next
  case (Suc m k s)
  have w: "kvr.walk N k (Suc (Suc m)) = k # kvr.walk N (ring_up N k) (Suc m)" by (rule kvr.walk_Suc)
  obtain stop s' where s: "L s (k * Z) ((N - Suc (Suc m)) * Z)
      = (if stop then Some (res s')
         else if kv_next (dbof s') (k * Z) (u32 ((N - Suc (Suc m)) * Z + Z)) \<noteq> FAILED_ADDR
         then L s' (kv_next (dbof s') (k * Z) (u32 ((N - Suc (Suc m)) * Z + Z))) (u32 ((N - Suc (Suc m)) * Z + Z))
         else Some (res s'))"
    "if stop then R s' else I (kvr.walk N (ring_up N k) (Suc m)) s'"
    using step [OF Suc.prems(1) [unfolded w] Suc.prems(2), of "(N - Suc (Suc m)) * Z"] by blast
  show ?case
  proof (cases stop)
    case True
    then show ?thesis using s by auto
  next
    case False
    then have I': "I (kvr.walk N (ring_up N k) (Suc m)) s'" using s(2) by simp
    obtain D' where m': "kv_mem (dbof s') D'" "length D' = N" "kvdb_sec_size (dbof s') = Z"
      using mem [OF I'] by blast
    have len: "u32 ((N - Suc (Suc m)) * Z + Z) = (N - Suc m) * Z"
    proof -
      have "N - Suc m = Suc (N - Suc (Suc m))" using Suc.prems by simp
      then have e: "(N - Suc (Suc m)) * Z + Z = (N - Suc m) * Z" by simp
      have "N * Z < 2147483648" using kv_memD(4,8) [OF m'(1)] m' by simp
      moreover have "(N - Suc m) * Z \<le> N * Z" by (intro mult_le_mono1) simp
      ultimately show ?thesis unfolding e by (intro u32_id) linarith
    qed
    have nx: "kv_next (dbof s') (k * Z) ((N - Suc m) * Z) = ring_up N k * Z"
      using walk_step [of "dbof s'" D' k "Suc m"] m' Suc.prems by auto
    have r: "ring_up N k < N" using Suc.prems by (simp add: ring_up_props)
    have "ring_up N k * Z \<noteq> FAILED_ADDR"
      using sector_addr(3) [of "dbof s'" D' "ring_up N k"] m' r by (auto simp: fdb_const)
    then have "L s (k * Z) ((N - Suc (Suc m)) * Z) = L s' (ring_up N k * Z) ((N - Suc m) * Z)"
      using s(1) False len nx by simp
    then show ?thesis using Suc.IH [OF I' r] Suc.prems by simp
  qed
qed

subsection \<open>The rule of \<open>sector_iterator\<close>\<close>

lemma sector_iter_rule:
  assumes mem: "\<And>ks arg db D. I ks arg db D \<Longrightarrow> kv_mem db D \<and> length D = N \<and> kvdb_sec_size db = Z"
    and refresh: "\<And>ks arg db D t. I ks arg db D \<Longrightarrow> sc_agrees Z D t
        \<Longrightarrow> I ks arg (db\<lparr>kv_sector_cache_table := t\<rparr>) D"
    and visit: "\<And>k ks arg db D c. I (k # ks) arg db D \<Longrightarrow> k < N \<Longrightarrow> sec_view (k * Z) (D ! k) c
        \<Longrightarrow> (trav \<Longrightarrow> sec_room (k * Z) Z (D ! k) c)
        \<Longrightarrow> status = FDB_SECTOR_STORE_UNUSED \<or> status = ks_store (D ! k)
        \<Longrightarrow> \<exists>stop arg' db' D'. cb c arg db = Some (stop, arg', db')
              \<and> (if stop then R c arg' db' D' else I ks arg' db' D')"
    and skip: "\<And>k ks arg db D. I (k # ks) arg db D \<Longrightarrow> k < N \<Longrightarrow> status \<noteq> FDB_SECTOR_STORE_UNUSED
        \<Longrightarrow> status \<noteq> ks_store (D ! k) \<Longrightarrow> I ks arg db D"
  shows "I (kvr.walk N k (Suc m)) arg db D \<Longrightarrow> k < N \<Longrightarrow> Suc m \<le> N \<Longrightarrow>
    \<exists>c arg' db' D'. sector_iter_loop cb trav status db sec arg (k * Z) ((N - Suc m) * Z) = Some (c, arg', db')
      \<and> (R c arg' db' D' \<or> I [] arg' db' D')"
proof -
  have step: "\<exists>stop c arg' db' D'. sector_iter_loop cb trav status db sec arg (k * Z) len
      = (if stop then Some (c, arg', db')
         else if kv_next db' (k * Z) (u32 (len + Z)) \<noteq> FAILED_ADDR
         then sector_iter_loop cb trav status db' c arg' (kv_next db' (k * Z) (u32 (len + Z))) (u32 (len + Z))
         else Some (c, arg', db'))
      \<and> (if stop then R c arg' db' D' else I ks arg' db' D')"
    if I: "I (k # ks) arg db D" and k: "k < N" for k ks arg db D sec len
  proof -
    note m0 = mem [OF I]
    have z0: "kvdb_sec_size db = Z" using m0 by simp
    obtain c1 t1 where r1: "read_sector_info db (k * Z) sec False
        = Some (FDB_NO_ERR, c1, db\<lparr>kv_sector_cache_table := t1\<rparr>)" "sc_agrees Z D t1"
      "sec_view (k * Z) (D ! k) c1"
      using read_sector_info_eq [of db D k "k * Z" sec False] m0 k by auto
    let ?db1 = "db\<lparr>kv_sector_cache_table := t1\<rparr>"
    note I1 = refresh [OF I r1(2)]
    note m1 = mem [OF I1]
    have v1: "sec_store c1 = ks_store (D ! k)" "sec_addr c1 = k * Z" "sec_combined c1 = SECTOR_NOT_COMBINED"
      using r1(3) by (simp_all add: sec_view_def)
    show ?thesis
    proof (cases "status = FDB_SECTOR_STORE_UNUSED \<or> status = ks_store (D ! k)")
      case True
      obtain c2 t2 where r2: "(if trav then read_sector_info ?db1 (k * Z) c1 True else Some (FDB_NO_ERR, c1, ?db1))
          = Some (FDB_NO_ERR, c2, db\<lparr>kv_sector_cache_table := t2\<rparr>)" "sc_agrees Z D t2"
        "sec_view (k * Z) (D ! k) c2" "trav \<Longrightarrow> sec_room (k * Z) Z (D ! k) c2"
      proof (cases trav)
        case True
        then show ?thesis
          using that read_sector_info_eq [of ?db1 D k "k * Z" c1 True] m1 k by auto
      next
        case False
        then show ?thesis using that [of c1 t1] r1 by simp
      qed
      let ?db2 = "db\<lparr>kv_sector_cache_table := t2\<rparr>"
      note I2 = refresh [OF I r2(2)]
      obtain stop arg' db' D' where cb: "cb c2 arg ?db2 = Some (stop, arg', db')"
        "if stop then R c2 arg' db' D' else I ks arg' db' D'"
        using visit [OF I2 k r2(3,4) True] by auto
      have nx: "get_next_sector_addr db' c2 (u32 (len + Z)) = kv_next db' (k * Z) (u32 (len + Z))"
        using r2(3) by (subst kv_next_eq) (simp_all add: sec_view_def)
      have e: "sector_iter_loop cb trav status db sec arg (k * Z) len
        = (if stop then Some (c2, arg', db')
           else if kv_next db' (k * Z) (u32 (len + Z)) \<noteq> FAILED_ADDR
           then sector_iter_loop cb trav status db' c2 arg' (kv_next db' (k * Z) (u32 (len + Z))) (u32 (len + Z))
           else Some (c2, arg', db'))"
        using True v1(1)
        by (subst sector_iter_loop.simps) (simp add: z0 r1(1) r2(1) cb(1) nx Let_def)
      show ?thesis using e cb(2) by blast
    next
      case False
      note I2 = skip [OF I1 k]
      have nx: "get_next_sector_addr ?db1 c1 (u32 (len + Z)) = kv_next ?db1 (k * Z) (u32 (len + Z))"
        using v1 by (subst kv_next_eq) simp_all
      have e: "sector_iter_loop cb trav status db sec arg (k * Z) len
        = (if kv_next ?db1 (k * Z) (u32 (len + Z)) \<noteq> FAILED_ADDR
           then sector_iter_loop cb trav status ?db1 c1 arg (kv_next ?db1 (k * Z) (u32 (len + Z))) (u32 (len + Z))
           else Some (c1, arg, ?db1))"
        using False v1(1)
        by (subst sector_iter_loop.simps) (simp add: z0 r1(1) nx Let_def)
      show ?thesis using e I2 False
        by (intro exI [of _ False] exI [of _ c1] exI [of _ arg] exI [of _ ?db1] exI [of _ D]) simp
    qed
  qed
  let ?I = "\<lambda>ks (sec :: kvdb_sec_info, arg, db). \<exists>D. I ks arg db D"
  let ?R = "\<lambda>(sec, arg, db). \<exists>D. R sec arg db D"
  let ?L = "\<lambda>(sec, arg, db). sector_iter_loop cb trav status db sec arg"
  have "\<exists>s'. ?L (sec, arg, db) (k * Z) ((N - Suc m) * Z) = Some (id s') \<and> (?R s' \<or> ?I [] s')"
    if "?I (kvr.walk N k (Suc m)) (sec, arg, db)" "k < N" "Suc m \<le> N"
  proof (rule ring_loop [where I = ?I and L = ?L and res = id and dbof = "\<lambda>(sec, arg, db). db"])
    fix ks s
    assume "?I ks s"
    then show "\<exists>D. kv_mem (case s of (sec, arg, db) \<Rightarrow> db) D \<and> length D = N
        \<and> kvdb_sec_size (case s of (sec, arg, db) \<Rightarrow> db) = Z"
      using mem by (cases s) fastforce
  next
    fix k ks s len
    assume h: "?I (k # ks) s" "k < N"
    obtain sec arg db where s: "s = (sec, arg, db)" by (metis prod_cases3)
    obtain D where "I (k # ks) arg db D" using h(1) s by auto
    from step [OF this h(2), of sec len] obtain stop c arg' db' D' where
      "sector_iter_loop cb trav status db sec arg (k * Z) len
      = (if stop then Some (c, arg', db')
         else if kv_next db' (k * Z) (u32 (len + Z)) \<noteq> FAILED_ADDR
         then sector_iter_loop cb trav status db' c arg' (kv_next db' (k * Z) (u32 (len + Z))) (u32 (len + Z))
         else Some (c, arg', db'))"
      "if stop then R c arg' db' D' else I ks arg' db' D'" by blast
    then show "\<exists>stop s'. ?L s (k * Z) len
        = (if stop then Some (id s')
           else if kv_next (case s' of (sec, arg, db) \<Rightarrow> db) (k * Z) (u32 (len + Z)) \<noteq> FAILED_ADDR
           then ?L s' (kv_next (case s' of (sec, arg, db) \<Rightarrow> db) (k * Z) (u32 (len + Z))) (u32 (len + Z))
           else Some (id s'))
        \<and> (if stop then ?R s' else ?I ks s')"
      by (intro exI [of _ stop] exI [of _ "(c, arg', db')"]) (auto simp: s)
  qed (use that in auto)
  then show "I (kvr.walk N k (Suc m)) arg db D \<Longrightarrow> k < N \<Longrightarrow> Suc m \<le> N \<Longrightarrow>
    \<exists>c arg' db' D'. sector_iter_loop cb trav status db sec arg (k * Z) ((N - Suc m) * Z) = Some (c, arg', db')
      \<and> (R c arg' db' D' \<or> I [] arg' db' D')"
    by fastforce
qed

subsection \<open>The rules of \<open>kv_iterator\<close>\<close>

definition kv_wf :: "fdb_kv \<Rightarrow> bool" where
  "kv_wf kv \<longleftrightarrow> length (kv_name kv) = FDB_KV_NAME_MAX"

lemma kv_wf_addr [simp]: "kv_wf (kv\<lparr>kv_addr_start := a\<rparr>) = kv_wf kv"
  by (simp add: kv_wf_def)

lemma kv_wf_junk [simp]: "kv_wf (junk_kv b)"
  by (simp add: kv_wf_def junk_kv_name)

text \<open>The node \<open>n\<close> is at address \<open>a\<close> of the database.\<close>

definition node_in :: "nat \<Rightarrow> kv_sec list \<Rightarrow> nat \<Rightarrow> kv_node \<Rightarrow> bool" where
  "node_in Z D a n \<longleftrightarrow>
     (\<exists>k xs ys. k < length D \<and> ks_nodes (D ! k) = xs @ n # ys \<and> a = nodes_end (k * Z + 16) xs)"

lemma node_in_facts:
  assumes "kv_mem db D" "node_in (kvdb_sec_size db) D a (st, key, val)"
  shows "kv_at (kv_img db) a st key val" "a + node_size key val + 88 < kvdb_max_size db"
    "node_size key val \<le> kvdb_max_size db" "length key < FDB_KV_NAME_MAX" "c_string key"
    "a \<noteq> FAILED_ADDR"
    "\<exists>k < length D. k * kvdb_sec_size db + 16 \<le> a
        \<and> a + node_size key val + 88 < k * kvdb_sec_size db + kvdb_sec_size db"
proof -
  let ?Z = "kvdb_sec_size db"
  obtain k xs ys where k: "k < length D" "ks_nodes (D ! k) = xs @ (st, key, val) # ys"
    "a = nodes_end (k * ?Z + 16) xs"
    using assms(2) by (auto simp: node_in_def)
  note d = kv_sectorD [OF kv_memD(6) [OF assms(1) k(1)]] and s = sector_addr [OF assms(1) k(1)]
  show at: "kv_at (kv_img db) a st key val" using d(3) k by (simp add: kv_nodes_append)
  have e: "a + node_size key val \<le> nodes_end (k * ?Z + 16) (ks_nodes (D ! k))"
    using k nodes_end_ge [of "a + node_size key val" ys] by simp
  then show b: "a + node_size key val + 88 < kvdb_max_size db" using d(4) s(1) by linarith
  show "node_size key val \<le> kvdb_max_size db" using b by linarith
  show "length key < FDB_KV_NAME_MAX" "c_string key" using at by (simp_all add: kv_at_def)
  show "a \<noteq> FAILED_ADDR" using b kv_memD(8) [OF assms(1)] by (simp add: fdb_const)
  have "k * ?Z + 16 \<le> a" using nodes_end_ge [of "k * ?Z + 16" xs] k(3) by linarith
  then show "\<exists>k < length D. k * ?Z + 16 \<le> a \<and> a + node_size key val + 88 < k * ?Z + ?Z"
    using k(1) e d(4) by (intro exI [of _ k]) linarith
qed

lemma read_kv_in:
  assumes "kv_mem db D" "node_in (kvdb_sec_size db) D a (st, key, val)" "kv_wf kv" "kv_addr_start kv = a"
  shows "read_kv db kv = Some (FDB_NO_ERR, node_kv kv a st key val, db)"
    "kv_wf (node_kv kv a st key val)"
proof -
  note f = node_in_facts [OF assms(1,2)]
  show "read_kv db kv = Some (FDB_NO_ERR, node_kv kv a st key val, db)"
    using kv_memD(1) [OF assms(1)] f(1) assms(4) f(3) assms(3) unfolding kv_wf_def
    by (rule read_kv_node)
  show "kv_wf (node_kv kv a st key val)"
    using assms(3) f(4) node_kv_name(1) unfolding kv_wf_def by blast
qed

lemma kv_iter_sector_rule:
  assumes mem: "\<And>ns arg db. J ns arg db \<Longrightarrow> kv_mem db D \<and> kvdb_sec_size db = Z"
    and k: "k < length D" and c: "sec_addr c = k * Z" "sec_store c = ks_store (D ! k)"
    and visit: "\<And>xs st key val ns arg db kv. J ((st, key, val) # ns) arg db
        \<Longrightarrow> ks_nodes (D ! k) = xs @ (st, key, val) # ns \<Longrightarrow> kv_wf kv
        \<Longrightarrow> kv_wf (node_kv kv (nodes_end (k * Z + 16) xs) st key val)
        \<Longrightarrow> \<exists>stop arg' db'. cb (node_kv kv (nodes_end (k * Z + 16) xs) st key val) arg db = Some (stop, arg', db')
              \<and> (if stop then R (node_kv kv (nodes_end (k * Z + 16) xs) st key val) arg' db' else J ns arg' db')"
  shows "J ns arg db \<Longrightarrow> ks_nodes (D ! k) = xs @ ns \<Longrightarrow> ns \<noteq> [] \<Longrightarrow> kv_wf kv \<Longrightarrow>
    kv_addr_start kv = nodes_end (k * Z + 16) xs \<Longrightarrow>
    \<exists>stop kv' arg' db'. kv_iter_sector cb db c kv arg = Some (stop, kv', arg', db') \<and> kv_wf kv'
      \<and> (if stop then R kv' arg' db' else J [] arg' db')"
proof (induction ns arbitrary: xs kv arg db)
  case (Cons n ns)
  obtain st key val where n: "n = (st, key, val)" by (metis prod_cases3)
  let ?a = "nodes_end (k * Z + 16) xs" let ?kv = "node_kv kv ?a st key val"
  note m = mem [OF Cons.prems(1)]
  have z: "kvdb_sec_size db = Z" using m by simp
  have ni: "node_in (kvdb_sec_size db) D ?a (st, key, val)"
    using k Cons.prems(2) n m unfolding node_in_def by blast
  note r = read_kv_in [OF conjunct1 [OF m] ni Cons.prems(4,5)]
  obtain stop arg1 db1 where cb: "cb ?kv arg db = Some (stop, arg1, db1)"
    "if stop then R ?kv arg1 db1 else J ns arg1 db1"
    using visit [of st key val ns arg db xs kv] Cons.prems n r(2) by auto
  show ?case
  proof (cases stop)
    case True
    then have "kv_iter_sector cb db c kv arg = Some (True, ?kv, arg1, db1)"
      by (subst kv_iter_sector.simps) (simp add: r(1) cb(1))
    then show ?thesis using cb(2) True r(2) by auto
  next
    case False
    then have J1: "J ns arg1 db1" using cb(2) by simp
    note m1 = mem [OF J1]
    have z1: "kvdb_sec_size db1 = Z" using m1 by simp
    have nx: "get_next_kv_addr db1 c ?kv
        = Some (if ns = [] then FAILED_ADDR else nodes_end (k * Z + 16) (xs @ [(st, key, val)]))"
      using kv_memD(1) [of db1 D] kv_memD(6) [of db1 D k] sc_agrees_fits [of db1 D k] m1 k c Cons.prems(2) n
      by (intro get_next_kv_addr_eq [where s = "D ! k" and k = k and ys = ns]) auto
    show ?thesis
    proof (cases "ns = []")
      case True
      have "kv_iter_sector cb db c kv arg = Some (False, ?kv\<lparr>kv_addr_start := FAILED_ADDR\<rparr>, arg1, db1)"
        using False True by (subst kv_iter_sector.simps) (simp add: r(1) cb(1) nx Let_def)
      then show ?thesis using J1 True r(2) by (metis kv_wf_addr)
    next
      case ne: False
      let ?a' = "nodes_end (k * Z + 16) (xs @ [(st, key, val)])"
      obtain st' key' val' ns' where n': "ns = (st', key', val') # ns'"
        using ne by (metis list.exhaust prod_cases3)
      have "node_in (kvdb_sec_size db1) D ?a' (st', key', val')"
        unfolding node_in_def z1 using k Cons.prems(2) n n'
        by (intro exI [of _ k] exI [of _ "xs @ [(st, key, val)]"] exI [of _ ns']) simp
      then have a': "?a' \<noteq> FAILED_ADDR" using node_in_facts(6) m1 by blast
      have "kv_iter_sector cb db c kv arg = kv_iter_sector cb db1 c (?kv\<lparr>kv_addr_start := ?a'\<rparr>) arg1"
        using False ne a' by (subst kv_iter_sector.simps) (simp add: r(1) cb(1) nx Let_def)
      moreover have "\<exists>stop kv' arg' db'. kv_iter_sector cb db1 c (?kv\<lparr>kv_addr_start := ?a'\<rparr>) arg1
          = Some (stop, kv', arg', db') \<and> kv_wf kv' \<and> (if stop then R kv' arg' db' else J [] arg' db')"
        using Cons.prems(2) n r(2) by (intro Cons.IH [OF J1 _ ne]) auto
      ultimately show ?thesis by simp
    qed
  qed
qed simp

lemma kv_iter_rule:
  assumes mem: "\<And>ks arg db D. I ks arg db D \<Longrightarrow> kv_mem db D \<and> length D = N \<and> kvdb_sec_size db = Z"
    and refresh: "\<And>ks arg db D t. I ks arg db D \<Longrightarrow> sc_agrees Z D t
        \<Longrightarrow> I ks arg (db\<lparr>kv_sector_cache_table := t\<rparr>) D"
    and visit: "\<And>k ks arg db D c kv. I (k # ks) arg db D \<Longrightarrow> k < N \<Longrightarrow> sec_view (k * Z) (D ! k) c
        \<Longrightarrow> ks_nodes (D ! k) \<noteq> [] \<Longrightarrow> kv_wf kv \<Longrightarrow> kv_addr_start kv = k * Z + 16
        \<Longrightarrow> \<exists>stop kv' arg' db' D'. kv_iter_sector cb db c kv arg = Some (stop, kv', arg', db') \<and> kv_wf kv'
              \<and> (if stop then R kv' arg' db' D' else I ks arg' db' D')"
    and skip: "\<And>k ks arg db D. I (k # ks) arg db D \<Longrightarrow> k < N \<Longrightarrow> ks_nodes (D ! k) = [] \<Longrightarrow> I ks arg db D"
    and start: "I (kvr.walk N k (Suc m)) arg db D" "k < N" "Suc m \<le> N" "kv_wf kv"
  shows "\<exists>kv' arg' db' D'. kv_iter_loop cb db kv arg sec (k * Z) ((N - Suc m) * Z) = Some (kv', arg', db')
      \<and> kv_wf kv' \<and> (R kv' arg' db' D' \<or> I [] arg' db' D')"
proof -
  have step: "\<exists>stop kv' c arg' db' D'. kv_iter_loop cb db kv arg sec (k * Z) len
      = (if stop then Some (kv', arg', db')
         else if kv_next db' (k * Z) (u32 (len + Z)) \<noteq> FAILED_ADDR
         then kv_iter_loop cb db' kv' arg' c (kv_next db' (k * Z) (u32 (len + Z))) (u32 (len + Z))
         else Some (kv', arg', db'))
      \<and> kv_wf kv' \<and> (if stop then R kv' arg' db' D' else I ks arg' db' D')"
    if I: "I (k # ks) arg db D" and k: "k < N" and kv: "kv_wf kv" for k ks arg db D sec len kv
  proof -
    note m0 = mem [OF I]
    have z0: "kvdb_sec_size db = Z" using m0 by simp
    obtain c t where r: "read_sector_info db (k * Z) sec False
        = Some (FDB_NO_ERR, c, db\<lparr>kv_sector_cache_table := t\<rparr>)" "sc_agrees Z D t"
      "sec_view (k * Z) (D ! k) c"
      using read_sector_info_eq [of db D k "k * Z" sec False] m0 k by auto
    let ?db1 = "db\<lparr>kv_sector_cache_table := t\<rparr>"
    note I1 = refresh [OF I r(2)]
    have v: "sec_store c = ks_store (D ! k)" "sec_addr c = k * Z" "sec_combined c = SECTOR_NOT_COMBINED"
      using r(3) by (simp_all add: sec_view_def)
    have nx: "get_next_sector_addr db' c (u32 (len + Z)) = kv_next db' (k * Z) (u32 (len + Z))" for db'
      using v by (subst kv_next_eq) simp_all
    have st: "ks_store (D ! k) = (if ks_nodes (D ! k) = [] then FDB_SECTOR_STORE_EMPTY else FDB_SECTOR_STORE_USING)"
      using kv_sectorD(6) kv_memD(6) m0 k by blast
    have u: "u32 (k * Z + SECTOR_HDR_DATA_SIZE) = k * Z + 16"
      using kv_sectorD(1,4,7) [OF kv_memD(6) [of db D k]] kv_memD(1) [of db D] kvf.img_bound [of db] m0 k
      by (intro u32_id [THEN trans]) (auto simp: SECTOR_HDR_DATA_SIZE_def)
    show ?thesis
    proof (cases "ks_nodes (D ! k) = []")
      case True
      have "kv_iter_loop cb db kv arg sec (k * Z) len
        = (if kv_next ?db1 (k * Z) (u32 (len + Z)) \<noteq> FAILED_ADDR
           then kv_iter_loop cb ?db1 kv arg c (kv_next ?db1 (k * Z) (u32 (len + Z))) (u32 (len + Z))
           else Some (kv, arg, ?db1))"
        using True v(1) st by (subst kv_iter_loop.simps) (simp add: z0 r(1) nx Let_def)
      then show ?thesis using skip [OF I1 k True] kv
        by (intro exI [of _ False] exI [of _ kv] exI [of _ c] exI [of _ arg] exI [of _ ?db1] exI [of _ D]) simp
    next
      case False
      let ?kv = "kv\<lparr>kv_addr_start := k * Z + 16\<rparr>"
      obtain stop kv' arg' db' D' where vi: "kv_iter_sector cb ?db1 c ?kv arg = Some (stop, kv', arg', db')"
        "kv_wf kv'" "if stop then R kv' arg' db' D' else I ks arg' db' D'"
        using visit [OF I1 k r(3) False, of ?kv] kv by auto
      have "kv_iter_loop cb db kv arg sec (k * Z) len
        = (if stop then Some (kv', arg', db')
           else if kv_next db' (k * Z) (u32 (len + Z)) \<noteq> FAILED_ADDR
           then kv_iter_loop cb db' kv' arg' c (kv_next db' (k * Z) (u32 (len + Z))) (u32 (len + Z))
           else Some (kv', arg', db'))"
        using False v(1,2) st by (subst kv_iter_loop.simps) (simp add: z0 r(1) nx Let_def u vi(1))
      then show ?thesis using vi(2,3) by blast
    qed
  qed
  let ?I = "\<lambda>ks (kv :: fdb_kv, sec :: kvdb_sec_info, arg, db). kv_wf kv \<and> (\<exists>D. I ks arg db D)"
  let ?R = "\<lambda>(kv, sec :: kvdb_sec_info, arg, db). kv_wf kv \<and> (\<exists>D. R kv arg db D)"
  let ?L = "\<lambda>(kv, sec, arg, db). kv_iter_loop cb db kv arg sec"
  let ?res = "\<lambda>(kv, sec :: kvdb_sec_info, arg, db). (kv, arg, db)"
  let ?db = "\<lambda>(kv, sec :: kvdb_sec_info, arg, db). db"
  have "\<exists>s'. ?L (kv, sec, arg, db) (k * Z) ((N - Suc m) * Z) = Some (?res s') \<and> (?R s' \<or> ?I [] s')"
  proof (rule ring_loop [where I = ?I and L = ?L and res = ?res and dbof = ?db])
    fix ks s
    assume "?I ks s"
    then show "\<exists>D. kv_mem (?db s) D \<and> length D = N \<and> kvdb_sec_size (?db s) = Z"
      using mem by (cases s) fastforce
  next
    fix k ks s len
    assume h: "?I (k # ks) s" "k < N"
    obtain kv sec arg db where s: "s = (kv, sec, arg, db)" by (metis prod_cases4)
    obtain D where "I (k # ks) arg db D" "kv_wf kv" using h(1) s by auto
    from step [OF this(1) h(2) this(2), of sec len] obtain stop kv' c arg' db' D' where
      "kv_iter_loop cb db kv arg sec (k * Z) len
      = (if stop then Some (kv', arg', db')
         else if kv_next db' (k * Z) (u32 (len + Z)) \<noteq> FAILED_ADDR
         then kv_iter_loop cb db' kv' arg' c (kv_next db' (k * Z) (u32 (len + Z))) (u32 (len + Z))
         else Some (kv', arg', db'))"
      "kv_wf kv'" "if stop then R kv' arg' db' D' else I ks arg' db' D'" by blast
    then show "\<exists>stop s'. ?L s (k * Z) len
        = (if stop then Some (?res s')
           else if kv_next (?db s') (k * Z) (u32 (len + Z)) \<noteq> FAILED_ADDR
           then ?L s' (kv_next (?db s') (k * Z) (u32 (len + Z))) (u32 (len + Z))
           else Some (?res s'))
        \<and> (if stop then ?R s' else ?I ks s')"
      by (intro exI [of _ stop] exI [of _ "(kv', c, arg', db')"]) (auto simp: s)
  qed (use start in auto)
  then show ?thesis by fastforce
qed

end
