(* ===== verification/Kvdb_Lookup.thy ===== *)
theory Kvdb_Lookup
  imports Kvdb_Find
begin

text \<open>
  Looking a key up. \<open>kv_map\<close> is the abstract value of a database: the map from the keys of its
  written nodes to their values. \<open>kv_rep\<close> says that a database holds the sectors \<open>D\<close>, that both
  caches agree with them, and that no key is written twice. Under it \<open>find_kv\<close> finds the node
  of a key exactly when the map has the key.
\<close>

subsection \<open>The abstract map\<close>

definition all_nodes :: "kv_sec list \<Rightarrow> kv_node list" where
  "all_nodes D = concat (map ks_nodes D)"

definition live :: "kv_sec list \<Rightarrow> (bytes \<times> bytes) list" where
  "live D = map snd (filter (\<lambda>n. fst n = FDB_KV_WRITE) (all_nodes D))"

definition kv_map :: "kv_sec list \<Rightarrow> bytes \<Rightarrow> bytes option" where
  "kv_map D = map_of (live D)"

definition kv_uniq :: "kv_sec list \<Rightarrow> bool" where
  "kv_uniq D \<longleftrightarrow> distinct (map fst (live D))"

definition kvc_agrees :: "nat \<Rightarrow> kv_sec list \<Rightarrow> kv_cache_node list \<Rightarrow> bool" where
  "kvc_agrees Z D t \<longleftrightarrow>
     kvc.coherent (\<lambda>c a. \<exists>key val. node_in Z D a (FDB_KV_WRITE, key, val) \<and> kv_name_crc key = c) t"

definition kv_rep :: "fdb_kvdb \<Rightarrow> kv_sec list \<Rightarrow> bool" where
  "kv_rep db D \<longleftrightarrow> kv_mem db D \<and> kvc_agrees (kvdb_sec_size db) D (kv_cache_table db) \<and> kv_uniq D"

text \<open>The 16-bit CRC of the key is not the one of another key in the database.\<close>

definition no_clash :: "kv_sec list \<Rightarrow> bytes \<Rightarrow> bool" where
  "no_clash D key \<longleftrightarrow>
     (\<forall>key' \<in> fst ` set (live D). kv_name_crc key' = kv_name_crc key \<longrightarrow> key' = key)"

definition key_ok :: "bytes \<Rightarrow> bool" where
  "key_ok key \<longleftrightarrow> c_string key \<and> length key < FDB_KV_NAME_MAX"

lemma in_live: "(key, val) \<in> set (live D) \<longleftrightarrow> (FDB_KV_WRITE, key, val) \<in> set (all_nodes D)"
  by (force simp: live_def)

lemma in_all_nodes: "n \<in> set (all_nodes D) \<longleftrightarrow> (\<exists>k < length D. n \<in> set (ks_nodes (D ! k)))"
proof -
  have "n \<in> set (all_nodes D) \<longleftrightarrow> (\<exists>s \<in> set D. n \<in> set (ks_nodes s))" by (auto simp: all_nodes_def)
  then show ?thesis by (metis in_set_conv_nth)
qed

lemma node_in_iff: "n \<in> set (all_nodes D) \<longleftrightarrow> (\<exists>a. node_in Z D a n)"
  unfolding in_all_nodes node_in_def by (auto simp: in_set_conv_decomp)

lemma kv_map_Some:
  assumes "kv_uniq D"
  shows "kv_map D key = Some val \<longleftrightarrow> (FDB_KV_WRITE, key, val) \<in> set (all_nodes D)"
  using assms by (simp add: kv_map_def kv_uniq_def in_live [symmetric])

lemma kv_map_None: "kv_map D key = None \<longleftrightarrow> (\<forall>val. (FDB_KV_WRITE, key, val) \<notin> set (all_nodes D))"
  by (auto simp: kv_map_def map_of_eq_None_iff in_live [symmetric] image_iff)

text \<open>Two databases that differ in their caches only.\<close>

definition same_flash :: "fdb_kvdb \<Rightarrow> fdb_kvdb \<Rightarrow> bool" where
  "same_flash db db' \<longleftrightarrow> (\<exists>t u. db' = db\<lparr>kv_sector_cache_table := t, kv_cache_table := u\<rparr>)"

lemma same_flash_refl [simp]: "same_flash db db"
proof -
  have "db = db\<lparr>kv_sector_cache_table := kv_sector_cache_table db, kv_cache_table := kv_cache_table db\<rparr>" by simp
  then show ?thesis unfolding same_flash_def by blast
qed

lemma same_flash_upd [simp]:
  "same_flash db (db\<lparr>kv_sector_cache_table := t\<rparr>)" "same_flash db (db\<lparr>kv_cache_table := u\<rparr>)"
proof -
  have "db\<lparr>kv_sector_cache_table := t\<rparr> = db\<lparr>kv_sector_cache_table := t, kv_cache_table := kv_cache_table db\<rparr>" by simp
  then show "same_flash db (db\<lparr>kv_sector_cache_table := t\<rparr>)" unfolding same_flash_def by blast
  have "db\<lparr>kv_cache_table := u\<rparr> = db\<lparr>kv_sector_cache_table := kv_sector_cache_table db, kv_cache_table := u\<rparr>" by simp
  then show "same_flash db (db\<lparr>kv_cache_table := u\<rparr>)" unfolding same_flash_def by blast
qed

lemma same_flash_trans:
  assumes "same_flash db db'" "same_flash db' db''"
  shows "same_flash db db''"
proof -
  obtain t u t' u' where "db' = db\<lparr>kv_sector_cache_table := t, kv_cache_table := u\<rparr>"
    "db'' = db'\<lparr>kv_sector_cache_table := t', kv_cache_table := u'\<rparr>"
    using assms unfolding same_flash_def by blast
  then have "db'' = db\<lparr>kv_sector_cache_table := t', kv_cache_table := u'\<rparr>" by simp
  then show ?thesis unfolding same_flash_def by blast
qed

lemma same_flash_fields:
  assumes "same_flash db db'"
  shows "kv_cfg db' = kv_cfg db" "kv_img db' = kv_img db" "kv_ok db' = kv_ok db"
    "kvdb_oldest_addr db' = kvdb_oldest_addr db" "kv_gc_request db' = kv_gc_request db"
    "kv_parent db' = kv_parent db" "kv_last_is_complete_del db' = kv_last_is_complete_del db"
    "kv_cur_kv db' = kv_cur_kv db" "kv_cur_sector db' = kv_cur_sector db" "kv_flash db' D = kv_flash db D"
  using assms by (auto simp: same_flash_def kv_cfg_def kv_img_def kv_ok_def kv_flash_def Let_def)

lemma kv_mem_same:
  assumes "kv_mem db D" "same_flash db db'" "sc_agrees (kvdb_sec_size db) D (kv_sector_cache_table db')"
  shows "kv_mem db' D"
  using assms by (simp add: kv_mem_def same_flash_fields)

subsection \<open>The walk\<close>

lemma strncmp_node:
  assumes "kv_wf kv" "length key' < FDB_KV_NAME_MAX" "c_string key" "length key' = length key"
  shows "strncmp_eq (kv_name (node_kv kv a st key' val)) key (length key) \<longleftrightarrow> key' = key"
proof -
  let ?nm = "kv_name (node_kv kv a st key' val)"
  have w: "length (kv_name kv) = FDB_KV_NAME_MAX" using assms(1) by (simp add: kv_wf_def)
  have "strncmp_eq ?nm key (length key) \<longleftrightarrow> strncmp_eq key ?nm (length key)" by (rule strncmp_eq_sym)
  also have "\<dots> \<longleftrightarrow> take (length key) ?nm = key"
    using assms(2-) node_kv_name(1) [OF w assms(2)] by (intro strncmp_eq_iff) simp_all
  also have "take (length key) ?nm = key'"
    using node_kv_name(2) [OF w assms(2)] assms(4) by metis
  finally show ?thesis .
qed

text \<open>What a successful search leaves in the KV object.\<close>

definition found_kv :: "nat \<Rightarrow> kv_sec list \<Rightarrow> bytes \<Rightarrow> bytes \<Rightarrow> fdb_kv \<Rightarrow> bool" where
  "found_kv Z D key val kv \<longleftrightarrow>
     (\<exists>kv0 a. kv = node_kv kv0 a FDB_KV_WRITE key val \<and> kv_wf kv0 \<and> kv_wf kv
        \<and> node_in Z D a (FDB_KV_WRITE, key, val))"

lemma find_kv_no_cache_eq:
  assumes "kv_mem db D" "c_string key" "kv_wf kv"
  shows "\<exists>found kv' t. find_kv_no_cache db key kv = Some (found, kv', db\<lparr>kv_sector_cache_table := t\<rparr>)
    \<and> kv_wf kv' \<and> sc_agrees (kvdb_sec_size db) D t
    \<and> (if found then \<exists>val. found_kv (kvdb_sec_size db) D key val kv'
       else \<forall>val. (FDB_KV_WRITE, key, val) \<notin> set (all_nodes D))"
proof -
  define Z where "Z = kvdb_sec_size db"
  define N where "N = length D"
  note m = kv_memD [OF assms(1), folded Z_def]
  obtain o' where o': "o' < N" "kvdb_oldest_addr db = o' * Z" using m(7) by (auto simp: N_def)
  define miss where "miss k \<longleftrightarrow> (\<forall>val. (FDB_KV_WRITE, key, val) \<notin> set (ks_nodes (D ! k)))" for k
  let ?I = "\<lambda>ks found db' D'. D' = D \<and> \<not> found \<and> (\<exists>t. db' = db\<lparr>kv_sector_cache_table := t\<rparr> \<and> sc_agrees Z D t)
      \<and> (\<forall>k < N. k \<notin> set ks \<longrightarrow> miss k)"
  let ?R = "\<lambda>kv' found db' D'. found \<and> (\<exists>t. db' = db\<lparr>kv_sector_cache_table := t\<rparr> \<and> sc_agrees Z D t)
      \<and> (\<exists>val. found_kv Z D key val kv')"
  have "\<exists>kv' found db' D'. kv_iter_loop (find_kv_cb key) db kv False (junk_sec (kvdb_stk db)) (o' * Z)
        ((N - Suc (N - 1)) * Z) = Some (kv', found, db') \<and> kv_wf kv' \<and> (?R kv' found db' D' \<or> ?I [] found db' D')"
  proof (rule kv_iter_rule [where I = ?I and N = N and Z = Z and D = D])
    fix ks found db' D'
    assume "?I ks found db' D'"
    then show "kv_mem db' D' \<and> length D' = N \<and> kvdb_sec_size db' = Z"
      using assms(1) kv_mem_sc by (auto simp: N_def Z_def)
  next
    fix k ks found db' D' c kv
    assume I: "?I (k # ks) found db' D'" and k: "k < N" and c: "sec_view (k * Z) (D' ! k) c"
      and ne: "ks_nodes (D' ! k) \<noteq> []" and kv: "kv_wf kv" "kv_addr_start kv = k * Z + 16"
    let ?J = "\<lambda>ns found' db''. \<not> found' \<and> db'' = db'
        \<and> (\<exists>xs. ks_nodes (D ! k) = xs @ ns \<and> (\<forall>val. (FDB_KV_WRITE, key, val) \<notin> set xs))"
    let ?RJ = "\<lambda>kv' found' db''. found' \<and> db'' = db' \<and> (\<exists>val. found_kv Z D key val kv')"
    have DD: "D' = D" using I by simp
    have mem': "kv_mem db' D" "kvdb_sec_size db' = Z"
      using I assms(1) kv_mem_sc by (auto simp: Z_def)
    have "\<exists>stop kv' found' db''. kv_iter_sector (find_kv_cb key) db' c kv False = Some (stop, kv', found', db'')
        \<and> kv_wf kv' \<and> (if stop then ?RJ kv' found' db'' else ?J [] found' db'')"
    proof (rule kv_iter_sector_rule [where J = ?J and D = D and k = k and Z = Z and ns = "ks_nodes (D ! k)" and xs = "[]"])
      fix xs st key' val ns found' db'' kv
      assume J: "?J ((st, key', val) # ns) found' db''" and xs: "ks_nodes (D ! k) = xs @ (st, key', val) # ns"
        and w: "kv_wf kv" "kv_wf (node_kv kv (nodes_end (k * Z + 16) xs) st key' val)"
      let ?a = "nodes_end (k * Z + 16) xs" let ?kv = "node_kv kv ?a st key' val"
      have ni: "node_in Z D ?a (st, key', val)" using xs k unfolding node_in_def N_def by blast
      have lk: "length key' < FDB_KV_NAME_MAX" using node_in_facts(4) [of db' D ?a st key' val] ni mem' by simp
      show "\<exists>stop found1 db1. find_kv_cb key ?kv found' db'' = Some (stop, found1, db1)
          \<and> (if stop then ?RJ ?kv found1 db1 else ?J ns found1 db1)"
      proof (cases "st = FDB_KV_WRITE \<and> key' = key")
        case True
        have "find_kv_cb key ?kv found' db'' = Some (True, True, db'')"
          using True strncmp_node [OF w(1) lk assms(2)] by (simp add: find_kv_cb_def)
        moreover have "found_kv Z D key val ?kv" using True ni w unfolding found_kv_def by blast
        ultimately show ?thesis using J by auto
      next
        case False
        have "find_kv_cb key ?kv found' db'' = Some (False, found', db'')"
          using False strncmp_node [OF w(1) lk assms(2)] by (auto simp: find_kv_cb_def)
        moreover have "?J ns found' db''"
        proof -
          obtain ys where "ks_nodes (D ! k) = ys @ (st, key', val) # ns"
            "\<forall>val. (FDB_KV_WRITE, key, val) \<notin> set ys" using J by blast
          then show ?thesis using J False
            by (intro conjI exI [of _ "ys @ [(st, key', val)]"]) auto
        qed
        ultimately show ?thesis
          by (intro exI [of _ False] exI [of _ found'] exI [of _ db''] conjI) simp_all
      qed
    qed (use mem' k kv c ne DD in \<open>auto simp: N_def sec_view_def\<close>)
    then obtain stop kv' found' db'' where it: "kv_iter_sector (find_kv_cb key) db' c kv False = Some (stop, kv', found', db'')"
      "kv_wf kv'" "if stop then ?RJ kv' found' db'' else ?J [] found' db''" by blast
    have "if stop then ?R kv' found' db'' D else ?I ks found' db'' D"
    proof (cases stop)
      case True
      then show ?thesis using it(3) I by auto
    next
      case False
      then have "miss k" using it(3) by (auto simp: miss_def)
      then show ?thesis using it(3) I False by auto
    qed
    moreover have "found = False" using I by simp
    ultimately show "\<exists>stop kv' found' db'' D''. kv_iter_sector (find_kv_cb key) db' c kv found = Some (stop, kv', found', db'')
        \<and> kv_wf kv' \<and> (if stop then ?R kv' found' db'' D'' else ?I ks found' db'' D'')"
      using it(1,2) by metis
  next
    show "?I (kvr.walk N o' (Suc (N - 1))) False db D"
    proof -
      have "\<exists>t. db = db\<lparr>kv_sector_cache_table := t\<rparr> \<and> sc_agrees Z D t"
        by (intro exI [of _ "kv_sector_cache_table db"]) (use m(9) in simp)
      moreover have "Suc (N - 1) = N" using o'(1) by simp
      then have "k \<in> set (kvr.walk N o' (Suc (N - 1)))" if "k < N" for k
        using kvr.set_walk [OF o'(1)] that by simp
      ultimately show ?thesis by blast
    qed
  qed (use o' assms(3) in \<open>auto simp: miss_def\<close>)
  then obtain kv' found db' D' where it: "kv_iter_loop (find_kv_cb key) db kv False (junk_sec (kvdb_stk db)) (o' * Z)
        ((N - Suc (N - 1)) * Z) = Some (kv', found, db')" "kv_wf kv'" "?R kv' found db' D' \<or> ?I [] found db' D'"
    by blast
  have n0: "(N - Suc (N - 1)) * Z = 0" by simp
  have e: "find_kv_no_cache db key kv = Some (found, kv', db')"
    using it(1) o'(2) unfolding n0 by (simp add: find_kv_no_cache_def kv_iterator_def)
  have "\<exists>t. db' = db\<lparr>kv_sector_cache_table := t\<rparr> \<and> sc_agrees Z D t" using it(3) by (elim disjE conjE)
  then obtain t where t: "db' = db\<lparr>kv_sector_cache_table := t\<rparr>" "sc_agrees Z D t" by blast
  have "if found then \<exists>val. found_kv Z D key val kv' else \<forall>val. (FDB_KV_WRITE, key, val) \<notin> set (all_nodes D)"
  proof (cases found)
    case True
    then show ?thesis using it(3) by simp
  next
    case False
    then have all: "\<forall>k < N. miss k" using it(3) by simp
    have "\<forall>val. (FDB_KV_WRITE, key, val) \<notin> set (all_nodes D)"
      unfolding in_all_nodes using all unfolding miss_def N_def by blast
    then show ?thesis using False by simp
  qed
  then show ?thesis using e t it(2) unfolding Z_def [symmetric] by blast
qed

subsection \<open>The cache of addresses\<close>

lemma kvc_get_sim: "kvc_ok t \<Longrightarrow> kvc_sim t u \<Longrightarrow> kvc_get u c = Some a \<longleftrightarrow> kvc_get t c = Some a"
  using kvc_ok_sim [of t u] by (auto simp: kvc_get_iff kvc_sim_def kvc_ok_def)

lemma kvc_agrees_sim: "kvc_agrees Z D t \<Longrightarrow> kvc_sim t u \<Longrightarrow> kvc_agrees Z D u"
  using kvc_ok_sim kvc_get_sim unfolding kvc_agrees_def kvc.coherent_def by metis

lemma saved_name_eq:
  assumes "kv_at m a st key val" "a + 24 + 64 \<le> length m"
  shows "strncmp_eq key (slice (a + 24) FDB_KV_NAME_MAX m) (length key)"
proof -
  have k: "length key < 64" "c_string key" using assms(1) by (simp_all add: kv_at_def fdb_const)
  have "take (length key) (slice (a + 24) 64 m) = take (length key) (slice (a + 24) (length key + length val) m)"
    using k(1) by (simp add: slice_def)
  also have "\<dots> = key" using assms(1) by (simp add: kv_at_def)
  finally show ?thesis
    using k assms(2) strncmp_eq_iff [of key "length key" "slice (a + 24) 64 m"] by (simp add: fdb_const)
qed

lemma get_kv_from_cache_loop_eq:
  assumes "kv_rep db D" "no_clash D key" "key_ok key" "set is \<subseteq> {..<FDB_KV_CACHE_TABLE_SIZE}"
  shows "get_kv_from_cache_loop is db key = Some (None, db)
    \<or> (\<exists>a val u. get_kv_from_cache_loop is db key = Some (Some a, db\<lparr>kv_cache_table := u\<rparr>)
        \<and> node_in (kvdb_sec_size db) D a (FDB_KV_WRITE, key, val) \<and> kvc_agrees (kvdb_sec_size db) D u)"
  using assms(4)
proof (induction "is")
  case (Cons i "is")
  let ?n = "kv_cache_table db ! i" let ?Z = "kvdb_sec_size db"
  have rep: "kv_mem db D" "kvc_agrees ?Z D (kv_cache_table db)" using assms(1) by (simp_all add: kv_rep_def)
  show ?case
  proof (cases "node_addr ?n \<noteq> FDB_DATA_UNUSED \<and> node_name_crc ?n = kv_name_crc key")
    case False
    then show ?thesis using Cons by auto
  next
    case True
    let ?a = "node_addr ?n"
    have ok: "kvc_ok (kv_cache_table db)" using rep(2) unfolding kvc_agrees_def by (rule kvc.coherent_ok)
    have "kvc_get (kv_cache_table db) (kv_name_crc key) = Some ?a"
      using True Cons.prems kvc_get_iff [OF ok] by auto
    then obtain key' val where n: "node_in ?Z D ?a (FDB_KV_WRITE, key', val)" "kv_name_crc key' = kv_name_crc key"
      using kvc.coherentD rep(2) unfolding kvc_agrees_def by blast
    have "(key', val) \<in> set (live D)" using n(1) by (auto simp: in_live node_in_iff [of _ _ ?Z])
    then have kk: "key' = key" using assms(2) n(2) unfolding no_clash_def by force
    note f = node_in_facts [OF rep(1) n(1)] and m = kv_memD [OF rep(1)]
    have room: "?a + 24 + 64 \<le> length (kv_img db)" "?a < 2147483648"
      using f(2) m(5,8) by (simp_all add: node_size_def)
    then have u: "u32 (?a + KV_HDR_DATA_SIZE) = ?a + 24" by (simp add: KV_HDR_DATA_SIZE_def u32_id)
    have rd: "kv_flash_read db (?a + 24) (replicate FDB_KV_NAME_MAX 0)
        = Some (FDB_NO_ERR, slice (?a + 24) FDB_KV_NAME_MAX (kv_img db))"
      using m(1) room by (simp add: kvf.rd_in fdb_const)
    have eq: "strncmp_eq key (slice (?a + 24) FDB_KV_NAME_MAX (kv_img db)) (length key)"
      using saved_name_eq [OF f(1) room(1)] kk by simp
    define n' where "n' = (if node_active ?n \<ge> 0xFFFF - FDB_KV_CACHE_TABLE_SIZE then ?n\<lparr>node_active := 0xFFFF\<rparr>
        else ?n\<lparr>node_active := node_active ?n + FDB_KV_CACHE_TABLE_SIZE\<rparr>)"
    have "get_kv_from_cache_loop (i # is) db key
        = Some (Some ?a, db\<lparr>kv_cache_table := (kv_cache_table db)[i := n']\<rparr>)"
      by (simp only: get_kv_from_cache_loop.simps Let_def True simp_thms if_True u rd Option.bind.simps
          prod.case eq n'_def)
    moreover have "kvc_agrees ?Z D ((kv_cache_table db)[i := n'])"
    proof -
      have "kvc_sim (kv_cache_table db) ((kv_cache_table db)[i := n'])"
        by (cases "node_active ?n \<ge> 0xFFFF - FDB_KV_CACHE_TABLE_SIZE")
          (simp_all add: n'_def kvc_sim_active)
      then show ?thesis using rep(2) kvc_agrees_sim by blast
    qed
    ultimately show ?thesis using n(1) kk by blast
  qed
qed simp

subsection \<open>Finding a key\<close>

lemma find_kv_eq:
  assumes "kv_rep db D" "no_clash D key" "key_ok key" "kv_wf kv"
  shows "\<exists>found kv' db'. find_kv db key kv = Some (found, kv', db') \<and> kv_wf kv'
    \<and> kv_rep db' D \<and> same_flash db db'
    \<and> (if found then \<exists>val. kv_map D key = Some val \<and> found_kv (kvdb_sec_size db) D key val kv'
       else kv_map D key = None)"
proof -
  let ?Z = "kvdb_sec_size db"
  have rep: "kv_mem db D" "kvc_agrees ?Z D (kv_cache_table db)" "kv_uniq D"
    using assms(1) by (simp_all add: kv_rep_def)
  have key: "c_string key" using assms(3) by (simp add: key_ok_def)
  note gl = get_kv_from_cache_loop_eq [OF assms(1-3), of "[0..<FDB_KV_CACHE_TABLE_SIZE]"]
  consider (miss) "get_kv_from_cache db key = Some (None, db)"
    | (hit) a val u where "get_kv_from_cache db key = Some (Some a, db\<lparr>kv_cache_table := u\<rparr>)"
        "node_in ?Z D a (FDB_KV_WRITE, key, val)" "kvc_agrees ?Z D u"
    using gl unfolding get_kv_from_cache_def by (auto simp: atLeast0LessThan)
  then show ?thesis
  proof cases
    case hit
    let ?db = "db\<lparr>kv_cache_table := u\<rparr>"
    have mem: "kv_mem ?db D" using rep(1) by (simp add: kv_mem_def kv_flash_def kv_ok_def kv_img_def)
    have rep': "kv_rep ?db D" using mem hit(3) rep(3) by (simp add: kv_rep_def)
    have "node_in (kvdb_sec_size ?db) D a (FDB_KV_WRITE, key, val)" using hit(2) by simp
    note r = read_kv_in [OF mem this, of "kv\<lparr>kv_addr_start := a\<rparr>"]
    have "find_kv db key kv = Some (True, node_kv (kv\<lparr>kv_addr_start := a\<rparr>) a FDB_KV_WRITE key val, ?db)"
      using r(1) assms(4) by (simp add: find_kv_def hit(1))
    moreover have "found_kv ?Z D key val (node_kv (kv\<lparr>kv_addr_start := a\<rparr>) a FDB_KV_WRITE key val)"
      unfolding found_kv_def using r(2) assms(4) hit(2)
      by (intro exI [of _ "kv\<lparr>kv_addr_start := a\<rparr>"] exI [of _ a]) simp
    moreover have "kv_map D key = Some val"
      using hit(2) by (auto simp: kv_map_Some [OF rep(3)] node_in_iff [of _ _ ?Z])
    ultimately show ?thesis using rep' r(2) assms(4)
      by (intro exI [of _ True] exI [of _ ?db]
          exI [of _ "node_kv (kv\<lparr>kv_addr_start := a\<rparr>) a FDB_KV_WRITE key val"]) simp
  next
    case miss
    obtain found kv' t where w: "find_kv_no_cache db key kv = Some (found, kv', db\<lparr>kv_sector_cache_table := t\<rparr>)"
      "kv_wf kv'" "sc_agrees ?Z D t"
      "if found then \<exists>val. found_kv ?Z D key val kv' else \<forall>val. (FDB_KV_WRITE, key, val) \<notin> set (all_nodes D)"
      using find_kv_no_cache_eq [OF rep(1) key assms(4)] by blast
    let ?db = "db\<lparr>kv_sector_cache_table := t\<rparr>"
    have mem: "kv_mem ?db D" using rep(1) w(3) by (rule kv_mem_sc)
    have rep': "kv_rep ?db D" using mem rep(2,3) by (simp add: kv_rep_def)
    show ?thesis
    proof (cases found)
      case False
      have "find_kv db key kv = Some (False, kv', ?db)" using False by (simp add: find_kv_def miss w(1))
      moreover have "kv_map D key = None" using w(4) False by (simp add: kv_map_None)
      ultimately show ?thesis using rep' w(2)
        by (intro exI [of _ False] exI [of _ kv'] exI [of _ ?db]) simp
    next
      case True
      then obtain val where v: "found_kv ?Z D key val kv'" using w(4) by auto
      then obtain kv0 a where a: "kv' = node_kv kv0 a FDB_KV_WRITE key val" "node_in ?Z D a (FDB_KV_WRITE, key, val)"
        unfolding found_kv_def by blast
      let ?u = "kvc_update (kv_name_crc key) a (kv_cache_table db)"
      have ua: "a \<noteq> FDB_DATA_UNUSED" using node_in_facts(6) [OF rep(1) a(2)] by (simp add: fdb_const)
      have "kvc_agrees ?Z D (kvc_put (kv_name_crc key) a (kv_cache_table db))"
        using rep(2) ua a(2) unfolding kvc_agrees_def
        by (intro kvc.coherent_put [where R = "\<lambda>c a. \<exists>key val. node_in ?Z D a (FDB_KV_WRITE, key, val) \<and> kv_name_crc key = c"])
          (auto simp: kvc_valid_def)
      then have ag: "kvc_agrees ?Z D ?u" by (simp add: kvc_put_def)
      let ?db' = "db\<lparr>kv_sector_cache_table := t, kv_cache_table := ?u\<rparr>"
      have "find_kv db key kv = Some (True, kv', ?db')"
        using True a(1) by (simp add: find_kv_def miss w(1) update_kv_cache_eq)
      moreover have "kv_rep ?db' D"
        using rep' ag by (simp add: kv_rep_def kv_mem_def kv_flash_def kv_ok_def kv_img_def)
      moreover have "same_flash db ?db'" unfolding same_flash_def by blast
      moreover have "kv_map D key = Some val"
        using a(2) by (auto simp: kv_map_Some [OF rep(3)] node_in_iff [of _ _ ?Z])
      ultimately show ?thesis using v w(2) by fastforce
    qed
  qed
qed

subsection \<open>Getting a value\<close>

lemma node_value_slice:
  assumes "kv_at m a st key val"
  shows "slice (a + 24 + length key) (length val) m = val"
proof -
  have "slice (a + 24 + length key) (length val) m
      = drop (length key) (slice (a + 24) (length key + length val) m)"
    by (simp add: slice_def drop_take add.commute add.left_commute)
  then show ?thesis using assms by (simp add: kv_at_def)
qed

text \<open>The read of a value into a buffer, whole or cut to the size of the buffer.\<close>

lemma get_kv_eq:
  assumes "kv_rep db D" "no_clash D key" "key_ok key" "min n (length (the (kv_map D key))) \<le> length buf"
  shows "\<exists>db'. kv_rep db' D \<and> same_flash db db'
    \<and> get_kv db key (Some buf) n =
        (case kv_map D key of
           None \<Rightarrow> Some (0, Some buf, 0, db')
         | Some val \<Rightarrow> Some (min n (length val), Some (take n val @ drop (min n (length val)) buf), length val, db'))"
proof -
  let ?Z = "kvdb_sec_size db"
  obtain found kv' db' where f: "find_kv db key (junk_kv (kvdb_stk db)) = Some (found, kv', db')" "kv_wf kv'"
    "kv_rep db' D" "same_flash db db'"
    "if found then \<exists>val. kv_map D key = Some val \<and> found_kv ?Z D key val kv' else kv_map D key = None"
    using find_kv_eq [OF assms(1-3), of "junk_kv (kvdb_stk db)"] by auto
  show ?thesis
  proof (cases found)
    case False
    then show ?thesis using f by (intro exI [of _ db']) (simp add: get_kv_def)
  next
    case True
    then obtain val kv0 a where v: "kv_map D key = Some val" "kv' = node_kv kv0 a FDB_KV_WRITE key val"
      "node_in ?Z D a (FDB_KV_WRITE, key, val)" using f(5) unfolding found_kv_def by auto
    have mem: "kv_mem db' D" using f(3) by (simp add: kv_rep_def)
    have z: "kvdb_sec_size db' = ?Z" using f(4) by (simp add: same_flash_fields)
    note nf = node_in_facts [OF mem v(3) [folded z]]
    define r where "r = min n (length val)"
    have rl: "(if n > kv_value_len kv' then kv_value_len kv' else n) = r" by (simp add: r_def v(2))
    have "a + 24 + length key + r \<le> length (kv_img db')"
      using nf(2) kv_memD(5) [OF mem] by (simp add: node_size_def r_def)
    moreover have "slice (a + 24 + length key) r (kv_img db') = take n val"
    proof -
      have "slice (a + 24 + length key) r (kv_img db') = take r (slice (a + 24 + length key) (length val) (kv_img db'))"
        by (simp add: slice_def r_def)
      then show ?thesis using node_value_slice [OF nf(1)] by (simp add: r_def min_def)
    qed
    ultimately have rd: "kv_flash_read db' (a + 24 + length key) (take r buf) = Some (FDB_NO_ERR, take n val)"
      using kv_memD(1) [OF mem] assms(4) v(1) by (simp add: kvf.rd_in r_def)
    have "\<not> length buf < r" using assms(4) v(1) unfolding r_def by (simp only: option.sel not_less)
    then have "get_kv db key (Some buf) n
        = Some (r, Some (take n val @ drop r buf), length val, db')"
      unfolding get_kv_def f(1) Option.bind.bind_lunit prod.case Let_def rl using True v(2) rd by simp
    then show ?thesis using v(1) f(3,4) by (auto simp: r_def)
  qed
qed

end
