(* ===== verification/Kvdb_Change.thy ===== *)
theory Kvdb_Change
  imports Kvdb_Lookup
begin

text \<open>
  The operations that change one sector of the key-value database: programming the status of a
  node, of a sector, or of its dirty flag, and writing a new node behind the last one. Each is a
  step from the sectors \<open>D\<close> to \<open>D[k := s']\<close>, with the sector cache kept in agreement.
\<close>

subsection \<open>One sector changes\<close>

lemma sector_ranges:
  assumes "k * Z \<le> i" "i < k * Z + Z" "j \<noteq> k"
  shows "\<not> (j * Z \<le> i \<and> i < j * Z + (Z :: nat))"
proof -
  have a: "i div Z = k" using assms(1,2) by (metis add.commute div_nat_eqI mult.commute mult_Suc)
  show ?thesis
  proof
    assume "j * Z \<le> i \<and> i < j * Z + Z"
    then have "i div Z = j" by (metis add.commute div_nat_eqI mult.commute mult_Suc)
    then show False using a assms(3) by simp
  qed
qed

lemma kv_flash_update:
  assumes "kv_flash db D" "k < length D" "length m = length (kv_img db)"
    and "kv_sector m (k * kvdb_sec_size db) (kvdb_sec_size db) s"
    and out: "\<And>i. i < length m \<Longrightarrow> \<not> (k * kvdb_sec_size db \<le> i \<and> i < k * kvdb_sec_size db + kvdb_sec_size db)
        \<Longrightarrow> m ! i = kv_img db ! i"
  shows "kv_flash (kv_put m db) (D[k := s])" "kvdb_sec_size (kv_put m db) = kvdb_sec_size db"
    "kv_img (kv_put m db) = m"
proof -
  let ?Z = "kvdb_sec_size db"
  note d = kv_flashD [OF assms(1)]
  note cfg = kv_put_cfg [OF d(1) assms(3)] and f = kv_cfg_fields [OF kv_put_cfg(1) [OF d(1) assms(3)]]
  show z: "kvdb_sec_size (kv_put m db) = kvdb_sec_size db" by (rule f(1))
  show img: "kv_img (kv_put m db) = m" using d(1) assms(3) by (rule kvf.img_put)
  have sec: "kv_sector m (j * ?Z) ?Z (D[k := s] ! j)" if j: "j < length D" for j
  proof (cases "j = k")
    case True
    then show ?thesis using assms(2,4) by simp
  next
    case False
    have "kv_sector m (j * ?Z) ?Z (D ! j)"
    proof (rule kv_sector_cong [OF d(6) [OF j] assms(3)])
      fix i
      assume i: "j * ?Z \<le> i" "i < j * ?Z + ?Z"
      have "i < length m" using i kv_sectorD(1) [OF d(6) [OF j]] assms(3) by linarith
      then show "m ! i = kv_img db ! i"
        using out sector_ranges [OF i] False by (metis)
    qed
    then show ?thesis using False by simp
  qed
  show "kv_flash (kv_put m db) (D[k := s])"
    unfolding kv_flash_def f(1,2) img cfg(2)
    using kvf.ok_put [OF d(1) assms(3)] d(2-5,7) sec assms(3) by simp
qed

text \<open>Changing the cached entry of one sector in place.\<close>

definition sc_modify :: "nat \<Rightarrow> (kvdb_sec_info \<Rightarrow> kvdb_sec_info) \<Rightarrow> kvdb_sec_info list \<Rightarrow> kvdb_sec_info list" where
  "sc_modify a f t =
     (case List.find (\<lambda>i. sec_addr (t ! i) = a) [0..<FDB_SECTOR_CACHE_TABLE_SIZE] of
        None \<Rightarrow> t | Some i \<Rightarrow> t[i := f (t ! i)])"

lemma sc_modify_agrees:
  assumes ag: "sc_agrees Z D t" and k: "k < length D" and a: "a = k * Z" "a \<noteq> FDB_DATA_UNUSED" and Z: "0 < Z"
    and f: "\<And>c. sec_cached a Z (D ! k) c \<Longrightarrow> sec_cached a Z s (f c)"
  shows "sc_agrees Z (D[k := s]) (sc_modify a f t)"
proof -
  let ?R = "\<lambda>D a c. \<exists>k < length D. a = k * Z \<and> sec_cached a Z (D ! k) c"
  have ok: "sc_ok t" using ag unfolding sc_agrees_def by (rule scc.coherent_ok)
  have other: "?R (D[k := s]) b c" if "?R D b c" "b \<noteq> a" for b c
  proof -
    obtain j where j: "j < length D" "b = j * Z" "sec_cached b Z (D ! j) c" using \<open>?R D b c\<close> by blast
    then have "j \<noteq> k" using that(2) a(1) by auto
    then show ?thesis using j by (intro exI [of _ j]) simp
  qed
  show ?thesis
  proof (cases "List.find (\<lambda>i. sec_addr (t ! i) = a) [0..<FDB_SECTOR_CACHE_TABLE_SIZE]")
    case None
    then have "sc_get t a = None" by (simp add: sc_get_def)
    then show ?thesis
      using ag ok other None unfolding sc_agrees_def scc.coherent_def sc_modify_def by fastforce
  next
    case (Some i)
    then have i: "i < FDB_SECTOR_CACHE_TABLE_SIZE" "sec_addr (t ! i) = a" by (auto simp: find_Some_upt)
    then have "sc_get t a = Some (t ! i)" using sc_get_iff [OF ok] a(2) by blast
    then obtain j where "j < length D" "a = j * Z" "sec_cached a Z (D ! j) (t ! i)"
      using ag scc.coherentD unfolding sc_agrees_def by blast
    then have c: "sec_cached a Z s (f (t ! i))" using f a(1) Z by simp
    then have fa: "sec_addr (f (t ! i)) = a" by (simp add: sec_cached_def sec_view_def)
    have e: "sec_addr (f (t ! i)) = FDB_DATA_UNUSED \<or> sec_addr (t ! i) = sec_addr (f (t ! i))
      \<or> (\<forall>j < FDB_SECTOR_CACHE_TABLE_SIZE. sec_addr (t ! j) \<noteq> sec_addr (f (t ! i)))" using fa i(2) by simp
    note u = sc_get_list_update [OF ok i(1) e]
    have m: "sc_modify a f t = t[i := f (t ! i)]" using Some by (simp add: sc_modify_def)
    have "?R (D[k := s]) b w" if g: "sc_get (t[i := f (t ! i)]) b = Some w" for b w
    proof (cases "b = a")
      case True
      then have "w = f (t ! i)" using u(2) [OF g] fa by simp
      then show ?thesis using True c k a(1) by (intro exI [of _ k]) simp
    next
      case False
      then have "sc_get t b = Some w" using u(2) [OF g] fa by simp
      then have "?R D b w" using ag scc.coherentD unfolding sc_agrees_def by blast
      then show ?thesis using False by (rule other)
    qed
    then show ?thesis unfolding sc_agrees_def scc.coherent_def m using u(1) by blast
  qed
qed

lemma sc_agrees_same:
  assumes "sc_agrees Z D t" "k < length D" "ks_store s = ks_store (D ! k)" "ks_dirty s = ks_dirty (D ! k)"
    and "\<And>a. nodes_end a (ks_nodes s) = nodes_end a (ks_nodes (D ! k))"
  shows "sc_agrees Z (D[k := s]) t"
  using assms(1) unfolding sc_agrees_def
proof (rule scc.coherent_mono)
  fix a c
  assume "\<exists>k < length D. a = k * Z \<and> sec_cached a Z (D ! k) c"
  then obtain j where j: "j < length D" "a = j * Z" "sec_cached a Z (D ! j) c" by blast
  have "sec_cached a Z (D[k := s] ! j) c"
    using j assms(2-5) by (cases "j = k") (auto simp: sec_cached_def sec_view_def sec_room_def)
  then show "\<exists>ka < length (D[k := s]). a = ka * Z \<and> sec_cached a Z (D[k := s] ! ka) c"
    using j by auto
qed

lemma sc_functions:
  "update_sector_empty_addr_cache db a e = db\<lparr>kv_sector_cache_table :=
     sc_modify a (\<lambda>s. s\<lparr>sec_empty_kv := e, sec_remain := u32_sub (kvdb_sec_size db) (u32_sub e (sec_addr s))\<rparr>)
       (kv_sector_cache_table db)\<rparr>"
  "update_sector_status_store_cache db a st = db\<lparr>kv_sector_cache_table :=
     sc_modify a (\<lambda>s. s\<lparr>sec_store := st\<rparr>) (kv_sector_cache_table db)\<rparr>"
  by (simp_all add: update_sector_empty_addr_cache_def update_sector_status_store_cache_def
      get_sector_from_cache_def sc_modify_def Let_def split: option.split)

text \<open>What the steps keep besides the flash and the sector cache.\<close>

definition kv_frame :: "fdb_kvdb \<Rightarrow> fdb_kvdb \<Rightarrow> bool" where
  "kv_frame db db' \<longleftrightarrow>
     kv_cfg db' = kv_cfg db \<and> kvdb_oldest_addr db' = kvdb_oldest_addr db
   \<and> kv_gc_request db' = kv_gc_request db \<and> kv_cur_kv db' = kv_cur_kv db
   \<and> kv_cur_sector db' = kv_cur_sector db"

definition kv_step :: "fdb_kvdb \<Rightarrow> fdb_kvdb \<Rightarrow> bool" where
  "kv_step db db' \<longleftrightarrow> kv_frame db db' \<and> kv_cache_table db' = kv_cache_table db
   \<and> kv_last_is_complete_del db' = kv_last_is_complete_del db"

lemma kv_frame_refl [simp]: "kv_frame db db"
  by (simp add: kv_frame_def)

lemma kv_frame_trans: "kv_frame db db' \<Longrightarrow> kv_frame db' db'' \<Longrightarrow> kv_frame db db''"
  by (simp add: kv_frame_def)

lemma kv_step_refl [simp]: "kv_step db db"
  by (simp add: kv_step_def)

lemma kv_step_trans: "kv_step db db' \<Longrightarrow> kv_step db' db'' \<Longrightarrow> kv_step db db''"
  using kv_frame_trans by (auto simp: kv_step_def)

lemma kv_step_put: "kv_ok db \<Longrightarrow> length m = length (kv_img db) \<Longrightarrow> kv_step db (kv_put m db)"
  by (simp add: kv_step_def kv_frame_def kv_put_cfg)

lemma kv_step_sc [simp]: "kv_step db (db\<lparr>kv_sector_cache_table := t\<rparr>)"
  by (simp add: kv_step_def kv_frame_def kv_cfg_def Let_def)

lemma kv_frame_sec: "kv_frame db db' \<Longrightarrow> kvdb_sec_size db' = kvdb_sec_size db"
  using kv_cfg_fields(1) unfolding kv_frame_def by blast

lemma kv_step_sec: "kv_step db db' \<Longrightarrow> kvdb_sec_size db' = kvdb_sec_size db"
  using kv_frame_sec unfolding kv_step_def by blast

lemma same_flash_frame: "same_flash db db' \<Longrightarrow> kv_frame db db'"
  by (simp add: kv_frame_def same_flash_fields)

subsection \<open>Status bytes\<close>

lemma splice1_nth:
  assumes "a < length m" "i < length m"
  shows "splice m a [b] ! i = (if i = a then b else m ! i)"
  using assms by (auto simp: nth_splice)

lemma splice1_slice: "a < length m \<Longrightarrow> slice a 1 (splice m a [b]) = [b]"
  by (simp add: slice_splice_same)

lemma kv_at_status:
  assumes "kv_at m a st key val"
  shows "kv_at (splice m a [status_byte (kv_status_num st')]) a st' key val"
proof -
  have l: "a + 24 + length key + length val \<le> length m" using assms by (simp add: kv_at_def node_size_def)
  have "slice (a + 4) 20 (splice m a [status_byte (kv_status_num st')]) = slice (a + 4) 20 m"
    "slice (a + 24) (length key + length val) (splice m a [status_byte (kv_status_num st')])
      = slice (a + 24) (length key + length val) m"
    using l by (auto intro!: slice_splice_disj)
  then show ?thesis using assms l by (simp add: kv_at_def node_size_def slice_splice_same)
qed

lemma kv_nodes_status:
  assumes "kv_nodes m b (xs @ (st, key, val) # ys)" "nodes_end b (xs @ (st, key, val) # ys) \<le> length m"
    and "a = nodes_end b xs"
  shows "kv_nodes (splice m a [status_byte (kv_status_num st')]) b (xs @ (st', key, val) # ys)"
proof -
  let ?m = "splice m a [status_byte (kv_status_num st')]"
  have n: "kv_nodes m b xs" "kv_at m a st key val" "kv_nodes m (a + node_size key val) ys"
    using assms(1,3) by (simp_all add: kv_nodes_append)
  have e: "a + node_size key val \<le> length m" "0 < node_size key val"
    using n(2) by (simp_all add: kv_at_def node_size_def)
  have l: "length ?m = length m" using e by simp
  have out: "?m ! i = m ! i" if "i \<noteq> a" "i < length m" for i using that e by (simp add: splice1_nth)
  have "kv_nodes ?m b xs" using n(1) l by (rule kv_nodes_cong) (rule out, use e assms(3) in auto)
  moreover have "kv_nodes ?m (a + node_size key val) ys"
    using n(3) l by (rule kv_nodes_cong) (rule out, use e assms(2,3) in auto)
  ultimately show ?thesis using kv_at_status [OF n(2)] assms(3) by (simp add: kv_nodes_append)
qed

text \<open>Programming the status of a node.\<close>

lemma write_node_status:
  assumes "kv_mem db D" "k < length D" "ks_nodes (D ! k) = xs @ (st, key, val) # ys"
    and "a = nodes_end (k * kvdb_sec_size db + 16) xs" "st' \<noteq> FDB_KV_UNUSED"
  defines "m \<equiv> splice (kv_img db) a [status_byte (kv_status_num st')]"
    and "s \<equiv> (D ! k)\<lparr>ks_nodes := xs @ (st', key, val) # ys\<rparr>"
  shows "kv_write_status db a FDB_KV_STATUS_NUM (kv_status_num st') sync = Some (FDB_NO_ERR, kv_put m db)"
    "kv_mem (kv_put m db) (D[k := s])" "kv_step db (kv_put m db)"
proof -
  let ?Z = "kvdb_sec_size db" let ?S = "k * ?Z"
  note me = kv_memD [OF assms(1)] and sa = sector_addr [OF assms(1,2)]
  note d = kv_sectorD [OF me(6) [OF assms(2)]]
  have fl: "kv_flash db D" using assms(1) by (simp add: kv_mem_def)
  have e: "?S + 16 \<le> a" "a + node_size key val \<le> nodes_end (?S + 16) (ks_nodes (D ! k))"
    using nodes_end_ge [of "?S + 16" xs] nodes_end_ge [of "a + node_size key val" ys] assms(3,4) by simp_all
  have a: "a < ?S + ?Z" "a < length (kv_img db)" "u32 a = a"
    using e d(1,4) sa(2) by (auto intro!: u32_id)
  have n: "0 < kv_status_num st'" "kv_status_num st' < FDB_KV_STATUS_NUM" using assms(5) by (cases st') simp_all
  show "kv_write_status db a FDB_KV_STATUS_NUM (kv_status_num st') sync = Some (FDB_NO_ERR, kv_put m db)"
    using n a me(1) by (subst kv_write_status_1) (simp_all add: kvf.wr_in m_def status_byte_def del: kv_status_num.simps)
  have l: "length m = length (kv_img db)" using a by (simp add: m_def)
  show "kv_step db (kv_put m db)" using me(1) l by (rule kv_step_put)
  have out: "m ! i = kv_img db ! i" if "i \<noteq> a" "i < length m" for i
    using that a l by (simp add: m_def splice1_nth)
  have "kv_sector m ?S ?Z s"
    unfolding kv_sector_def
  proof (intro conjI allI impI)
    show "?S + ?Z \<le> length m" using d(1) l by simp
    show "kv_hdr m ?S (ks_store s) (ks_dirty s)"
      using d(2) unfolding s_def
      by (simp, rule kv_hdr_cong) (use d(1,4,7) l in simp, simp add: l, rule out, use e l d(1,4,7) in auto)
    show "kv_nodes m (?S + 16) (ks_nodes s)"
      unfolding s_def m_def using d(1,3,4) assms(3,4) by (auto intro!: kv_nodes_status [where st = st])
    show "nodes_end (?S + 16) (ks_nodes s) + 88 < ?S + ?Z" using d(4) assms(3) by (simp add: s_def)
    fix i
    assume "nodes_end (?S + 16) (ks_nodes s) \<le> i \<and> i < ?S + ?Z"
    then have "nodes_end (?S + 16) (ks_nodes (D ! k)) \<le> i" "i < ?S + ?Z" using assms(3) by (simp_all add: s_def)
    then show "m ! i = FDB_BYTE_ERASED" using d(1,5) out [of i] l e by (auto simp: node_size_def)
  next
    show "ks_store s = (if ks_nodes s = [] then FDB_SECTOR_STORE_EMPTY else FDB_SECTOR_STORE_USING)"
      using d(6) assms(3) by (simp add: s_def)
  qed
  moreover have o: "m ! i = kv_img db ! i" if "i < length m" "\<not> (?S \<le> i \<and> i < ?S + ?Z)" for i
    using out [of i] that a(1) e(1) by (cases "i = a") simp_all
  ultimately have f: "kv_flash (kv_put m db) (D[k := s])" "kvdb_sec_size (kv_put m db) = ?Z"
    using kv_flash_update [OF fl assms(2) l _ o] by blast+
  moreover have "sc_agrees ?Z (D[k := s]) (kv_sector_cache_table db)"
    using me(9) assms(2) by (rule sc_agrees_same) (simp_all add: s_def assms(3))
  ultimately show "kv_mem (kv_put m db) (D[k := s])" by (simp add: kv_mem_def)
qed

subsection \<open>The dirty flag of a sector\<close>

lemma write_dirty_status:
  assumes "kv_mem db D" "k < length D" "d \<noteq> FDB_SECTOR_DIRTY_UNUSED"
  defines "S \<equiv> k * kvdb_sec_size db"
  defines "m \<equiv> splice (kv_img db) (S + 1) [status_byte (dirty_num d)]"
    and "s \<equiv> (D ! k)\<lparr>ks_dirty := d\<rparr>"
  shows "kv_write_status db (S + 1) FDB_SECTOR_DIRTY_STATUS_NUM (dirty_num d) sync = Some (FDB_NO_ERR, kv_put m db)"
    "kv_flash (kv_put m db) (D[k := s])" "kv_step db (kv_put m db)"
proof -
  let ?Z = "kvdb_sec_size db"
  note me = kv_memD [OF assms(1)] and sa = sector_addr [OF assms(1,2), folded S_def]
  note d = kv_sectorD [OF me(6) [OF assms(2)], folded S_def]
  have fl: "kv_flash db D" using assms(1) by (simp add: kv_mem_def)
  have a: "S + 1 < S + ?Z" "S + 1 < length (kv_img db)" "u32 (S + 1) = S + 1" "S + 16 \<le> length (kv_img db)"
    using d(1,4,7) sa(2) by (auto intro!: u32_id)
  have n: "0 < dirty_num d" "dirty_num d < FDB_SECTOR_DIRTY_STATUS_NUM" using assms(3) by (cases d) simp_all
  show "kv_write_status db (S + 1) FDB_SECTOR_DIRTY_STATUS_NUM (dirty_num d) sync = Some (FDB_NO_ERR, kv_put m db)"
    unfolding kv_write_status_1 [OF n status_num_le_8(4)] a(3) m_def status_byte_def
    using me(1) a(2) by (subst kvf.wr_in) auto
  have l: "length m = length (kv_img db)" using a by (simp add: m_def)
  show "kv_step db (kv_put m db)" using me(1) l by (rule kv_step_put)
  have out: "m ! i = kv_img db ! i" if "i \<noteq> S + 1" "i < length m" for i
    unfolding m_def by (subst splice1_nth) (use that a l in auto)
  have sl: "slice b n m = slice b n (kv_img db)" if "b + n \<le> S + 1 \<or> S + 2 \<le> b" "b + n \<le> length m" for b n
    unfolding m_def by (rule slice_splice_disj) (use that a l in auto)
  have "kv_sector m S ?Z s"
    unfolding kv_sector_def
  proof (intro conjI allI impI)
    show "S + ?Z \<le> length m" using d(1) l by simp
    have "slice (S + 1) 1 m = [status_byte (dirty_num d)]"
      unfolding m_def using a(2) by (rule splice1_slice)
    then show "kv_hdr m S (ks_store s) (ks_dirty s)"
      using d(2) sl [of S 1] sl [of "S + 4" 4] sl [of "S + 8" 4] a l by (simp add: kv_hdr_def s_def)
    have "kv_nodes m (S + 16) (ks_nodes (D ! k))"
      using d(3) l by (rule kv_nodes_cong) (rule out, use l d(1,4) in auto)
    then show "kv_nodes m (S + 16) (ks_nodes s)" by (simp add: s_def)
    show "nodes_end (S + 16) (ks_nodes s) + 88 < S + ?Z" using d(4) by (simp add: s_def)
    fix i
    assume "nodes_end (S + 16) (ks_nodes s) \<le> i \<and> i < S + ?Z"
    then have "nodes_end (S + 16) (ks_nodes (D ! k)) \<le> i" "i < S + ?Z" by (simp_all add: s_def)
    then show "m ! i = FDB_BYTE_ERASED" using d(1,5,7) out [of i] l by auto
  next
    show "ks_store s = (if ks_nodes s = [] then FDB_SECTOR_STORE_EMPTY else FDB_SECTOR_STORE_USING)"
      using d(6) by (simp add: s_def)
  qed
  moreover have o: "m ! i = kv_img db ! i" if "i < length m" "\<not> (S \<le> i \<and> i < S + ?Z)" for i
    using out [of i] that a(1) by (cases "i = S + 1") simp_all
  ultimately show "kv_flash (kv_put m db) (D[k := s])"
    using kv_flash_update [OF fl assms(2) l] unfolding S_def by blast
qed

definition mark_dirty :: "nat \<Rightarrow> kv_sec list \<Rightarrow> kv_sec list" where
  "mark_dirty k D =
     (if ks_dirty (D ! k) = FDB_SECTOR_DIRTY_FALSE then D[k := (D ! k)\<lparr>ks_dirty := FDB_SECTOR_DIRTY_TRUE\<rparr>] else D)"

lemma mark_dirty_simps [simp]:
  "length (mark_dirty k D) = length D" "ks_nodes (mark_dirty k D ! j) = ks_nodes (D ! j)"
  "ks_store (mark_dirty k D ! j) = ks_store (D ! j)"
  by (cases "j = k"; cases "k < length D"; simp add: mark_dirty_def list_update_beyond)+

lemma dirty_num_inj: "dirty_num a = dirty_num b \<longleftrightarrow> a = b"
  by (metis dirty_of_num)

lemma read_dirty:
  assumes "kv_mem db D" "k < length D" "S = k * kvdb_sec_size db"
  shows "fdb_read_status (kv_parent db) (S + 1) FDB_SECTOR_DIRTY_STATUS_NUM = Some (dirty_num (ks_dirty (D ! k)))"
proof -
  note me = kv_memD [OF assms(1)]
  note d = kv_sectorD [OF me(6) [OF assms(2)], folded assms(3)]
  have t: "FDB_STATUS_TABLE_SIZE FDB_WRITE_GRAN FDB_SECTOR_DIRTY_STATUS_NUM = 1"
    by (simp add: FDB_STATUS_TABLE_SIZE_def fdb_const)
  have "slice (S + 1) 1 (kv_img db) = [status_byte (dirty_num (ks_dirty (D ! k)))]"
    using d(2) by (simp add: kv_hdr_def)
  then have "fdb_flash_read (kv_parent db) (S + 1) (replicate 1 (kvdb_stk db))
      = Some (FDB_NO_ERR, [status_byte (dirty_num (ks_dirty (D ! k)))])"
    using me(1) d(1,4,7) by (subst dbs.rd_in) (simp_all add: kv_ok_def kv_img_def)
  moreover have "fdb_get_status FDB_WRITE_GRAN [status_byte (dirty_num (ks_dirty (D ! k)))]
      FDB_SECTOR_DIRTY_STATUS_NUM = dirty_num (ks_dirty (D ! k))"
    unfolding status_byte_def by (intro get_status_1) simp_all
  ultimately show ?thesis by (simp add: fdb_read_status_def t)
qed

lemma del_kv_dirty_eq:
  assumes "kv_mem db D" "k < length D"
    and "k * kvdb_sec_size db \<le> kv_addr_start kv" "kv_addr_start kv < k * kvdb_sec_size db + kvdb_sec_size db"
  shows "\<exists>db'. del_kv_dirty db kv = Some (FDB_NO_ERR, db') \<and> kv_mem db' (mark_dirty k D) \<and> kv_step db db'"
proof -
  let ?Z = "kvdb_sec_size db" let ?S = "k * ?Z"
  note me = kv_memD [OF assms(1)] and sa = sector_addr [OF assms(1,2)]
  have base: "FDB_ALIGN_DOWN (kv_addr_start kv) ?Z = ?S" using assms(3,4) by (intro align_down_in [of _ k]) simp_all
  have u: "u32 (?S + SECTOR_DIRTY_OFFSET) = ?S + 1"
    using sa(2) me(2) by (subst u32_id) (auto simp: SECTOR_DIRTY_OFFSET_def)
  note rd = read_dirty [OF assms(1,2) refl]
  show ?thesis
  proof (cases "ks_dirty (D ! k) = FDB_SECTOR_DIRTY_FALSE")
    case False
    then have "del_kv_dirty db kv = Some (FDB_NO_ERR, db)"
      unfolding del_kv_dirty_def Let_def base u rd Option.bind.bind_lunit
      by (simp add: dirty_num_inj del: dirty_num.simps)
    then show ?thesis using assms(1) False by (simp add: mark_dirty_def)
  next
    case True
    define m where "m = splice (kv_img db) (?S + 1) [status_byte (dirty_num FDB_SECTOR_DIRTY_TRUE)]"
    let ?s = "(D ! k)\<lparr>ks_dirty := FDB_SECTOR_DIRTY_TRUE\<rparr>"
    have dt: "FDB_SECTOR_DIRTY_TRUE \<noteq> FDB_SECTOR_DIRTY_UNUSED" by simp
    note w = write_dirty_status [OF assms(1,2) dt, folded m_def]
    let ?db1 = "kv_put m db"
    have z1: "kvdb_sec_size ?db1 = ?Z" using w(3) by (rule kv_step_sec)
    let ?db' = "?db1\<lparr>kv_sector_cache_table := sc_modify ?S (\<lambda>s. s\<lparr>sec_dirty := FDB_SECTOR_DIRTY_TRUE\<rparr>) (kv_sector_cache_table db)\<rparr>"
    have e: "del_kv_dirty db kv = Some (FDB_NO_ERR, ?db')"
      unfolding del_kv_dirty_def Let_def base u rd Option.bind.bind_lunit w(1)
      using True
      by (simp add: get_sector_from_cache_def sc_modify_def split: option.split)
    have "sc_agrees ?Z (D[k := ?s]) (sc_modify ?S (\<lambda>s. s\<lparr>sec_dirty := FDB_SECTOR_DIRTY_TRUE\<rparr>) (kv_sector_cache_table db))"
      using me(9) assms(2) refl sa(3) me(2)
      by (rule sc_modify_agrees) (auto simp: sec_cached_def sec_view_def sec_room_def)
    then have "kv_mem ?db' (D[k := ?s])" using w(2) z1 by (simp add: kv_mem_def)
    moreover have "kv_step db ?db'" using w(3) kv_step_sc kv_step_trans by blast
    ultimately show ?thesis using e True by (intro exI [of _ ?db']) (simp add: mark_dirty_def)
  qed
qed

subsection \<open>Writing a node\<close>

definition node_written :: "bytes \<Rightarrow> nat \<Rightarrow> bytes \<Rightarrow> bytes \<Rightarrow> bytes" where
  "node_written m a key val =
     splice (splice (splice (splice (splice m a [status_byte (kv_status_num FDB_KV_PRE_WRITE)])
       (a + 4) (slice 4 20 (kv_hdr_image key val))) (a + 24) key) (a + 24 + length key) val)
       a [status_byte (kv_status_num FDB_KV_WRITE)]"

lemma length_node_written [simp]:
  "a + node_size key val \<le> length m \<Longrightarrow> length (node_written m a key val) = length m"
  by (simp add: node_written_def node_size_def)

lemma node_written_out:
  assumes "a + node_size key val \<le> length m" "i < length m" "i < a \<or> a + node_size key val \<le> i"
  shows "node_written m a key val ! i = m ! i"
  using assms by (auto simp: node_written_def node_size_def nth_splice)

lemma node_written_at:
  assumes "a + node_size key val \<le> length m" "key_ok key"
  shows "kv_at (node_written m a key val) a FDB_KV_WRITE key val"
proof -
  let ?w = "node_written m a key val" let ?h = "slice 4 20 (kv_hdr_image key val)"
  have l: "a + 24 + length key + length val \<le> length m" using assms(1) by (simp add: node_size_def)
  have h: "length ?h = 20" by simp
  have "slice a 1 ?w = [status_byte (kv_status_num FDB_KV_WRITE)]"
    using l by (simp add: node_written_def slice_splice_same)
  moreover have "slice (a + 4) 20 ?w = ?h"
    using l h by (simp add: node_written_def slice_splice_disj slice_splice_same)
  moreover have "slice (a + 24) (length key) ?w = key"
    using l h by (simp add: node_written_def slice_splice_disj slice_splice_same)
  moreover have "slice (a + 24 + length key) (length val) ?w = val"
    using l h by (simp add: node_written_def slice_splice_disj slice_splice_same)
  ultimately show ?thesis
    using assms slice_append_split [of "a + 24" "length key" "length val" ?w]
    by (simp add: kv_at_def key_ok_def)
qed

lemma node_written_sector:
  assumes s: "kv_sector m S Z s" and a: "a = nodes_end (S + 16) (ks_nodes s)"
    and room: "a + node_size key val + 88 < S + Z" and key: "key_ok key"
  shows "kv_sector (node_written (splice m S [status_byte (store_num FDB_SECTOR_STORE_USING)]) a key val) S Z
    (s\<lparr>ks_store := FDB_SECTOR_STORE_USING, ks_nodes := ks_nodes s @ [(FDB_KV_WRITE, key, val)]\<rparr>)"
proof -
  note d = kv_sectorD [OF s]
  let ?m1 = "splice m S [status_byte (store_num FDB_SECTOR_STORE_USING)]"
  let ?w = "node_written ?m1 a key val"
  let ?s = "s\<lparr>ks_store := FDB_SECTOR_STORE_USING, ks_nodes := ks_nodes s @ [(FDB_KV_WRITE, key, val)]\<rparr>"
  have l1: "length ?m1 = length m" using d(1,4,7) by (intro length_splice) simp
  have al: "a + node_size key val \<le> length ?m1" "S + 16 \<le> a" using room d(1,7) l1 a by simp_all
  have lw: "length ?w = length m" using al(1) l1 by simp
  have o1: "?m1 ! i = m ! i" if "i \<noteq> S" "i < length m" for i
    using that d(1,4,7) by (subst splice1_nth) auto
  have out: "?w ! i = m ! i" if "i \<noteq> S" "i < length m" "i < a \<or> a + node_size key val \<le> i" for i
    using node_written_out [OF al(1), of i] that o1 l1 by simp
  have ws: "?w ! S = status_byte (store_num FDB_SECTOR_STORE_USING)"
    using node_written_out [OF al(1), of S] al(2) d(1,4,7) l1 by (simp add: splice1_nth)
  show ?thesis
    unfolding kv_sector_def
  proof (intro conjI allI impI)
    show "S + Z \<le> length ?w" using d(1) lw by simp
    have "slice S 1 ?w = [status_byte (store_num FDB_SECTOR_STORE_USING)]"
    proof (rule nth_equalityI)
      show "length (slice S 1 ?w) = length [status_byte (store_num FDB_SECTOR_STORE_USING)]"
        using d(1,4,7) lw by simp
      fix i assume "i < length (slice S 1 ?w)"
      then show "slice S 1 ?w ! i = [status_byte (store_num FDB_SECTOR_STORE_USING)] ! i"
        using d(1,4,7) lw ws by (simp add: nth_slice)
    qed
    moreover have "slice (S + b) n ?w = slice (S + b) n m" if "0 < b" "b + n \<le> 16" for b n
      using that d(1,4,7) lw al by (intro slice_eqI out) auto
    from this [of 1 1] this [of 4 4] this [of 8 4] have "slice (S + 1) 1 ?w = slice (S + 1) 1 m"
      "slice (S + 4) 4 ?w = slice (S + 4) 4 m" "slice (S + 8) 4 ?w = slice (S + 8) 4 m" by simp_all
    ultimately show "kv_hdr ?w S (ks_store ?s) (ks_dirty ?s)" using d(2) by (simp add: kv_hdr_def)
    have "kv_nodes ?w (S + 16) (ks_nodes s)"
      using d(3) lw by (rule kv_nodes_cong) (rule out, use d(1,4) a in auto)
    then show "kv_nodes ?w (S + 16) (ks_nodes ?s)"
      using node_written_at [OF al(1) key] a by (simp add: kv_nodes_append)
    show "nodes_end (S + 16) (ks_nodes ?s) + 88 < S + Z" using room a by simp
    fix i
    assume "nodes_end (S + 16) (ks_nodes ?s) \<le> i \<and> i < S + Z"
    then have "a + node_size key val \<le> i" "i < S + Z" using a by simp_all
    then show "?w ! i = FDB_BYTE_ERASED" using out [of i] d(1) d(5) [of i] al(2) a by simp
  qed simp
qed

end
