(* ===== verification/Kvdb_Set.thy ===== *)
theory Kvdb_Set
  imports Kvdb_Change "HOL-Library.Multiset"
begin

text \<open>
  Deleting and creating a node. \<open>del_kv\<close> programs the status of a node and marks its sector dirty;
  \<open>create_kv_blob\<close> writes a node behind the last one of a sector. The lemmas carry each through to
  the memory \<open>kv_mem\<close>, the cache of KV addresses and the abstract map.
\<close>

subsection \<open>Effects on the abstract map\<close>

definition livem :: "kv_node list \<Rightarrow> (bytes \<times> bytes) multiset" where
  "livem ns = mset (map snd (filter (\<lambda>n. fst n = FDB_KV_WRITE) ns))"

lemma livem_append [simp]: "livem (xs @ ys) = livem xs + livem ys"
  by (simp add: livem_def)

lemma livem_simps [simp]:
  "livem [] = {#}"
  "livem ((st, key, val) # ns) = (if st = FDB_KV_WRITE then {#(key, val)#} else {#}) + livem ns"
  by (simp_all add: livem_def)

definition live_ms :: "kv_sec list \<Rightarrow> (bytes \<times> bytes) multiset" where
  "live_ms D = mset (live D)"

lemma live_ms_sum: "live_ms D = (\<Sum>s \<leftarrow> D. livem (ks_nodes s))"
  by (induction D) (simp_all add: live_ms_def live_def all_nodes_def livem_def)

lemma live_ms_update:
  assumes "k < length D"
  shows "live_ms (D[k := s]) + livem (ks_nodes (D ! k)) = live_ms D + livem (ks_nodes s)"
proof -
  let ?f = "\<lambda>s. livem (ks_nodes s)"
  have e: "live_ms (xs @ y # ys) = live_ms xs + ?f y + live_ms ys" for xs y ys
    by (simp add: live_ms_sum)
  have "live_ms (D[k := s]) = live_ms (take k D) + ?f s + live_ms (drop (Suc k) D)"
    using e [of "take k D" s "drop (Suc k) D"] assms by (simp add: upd_conv_take_nth_drop)
  moreover have "live_ms D = live_ms (take k D) + ?f (D ! k) + live_ms (drop (Suc k) D)"
    using e [of "take k D" "D ! k" "drop (Suc k) D"] assms by (simp add: id_take_nth_drop [symmetric])
  ultimately show ?thesis by (simp add: ac_simps)
qed

lemma in_live_ms: "(key, val) \<in># live_ms D \<longleftrightarrow> (FDB_KV_WRITE, key, val) \<in> set (all_nodes D)"
  by (simp add: live_ms_def in_live)

lemma kv_uniq_ms: "kv_uniq D \<longleftrightarrow> (\<forall>key. count (image_mset fst (live_ms D)) key \<le> 1)"
proof -
  have "kv_uniq D \<longleftrightarrow> (\<forall>key. count (mset (map fst (live D))) key = (if key \<in> set (map fst (live D)) then 1 else 0))"
    unfolding kv_uniq_def by (rule distinct_count_atmost_1)
  also have "\<dots> \<longleftrightarrow> (\<forall>key. count (mset (map fst (live D))) key \<le> 1)"
    by (metis One_nat_def count_mset_0_iff le_Suc_eq le_zero_eq zero_le_one order_refl)
  finally show ?thesis by (simp add: live_ms_def)
qed

lemma kv_map_ms: "kv_uniq D \<Longrightarrow> kv_map D key = Some val \<longleftrightarrow> (key, val) \<in># live_ms D"
  by (simp add: kv_map_Some in_live_ms)

lemma kv_map_ms_None: "kv_map D key = None \<longleftrightarrow> key \<notin># image_mset fst (live_ms D)"
proof -
  have "key \<in># image_mset fst (live_ms D) \<longleftrightarrow> (\<exists>val. (key, val) \<in># live_ms D)" by force
  then show ?thesis unfolding kv_map_None in_live_ms by blast
qed

lemma map_ext_Some: "(\<And>k v. m k = Some v \<longleftrightarrow> m' k = Some v) \<Longrightarrow> m = m'"
  by (rule ext) (metis not_Some_eq)

lemma live_ms_removed:
  assumes "kv_uniq D" "live_ms D = add_mset (key, val) (live_ms D')"
  shows "kv_uniq D'" "kv_map D' = (kv_map D)(key := None)"
proof -
  have c: "count (image_mset fst (live_ms D)) k \<le> 1" for k using assms(1) kv_uniq_ms by blast
  show u: "kv_uniq D'"
    unfolding kv_uniq_ms
  proof
    fix k
    show "count (image_mset fst (live_ms D')) k \<le> 1"
      using c [of k] by (auto simp: assms(2) split: if_splits)
  qed
  have none: "key \<notin># image_mset fst (live_ms D')"
    using c [of key] unfolding assms(2) not_in_iff by simp
  show "kv_map D' = (kv_map D)(key := None)"
  proof (rule map_ext_Some)
    fix k v
    have "(k, v) \<in># live_ms D' \<longrightarrow> k \<noteq> key" using none by (metis fst_conv image_eqI set_image_mset)
    then show "kv_map D' k = Some v \<longleftrightarrow> ((kv_map D)(key := None)) k = Some v"
      using kv_map_ms [OF u] kv_map_ms [OF assms(1)] by (auto simp: assms(2))
  qed
qed

lemma live_ms_added:
  assumes "kv_uniq D" "live_ms D' = add_mset (key, val) (live_ms D)" "kv_map D key = None"
  shows "kv_uniq D'" "kv_map D' = (kv_map D)(key \<mapsto> val)"
proof -
  have c: "count (image_mset fst (live_ms D)) k \<le> 1" for k using assms(1) kv_uniq_ms by blast
  have none: "count (image_mset fst (live_ms D)) key = 0"
    using assms(3) unfolding kv_map_ms_None not_in_iff .
  show u: "kv_uniq D'"
    unfolding kv_uniq_ms using c none by (simp add: assms(2))
  show "kv_map D' = (kv_map D)(key \<mapsto> val)"
  proof (rule map_ext_Some)
    fix k v
    have "(k, v) \<in># live_ms D \<longrightarrow> k \<noteq> key" using none by (metis fst_conv image_eqI not_in_iff set_image_mset)
    then show "kv_map D' k = Some v \<longleftrightarrow> ((kv_map D)(key \<mapsto> val)) k = Some v"
      using kv_map_ms [OF u] kv_map_ms [OF assms(1)] by (auto simp: assms(2))
  qed
qed

lemma live_ms_same:
  assumes "kv_uniq D" "live_ms D' = live_ms D"
  shows "kv_uniq D'" "kv_map D' = kv_map D"
proof -
  show u: "kv_uniq D'" using assms by (simp add: kv_uniq_ms)
  show "kv_map D' = kv_map D"
    by (rule map_ext_Some) (simp add: kv_map_ms [OF u] kv_map_ms [OF assms(1)] assms(2))
qed

subsection \<open>Positions\<close>

text \<open>The addresses depend on the sizes of the nodes only.\<close>

lemma nodes_end_sizes:
  "map (\<lambda>(st, key, val). node_size key val) xs = map (\<lambda>(st, key, val). node_size key val) ys
     \<Longrightarrow> nodes_end a xs = nodes_end a ys"
proof (induction xs arbitrary: a ys)
  case (Cons x xs)
  then obtain y ys' where y: "ys = y # ys'" by auto
  obtain st k v st' k' v' where xy: "x = (st, k, v)" "y = (st', k', v')" by (metis prod_cases3)
  have "node_size k v = node_size k' v'" using Cons.prems y xy by simp
  then show ?case using Cons.IH [of ys' "a + node_size k v"] Cons.prems y xy by simp
qed simp

lemma node_in_nth:
  "node_in Z D a n \<longleftrightarrow> (\<exists>k i. k < length D \<and> i < length (ks_nodes (D ! k)) \<and> ks_nodes (D ! k) ! i = n
     \<and> a = nodes_end (k * Z + 16) (take i (ks_nodes (D ! k))))"
proof
  assume "node_in Z D a n"
  then obtain k xs ys where "k < length D" "ks_nodes (D ! k) = xs @ n # ys" "a = nodes_end (k * Z + 16) xs"
    unfolding node_in_def by blast
  then show "\<exists>k i. k < length D \<and> i < length (ks_nodes (D ! k)) \<and> ks_nodes (D ! k) ! i = n
     \<and> a = nodes_end (k * Z + 16) (take i (ks_nodes (D ! k)))"
    by (intro exI [of _ k] exI [of _ "length xs"]) simp
next
  assume "\<exists>k i. k < length D \<and> i < length (ks_nodes (D ! k)) \<and> ks_nodes (D ! k) ! i = n
     \<and> a = nodes_end (k * Z + 16) (take i (ks_nodes (D ! k)))"
  then obtain k i where k: "k < length D" "i < length (ks_nodes (D ! k))" "ks_nodes (D ! k) ! i = n"
    "a = nodes_end (k * Z + 16) (take i (ks_nodes (D ! k)))" by blast
  then have "ks_nodes (D ! k) = take i (ks_nodes (D ! k)) @ n # drop (Suc i) (ks_nodes (D ! k))"
    using id_take_nth_drop by blast
  then show "node_in Z D a n" unfolding node_in_def using k(1,4) by blast
qed

lemma node_in_status:
  assumes "node_in Z D a n" "k < length D" "ks_nodes (D ! k) = xs @ (st, key, val) # ys"
    and "n \<noteq> (st, key, val)" "ks_nodes s = xs @ (st', key, val) # ys"
  shows "node_in Z (D[k := s]) a n"
proof -
  obtain j i where j: "j < length D" "i < length (ks_nodes (D ! j))" "ks_nodes (D ! j) ! i = n"
    "a = nodes_end (j * Z + 16) (take i (ks_nodes (D ! j)))"
    using assms(1) node_in_nth by blast
  show ?thesis
  proof (cases "j = k")
    case False
    then show ?thesis using j unfolding node_in_nth
      by (intro exI [of _ j] exI [of _ i]) simp
  next
    case True
    have ne: "i \<noteq> length xs" using j(3) assms(3,4) True by (metis nth_append_length)
    have "(xs @ (st', key, val) # ys) ! i = n"
      using j(3) assms(3) True ne by (auto simp: nth_append nth_Cons')
    moreover have "nodes_end (k * Z + 16) (take i (xs @ (st', key, val) # ys))
        = nodes_end (k * Z + 16) (take i (xs @ (st, key, val) # ys))"
      by (rule nodes_end_sizes) (simp add: take_map [symmetric])
    ultimately show ?thesis using j True assms(3,5) unfolding node_in_nth
      by (intro exI [of _ k] exI [of _ i]) simp
  qed
qed

definition append_node :: "nat \<Rightarrow> bytes \<Rightarrow> bytes \<Rightarrow> kv_sec list \<Rightarrow> kv_sec list" where
  "append_node k key val D =
     D[k := (D ! k)\<lparr>ks_store := FDB_SECTOR_STORE_USING,
                   ks_nodes := ks_nodes (D ! k) @ [(FDB_KV_WRITE, key, val)]\<rparr>]"

lemma node_in_append:
  assumes "node_in Z D a n" "k < length D"
  shows "node_in Z (append_node k key val D) a n"
proof -
  obtain j xs ys where j: "j < length D" "ks_nodes (D ! j) = xs @ n # ys" "a = nodes_end (j * Z + 16) xs"
    using assms(1) unfolding node_in_def by blast
  have "ks_nodes (append_node k key val D ! j) = xs @ n # (if j = k then ys @ [(FDB_KV_WRITE, key, val)] else ys)"
    using j assms(2) by (cases "j = k") (simp_all add: append_node_def)
  moreover have "j < length (append_node k key val D)" using j(1) by (simp add: append_node_def)
  ultimately show ?thesis unfolding node_in_def using j(3) by blast
qed

lemma node_in_append_new:
  assumes "k < length D"
  shows "node_in Z (append_node k key val D) (nodes_end (k * Z + 16) (ks_nodes (D ! k))) (FDB_KV_WRITE, key, val)"
proof -
  have "ks_nodes (append_node k key val D ! k) = ks_nodes (D ! k) @ (FDB_KV_WRITE, key, val) # []"
    using assms by (simp add: append_node_def)
  moreover have "k < length (append_node k key val D)" using assms by (simp add: append_node_def)
  ultimately show ?thesis unfolding node_in_def by blast
qed

lemma node_in_dirty: "node_in Z (mark_dirty k D) a n = node_in Z D a n"
  by (simp add: node_in_def)

lemma live_ms_dirty: "live_ms (mark_dirty k D) = live_ms D"
proof -
  have "map ks_nodes (mark_dirty k D) = map ks_nodes D" by (rule nth_equalityI) simp_all
  then show ?thesis by (simp add: live_ms_def live_def all_nodes_def)
qed

lemma live_ms_append: "k < length D \<Longrightarrow> live_ms (append_node k key val D) = add_mset (key, val) (live_ms D)"
  using live_ms_update [of k D "(D ! k)\<lparr>ks_store := FDB_SECTOR_STORE_USING,
      ks_nodes := ks_nodes (D ! k) @ [(FDB_KV_WRITE, key, val)]\<rparr>"]
  by (simp add: append_node_def)

subsection \<open>The cache of addresses, one key apart\<close>

text \<open>Between the programming of an old node and the update of the cache, the entry of one CRC may be stale.\<close>

definition kvc_agrees_but :: "nat \<Rightarrow> nat \<Rightarrow> kv_sec list \<Rightarrow> kv_cache_node list \<Rightarrow> bool" where
  "kvc_agrees_but c0 Z D t \<longleftrightarrow>
     kvc.coherent (\<lambda>c a. c \<noteq> c0 \<longrightarrow> (\<exists>key val. node_in Z D a (FDB_KV_WRITE, key, val) \<and> kv_name_crc key = c)) t"

lemma kvc_agrees_weaken:
  assumes "kvc_agrees Z D t"
    and "\<And>a key val. kv_name_crc key \<noteq> c0 \<Longrightarrow> node_in Z D a (FDB_KV_WRITE, key, val)
        \<Longrightarrow> node_in Z D' a (FDB_KV_WRITE, key, val)"
  shows "kvc_agrees_but c0 Z D' t"
  using assms(1) unfolding kvc_agrees_def kvc_agrees_but_def
  by (rule kvc.coherent_mono) (use assms(2) in blast)

lemma kvc_agrees_but_mono:
  assumes "kvc_agrees_but c0 Z D t"
    and "\<And>a key val. kv_name_crc key \<noteq> c0 \<Longrightarrow> node_in Z D a (FDB_KV_WRITE, key, val)
        \<Longrightarrow> node_in Z D' a (FDB_KV_WRITE, key, val)"
  shows "kvc_agrees_but c0 Z D' t"
  using assms(1) unfolding kvc_agrees_but_def
  by (rule kvc.coherent_mono) (use assms(2) in blast)

lemma kvc_agrees_drop:
  assumes "kvc_agrees_but c0 Z D t"
  shows "kvc_agrees Z D (kvc_update c0 FDB_DATA_UNUSED t)"
proof -
  have "kvc_agrees Z D (kvc_drop c0 t)"
    using assms unfolding kvc_agrees_def kvc_agrees_but_def by (rule kvc.coherent_drop) blast
  then show ?thesis by (simp add: kvc_drop_def)
qed

lemma kvc_agrees_put:
  assumes "kvc_agrees_but (kv_name_crc key) Z D t" "node_in Z D a (FDB_KV_WRITE, key, val)" "a \<noteq> FDB_DATA_UNUSED"
  shows "kvc_agrees Z D (kvc_update (kv_name_crc key) a t)"
proof -
  have "kvc_agrees Z D (kvc_put (kv_name_crc key) a t)"
    using assms(1) unfolding kvc_agrees_def kvc_agrees_but_def
    by (rule kvc.coherent_put) (use assms(2,3) in \<open>auto simp: kvc_valid_def\<close>)
  then show ?thesis by (simp add: kvc_put_def)
qed

subsection \<open>Programming an old node\<close>

lemma kv_mem_fields:
  assumes "kv_mem db D" "kv_parent db' = kv_parent db" "kv_sector_cache_table db' = kv_sector_cache_table db"
  shows "kv_mem db' D"
  using assms by (simp add: kv_mem_def kv_flash_def kv_ok_def kv_img_def)

text \<open>The node of \<open>key\<close> at position \<open>(k, xs)\<close> gets the status \<open>st\<close>, and its sector becomes dirty.\<close>

definition set_node :: "nat \<Rightarrow> kv_node list \<Rightarrow> kv_node \<Rightarrow> kv_node list \<Rightarrow> kv_sec list \<Rightarrow> kv_sec list" where
  "set_node k xs n ys D = mark_dirty k (D[k := (D ! k)\<lparr>ks_nodes := xs @ n # ys\<rparr>])"

lemma set_node_length [simp]: "length (set_node k xs n ys D) = length D"
  by (simp add: set_node_def)

lemma set_node_nodes:
  "k < length D \<Longrightarrow> ks_nodes (set_node k xs n ys D ! j) = (if j = k then xs @ n # ys else ks_nodes (D ! j))"
  by (simp add: set_node_def)

lemma set_node_store:
  "ks_store (set_node k xs n ys D ! j) = ks_store (D ! j)"
  by (cases "j = k"; cases "k < length D") (simp_all add: set_node_def list_update_beyond)

lemma del_kv_found_eq:
  fixes complete :: bool
  assumes "kv_mem db D" "k < length D" "ks_nodes (D ! k) = xs @ (st, nkey, val) # ys"
    and "kv_addr_start kv = nodes_end (k * kvdb_sec_size db + 16) xs"
    and "key = Some nkey \<or> key = None \<and> take (kv_name_len kv) (kv_name kv) = nkey"
  defines "st' \<equiv> if complete then FDB_KV_DELETED else FDB_KV_PRE_DELETE"
  shows "\<exists>db'. del_kv_found db key kv complete = Some (FDB_NO_ERR, db')
    \<and> kv_mem db' (set_node k xs (st', nkey, val) ys D) \<and> kv_frame db db'
    \<and> kv_last_is_complete_del db' = (\<not> complete)
    \<and> kv_cache_table db' = (if complete \<and> \<not> kv_last_is_complete_del db
        then kvc_update (kv_name_crc nkey) FDB_DATA_UNUSED (kv_cache_table db) else kv_cache_table db)"
proof -
  let ?Z = "kvdb_sec_size db" let ?a = "kv_addr_start kv"
  define m where "m = splice (kv_img db) ?a [status_byte (kv_status_num st')]"
  have u: "st' \<noteq> FDB_KV_UNUSED" by (simp add: st'_def)
  note w = write_node_status [OF assms(1-4) u, folded m_def]
  let ?D1 = "D[k := (D ! k)\<lparr>ks_nodes := xs @ (st', nkey, val) # ys\<rparr>]"
  let ?t = "if complete \<and> \<not> kv_last_is_complete_del db
        then kvc_update (kv_name_crc nkey) FDB_DATA_UNUSED (kv_cache_table db) else kv_cache_table db"
  define db1 where "db1 = (kv_put m db)\<lparr>kv_cache_table := ?t, kv_last_is_complete_del := \<not> complete\<rparr>"
  have m1: "kv_mem db1 ?D1" using w(2) by (rule kv_mem_fields) (simp_all add: db1_def)
  have fr1: "kv_frame db db1" using w(3) by (simp add: db1_def kv_step_def kv_frame_def kv_cfg_def Let_def)
  have z1: "kvdb_sec_size db1 = ?Z" using fr1 by (rule kv_frame_sec)
  have step: "del_kv_found db key kv complete = del_kv_dirty db1 kv"
  proof (cases complete)
    case True
    have nm: "(case key of Some k \<Rightarrow> k | None \<Rightarrow> take (kv_name_len kv) (kv_name kv)) = nkey"
      using assms(5) by auto
    have "db1 = (if \<not> kv_last_is_complete_del (kv_put m db)
        then update_kv_cache (kv_put m db) nkey FDB_DATA_UNUSED else kv_put m db)\<lparr>kv_last_is_complete_del := False\<rparr>"
      using True by (simp add: db1_def update_kv_cache_eq)
    then show ?thesis
      using True w(1) nm by (simp add: del_kv_found_def st'_def Let_def del: kv_status_num.simps)
  next
    case False
    have "db1 = (kv_put m db)\<lparr>kv_last_is_complete_del := True\<rparr>" using False by (simp add: db1_def)
    then show ?thesis
      using False w(1) by (simp add: del_kv_found_def st'_def Let_def del: kv_status_num.simps)
  qed
  have "node_in ?Z D ?a (st, nkey, val)" unfolding node_in_def using assms(2-4) by blast
  have r: "k * ?Z \<le> ?a" "?a < k * ?Z + ?Z"
  proof -
    note d = kv_sectorD [OF kv_memD(6) [OF assms(1,2)]]
    show "k * ?Z \<le> ?a" using nodes_end_ge [of "k * ?Z + 16" xs] assms(4) by linarith
    have "?a + node_size nkey val \<le> nodes_end (k * ?Z + 16) (ks_nodes (D ! k))"
      using nodes_end_ge [of "?a + node_size nkey val" ys] assms(3,4) by simp
    then show "?a < k * ?Z + ?Z" using d(4) by linarith
  qed
  obtain db' where d: "del_kv_dirty db1 kv = Some (FDB_NO_ERR, db')" "kv_mem db' (mark_dirty k ?D1)" "kv_step db1 db'"
    using del_kv_dirty_eq [OF m1, of k kv] r assms(2) z1 by auto
  have "kv_frame db db'" using fr1 d(3) kv_frame_trans unfolding kv_step_def by blast
  moreover have "kv_last_is_complete_del db' = (\<not> complete)" "kv_cache_table db' = ?t"
    using d(3) by (simp_all add: kv_step_def db1_def)
  ultimately show ?thesis using step d(1,2) by (simp add: set_node_def)
qed

subsection \<open>Writing a new node\<close>

lemma kv_flash_eq:
  assumes "kv_flash db D" "kv_ok db'" "kv_img db' = kv_img db" "kv_cfg db' = kv_cfg db"
    and "kvdb_oldest_addr db' = kvdb_oldest_addr db"
  shows "kv_flash db' D"
  using assms kv_cfg_fields(1,2) [OF assms(4)] by (simp add: kv_flash_def)

text \<open>A write inside the partition, as a step of the database.\<close>

lemma kv_write_ok:
  assumes "kv_ok db" "a + length bs \<le> length (kv_img db)"
  shows "\<exists>db'. kv_flash_write db a bs sync = Some (FDB_NO_ERR, db') \<and> kv_ok db'
    \<and> kv_img db' = splice (kv_img db) a bs \<and> kv_step db db'
    \<and> kv_sector_cache_table db' = kv_sector_cache_table db"
proof -
  have l: "length (splice (kv_img db) a bs) = length (kv_img db)" using assms(2) by simp
  show ?thesis
    using kvf.wr_in [OF assms] kvf.ok_put [OF assms(1) l] kvf.img_put [OF assms(1) l]
      kv_step_put [OF assms(1) l] by simp
qed

lemma kv_write_status_ok:
  assumes "kv_ok db" "a < length (kv_img db)" "0 < n" "n < num" "num \<le> 8"
  shows "\<exists>db'. kv_write_status db a num n sync = Some (FDB_NO_ERR, db') \<and> kv_ok db'
    \<and> kv_img db' = splice (kv_img db) a [status_byte n] \<and> kv_step db db'
    \<and> kv_sector_cache_table db' = kv_sector_cache_table db"
proof -
  have "u32 a = a" using assms(2) kvf.img_bound [OF assms(1)] by (simp add: u32_id)
  then show ?thesis
    using kv_write_ok [OF assms(1), of a "[status_byte n]" sync] assms(2)
    by (simp add: kv_write_status_1 [OF assms(3-5)] status_byte_def)
qed

lemma align_write_eq: "length buf < 4294967296 \<Longrightarrow> align_write db a buf = kv_flash_write db a buf False"
  by (cases "kv_flash_write db a buf False") (auto simp: align_write_def)

text \<open>
  The room in a sector is more than 88 bytes beyond the new node, so the sector does not become
  full; an empty one becomes a used one.
\<close>

lemma update_sec_status_eq:
  assumes "kv_mem db D" "k < length D" "S = k * kvdb_sec_size db" "sec_addr c = S" "sec_store c = ks_store (D ! k)"
    and "sec_room S (kvdb_sec_size db) (D ! k) c"
    and "nodes_end (S + 16) (ks_nodes (D ! k)) + n + 88 < S + kvdb_sec_size db"
  shows "\<exists>db'. update_sec_status db c n full = Some (FDB_NO_ERR, if full = None then None else Some (if ks_nodes (D ! k) = [] then the full else False), db')
    \<and> kv_ok db' \<and> kv_img db' = splice (kv_img db) S [status_byte (store_num FDB_SECTOR_STORE_USING)]
    \<and> kv_step db db'
    \<and> sc_agrees (kvdb_sec_size db) (D[k := (D ! k)\<lparr>ks_store := FDB_SECTOR_STORE_USING\<rparr>]) (kv_sector_cache_table db')"
proof -
  let ?Z = "kvdb_sec_size db" let ?s = "(D ! k)\<lparr>ks_store := FDB_SECTOR_STORE_USING\<rparr>"
  note me = kv_memD [OF assms(1)] and sa = sector_addr [OF assms(1,2), folded assms(3)]
  note d = kv_sectorD [OF me(6) [OF assms(2)], folded assms(3)]
  have Sl: "S < length (kv_img db)" using d(1,4,7) by linarith
  show ?thesis
  proof (cases "ks_nodes (D ! k) = []")
    case True
    have st: "sec_store c = FDB_SECTOR_STORE_EMPTY" "sec_addr c = S"
      using assms(4,5) d(6) True by simp_all
    have us: "0 < store_num FDB_SECTOR_STORE_USING" "store_num FDB_SECTOR_STORE_USING < FDB_SECTOR_STORE_STATUS_NUM"
      "FDB_SECTOR_STORE_STATUS_NUM \<le> 8" by (simp_all add: fdb_const)
    obtain db1 where w: "kv_write_status db S FDB_SECTOR_STORE_STATUS_NUM (store_num FDB_SECTOR_STORE_USING) True
        = Some (FDB_NO_ERR, db1)" "kv_ok db1"
      "kv_img db1 = splice (kv_img db) S [status_byte (store_num FDB_SECTOR_STORE_USING)]" "kv_step db db1"
      "kv_sector_cache_table db1 = kv_sector_cache_table db"
      using kv_write_status_ok [OF me(1) Sl us] by blast
    let ?t = "sc_modify S (\<lambda>s. s\<lparr>sec_store := FDB_SECTOR_STORE_USING\<rparr>) (kv_sector_cache_table db)"
    let ?db' = "db1\<lparr>kv_sector_cache_table := ?t\<rparr>"
    have "sc_agrees ?Z (D[k := ?s]) ?t"
      using me(9) assms(2,3) sa(3) me(2)
      by (rule sc_modify_agrees) (auto simp: sec_cached_def sec_view_def sec_room_def)
    moreover have "update_sec_status db c n full = Some (FDB_NO_ERR, full, ?db')"
      using st w(1,5) by (simp add: update_sec_status_def sc_functions del: store_num.simps)
    moreover have "kv_step db ?db'" using w(4) kv_step_sc kv_step_trans by blast
    ultimately show ?thesis using w(2,3) True
      by (intro exI [of _ ?db']) (simp add: kv_ok_def kv_img_def del: store_num.simps)
  next
    case False
    then have st: "sec_store c = FDB_SECTOR_STORE_USING" "ks_store (D ! k) = FDB_SECTOR_STORE_USING"
      using assms(5) d(6) False by simp_all
    have rem: "sec_remain c = S + ?Z - nodes_end (S + 16) (ks_nodes (D ! k))"
      using assms(6) by (simp add: sec_room_def)
    have "u32_sub (sec_remain c) n = sec_remain c - n"
      unfolding rem using assms(7) d(1) kvf.img_bound [OF me(1)] by (intro u32_sub_id) linarith+
    then have "\<not> (sec_remain c < FDB_SEC_REMAIN_THRESHOLD \<or> u32_sub (sec_remain c) n < FDB_SEC_REMAIN_THRESHOLD)"
      unfolding rem fdb_const using assms(7) by linarith
    then have "update_sec_status db c n full = Some (FDB_NO_ERR, map_option (\<lambda>_. False) full, db)"
      using st(1) unfolding update_sec_status_def by simp
    moreover have "splice (kv_img db) S [status_byte (store_num FDB_SECTOR_STORE_USING)] = kv_img db"
    proof (rule nth_equalityI)
      show "length (splice (kv_img db) S [status_byte (store_num FDB_SECTOR_STORE_USING)]) = length (kv_img db)"
        using Sl by simp
      have "slice S 1 (kv_img db) ! 0 = status_byte (store_num FDB_SECTOR_STORE_USING)"
        using d(2) st(2) by (simp add: kv_hdr_def)
      then have "kv_img db ! S = status_byte (store_num FDB_SECTOR_STORE_USING)"
        using Sl by (simp add: nth_slice)
      then show "splice (kv_img db) S [status_byte (store_num FDB_SECTOR_STORE_USING)] ! i = kv_img db ! i"
        if "i < length (splice (kv_img db) S [status_byte (store_num FDB_SECTOR_STORE_USING)])" for i
        using that Sl by (simp add: splice1_nth)
    qed
    moreover have "D[k := ?s] = D" using st(2) assms(2) by (metis (full_types) kv_sec.surjective kv_sec.update_convs(1) list_update_id)
    ultimately show ?thesis using me(1,9) False
      by (intro exI [of _ db]) (cases full; simp)
  qed
qed

text \<open>The flash after a node was written behind the last one, and the cache was told.\<close>

lemma node_appended:
  assumes "kv_mem db D" "k < length D" "S = k * kvdb_sec_size db" "a = nodes_end (S + 16) (ks_nodes (D ! k))"
    and "a + node_size key val + 88 < S + kvdb_sec_size db" "key_ok key" "kv_frame db db'" "kv_ok db'"
    and img: "kv_img db' = node_written (splice (kv_img db) S [status_byte (store_num FDB_SECTOR_STORE_USING)]) a key val"
    and t1: "sc_agrees (kvdb_sec_size db) (D[k := (D ! k)\<lparr>ks_store := FDB_SECTOR_STORE_USING\<rparr>]) t1"
    and t: "kv_sector_cache_table db' = sc_modify S (\<lambda>s. s\<lparr>sec_empty_kv := a + 24 + length key + length val,
      sec_remain := u32_sub (kvdb_sec_size db) (u32_sub (a + 24 + length key + length val) (sec_addr s))\<rparr>) t1"
  shows "kv_mem db' (append_node k key val D)"
proof -
  let ?Z = "kvdb_sec_size db" let ?m0 = "kv_img db"
  let ?m1 = "splice ?m0 S [status_byte (store_num FDB_SECTOR_STORE_USING)]"
  note me = kv_memD [OF assms(1)] and sa = sector_addr [OF assms(1,2), folded assms(3)]
  note d = kv_sectorD [OF me(6) [OF assms(2)], folded assms(3)]
  note bound = kvf.img_bound [OF me(1)]
  have al: "a + 24 + length key + length val + 88 < S + ?Z" "S + 16 \<le> a" "S + ?Z \<le> length ?m0"
    using assms(4,5) d(1,7) by (simp_all add: node_size_def)
  let ?s' = "(D ! k)\<lparr>ks_store := FDB_SECTOR_STORE_USING, ks_nodes := ks_nodes (D ! k) @ [(FDB_KV_WRITE, key, val)]\<rparr>"
  have sec: "kv_sector (node_written ?m1 a key val) S ?Z ?s'"
    using me(6) [OF assms(2), folded assms(3)] assms(4-6) by (rule node_written_sector)
  have l1: "length ?m1 = length ?m0" using al by simp
  have nl1: "a + node_size key val \<le> length ?m1" using al l1 by (simp add: node_size_def)
  have len: "length (node_written ?m1 a key val) = length ?m0" using nl1 l1 by simp
  have out: "node_written ?m1 a key val ! i = ?m0 ! i"
    if "i < length (node_written ?m1 a key val)" "\<not> (S \<le> i \<and> i < S + ?Z)" for i
  proof -
    have "node_written ?m1 a key val ! i = ?m1 ! i"
      using that len l1 al by (intro node_written_out nl1) (auto simp: node_size_def)
    also have "\<dots> = ?m0 ! i"
      using that len al by (subst splice1_nth) auto
    finally show ?thesis .
  qed
  have fl: "kv_flash db D" using assms(1) by (simp add: kv_mem_def)
  have "kv_flash (kv_put (node_written ?m1 a key val) db) (D[k := ?s'])"
    using fl assms(2) len sec out unfolding assms(3) by (rule kv_flash_update(1))
  then have "kv_flash db' (D[k := ?s'])"
    by (rule kv_flash_eq)
      (use assms(7,8) img kvf.img_put [OF me(1) len] kv_put_cfg [OF me(1) len] in \<open>simp_all add: kv_frame_def\<close>)
  moreover have "sc_agrees ?Z (D[k := ?s']) (kv_sector_cache_table db')"
  proof -
    let ?D1 = "D[k := (D ! k)\<lparr>ks_store := FDB_SECTOR_STORE_USING\<rparr>]"
    have e: "u32_sub (a + 24 + length key + length val) S = a + 24 + length key + length val - S"
      "u32_sub ?Z (a + 24 + length key + length val - S) = S + ?Z - (a + 24 + length key + length val)"
      using al bound by (auto simp: u32_sub_id)
    have k1: "k < length ?D1" using assms(2) by simp
    have "sc_agrees ?Z (?D1[k := ?s']) (kv_sector_cache_table db')"
      unfolding t using t1 k1 assms(3) sa(3) me(2)
    proof (rule sc_modify_agrees)
      fix c'
      assume "sec_cached S ?Z (?D1 ! k) c'"
      then show "sec_cached S ?Z ?s' (c'\<lparr>sec_empty_kv := a + 24 + length key + length val,
          sec_remain := u32_sub ?Z (u32_sub (a + 24 + length key + length val) (sec_addr c'))\<rparr>)"
        using assms(2,4) e by (auto simp: sec_cached_def sec_view_def sec_room_def node_size_def add.assoc)
    qed
    then show ?thesis by simp
  qed
  moreover have "kvdb_sec_size db' = ?Z" using assms(7) by (rule kv_frame_sec)
  ultimately show ?thesis by (simp add: kv_mem_def append_node_def)
qed

lemma create_kv_at_eq:
  assumes "kv_mem db D" "k < length D" "S = k * kvdb_sec_size db" "sec_addr c = S"
    and "sec_store c = ks_store (D ! k)" "sec_room S (kvdb_sec_size db) (D ! k) c" "a = nodes_end (S + 16) (ks_nodes (D ! k))"
    and "a + node_size key val + 88 < S + kvdb_sec_size db" "key_ok key"
  shows "\<exists>db'. create_kv_at db c key val a = Some (FDB_NO_ERR, db') \<and> kv_mem db' (append_node k key val D)
    \<and> kv_frame db db' \<and> kv_cache_table db' = kvc_update (kv_name_crc key) a (kv_cache_table db)
    \<and> kv_last_is_complete_del db' = kv_last_is_complete_del db"
proof -
  let ?Z = "kvdb_sec_size db" let ?m0 = "kv_img db"
  note me = kv_memD [OF assms(1)] and sa = sector_addr [OF assms(1,2), folded assms(3)]
  note d = kv_sectorD [OF me(6) [OF assms(2)], folded assms(3)]
  note bound = kvf.img_bound [OF me(1)]
  have al: "a + 24 + length key + length val + 88 < S + ?Z" "S + 16 \<le> a" "S + ?Z \<le> length ?m0"
    using assms(7,8) d(1,7) by (simp_all add: node_size_def)
  have kl: "length key + length val < 2147483648" using al bound by linarith
  have u: "u32 (a + 24) = a + 24" "u32 (a + 24 + length key) = a + 24 + length key"
    "u32 (length key) = length key" "u32 (length val) = length val"
    "u32 (a + 24 + length key + length val) = a + 24 + length key + length val" "u32 (a + 4) = a + 4"
    using al bound by (auto intro!: u32_id)
  note nl = kv_node_len_eq [OF kl]
  obtain db1 where s1: "update_sec_status db c (node_size key val) (Some False) = Some (FDB_NO_ERR, Some False, db1)"
    "kv_ok db1" "kv_img db1 = splice ?m0 S [status_byte (store_num FDB_SECTOR_STORE_USING)]" "kv_step db db1"
    "sc_agrees ?Z (D[k := (D ! k)\<lparr>ks_store := FDB_SECTOR_STORE_USING\<rparr>]) (kv_sector_cache_table db1)"
    using update_sec_status_eq [OF assms(1-6), of "node_size key val" "Some False"] assms(7,8)
    by (auto split: if_splits)
  let ?m1 = "kv_img db1"
  have l1: "length ?m1 = length ?m0" using s1(3) al by simp
  have pw: "0 < kv_status_num FDB_KV_PRE_WRITE" "kv_status_num FDB_KV_PRE_WRITE < FDB_KV_STATUS_NUM" "FDB_KV_STATUS_NUM \<le> 8"
    "0 < kv_status_num FDB_KV_WRITE" "kv_status_num FDB_KV_WRITE < FDB_KV_STATUS_NUM" by (simp_all add: fdb_const)
  have "a < length ?m1" using al l1 by simp
  from kv_write_status_ok [OF s1(2) this pw(1-3)] obtain db2 where s2:
    "kv_write_status db1 a FDB_KV_STATUS_NUM (kv_status_num FDB_KV_PRE_WRITE) False = Some (FDB_NO_ERR, db2)"
    "kv_ok db2" "kv_img db2 = splice ?m1 a [status_byte (kv_status_num FDB_KV_PRE_WRITE)]" "kv_step db1 db2"
    "kv_sector_cache_table db2 = kv_sector_cache_table db1" by blast
  have l2: "length (kv_img db2) = length ?m0" using s2(3) l1 al by simp
  have hl: "length (slice 4 20 (kv_hdr_image key val)) = 20" by simp
  have "a + 4 + length (slice 4 20 (kv_hdr_image key val)) \<le> length (kv_img db2)" using al l2 hl by simp
  from kv_write_ok [OF s2(2) this, of False] obtain db3 where s3:
    "kv_flash_write db2 (a + 4) (slice 4 20 (kv_hdr_image key val)) False = Some (FDB_NO_ERR, db3)"
    "kv_ok db3" "kv_img db3 = splice (kv_img db2) (a + 4) (slice 4 20 (kv_hdr_image key val))" "kv_step db2 db3"
    "kv_sector_cache_table db3 = kv_sector_cache_table db2" by blast
  have l3: "length (kv_img db3) = length ?m0" using s3(3) l2 al hl by simp
  have "a + 24 + length key \<le> length (kv_img db3)" using al l3 by simp
  from kv_write_ok [OF s3(2) this, of False] obtain db4 where s4:
    "kv_flash_write db3 (a + 24) key False = Some (FDB_NO_ERR, db4)"
    "kv_ok db4" "kv_img db4 = splice (kv_img db3) (a + 24) key" "kv_step db3 db4"
    "kv_sector_cache_table db4 = kv_sector_cache_table db3" by blast
  have l4: "length (kv_img db4) = length ?m0" using s4(3) l3 al by simp
  have z4: "kvdb_sec_size db4 = ?Z" using s1(4) s2(4) s3(4) s4(4) kv_step_sec by metis
  define t where "t = sc_modify S (\<lambda>s. s\<lparr>sec_empty_kv := a + 24 + length key + length val,
      sec_remain := u32_sub ?Z (u32_sub (a + 24 + length key + length val) (sec_addr s))\<rparr>) (kv_sector_cache_table db1)"
  define db5 where "db5 = db4\<lparr>kv_sector_cache_table := t,
      kv_cache_table := kvc_update (kv_name_crc key) a (kv_cache_table db4)\<rparr>"
  have e5: "update_kv_cache (update_sector_empty_addr_cache db4 S (a + 24 + length key + length val)) key a = db5"
    by (simp add: update_kv_cache_eq sc_functions db5_def t_def z4 s4(5) s3(5) s2(5))
  have k5: "kv_ok db5" "kv_img db5 = kv_img db4" using s4(2) by (simp_all add: db5_def kv_ok_def kv_img_def)
  have "a + 24 + length key + length val \<le> length (kv_img db5)" using al l4 k5 by simp
  from kv_write_ok [OF k5(1) this, of False] obtain db6 where s6:
    "kv_flash_write db5 (a + 24 + length key) val False = Some (FDB_NO_ERR, db6)"
    "kv_ok db6" "kv_img db6 = splice (kv_img db5) (a + 24 + length key) val" "kv_step db5 db6"
    "kv_sector_cache_table db6 = kv_sector_cache_table db5" by blast
  have "a < length (kv_img db6)" using al l4 k5 s6(3) by simp
  from kv_write_status_ok [OF s6(2) this pw(4,5,3)] obtain db7 where s7:
    "kv_write_status db6 a FDB_KV_STATUS_NUM (kv_status_num FDB_KV_WRITE) True = Some (FDB_NO_ERR, db7)"
    "kv_ok db7" "kv_img db7 = splice (kv_img db6) a [status_byte (kv_status_num FDB_KV_WRITE)]" "kv_step db6 db7"
    "kv_sector_cache_table db7 = kv_sector_cache_table db6" by blast
  have run: "create_kv_at db c key val a = Some (FDB_NO_ERR, db7)"
    using s1(1) s2(1) s3(1) s4(1) s6(1) s7(1) e5 kl
    by (simp add: create_kv_at_def nl u assms(4) write_kv_hdr_def align_write_eq Let_def KV_MAGIC_OFFSET_def
        KV_HDR_DATA_SIZE_def del: kv_status_num.simps)
  have img: "kv_img db7 = node_written ?m1 a key val"
    by (simp only: s7(3) s6(3) k5(2) s4(3) s3(3) s2(3) node_written_def)
  have f5: "kv_frame db4 db5" by (simp add: db5_def kv_frame_def kv_cfg_def Let_def)
  have frame: "kv_frame db db7"
    using s1(4) s2(4) s3(4) s4(4) f5 s6(4) s7(4) kv_frame_trans unfolding kv_step_def by meson
  have ct: "kv_cache_table db7 = kvc_update (kv_name_crc key) a (kv_cache_table db)"
    "kv_last_is_complete_del db7 = kv_last_is_complete_del db"
    using s1(4) s2(4) s3(4) s4(4) s6(4) s7(4) by (simp_all add: kv_step_def db5_def)
  have "kv_mem db7 (append_node k key val D)"
  proof (rule node_appended [OF assms(1-3,7-9) frame s7(2)])
    show "kv_img db7 = node_written (splice ?m0 S [status_byte (store_num FDB_SECTOR_STORE_USING)]) a key val"
      unfolding img s1(3) ..
    show "kv_sector_cache_table db7 = sc_modify S (\<lambda>s. s\<lparr>sec_empty_kv := a + 24 + length key + length val,
      sec_remain := u32_sub ?Z (u32_sub (a + 24 + length key + length val) (sec_addr s))\<rparr>) (kv_sector_cache_table db1)"
      by (simp add: s7(5) s6(5) db5_def t_def)
  qed (rule s1(5))
  then show ?thesis using run frame ct by blast
qed

end
