(* ===== verification/Kvdb_Alloc.thy ===== *)
theory Kvdb_Alloc
  imports Kvdb_Set
begin

text \<open>
  Where \<open>alloc_kv\<close> finds room: the first used sector of the ring with room enough, or else an
  empty sector, of which the last one is kept for the garbage collection.
\<close>

definition n_empty :: "kv_sec list \<Rightarrow> nat" where
  "n_empty D = length (filter (\<lambda>s. ks_store s = FDB_SECTOR_STORE_EMPTY) D)"

definition n_using :: "kv_sec list \<Rightarrow> nat" where
  "n_using D = length (filter (\<lambda>s. ks_store s = FDB_SECTOR_STORE_USING) D)"

text \<open>A sector \<open>alloc_kv\<close> takes for \<open>n\<close> bytes; \<open>gc\<close> is the flag \<open>gc_request\<close>.\<close>

definition usable :: "nat \<Rightarrow> bool \<Rightarrow> nat \<Rightarrow> kv_sec \<Rightarrow> bool" where
  "usable Z gc n s \<longleftrightarrow>
     nodes_end 16 (ks_nodes s) + n + 88 < Z
   \<and> (ks_dirty s = FDB_SECTOR_DIRTY_FALSE \<or> ks_dirty s = FDB_SECTOR_DIRTY_TRUE \<and> \<not> gc)"

definition room_at :: "nat \<Rightarrow> kv_sec list \<Rightarrow> nat \<Rightarrow> kvdb_sec_info \<Rightarrow> nat \<Rightarrow> nat \<Rightarrow> bool" where
  "room_at Z D k c a n \<longleftrightarrow>
     k < length D \<and> sec_view (k * Z) (D ! k) c \<and> sec_room (k * Z) Z (D ! k) c
   \<and> a = nodes_end (k * Z + 16) (ks_nodes (D ! k)) \<and> a + n + 88 < k * Z + Z"

lemma nodes_end_at: "nodes_end (S + 16) ns = S + nodes_end 16 ns"
  using nodes_end_shift [of 16 S ns] by (simp add: add.commute)

lemma start_walk:
  assumes "kv_mem db D"
  obtains k where "k < length D" "kvdb_oldest_addr db = k * kvdb_sec_size db"
    "Suc (length D - 1) = length D" "(length D - Suc (length D - 1)) * kvdb_sec_size db = 0"
  using kv_memD(3,7) [OF assms] by (auto simp: Suc_diff_1)

lemma walk_perm:
  assumes "k < N"
  shows "mset (kvr.walk N k N) = mset [0..<N]"
  using kvr.distinct_walk [OF assms] kvr.set_walk [OF assms]
  by (intro set_eq_iff_mset_eq_distinct [THEN iffD1]) (auto simp: atLeast0LessThan)

lemma filter_walk:
  assumes "k < length D"
  shows "length (filter (\<lambda>j. P (D ! j)) (kvr.walk (length D) k (length D))) = length (filter P D)"
proof -
  have "length (filter (\<lambda>j. P (D ! j)) (kvr.walk (length D) k (length D)))
      = size (filter_mset (\<lambda>j. P (D ! j)) (mset (kvr.walk (length D) k (length D))))"
    by (simp only: mset_filter [symmetric] size_mset)
  also have "\<dots> = length (filter (\<lambda>j. P (D ! j)) [0..<length D])"
    unfolding walk_perm [OF assms] by (simp only: mset_filter [symmetric] size_mset)
  also have "\<dots> = length (filter P (map (nth D) [0..<length D]))"
    by (simp only: filter_map length_map o_def)
  finally show ?thesis by (simp add: map_nth)
qed

text \<open>A walk over all sectors with a callback that only counts.\<close>

lemma sector_statistics_eq:
  assumes "kv_mem db D"
  shows "\<exists>c t. sector_iterator db sec FDB_SECTOR_STORE_UNUSED (0, 0) sector_statistics_cb False
      = Some (c, (n_empty D, n_using D), db\<lparr>kv_sector_cache_table := t\<rparr>)
    \<and> sc_agrees (kvdb_sec_size db) D t"
proof -
  let ?N = "length D" let ?Z = "kvdb_sec_size db"
  obtain k where k: "k < ?N" "kvdb_oldest_addr db = k * ?Z" "Suc (?N - 1) = ?N" "(?N - Suc (?N - 1)) * ?Z = 0"
    using start_walk [OF assms] .
  note me = kv_memD [OF assms]
  have nb: "?N < 4294967296"
  proof -
    have "?N \<le> ?N * ?Z" using me(2) by simp
    then show ?thesis using me(4,8) by linarith
  qed
  let ?e = "\<lambda>j. ks_store (D ! j) = FDB_SECTOR_STORE_EMPTY" and ?u = "\<lambda>j. ks_store (D ! j) = FDB_SECTOR_STORE_USING"
  let ?I = "\<lambda>ks cnt db' D'. D' = D \<and> (\<exists>t. db' = db\<lparr>kv_sector_cache_table := t\<rparr> \<and> sc_agrees ?Z D t)
    \<and> fst cnt + length (filter ?e ks) = n_empty D \<and> snd cnt + length (filter ?u ks) = n_using D"
  have start: "?I (kvr.walk ?N k (Suc (?N - 1))) (0, 0) db D"
  proof -
    have "\<exists>t. db = db\<lparr>kv_sector_cache_table := t\<rparr> \<and> sc_agrees ?Z D t"
      by (intro exI [of _ "kv_sector_cache_table db"]) (use me(9) in simp)
    then show ?thesis unfolding k(3)
      using filter_walk [OF k(1), of "\<lambda>s. ks_store s = FDB_SECTOR_STORE_EMPTY"]
        filter_walk [OF k(1), of "\<lambda>s. ks_store s = FDB_SECTOR_STORE_USING"]
      by (simp add: n_empty_def n_using_def)
  qed
  have "\<exists>c cnt db' D'. sector_iter_loop sector_statistics_cb False FDB_SECTOR_STORE_UNUSED db sec (0, 0)
      (k * ?Z) ((?N - Suc (?N - 1)) * ?Z) = Some (c, cnt, db') \<and> (False \<or> ?I [] cnt db' D')"
  proof (rule sector_iter_rule [where I = ?I and R = "\<lambda>c cnt db' D'. False" and N = ?N and Z = ?Z and D = D])
    fix ks cnt db' D'
    assume "?I ks cnt db' D'"
    then show "kv_mem db' D' \<and> length D' = ?N \<and> kvdb_sec_size db' = ?Z"
      using assms kv_mem_sc by auto
  next
    fix j ks cnt db' D' c
    assume I: "?I (j # ks) cnt db' D'" and j: "j < ?N" and v: "sec_view (j * ?Z) (D' ! j) c"
    have st: "sec_check_ok c" "sec_store c = ks_store (D ! j)" using v I by (simp_all add: sec_view_def)
    have "n_empty D \<le> ?N" "n_using D \<le> ?N" by (simp_all add: n_empty_def n_using_def)
    then have u: "?e j \<Longrightarrow> u32 (fst cnt + 1) = fst cnt + 1" "?u j \<Longrightarrow> u32 (snd cnt + 1) = snd cnt + 1"
      using I nb by (auto intro!: u32_id)
    show "\<exists>stop cnt' db'' D''. sector_statistics_cb c cnt db' = Some (stop, cnt', db'')
        \<and> (if stop then False else ?I ks cnt' db'' D'')"
    proof (cases "ks_store (D ! j)")
      case FDB_SECTOR_STORE_EMPTY
      then have "sector_statistics_cb c cnt db' = Some (False, (fst cnt + 1, snd cnt), db')"
        using st u by (simp add: sector_statistics_cb_def)
      then show ?thesis using I FDB_SECTOR_STORE_EMPTY by auto
    next
      case FDB_SECTOR_STORE_USING
      then have "sector_statistics_cb c cnt db' = Some (False, (fst cnt, snd cnt + 1), db')"
        using st u by (simp add: sector_statistics_cb_def)
      then show ?thesis using I FDB_SECTOR_STORE_USING by auto
    qed (use I st in \<open>auto simp: sector_statistics_cb_def\<close>)
  qed (use start k(1) in auto)
  then obtain c cnt db' D' where r: "sector_iter_loop sector_statistics_cb False FDB_SECTOR_STORE_UNUSED db sec (0, 0)
      (k * ?Z) 0 = Some (c, cnt, db')" "?I [] cnt db' D'" unfolding k(4) by blast
  then obtain t where t: "db' = db\<lparr>kv_sector_cache_table := t\<rparr>" "sc_agrees ?Z D t" by blast
  have "cnt = (n_empty D, n_using D)" using r(2) by (cases cnt) simp
  then show ?thesis using r(1) t
    by (intro exI [of _ c] exI [of _ t]) (simp add: sector_iterator_def k(2))
qed

text \<open>A walk over the sectors of one status, for room.\<close>

lemma alloc_walk_eq:
  assumes "kv_mem db D" "st \<noteq> FDB_SECTOR_STORE_UNUSED" "n < 2147483648"
  shows "\<exists>c a t. sector_iterator db sec st FAILED_ADDR (alloc_kv_cb n) True
      = Some (c, a, db\<lparr>kv_sector_cache_table := t\<rparr>) \<and> sc_agrees (kvdb_sec_size db) D t
    \<and> (a = FAILED_ADDR \<and> (\<forall>k < length D. ks_store (D ! k) = st \<longrightarrow> \<not> usable (kvdb_sec_size db) (kv_gc_request db) n (D ! k))
      \<or> a \<noteq> FAILED_ADDR \<and> (\<exists>k. room_at (kvdb_sec_size db) D k c a n \<and> ks_store (D ! k) = st
          \<and> (ks_dirty (D ! k) = FDB_SECTOR_DIRTY_FALSE \<or> \<not> kv_gc_request db)))"
proof -
  define N where "N = length D"
  define Z where "Z = kvdb_sec_size db"
  define gc where "gc = kv_gc_request db"
  obtain o' where k: "o' < N" "kvdb_oldest_addr db = o' * Z" "Suc (N - 1) = N" "(N - Suc (N - 1)) * Z = 0"
    using start_walk [OF assms(1)] unfolding N_def Z_def .
  note me = kv_memD [OF assms(1), folded N_def Z_def]
  let ?I = "\<lambda>ks a db' D'. D' = D \<and> (\<exists>t. db' = db\<lparr>kv_sector_cache_table := t\<rparr> \<and> sc_agrees Z D t)
    \<and> a = FAILED_ADDR \<and> (\<forall>k < N. k \<notin> set ks \<longrightarrow> ks_store (D ! k) = st \<longrightarrow> \<not> usable Z gc n (D ! k))"
  let ?R = "\<lambda>c a db' D'. (\<exists>t. db' = db\<lparr>kv_sector_cache_table := t\<rparr> \<and> sc_agrees Z D t) \<and> a \<noteq> FAILED_ADDR
    \<and> (\<exists>k. room_at Z D k c a n \<and> ks_store (D ! k) = st \<and> (ks_dirty (D ! k) = FDB_SECTOR_DIRTY_FALSE \<or> \<not> gc))"
  have start: "?I (kvr.walk N o' (Suc (N - 1))) FAILED_ADDR db D"
  proof -
    have "\<exists>t. db = db\<lparr>kv_sector_cache_table := t\<rparr> \<and> sc_agrees Z D t"
      by (intro exI [of _ "kv_sector_cache_table db"]) (use me(9) in simp)
    moreover have "k \<in> set (kvr.walk N o' (Suc (N - 1)))" if "k < N" for k
      using kvr.set_walk [OF k(1)] that k(3) by simp
    ultimately show ?thesis by blast
  qed
  have "\<exists>c a db' D'. sector_iter_loop (alloc_kv_cb n) True st db sec FAILED_ADDR
      (o' * Z) ((N - Suc (N - 1)) * Z) = Some (c, a, db') \<and> (?R c a db' D' \<or> ?I [] a db' D')"
  proof (rule sector_iter_rule [where I = ?I and R = ?R and N = N and Z = Z and D = D])
    fix ks a db' D'
    assume "?I ks a db' D'"
    then show "kv_mem db' D' \<and> length D' = N \<and> kvdb_sec_size db' = Z"
      using assms(1) kv_mem_sc by (auto simp: N_def Z_def)
  next
    fix j ks a db' D' c
    assume I: "?I (j # ks) a db' D'" and j: "j < N" and v: "sec_view (j * Z) (D' ! j) c"
      and rm: "True \<Longrightarrow> sec_room (j * Z) Z (D' ! j) c" and s: "st = FDB_SECTOR_STORE_UNUSED \<or> st = ks_store (D' ! j)"
    have DD: "D' = D" using I by simp
    have gc: "kv_gc_request db' = gc" using I by (auto simp: gc_def)
    let ?e = "nodes_end (j * Z + 16) (ks_nodes (D ! j))"
    note d = kv_sectorD [OF me(6) [unfolded N_def, OF j [unfolded N_def]]]
    have ok: "sec_check_ok c" using v by (simp add: sec_view_def)
    have e: "sec_empty_kv c = ?e" "sec_remain c = j * Z + Z - ?e" using rm DD by (simp_all add: sec_room_def)
    have un: "u32 (n + FDB_SEC_REMAIN_THRESHOLD) = n + 88" using assms(3) by (simp add: u32_id fdb_const)
    have dv: "sec_dirty c = ks_dirty (D ! j) \<or> ks_dirty (D ! j) = FDB_SECTOR_DIRTY_GC \<and> sec_dirty c = FDB_SECTOR_DIRTY_TRUE"
      using v DD by (simp add: sec_view_def)
    have ef: "?e \<noteq> FAILED_ADDR"
      using d(1,4) kvf.img_bound [OF me(1)] by (simp add: fdb_const)
    show "\<exists>stop a' db'' D''. alloc_kv_cb n c a db' = Some (stop, a', db'')
        \<and> (if stop then ?R c a' db'' D'' else ?I ks a' db'' D'')"
    proof (cases "sec_remain c > n + 88 \<and> (sec_dirty c = FDB_SECTOR_DIRTY_FALSE \<or> sec_dirty c = FDB_SECTOR_DIRTY_TRUE \<and> \<not> gc)")
      case True
      then have "alloc_kv_cb n c a db' = Some (True, ?e, db')"
        using ok un gc by (simp add: alloc_kv_cb_def e(1))
      moreover have "room_at Z D j c ?e n"
        using True v rm DD j e(2) d(4) unfolding room_at_def N_def by auto
      moreover have "ks_dirty (D ! j) = FDB_SECTOR_DIRTY_FALSE \<or> \<not> gc" using True dv by auto
      moreover have "ks_store (D ! j) = st" using s assms(2) DD by simp
      ultimately have "alloc_kv_cb n c a db' = Some (True, ?e, db') \<and> ?R c ?e db' D" using I ef by blast
      then show ?thesis by (intro exI [of _ True] exI [of _ ?e] exI [of _ db'] exI [of _ D]) simp
    next
      case False
      then have "alloc_kv_cb n c a db' = Some (False, a, db')"
        using ok un gc unfolding alloc_kv_cb_def by auto
      moreover have "\<not> usable Z gc n (D ! j)"
      proof
        assume us: "usable Z gc n (D ! j)"
        then have "nodes_end 16 (ks_nodes (D ! j)) + n + 88 < Z" by (simp add: usable_def)
        then have "n + 88 < sec_remain c" unfolding e(2) nodes_end_at by linarith
        then show False using False us dv by (auto simp: usable_def)
      qed
      ultimately have "alloc_kv_cb n c a db' = Some (False, a, db') \<and> ?I ks a db' D" using I by auto
      then show ?thesis
        by (intro exI [of _ False] exI [of _ a] exI [of _ db'] exI [of _ D]) (unfold if_False, assumption)
    qed
  qed (use start k(1) in auto)
  then obtain c a db' D' where r: "sector_iter_loop (alloc_kv_cb n) True st db sec FAILED_ADDR
      (o' * Z) 0 = Some (c, a, db')" "?R c a db' D' \<or> ?I [] a db' D'" unfolding k(4) by blast
  have "\<exists>t. db' = db\<lparr>kv_sector_cache_table := t\<rparr> \<and> sc_agrees Z D t" using r(2) by (elim disjE conjE)
  then obtain t where t: "db' = db\<lparr>kv_sector_cache_table := t\<rparr>" "sc_agrees Z D t" by blast
  have it: "sector_iterator db sec st FAILED_ADDR (alloc_kv_cb n) True = Some (c, a, db\<lparr>kv_sector_cache_table := t\<rparr>)"
    using r(1) t(1) by (simp add: sector_iterator_def k(2))
  show ?thesis
    unfolding N_def [symmetric] Z_def [symmetric] gc_def [symmetric]
    using it t(2) r(2) by (intro exI [of _ c] exI [of _ a] exI [of _ t]) auto
qed

lemma n_store_0:
  "n_using D = 0 \<longleftrightarrow> (\<forall>k < length D. ks_store (D ! k) \<noteq> FDB_SECTOR_STORE_USING)"
  "n_empty D = 0 \<longleftrightarrow> (\<forall>k < length D. ks_store (D ! k) \<noteq> FDB_SECTOR_STORE_EMPTY)"
  unfolding n_using_def n_empty_def length_0_conv filter_empty_conv by (metis in_set_conv_nth)+

text \<open>
  The outcome of \<open>alloc_kv\<close>: room in a used sector; or in an empty one, when no used one will do
  and it is not the last empty one, unless a collection is under way; or failure, which requests
  a collection when there is one empty sector left.
\<close>

lemma alloc_kv_eq:
  assumes "kv_mem db D" "n < 2147483648"
  defines "gc \<equiv> kv_gc_request db" and "Z \<equiv> kvdb_sec_size db"
  shows "\<exists>a c t. alloc_kv db sec n = Some (a, c,
        db\<lparr>kv_sector_cache_table := t, kv_gc_request := gc \<or> a = FAILED_ADDR \<and> n_empty D = 1\<rparr>)
    \<and> sc_agrees Z D t
    \<and> (if a = FAILED_ADDR
       then (\<forall>k < length D. ks_store (D ! k) = FDB_SECTOR_STORE_USING \<longrightarrow> \<not> usable Z gc n (D ! k))
          \<and> (n_empty D = 0 \<or> n_empty D = 1 \<and> \<not> gc
             \<or> (\<forall>k < length D. ks_store (D ! k) = FDB_SECTOR_STORE_EMPTY \<longrightarrow> \<not> usable Z gc n (D ! k)))
       else \<exists>k. room_at Z D k c a n \<and> (ks_dirty (D ! k) = FDB_SECTOR_DIRTY_FALSE \<or> \<not> gc)
          \<and> (ks_store (D ! k) = FDB_SECTOR_STORE_EMPTY \<longrightarrow> (1 < n_empty D \<or> gc)
             \<and> (\<forall>k < length D. ks_store (D ! k) = FDB_SECTOR_STORE_USING \<longrightarrow> \<not> usable Z gc n (D ! k))))"
proof -
  obtain c1 t1 where s1: "sector_iterator db sec FDB_SECTOR_STORE_UNUSED (0, 0) sector_statistics_cb False
      = Some (c1, (n_empty D, n_using D), db\<lparr>kv_sector_cache_table := t1\<rparr>)" "sc_agrees Z D t1"
    using sector_statistics_eq [OF assms(1)] unfolding Z_def by blast
  let ?db1 = "db\<lparr>kv_sector_cache_table := t1\<rparr>"
  have m1: "kv_mem ?db1 D" using assms(1) s1(2) unfolding Z_def by (rule kv_mem_sc)
  obtain c2 a2 t2 where s2: "(if n_using D > 0 then sector_iterator ?db1 c1 FDB_SECTOR_STORE_USING FAILED_ADDR (alloc_kv_cb n) True
        else Some (c1, FAILED_ADDR, ?db1)) = Some (c2, a2, db\<lparr>kv_sector_cache_table := t2\<rparr>)" "sc_agrees Z D t2"
    "a2 = FAILED_ADDR \<and> (\<forall>k < length D. ks_store (D ! k) = FDB_SECTOR_STORE_USING \<longrightarrow> \<not> usable Z gc n (D ! k))
      \<or> a2 \<noteq> FAILED_ADDR \<and> (\<exists>k. room_at Z D k c2 a2 n \<and> ks_store (D ! k) = FDB_SECTOR_STORE_USING
          \<and> (ks_dirty (D ! k) = FDB_SECTOR_DIRTY_FALSE \<or> \<not> gc))"
  proof (cases "n_using D > 0")
    case True
    then show ?thesis
      using that alloc_walk_eq [OF m1 _ assms(2), of FDB_SECTOR_STORE_USING c1] by (auto simp: gc_def Z_def)
  next
    case False
    then have none: "\<forall>k < length D. ks_store (D ! k) \<noteq> FDB_SECTOR_STORE_USING" using n_store_0(1) by simp
    show ?thesis using that [of c1 FAILED_ADDR t1] False s1(2) none by simp
  qed
  let ?db2 = "db\<lparr>kv_sector_cache_table := t2\<rparr>"
  have m2: "kv_mem ?db2 D" using assms(1) s2(2) unfolding Z_def by (rule kv_mem_sc)
  have run: "alloc_kv db sec n =
      (if n_empty D > 0 \<and> a2 = FAILED_ADDR then
         if n_empty D > FDB_GC_EMPTY_SEC_THRESHOLD \<or> kv_gc_request ?db2 then do {
           (sector, empty_kv, db) \<leftarrow> sector_iterator ?db2 c2 FDB_SECTOR_STORE_EMPTY a2 (alloc_kv_cb n) True;
           Some (empty_kv, sector, db)
         }
         else Some (a2, c2, ?db2\<lparr>kv_gc_request := True\<rparr>)
       else Some (a2, c2, ?db2))"
    using s2(1) by (simp add: alloc_kv_def s1(1))
  have keep: "db\<lparr>kv_sector_cache_table := t, kv_gc_request := gc\<rparr> = db\<lparr>kv_sector_cache_table := t\<rparr>" for t
    by (simp add: gc_def)
  show ?thesis
  proof (cases "a2 = FAILED_ADDR")
    case False
    then obtain k where k: "room_at Z D k c2 a2 n" "ks_store (D ! k) = FDB_SECTOR_STORE_USING"
      "ks_dirty (D ! k) = FDB_SECTOR_DIRTY_FALSE \<or> \<not> gc" using s2(3) by blast
    then show ?thesis using run False s2(2) keep
      by (intro exI [of _ a2] exI [of _ c2] exI [of _ t2]) auto
  next
    case True
    then have nu: "\<forall>k < length D. ks_store (D ! k) = FDB_SECTOR_STORE_USING \<longrightarrow> \<not> usable Z gc n (D ! k)"
      using s2(3) by simp
    consider (zero) "n_empty D = 0" | (last) "n_empty D = 1" "\<not> gc" | (more) "0 < n_empty D" "1 < n_empty D \<or> gc"
      by linarith
    then show ?thesis
    proof cases
      case zero
      then show ?thesis using run True s2(2) nu keep
        by (intro exI [of _ a2] exI [of _ c2] exI [of _ t2]) simp
    next
      case last
      then have "alloc_kv db sec n = Some (a2, c2, ?db2\<lparr>kv_gc_request := True\<rparr>)"
        using run True by (simp add: gc_def FDB_GC_EMPTY_SEC_THRESHOLD_def)
      then show ?thesis using last True s2(2) nu
        by (intro exI [of _ a2] exI [of _ c2] exI [of _ t2]) simp
    next
      case more
      obtain c3 a3 t3 where s3: "sector_iterator ?db2 c2 FDB_SECTOR_STORE_EMPTY FAILED_ADDR (alloc_kv_cb n) True
          = Some (c3, a3, db\<lparr>kv_sector_cache_table := t3\<rparr>)" "sc_agrees Z D t3"
        "a3 = FAILED_ADDR \<and> (\<forall>k < length D. ks_store (D ! k) = FDB_SECTOR_STORE_EMPTY \<longrightarrow> \<not> usable Z gc n (D ! k))
          \<or> a3 \<noteq> FAILED_ADDR \<and> (\<exists>k. room_at Z D k c3 a3 n \<and> ks_store (D ! k) = FDB_SECTOR_STORE_EMPTY
              \<and> (ks_dirty (D ! k) = FDB_SECTOR_DIRTY_FALSE \<or> \<not> gc))"
        using alloc_walk_eq [OF m2 _ assms(2), of FDB_SECTOR_STORE_EMPTY c2] by (auto simp: gc_def Z_def)
      have e: "alloc_kv db sec n = Some (a3, c3, db\<lparr>kv_sector_cache_table := t3\<rparr>)"
        using run True more s3(1) by (simp add: gc_def FDB_GC_EMPTY_SEC_THRESHOLD_def)
      have g: "gc \<or> a3 = FAILED_ADDR \<and> n_empty D = 1 \<longleftrightarrow> gc" using more by auto
      show ?thesis using e s3(2,3) nu more g keep
        by (intro exI [of _ a3] exI [of _ c3] exI [of _ t3]) auto
    qed
  qed
qed

end
