(* ===== verification/Kvdb_Gc.thy ===== *)
theory Kvdb_Gc
  imports Kvdb_Alloc
begin

text \<open>
  Garbage collection. \<open>move_kv\<close> copies a written node to another sector and deletes the old one,
  \<open>do_gc\<close> empties a dirty sector that way and formats it, and the walk over all sectors does so
  for each dirty one. The abstract map stays what it was, and no node is lost: one empty sector
  has room for all written nodes of another.
\<close>

subsection \<open>Copying a node\<close>

lemma move_kv_loop_eq:
  assumes "src + 4 + n \<le> length m0" "dst + 4 + n \<le> length m0"
    and "src + 4 + n \<le> dst + 4 \<or> dst + 4 + n \<le> src + 4" "len \<le> n" "length buf = 32"
    and "kv_ok db" "kv_img db = splice m0 (dst + 4) (slice (src + 4) len m0)" "length m0 < 2147483648"
  shows "\<exists>db'. move_kv_loop db src dst n buf len FDB_NO_ERR = Some (FDB_NO_ERR, db') \<and> kv_ok db'
    \<and> kv_img db' = splice m0 (dst + 4) (slice (src + 4) n m0) \<and> kv_step db db'
    \<and> kv_sector_cache_table db' = kv_sector_cache_table db"
  using assms(4-7)
proof (induction "n - len" arbitrary: db buf len rule: less_induct)
  case less
  show ?case
  proof (cases "len < n")
    case False
    then have "len = n" using less.prems by simp
    then show ?thesis using less.prems
      by (intro exI [of _ db]) (subst move_kv_loop.simps, simp)
  next
    case True
    define sz where "sz = (if len + 32 < n then 32 else n - len)"
    have u: "u32 (len + 32) = len + 32" "u32 (src + KV_MAGIC_OFFSET + len) = src + 4 + len"
      "u32 (dst + KV_MAGIC_OFFSET + len) = dst + 4 + len"
      using True assms(1,2,8) by (auto intro!: u32_id simp: KV_MAGIC_OFFSET_def)
    have sz: "(if u32 (len + 32) < n then 32 else u32_sub n len) = sz"
      using True assms(1,8) by (simp add: sz_def u u32_sub_id)
    have b: "0 < sz" "sz \<le> 32" "len + sz \<le> n" using True by (auto simp: sz_def)
    have us: "u32 sz = sz" "u32 (len + sz) = len + sz" using b assms(1,8) by (auto intro!: u32_id)
    have lc: "length (slice (src + 4) len m0) = len" using True assms(1) by simp
    have li: "length (kv_img db) = length m0" using less.prems(4) lc True assms(2) by simp
    have "slice (src + 4 + len) sz (kv_img db) = slice (src + 4 + len) sz m0"
      unfolding less.prems(4) using lc b assms(1-3) by (intro slice_splice_disj) auto
    then have rd: "kv_flash_read db (src + 4 + len) (take sz buf)
        = Some (FDB_NO_ERR, slice (src + 4 + len) sz m0)"
      using less.prems(2,3) b li assms(1) by (simp add: kvf.rd_in)
    have ls: "length (slice (src + 4 + len) sz m0) = sz" using b assms(1) by simp
    have "dst + 4 + len + length (slice (src + 4 + len) sz m0) \<le> length (kv_img db)" using ls b assms(2) li by simp
    from kv_write_ok [OF less.prems(3) this, of True] obtain db1 where w:
      "kv_flash_write db (dst + 4 + len) (slice (src + 4 + len) sz m0) True = Some (FDB_NO_ERR, db1)"
      "kv_ok db1" "kv_img db1 = splice (kv_img db) (dst + 4 + len) (slice (src + 4 + len) sz m0)"
      "kv_step db db1" "kv_sector_cache_table db1 = kv_sector_cache_table db" by blast
    have img: "kv_img db1 = splice m0 (dst + 4) (slice (src + 4) (len + sz) m0)"
    proof -
      have "kv_img db1 = splice (splice m0 (dst + 4) (slice (src + 4) len m0))
          (dst + 4 + length (slice (src + 4) len m0)) (slice (src + 4 + len) sz m0)"
        unfolding w(3) less.prems(4) lc ..
      also have "\<dots> = splice m0 (dst + 4) (slice (src + 4) len m0 @ slice (src + 4 + len) sz m0)"
        using lc ls b assms(2) by (intro splice_splice_adj) simp
      finally show ?thesis by (simp only: slice_append_split)
    qed
    have "length (slice (src + 4 + len) sz m0 @ drop sz buf) = 32" using ls b less.prems(2) by simp
    moreover have "n - (len + sz) < n - len" using b by linarith
    ultimately obtain db' where r:
      "move_kv_loop db1 src dst n (slice (src + 4 + len) sz m0 @ drop sz buf) (len + sz) FDB_NO_ERR = Some (FDB_NO_ERR, db')"
      "kv_ok db'" "kv_img db' = splice m0 (dst + 4) (slice (src + 4) n m0)" "kv_step db1 db'"
      "kv_sector_cache_table db' = kv_sector_cache_table db1" using less.hyps [OF _ b(3) _ w(2) img] by blast
    have "move_kv_loop db src dst n buf len FDB_NO_ERR
        = move_kv_loop db1 src dst n (slice (src + 4 + len) sz m0 @ drop sz buf) (len + sz) FDB_NO_ERR"
      using True sz rd w(1) ls us by (subst move_kv_loop.simps) (simp add: Let_def u split del: if_split)
    then show ?thesis using r w(4,5) kv_step_trans by metis
  qed
qed

text \<open>The bytes of a node after its status are the header, the key and the value.\<close>

lemma node_bytes:
  assumes "kv_at m a st key val"
  shows "slice (a + 4) (node_size key val - 4) m = slice 4 20 (kv_hdr_image key val) @ key @ val"
proof -
  have "node_size key val - 4 = 20 + (length key + length val)" by (simp add: node_size_def)
  then have "slice (a + 4) (node_size key val - 4) m
      = slice (a + 4) 20 m @ slice (a + 4 + 20) (length key + length val) m"
    by (simp only: slice_append_split)
  moreover have "a + 4 + 20 = a + 24" by simp
  ultimately show ?thesis using assms by (simp only: kv_at_def)
qed

lemma node_written_copy:
  assumes "a + node_size key val \<le> length m"
  shows "splice (splice (splice m a [status_byte (kv_status_num FDB_KV_PRE_WRITE)])
      (a + 4) (slice 4 20 (kv_hdr_image key val) @ key @ val)) a [status_byte (kv_status_num FDB_KV_WRITE)]
    = node_written m a key val"
proof -
  let ?h = "slice 4 20 (kv_hdr_image key val)" let ?m = "splice m a [status_byte (kv_status_num FDB_KV_PRE_WRITE)]"
  have h: "length ?h = 20" by simp
  have l: "length ?m = length m" "a + 24 + length key + length val \<le> length m"
    using assms by (simp_all add: node_size_def)
  have e1: "splice (splice ?m (a + 4) ?h) (a + 24) key = splice ?m (a + 4) (?h @ key)"
  proof -
    have "a + 4 + length ?h + length key \<le> length ?m" "a + 4 + length ?h = a + 24" using h l by simp_all
    then show ?thesis using splice_splice_adj [of "a + 4" ?h key ?m] by (simp only:)
  qed
  have "length (?h @ key) = 20 + length key" using h by simp
  then have e2: "splice (splice ?m (a + 4) (?h @ key)) (a + 24 + length key) val = splice ?m (a + 4) (?h @ key @ val)"
  proof -
    have "a + 4 + length (?h @ key) + length val \<le> length ?m" "a + 4 + length (?h @ key) = a + 24 + length key"
      using h l by simp_all
    then show ?thesis using splice_splice_adj [of "a + 4" "?h @ key" val ?m] by (simp only: append_assoc)
  qed
  show ?thesis unfolding node_written_def e1 e2 ..
qed

subsection \<open>Moving a node\<close>

lemma move_kv_copy_eq:
  assumes "kv_mem db D" "k < length D" "S = k * kvdb_sec_size db" "sec_addr c = S"
    and "sec_store c = ks_store (D ! k)" "sec_room S (kvdb_sec_size db) (D ! k) c"
    and "a = nodes_end (S + 16) (ks_nodes (D ! k))" "a + node_size key val + 88 < S + kvdb_sec_size db"
    and src: "node_in (kvdb_sec_size db) D b (st, key, val)" "b + node_size key val \<le> S \<or> S + kvdb_sec_size db \<le> b \<or> S < b \<and> b + node_size key val \<le> a"
    and kv: "kv_addr_start kv = b" "kv_len kv = node_size key val" "kv_name_len kv = length key"
      "kv_value_len kv = length val" "take (length key) (kv_name kv) = key"
  shows "\<exists>db'. move_kv_copy db c kv a = Some (FDB_NO_ERR, db') \<and> kv_mem db' (append_node k key val D)
    \<and> kv_frame db db' \<and> kv_cache_table db' = kvc_update (kv_name_crc key) a (kv_cache_table db)
    \<and> kv_last_is_complete_del db' = kv_last_is_complete_del db"
proof -
  let ?Z = "kvdb_sec_size db" let ?m0 = "kv_img db"
  note me = kv_memD [OF assms(1)] and sa = sector_addr [OF assms(1,2), folded assms(3)]
  note d = kv_sectorD [OF me(6) [OF assms(2)], folded assms(3)] and nf = node_in_facts [OF assms(1) src(1)]
  note bound = kvf.img_bound [OF me(1)]
  have key: "key_ok key" using nf(4,5) by (simp add: key_ok_def)
  have al: "a + node_size key val + 88 < S + ?Z" "S + 16 \<le> a" "S + ?Z \<le> length ?m0" "24 \<le> node_size key val"
    using assms(7,8) d(1,7) by (simp_all add: node_size_def)
  have bl: "b + node_size key val \<le> length ?m0" using nf(2) me(5) by linarith
  obtain db1 where s1: "update_sec_status db c (node_size key val) None = Some (FDB_NO_ERR, None, db1)"
    "kv_ok db1" "kv_img db1 = splice ?m0 S [status_byte (store_num FDB_SECTOR_STORE_USING)]" "kv_step db db1"
    "sc_agrees ?Z (D[k := (D ! k)\<lparr>ks_store := FDB_SECTOR_STORE_USING\<rparr>]) (kv_sector_cache_table db1)"
    using update_sec_status_eq [OF assms(1-6), of "node_size key val" None] assms(7,8) by auto
  let ?m1 = "kv_img db1"
  have l1: "length ?m1 = length ?m0" using s1(3) al by simp
  have pw: "0 < kv_status_num FDB_KV_PRE_WRITE" "kv_status_num FDB_KV_PRE_WRITE < FDB_KV_STATUS_NUM" "FDB_KV_STATUS_NUM \<le> 8"
    "0 < kv_status_num FDB_KV_WRITE" "kv_status_num FDB_KV_WRITE < FDB_KV_STATUS_NUM" by (simp_all add: fdb_const)
  have "a < length ?m1" using al l1 by simp
  from kv_write_status_ok [OF s1(2) this pw(1-3)] obtain db2 where s2:
    "kv_write_status db1 a FDB_KV_STATUS_NUM (kv_status_num FDB_KV_PRE_WRITE) False = Some (FDB_NO_ERR, db2)"
    "kv_ok db2" "kv_img db2 = splice ?m1 a [status_byte (kv_status_num FDB_KV_PRE_WRITE)]" "kv_step db1 db2"
    "kv_sector_cache_table db2 = kv_sector_cache_table db1" by blast
  let ?m2 = "kv_img db2"
  have l2: "length ?m2 = length ?m0" using s2(3) l1 al by simp
  have same: "?m2 ! i = ?m0 ! i" if "b \<le> i" "i < b + node_size key val" for i
  proof -
    have "i \<noteq> S" "i \<noteq> a" "i < length ?m0" using that src(2) al bl by linarith+
    then show ?thesis unfolding s2(3) s1(3) using al by (simp add: splice1_nth)
  qed
  have cp: "slice (b + 4) (node_size key val - 4) ?m2 = slice 4 20 (kv_hdr_image key val) @ key @ val"
  proof -
    have "kv_at ?m2 b st key val" using nf(1) l2 same by (rule kv_at_cong)
    then show ?thesis by (rule node_bytes)
  qed
  have n4: "u32_sub (kv_len kv) KV_MAGIC_OFFSET = node_size key val - 4"
    unfolding kv(2) KV_MAGIC_OFFSET_def using al bl bound by (intro u32_sub_id) linarith+
  have "\<exists>db'. move_kv_loop db2 b a (node_size key val - 4) (replicate 32 (kvdb_stk db2)) 0 FDB_NO_ERR
      = Some (FDB_NO_ERR, db') \<and> kv_ok db'
    \<and> kv_img db' = splice ?m2 (a + 4) (slice (b + 4) (node_size key val - 4) ?m2) \<and> kv_step db2 db'
    \<and> kv_sector_cache_table db' = kv_sector_cache_table db2"
    using al bl l2 src(2) s2(2) bound by (intro move_kv_loop_eq) auto
  then obtain db3 where s3: "move_kv_loop db2 b a (node_size key val - 4) (replicate 32 (kvdb_stk db2)) 0 FDB_NO_ERR
      = Some (FDB_NO_ERR, db3)" "kv_ok db3"
    "kv_img db3 = splice ?m2 (a + 4) (slice 4 20 (kv_hdr_image key val) @ key @ val)" "kv_step db2 db3"
    "kv_sector_cache_table db3 = kv_sector_cache_table db2" unfolding cp by blast
  have "length (slice 4 20 (kv_hdr_image key val)) = 20" by simp
  then have "length (kv_img db3) = length ?m0" using s3(3) l2 al by (simp add: node_size_def)
  then have "a < length (kv_img db3)" using al by simp
  from kv_write_status_ok [OF s3(2) this pw(4,5,3)] obtain db4 where s4:
    "kv_write_status db3 a FDB_KV_STATUS_NUM (kv_status_num FDB_KV_WRITE) True = Some (FDB_NO_ERR, db4)"
    "kv_ok db4" "kv_img db4 = splice (kv_img db3) a [status_byte (kv_status_num FDB_KV_WRITE)]" "kv_step db3 db4"
    "kv_sector_cache_table db4 = kv_sector_cache_table db3" by blast
  have st4: "kv_step db db4" using s1(4) s2(4) s3(4) s4(4) kv_step_trans by metis
  have z4: "kvdb_sec_size db4 = ?Z" using st4 by (rule kv_step_sec)
  define t where "t = sc_modify S (\<lambda>s. s\<lparr>sec_empty_kv := a + 24 + length key + length val,
      sec_remain := u32_sub ?Z (u32_sub (a + 24 + length key + length val) (sec_addr s))\<rparr>) (kv_sector_cache_table db1)"
  define db5 where "db5 = db4\<lparr>kv_sector_cache_table := t,
      kv_cache_table := kvc_update (kv_name_crc key) a (kv_cache_table db4)\<rparr>"
  have down: "FDB_ALIGN_DOWN a ?Z = S" using assms(3) al by (intro align_down_in [of S k]) linarith+
  have u: "u32 (a + 24 + length key + length val) = a + 24 + length key + length val"
    "u32 (length key) = length key" "u32 (length val) = length val"
    using al bound by (auto intro!: u32_id simp: node_size_def)
  have run: "move_kv_copy db c kv a = Some (FDB_NO_ERR, db5)"
    using s1(1) s2(1) s3(1) s4(1)
    by (simp add: move_kv_copy_def kv n4 [unfolded kv] u down z4 update_kv_cache_eq sc_functions db5_def t_def
        s4(5) s3(5) s2(5) KV_HDR_DATA_SIZE_def Let_def del: kv_status_num.simps)
  have "kv_mem db5 (append_node k key val D)"
  proof (rule node_appended [OF assms(1-3,7,8) key])
    show "kv_frame db db5" using st4 by (simp add: db5_def kv_step_def kv_frame_def kv_cfg_def Let_def)
    show "kv_ok db5" using s4(2) by (simp add: db5_def kv_ok_def)
    have "kv_img db4 = node_written ?m1 a key val"
      unfolding s4(3) s3(3) s2(3) using al l1 by (intro node_written_copy) simp
    then show "kv_img db5 = node_written (splice ?m0 S [status_byte (store_num FDB_SECTOR_STORE_USING)]) a key val"
      by (simp add: db5_def kv_img_def [of "db4\<lparr>kv_sector_cache_table := _, kv_cache_table := _\<rparr>"]
          s1(3) flip: kv_img_def)
    show "kv_sector_cache_table db5 = sc_modify S (\<lambda>s. s\<lparr>sec_empty_kv := a + 24 + length key + length val,
      sec_remain := u32_sub ?Z (u32_sub (a + 24 + length key + length val) (sec_addr s))\<rparr>) (kv_sector_cache_table db1)"
      by (simp add: db5_def t_def)
  qed (rule s1(5))
  moreover have "kv_frame db db5" using st4 by (simp add: db5_def kv_step_def kv_frame_def kv_cfg_def Let_def)
  moreover have "kv_cache_table db5 = kvc_update (kv_name_crc key) a (kv_cache_table db)"
    "kv_last_is_complete_del db5 = kv_last_is_complete_del db"
    using st4 by (simp_all add: db5_def kv_step_def)
  ultimately show ?thesis using run by blast
qed

lemma live_ms_set_node:
  assumes "k < length D" "ks_nodes (D ! k) = xs @ (st, key, val) # ys"
  shows "live_ms (set_node k xs (st', key, val) ys D) + (if st = FDB_KV_WRITE then {#(key, val)#} else {#})
    = live_ms D + (if st' = FDB_KV_WRITE then {#(key, val)#} else {#})"
proof -
  have "live_ms (D[k := (D ! k)\<lparr>ks_nodes := xs @ (st', key, val) # ys\<rparr>]) + livem (ks_nodes (D ! k))
      = live_ms D + livem (xs @ (st', key, val) # ys)"
    using live_ms_update [OF assms(1), of "(D ! k)\<lparr>ks_nodes := xs @ (st', key, val) # ys\<rparr>"] by simp
  then have "(live_ms (set_node k xs (st', key, val) ys D) + (if st = FDB_KV_WRITE then {#(key, val)#} else {#}))
        + (livem xs + livem ys)
      = (live_ms D + (if st' = FDB_KV_WRITE then {#(key, val)#} else {#})) + (livem xs + livem ys)"
    unfolding assms(2) by (simp add: set_node_def live_ms_dirty ac_simps)
  then show ?thesis by (simp only: add_right_cancel)
qed

lemma node_in_set_node:
  assumes "node_in Z D a n" "k < length D" "ks_nodes (D ! k) = xs @ (st, key, val) # ys" "n \<noteq> (st, key, val)"
  shows "node_in Z (set_node k xs (st', key, val) ys D) a n"
  unfolding set_node_def node_in_dirty using assms by (rule node_in_status) simp

lemma kvc_agrees_mono:
  assumes "kvc_agrees Z D t"
    and "\<And>a key val. node_in Z D a (FDB_KV_WRITE, key, val) \<Longrightarrow> node_in Z D' a (FDB_KV_WRITE, key, val)"
  shows "kvc_agrees Z D' t"
  using assms(1) unfolding kvc_agrees_def
  by (rule kvc.coherent_mono) (use assms(2) in blast)

lemma kv_mem_store:
  assumes "kv_mem db D" "k < length D"
  shows "ks_store (D ! k) = FDB_SECTOR_STORE_EMPTY \<and> ks_nodes (D ! k) = []
    \<or> ks_store (D ! k) = FDB_SECTOR_STORE_USING \<and> ks_nodes (D ! k) \<noteq> []"
  using kv_sectorD(6) [OF kv_memD(6) [OF assms]] by simp

text \<open>
  A written node of a dirty sector \<open>k0\<close> moves to another sector \<open>k2\<close>, provided one sector that is
  not dirty has room. The conclusion lists what changes.
\<close>

lemma move_kv_eq:
  assumes rep: "kv_rep db D" and gc: "kv_gc_request db"
    and k0: "k0 < length D" "ks_nodes (D ! k0) = xs @ (FDB_KV_WRITE, key, val) # ys"
      "ks_dirty (D ! k0) \<noteq> FDB_SECTOR_DIRTY_FALSE"
    and kv: "kv_wf kv0" "kv = node_kv kv0 (nodes_end (k0 * kvdb_sec_size db + 16) xs) FDB_KV_WRITE key val"
    and room: "k1 < length D" "k1 \<noteq> k0" "usable (kvdb_sec_size db) True (node_size key val) (D ! k1)"
  shows "\<exists>db' D' k2. move_kv db kv = Some (FDB_NO_ERR, db') \<and> kv_rep db' D' \<and> kv_frame db db'
    \<and> \<not> kv_last_is_complete_del db'
    \<and> length D' = length D \<and> live_ms D' = live_ms D
    \<and> k2 < length D \<and> k2 \<noteq> k0 \<and> ks_dirty (D ! k2) = FDB_SECTOR_DIRTY_FALSE
    \<and> ks_nodes (D' ! k0) = xs @ (FDB_KV_DELETED, key, val) # ys
    \<and> ks_nodes (D' ! k2) = ks_nodes (D ! k2) @ [(FDB_KV_WRITE, key, val)]
    \<and> (\<forall>j < length D. j \<noteq> k0 \<longrightarrow> j \<noteq> k2 \<longrightarrow> ks_nodes (D' ! j) = ks_nodes (D ! j))
    \<and> (\<forall>j < length D. ks_dirty (D' ! j) = ks_dirty (D ! j))"
proof -
  define Z where "Z = kvdb_sec_size db"
  let ?a = "nodes_end (k0 * Z + 16) xs" let ?n = "node_size key val"
  have mem: "kv_mem db D" and ag: "kvc_agrees Z D (kv_cache_table db)" and uq: "kv_uniq D"
    using rep by (simp_all add: kv_rep_def Z_def)
  have ka: "kv_addr_start kv = nodes_end (k0 * kvdb_sec_size db + 16) xs" "kv_status kv = FDB_KV_WRITE"
    "kv_len kv = ?n" "kv_name_len kv = length key" "kv_value_len kv = length val" using kv(2) by simp_all
  have ni: "node_in Z D ?a (FDB_KV_WRITE, key, val)" unfolding node_in_def using k0(1,2) by blast
  note nf = node_in_facts [OF mem ni [unfolded Z_def]]
  have nm: "take (length key) (kv_name kv) = key"
    using node_kv_name(2) nf(4) kv unfolding kv_wf_def by blast
  have nn: "None = Some key \<or> None = None \<and> take (kv_name_len kv) (kv_name kv) = key" using nm ka(4) by simp
  define D1 where "D1 = set_node k0 xs (FDB_KV_PRE_DELETE, key, val) ys D"
  obtain db1 where d1: "del_kv_found db None kv False = Some (FDB_NO_ERR, db1)" "kv_mem db1 D1" "kv_frame db db1"
    "kv_last_is_complete_del db1" "kv_cache_table db1 = kv_cache_table db"
    using del_kv_found_eq [OF mem k0(1,2) ka(1) nn, of False] unfolding D1_def by auto
  have z1: "kvdb_sec_size db1 = Z" using d1(3) kv_frame_sec unfolding Z_def by blast
  have gc1: "kv_gc_request db1" using d1(3) gc by (simp add: kv_frame_def)
  have D1_nodes: "ks_nodes (D1 ! j) = (if j = k0 then xs @ (FDB_KV_PRE_DELETE, key, val) # ys else ks_nodes (D ! j))" for j
    using k0(1) by (simp add: D1_def set_node_nodes)
  have D1_dirty: "ks_dirty (D1 ! j) = ks_dirty (D ! j)" for j
    using k0 by (cases "j = k0") (simp_all add: D1_def set_node_def mark_dirty_def)
  have D1_len: "length D1 = length D" by (simp add: D1_def)
  have D1_store: "ks_store (D1 ! j) = ks_store (D ! j)" for j unfolding D1_def by (rule set_node_store)
  have us1: "usable Z True ?n (D1 ! k1)"
    using room by (simp add: usable_def D1_nodes D1_dirty Z_def)
  have nb: "?n < 2147483648" using nf(3) kv_memD(8) [OF mem] by linarith
  obtain a2 c2 t2 where al: "alloc_kv db1 (junk_sec (kvdb_stk db1)) ?n = Some (a2, c2,
        db1\<lparr>kv_sector_cache_table := t2, kv_gc_request := True\<rparr>)" "sc_agrees Z D1 t2"
    "if a2 = FAILED_ADDR
       then (\<forall>k < length D1. ks_store (D1 ! k) = FDB_SECTOR_STORE_USING \<longrightarrow> \<not> usable Z True ?n (D1 ! k))
          \<and> (n_empty D1 = 0 \<or> (\<forall>k < length D1. ks_store (D1 ! k) = FDB_SECTOR_STORE_EMPTY \<longrightarrow> \<not> usable Z True ?n (D1 ! k)))
       else \<exists>k. room_at Z D1 k c2 a2 ?n \<and> ks_dirty (D1 ! k) = FDB_SECTOR_DIRTY_FALSE
          \<and> (ks_store (D1 ! k) = FDB_SECTOR_STORE_EMPTY \<longrightarrow>
             (\<forall>k < length D1. ks_store (D1 ! k) = FDB_SECTOR_STORE_USING \<longrightarrow> \<not> usable Z True ?n (D1 ! k)))"
    using alloc_kv_eq [OF d1(2) nb, of "junk_sec (kvdb_stk db1)"]
    unfolding z1 eqTrueI [OF gc1] simp_thms by blast
  have "a2 \<noteq> FAILED_ADDR"
  proof
    assume "a2 = FAILED_ADDR"
    then show False
      using al(3) us1 room(1) kv_mem_store [OF d1(2), of k1] n_store_0(2) [of D1] D1_len by (auto split: if_splits)
  qed
  then obtain k2 where k2: "room_at Z D1 k2 c2 a2 ?n" "ks_dirty (D1 ! k2) = FDB_SECTOR_DIRTY_FALSE" using al(3) by auto
  have k20: "k2 \<noteq> k0" "k2 < length D" using k2 D1_dirty k0(3) D1_len by (auto simp: room_at_def)
  have D1_k2: "D1 ! k2 = D ! k2" using k20 by (simp add: D1_def set_node_def mark_dirty_def)
  define db2 where "db2 = db1\<lparr>kv_sector_cache_table := t2, kv_gc_request := True\<rparr>"
  have m2: "kv_mem db2 D1"
    using d1(2) al(2) z1 by (simp add: db2_def kv_mem_def kv_flash_def kv_ok_def kv_img_def)
  have fr2: "kv_frame db db2" using d1(3) gc by (simp add: db2_def kv_frame_def kv_cfg_def Let_def)
  have z2: "kvdb_sec_size db2 = Z" using fr2 kv_frame_sec unfolding Z_def by blast
  have ni1: "node_in Z D1 ?a (FDB_KV_PRE_DELETE, key, val)"
    unfolding node_in_def using k0(1) D1_nodes [of k0] D1_len by auto
  have apart: "?a + ?n \<le> k2 * Z \<or> k2 * Z + Z \<le> ?a"
  proof -
    have "k0 * Z \<le> ?a \<and> ?a + ?n + 88 < k0 * Z + Z"
    proof -
      note d = kv_sectorD(4) [OF kv_memD(6) [OF mem k0(1)]]
      have "?a + ?n \<le> nodes_end (k0 * Z + 16) (ks_nodes (D ! k0))"
        using k0(2) nodes_end_ge [of "?a + ?n" ys] by simp
      then show ?thesis using d nodes_end_ge [of "k0 * Z + 16" xs] unfolding Z_def by linarith
    qed
    moreover have "k2 * Z + Z \<le> k0 * Z \<or> k0 * Z + Z \<le> k2 * Z"
      using k20(1) mult_le_less [of k2 k0 Z] mult_le_less [of k0 k2 Z] by (cases "k2 < k0") auto
    ultimately show ?thesis by linarith
  qed
  have r: "k2 < length D1" "sec_addr c2 = k2 * Z" "sec_store c2 = ks_store (D1 ! k2)"
    "sec_room (k2 * Z) Z (D1 ! k2) c2" "a2 = nodes_end (k2 * Z + 16) (ks_nodes (D1 ! k2))"
    "a2 + ?n + 88 < k2 * Z + Z"
    using k2(1) by (simp_all add: room_at_def sec_view_def)
  define D2 where "D2 = append_node k2 key val D1"
  obtain db3 where c3: "move_kv_copy db2 c2 kv a2 = Some (FDB_NO_ERR, db3)" "kv_mem db3 D2" "kv_frame db2 db3"
    "kv_cache_table db3 = kvc_update (kv_name_crc key) a2 (kv_cache_table db2)"
    "kv_last_is_complete_del db3 = kv_last_is_complete_del db2"
    using move_kv_copy_eq [OF m2 r(1) refl, of c2 a2 key val ?a FDB_KV_PRE_DELETE kv] r(2-) z2 ni1 apart ka nm
    unfolding D2_def Z_def by auto
  have fr3: "kv_frame db db3" using fr2 c3(3) kv_frame_trans by blast
  have z3: "kvdb_sec_size db3 = Z" using fr3 kv_frame_sec unfolding Z_def by blast
  have D2_len: "length D2 = length D" by (simp add: D2_def append_node_def D1_len)
  have D2_nodes: "ks_nodes (D2 ! j) = (if j = k2 then ks_nodes (D ! k2) @ [(FDB_KV_WRITE, key, val)] else ks_nodes (D1 ! j))" for j
    using k20 D1_len D1_k2 by (simp add: D2_def append_node_def)
  have D2_dirty: "ks_dirty (D2 ! j) = ks_dirty (D ! j)" for j
    using D1_dirty k20 D1_len by (cases "j = k2") (simp_all add: D2_def append_node_def)
  have n20: "ks_nodes (D2 ! k0) = xs @ (FDB_KV_PRE_DELETE, key, val) # ys" using D2_nodes D1_nodes k20 by simp
  define D3 where "D3 = set_node k0 xs (FDB_KV_DELETED, key, val) ys D2"
  obtain db4 where d4: "del_kv_found db3 None kv True = Some (FDB_NO_ERR, db4)" "kv_mem db4 D3" "kv_frame db3 db4"
    "kv_cache_table db4 = kv_cache_table db3" "\<not> kv_last_is_complete_del db4"
    using del_kv_found_eq [OF c3(2) _ n20, of kv None True] k0(1) ka(1) D2_len nn z3 c3(5) d1(4)
    unfolding D3_def Z_def by (auto simp: db2_def)
  have fr4: "kv_frame db db4" using fr3 d4(3) kv_frame_trans by blast
  have z4: "kvdb_sec_size db4 = Z" using fr4 kv_frame_sec unfolding Z_def by blast
  have run: "move_kv db kv = Some (FDB_NO_ERR, db4)"
    unfolding move_kv_def using al(1) c3(1) d1(1) d4(1) \<open>a2 \<noteq> FAILED_ADDR\<close> ka
    by (simp add: del_kv_def db2_def)
  have l1: "add_mset (key, val) (live_ms D1) = live_ms D"
    using live_ms_set_node [OF k0(1,2), of FDB_KV_PRE_DELETE] by (simp add: D1_def)
  have l2: "live_ms D2 = add_mset (key, val) (live_ms D1)" using r(1) by (simp add: D2_def live_ms_append)
  have l3: "live_ms D3 = live_ms D2"
    using live_ms_set_node [of k0 D2, OF _ n20, of FDB_KV_DELETED] k0(1) D2_len by (simp add: D3_def)
  have live: "live_ms D3 = live_ms D" using l1 l2 l3 by simp
  have ag1: "kvc_agrees_but (kv_name_crc key) Z D1 (kv_cache_table db2)"
  proof (rule kvc_agrees_weaken)
    show "kvc_agrees Z D (kv_cache_table db2)" using ag d1(5) by (simp add: db2_def)
    fix a key' val'
    assume "kv_name_crc key' \<noteq> kv_name_crc key" "node_in Z D a (FDB_KV_WRITE, key', val')"
    then show "node_in Z D1 a (FDB_KV_WRITE, key', val')"
      unfolding D1_def using k0 by (intro node_in_set_node [where st = FDB_KV_WRITE]) auto
  qed
  have "kvc_agrees_but (kv_name_crc key) Z D2 (kv_cache_table db2)"
    using ag1 unfolding D2_def by (rule kvc_agrees_but_mono) (use r(1) node_in_append in blast)
  moreover have "node_in Z D2 a2 (FDB_KV_WRITE, key, val)"
    unfolding D2_def r(5) using r(1) by (rule node_in_append_new)
  ultimately have "kvc_agrees Z D2 (kv_cache_table db3)"
    unfolding c3(4) using \<open>a2 \<noteq> FAILED_ADDR\<close> by (intro kvc_agrees_put) (simp_all add: fdb_const)
  then have ag3: "kvc_agrees Z D3 (kv_cache_table db4)"
    unfolding d4(4) D3_def
    by (rule kvc_agrees_mono) (use k0(1) D2_len n20 in \<open>auto intro!: node_in_set_node [where st = FDB_KV_PRE_DELETE]\<close>)
  have "kv_rep db4 D3"
    using d4(2) ag3 live_ms_same(1) [OF uq live] z4 by (simp add: kv_rep_def)
  moreover have "ks_nodes (D3 ! k0) = xs @ (FDB_KV_DELETED, key, val) # ys"
    "ks_nodes (D3 ! k2) = ks_nodes (D ! k2) @ [(FDB_KV_WRITE, key, val)]"
    "\<forall>j < length D. j \<noteq> k0 \<longrightarrow> j \<noteq> k2 \<longrightarrow> ks_nodes (D3 ! j) = ks_nodes (D ! j)"
    using k0(1) D2_len D2_nodes D1_nodes k20 by (simp_all add: D3_def set_node_nodes)
  moreover have "\<forall>j < length D. ks_dirty (D3 ! j) = ks_dirty (D ! j)"
    using D2_dirty k0(1,3) D2_len
    by (auto simp: D3_def set_node_def mark_dirty_def nth_list_update)
  ultimately show ?thesis
    using run fr4 d4(5) live D2_len k20 D1_dirty k2(2)
    by (intro exI [of _ db4] exI [of _ D3] exI [of _ k2]) (simp add: D3_def)
qed

subsection \<open>Collecting a sector\<close>

text \<open>The flag \<open>last_is_complete_del\<close> is false again after a move.\<close>

definition gc_step :: "fdb_kvdb \<Rightarrow> fdb_kvdb \<Rightarrow> bool" where
  "gc_step db db' \<longleftrightarrow> kv_frame db db' \<and> (kv_last_is_complete_del db' \<longrightarrow> kv_last_is_complete_del db)"

lemma gc_step_refl [simp]: "gc_step db db"
  by (simp add: gc_step_def)

lemma gc_step_trans: "gc_step db db' \<Longrightarrow> gc_step db' db'' \<Longrightarrow> gc_step db db''"
  using kv_frame_trans by (auto simp: gc_step_def)

lemma gc_step_frame: "gc_step db db' \<Longrightarrow> kv_frame db db'"
  by (simp add: gc_step_def)

lemma get_next_cong:
  assumes "kv_addr_start kv = kv_addr_start kv'" "kv_crc_is_ok kv = kv_crc_is_ok kv'" "kv_len kv = kv_len kv'"
  shows "get_next_kv_addr db c kv = get_next_kv_addr db c kv'"
  by (simp only: get_next_kv_addr_def assms)

fun gsize :: "kv_node list \<Rightarrow> nat" where
  "gsize [] = 0"
| "gsize ((st, key, val) # ns) = (if st = FDB_KV_WRITE then node_size key val else 0) + gsize ns"

lemma gsize_le: "a + gsize ns \<le> nodes_end a ns"
proof (induction ns arbitrary: a)
  case (Cons n ns)
  obtain st key val where n: "n = (st, key, val)" by (metis prod_cases3)
  show ?case using Cons.IH [of "a + node_size key val"] by (simp add: n)
qed simp

definition roomy :: "nat \<Rightarrow> kv_sec list \<Rightarrow> nat \<Rightarrow> kv_node list \<Rightarrow> bool" where
  "roomy Z D k0 ns \<longleftrightarrow> (\<exists>k1 < length D. k1 \<noteq> k0 \<and> ks_dirty (D ! k1) = FDB_SECTOR_DIRTY_FALSE
     \<and> nodes_end 16 (ks_nodes (D ! k1)) + gsize ns + 88 < Z)"

definition settled_nodes :: "kv_node list \<Rightarrow> bool" where
  "settled_nodes ns \<longleftrightarrow> (\<forall>n \<in> set ns. fst n = FDB_KV_WRITE \<or> fst n = FDB_KV_DELETED)"

text \<open>What a collection may change: the layout of the collected sector stays, others grow.\<close>

definition gc_grows :: "nat \<Rightarrow> kv_sec list \<Rightarrow> kv_sec list \<Rightarrow> bool" where
  "gc_grows k0 D D' \<longleftrightarrow> length D' = length D \<and> live_ms D' = live_ms D
   \<and> (\<forall>j < length D. ks_dirty (D' ! j) = ks_dirty (D ! j))
   \<and> (\<forall>j < length D. settled_nodes (ks_nodes (D ! j)) \<longrightarrow> settled_nodes (ks_nodes (D' ! j)))
   \<and> (\<forall>j < length D. j \<noteq> k0 \<longrightarrow> (\<exists>es. ks_nodes (D' ! j) = ks_nodes (D ! j) @ es
        \<and> (\<forall>n \<in> set es. fst n = FDB_KV_WRITE)))"

lemma gc_grows_refl [simp]: "gc_grows k0 D D"
  by (simp add: gc_grows_def)

lemma gc_grows_trans: "gc_grows k0 D D' \<Longrightarrow> gc_grows k0 D' D'' \<Longrightarrow> gc_grows k0 D D''"
  unfolding gc_grows_def
proof (elim conjE, intro conjI allI impI)
  fix j
  assume a: "\<forall>j < length D. j \<noteq> k0 \<longrightarrow> (\<exists>es. ks_nodes (D' ! j) = ks_nodes (D ! j) @ es \<and> (\<forall>n \<in> set es. fst n = FDB_KV_WRITE))"
    "\<forall>j < length D'. j \<noteq> k0 \<longrightarrow> (\<exists>es. ks_nodes (D'' ! j) = ks_nodes (D' ! j) @ es \<and> (\<forall>n \<in> set es. fst n = FDB_KV_WRITE))"
    "length D' = length D" and j: "j < length D" "j \<noteq> k0"
  then obtain es fs where "ks_nodes (D' ! j) = ks_nodes (D ! j) @ es" "ks_nodes (D'' ! j) = ks_nodes (D' ! j) @ fs"
    "\<forall>n \<in> set es. fst n = FDB_KV_WRITE" "\<forall>n \<in> set fs. fst n = FDB_KV_WRITE" by metis
  then show "\<exists>es. ks_nodes (D'' ! j) = ks_nodes (D ! j) @ es \<and> (\<forall>n \<in> set es. fst n = FDB_KV_WRITE)"
    by (intro exI [of _ "es @ fs"]) auto
qed auto

lemma kv_rep_in: "kv_rep db D \<Longrightarrow> kv_mem db D"
  by (simp add: kv_rep_def)

text \<open>One round of the loop of \<open>do_gc\<close>: the node is moved if it is written.\<close>

lemma do_gc_move:
  assumes rep: "kv_rep db D" and gc: "kv_gc_request db"
    and k0: "k0 < length D" "ks_nodes (D ! k0) = xs @ (st, key, val) # ns"
      "ks_dirty (D ! k0) \<noteq> FDB_SECTOR_DIRTY_FALSE" "settled_nodes (ks_nodes (D ! k0))"
    and kv: "kv_wf kv" "kv' = node_kv kv (nodes_end (k0 * kvdb_sec_size db + 16) xs) st key val"
    and room: "roomy (kvdb_sec_size db) D k0 ((st, key, val) # ns)"
  shows "\<exists>err db' D'. (if kv_crc_is_ok kv' \<and> (kv_status kv' = FDB_KV_WRITE \<or> kv_status kv' = FDB_KV_PRE_DELETE)
        then move_kv db kv' else Some (FDB_NO_ERR, db)) = Some (err, db')
    \<and> kv_rep db' D' \<and> gc_step db db' \<and> gc_grows k0 D D'
    \<and> ks_nodes (D' ! k0) = xs @ (FDB_KV_DELETED, key, val) # ns \<and> roomy (kvdb_sec_size db) D' k0 ns"
proof (cases "st = FDB_KV_WRITE")
  case False
  then have st: "st = FDB_KV_DELETED" using k0(2,4) by (auto simp: settled_nodes_def)
  have "roomy (kvdb_sec_size db) D k0 ns" using room st by (simp add: roomy_def)
  then show ?thesis using rep k0(2) st kv(2)
    by (intro exI [of _ FDB_NO_ERR] exI [of _ db] exI [of _ D]) simp
next
  case True
  let ?Z = "kvdb_sec_size db"
  obtain k1 where k1: "k1 < length D" "k1 \<noteq> k0" "ks_dirty (D ! k1) = FDB_SECTOR_DIRTY_FALSE"
    "nodes_end 16 (ks_nodes (D ! k1)) + node_size key val + gsize ns + 88 < ?Z"
    using room True by (auto simp: roomy_def add.assoc)
  have us: "usable ?Z True (node_size key val) (D ! k1)" using k1(3,4) by (simp add: usable_def)
  from move_kv_eq [OF rep gc k0(1) k0(2) [unfolded True] k0(3) kv(1) kv(2) [unfolded True] k1(1,2) us]
  obtain db' D' k2 where m: "move_kv db kv' = Some (FDB_NO_ERR, db')" "kv_rep db' D'" "gc_step db db'"
    "length D' = length D" "live_ms D' = live_ms D"
    "k2 < length D" "k2 \<noteq> k0" "ks_dirty (D ! k2) = FDB_SECTOR_DIRTY_FALSE"
    "ks_nodes (D' ! k0) = xs @ (FDB_KV_DELETED, key, val) # ns"
    "ks_nodes (D' ! k2) = ks_nodes (D ! k2) @ [(FDB_KV_WRITE, key, val)]"
    "\<forall>j < length D. j \<noteq> k0 \<longrightarrow> j \<noteq> k2 \<longrightarrow> ks_nodes (D' ! j) = ks_nodes (D ! j)"
    "\<forall>j < length D. ks_dirty (D' ! j) = ks_dirty (D ! j)" unfolding gc_step_def by blast
  have grows: "gc_grows k0 D D'"
    unfolding gc_grows_def
  proof (intro conjI allI impI)
    fix j
    assume j: "j < length D" "settled_nodes (ks_nodes (D ! j))"
    then show "settled_nodes (ks_nodes (D' ! j))"
      using m(9-11) k0(2,4) by (cases "j = k0"; cases "j = k2") (auto simp: settled_nodes_def)
  next
    fix j
    assume "j < length D" "j \<noteq> k0"
    then show "\<exists>es. ks_nodes (D' ! j) = ks_nodes (D ! j) @ es \<and> (\<forall>n \<in> set es. fst n = FDB_KV_WRITE)"
      using m(10,11) by (cases "j = k2") auto
  qed (use m(4,5,12) in auto)
  have "roomy ?Z D' k0 ns"
    unfolding roomy_def
  proof (intro exI [of _ k1] conjI)
    show "nodes_end 16 (ks_nodes (D' ! k1)) + gsize ns + 88 < ?Z"
      using m(10,11) k1 by (cases "k1 = k2") auto
  qed (use k1 m(4,12) in auto)
  then show ?thesis using m(1-3,9) grows kv(2) True
    by (intro exI [of _ FDB_NO_ERR] exI [of _ db'] exI [of _ D']) simp
qed

lemma do_gc_loop_eq:
  assumes c: "sec_addr c = k0 * Z" "sec_store c = FDB_SECTOR_STORE_USING" and k0: "k0 < N"
  shows "kv_rep db D \<Longrightarrow> kv_gc_request db \<Longrightarrow> length D = N \<Longrightarrow> kvdb_sec_size db = Z \<Longrightarrow>
    ks_nodes (D ! k0) = xs @ ns \<Longrightarrow> ns \<noteq> [] \<Longrightarrow> ks_dirty (D ! k0) \<noteq> FDB_SECTOR_DIRTY_FALSE \<Longrightarrow>
    settled_nodes (ks_nodes (D ! k0)) \<Longrightarrow> \<forall>n \<in> set xs. fst n = FDB_KV_DELETED \<Longrightarrow>
    roomy Z D k0 ns \<Longrightarrow> kv_wf kv \<Longrightarrow> kv_addr_start kv = nodes_end (k0 * Z + 16) xs \<Longrightarrow>
    \<exists>db' D'. do_gc_loop db c kv = Some db' \<and> kv_rep db' D' \<and> gc_step db db' \<and> gc_grows k0 D D'
      \<and> (\<forall>n \<in> set (ks_nodes (D' ! k0)). fst n = FDB_KV_DELETED)"
proof (induction ns arbitrary: xs db D kv)
  case (Cons n ns)
  obtain st key val where n: "n = (st, key, val)" by (metis prod_cases3)
  let ?a = "nodes_end (k0 * Z + 16) xs" let ?kv = "node_kv kv ?a st key val"
  have nd: "ks_nodes (D ! k0) = xs @ (st, key, val) # ns" using Cons.prems(5) n by simp
  have kl: "k0 < length D" using k0 Cons.prems(3) by simp
  have "node_in (kvdb_sec_size db) D ?a (st, key, val)"
    unfolding node_in_def Cons.prems(4) using kl nd by blast
  note rd = read_kv_in [OF kv_rep_in [OF Cons.prems(1)] this Cons.prems(11,12)]
  obtain err db1 D1 where m: "(if kv_crc_is_ok ?kv \<and> (kv_status ?kv = FDB_KV_WRITE \<or> kv_status ?kv = FDB_KV_PRE_DELETE)
        then move_kv db ?kv else Some (FDB_NO_ERR, db)) = Some (err, db1)"
    "kv_rep db1 D1" "gc_step db db1" "gc_grows k0 D D1"
    "ks_nodes (D1 ! k0) = xs @ (FDB_KV_DELETED, key, val) # ns" "roomy Z D1 k0 ns"
    using do_gc_move [OF Cons.prems(1,2) kl nd Cons.prems(7,8,11), of ?kv] Cons.prems(4,10) n by auto
  have z1: "kvdb_sec_size db1 = Z" using gc_step_frame [OF m(3)] kv_frame_sec Cons.prems(4) by metis
  have len1: "length D1 = N" using m(4) Cons.prems(3) by (simp add: gc_grows_def)
  have kl1: "k0 < length D1" using k0 len1 by simp
  have d1: "ks_dirty (D1 ! k0) \<noteq> FDB_SECTOR_DIRTY_FALSE" "settled_nodes (ks_nodes (D1 ! k0))"
    using m(4) kl Cons.prems(7,8) by (simp_all add: gc_grows_def)
  have gc1: "kv_gc_request db1" using m(3) Cons.prems(2) by (simp add: gc_step_def kv_frame_def)
  note mem1 = kv_rep_in [OF m(2)]
  have st1: "ks_store (D1 ! k0) = FDB_SECTOR_STORE_USING" using kv_mem_store [OF mem1 kl1] m(5) by auto
  have nx: "get_next_kv_addr db1 c ?kv
      = Some (if ns = [] then FAILED_ADDR else nodes_end (k0 * Z + 16) (xs @ [(FDB_KV_DELETED, key, val)]))"
  proof -
    have "get_next_kv_addr db1 c ?kv = get_next_kv_addr db1 c (node_kv kv ?a FDB_KV_DELETED key val)"
      by (rule get_next_cong) simp_all
    also have "\<dots> = Some (if ns = [] then FAILED_ADDR else nodes_end (k0 * Z + 16) (xs @ [(FDB_KV_DELETED, key, val)]))"
      using kv_memD(1) [OF mem1] kv_memD(6) [OF mem1 kl1, unfolded z1] z1 sc_agrees_fits [OF mem1 kl1, unfolded z1] m(5) c st1
      by (intro get_next_kv_addr_eq [where s = "D1 ! k0" and k = k0 and ys = ns]) auto
    finally show ?thesis .
  qed
  show ?case
  proof (cases "ns = []")
    case True
    have "do_gc_loop db c kv = Some db1"
      using True by (subst do_gc_loop.simps) (simp only: rd(1) m(1) nx Option.bind.bind_lunit case_prod_conv if_True if_False simp_thms)
    moreover have "\<forall>n \<in> set (ks_nodes (D1 ! k0)). fst n = FDB_KV_DELETED" using m(5) True Cons.prems(9) by auto
    ultimately show ?thesis using m(2-4) by blast
  next
    case False
    let ?xs = "xs @ [(FDB_KV_DELETED, key, val)]" let ?a' = "nodes_end (k0 * Z + 16) ?xs"
    obtain st' key' val' ns' where n': "ns = (st', key', val') # ns'" using False by (metis list.exhaust prod_cases3)
    have "ks_nodes (D1 ! k0) = ?xs @ (st', key', val') # ns'" using m(5) n' by simp
    then have "node_in (kvdb_sec_size db1) D1 ?a' (st', key', val')"
      unfolding node_in_def z1 using kl1 by blast
    then have a': "?a' \<noteq> FAILED_ADDR" using node_in_facts(6) mem1 by blast
    have step: "do_gc_loop db c kv = do_gc_loop db1 c (?kv\<lparr>kv_addr_start := ?a'\<rparr>)"
      using False a' by (subst do_gc_loop.simps)
        (simp only: rd(1) m(1) nx Option.bind.bind_lunit case_prod_conv if_True if_False simp_thms)
    have "\<exists>db' D'. do_gc_loop db1 c (?kv\<lparr>kv_addr_start := ?a'\<rparr>) = Some db' \<and> kv_rep db' D' \<and> gc_step db1 db'
      \<and> gc_grows k0 D1 D' \<and> (\<forall>n \<in> set (ks_nodes (D' ! k0)). fst n = FDB_KV_DELETED)"
      using m(2) gc1 len1 z1 _ False d1 _ m(6)
    proof (rule Cons.IH)
      show "ks_nodes (D1 ! k0) = ?xs @ ns" using m(5) by simp
      show "\<forall>n \<in> set ?xs. fst n = FDB_KV_DELETED" using Cons.prems(9) by simp
    qed (use rd(2) in simp_all)
    then obtain db' D' where r: "do_gc_loop db1 c (?kv\<lparr>kv_addr_start := ?a'\<rparr>) = Some db'" "kv_rep db' D'" "gc_step db1 db'"
      "gc_grows k0 D1 D'" "\<forall>n \<in> set (ks_nodes (D' ! k0)). fst n = FDB_KV_DELETED" by blast
    show ?thesis
      using step r(1,2,5) gc_step_trans [OF m(3) r(3)] gc_grows_trans [OF m(4) r(4)] by auto
  qed
qed simp

end
