(* ===== verification/Kvdb_Format.thy ===== *)
theory Kvdb_Format
  imports Kvdb_Gc
begin

text \<open>
  Formatting a sector: \<open>format_sector\<close> erases it, writes a fresh header and drops the sector from
  the sector cache. Afterwards the sector is empty and clean, whatever it held before.
\<close>

definition clear_sec :: kv_sec where
  "clear_sec = \<lparr>ks_store = FDB_SECTOR_STORE_EMPTY, ks_dirty = FDB_SECTOR_DIRTY_FALSE, ks_nodes = []\<rparr>"

lemma clear_sec_simps [simp]:
  "ks_store clear_sec = FDB_SECTOR_STORE_EMPTY" "ks_dirty clear_sec = FDB_SECTOR_DIRTY_FALSE"
  "ks_nodes clear_sec = []"
  by (simp_all add: clear_sec_def)

lemma sector_hdr_image_eq:
  "sector_hdr_image n = [status_byte (store_num FDB_SECTOR_STORE_EMPTY), status_byte (dirty_num FDB_SECTOR_DIRTY_FALSE),
     FDB_BYTE_ERASED, FDB_BYTE_ERASED] @ le32 SECTOR_MAGIC_WORD @ le32 n @ le32 FDB_DATA_UNUSED"
proof -
  have "snd (fdb_set_status FDB_WRITE_GRAN FDB_SECTOR_STORE_STATUS_NUM (store_num FDB_SECTOR_STORE_EMPTY))
      = [status_byte (store_num FDB_SECTOR_STORE_EMPTY)]"
    "snd (fdb_set_status FDB_WRITE_GRAN FDB_SECTOR_DIRTY_STATUS_NUM (dirty_num FDB_SECTOR_DIRTY_FALSE))
      = [status_byte (dirty_num FDB_SECTOR_DIRTY_FALSE)]"
    by (simp_all add: set_status_1 status_byte_def FDB_SECTOR_STORE_STATUS_NUM_def FDB_SECTOR_DIRTY_STATUS_NUM_def)
  then show ?thesis by (simp only: sector_hdr_image_def append.simps)
qed

lemma length_sector_hdr_image [simp]: "length (sector_hdr_image n) = 16"
  by (simp add: sector_hdr_image_eq)

definition sector_formatted :: "nat \<Rightarrow> nat \<Rightarrow> bytes \<Rightarrow> bytes" where
  "sector_formatted S Z m =
     splice (splice m S (replicate Z FDB_BYTE_ERASED)) S (sector_hdr_image SECTOR_NOT_COMBINED)"

lemma sector_formatted_props:
  assumes "S + Z \<le> length m" "104 < Z"
  shows "length (sector_formatted S Z m) = length m" "kv_sector (sector_formatted S Z m) S Z clear_sec"
    "\<And>i. i < length m \<Longrightarrow> \<not> (S \<le> i \<and> i < S + Z) \<Longrightarrow> sector_formatted S Z m ! i = m ! i"
proof -
  let ?m1 = "splice m S (replicate Z FDB_BYTE_ERASED)" let ?h = "sector_hdr_image SECTOR_NOT_COMBINED"
  have l1: "length ?m1 = length m" using assms(1) by simp
  show l: "length (sector_formatted S Z m) = length m"
    using assms by (simp add: sector_formatted_def l1)
  show "sector_formatted S Z m ! i = m ! i" if "i < length m" "\<not> (S \<le> i \<and> i < S + Z)" for i
    using that assms by (auto simp: sector_formatted_def nth_splice)
  have h: "slice (S + b) n (sector_formatted S Z m) = slice b n ?h" if "b + n \<le> 16" for b n
  proof -
    have "S + length ?h \<le> length ?m1" "S \<le> S + b" "S + b + n \<le> S + length ?h" using that assms l1 by simp_all
    then show ?thesis unfolding sector_formatted_def by (simp add: slice_splice_inside)
  qed
  have hdr: "kv_hdr (sector_formatted S Z m) S FDB_SECTOR_STORE_EMPTY FDB_SECTOR_DIRTY_FALSE"
  proof -
    have "slice 0 1 ?h = [status_byte (store_num FDB_SECTOR_STORE_EMPTY)]"
      "slice 1 1 ?h = [status_byte (dirty_num FDB_SECTOR_DIRTY_FALSE)]"
      "slice 4 4 ?h = le32 SECTOR_MAGIC_WORD" "slice 8 4 ?h = le32 SECTOR_NOT_COMBINED"
      unfolding sector_hdr_image_eq by (simp_all add: slice_def del: store_num.simps dirty_num.simps)
    then show ?thesis
      using h [of 0 1] h [of 1 1] h [of 4 4] h [of 8 4]
      by (simp add: kv_hdr_def of_le32_le32 u32_def SECTOR_MAGIC_WORD_def SECTOR_NOT_COMBINED_def
          del: store_num.simps dirty_num.simps)
  qed
  have "sector_formatted S Z m ! i = FDB_BYTE_ERASED" if "S + 16 \<le> i" "i < S + Z" for i
    using that assms l1 by (simp add: sector_formatted_def nth_splice)
  then show "kv_sector (sector_formatted S Z m) S Z clear_sec"
    using hdr assms l by (simp add: kv_sector_def)
qed

lemma format_sector_eq:
  assumes "kv_ok db" "104 < kvdb_sec_size db" "S mod kvdb_sec_size db = 0"
    and "S + kvdb_sec_size db \<le> length (kv_img db)"
  shows "format_sector db S SECTOR_NOT_COMBINED = Some (FDB_NO_ERR,
    (kv_put (sector_formatted S (kvdb_sec_size db) (kv_img db)) db)
      \<lparr>kv_sector_cache_table := sc_drop S (kv_sector_cache_table db)\<rparr>)"
proof -
  let ?Z = "kvdb_sec_size db" let ?m1 = "splice (kv_img db) S (replicate ?Z FDB_BYTE_ERASED)"
  have l1: "length ?m1 = length (kv_img db)" using assms(4) by simp
  have "S \<noteq> FDB_DATA_UNUSED" using assms(4) kvf.img_bound [OF assms(1)] by (simp add: fdb_const)
  moreover have "kv_flash_erase db S ?Z = Some (FDB_NO_ERR, kv_put ?m1 db)"
    using assms(1,4) by (rule kvf.er_in)
  moreover have "kv_flash_write (kv_put ?m1 db) S (sector_hdr_image SECTOR_NOT_COMBINED) True
      = Some (FDB_NO_ERR, kv_put (sector_formatted S ?Z (kv_img db)) db)"
  proof -
    have "S + length (sector_hdr_image SECTOR_NOT_COMBINED) \<le> length ?m1" using assms(2,4) l1 by simp
    moreover have "length (sector_formatted S ?Z (kv_img db)) = length (kv_img db)"
      using assms(2,4) by (intro sector_formatted_props) simp_all
    ultimately show ?thesis
      using kvf.wr_in [OF kvf.ok_put [OF assms(1) l1]] kvf.img_put [OF assms(1) l1] kvf.put_put [OF assms(1) l1]
      unfolding sector_formatted_def by simp
  qed
  ultimately show ?thesis
    using assms(2,3) by (simp add: format_sector_def update_sector_cache_eq sc_drop_def)
qed

text \<open>As a step of the memory of a database.\<close>

lemma kv_mem_size:
  assumes "kv_mem db D"
  shows "104 < kvdb_sec_size db"
proof -
  have "0 < length D" using kv_memD(3) [OF assms] by linarith
  from kv_sectorD(4,7) [OF kv_memD(6) [OF assms this]] show ?thesis by linarith
qed

lemma format_sector_mem:
  assumes "kv_mem db D" "k < length D"
  shows "\<exists>db'. format_sector db (k * kvdb_sec_size db) SECTOR_NOT_COMBINED = Some (FDB_NO_ERR, db')
    \<and> kv_mem db' (D[k := clear_sec]) \<and> kv_step db db'"
proof -
  let ?Z = "kvdb_sec_size db" let ?S = "k * ?Z"
  let ?m = "sector_formatted ?S ?Z (kv_img db)" let ?t = "sc_drop ?S (kv_sector_cache_table db)"
  note me = kv_memD [OF assms(1)] and sa = sector_addr [OF assms]
  have fit: "?S + ?Z \<le> length (kv_img db)" using sa(1) me(5) by linarith
  note Z = kv_mem_size [OF assms(1)]
  note p = sector_formatted_props [OF fit Z]
  have fl: "kv_flash db D" using assms(1) by (simp add: kv_mem_def)
  let ?db = "(kv_put ?m db)\<lparr>kv_sector_cache_table := ?t\<rparr>"
  have f: "kv_flash (kv_put ?m db) (D[k := clear_sec])" "kvdb_sec_size (kv_put ?m db) = ?Z"
    using kv_flash_update [OF fl assms(2) p(1,2)] p(3) by (simp_all add: p(1))
  have "sc_agrees ?Z (D[k := clear_sec]) ?t"
    using me(9) unfolding sc_agrees_def
  proof (rule scc.coherent_drop)
    fix a c
    assume a: "a \<noteq> ?S" "\<exists>j < length D. a = j * ?Z \<and> sec_cached a ?Z (D ! j) c"
    then obtain j where j: "j < length D" "a = j * ?Z" "sec_cached a ?Z (D ! j) c" by blast
    then have "j \<noteq> k" using a(1) by auto
    then show "\<exists>j < length (D[k := clear_sec]). a = j * ?Z \<and> sec_cached a ?Z (D[k := clear_sec] ! j) c"
      using j by (intro exI [of _ j]) simp
  qed
  then have "kv_mem ?db (D[k := clear_sec])" using f by (simp add: kv_mem_def)
  moreover have "kv_step db ?db"
    using kv_step_put [OF me(1) p(1)] kv_step_sc kv_step_trans by blast
  ultimately show ?thesis using format_sector_eq [OF me(1) Z sa(4) fit] by blast
qed

lemma format_sector_rep:
  assumes "kv_rep db D" "k < length D" "\<forall>n \<in> set (ks_nodes (D ! k)). fst n \<noteq> FDB_KV_WRITE"
  shows "\<exists>db'. format_sector db (k * kvdb_sec_size db) SECTOR_NOT_COMBINED = Some (FDB_NO_ERR, db')
    \<and> kv_rep db' (D[k := clear_sec]) \<and> kv_step db db' \<and> live_ms (D[k := clear_sec]) = live_ms D"
proof -
  let ?Z = "kvdb_sec_size db"
  have mem: "kv_mem db D" using assms(1) by (rule kv_rep_in)
  obtain db' where f: "format_sector db (k * ?Z) SECTOR_NOT_COMBINED = Some (FDB_NO_ERR, db')"
    "kv_mem db' (D[k := clear_sec])" "kv_step db db'"
    using format_sector_mem [OF mem assms(2)] by blast
  have "filter (\<lambda>n. fst n = FDB_KV_WRITE) (ks_nodes (D ! k)) = []"
    using assms(3) by (simp add: filter_empty_conv)
  then have ms: "live_ms (D[k := clear_sec]) = live_ms D"
    using live_ms_update [OF assms(2), of clear_sec] by (simp add: livem_def)
  have z: "kvdb_sec_size db' = ?Z" using f(3) by (rule kv_step_sec)
  have "kvc_agrees ?Z D (kv_cache_table db)" using assms(1) by (simp add: kv_rep_def)
  then have "kvc_agrees ?Z (D[k := clear_sec]) (kv_cache_table db)"
  proof (rule kvc_agrees_mono)
    fix a key val
    assume "node_in ?Z D a (FDB_KV_WRITE, key, val)"
    then obtain j xs ys where j: "j < length D" "ks_nodes (D ! j) = xs @ (FDB_KV_WRITE, key, val) # ys"
      "a = nodes_end (j * ?Z + 16) xs" unfolding node_in_def by blast
    then have "j \<noteq> k" using assms(3) by auto
    then have "ks_nodes (D[k := clear_sec] ! j) = xs @ (FDB_KV_WRITE, key, val) # ys" "j < length (D[k := clear_sec])"
      using j by simp_all
    then show "node_in ?Z (D[k := clear_sec]) a (FDB_KV_WRITE, key, val)"
      unfolding node_in_def using j(3) by blast
  qed
  then have "kv_rep db' (D[k := clear_sec])"
    using f(2,3) z live_ms_same(1) [OF _ ms] assms(1) by (simp add: kv_rep_def kv_step_def)
  then show ?thesis using f(1,3) ms by blast
qed

end
