(* ===== verification/Kvdb_Collect.thy ===== *)
theory Kvdb_Collect
  imports Kvdb_Format
begin

text \<open>
  Garbage collection of the whole database. \<open>settled\<close> is the shape of a database between two
  operations: every node is written or deleted, and a sector is dirty exactly when it holds a
  deleted node. From a settled database with an empty sector, \<open>do_gc\<close> empties a dirty sector, and
  \<open>gc_collect_by_free_size\<close> leaves a settled database with an empty sector and the same map.
\<close>

subsection \<open>Settled databases\<close>

definition all_written :: "kv_node list \<Rightarrow> bool" where
  "all_written ns \<longleftrightarrow> (\<forall>n \<in> set ns. fst n = FDB_KV_WRITE)"

lemma all_written_simps [simp]:
  "all_written []" "all_written (xs @ ys) \<longleftrightarrow> all_written xs \<and> all_written ys"
  "all_written (n # ns) \<longleftrightarrow> fst n = FDB_KV_WRITE \<and> all_written ns"
  by (auto simp: all_written_def)

lemma settled_nodes_simps [simp]:
  "settled_nodes []" "settled_nodes (xs @ ys) \<longleftrightarrow> settled_nodes xs \<and> settled_nodes ys"
  "settled_nodes (n # ns) \<longleftrightarrow> (fst n = FDB_KV_WRITE \<or> fst n = FDB_KV_DELETED) \<and> settled_nodes ns"
  by (auto simp: settled_nodes_def)

definition dirty_when :: "bool \<Rightarrow> fdb_sector_dirty_status" where
  "dirty_when b = (if b then FDB_SECTOR_DIRTY_TRUE else FDB_SECTOR_DIRTY_FALSE)"

lemma dirty_when_eq [simp]:
  "dirty_when b = FDB_SECTOR_DIRTY_FALSE \<longleftrightarrow> \<not> b" "dirty_when b = FDB_SECTOR_DIRTY_TRUE \<longleftrightarrow> b"
  "dirty_when b \<noteq> FDB_SECTOR_DIRTY_GC" "dirty_when b \<noteq> FDB_SECTOR_DIRTY_UNUSED"
  by (simp_all add: dirty_when_def)

definition settled_sec :: "kv_sec \<Rightarrow> bool" where
  "settled_sec s \<longleftrightarrow> settled_nodes (ks_nodes s) \<and> ks_dirty s = dirty_when (\<not> all_written (ks_nodes s))"

definition settled :: "kv_sec list \<Rightarrow> bool" where
  "settled D \<longleftrightarrow> (\<forall>k < length D. settled_sec (D ! k))"

lemma settled_clear [simp]: "settled_sec clear_sec"
  by (simp add: settled_sec_def dirty_when_def)

lemma settled_update: "settled D \<Longrightarrow> settled_sec s \<Longrightarrow> settled (D[k := s])"
  unfolding settled_def by (metis length_list_update nth_list_update_eq nth_list_update_neq)

subsection \<open>The start of the ring\<close>

lemma flash_ok_oldest [simp]:
  "flash_ok (p\<lparr>db_oldest_addr := a\<rparr>) = flash_ok p" "db_img (p\<lparr>db_oldest_addr := a\<rparr>) = db_img p"
  by (simp_all add: flash_ok_def db_img_def fdb_flash_read_def db_flash_len_def)

definition set_oldest :: "nat \<Rightarrow> fdb_kvdb \<Rightarrow> fdb_kvdb" where
  "set_oldest a db = db\<lparr>kv_parent := (kv_parent db)\<lparr>db_oldest_addr := a\<rparr>\<rparr>"

lemma set_oldest_fields [simp]:
  "kv_cfg (set_oldest a db) = kv_cfg db" "kv_img (set_oldest a db) = kv_img db" "kv_ok (set_oldest a db) = kv_ok db"
  "kvdb_sec_size (set_oldest a db) = kvdb_sec_size db" "kvdb_max_size (set_oldest a db) = kvdb_max_size db"
  "kvdb_oldest_addr (set_oldest a db) = a" "kv_cache_table (set_oldest a db) = kv_cache_table db"
  "kv_sector_cache_table (set_oldest a db) = kv_sector_cache_table db"
  "kv_gc_request (set_oldest a db) = kv_gc_request db" "kv_cur_kv (set_oldest a db) = kv_cur_kv db"
  "kv_cur_sector (set_oldest a db) = kv_cur_sector db"
  "kv_last_is_complete_del (set_oldest a db) = kv_last_is_complete_del db"
  by (simp_all add: set_oldest_def kv_cfg_def kv_img_def kv_ok_def stk_def Let_def)

lemma kv_rep_oldest:
  assumes "kv_rep db D" "k < length D"
  shows "kv_rep (set_oldest (k * kvdb_sec_size db) db) D"
  using assms by (auto simp: kv_rep_def kv_mem_def kv_flash_def)

text \<open>What a collection keeps besides the map.\<close>

definition gc_frame :: "fdb_kvdb \<Rightarrow> fdb_kvdb \<Rightarrow> bool" where
  "gc_frame db db' \<longleftrightarrow>
     kv_cfg db' = kv_cfg db \<and> kv_cur_kv db' = kv_cur_kv db \<and> kv_cur_sector db' = kv_cur_sector db
   \<and> (kv_last_is_complete_del db' \<longrightarrow> kv_last_is_complete_del db)"

lemma gc_frame_refl [simp]: "gc_frame db db"
  by (simp add: gc_frame_def)

lemma gc_frame_trans: "gc_frame db db' \<Longrightarrow> gc_frame db' db'' \<Longrightarrow> gc_frame db db''"
  by (simp add: gc_frame_def)

lemma gc_frame_intros:
  "gc_step db db' \<Longrightarrow> gc_frame db db'" "kv_step db db' \<Longrightarrow> gc_frame db db'"
  "gc_frame db (set_oldest a db)" "gc_frame db (db\<lparr>kv_sector_cache_table := t\<rparr>)"
  "gc_frame db (db\<lparr>kv_gc_request := b\<rparr>)"
proof -
  show "gc_frame db (set_oldest a db)" by (simp add: gc_frame_def)
qed (simp_all add: gc_frame_def gc_step_def kv_frame_def kv_step_def kv_cfg_def Let_def)

lemma gc_frame_sec: "gc_frame db db' \<Longrightarrow> kvdb_sec_size db' = kvdb_sec_size db"
  using kv_cfg_fields(1) unfolding gc_frame_def by blast

subsection \<open>Collecting one sector\<close>

text \<open>\<open>do_gc\<close> first marks the sector on flash; the cached flag stays behind.\<close>

lemma mark_gc_eq:
  assumes "kv_rep db D" "k < length D"
    and "ks_dirty (D ! k) = FDB_SECTOR_DIRTY_TRUE \<or> ks_dirty (D ! k) = FDB_SECTOR_DIRTY_GC"
  shows "\<exists>db'. kv_write_status db (k * kvdb_sec_size db + 1) FDB_SECTOR_DIRTY_STATUS_NUM
        (dirty_num FDB_SECTOR_DIRTY_GC) True = Some (FDB_NO_ERR, db')
    \<and> kv_rep db' (D[k := (D ! k)\<lparr>ks_dirty := FDB_SECTOR_DIRTY_GC\<rparr>]) \<and> kv_step db db'
    \<and> live_ms (D[k := (D ! k)\<lparr>ks_dirty := FDB_SECTOR_DIRTY_GC\<rparr>]) = live_ms D"
proof -
  let ?Z = "kvdb_sec_size db" let ?s = "(D ! k)\<lparr>ks_dirty := FDB_SECTOR_DIRTY_GC\<rparr>" let ?D = "D[k := ?s]"
  have rep: "kv_mem db D" "kvc_agrees ?Z D (kv_cache_table db)" "kv_uniq D"
    using assms(1) by (simp_all add: kv_rep_def)
  have nu: "FDB_SECTOR_DIRTY_GC \<noteq> FDB_SECTOR_DIRTY_UNUSED" by simp
  note w = write_dirty_status [OF rep(1) assms(2) nu]
  let ?m = "splice (kv_img db) (k * ?Z + 1) [status_byte (dirty_num FDB_SECTOR_DIRTY_GC)]"
  have z: "kvdb_sec_size (kv_put ?m db) = ?Z" using w(3) by (rule kv_step_sec)
  have nodes: "ks_nodes (?D ! j) = ks_nodes (D ! j)" for j
    using assms(2) by (cases "j = k") simp_all
  have "sc_agrees ?Z ?D (kv_sector_cache_table db)"
    using kv_memD(9) [OF rep(1)] unfolding sc_agrees_def
  proof (rule scc.coherent_mono)
    fix a c
    assume "\<exists>j < length D. a = j * ?Z \<and> sec_cached a ?Z (D ! j) c"
    then obtain j where j: "j < length D" "a = j * ?Z" "sec_cached a ?Z (D ! j) c" by blast
    have "sec_cached a ?Z (?D ! j) c"
      using j assms(2,3) by (cases "j = k") (auto simp: sec_cached_def sec_view_def sec_room_def)
    then show "\<exists>j < length ?D. a = j * ?Z \<and> sec_cached a ?Z (?D ! j) c" using j by auto
  qed
  then have mem: "kv_mem (kv_put ?m db) ?D" using w(2) z by (simp add: kv_mem_def)
  have ms: "live_ms ?D = live_ms D" using live_ms_update [OF assms(2), of ?s] by simp
  have "kvc_agrees ?Z ?D (kv_cache_table db)"
    using rep(2) by (rule kvc_agrees_mono) (simp add: node_in_def nodes)
  then have "kv_rep (kv_put ?m db) ?D"
    using mem z live_ms_same(1) [OF rep(3) ms] by (simp add: kv_rep_def)
  then show ?thesis using w(1,3) ms by blast
qed

text \<open>An empty clean sector has room for the written nodes of any other.\<close>

lemma roomy_empty:
  assumes "kv_mem db D" "k0 < length D" "e < length D" "e \<noteq> k0" "ks_nodes (D ! e) = []"
    and "ks_dirty (D ! e) = FDB_SECTOR_DIRTY_FALSE"
  shows "roomy (kvdb_sec_size db) D k0 (ks_nodes (D ! k0))"
proof -
  let ?Z = "kvdb_sec_size db"
  note d = kv_sectorD(4) [OF kv_memD(6) [OF assms(1,2)]]
  have "nodes_end 16 (ks_nodes (D ! k0)) + 88 < ?Z" using d nodes_end_at [of "k0 * ?Z"] by simp
  then have "16 + gsize (ks_nodes (D ! k0)) + 88 < ?Z" using gsize_le [of 16 "ks_nodes (D ! k0)"] by linarith
  then show ?thesis unfolding roomy_def using assms(3-6) by (intro exI [of _ e]) simp
qed

lemma do_gc_eq:
  assumes rep: "kv_rep db D" and gc: "kv_gc_request db" and k: "k < length D"
    and view: "sec_view (k * kvdb_sec_size db) (D ! k) c"
    and dirty: "ks_dirty (D ! k) = FDB_SECTOR_DIRTY_TRUE \<or> ks_dirty (D ! k) = FDB_SECTOR_DIRTY_GC"
    and nodes: "ks_nodes (D ! k) \<noteq> []" "settled_nodes (ks_nodes (D ! k))"
    and room: "roomy (kvdb_sec_size db) D k (ks_nodes (D ! k))"
  shows "\<exists>db' D'. do_gc free c cur db = Some (free \<le> u32 (cur + (kvdb_sec_size db - 16)),
        u32 (cur + (kvdb_sec_size db - 16)), db')
    \<and> kv_rep db' D' \<and> gc_frame db db' \<and> kv_gc_request db' \<and> length D' = length D \<and> live_ms D' = live_ms D
    \<and> D' ! k = clear_sec
    \<and> (\<forall>j < length D. j \<noteq> k \<longrightarrow> ks_dirty (D' ! j) = ks_dirty (D ! j)
        \<and> (\<exists>es. ks_nodes (D' ! j) = ks_nodes (D ! j) @ es \<and> all_written es))"
proof -
  define Z where "Z = kvdb_sec_size db"
  let ?D1 = "D[k := (D ! k)\<lparr>ks_dirty := FDB_SECTOR_DIRTY_GC\<rparr>]"
  have mem: "kv_mem db D" using rep by (rule kv_rep_in)
  note me = kv_memD [OF mem, folded Z_def] and sa = sector_addr [OF mem k, folded Z_def]
  have big: "104 < Z" using kv_mem_size [OF mem] by (simp add: Z_def)
  have v: "sec_check_ok c" "sec_addr c = k * Z" "sec_store c = FDB_SECTOR_STORE_USING"
    "sec_combined c = SECTOR_NOT_COMBINED"
    "sec_dirty c = FDB_SECTOR_DIRTY_TRUE \<or> sec_dirty c = FDB_SECTOR_DIRTY_GC"
    using view dirty nodes(1) kv_mem_store [OF mem k] by (auto simp: sec_view_def Z_def)
  have u: "u32 (k * Z + SECTOR_DIRTY_OFFSET) = k * Z + 1" "u32 (k * Z + SECTOR_HDR_DATA_SIZE) = k * Z + 16"
    "u32_sub Z SECTOR_HDR_DATA_SIZE = Z - 16"
    using sa(2) big by (simp_all add: u32_id u32_sub_id SECTOR_DIRTY_OFFSET_def SECTOR_HDR_DATA_SIZE_def)
  obtain db1 where w: "kv_write_status db (k * Z + 1) FDB_SECTOR_DIRTY_STATUS_NUM (dirty_num FDB_SECTOR_DIRTY_GC) True
      = Some (FDB_NO_ERR, db1)" "kv_rep db1 ?D1" "kv_step db db1" "live_ms ?D1 = live_ms D"
    using mark_gc_eq [OF rep k dirty] unfolding Z_def by blast
  have z1: "kvdb_sec_size db1 = Z" using w(3) kv_step_sec Z_def by simp
  have gc1: "kv_gc_request db1" using w(3) gc by (simp add: kv_step_def kv_frame_def)
  have D1: "length ?D1 = length D" "ks_nodes (?D1 ! j) = ks_nodes (D ! j)"
    "ks_dirty (?D1 ! k) = FDB_SECTOR_DIRTY_GC" "j \<noteq> k \<Longrightarrow> ?D1 ! j = D ! j" for j
    using k by (cases "j = k"; simp)+
  have room1: "roomy Z ?D1 k (ks_nodes (D ! k))"
    using room D1(2,4) unfolding roomy_def Z_def by (metis length_list_update)
  let ?kv = "(junk_kv (kvdb_stk db1))\<lparr>kv_addr_start := k * Z + 16\<rparr>"
  obtain db2 D2 where l: "do_gc_loop db1 c ?kv = Some db2" "kv_rep db2 D2" "gc_step db1 db2" "gc_grows k ?D1 D2"
    "\<forall>n \<in> set (ks_nodes (D2 ! k)). fst n = FDB_KV_DELETED"
    using do_gc_loop_eq [OF v(2,3) k, of db1 ?D1 "[]" "ks_nodes (D ! k)" ?kv] w(2) gc1 z1 D1 nodes room1
    by auto
  have z2: "kvdb_sec_size db2 = Z" using gc_step_frame [OF l(3)] kv_frame_sec z1 by metis
  have len2: "length D2 = length D" using l(4) D1(1) by (simp add: gc_grows_def)
  have k2: "k < length D2" using k len2 by simp
  obtain db3 where f: "format_sector db2 (k * Z) SECTOR_NOT_COMBINED = Some (FDB_NO_ERR, db3)"
    "kv_rep db3 (D2[k := clear_sec])" "kv_step db2 db3" "live_ms (D2[k := clear_sec]) = live_ms D2"
    using format_sector_rep [OF l(2) k2] l(5) unfolding z2 by fastforce
  have z3: "kvdb_sec_size db3 = Z" using f(3) kv_step_sec z2 by metis
  let ?o = "ring_up (length D) k * Z" let ?db = "set_oldest ?o db3"
  have nx: "get_next_sector_addr db3 c 0 = ?o"
  proof -
    have m3: "kv_mem db3 (D2[k := clear_sec])" using f(2) by (rule kv_rep_in)
    have "k < kv_count db3" "0 < kv_count db3" using kv_mem_ring(2) [OF m3] k len2 by auto
    from kvr.nxt_go [OF kv_mem_ring(1) [OF m3] this] have "kv_next db3 (k * Z) (0 * Z) = ?o"
      using kv_mem_ring(2) [OF m3] len2 z3 by simp
    then show ?thesis using v(2,4) by (simp add: kv_next_eq)
  qed
  have "kv_rep ?db (D2[k := clear_sec])"
    using kv_rep_oldest [OF f(2), of "ring_up (length D) k"] k len2 z3 by (simp add: ring_up_props)
  moreover have "do_gc free c cur db = Some (free \<le> u32 (cur + (Z - 16)), u32 (cur + (Z - 16)), ?db)"
    using v w(1) l(1) f(1)
    by (auto simp: do_gc_def u Let_def z3 nx set_oldest_def simp del: dirty_num.simps)
  moreover have "gc_frame db ?db"
    using w(3) l(3) f(3) gc_frame_trans gc_frame_intros(1-3) by meson
  moreover have "kv_gc_request ?db" using l(3) f(3) gc1 by (simp add: gc_step_def kv_step_def kv_frame_def)
  moreover have "ks_dirty (D2[k := clear_sec] ! j) = ks_dirty (D ! j)
      \<and> (\<exists>es. ks_nodes (D2[k := clear_sec] ! j) = ks_nodes (D ! j) @ es \<and> all_written es)"
    if "j < length D" "j \<noteq> k" for j
    using l(4) that by (simp add: gc_grows_def all_written_def)
  moreover have "live_ms (D2[k := clear_sec]) = live_ms D"
    using f(4) l(4) w(4) by (simp add: gc_grows_def)
  ultimately show ?thesis using len2 k2 unfolding Z_def
    by (intro exI [of _ ?db] exI [of _ "D2[k := clear_sec]"]) (simp add: Z_def)
qed

subsection \<open>Collecting all sectors\<close>

text \<open>The counting walk of \<open>gc_collect_by_free_size\<close>.\<close>

lemma gc_check_walk_eq:
  assumes "kv_mem db D"
  shows "\<exists>c t. sector_iterator db sec FDB_SECTOR_STORE_EMPTY 0 gc_check_cb False
      = Some (c, n_empty D, db\<lparr>kv_sector_cache_table := t\<rparr>) \<and> sc_agrees (kvdb_sec_size db) D t"
proof -
  define N where "N = length D"
  define Z where "Z = kvdb_sec_size db"
  obtain o' where o': "o' < N" "kvdb_oldest_addr db = o' * Z" "Suc (N - 1) = N" "(N - Suc (N - 1)) * Z = 0"
    using start_walk [OF assms] unfolding N_def Z_def .
  note me = kv_memD [OF assms, folded N_def Z_def]
  have nb: "N < 4294967296"
  proof -
    have "N * 1 \<le> N * Z" using me(2) by (intro mult_le_mono2) simp
    then show ?thesis using me(4,8) by linarith
  qed
  let ?e = "\<lambda>j. ks_store (D ! j) = FDB_SECTOR_STORE_EMPTY"
  let ?I = "\<lambda>ks cnt db' D'. D' = D \<and> (\<exists>t. db' = db\<lparr>kv_sector_cache_table := t\<rparr> \<and> sc_agrees Z D t)
    \<and> cnt + length (filter ?e ks) = n_empty D"
  have start: "?I (kvr.walk N o' (Suc (N - 1))) 0 db D"
  proof -
    have "\<exists>t. db = db\<lparr>kv_sector_cache_table := t\<rparr> \<and> sc_agrees Z D t"
      by (intro exI [of _ "kv_sector_cache_table db"]) (use me(9) in simp)
    then show ?thesis unfolding o'(3)
      using filter_walk [of o' D "\<lambda>s. ks_store s = FDB_SECTOR_STORE_EMPTY"] o'(1)
      by (simp add: n_empty_def N_def)
  qed
  have "\<exists>c cnt db' D'. sector_iter_loop gc_check_cb False FDB_SECTOR_STORE_EMPTY db sec 0
      (o' * Z) ((N - Suc (N - 1)) * Z) = Some (c, cnt, db') \<and> (False \<or> ?I [] cnt db' D')"
  proof (rule sector_iter_rule [where I = ?I and R = "\<lambda>c cnt db' D'. False" and N = N and Z = Z and D = D])
    fix ks cnt db' D'
    assume "?I ks cnt db' D'"
    then show "kv_mem db' D' \<and> length D' = N \<and> kvdb_sec_size db' = Z"
      using assms kv_mem_sc by (auto simp: N_def Z_def)
  next
    fix j ks cnt db' D' c
    assume I: "?I (j # ks) cnt db' D'" and v: "sec_view (j * Z) (D' ! j) c"
      and st: "FDB_SECTOR_STORE_EMPTY = FDB_SECTOR_STORE_UNUSED \<or> FDB_SECTOR_STORE_EMPTY = ks_store (D' ! j)"
    have e: "?e j" using st I by simp
    have "n_empty D \<le> N" by (simp add: n_empty_def N_def)
    then have "u32 (cnt + 1) = cnt + 1" using I e nb by (intro u32_id) simp
    then have "gc_check_cb c cnt db' = Some (False, cnt + 1, db')"
      using v by (simp add: gc_check_cb_def sec_view_def)
    then show "\<exists>stop cnt' db'' D''. gc_check_cb c cnt db' = Some (stop, cnt', db'')
        \<and> (if stop then False else ?I ks cnt' db'' D'')"
      using I e by (intro exI [of _ False] exI [of _ "cnt + 1"] exI [of _ db'] exI [of _ D]) auto
  qed (use start o'(1) in auto)
  then obtain c cnt db' D' where r: "sector_iter_loop gc_check_cb False FDB_SECTOR_STORE_EMPTY db sec 0
      (o' * Z) 0 = Some (c, cnt, db')" "?I [] cnt db' D'" unfolding o'(4) by blast
  then obtain t where t: "db' = db\<lparr>kv_sector_cache_table := t\<rparr>" "sc_agrees Z D t" by blast
  show ?thesis using r t unfolding Z_def
    by (intro exI [of _ c] exI [of _ t]) (simp add: sector_iterator_def o'(2) Z_def)
qed

lemma settled_sec_append:
  assumes "settled_sec s" "ks_dirty s' = ks_dirty s" "ks_nodes s' = ks_nodes s @ es" "all_written es"
  shows "settled_sec s'"
proof -
  have "settled_nodes es" using assms(4) by (auto simp: settled_nodes_def all_written_def)
  then show ?thesis using assms by (simp add: settled_sec_def)
qed

lemma n_empty_pos: "0 < n_empty D \<longleftrightarrow> (\<exists>e < length D. ks_store (D ! e) = FDB_SECTOR_STORE_EMPTY)"
  using n_store_0(2) [of D] by auto

text \<open>One step of the collecting walk on a settled database.\<close>

lemma do_gc_settled:
  assumes rep: "kv_rep db D" and gc: "kv_gc_request db" and k: "k < length D"
    and view: "sec_view (k * kvdb_sec_size db) (D ! k) c" and s: "settled D" "0 < n_empty D"
  shows "\<exists>stop cur' db' D'. do_gc free c cur db = Some (stop, cur', db')
    \<and> kv_rep db' D' \<and> gc_frame db db' \<and> kv_gc_request db' \<and> length D' = length D \<and> live_ms D' = live_ms D
    \<and> settled D' \<and> 0 < n_empty D' \<and> ks_dirty (D' ! k) = FDB_SECTOR_DIRTY_FALSE
    \<and> (\<forall>j < length D. ks_dirty (D ! j) = FDB_SECTOR_DIRTY_FALSE \<longrightarrow> ks_dirty (D' ! j) = FDB_SECTOR_DIRTY_FALSE)
    \<and> (stop \<longrightarrow> free \<le> cur') \<and> (cur' = cur \<or> cur' = u32 (cur + (kvdb_sec_size db - 16)))"
proof -
  have mem: "kv_mem db D" using rep by (rule kv_rep_in)
  have sk: "settled_sec (D ! k)" using s(1) k by (simp add: settled_def)
  show ?thesis
  proof (cases "ks_dirty (D ! k) = FDB_SECTOR_DIRTY_FALSE")
    case True
    then have "do_gc free c cur db = Some (False, cur, db)" using view by (simp add: do_gc_def sec_view_def)
    then show ?thesis using rep gc s True
      by (intro exI [of _ False] exI [of _ cur] exI [of _ db] exI [of _ D]) simp
  next
    case False
    then have w: "\<not> all_written (ks_nodes (D ! k))" "settled_nodes (ks_nodes (D ! k))"
      "ks_dirty (D ! k) = FDB_SECTOR_DIRTY_TRUE"
      using sk by (simp_all add: settled_sec_def)
    then have ne: "ks_nodes (D ! k) \<noteq> []" by auto
    obtain e where e: "e < length D" "ks_store (D ! e) = FDB_SECTOR_STORE_EMPTY" using s(2) n_empty_pos by blast
    then have en: "ks_nodes (D ! e) = []" "e \<noteq> k" using kv_mem_store [OF mem e(1)] ne by auto
    then have "ks_dirty (D ! e) = FDB_SECTOR_DIRTY_FALSE" using s(1) e(1) by (simp add: settled_def settled_sec_def)
    note room = roomy_empty [OF mem k e(1) en(2,1) this]
    obtain db' D' where g: "do_gc free c cur db = Some (free \<le> u32 (cur + (kvdb_sec_size db - 16)),
        u32 (cur + (kvdb_sec_size db - 16)), db')"
      "kv_rep db' D'" "gc_frame db db'" "kv_gc_request db'" "length D' = length D" "live_ms D' = live_ms D"
      "D' ! k = clear_sec"
      "\<forall>j < length D. j \<noteq> k \<longrightarrow> ks_dirty (D' ! j) = ks_dirty (D ! j)
        \<and> (\<exists>es. ks_nodes (D' ! j) = ks_nodes (D ! j) @ es \<and> all_written es)"
      using do_gc_eq [OF rep gc k view disjI1 [OF w(3)] ne w(2) room] by blast
    have "settled D'"
      unfolding settled_def
    proof (intro allI impI)
      fix j
      assume j: "j < length D'"
      show "settled_sec (D' ! j)"
      proof (cases "j = k")
        case False
        then obtain es where "ks_dirty (D' ! j) = ks_dirty (D ! j)" "ks_nodes (D' ! j) = ks_nodes (D ! j) @ es"
          "all_written es" using g(5,8) j by auto
        moreover have "settled_sec (D ! j)" using s(1) j g(5) by (simp add: settled_def)
        ultimately show ?thesis using settled_sec_append by blast
      qed (simp add: g(7))
    qed
    moreover have "0 < n_empty D'" unfolding n_empty_pos using k g(5,7) by (intro exI [of _ k]) simp
    moreover have "ks_dirty (D' ! j) = FDB_SECTOR_DIRTY_FALSE"
      if "j < length D" "ks_dirty (D ! j) = FDB_SECTOR_DIRTY_FALSE" for j
      using g(7,8) that by (cases "j = k") auto
    ultimately show ?thesis using g(1-7)
      by (intro exI [of _ "free \<le> u32 (cur + (kvdb_sec_size db - 16))"]
          exI [of _ "u32 (cur + (kvdb_sec_size db - 16))"] exI [of _ db'] exI [of _ D']) simp
  qed
qed

text \<open>
  The walk over all sectors. It stops early only when \<open>free\<close> bytes are freed; \<open>N * (Z - 16)\<close> is
  what all sectors together give.
\<close>

lemma gc_walk_eq:
  assumes rep: "kv_rep db D" and gc: "kv_gc_request db" and s: "settled D" "0 < n_empty D"
  shows "\<exists>c cur db' D'. sector_iterator db sec FDB_SECTOR_STORE_UNUSED 0 (do_gc free) False = Some (c, cur, db')
    \<and> kv_rep db' D' \<and> gc_frame db db' \<and> length D' = length D \<and> live_ms D' = live_ms D
    \<and> settled D' \<and> 0 < n_empty D'
    \<and> (free \<le> length D * (kvdb_sec_size db - 16) \<or> (\<forall>k < length D. ks_dirty (D' ! k) = FDB_SECTOR_DIRTY_FALSE))"
proof -
  define N where "N = length D"
  define Z where "Z = kvdb_sec_size db"
  have mem: "kv_mem db D" using rep by (rule kv_rep_in)
  obtain o' where o': "o' < N" "kvdb_oldest_addr db = o' * Z" "Suc (N - 1) = N" "(N - Suc (N - 1)) * Z = 0"
    using start_walk [OF mem] unfolding N_def Z_def .
  note me = kv_memD [OF mem, folded N_def Z_def]
  have nz: "N * (Z - 16) < 2147483648"
    using me(4,8) mult_le_mono2 [of "Z - 16" Z N] by linarith
  let ?P = "\<lambda>db' D'. kv_rep db' D' \<and> gc_frame db db' \<and> kv_gc_request db' \<and> length D' = N \<and> live_ms D' = live_ms D
    \<and> settled D' \<and> 0 < n_empty D'"
  let ?I = "\<lambda>ks cur db' D'. ?P db' D' \<and> cur + length ks * (Z - 16) \<le> N * (Z - 16)
    \<and> (\<forall>k < N. k \<notin> set ks \<longrightarrow> ks_dirty (D' ! k) = FDB_SECTOR_DIRTY_FALSE)"
  let ?R = "\<lambda>c cur db' D'. ?P db' D' \<and> free \<le> cur \<and> cur \<le> N * (Z - 16)"
  have start: "?I (kvr.walk N o' (Suc (N - 1))) 0 db D"
    unfolding o'(3) using rep gc s kvr.set_walk [OF o'(1)] by (simp add: N_def)
  have "\<exists>c cur db' D'. sector_iter_loop (do_gc free) False FDB_SECTOR_STORE_UNUSED db sec 0
      (o' * Z) ((N - Suc (N - 1)) * Z) = Some (c, cur, db') \<and> (?R c cur db' D' \<or> ?I [] cur db' D')"
  proof (rule sector_iter_rule [where I = ?I and R = ?R and N = N and Z = Z and D = D])
    fix ks cur db' D'
    assume "?I ks cur db' D'"
    then show "kv_mem db' D' \<and> length D' = N \<and> kvdb_sec_size db' = Z"
      using kv_rep_in gc_frame_sec by (auto simp: Z_def)
  next
    fix ks cur db' D' t
    assume I: "?I ks cur db' D'" "sc_agrees Z D' t"
    have z: "kvdb_sec_size db' = Z" using I gc_frame_sec by (auto simp: Z_def)
    have "kv_mem (db'\<lparr>kv_sector_cache_table := t\<rparr>) D'"
      using I z kv_rep_in by (intro kv_mem_sc) auto
    then have "kv_rep (db'\<lparr>kv_sector_cache_table := t\<rparr>) D'" using I by (simp add: kv_rep_def)
    moreover have "gc_frame db (db'\<lparr>kv_sector_cache_table := t\<rparr>)"
      using I gc_frame_intros(4) gc_frame_trans by blast
    ultimately show "?I ks cur (db'\<lparr>kv_sector_cache_table := t\<rparr>) D'" using I by simp
  next
    fix j ks cur db' D' c
    assume I: "?I (j # ks) cur db' D'" and j: "j < N" and v: "sec_view (j * Z) (D' ! j) c"
    have z: "kvdb_sec_size db' = Z" using I gc_frame_sec by (auto simp: Z_def)
    obtain stop cur' db'' D'' where g: "do_gc free c cur db' = Some (stop, cur', db'')"
      "kv_rep db'' D''" "gc_frame db' db''" "kv_gc_request db''" "length D'' = N" "live_ms D'' = live_ms D'"
      "settled D''" "0 < n_empty D''" "ks_dirty (D'' ! j) = FDB_SECTOR_DIRTY_FALSE"
      "\<forall>i < N. ks_dirty (D' ! i) = FDB_SECTOR_DIRTY_FALSE \<longrightarrow> ks_dirty (D'' ! i) = FDB_SECTOR_DIRTY_FALSE"
      "stop \<longrightarrow> free \<le> cur'" "cur' = cur \<or> cur' = u32 (cur + (Z - 16))"
      using do_gc_settled [of db' D' j c free cur] I j v z by auto
    have "cur + (Z - 16) + length ks * (Z - 16) \<le> N * (Z - 16)" using I by simp
    then have cur: "cur' + length ks * (Z - 16) \<le> N * (Z - 16)"
      using g(12) nz u32_le [of "cur + (Z - 16)"] by linarith
    have P: "?P db'' D''" using g(2-8) I gc_frame_trans by auto
    have "ks_dirty (D'' ! i) = FDB_SECTOR_DIRTY_FALSE" if "i < N" "i \<notin> set ks" for i
      using g(9,10) I that by (cases "i = j") auto
    then have "if stop then ?R c cur' db'' D'' else ?I ks cur' db'' D''"
      using P cur g(11) by (cases stop) simp_all
    then show "\<exists>stop cur' db'' D''. do_gc free c cur db' = Some (stop, cur', db'')
        \<and> (if stop then ?R c cur' db'' D'' else ?I ks cur' db'' D'')"
      using g(1) by blast
  qed (use start o'(1) in auto)
  then obtain c cur db' D' where r: "sector_iter_loop (do_gc free) False FDB_SECTOR_STORE_UNUSED db sec 0
      (o' * Z) 0 = Some (c, cur, db')" "?R c cur db' D' \<or> ?I [] cur db' D'" unfolding o'(4) by blast
  have "?P db' D'" "free \<le> N * (Z - 16) \<or> (\<forall>k < N. ks_dirty (D' ! k) = FDB_SECTOR_DIRTY_FALSE)"
    using r(2) by auto
  then show ?thesis using r(1) unfolding N_def [symmetric] Z_def [symmetric]
    by (intro exI [of _ c] exI [of _ cur] exI [of _ db'] exI [of _ D']) (simp add: sector_iterator_def o'(2))
qed

text \<open>
  The collection. With more than one empty sector nothing is done; the request is withdrawn in any
  case.
\<close>

lemma gc_collect_by_free_size_eq:
  assumes rep: "kv_rep db D" and gc: "kv_gc_request db" and s: "settled D" "0 < n_empty D"
  shows "\<exists>db' D'. gc_collect_by_free_size db free = Some db'
    \<and> kv_rep db' D' \<and> gc_frame db db' \<and> \<not> kv_gc_request db' \<and> length D' = length D \<and> live_ms D' = live_ms D
    \<and> settled D' \<and> 0 < n_empty D'
    \<and> (1 < n_empty D \<or> free \<le> length D * (kvdb_sec_size db - 16)
        \<or> (\<forall>k < length D. ks_dirty (D' ! k) = FDB_SECTOR_DIRTY_FALSE))"
proof -
  let ?Z = "kvdb_sec_size db"
  have mem: "kv_mem db D" using rep by (rule kv_rep_in)
  obtain c t where w: "sector_iterator db (junk_sec (kvdb_stk db)) FDB_SECTOR_STORE_EMPTY 0 gc_check_cb False
      = Some (c, n_empty D, db\<lparr>kv_sector_cache_table := t\<rparr>)" "sc_agrees ?Z D t"
    using gc_check_walk_eq [OF mem] by blast
  let ?db1 = "db\<lparr>kv_sector_cache_table := t\<rparr>"
  have rep1: "kv_rep ?db1 D" using rep kv_mem_sc [OF mem w(2)] by (simp add: kv_rep_def)
  have drop: "kv_rep (db'\<lparr>kv_gc_request := False\<rparr>) D'" if "kv_rep db' D'" for db' D'
    using that by (simp add: kv_rep_def kv_mem_def kv_flash_def kv_ok_def kv_img_def)
  show ?thesis
  proof (cases "n_empty D \<le> 1")
    case False
    have "gc_collect_by_free_size db free = Some (?db1\<lparr>kv_gc_request := False\<rparr>)"
      using False w(1) by (simp add: gc_collect_by_free_size_def FDB_GC_EMPTY_SEC_THRESHOLD_def)
    then show ?thesis
      using False drop [OF rep1] s gc_frame_trans [OF gc_frame_intros(4) gc_frame_intros(5)]
      by (intro exI [of _ "?db1\<lparr>kv_gc_request := False\<rparr>"] exI [of _ D]) simp
  next
    case True
    obtain c' cur db' D' where g: "sector_iterator ?db1 c FDB_SECTOR_STORE_UNUSED 0 (do_gc free) False = Some (c', cur, db')"
      "kv_rep db' D'" "gc_frame ?db1 db'" "length D' = length D" "live_ms D' = live_ms D" "settled D'" "0 < n_empty D'"
      "free \<le> length D * (?Z - 16) \<or> (\<forall>k < length D. ks_dirty (D' ! k) = FDB_SECTOR_DIRTY_FALSE)"
      using gc_walk_eq [OF rep1 _ s, of c free] gc by auto
    have "gc_collect_by_free_size db free = Some (db'\<lparr>kv_gc_request := False\<rparr>)"
      using True w(1) g(1) by (simp add: gc_collect_by_free_size_def FDB_GC_EMPTY_SEC_THRESHOLD_def)
    moreover have "gc_frame db (db'\<lparr>kv_gc_request := False\<rparr>)"
      using gc_frame_trans [OF gc_frame_intros(4) gc_frame_trans [OF g(3) gc_frame_intros(5)]] .
    ultimately show ?thesis using drop [OF g(2)] g(4-8)
      by (intro exI [of _ "db'\<lparr>kv_gc_request := False\<rparr>"] exI [of _ D']) simp
  qed
qed

end
