(* ===== verification/Kvdb_State.thy ===== *)
theory Kvdb_State
  imports Kvdb_Collect
begin

text \<open>
  The state of a key-value database between two calls of its API (\<open>kv_state\<close>), and deleting and
  setting a key on it: each is the operation on the abstract map \<open>kv_map\<close>, with the garbage
  collection that setting may need on the way.
\<close>

definition kv_state :: "fdb_kvdb \<Rightarrow> kv_sec list \<Rightarrow> bool" where
  "kv_state db D \<longleftrightarrow>
     kv_rep db D \<and> settled D \<and> 0 < n_empty D \<and> \<not> kv_gc_request db \<and> \<not> kv_last_is_complete_del db
   \<and> kv_wf (kv_cur_kv db)"

lemma kv_stateD:
  assumes "kv_state db D"
  shows "kv_rep db D" "settled D" "0 < n_empty D" "\<not> kv_gc_request db" "\<not> kv_last_is_complete_del db"
    "kv_wf (kv_cur_kv db)" "kv_mem db D" "kv_uniq D"
  using assms by (simp_all add: kv_state_def kv_rep_def)

lemma kv_rep_fields:
  assumes "kv_rep db D" "kv_parent db' = kv_parent db" "kv_sector_cache_table db' = kv_sector_cache_table db"
    and "kv_cache_table db' = kv_cache_table db"
  shows "kv_rep db' D"
  using assms kv_mem_fields [of db D db'] by (simp add: kv_rep_def)

lemma kv_cfg_fields_eq:
  assumes "kv_parent db' = kv_parent db" "kv_default_kvs db' = kv_default_kvs db"
    "kv_in_recovery_check db' = kv_in_recovery_check db"
  shows "kv_cfg db' = kv_cfg db"
  using assms by (simp add: kv_cfg_def)

subsection \<open>The abstract effect of the steps\<close>

lemma no_clash_ms: "live_ms D' = live_ms D \<Longrightarrow> no_clash D' key = no_clash D key"
  unfolding no_clash_def live_ms_def by (metis set_mset_mset)

lemma n_empty_update:
  assumes "k < length D" "0 < n_empty D" "ks_store (D ! k) = FDB_SECTOR_STORE_EMPTY \<longrightarrow> 1 < n_empty D"
  shows "0 < n_empty (D[k := s])"
proof -
  have e: "n_empty (xs @ y # ys) = n_empty xs + (if ks_store y = FDB_SECTOR_STORE_EMPTY then 1 else 0) + n_empty ys"
    for xs y ys by (simp add: n_empty_def)
  have "n_empty D = n_empty (take k D) + (if ks_store (D ! k) = FDB_SECTOR_STORE_EMPTY then 1 else 0) + n_empty (drop (Suc k) D)"
    using e [of "take k D" "D ! k" "drop (Suc k) D"] assms(1) by (simp add: id_take_nth_drop [symmetric])
  moreover have "n_empty (D[k := s]) = n_empty (take k D) + (if ks_store s = FDB_SECTOR_STORE_EMPTY then 1 else 0) + n_empty (drop (Suc k) D)"
    using e [of "take k D" s "drop (Suc k) D"] assms(1) by (simp add: upd_conv_take_nth_drop)
  ultimately show ?thesis using assms(2,3) by (simp split: if_splits)
qed

lemma n_empty_update_le:
  assumes "k < length D"
  shows "n_empty D \<le> Suc (n_empty (D[k := s]))"
proof -
  have e: "n_empty (xs @ y # ys) = n_empty xs + (if ks_store y = FDB_SECTOR_STORE_EMPTY then 1 else 0) + n_empty ys"
    for xs y ys by (simp add: n_empty_def)
  show ?thesis
    using e [of "take k D" "D ! k" "drop (Suc k) D"] e [of "take k D" s "drop (Suc k) D"] assms
    by (simp add: id_take_nth_drop [symmetric] upd_conv_take_nth_drop)
qed

lemma n_empty_cong: "map ks_store D' = map ks_store D \<Longrightarrow> n_empty D' = n_empty D"
proof -
  have "n_empty D = length (filter (\<lambda>st. st = FDB_SECTOR_STORE_EMPTY) (map ks_store D))" for D
    by (simp add: n_empty_def filter_map o_def)
  then show "map ks_store D' = map ks_store D \<Longrightarrow> n_empty D' = n_empty D" by metis
qed

lemma n_empty_set_node: "n_empty (set_node k xs n ys D) = n_empty D"
  by (rule n_empty_cong, rule nth_equalityI) (simp_all add: set_node_store)

lemma set_node_dirty:
  assumes "k < length D"
  shows "ks_dirty (set_node k xs n ys D ! j)
    = (if j = k \<and> ks_dirty (D ! k) = FDB_SECTOR_DIRTY_FALSE then FDB_SECTOR_DIRTY_TRUE else ks_dirty (D ! j))"
  using assms by (cases "j = k") (simp_all add: set_node_def mark_dirty_def)

lemma settled_deleted:
  assumes "k < length D" "\<forall>j < length D. j \<noteq> k \<longrightarrow> settled_sec (D ! j)"
    and "settled_nodes (xs @ ys)" "ks_dirty (D ! k) = FDB_SECTOR_DIRTY_FALSE \<or> ks_dirty (D ! k) = FDB_SECTOR_DIRTY_TRUE"
  shows "settled (set_node k xs (FDB_KV_DELETED, key, val) ys D)"
  unfolding settled_def
proof (intro allI impI)
  fix j
  assume "j < length (set_node k xs (FDB_KV_DELETED, key, val) ys D)"
  then have j: "j < length D" by simp
  show "settled_sec (set_node k xs (FDB_KV_DELETED, key, val) ys D ! j)"
  proof (cases "j = k")
    case True
    then show ?thesis using assms(1,3,4)
      by (auto simp: settled_sec_def set_node_nodes set_node_dirty dirty_when_def)
  next
    case False
    then have "set_node k xs (FDB_KV_DELETED, key, val) ys D ! j = D ! j"
      by (simp add: set_node_def mark_dirty_def)
    then show ?thesis using assms(2) j False by simp
  qed
qed

lemma settled_append:
  assumes "settled D" "k < length D"
  shows "settled (append_node k key val D)"
proof -
  have "settled_sec (D ! k)" using assms by (simp add: settled_def)
  then have "settled_sec ((D ! k)\<lparr>ks_store := FDB_SECTOR_STORE_USING,
      ks_nodes := ks_nodes (D ! k) @ [(FDB_KV_WRITE, key, val)]\<rparr>)"
    by (rule settled_sec_append [where es = "[(FDB_KV_WRITE, key, val)]"]) simp_all
  then show ?thesis using assms(1) unfolding append_node_def by (intro settled_update)
qed

subsection \<open>Deleting a key\<close>

lemma node_in_pos:
  assumes "node_in Z D a (st, key, val)"
  obtains k xs ys where "k < length D" "ks_nodes (D ! k) = xs @ (st, key, val) # ys" "a = nodes_end (k * Z + 16) xs"
  using assms unfolding node_in_def by blast

text \<open>A written node becomes deleted: the map loses its key.\<close>

lemma delete_node_state:
  assumes rep: "kv_rep db D" "settled D" and last: "\<not> kv_last_is_complete_del db"
    and node: "k < length D" "ks_nodes (D ! k) = xs @ (FDB_KV_WRITE, key, val) # ys"
    and kv: "kv_addr_start kv = nodes_end (k * kvdb_sec_size db + 16) xs"
  shows "\<exists>db' D'. del_kv_found db (Some key) kv True = Some (FDB_NO_ERR, db')
    \<and> kv_rep db' D' \<and> settled D' \<and> n_empty D' = n_empty D \<and> length D' = length D
    \<and> kv_frame db db' \<and> \<not> kv_last_is_complete_del db' \<and> kv_map D' = (kv_map D)(key := None)"
proof -
  let ?Z = "kvdb_sec_size db" let ?D = "set_node k xs (FDB_KV_DELETED, key, val) ys D"
  have mem: "kv_mem db D" and ag: "kvc_agrees ?Z D (kv_cache_table db)" and uq: "kv_uniq D"
    using rep(1) by (simp_all add: kv_rep_def)
  obtain db' where d: "del_kv_found db (Some key) kv True = Some (FDB_NO_ERR, db')" "kv_mem db' ?D" "kv_frame db db'"
    "\<not> kv_last_is_complete_del db'" "kv_cache_table db' = kvc_update (kv_name_crc key) FDB_DATA_UNUSED (kv_cache_table db)"
    using del_kv_found_eq [OF mem node kv, of "Some key" True] last by auto
  have z: "kvdb_sec_size db' = ?Z" using d(3) by (rule kv_frame_sec)
  have live: "live_ms D = add_mset (key, val) (live_ms ?D)"
    using live_ms_set_node [OF node, of FDB_KV_DELETED] by simp
  note rm = live_ms_removed [OF uq live]
  have "kvc_agrees_but (kv_name_crc key) ?Z ?D (kv_cache_table db)"
    using ag
  proof (rule kvc_agrees_weaken)
    fix a key' val'
    assume "kv_name_crc key' \<noteq> kv_name_crc key" "node_in ?Z D a (FDB_KV_WRITE, key', val')"
    then show "node_in ?Z ?D a (FDB_KV_WRITE, key', val')"
      using node by (intro node_in_set_node [where st = FDB_KV_WRITE]) auto
  qed
  then have "kvc_agrees ?Z ?D (kv_cache_table db')" unfolding d(5) by (rule kvc_agrees_drop)
  then have "kv_rep db' ?D" using d(2) z rm(1) by (simp add: kv_rep_def)
  moreover have "settled ?D"
  proof (rule settled_deleted [OF node(1)])
    have s: "settled_sec (D ! k)" using rep(2) node(1) by (simp add: settled_def)
    then show "settled_nodes (xs @ ys)" "ks_dirty (D ! k) = FDB_SECTOR_DIRTY_FALSE \<or> ks_dirty (D ! k) = FDB_SECTOR_DIRTY_TRUE"
      using node(2) by (auto simp: settled_sec_def dirty_when_def)
  qed (use rep(2) in \<open>simp add: settled_def\<close>)
  ultimately show ?thesis using d(1,3,4) rm(2) by (intro exI [of _ db'] exI [of _ ?D]) (simp add: n_empty_set_node)
qed

lemma del_kv_state:
  assumes "kv_state db D" "no_clash D key" "key_ok key"
  shows "\<exists>db' D'. del_kv db (Some key) None True
      = Some (if kv_map D key = None then FDB_KV_NAME_ERR else FDB_NO_ERR, db')
    \<and> kv_state db' D' \<and> kv_cfg db' = kv_cfg db \<and> n_empty D' = n_empty D \<and> length D' = length D
    \<and> kv_map D' = (kv_map D)(key := None)"
proof -
  note st = kv_stateD [OF assms(1)]
  obtain found kv' db1 where f: "find_kv db key (junk_kv 0) = Some (found, kv', db1)" "kv_rep db1 D" "same_flash db db1"
    "if found then \<exists>val. kv_map D key = Some val \<and> found_kv (kvdb_sec_size db) D key val kv' else kv_map D key = None"
    using find_kv_eq [OF st(1) assms(2,3), of "junk_kv 0"] by auto
  have cfg: "kv_cfg db1 = kv_cfg db" and z: "kvdb_sec_size db1 = kvdb_sec_size db"
    using f(3) by (simp_all add: same_flash_fields)
  have s1: "kv_state db1 D" using assms(1) f(2,3) by (simp add: kv_state_def same_flash_fields)
  show ?thesis
  proof (cases found)
    case False
    then have n: "kv_map D key = None" using f(4) by simp
    then have "(kv_map D)(key := None) = kv_map D" by (simp add: fun_upd_idem)
    then show ?thesis using f(1) False n s1 cfg
      by (intro exI [of _ db1] exI [of _ D]) (simp add: del_kv_def)
  next
    case True
    then obtain val kv0 a where v: "kv_map D key = Some val" "kv' = node_kv kv0 a FDB_KV_WRITE key val"
      "node_in (kvdb_sec_size db) D a (FDB_KV_WRITE, key, val)" using f(4) unfolding found_kv_def by auto
    from node_in_pos [OF v(3)] obtain k xs ys where k: "k < length D" "ks_nodes (D ! k) = xs @ (FDB_KV_WRITE, key, val) # ys"
      "a = nodes_end (k * kvdb_sec_size db + 16) xs" .
    have "kv_addr_start kv' = nodes_end (k * kvdb_sec_size db1 + 16) xs" using v(2) k(3) z by simp
    from delete_node_state [OF kv_stateD(1,2,5) [OF s1] k(1,2) this] obtain db' D' where
      d: "del_kv_found db1 (Some key) kv' True = Some (FDB_NO_ERR, db')" "kv_rep db' D'" "settled D'"
      "n_empty D' = n_empty D" "length D' = length D" "kv_frame db1 db'" "\<not> kv_last_is_complete_del db'"
      "kv_map D' = (kv_map D)(key := None)" by blast
    have "kv_state db' D'" using d s1 by (simp add: kv_state_def kv_frame_def)
    then show ?thesis using f(1) True d v(1) cfg
      by (intro exI [of _ db'] exI [of _ D']) (simp add: del_kv_def kv_frame_def)
  qed
qed

subsection \<open>Allocating\<close>

lemma alloc_kv_rep:
  assumes rep: "kv_rep db D" "settled D" and gc: "\<not> kv_gc_request db" and n: "n < 2147483648"
  shows "\<exists>a c db'. alloc_kv db sec n = Some (a, c, db') \<and> kv_rep db' D \<and> gc_frame db db'
    \<and> kv_gc_request db' = (a = FAILED_ADDR \<and> n_empty D = 1)
    \<and> (a = FAILED_ADDR \<longrightarrow> n_empty D \<le> 1 \<or> \<not> n + 104 < kvdb_sec_size db)
    \<and> (a \<noteq> FAILED_ADDR \<longrightarrow> (\<exists>k. room_at (kvdb_sec_size db) D k c a n
        \<and> (ks_store (D ! k) = FDB_SECTOR_STORE_EMPTY \<longrightarrow> 1 < n_empty D)))"
proof -
  let ?Z = "kvdb_sec_size db"
  have mem: "kv_mem db D" using rep(1) by (rule kv_rep_in)
  have gcF: "kv_gc_request db = False" using gc by simp
  obtain a c t where al: "alloc_kv db sec n = Some (a, c,
        db\<lparr>kv_sector_cache_table := t, kv_gc_request := a = FAILED_ADDR \<and> n_empty D = 1\<rparr>)" "sc_agrees ?Z D t"
    "if a = FAILED_ADDR
       then (\<forall>k < length D. ks_store (D ! k) = FDB_SECTOR_STORE_USING \<longrightarrow> \<not> usable ?Z False n (D ! k))
          \<and> (n_empty D = 0 \<or> n_empty D = 1
             \<or> (\<forall>k < length D. ks_store (D ! k) = FDB_SECTOR_STORE_EMPTY \<longrightarrow> \<not> usable ?Z False n (D ! k)))
       else \<exists>k. room_at ?Z D k c a n
          \<and> (ks_store (D ! k) = FDB_SECTOR_STORE_EMPTY \<longrightarrow> 1 < n_empty D
             \<and> (\<forall>k < length D. ks_store (D ! k) = FDB_SECTOR_STORE_USING \<longrightarrow> \<not> usable ?Z False n (D ! k)))"
    using alloc_kv_eq [OF mem n, of sec] unfolding gcF simp_thms by blast
  let ?db = "db\<lparr>kv_sector_cache_table := t, kv_gc_request := a = FAILED_ADDR \<and> n_empty D = 1\<rparr>"
  have "kv_rep (db\<lparr>kv_sector_cache_table := t\<rparr>) D"
    using rep(1) kv_mem_sc [OF mem al(2)] by (simp add: kv_rep_def)
  then have "kv_rep ?db D" by (rule kv_rep_fields) simp_all
  moreover have "gc_frame db ?db"
    using gc_frame_trans [OF gc_frame_intros(4) gc_frame_intros(5)] by simp
  moreover have "n_empty D \<le> 1 \<or> \<not> n + 104 < ?Z" if "a = FAILED_ADDR"
  proof (rule ccontr)
    assume h: "\<not> (n_empty D \<le> 1 \<or> \<not> n + 104 < ?Z)"
    then have "0 < n_empty D" by simp
    then obtain e where e: "e < length D" "ks_store (D ! e) = FDB_SECTOR_STORE_EMPTY" using n_empty_pos by blast
    then have "ks_nodes (D ! e) = []" using kv_mem_store [OF mem e(1)] by simp
    moreover from this have "ks_dirty (D ! e) = FDB_SECTOR_DIRTY_FALSE"
      using rep(2) e(1) by (simp add: settled_def settled_sec_def)
    moreover have "\<not> usable ?Z False n (D ! e)" using al(3) that h e by auto
    ultimately show False using h by (simp add: usable_def)
  qed
  ultimately show ?thesis using al(1,3)
    by (intro exI [of _ a] exI [of _ c] exI [of _ ?db]) auto
qed

text \<open>\<open>new_kv\<close> collects and tries again when there is one empty sector left.\<close>

lemma new_kv_rep:
  assumes rep: "kv_rep db D" "settled D" "0 < n_empty D" and gc: "\<not> kv_gc_request db" and n: "n < 2147483648"
  shows "\<exists>a c db' D'. new_kv db sec n = Some (a, c, db') \<and> kv_rep db' D' \<and> settled D' \<and> 0 < n_empty D'
    \<and> gc_frame db db' \<and> \<not> kv_gc_request db' \<and> length D' = length D \<and> live_ms D' = live_ms D
    \<and> n_empty D \<le> n_empty D'
    \<and> (a = FAILED_ADDR \<longrightarrow> n_empty D = 1 \<or> \<not> n + 104 < kvdb_sec_size db)
    \<and> (a \<noteq> FAILED_ADDR \<longrightarrow> (\<exists>k. room_at (kvdb_sec_size db) D' k c a n
        \<and> (ks_store (D' ! k) = FDB_SECTOR_STORE_EMPTY \<longrightarrow> 1 < n_empty D')))"
proof -
  let ?Z = "kvdb_sec_size db"
  obtain a1 c1 db1 where al: "alloc_kv db sec n = Some (a1, c1, db1)" "kv_rep db1 D" "gc_frame db db1"
    "kv_gc_request db1 = (a1 = FAILED_ADDR \<and> n_empty D = 1)"
    "a1 = FAILED_ADDR \<longrightarrow> n_empty D \<le> 1 \<or> \<not> n + 104 < ?Z"
    "a1 \<noteq> FAILED_ADDR \<longrightarrow> (\<exists>k. room_at ?Z D k c1 a1 n \<and> (ks_store (D ! k) = FDB_SECTOR_STORE_EMPTY \<longrightarrow> 1 < n_empty D))"
    using alloc_kv_rep [OF rep(1,2) gc n] by blast
  show ?thesis
  proof (cases "a1 = FAILED_ADDR \<and> n_empty D = 1")
    case False
    then have "new_kv db sec n = Some (a1, c1, db1)" using al(1,4) by (auto simp: new_kv_def)
    then show ?thesis using al(2,3) al(4-6) False rep(2,3)
      by (intro exI [of _ a1] exI [of _ c1] exI [of _ db1] exI [of _ D]) auto
  next
    case True
    then have g1: "kv_gc_request db1" using al(4) by simp
    obtain db2 D2 where gcd: "gc_collect_by_free_size db1 n = Some db2" "kv_rep db2 D2" "gc_frame db1 db2"
      "\<not> kv_gc_request db2" "length D2 = length D" "live_ms D2 = live_ms D" "settled D2" "0 < n_empty D2"
      using gc_collect_by_free_size_eq [OF al(2) g1 rep(2,3), of n] by blast
    have fr2: "gc_frame db db2" using al(3) gcd(3) by (rule gc_frame_trans)
    have z2: "kvdb_sec_size db2 = ?Z" using fr2 by (rule gc_frame_sec)
    obtain a3 c3 db3 where al3: "alloc_kv db2 c1 n = Some (a3, c3, db3)" "kv_rep db3 D2" "gc_frame db2 db3"
      "kv_gc_request db3 = (a3 = FAILED_ADDR \<and> n_empty D2 = 1)"
      "a3 \<noteq> FAILED_ADDR \<longrightarrow> (\<exists>k. room_at ?Z D2 k c3 a3 n \<and> (ks_store (D2 ! k) = FDB_SECTOR_STORE_EMPTY \<longrightarrow> 1 < n_empty D2))"
      using alloc_kv_rep [OF gcd(2,7,4) n] unfolding z2 by blast
    let ?db = "if a3 = FAILED_ADDR then db3\<lparr>kv_gc_request := False\<rparr> else db3"
    have "new_kv db sec n = Some (a3, c3, ?db)"
      using al(1) True g1 gcd(1) al3(1) by (simp add: new_kv_def)
    moreover have "kv_rep ?db D2" using al3(2) by (cases "a3 = FAILED_ADDR") (auto intro: kv_rep_fields)
    moreover have "gc_frame db ?db"
      using gc_frame_trans [OF fr2 al3(3)] gc_frame_trans [OF _ gc_frame_intros(5), of db db3 False] by simp
    moreover have "\<not> kv_gc_request ?db" using al3(4) by simp
    ultimately show ?thesis using gcd(5-8) al3(5) True
      by (intro exI [of _ a3] exI [of _ c3] exI [of _ ?db] exI [of _ D2]) simp
  qed
qed

end
