(* ===== verification/Kvdb_Update.thy ===== *)
theory Kvdb_Update
  imports Kvdb_State
begin

text \<open>
  Setting a key. The room is allocated first, an old node of the key is prepared for deletion, the
  new node is written, and the old node is deleted. On the abstract map this is one update.
\<close>

subsection \<open>Creating a node in allocated room\<close>

lemma create_kv_blob_room:
  assumes mem: "kv_mem db D" and k: "k < length D"
    and room: "sec_addr c = k * kvdb_sec_size db" "sec_store c = ks_store (D ! k)"
      "sec_room (k * kvdb_sec_size db) (kvdb_sec_size db) (D ! k) c"
      "a = nodes_end (k * kvdb_sec_size db + 16) (ks_nodes (D ! k))"
      "a + node_size key val + 88 < k * kvdb_sec_size db + kvdb_sec_size db"
    and key: "key_ok key"
  shows "\<exists>db'. create_kv_blob db c key val = Some (FDB_NO_ERR, c, db') \<and> kv_mem db' (append_node k key val D)
    \<and> kv_frame db db' \<and> kv_cache_table db' = kvc_update (kv_name_crc key) a (kv_cache_table db)
    \<and> kv_last_is_complete_del db' = kv_last_is_complete_del db"
proof -
  let ?Z = "kvdb_sec_size db"
  note sa = sector_addr [OF mem k]
  have a: "k * ?Z + 16 \<le> a" using room(4) kv_sectorD(7) [OF kv_memD(6) [OF mem k]] by simp
  have "length key + length val < 2147483648" using room(5) sa(2) by (simp add: node_size_def)
  note nl = kv_node_len_eq [OF this]
  have "u32_sub ?Z SECTOR_HDR_DATA_SIZE = ?Z - 16"
    using kv_mem_size [OF mem] sa(2) by (simp add: u32_sub_id SECTOR_HDR_DATA_SIZE_def)
  then have fits: "\<not> kv_node_len key val > u32_sub ?Z SECTOR_HDR_DATA_SIZE" using nl room(5) a by simp
  have "a \<noteq> FAILED_ADDR" using room(5) sa(2) by (simp add: fdb_const)
  moreover have "sec_empty_kv c = a" using room(3,4) by (simp add: sec_room_def)
  moreover have "\<not> length key > FDB_KV_NAME_MAX" using key by (simp add: key_ok_def)
  ultimately have e: "create_kv_blob db c key val = do {
      (result, db) \<leftarrow> create_kv_at db c key val a; Some (result, c, db) }"
    using fits by (simp add: create_kv_blob_def)
  show ?thesis
    unfolding e using create_kv_at_eq [OF mem k refl room(1-5) key] by auto
qed

lemma room_at_facts:
  assumes "room_at Z D k c a n"
  shows "k < length D" "sec_addr c = k * Z" "sec_store c = ks_store (D ! k)" "sec_room (k * Z) Z (D ! k) c"
    "a = nodes_end (k * Z + 16) (ks_nodes (D ! k))" "a + n + 88 < k * Z + Z"
  using assms by (simp_all add: room_at_def sec_view_def)

lemma room_at_set_node:
  fixes st' :: fdb_kv_status
  assumes "room_at Z D k c a n" "j < length D" "ks_nodes (D ! j) = xs @ (st, key, val) # ys"
  defines "D' \<equiv> set_node j xs (st', key, val) ys D"
  shows "k < length D'" "sec_store c = ks_store (D' ! k)" "sec_room (k * Z) Z (D' ! k) c"
    "a = nodes_end (k * Z + 16) (ks_nodes (D' ! k))"
proof -
  have e: "nodes_end b (ks_nodes (D' ! k)) = nodes_end b (ks_nodes (D ! k))" for b
    using assms(2,3) by (simp add: D'_def set_node_nodes)
  show "k < length D'" "sec_store c = ks_store (D' ! k)" "sec_room (k * Z) Z (D' ! k) c"
    "a = nodes_end (k * Z + 16) (ks_nodes (D' ! k))"
    using room_at_facts [OF assms(1)] e by (simp_all add: D'_def set_node_store sec_room_def)
qed

lemma failed_addr_unused: "a \<noteq> FAILED_ADDR \<longleftrightarrow> a \<noteq> FDB_DATA_UNUSED"
  by (simp add: fdb_const)

subsection \<open>A key that is not there\<close>

lemma insert_fresh:
  assumes rep: "kv_rep db D" "settled D" "0 < n_empty D"
    and room: "room_at (kvdb_sec_size db) D k c a (node_size key val)"
      "ks_store (D ! k) = FDB_SECTOR_STORE_EMPTY \<longrightarrow> 1 < n_empty D"
    and key: "key_ok key" "kv_map D key = None"
  shows "\<exists>db' D'. create_kv_blob db c key val = Some (FDB_NO_ERR, c, db')
    \<and> kv_rep db' D' \<and> settled D' \<and> 0 < n_empty D' \<and> n_empty D \<le> Suc (n_empty D') \<and> length D' = length D
    \<and> kv_frame db db' \<and> kv_last_is_complete_del db' = kv_last_is_complete_del db
    \<and> kv_map D' = (kv_map D)(key \<mapsto> val)"
proof -
  let ?Z = "kvdb_sec_size db" let ?D = "append_node k key val D"
  have mem: "kv_mem db D" and ag: "kvc_agrees ?Z D (kv_cache_table db)" and uq: "kv_uniq D"
    using rep(1) by (simp_all add: kv_rep_def)
  note r = room_at_facts [OF room(1)]
  obtain db' where c: "create_kv_blob db c key val = Some (FDB_NO_ERR, c, db')" "kv_mem db' ?D" "kv_frame db db'"
    "kv_cache_table db' = kvc_update (kv_name_crc key) a (kv_cache_table db)"
    "kv_last_is_complete_del db' = kv_last_is_complete_del db"
    using create_kv_blob_room [OF mem r(1-6) key(1)] by blast
  have z: "kvdb_sec_size db' = ?Z" using c(3) by (rule kv_frame_sec)
  note add = live_ms_added [OF uq live_ms_append [OF r(1)] key(2)]
  have new: "node_in ?Z ?D a (FDB_KV_WRITE, key, val)" unfolding r(5) using r(1) by (rule node_in_append_new)
  have "a \<noteq> FDB_DATA_UNUSED" using node_in_facts(6) [OF c(2) new [folded z]] by (simp add: failed_addr_unused)
  moreover have "kvc_agrees_but (kv_name_crc key) ?Z ?D (kv_cache_table db)"
    using ag by (rule kvc_agrees_weaken) (use r(1) node_in_append in blast)
  ultimately have "kvc_agrees ?Z ?D (kv_cache_table db')" unfolding c(4) using new by (intro kvc_agrees_put)
  then have "kv_rep db' ?D" using c(2) z add(1) by (simp add: kv_rep_def)
  moreover have "0 < n_empty ?D" unfolding append_node_def using r(1) rep(3) room(2) by (rule n_empty_update)
  moreover have "n_empty D \<le> Suc (n_empty ?D)" unfolding append_node_def using r(1) by (rule n_empty_update_le)
  ultimately show ?thesis using c(1,3,5) add(2) settled_append [OF rep(2) r(1)]
    by (intro exI [of _ db'] exI [of _ ?D]) (simp add: append_node_def)
qed

subsection \<open>A key that is there\<close>

text \<open>What the three steps do to the sectors.\<close>

lemma replace_sectors:
  fixes val :: bytes
  assumes s: "settled D" "0 < n_empty D"
    and node: "j < length D" "ks_nodes (D ! j) = xs @ (FDB_KV_WRITE, key, old) # ys"
    and k: "k < length D" "ks_store (D ! k) = FDB_SECTOR_STORE_EMPTY \<longrightarrow> 1 < n_empty D"
  defines "D1 \<equiv> set_node j xs (FDB_KV_PRE_DELETE, key, old) ys D"
  defines "D2 \<equiv> append_node k key val D1"
  defines "ys' \<equiv> if j = k then ys @ [(FDB_KV_WRITE, key, val)] else ys"
  defines "D3 \<equiv> set_node j xs (FDB_KV_DELETED, key, old) ys' D2"
  shows "ks_nodes (D2 ! j) = xs @ (FDB_KV_PRE_DELETE, key, old) # ys'" "length D3 = length D" "length D2 = length D"
    "settled D3" "0 < n_empty D3"
    "live_ms D3 = add_mset (key, val) (live_ms D1)"
proof -
  show l2: "length D2 = length D" "length D3 = length D" by (simp_all add: D1_def D2_def D3_def append_node_def)
  have k1: "k < length D1" and j2: "j < length D2" using k(1) node(1) l2 by (simp_all add: D1_def)
  show n2: "ks_nodes (D2 ! j) = xs @ (FDB_KV_PRE_DELETE, key, old) # ys'"
    using node(1) k1 by (cases "j = k") (simp_all add: D1_def D2_def append_node_def ys'_def set_node_nodes)
  have sj: "settled_sec (D ! j)" using s(1) node(1) by (simp add: settled_def)
  have d2: "ks_dirty (D2 ! i) = ks_dirty (D1 ! i)" for i
    using k1 by (cases "i = k") (simp_all add: D2_def append_node_def)
  show "settled D3"
    unfolding D3_def
  proof (rule settled_deleted [OF j2])
    show "settled_nodes (xs @ ys')" using sj node(2) by (auto simp: settled_sec_def ys'_def)
    show "ks_dirty (D2 ! j) = FDB_SECTOR_DIRTY_FALSE \<or> ks_dirty (D2 ! j) = FDB_SECTOR_DIRTY_TRUE"
      using sj node(1) by (auto simp: d2 D1_def set_node_dirty settled_sec_def dirty_when_def)
    show "\<forall>i < length D2. i \<noteq> j \<longrightarrow> settled_sec (D2 ! i)"
    proof (intro allI impI)
      fix i
      assume i: "i < length D2" "i \<noteq> j"
      then have e: "D1 ! i = D ! i" by (simp add: D1_def set_node_def mark_dirty_def)
      have si: "settled_sec (D ! i)" using s(1) i l2 by (simp add: settled_def)
      show "settled_sec (D2 ! i)"
      proof (cases "i = k")
        case True
        have "settled_sec ((D ! k)\<lparr>ks_store := FDB_SECTOR_STORE_USING, ks_nodes := ks_nodes (D ! k) @ [(FDB_KV_WRITE, key, val)]\<rparr>)"
          using si unfolding True by (rule settled_sec_append [where es = "[(FDB_KV_WRITE, key, val)]"]) simp_all
        then show ?thesis using True k1 e by (simp add: D2_def append_node_def)
      next
        case False
        then show ?thesis using si e by (simp add: D2_def append_node_def)
      qed
    qed
  qed
  have "0 < n_empty D2"
    unfolding D2_def append_node_def using k1 s(2) k(2)
    by (intro n_empty_update) (simp_all add: D1_def n_empty_set_node set_node_store)
  then show "0 < n_empty D3" by (simp add: D3_def n_empty_set_node)
  have "live_ms D3 = live_ms D2" using live_ms_set_node [OF j2 n2, of FDB_KV_DELETED] by (simp add: D3_def)
  then show "live_ms D3 = add_mset (key, val) (live_ms D1)" using live_ms_append [OF k1] by (simp add: D2_def)
qed

lemma replace_node:
  assumes rep: "kv_rep db D" "settled D" "0 < n_empty D" and last: "\<not> kv_last_is_complete_del db"
    and room: "room_at (kvdb_sec_size db) D k c a (node_size key val)"
      "ks_store (D ! k) = FDB_SECTOR_STORE_EMPTY \<longrightarrow> 1 < n_empty D"
    and key: "key_ok key"
    and node: "j < length D" "ks_nodes (D ! j) = xs @ (FDB_KV_WRITE, key, old) # ys"
    and kv: "kv_addr_start kv = nodes_end (j * kvdb_sec_size db + 16) xs"
  shows "\<exists>db1 db2 db3 D'. del_kv_found db (Some key) kv False = Some (FDB_NO_ERR, db1)
    \<and> create_kv_blob db1 c key val = Some (FDB_NO_ERR, c, db2)
    \<and> del_kv_found db2 (Some key) kv True = Some (FDB_NO_ERR, db3)
    \<and> kv_rep db3 D' \<and> settled D' \<and> 0 < n_empty D' \<and> length D' = length D
    \<and> kv_frame db db1 \<and> kv_frame db db2 \<and> kv_frame db db3
    \<and> \<not> kv_last_is_complete_del db3 \<and> kv_map D' = (kv_map D)(key \<mapsto> val)"
proof -
  let ?Z = "kvdb_sec_size db" let ?k = "Some key"
  let ?D1 = "set_node j xs (FDB_KV_PRE_DELETE, key, old) ys D" let ?D2 = "append_node k key val ?D1"
  let ?ys = "if j = k then ys @ [(FDB_KV_WRITE, key, val)] else ys"
  let ?D3 = "set_node j xs (FDB_KV_DELETED, key, old) ?ys ?D2"
  have mem: "kv_mem db D" and ag: "kvc_agrees ?Z D (kv_cache_table db)" and uq: "kv_uniq D"
    using rep(1) by (simp_all add: kv_rep_def)
  have kl: "k < length D" using room_at_facts(1) [OF room(1)] .
  note S = replace_sectors [OF rep(2,3) node kl room(2), of val]
  obtain db1 where d1: "del_kv_found db ?k kv False = Some (FDB_NO_ERR, db1)" "kv_mem db1 ?D1" "kv_frame db db1"
    "kv_last_is_complete_del db1" "kv_cache_table db1 = kv_cache_table db"
    using del_kv_found_eq [OF mem node kv, of ?k False] by auto
  have z1: "kvdb_sec_size db1 = ?Z" using d1(3) by (rule kv_frame_sec)
  note r = room_at_set_node [OF room(1) node, of FDB_KV_PRE_DELETE]
  obtain db2 where c2: "create_kv_blob db1 c key val = Some (FDB_NO_ERR, c, db2)" "kv_mem db2 ?D2" "kv_frame db1 db2"
    "kv_cache_table db2 = kvc_update (kv_name_crc key) a (kv_cache_table db1)" "kv_last_is_complete_del db2"
    using create_kv_blob_room [OF d1(2) r(1), of c a key val] r(2-4) room_at_facts(2,6) [OF room(1)] key d1(4)
    unfolding z1 by auto
  have fr2: "kv_frame db db2" using d1(3) c2(3) by (rule kv_frame_trans)
  have z2: "kvdb_sec_size db2 = ?Z" using fr2 by (rule kv_frame_sec)
  have jl: "j < length ?D2" using node(1) S(3) by simp
  obtain db3 where d3: "del_kv_found db2 ?k kv True = Some (FDB_NO_ERR, db3)" "kv_mem db3 ?D3" "kv_frame db2 db3"
    "\<not> kv_last_is_complete_del db3" "kv_cache_table db3 = kv_cache_table db2"
    using del_kv_found_eq [OF c2(2) jl S(1), of kv ?k True] kv c2(5) unfolding z2 by auto
  have fr3: "kv_frame db db3" using fr2 d3(3) by (rule kv_frame_trans)
  have z3: "kvdb_sec_size db3 = ?Z" using fr3 by (rule kv_frame_sec)
  have new: "node_in ?Z ?D2 a (FDB_KV_WRITE, key, val)" unfolding r(4) using r(1) by (rule node_in_append_new)
  have au: "a \<noteq> FDB_DATA_UNUSED" using node_in_facts(6) [OF c2(2) new [folded z2]] by (simp add: failed_addr_unused)
  have "kvc_agrees_but (kv_name_crc key) ?Z ?D2 (kv_cache_table db)"
    using ag
  proof (rule kvc_agrees_weaken)
    fix b key' val'
    assume "kv_name_crc key' \<noteq> kv_name_crc key" "node_in ?Z D b (FDB_KV_WRITE, key', val')"
    then have "node_in ?Z ?D1 b (FDB_KV_WRITE, key', val')"
      using node by (intro node_in_set_node [where st = FDB_KV_WRITE]) auto
    then show "node_in ?Z ?D2 b (FDB_KV_WRITE, key', val')" using r(1) by (intro node_in_append)
  qed
  then have "kvc_agrees ?Z ?D2 (kv_cache_table db3)"
    unfolding d3(5) c2(4) d1(5) using new au by (intro kvc_agrees_put)
  then have "kvc_agrees ?Z ?D3 (kv_cache_table db3)"
    by (rule kvc_agrees_mono) (use jl S(1) in \<open>auto intro!: node_in_set_node [where st = FDB_KV_PRE_DELETE]\<close>)
  moreover have "live_ms D = add_mset (key, old) (live_ms ?D1)"
    using live_ms_set_node [OF node, of FDB_KV_PRE_DELETE] by simp
  note rm = live_ms_removed [OF uq this]
  moreover have "kv_map ?D1 key = None" using rm(2) by simp
  note add = live_ms_added [OF rm(1) S(6) this]
  ultimately have "kv_rep db3 ?D3" using d3(2) z3 by (simp add: kv_rep_def)
  moreover have "kv_map ?D3 = (kv_map D)(key \<mapsto> val)" using add(2) rm(2) by simp
  ultimately show ?thesis using d1(1,3) c2(1) fr2 d3(1,4) fr3 S(2,4,5) by blast
qed

subsection \<open>Setting a key\<close>

text \<open>The part of \<open>set_kv\<close> after the room was found.\<close>

lemma set_kv_found_room:
  assumes rep: "kv_rep db D" "settled D" "0 < n_empty D" and fl: "\<not> kv_gc_request db" "\<not> kv_last_is_complete_del db"
    and room: "room_at (kvdb_sec_size db) D k (kv_cur_sector db) a (node_size key val)"
      "ks_store (D ! k) = FDB_SECTOR_STORE_EMPTY \<longrightarrow> 1 < n_empty D"
    and key: "key_ok key" and fd: "kv_wf kv'"
      "if found then \<exists>old. kv_map D key = Some old \<and> found_kv (kvdb_sec_size db) D key old kv' else kv_map D key = None"
  shows "\<exists>db3 D'. do {
       (result, db) \<leftarrow> (if found then del_kv db (Some key) (Some kv') False else Some (FDB_NO_ERR, db));
       (result, db) \<leftarrow> (if result = FDB_NO_ERR then do {
            (result, sector, db) \<leftarrow> create_kv_blob db (kv_cur_sector db) key val;
            Some (result, db\<lparr>kv_cur_sector := sector\<rparr>) } else Some (result, db));
       (if found \<and> result = FDB_NO_ERR then del_kv db (Some key) (Some kv') True else Some (result, db))
     } = Some (FDB_NO_ERR, db3)
    \<and> kv_rep db3 D' \<and> settled D' \<and> 0 < n_empty D' \<and> length D' = length D \<and> kv_frame db db3
    \<and> \<not> kv_last_is_complete_del db3 \<and> kv_map D' = (kv_map D)(key \<mapsto> val)"
proof -
  let ?c = "kv_cur_sector db"
  have idle: "x\<lparr>kv_cur_sector := ?c\<rparr> = x" if "kv_frame db x" for x
    using that by (simp add: kv_frame_def)
  show ?thesis
  proof (cases found)
    case False
    obtain db' D' where c: "create_kv_blob db ?c key val = Some (FDB_NO_ERR, ?c, db')"
      "kv_rep db' D'" "settled D'" "0 < n_empty D'" "length D' = length D" "kv_frame db db'"
      "kv_last_is_complete_del db' = kv_last_is_complete_del db" "kv_map D' = (kv_map D)(key \<mapsto> val)"
      using insert_fresh [OF rep room key] fd(2) False by auto
    show ?thesis using False c fl idle [OF c(6)]
      by (intro exI [of _ db'] exI [of _ D']) simp
  next
    case True
    then obtain old kv0 b where o': "kv_map D key = Some old" "kv' = node_kv kv0 b FDB_KV_WRITE key old"
      "node_in (kvdb_sec_size db) D b (FDB_KV_WRITE, key, old)" using fd(2) unfolding found_kv_def by auto
    from node_in_pos [OF o'(3)] obtain j xs ys where j: "j < length D" "ks_nodes (D ! j) = xs @ (FDB_KV_WRITE, key, old) # ys"
      "b = nodes_end (j * kvdb_sec_size db + 16) xs" .
    have "kv_addr_start kv' = nodes_end (j * kvdb_sec_size db + 16) xs" using o'(2) j(3) by simp
    from replace_node [OF rep fl(2) room key j(1,2) this] obtain db1 db2 db3 D' where
      r: "del_kv_found db (Some key) kv' False = Some (FDB_NO_ERR, db1)"
      "create_kv_blob db1 ?c key val = Some (FDB_NO_ERR, ?c, db2)"
      "del_kv_found db2 (Some key) kv' True = Some (FDB_NO_ERR, db3)"
      "kv_rep db3 D'" "settled D'" "0 < n_empty D'" "length D' = length D"
      "kv_frame db db1" "kv_frame db db2" "kv_frame db db3" "\<not> kv_last_is_complete_del db3"
      "kv_map D' = (kv_map D)(key \<mapsto> val)" by blast
    have "kv_cur_sector db1 = ?c" using r(8) by (simp add: kv_frame_def)
    then show ?thesis using True r idle [OF r(9)]
      by (intro exI [of _ db3] exI [of _ D']) (simp add: del_kv_def)
  qed
qed

lemma set_kv_value_state:
  assumes st: "kv_state db D" and key: "no_clash D key" "key_ok key" and n: "node_size key val < 2147483648"
  shows "\<exists>err db' D'. set_kv_value db key val = Some (err, db') \<and> kv_state db' D' \<and> kv_cfg db' = kv_cfg db
    \<and> length D' = length D
    \<and> (err = FDB_NO_ERR \<and> kv_map D' = (kv_map D)(key \<mapsto> val)
       \<or> err = FDB_SAVED_FULL \<and> kv_map D' = kv_map D
         \<and> (n_empty D = 1 \<or> \<not> node_size key val + 104 < kvdb_sec_size db))"
proof -
  let ?Z = "kvdb_sec_size db" let ?n = "node_size key val"
  note s = kv_stateD [OF st]
  have sz: "u32 (KV_HDR_DATA_SIZE + FDB_WG_ALIGN (length key) + FDB_WG_ALIGN (length val)) = ?n"
    using n by (simp add: node_size_def KV_HDR_DATA_SIZE_def u32_id)
  obtain a c db1 D1 where al: "new_kv db (kv_cur_sector db) ?n = Some (a, c, db1)" "kv_rep db1 D1" "settled D1" "0 < n_empty D1"
    "gc_frame db db1" "\<not> kv_gc_request db1" "length D1 = length D" "live_ms D1 = live_ms D"
    "a = FAILED_ADDR \<longrightarrow> n_empty D = 1 \<or> \<not> ?n + 104 < ?Z"
    "a \<noteq> FAILED_ADDR \<longrightarrow> (\<exists>k. room_at ?Z D1 k c a ?n \<and> (ks_store (D1 ! k) = FDB_SECTOR_STORE_EMPTY \<longrightarrow> 1 < n_empty D1))"
    using new_kv_rep [OF s(1-4) n] by blast
  let ?db1 = "db1\<lparr>kv_cur_sector := c\<rparr>"
  have map1: "kv_map D1 = kv_map D" using live_ms_same(2) [OF s(8) al(8)] .
  have fr1: "kv_cfg ?db1 = kv_cfg db" "kv_wf (kv_cur_kv ?db1)" "\<not> kv_last_is_complete_del ?db1" "\<not> kv_gc_request ?db1"
    using al(5,6) s(5,6) by (simp_all add: gc_frame_def kv_cfg_def)
  have rep1: "kv_rep ?db1 D1" using al(2) by (rule kv_rep_fields) simp_all
  have z1: "kvdb_sec_size ?db1 = ?Z" using fr1(1) by (rule kv_cfg_fields)
  show ?thesis
  proof (cases "a = FAILED_ADDR")
    case True
    then have "set_kv_value db key val = Some (FDB_SAVED_FULL, ?db1)"
      unfolding set_kv_value_def new_kv_ex_def sz using al(1) by simp
    moreover have "kv_state ?db1 D1" using rep1 al(3,4) fr1 by (simp add: kv_state_def)
    ultimately show ?thesis using True al(7,9) map1 fr1(1) by blast
  next
    case False
    then obtain k where k: "room_at ?Z D1 k c a ?n" "ks_store (D1 ! k) = FDB_SECTOR_STORE_EMPTY \<longrightarrow> 1 < n_empty D1"
      using al(10) by blast
    have nc: "no_clash D1 key" using key(1) no_clash_ms [OF al(8)] by simp
    obtain found kv' db2 where f: "find_kv ?db1 key (kv_cur_kv ?db1) = Some (found, kv', db2)" "kv_wf kv'" "kv_rep db2 D1"
      "same_flash ?db1 db2"
      "if found then \<exists>old. kv_map D1 key = Some old \<and> found_kv ?Z D1 key old kv' else kv_map D1 key = None"
      using find_kv_eq [OF rep1 nc key(2) fr1(2)] unfolding z1 by blast
    let ?db2 = "db2\<lparr>kv_cur_kv := kv'\<rparr>"
    have "kv_cfg ?db2 = kv_cfg db2" by (simp add: kv_cfg_def)
    then have cfg2: "kv_cfg ?db2 = kv_cfg db" "kv_cur_sector ?db2 = c"
      using fr1(1) same_flash_fields(1,9) [OF f(4)] by simp_all
    have fl2: "\<not> kv_gc_request ?db2" "\<not> kv_last_is_complete_del ?db2"
      using f(4) fr1(3,4) by (simp_all add: same_flash_fields)
    have z2: "kvdb_sec_size ?db2 = ?Z" using cfg2(1) by (rule kv_cfg_fields)
    have rep2: "kv_rep ?db2 D1" using f(3) by (rule kv_rep_fields) simp_all
    obtain db3 D' where r: "do {
       (result, db) \<leftarrow> (if found then del_kv ?db2 (Some key) (Some kv') False else Some (FDB_NO_ERR, ?db2));
       (result, db) \<leftarrow> (if result = FDB_NO_ERR then do {
            (result, sector, db) \<leftarrow> create_kv_blob db (kv_cur_sector db) key val;
            Some (result, db\<lparr>kv_cur_sector := sector\<rparr>) } else Some (result, db));
       (if found \<and> result = FDB_NO_ERR then del_kv db (Some key) (Some kv') True else Some (result, db))
     } = Some (FDB_NO_ERR, db3)" "kv_rep db3 D'" "settled D'" "0 < n_empty D'" "length D' = length D1" "kv_frame ?db2 db3"
      "\<not> kv_last_is_complete_del db3" "kv_map D' = (kv_map D1)(key \<mapsto> val)"
      using set_kv_found_room [OF rep2 al(3,4) fl2 _ k(2) key(2) f(2), of a val found] k(1) f(5) unfolding z2 cfg2(2) by auto
    have gc3: "\<not> kv_gc_request db3" using r(6) fl2(1) by (simp add: kv_frame_def)
    have "set_kv_value db key val = Some (FDB_NO_ERR, db3)"
    proof -
      have "set_kv_value db key val = do {
          (result, db) \<leftarrow> do {
             (result, db) \<leftarrow> (if found then del_kv ?db2 (Some key) (Some kv') False else Some (FDB_NO_ERR, ?db2));
             (result, db) \<leftarrow> (if result = FDB_NO_ERR then do {
                  (result, sector, db) \<leftarrow> create_kv_blob db (kv_cur_sector db) key val;
                  Some (result, db\<lparr>kv_cur_sector := sector\<rparr>) } else Some (result, db));
             (if found \<and> result = FDB_NO_ERR then del_kv db (Some key) (Some kv') True else Some (result, db)) };
          db \<leftarrow> (if kv_gc_request db then gc_collect_by_free_size db ?n else Some db);
          Some (result, db) }"
        unfolding set_kv_value_def new_kv_ex_def sz using al(1) False f(1)
        by (simp add: case_prod_unfold Let_def cong: if_cong)
      also have "\<dots> = Some (FDB_NO_ERR, db3)" using r(1) gc3 by simp
      finally show ?thesis .
    qed
    moreover have "kv_state db3 D'"
      using r(2-4,6,7) gc3 f(2) by (simp add: kv_state_def kv_frame_def)
    moreover have "kv_cfg db3 = kv_cfg db" using r(6) cfg2(1) by (simp add: kv_frame_def)
    ultimately show ?thesis using r(5,8) al(7) map1 by auto
  qed
qed

end
