(* ===== verification/Kvdb_Reset.thy ===== *)
theory Kvdb_Reset
  imports Kvdb_Update
begin

text \<open>
  Resetting a database to its default KVs: all sectors are formatted, whatever they hold, and the
  default KVs are created in the empty database. Clearing the cache of KV addresses, which the
  reset and the initialisation share, is here too.
\<close>

subsection \<open>Clearing the cache of KV addresses\<close>

definition kvc_clear :: "kv_cache_node list \<Rightarrow> kv_cache_node list" where
  "kvc_clear t = map (\<lambda>n. n\<lparr>node_addr := FDB_DATA_UNUSED\<rparr>) t"

lemma kvc_clear_agrees:
  assumes "length t = FDB_KV_CACHE_TABLE_SIZE"
  shows "kvc_agrees Z D (kvc_clear t)"
proof -
  have u: "node_addr (kvc_clear t ! i) = FDB_DATA_UNUSED" if "i < FDB_KV_CACHE_TABLE_SIZE" for i
    using that assms by (simp add: kvc_clear_def)
  have ok: "kvc_ok (kvc_clear t)"
    unfolding kvc_ok_def using u assms by (auto simp: kvc_clear_def)
  show ?thesis
    unfolding kvc_agrees_def kvc.coherent_def using ok u kvc_get_iff [OF ok] by auto
qed

subsection \<open>Formatting all sectors\<close>

text \<open>The cached sectors are sectors of the database.\<close>

definition sc_inside :: "nat \<Rightarrow> nat \<Rightarrow> nat \<Rightarrow> kvdb_sec_info list \<Rightarrow> bool" where
  "sc_inside i N Z t \<longleftrightarrow> scc.coherent (\<lambda>a c. \<exists>k. i \<le> k \<and> k < N \<and> a = k * Z) t"

lemma sc_inside_drop:
  assumes "sc_inside i N Z t"
  shows "sc_inside (Suc i) N Z (sc_drop (i * Z) t)"
  using assms unfolding sc_inside_def
  by (rule scc.coherent_drop) (metis le_neq_implies_less Suc_leI)

lemma sc_agrees_inside: "sc_agrees Z D t \<Longrightarrow> sc_inside 0 (length D) Z t"
  unfolding sc_agrees_def sc_inside_def by (erule scc.coherent_mono) auto

lemma sc_inside_none: "sc_inside N N Z t \<Longrightarrow> sc_agrees Z D t"
  unfolding sc_agrees_def sc_inside_def by (erule scc.coherent_mono) auto

definition kv_geometry :: "fdb_kvdb \<Rightarrow> nat \<Rightarrow> bool" where
  "kv_geometry db N \<longleftrightarrow>
     kv_ok db \<and> 2 \<le> N \<and> 104 < kvdb_sec_size db \<and> kvdb_max_size db = N * kvdb_sec_size db
   \<and> kvdb_max_size db \<le> length (kv_img db)"

lemma kv_mem_geometry: "kv_mem db D \<Longrightarrow> kv_geometry db (length D)"
  using kv_memD [of db D] kv_mem_size [of db D] by (simp add: kv_geometry_def)

lemma format_all_loop_eq:
  assumes "N * Z < 2147483648"
  shows "i \<le> N \<Longrightarrow> kv_geometry db N \<Longrightarrow> kvdb_sec_size db = Z \<Longrightarrow> sc_inside i N Z (kv_sector_cache_table db) \<Longrightarrow>
    \<forall>k < i. kv_sector (kv_img db) (k * Z) Z clear_sec \<Longrightarrow>
    \<exists>db'. format_all_loop db (i * Z) FDB_NO_ERR = Some (FDB_NO_ERR, db') \<and> kv_geometry db' N \<and> kv_step db db'
      \<and> sc_inside N N Z (kv_sector_cache_table db') \<and> (\<forall>k < N. kv_sector (kv_img db') (k * Z) Z clear_sec)"
proof (induction "N - i" arbitrary: i db)
  case 0
  then have i: "i = N" "kvdb_max_size db = N * Z" by (simp_all add: kv_geometry_def)
  then have "format_all_loop db (i * Z) FDB_NO_ERR = Some (FDB_NO_ERR, db)"
    by (subst format_all_loop.simps) simp
  then show ?case using 0 i(1) by (intro exI [of _ db]) simp
next
  case (Suc d)
  let ?m = "sector_formatted (i * Z) Z (kv_img db)"
  let ?db = "(kv_put ?m db)\<lparr>kv_sector_cache_table := sc_drop (i * Z) (kv_sector_cache_table db)\<rparr>"
  have g: "kv_ok db" "2 \<le> N" "104 < Z" "kvdb_max_size db = N * Z" "N * Z \<le> length (kv_img db)"
    using Suc.prems(2,3) by (simp_all add: kv_geometry_def)
  have iN: "i < N" using Suc.hyps(2) by simp
  have iz: "i * Z + Z \<le> N * Z" using iN by (intro mult_le_less) simp
  have fit: "i * Z + Z \<le> length (kv_img db)" using iz g(5) by linarith
  note p = sector_formatted_props [OF fit g(3)]
  have st: "kv_step db ?db" using kv_step_put [OF g(1) p(1)] kv_step_sc kv_step_trans by blast
  have img: "kv_img ?db = ?m" "kv_ok ?db"
    using kvf.img_put [OF g(1) p(1)] kvf.ok_put [OF g(1) p(1)] by (simp_all add: kv_img_def kv_ok_def)
  have cfg: "kv_cfg ?db = kv_cfg db" using st by (simp add: kv_step_def kv_frame_def)
  note f = kv_cfg_fields(1,2) [OF cfg]
  have geo: "kv_geometry ?db N"
    using g img p(1) f Suc.prems(3) unfolding kv_geometry_def by simp
  have sec: "kv_sector (kv_img ?db) (k * Z) Z clear_sec" if k: "k < Suc i" for k
  proof (cases "k = i")
    case True
    then show ?thesis using p(2) img(1) by simp
  next
    case False
    then have ki: "k < i" using k by simp
    have s: "kv_sector (kv_img db) (k * Z) Z clear_sec" using Suc.prems(5) ki by blast
    show ?thesis
      unfolding img(1)
    proof (rule kv_sector_cong [OF s p(1)])
      fix x
      assume x: "k * Z \<le> x" "x < k * Z + Z"
      have "x < length (kv_img db)" using x kv_sectorD(1) [OF s] by linarith
      then show "?m ! x = kv_img db ! x" using p(3) sector_ranges [OF x] False by metis
    qed
  qed
  have "format_sector db (i * Z) SECTOR_NOT_COMBINED = Some (FDB_NO_ERR, ?db)"
    using format_sector_eq [OF g(1), of "i * Z"] g(3) fit Suc.prems(3) by simp
  moreover have "u32 (i * Z + Z) = Suc i * Z" using iz assms by (simp add: u32_id add.commute)
  ultimately have run: "format_all_loop db (i * Z) FDB_NO_ERR = format_all_loop ?db (Suc i * Z) FDB_NO_ERR"
    using iz g(3,4) iN f(1) Suc.prems(3) by (subst format_all_loop.simps) (simp add: kv_put_def)
  have "\<exists>db'. format_all_loop ?db (Suc i * Z) FDB_NO_ERR = Some (FDB_NO_ERR, db') \<and> kv_geometry db' N \<and> kv_step ?db db'
      \<and> sc_inside N N Z (kv_sector_cache_table db') \<and> (\<forall>k < N. kv_sector (kv_img db') (k * Z) Z clear_sec)"
    using Suc.hyps(2) iN geo sec f(1) Suc.prems(3,4) sc_inside_drop
    by (intro Suc.hyps(1)) auto
  then show ?case using run st kv_step_trans by (metis (no_types, lifting))
qed

lemma clear_sectors:
  "kv_uniq (replicate N clear_sec)" "settled (replicate N clear_sec)" "n_empty (replicate N clear_sec) = N"
  "kv_map (replicate N clear_sec) = Map.empty" "live_ms (replicate N clear_sec) = {#}"
proof -
  have "all_nodes (replicate N clear_sec) = []" by (induction N) (simp_all add: all_nodes_def)
  then show "kv_uniq (replicate N clear_sec)" "kv_map (replicate N clear_sec) = Map.empty"
    "live_ms (replicate N clear_sec) = {#}"
    by (simp_all add: kv_uniq_def kv_map_def live_ms_def live_def)
  show "settled (replicate N clear_sec)" by (simp add: settled_def)
  show "n_empty (replicate N clear_sec) = N" by (simp add: n_empty_def)
qed

subsection \<open>Creating the default KVs\<close>

text \<open>
  Creating a KV that is not there, with the room still to be found: the KV is there afterwards or
  the database is full.
\<close>

lemma create_kv_new:
  assumes st: "kv_state db D" and c: "sec_empty_kv c = FAILED_ADDR"
    and key: "key_ok key" "kv_map D key = None" and n: "node_size key val < 2147483648"
  shows "\<exists>err c' db' D'. create_kv_blob db c key val = Some (err, c', db') \<and> kv_state db' D'
    \<and> kv_cfg db' = kv_cfg db \<and> length D' = length D
    \<and> n_empty D \<le> Suc (n_empty D')
    \<and> (kv_map D' = (kv_map D)(key \<mapsto> val)
       \<or> kv_map D' = kv_map D \<and> (n_empty D = 1 \<or> \<not> node_size key val + 104 < kvdb_sec_size db))"
proof -
  let ?Z = "kvdb_sec_size db" let ?n = "node_size key val"
  note s = kv_stateD [OF st]
  have nl: "kv_node_len key val = ?n" using n by (intro kv_node_len_eq) (simp add: node_size_def)
  have "\<not> length key > FDB_KV_NAME_MAX" using key(1) by (simp add: key_ok_def)
  then have e: "create_kv_blob db c key val = (if ?n > u32_sub ?Z SECTOR_HDR_DATA_SIZE then Some (FDB_SAVED_FULL, c, db)
      else do { (addr, sector, db) \<leftarrow> new_kv db c ?n;
        if addr = FAILED_ADDR then Some (FDB_SAVED_FULL, sector, db)
        else do { (result, db) \<leftarrow> create_kv_at db sector key val addr; Some (result, sector, db) } })"
    using c nl by (simp add: create_kv_blob_def)
  show ?thesis
  proof (cases "?n > u32_sub ?Z SECTOR_HDR_DATA_SIZE")
    case True
    moreover have "u32_sub ?Z SECTOR_HDR_DATA_SIZE = ?Z - 16"
    proof -
      have "0 < length D" using kv_memD(3) [OF s(7)] by linarith
      from sector_addr(2) [OF s(7) this] kv_mem_size [OF s(7)] show ?thesis
        using u32_sub_id [of 16 ?Z] by (simp add: SECTOR_HDR_DATA_SIZE_def)
    qed
    ultimately have "\<not> ?n + 104 < ?Z" by linarith
    moreover note True
    ultimately show ?thesis using e st by auto
  next
    case False
    obtain a c' db1 D1 where al: "new_kv db c ?n = Some (a, c', db1)" "kv_rep db1 D1" "settled D1" "0 < n_empty D1"
      "gc_frame db db1" "\<not> kv_gc_request db1" "length D1 = length D" "live_ms D1 = live_ms D" "n_empty D \<le> n_empty D1" "a = FAILED_ADDR \<longrightarrow> n_empty D = 1 \<or> \<not> ?n + 104 < ?Z"
      "a \<noteq> FAILED_ADDR \<longrightarrow> (\<exists>k. room_at ?Z D1 k c' a ?n \<and> (ks_store (D1 ! k) = FDB_SECTOR_STORE_EMPTY \<longrightarrow> 1 < n_empty D1))"
      using new_kv_rep [OF s(1-4) n] by blast
    have map1: "kv_map D1 = kv_map D" using live_ms_same(2) [OF s(8) al(8)] .
    have fr: "kv_cfg db1 = kv_cfg db" "\<not> kv_last_is_complete_del db1" "kv_wf (kv_cur_kv db1)"
      using al(5) s(5,6) by (simp_all add: gc_frame_def)
    have z1: "kvdb_sec_size db1 = ?Z" using fr(1) by (rule kv_cfg_fields)
    show ?thesis
    proof (cases "a = FAILED_ADDR")
      case True
      then show ?thesis using e False al(1-4,6,7,9,10) fr map1
        by (intro exI [of _ FDB_SAVED_FULL] exI [of _ c'] exI [of _ db1] exI [of _ D1]) (simp add: kv_state_def)
    next
      case ok: False
      then obtain k where k: "room_at ?Z D1 k c' a ?n" "ks_store (D1 ! k) = FDB_SECTOR_STORE_EMPTY \<longrightarrow> 1 < n_empty D1"
        using al(11) by blast
      have none: "kv_map D1 key = None" using key(2) map1 by simp
      obtain db2 D2 where i: "create_kv_blob db1 c' key val = Some (FDB_NO_ERR, c', db2)" "kv_rep db2 D2" "settled D2"
        "0 < n_empty D2" "n_empty D1 \<le> Suc (n_empty D2)" "length D2 = length D1" "kv_frame db1 db2"
        "kv_last_is_complete_del db2 = kv_last_is_complete_del db1" "kv_map D2 = (kv_map D1)(key \<mapsto> val)"
        using insert_fresh [OF al(2-4) _ k(2) key(1) none] k(1) unfolding z1 by blast
      have "sec_empty_kv c' = a" using room_at_facts(4,5) [OF k(1)] by (simp add: sec_room_def)
      then have "create_kv_blob db1 c' key val = do { (result, db) \<leftarrow> create_kv_at db1 c' key val a; Some (result, c', db) }"
        using ok False nl z1 \<open>\<not> length key > FDB_KV_NAME_MAX\<close> by (simp add: create_kv_blob_def)
      then have "create_kv_blob db c key val = Some (FDB_NO_ERR, c', db2)"
        using e False al(1) ok i(1) by simp
      moreover have "kv_state db2 D2" using i(2-4,7,8) al(6) fr by (simp add: kv_state_def kv_frame_def)
      moreover have "kv_cfg db2 = kv_cfg db" using i(7) fr(1) by (simp add: kv_frame_def)
      ultimately show ?thesis using i(5,6,9) al(7,9) map1 by auto
    qed
  qed
qed

text \<open>A default KV whose key and value the database can hold.\<close>

definition default_ok :: "fdb_default_kv_node \<Rightarrow> bytes \<Rightarrow> bool" where
  "default_ok d val \<longleftrightarrow> default_kv_value d = Some val \<and> key_ok (dkv_key d) \<and> node_size (dkv_key d) val < 2147483648"

text \<open>It fits an empty sector.\<close>

definition default_fits :: "nat \<Rightarrow> fdb_default_kv_node \<Rightarrow> bytes \<Rightarrow> bool" where
  "default_fits Z d val \<longleftrightarrow> node_size (dkv_key d) val + 104 < Z"

lemma default_kvs_loop_eq:
  "kv_state db D \<Longrightarrow> list_all2 default_ok ds vals \<Longrightarrow> distinct (map dkv_key ds) \<Longrightarrow>
    \<forall>d \<in> set ds. kv_map D (dkv_key d) = None \<Longrightarrow>
    \<exists>db' D'. default_kvs_loop ds db sec = Some db' \<and> kv_state db' D' \<and> kv_cfg db' = kv_cfg db \<and> length D' = length D
      \<and> kv_map D \<subseteq>\<^sub>m kv_map D' \<and> kv_map D' \<subseteq>\<^sub>m kv_map D ++ map_of (zip (map dkv_key ds) vals)
      \<and> (length ds < n_empty D \<and> list_all2 (default_fits (kvdb_sec_size db)) ds vals
         \<longrightarrow> kv_map D' = kv_map D ++ map_of (zip (map dkv_key ds) vals))"
proof (induction ds arbitrary: db D sec vals)
  case Nil
  then show ?case by (intro exI [of _ db] exI [of _ D]) simp
next
  case (Cons d ds)
  obtain v vs where v: "vals = v # vs" "default_ok d v" "list_all2 default_ok ds vs"
    using Cons.prems(2) by (auto simp: list_all2_Cons1)
  have d: "default_kv_value d = Some v" "key_ok (dkv_key d)" "node_size (dkv_key d) v < 2147483648"
    using v(2) by (simp_all add: default_ok_def)
  let ?c = "sec\<lparr>sec_empty_kv := FAILED_ADDR\<rparr>" let ?k = "dkv_key d"
  have n: "kv_map D ?k = None" using Cons.prems(4) by simp
  obtain err c' db1 D1 where c: "create_kv_blob db ?c ?k v = Some (err, c', db1)" "kv_state db1 D1"
    "kv_cfg db1 = kv_cfg db" "length D1 = length D"
    "kv_map D1 = (kv_map D)(?k \<mapsto> v) \<or> kv_map D1 = kv_map D"
    "kv_map D1 = (kv_map D)(?k \<mapsto> v) \<or> n_empty D = 1 \<or> \<not> node_size ?k v + 104 < kvdb_sec_size db"
    "n_empty D \<le> Suc (n_empty D1)"
    using create_kv_new [OF Cons.prems(1) _ d(2) n d(3), of ?c] by auto
  have fresh: "\<forall>d' \<in> set ds. kv_map D1 (dkv_key d') = None"
  proof
    fix d'
    assume d': "d' \<in> set ds"
    have "?k \<notin> dkv_key ` set ds" using Cons.prems(3) by simp
    moreover have "dkv_key d' \<in> dkv_key ` set ds" using d' by (rule imageI)
    ultimately have "dkv_key d' \<noteq> ?k" by metis
    moreover have "kv_map D (dkv_key d') = None" using Cons.prems(4) d' by simp
    ultimately show "kv_map D1 (dkv_key d') = None" using c(5) by auto
  qed
  have dist: "distinct (map dkv_key ds)" using Cons.prems(3) by simp
  obtain db' D' where r: "default_kvs_loop ds db1 c' = Some db'" "kv_state db' D'" "kv_cfg db' = kv_cfg db1"
    "length D' = length D1" "kv_map D1 \<subseteq>\<^sub>m kv_map D'" "kv_map D' \<subseteq>\<^sub>m kv_map D1 ++ map_of (zip (map dkv_key ds) vs)"
    "length ds < n_empty D1 \<and> list_all2 (default_fits (kvdb_sec_size db1)) ds vs
       \<longrightarrow> kv_map D' = kv_map D1 ++ map_of (zip (map dkv_key ds) vs)"
    using Cons.IH [OF c(2) v(3) dist fresh, of c'] by blast
  have sub: "kv_map D \<subseteq>\<^sub>m kv_map D1" "kv_map D1 \<subseteq>\<^sub>m (kv_map D)(?k \<mapsto> v)"
    using c(5) n by (auto simp: map_le_def)
  let ?m = "map_of (zip (map dkv_key ds) vs)" let ?M = "kv_map D ++ map_of (zip (map dkv_key (d # ds)) vals)"
  have M: "(kv_map D)(?k \<mapsto> v) ++ ?m = ?M"
  proof -
    have "?k \<notin> dom ?m" using Cons.prems(3) v(3) by (auto simp: list_all2_lengthD dom_map_of_zip)
    then show ?thesis unfolding v(1) by (auto simp: map_add_def fun_eq_iff domIff split: option.splits)
  qed
  have "kv_map D1 ++ ?m \<subseteq>\<^sub>m (kv_map D)(?k \<mapsto> v) ++ ?m"
    using sub(2) by (auto simp: map_le_def map_add_def dom_def split: option.splits)
  then have "kv_map D' \<subseteq>\<^sub>m ?M" unfolding M by (rule map_le_trans [OF r(6)])
  moreover have "default_kvs_loop (d # ds) db sec = Some db'" using d(1) c(1) r(1) by simp
  moreover have "kv_map D \<subseteq>\<^sub>m kv_map D'" using sub(1) r(5) map_le_trans by blast
  moreover have "kv_map D' = ?M" if fit: "length (d # ds) < n_empty D" "list_all2 (default_fits (kvdb_sec_size db)) (d # ds) vals"
  proof -
    have "kv_map D1 = (kv_map D)(?k \<mapsto> v)" using c(6) fit by (simp add: v(1) default_fits_def)
    moreover have "kvdb_sec_size db1 = kvdb_sec_size db" using c(3) by (rule kv_cfg_fields)
    moreover have "length ds < n_empty D1" using c(7) fit(1) by simp
    ultimately show ?thesis using r(7) fit(2) M by (simp add: v(1))
  qed
  ultimately show ?case using r(2-4) c(3,4) by (intro exI [of _ db'] exI [of _ D'] conjI impI) simp_all
qed

subsection \<open>The lock\<close>

lemma kvdb_lock_simps [simp]:
  "kv_img (kvdb_lock db) = kv_img db" "kv_ok (kvdb_lock db) = kv_ok db"
  "kvdb_sec_size (kvdb_lock db) = kvdb_sec_size db" "kvdb_max_size (kvdb_lock db) = kvdb_max_size db"
  "kvdb_oldest_addr (kvdb_lock db) = kvdb_oldest_addr db" "kv_cache_table (kvdb_lock db) = kv_cache_table db"
  "kv_sector_cache_table (kvdb_lock db) = kv_sector_cache_table db" "kv_gc_request (kvdb_lock db) = kv_gc_request db"
  "kv_last_is_complete_del (kvdb_lock db) = kv_last_is_complete_del db" "kv_cur_kv (kvdb_lock db) = kv_cur_kv db"
  "kv_default_kvs (kvdb_lock db) = kv_default_kvs db" "kvdb_stk (kvdb_lock db) = kvdb_stk db"
  "db_init_ok (kv_parent (kvdb_lock db)) = db_init_ok (kv_parent db)"
  "kv_img (kvdb_unlock db) = kv_img db" "kv_ok (kvdb_unlock db) = kv_ok db"
  "kvdb_sec_size (kvdb_unlock db) = kvdb_sec_size db" "kvdb_max_size (kvdb_unlock db) = kvdb_max_size db"
  "kvdb_oldest_addr (kvdb_unlock db) = kvdb_oldest_addr db" "kv_cache_table (kvdb_unlock db) = kv_cache_table db"
  "kv_sector_cache_table (kvdb_unlock db) = kv_sector_cache_table db" "kv_gc_request (kvdb_unlock db) = kv_gc_request db"
  "kv_last_is_complete_del (kvdb_unlock db) = kv_last_is_complete_del db" "kv_cur_kv (kvdb_unlock db) = kv_cur_kv db"
  by (simp_all add: kvdb_lock_def kvdb_unlock_def kv_img_def kv_ok_def stk_def)

lemma kv_state_lock [simp]:
  "kv_state (kvdb_lock db) D = kv_state db D" "kv_state (kvdb_unlock db) D = kv_state db D"
  "kv_geometry (kvdb_lock db) N = kv_geometry db N"
  by (simp_all add: kv_state_def kv_rep_def kv_mem_def kv_flash_def kv_geometry_def)

lemma kv_cfg_locked:
  assumes "kv_cfg x = kv_cfg (kvdb_lock db)" "db_lock_set (kv_parent db) = db_unlock_set (kv_parent db)"
  shows "kv_cfg (kvdb_unlock x) = kv_cfg db"
  using assms kv_cfg_fields [OF assms(1)]
  by (simp add: kv_cfg_def kvdb_lock_def kvdb_unlock_def Let_def stk_def db_lock_def db_unlock_def)

subsection \<open>The reset\<close>

lemma kv_format_all_state:
  assumes geo: "kv_geometry db N" and sc: "sc_inside 0 N (kvdb_sec_size db) (kv_sector_cache_table db)"
    and kvc: "kv_cache_table db = kvc_clear t" "length t = FDB_KV_CACHE_TABLE_SIZE"
    and old: "\<exists>k < N. kvdb_oldest_addr db = k * kvdb_sec_size db"
    and fl: "\<not> kv_gc_request db" "\<not> kv_last_is_complete_del db" "kv_wf (kv_cur_kv db)"
  shows "\<exists>db'. format_all_loop db 0 FDB_NO_ERR = Some (FDB_NO_ERR, db') \<and> kv_state db' (replicate N clear_sec)
    \<and> kv_cfg db' = kv_cfg db"
proof -
  define Z where "Z = kvdb_sec_size db"
  have g: "kv_ok db" "2 \<le> N" "104 < Z" "kvdb_max_size db = N * Z" "N * Z \<le> length (kv_img db)"
    using geo by (simp_all add: kv_geometry_def Z_def)
  have nz: "N * Z < 2147483648" using g(5) kvf.img_bound [OF g(1)] by linarith
  obtain db' where f: "format_all_loop db (0 * Z) FDB_NO_ERR = Some (FDB_NO_ERR, db')" "kv_geometry db' N" "kv_step db db'"
    "sc_inside N N Z (kv_sector_cache_table db')" "\<forall>k < N. kv_sector (kv_img db') (k * Z) Z clear_sec"
    using format_all_loop_eq [OF nz, of 0 db] geo sc by (auto simp: Z_def)
  have cfg: "kv_cfg db' = kv_cfg db" using f(3) by (simp add: kv_step_def kv_frame_def)
  have z: "kvdb_sec_size db' = Z" using kv_cfg_fields(1) [OF cfg] by (simp add: Z_def)
  have "kvdb_oldest_addr db' = kvdb_oldest_addr db" using f(3) by (simp add: kv_step_def kv_frame_def)
  then have "kv_flash db' (replicate N clear_sec)"
    using f(2,5) old by (simp add: kv_flash_def kv_geometry_def z Z_def [symmetric])
  then have "kv_mem db' (replicate N clear_sec)"
    using sc_inside_none [OF f(4)] by (simp add: kv_mem_def z)
  moreover have "kvc_agrees Z (replicate N clear_sec) (kv_cache_table db')"
    using f(3) kvc_clear_agrees [OF kvc(2)] kvc(1) by (simp add: kv_step_def)
  ultimately have "kv_rep db' (replicate N clear_sec)" by (simp add: kv_rep_def z clear_sectors)
  then have "kv_state db' (replicate N clear_sec)"
    using f(3) fl g(2) by (simp add: kv_state_def clear_sectors kv_step_def kv_frame_def)
  then show ?thesis using f(1) cfg by auto
qed

lemma set_default_state:
  assumes geo: "kv_geometry db N" and sc: "sc_inside 0 N (kvdb_sec_size db) (kv_sector_cache_table db)"
    and kvc: "length (kv_cache_table db) = FDB_KV_CACHE_TABLE_SIZE"
    and old: "\<exists>k < N. kvdb_oldest_addr db = k * kvdb_sec_size db"
    and fl: "\<not> kv_gc_request db" "\<not> kv_last_is_complete_del db" "kv_wf (kv_cur_kv db)"
    and lock: "db_lock_set (kv_parent db) = db_unlock_set (kv_parent db)"
    and ds: "list_all2 default_ok (kv_default_kvs db) vals" "distinct (map dkv_key (kv_default_kvs db))"
  shows "\<exists>db' D'. fdb_kv_set_default db = Some (FDB_NO_ERR, db') \<and> kv_state db' D' \<and> length D' = N
    \<and> kv_cfg db' = kv_cfg db \<and> kvdb_oldest_addr db' = 0
    \<and> kv_map D' \<subseteq>\<^sub>m map_of (zip (map dkv_key (kv_default_kvs db)) vals)
    \<and> (length (kv_default_kvs db) < N \<and> list_all2 (default_fits (kvdb_sec_size db)) (kv_default_kvs db) vals
       \<longrightarrow> kv_map D' = map_of (zip (map dkv_key (kv_default_kvs db)) vals))"
proof -
  let ?db1 = "(kvdb_lock db)\<lparr>kv_cache_table := kvc_clear (kv_cache_table db)\<rparr>"
  have c1: "kv_cfg ?db1 = kv_cfg (kvdb_lock db)" by (simp add: kv_cfg_def)
  have "kv_geometry ?db1 N" using geo by (simp add: kv_geometry_def kv_ok_def kv_img_def kvdb_lock_def)
  then obtain db2 where f: "format_all_loop ?db1 0 FDB_NO_ERR = Some (FDB_NO_ERR, db2)"
    "kv_state db2 (replicate N clear_sec)" "kv_cfg db2 = kv_cfg ?db1"
    using kv_format_all_state [of ?db1 N "kv_cache_table db"] sc kvc old fl by auto
  have d2: "kv_default_kvs db2 = kv_default_kvs db" using kv_cfg_fields(9) [OF f(3)] by simp
  have none: "\<forall>d \<in> set (kv_default_kvs db). kv_map (replicate N clear_sec) (dkv_key d) = None"
    by (simp add: clear_sectors)
  obtain db3 D3 where l: "default_kvs_loop (kv_default_kvs db) db2 (junk_sec (kvdb_stk db2)) = Some db3"
    "kv_state db3 D3" "kv_cfg db3 = kv_cfg db2" "length D3 = N"
    "kv_map D3 \<subseteq>\<^sub>m map_of (zip (map dkv_key (kv_default_kvs db)) vals)"
    "length (kv_default_kvs db) < N \<and> list_all2 (default_fits (kvdb_sec_size db2)) (kv_default_kvs db) vals
       \<longrightarrow> kv_map D3 = map_of (zip (map dkv_key (kv_default_kvs db)) vals)"
    using default_kvs_loop_eq [OF f(2) ds none, of "junk_sec (kvdb_stk db2)"] by (auto simp: clear_sectors)
  let ?db4 = "set_oldest 0 db3"
  have z: "kvdb_sec_size db3 = kvdb_sec_size db" using f(3) l(3) c1 by (metis kv_cfg_fields(1) kvdb_lock_simps(3))
  have "0 < length D3" using kv_memD(3) [OF kv_stateD(7) [OF l(2)]] by linarith
  then have rep4: "kv_rep ?db4 D3" using kv_rep_oldest [OF kv_stateD(1) [OF l(2)], of 0] by simp
  have "kv_state ?db4 D3" using rep4 l(2) by (simp add: kv_state_def)
  then have "kv_state (kvdb_unlock ?db4) D3" by simp
  moreover have "fdb_kv_set_default db = Some (FDB_NO_ERR, kvdb_unlock ?db4)"
    using f(1) l(1) d2 by (simp add: fdb_kv_set_default_def kvc_clear_def Let_def set_oldest_def)
  moreover have "kv_cfg (kvdb_unlock ?db4) = kv_cfg db"
    using f(3) l(3) c1 lock by (intro kv_cfg_locked) simp_all
  moreover have "kvdb_sec_size db2 = kvdb_sec_size db" using kv_cfg_fields(1) [OF l(3)] z by simp
  ultimately show ?thesis using l(4-6)
    by (intro exI [of _ "kvdb_unlock ?db4"] exI [of _ D3]) simp
qed

end
