(* ===== verification/Kvdb_Boot.thy ===== *)
theory Kvdb_Boot
  imports Kvdb_Reset
begin

text \<open>
  Starting a database on a flash that holds a settled state: the caches are cleared, the oldest
  sector is looked for, and the walks of the recovery find nothing to repair. The map is the one
  on flash.
\<close>

subsection \<open>Empty caches\<close>

lemma sc_blank:
  assumes "length t = FDB_SECTOR_CACHE_TABLE_SIZE" "\<forall>i < length t. sec_addr (t ! i) = FDB_DATA_UNUSED"
  shows "sc_inside i N Z t" "sc_agrees Z D t"
proof -
  have ok: "sc_ok t" using assms by (simp add: sc_ok_def)
  have "sc_get t a \<noteq> Some c" for a c
    using assms sc_get_iff [OF ok, of a c] by auto
  then show "sc_inside i N Z t" "sc_agrees Z D t"
    using ok by (simp_all add: sc_inside_def sc_agrees_def scc.coherent_def)
qed

subsection \<open>Walks that only look\<close>

lemma sector_iter_pure:
  assumes mem: "kv_mem db D" and P: "P arg"
    and cb: "\<And>k c arg db'. k < length D \<Longrightarrow> sec_view (k * kvdb_sec_size db) (D ! k) c \<Longrightarrow> P arg
        \<Longrightarrow> \<exists>arg'. cb c arg db' = Some (False, arg', db') \<and> P arg'"
  shows "\<exists>c arg' t. sector_iterator db sec FDB_SECTOR_STORE_UNUSED arg cb False
      = Some (c, arg', db\<lparr>kv_sector_cache_table := t\<rparr>) \<and> sc_agrees (kvdb_sec_size db) D t \<and> P arg'"
proof -
  define N where "N = length D"
  define Z where "Z = kvdb_sec_size db"
  obtain o' where o': "o' < N" "kvdb_oldest_addr db = o' * Z" "Suc (N - 1) = N" "(N - Suc (N - 1)) * Z = 0"
    using start_walk [OF mem] unfolding N_def Z_def .
  let ?I = "\<lambda>ks arg db' D'. D' = D \<and> (\<exists>t. db' = db\<lparr>kv_sector_cache_table := t\<rparr> \<and> sc_agrees Z D t) \<and> P arg"
  have start: "?I (kvr.walk N o' (Suc (N - 1))) arg db D"
  proof -
    have "\<exists>t. db = db\<lparr>kv_sector_cache_table := t\<rparr> \<and> sc_agrees Z D t"
      by (intro exI [of _ "kv_sector_cache_table db"]) (use kv_memD(9) [OF mem] in \<open>simp add: Z_def\<close>)
    then show ?thesis using P by blast
  qed
  have "\<exists>c arg' db' D'. sector_iter_loop cb False FDB_SECTOR_STORE_UNUSED db sec arg
      (o' * Z) ((N - Suc (N - 1)) * Z) = Some (c, arg', db') \<and> (False \<or> ?I [] arg' db' D')"
  proof (rule sector_iter_rule [where I = ?I and R = "\<lambda>c arg db' D'. False" and N = N and Z = Z and D = D])
    fix ks arg db' D'
    assume "?I ks arg db' D'"
    then show "kv_mem db' D' \<and> length D' = N \<and> kvdb_sec_size db' = Z"
      using mem kv_mem_sc by (auto simp: N_def Z_def)
  next
    fix j ks arg db' D' c
    assume I: "?I (j # ks) arg db' D'" and j: "j < N" and v: "sec_view (j * Z) (D' ! j) c"
    obtain arg' where "cb c arg db' = Some (False, arg', db')" "P arg'"
      using cb [of j c arg db'] I j v by (auto simp: N_def Z_def)
    then show "\<exists>stop arg' db'' D''. cb c arg db' = Some (stop, arg', db'')
        \<and> (if stop then False else ?I ks arg' db'' D'')"
      using I by (intro exI [of _ False] exI [of _ arg'] exI [of _ db'] exI [of _ D]) simp
  qed (use start o'(1) in auto)
  then obtain c arg' db' D' where r: "sector_iter_loop cb False FDB_SECTOR_STORE_UNUSED db sec arg
      (o' * Z) 0 = Some (c, arg', db')" "?I [] arg' db' D'" unfolding o'(4) by blast
  then obtain t where t: "db' = db\<lparr>kv_sector_cache_table := t\<rparr>" "sc_agrees Z D t" by blast
  show ?thesis using r t unfolding Z_def
    by (intro exI [of _ c] exI [of _ arg'] exI [of _ t]) (simp add: sector_iterator_def o'(2) Z_def)
qed

text \<open>The walk over the KVs fills the cache of KV addresses and repairs nothing.\<close>

lemma load_settled_kv:
  assumes rep: "kv_rep db D" and n: "node_in (kvdb_sec_size db) D a (st, key, val)"
    and st: "st = FDB_KV_WRITE \<or> st = FDB_KV_DELETED" and kv: "kv_wf kv"
  shows "\<exists>db'. check_and_recovery_kv_cb (node_kv kv a st key val) u db = Some (False, u, db')
    \<and> kv_rep db' D \<and> same_flash db db'"
proof (cases "st = FDB_KV_WRITE")
  case False
  then have "check_and_recovery_kv_cb (node_kv kv a st key val) u db = Some (False, u, db)"
    using st by (simp add: check_and_recovery_kv_cb_def)
  then show ?thesis using rep by auto
next
  case True
  note nf = node_in_facts [OF kv_rep_in [OF rep] n]
  have nm: "take (length key) (kv_name (node_kv kv a st key val)) = key"
    using node_kv_name(2) nf(4) kv unfolding kv_wf_def by blast
  let ?u = "kvc_update (kv_name_crc key) a (kv_cache_table db)"
  let ?db = "db\<lparr>kv_cache_table := ?u\<rparr>"
  have e: "check_and_recovery_kv_cb (node_kv kv a st key val) u db = Some (False, u, ?db)"
    using True nm by (simp add: check_and_recovery_kv_cb_def update_kv_cache_eq)
  have "kvc_agrees (kvdb_sec_size db) D (kv_cache_table db)" using rep by (simp add: kv_rep_def)
  then have "kvc_agrees_but (kv_name_crc key) (kvdb_sec_size db) D (kv_cache_table db)"
    by (rule kvc_agrees_weaken) simp
  then have "kvc_agrees (kvdb_sec_size db) D ?u"
    using n nf(6) True by (intro kvc_agrees_put) (simp_all add: fdb_const)
  moreover have "kv_mem ?db D" using kv_rep_in [OF rep] by (rule kv_mem_fields) simp_all
  ultimately have "kv_rep ?db D" using rep by (simp add: kv_rep_def)
  then show ?thesis using e same_flash_upd(2) by blast
qed

lemma load_sector_eq:
  assumes rep: "kv_rep db D" and k: "k < length D"
    and v: "sec_addr c = k * kvdb_sec_size db" "sec_store c = ks_store (D ! k)"
    and ns: "ks_nodes (D ! k) = xs @ ns" "ns \<noteq> []" "settled_nodes ns"
    and kv: "kv_wf kv" "kv_addr_start kv = nodes_end (k * kvdb_sec_size db + 16) xs"
  shows "\<exists>kv' db'. kv_iter_sector check_and_recovery_kv_cb db c kv () = Some (False, kv', (), db')
    \<and> kv_wf kv' \<and> kv_rep db' D \<and> same_flash db db'"
proof -
  define Z where "Z = kvdb_sec_size db"
  let ?J = "\<lambda>ns u db'. kv_rep db' D \<and> same_flash db db' \<and> settled_nodes ns"
  have zf: "kvdb_sec_size x = Z" if "same_flash db x" for x using that by (simp add: Z_def same_flash_fields)
  have "\<exists>stop kv' u' db'. kv_iter_sector check_and_recovery_kv_cb db c kv () = Some (stop, kv', u', db') \<and> kv_wf kv'
      \<and> (if stop then False else ?J [] u' db')"
  proof (rule kv_iter_sector_rule [where J = ?J and R = "\<lambda>kv u db. False" and D = D and k = k and Z = Z
        and ns = ns and xs = xs])
    fix xs st key val ns u db'' kv
    assume J: "?J ((st, key, val) # ns) u db''" and xs: "ks_nodes (D ! k) = xs @ (st, key, val) # ns"
      and w: "kv_wf kv" "kv_wf (node_kv kv (nodes_end (k * Z + 16) xs) st key val)"
    let ?kv = "node_kv kv (nodes_end (k * Z + 16) xs) st key val"
    have "node_in (kvdb_sec_size db'') D (nodes_end (k * Z + 16) xs) (st, key, val)"
      using xs k zf J unfolding node_in_def by blast
    then obtain db1 where "check_and_recovery_kv_cb ?kv u db'' = Some (False, u, db1)" "kv_rep db1 D" "same_flash db'' db1"
      using load_settled_kv [of db'' D _ st key val kv u] J w(1) by auto
    then show "\<exists>stop u' db1. check_and_recovery_kv_cb ?kv u db'' = Some (stop, u', db1)
        \<and> (if stop then False else ?J ns u' db1)"
      using J same_flash_trans by (intro exI [of _ False] exI [of _ u] exI [of _ db1]) auto
  next
    show "kv_mem db' D \<and> kvdb_sec_size db' = Z" if "?J ns u db'" for ns u db'
      using that zf kv_rep_in by blast
  qed (use rep k v ns kv in \<open>simp_all add: Z_def\<close>)
  then obtain stop kv' u' db' where "kv_iter_sector check_and_recovery_kv_cb db c kv () = Some (stop, kv', u', db')" "kv_wf kv'"
    "if stop then False else ?J [] u' db'" by blast
  then show ?thesis by (intro exI [of _ kv'] exI [of _ db']) (simp split: if_splits)
qed

lemma load_walk_eq:
  assumes rep: "kv_rep db D" and s: "settled D" and kv: "kv_wf kv"
  shows "\<exists>kv' db'. kv_iterator db kv () check_and_recovery_kv_cb = Some (kv', (), db') \<and> kv_rep db' D \<and> same_flash db db'"
proof -
  define N where "N = length D"
  define Z where "Z = kvdb_sec_size db"
  have mem: "kv_mem db D" using rep by (rule kv_rep_in)
  obtain o' where o': "o' < N" "kvdb_oldest_addr db = o' * Z" "Suc (N - 1) = N" "(N - Suc (N - 1)) * Z = 0"
    using start_walk [OF mem] unfolding N_def Z_def .
  have zf: "kvdb_sec_size x = Z" if "same_flash db x" for x using that by (simp add: Z_def same_flash_fields)
  let ?I = "\<lambda>ks u db' D'. D' = D \<and> kv_rep db' D \<and> same_flash db db'"
  have "\<exists>kv' u db' D'. kv_iter_loop check_and_recovery_kv_cb db kv () (junk_sec (kvdb_stk db)) (o' * Z)
      ((N - Suc (N - 1)) * Z) = Some (kv', u, db') \<and> kv_wf kv' \<and> (False \<or> ?I [] u db' D')"
  proof (rule kv_iter_rule [where I = ?I and R = "\<lambda>kv u db D. False" and N = N and Z = Z and D = D])
    fix ks u db' D'
    assume "?I ks u db' D'"
    then show "kv_mem db' D' \<and> length D' = N \<and> kvdb_sec_size db' = Z" using zf by (simp add: N_def kv_rep_in)
  next
    fix ks u db' D' t
    assume I: "?I ks u db' D'" "sc_agrees Z D' t"
    then have "kv_mem (db'\<lparr>kv_sector_cache_table := t\<rparr>) D" using zf by (intro kv_mem_sc) (auto intro: kv_rep_in)
    then show "?I ks u (db'\<lparr>kv_sector_cache_table := t\<rparr>) D'"
      using I same_flash_trans same_flash_upd(1) by (auto simp: kv_rep_def)
  next
    fix k ks u db' D' c kv
    assume I: "?I (k # ks) u db' D'" and k: "k < N" and v: "sec_view (k * Z) (D' ! k) c"
      and ne: "ks_nodes (D' ! k) \<noteq> []" and kv: "kv_wf kv" "kv_addr_start kv = k * Z + 16"
    have "settled_nodes (ks_nodes (D ! k))" using s k by (simp add: settled_def settled_sec_def N_def)
    then obtain kv' db'' where "kv_iter_sector check_and_recovery_kv_cb db' c kv () = Some (False, kv', (), db'')"
      "kv_wf kv'" "kv_rep db'' D" "same_flash db' db''"
      using load_sector_eq [of db' D k c "[]" "ks_nodes (D ! k)" kv] I k v ne kv zf by (auto simp: N_def sec_view_def)
    then show "\<exists>stop kv' u' db'' D''. kv_iter_sector check_and_recovery_kv_cb db' c kv u = Some (stop, kv', u', db'')
        \<and> kv_wf kv' \<and> (if stop then False else ?I ks u' db'' D'')"
      using I same_flash_trans by (intro exI [of _ False] exI [of _ kv'] exI [of _ "()"] exI [of _ db''] exI [of _ D]) auto
  qed (use rep o' kv in auto)
  then obtain kv' u db' D' where r: "kv_iter_loop check_and_recovery_kv_cb db kv () (junk_sec (kvdb_stk db)) (o' * Z) 0
      = Some (kv', u, db')" "?I [] u db' D'" unfolding o'(4) by blast
  then show ?thesis by (intro exI [of _ kv'] exI [of _ db']) (simp add: kv_iterator_def o'(2))
qed

subsection \<open>Loading\<close>

text \<open>The fields that loading does not need: the flag \<open>in_recovery_check\<close> is set meanwhile.\<close>

lemma kv_load_walked:
  assumes rep: "kv_rep db D" and gc: "\<forall>k < length D. ks_dirty (D ! k) \<noteq> FDB_SECTOR_DIRTY_GC"
  shows "\<exists>t. fdb_kv_load db = do {
        x \<leftarrow> kv_load_retry (db\<lparr>kv_in_recovery_check := True, kv_sector_cache_table := t\<rparr>) (junk_kv (kvdb_stk db));
        Some (FDB_NO_ERR, x\<lparr>kv_in_recovery_check := False\<rparr>)}
    \<and> kv_rep (db\<lparr>kv_in_recovery_check := True, kv_sector_cache_table := t\<rparr>) D"
proof -
  let ?Z = "kvdb_sec_size db" let ?db1 = "db\<lparr>kv_in_recovery_check := True\<rparr>"
  have rep1: "kv_rep ?db1 D" using rep(1) by (rule kv_rep_fields) simp_all
  have mem1: "kv_mem ?db1 D" using rep1 by (rule kv_rep_in)
  have sc: "kv_rep (x\<lparr>kv_sector_cache_table := t\<rparr>) D" if "kv_rep x D" "sc_agrees (kvdb_sec_size x) D t" for x t
    using that kv_mem_sc by (simp add: kv_rep_def)
  obtain c1 n t1 where w1: "sector_iterator ?db1 (junk_sec (kvdb_stk ?db1)) FDB_SECTOR_STORE_UNUSED 0 check_sec_hdr_cb False
      = Some (c1, n, ?db1\<lparr>kv_sector_cache_table := t1\<rparr>)" "sc_agrees ?Z D t1" "n = 0"
    using sector_iter_pure [OF mem1, of "\<lambda>n. n = 0" 0 check_sec_hdr_cb "junk_sec (kvdb_stk ?db1)"]
    by (auto simp: check_sec_hdr_cb_def sec_view_def)
  let ?db2 = "?db1\<lparr>kv_sector_cache_table := t1\<rparr>"
  have rep2: "kv_rep ?db2 D" using sc [OF rep1, of t1] w1(2) by simp
  have ng: "ks_dirty (D ! k) \<noteq> FDB_SECTOR_DIRTY_GC" if "k < length D" for k using gc that by blast
  obtain c2 t2 where w2: "sector_iterator ?db2 c1 FDB_SECTOR_STORE_UNUSED () check_and_recovery_gc_cb False
      = Some (c2, (), ?db2\<lparr>kv_sector_cache_table := t2\<rparr>)" "sc_agrees ?Z D t2"
    using sector_iter_pure [OF kv_rep_in [OF rep2], of "\<lambda>_. True" "()" check_and_recovery_gc_cb c1] ng
    by (auto simp: check_and_recovery_gc_cb_def sec_view_def)
  let ?db3 = "db\<lparr>kv_in_recovery_check := True, kv_sector_cache_table := t2\<rparr>"
  have e3: "?db2\<lparr>kv_sector_cache_table := t2\<rparr> = ?db3" by simp
  have rep3: "kv_rep ?db3 D" using sc [OF rep2, of t2] w2(2) e3 by simp
  have "\<not> 0 = kvdb_max_size db div ?Z"
  proof -
    note m = kv_memD(2-4) [OF kv_rep_in [OF rep(1)]]
    have "0 < length D" using m(2) by linarith
    then show ?thesis using m(1,3) by simp
  qed
  then have "fdb_kv_load db = do {
        x \<leftarrow> kv_load_retry ?db3 (junk_kv (kvdb_stk db)); Some (FDB_NO_ERR, x\<lparr>kv_in_recovery_check := False\<rparr>)}"
    using w1(1,3) w2(1) by (simp add: fdb_kv_load_def Let_def)
  then show ?thesis using rep3 by blast
qed

lemma kv_load_state:
  assumes rep: "kv_rep db D" "settled D" "0 < n_empty D"
    and fl: "\<not> kv_gc_request db" "\<not> kv_last_is_complete_del db" "kv_wf (kv_cur_kv db)"
  shows "\<exists>db'. fdb_kv_load db = Some (FDB_NO_ERR, db') \<and> kv_state db' D
    \<and> kv_cfg db' = kv_cfg (db\<lparr>kv_in_recovery_check := False\<rparr>) \<and> kvdb_oldest_addr db' = kvdb_oldest_addr db"
proof -
  have ng: "\<forall>k < length D. ks_dirty (D ! k) \<noteq> FDB_SECTOR_DIRTY_GC"
    using rep(2) by (simp add: settled_def settled_sec_def)
  obtain t where w: "fdb_kv_load db = do {
        x \<leftarrow> kv_load_retry (db\<lparr>kv_in_recovery_check := True, kv_sector_cache_table := t\<rparr>) (junk_kv (kvdb_stk db));
        Some (FDB_NO_ERR, x\<lparr>kv_in_recovery_check := False\<rparr>)}"
    "kv_rep (db\<lparr>kv_in_recovery_check := True, kv_sector_cache_table := t\<rparr>) D"
    using kv_load_walked [OF rep(1) ng] by blast
  let ?db3 = "db\<lparr>kv_in_recovery_check := True, kv_sector_cache_table := t\<rparr>"
  obtain kv' db4 where w3: "kv_iterator ?db3 (junk_kv (kvdb_stk db)) () check_and_recovery_kv_cb = Some (kv', (), db4)"
    "kv_rep db4 D" "same_flash ?db3 db4"
    using load_walk_eq [OF w(2) rep(2) kv_wf_junk] by blast
  have gc4: "\<not> kv_gc_request db4" using w3(3) fl(1) by (simp add: same_flash_fields)
  let ?db5 = "db4\<lparr>kv_in_recovery_check := False\<rparr>"
  have "kv_load_retry ?db3 (junk_kv (kvdb_stk db)) = Some db4"
    using w3(1) gc4 by (subst kv_load_retry.simps) simp
  then have "fdb_kv_load db = Some (FDB_NO_ERR, ?db5)" using w(1) by simp
  moreover have "kv_rep ?db5 D" using w3(2) by (rule kv_rep_fields) simp_all
  then have "kv_state ?db5 D" using rep(2,3) fl w3(3) by (simp add: kv_state_def same_flash_fields)
  moreover have "kv_cfg ?db5 = kv_cfg (db\<lparr>kv_in_recovery_check := False\<rparr>)" "kvdb_oldest_addr ?db5 = kvdb_oldest_addr db"
    using same_flash_fields(1,6) [OF w3(3)] by (simp_all add: kv_cfg_def Let_def)
  ultimately show ?thesis by blast
qed

subsection \<open>Initialisation\<close>

text \<open>
  The RAM of a database object before its initialisation: either nothing is cached, or it is zeroed
  memory. In zeroed memory the first cache entry claims to be sector 0, of no status and 0 bytes
  long: the walk for the oldest sector, which runs before the caches are cleared, never leaves it.
\<close>

definition sc_zeroed :: "kvdb_sec_info list \<Rightarrow> bool" where
  "sc_zeroed t \<longleftrightarrow>
     sec_addr (t ! 0) = 0 \<and> sec_store (t ! 0) = FDB_SECTOR_STORE_UNUSED \<and> sec_combined (t ! 0) = 0"

definition kv_fresh_ram :: "fdb_kvdb \<Rightarrow> bool" where
  "kv_fresh_ram db \<longleftrightarrow>
     length (kv_sector_cache_table db) = FDB_SECTOR_CACHE_TABLE_SIZE
   \<and> ((\<forall>i < FDB_SECTOR_CACHE_TABLE_SIZE. sec_addr (kv_sector_cache_table db ! i) = FDB_DATA_UNUSED)
      \<or> sc_zeroed (kv_sector_cache_table db))
   \<and> length (kv_cache_table db) = FDB_KV_CACHE_TABLE_SIZE
   \<and> \<not> kv_last_is_complete_del db \<and> kv_wf (kv_cur_kv db)"

lemma zeroed_walk:
  assumes z: "sc_zeroed (kv_sector_cache_table db)" "0 < Z" "Z < 2147483648" "N * Z < 2147483648"
    and db: "kvdb_sec_size db = Z" "kvdb_max_size db = N * Z"
  shows "i \<le> N \<Longrightarrow> \<exists>c. sector_iter_loop check_oldest_addr_cb False FDB_SECTOR_STORE_UNUSED db sec
      (0, FDB_SECTOR_STORE_UNUSED) 0 (i * Z) = Some (c, (0, FDB_SECTOR_STORE_UNUSED), db)"
proof (induction "N - i" arbitrary: i sec)
  case 0
  then have i: "i = N" by simp
  have "get_sector_from_cache db 0 = Some 0"
    using z(1) by (simp add: get_sector_from_cache_def sc_zeroed_def FDB_SECTOR_CACHE_TABLE_SIZE_def upt_conv_Cons)
  moreover have "get_next_sector_addr db (kv_sector_cache_table db ! 0) (N * Z + Z) = FAILED_ADDR"
    using z db by (simp add: get_next_sector_addr_def sc_zeroed_def SECTOR_NOT_COMBINED_def u32_id)
  ultimately show ?case
    using z db by (subst sector_iter_loop.simps)
      (simp add: i read_sector_info_def check_oldest_addr_cb_def sc_zeroed_def u32_id Let_def)
next
  case (Suc m)
  let ?c = "kv_sector_cache_table db ! 0"
  have i: "Suc i \<le> N" using Suc.hyps(2) by simp
  have g: "get_sector_from_cache db 0 = Some 0"
    using z(1) by (simp add: get_sector_from_cache_def sc_zeroed_def FDB_SECTOR_CACHE_TABLE_SIZE_def upt_conv_Cons)
  have b: "i * Z + Z \<le> N * Z" using mult_le_less [OF i] .
  then have n: "get_next_sector_addr db ?c (i * Z + Z) = 0"
    using z db by (simp add: get_next_sector_addr_def sc_zeroed_def SECTOR_NOT_COMBINED_def u32_id)
  have "sector_iter_loop check_oldest_addr_cb False FDB_SECTOR_STORE_UNUSED db sec (0, FDB_SECTOR_STORE_UNUSED) 0 (i * Z)
      = sector_iter_loop check_oldest_addr_cb False FDB_SECTOR_STORE_UNUSED db ?c (0, FDB_SECTOR_STORE_UNUSED) 0 (Suc i * Z)"
    using z db g b n by (subst sector_iter_loop.simps)
      (simp add: read_sector_info_def check_oldest_addr_cb_def sc_zeroed_def u32_id Let_def add.commute fdb_const)
  then show ?case using Suc.hyps(1) [of "Suc i" ?c] Suc.hyps(2) i by simp
qed

lemma kvdb_init_walked:
  assumes geo: "kv_geometry db (length D)" and ram: "kv_fresh_ram db"
    and sec: "\<forall>k < length D. kv_sector (kv_img db) (k * kvdb_sec_size db) (kvdb_sec_size db) (D ! k)"
    and uniq: "kv_uniq D"
  shows "\<exists>db'. kvdb_init_load db default_kv = do {(result, x) \<leftarrow> fdb_kv_load db'; Some (result, kvdb_unlock (kvdb_lock x))}
    \<and> kv_rep db' D \<and> \<not> kv_gc_request db' \<and> \<not> kv_last_is_complete_del db' \<and> kv_wf (kv_cur_kv db')
    \<and> kv_in_recovery_check db' = False
    \<and> (db_lock_set (kv_parent db) = db_unlock_set (kv_parent db) \<longrightarrow> kv_cfg db' = kv_cfg (db\<lparr>kv_in_recovery_check := False,
          kv_default_kvs := (case default_kv of Some d \<Rightarrow> d | None \<Rightarrow> [])\<rparr>))
    \<and> (sc_zeroed (kv_sector_cache_table db) \<longrightarrow> kvdb_oldest_addr db' = 0)"
proof -
  define Z where "Z = kvdb_sec_size db"
  define N where "N = length D"
  have g: "kv_ok db" "2 \<le> N" "104 < Z" "kvdb_max_size db = N * Z" "N * Z \<le> length (kv_img db)"
    using geo by (simp_all add: kv_geometry_def Z_def N_def)
  define db1 where "db1 = set_oldest 0 ((kvdb_lock db)\<lparr>kv_gc_request := False, kv_in_recovery_check := False,
      kv_default_kvs := (case default_kv of Some d \<Rightarrow> d | None \<Rightarrow> [])\<rparr>)"
  have kd: "kv_img db1 = kv_img db" "kv_ok db1" "kvdb_sec_size db1 = Z" "kvdb_max_size db1 = N * Z"
    "kv_sector_cache_table db1 = kv_sector_cache_table db" "kv_cache_table db1 = kv_cache_table db" "kvdb_oldest_addr db1 = 0"
    "\<not> kv_gc_request db1" "kv_last_is_complete_del db1 = kv_last_is_complete_del db" "kv_cur_kv db1 = kv_cur_kv db"
    using g by (simp_all add: db1_def Z_def) (simp_all add: kv_img_def kv_ok_def kvdb_lock_def)
  have flash: "kv_flash db1 D"
    using g sec kd by (auto simp: kv_flash_def N_def [symmetric] Z_def [symmetric] intro!: exI [of _ 0])
  then have mem: "kv_mem (db1\<lparr>kv_sector_cache_table := t\<rparr>) D" if "sc_agrees Z D t" for t
    using that kd(3) by (simp add: kv_mem_def)
  obtain c t a where w: "sector_iterator db1 (junk_sec (kvdb_stk db1)) FDB_SECTOR_STORE_UNUSED (0, FDB_SECTOR_STORE_UNUSED)
        check_oldest_addr_cb False = Some (c, a, db1\<lparr>kv_sector_cache_table := t\<rparr>)"
    "length t = FDB_SECTOR_CACHE_TABLE_SIZE" "\<exists>k < N. fst a = k * Z"
    "sc_zeroed (kv_sector_cache_table db) \<longrightarrow> fst a = 0"
  proof (cases "sc_zeroed (kv_sector_cache_table db)")
    case True
    have "N * Z < 2147483648" using g(5) kvf.img_bound [OF g(1)] by linarith
    moreover from this have "Z < 2147483648" using g(2) mult_le_mono1 [of 1 N Z] by linarith
    ultimately obtain c where "sector_iter_loop check_oldest_addr_cb False FDB_SECTOR_STORE_UNUSED db1 (junk_sec (kvdb_stk db1))
        (0, FDB_SECTOR_STORE_UNUSED) 0 (0 * Z) = Some (c, (0, FDB_SECTOR_STORE_UNUSED), db1)"
      using zeroed_walk [of db1 Z N 0 "junk_sec (kvdb_stk db1)"] True kd(3-5) g(3) by auto
    moreover have "db1\<lparr>kv_sector_cache_table := kv_sector_cache_table db\<rparr> = db1" using kd(5) [symmetric] by simp
    moreover have "\<exists>k < N. fst (0, FDB_SECTOR_STORE_UNUSED) = k * Z" using g(2) by (intro exI [of _ 0]) simp
    ultimately show ?thesis using that [of c "(0, FDB_SECTOR_STORE_UNUSED)" "kv_sector_cache_table db"] ram kd(7)
      by (simp add: sector_iterator_def kv_fresh_ram_def)
  next
    case False
    then have blank: "\<forall>i < FDB_SECTOR_CACHE_TABLE_SIZE. sec_addr (kv_sector_cache_table db ! i) = FDB_DATA_UNUSED"
      using ram by (simp add: kv_fresh_ram_def)
    have "sc_agrees Z D (kv_sector_cache_table db)"
      using ram blank by (intro sc_blank) (simp_all add: kv_fresh_ram_def)
    from mem [OF this] have mem1: "kv_mem db1 D" unfolding kd(5) [symmetric] by simp
    have "\<exists>k < N. fst (0, FDB_SECTOR_STORE_UNUSED) = k * Z" using g(2) by (intro exI [of _ 0]) simp
    moreover have "\<exists>a'. check_oldest_addr_cb c a x = Some (False, a', x) \<and> (\<exists>k < N. fst a' = k * Z)"
      if "k < length D" "sec_view (k * kvdb_sec_size db1) (D ! k) c" "\<exists>k < N. fst a = k * Z" for k c a x
    proof -
      have "sec_addr c = k * Z" using that(2) kd(3) by (simp add: sec_view_def)
      then show ?thesis using that(1,3) unfolding check_oldest_addr_cb_def N_def by (simp split: if_split) blast
    qed
    ultimately obtain c t a where "sector_iterator db1 (junk_sec (kvdb_stk db1)) FDB_SECTOR_STORE_UNUSED
        (0, FDB_SECTOR_STORE_UNUSED) check_oldest_addr_cb False = Some (c, a, db1\<lparr>kv_sector_cache_table := t\<rparr>)"
      "sc_agrees Z D t" "\<exists>k < N. fst a = k * Z"
      using sector_iter_pure [OF mem1, of "\<lambda>a. \<exists>k < N. fst a = k * Z" "(0, FDB_SECTOR_STORE_UNUSED)"
          check_oldest_addr_cb "junk_sec (kvdb_stk db1)"] unfolding kd(3) by blast
    moreover from this(2) have "length t = FDB_SECTOR_CACHE_TABLE_SIZE"
      using scc.coherent_ok unfolding sc_agrees_def sc_ok_def by blast
    ultimately show ?thesis using that False by blast
  qed
  obtain o' where o': "o' < N" "fst a = o' * Z" using w(3) by blast
  define db2 where "db2 = (set_oldest (o' * Z) (db1\<lparr>kv_sector_cache_table := t\<rparr>))
      \<lparr>kv_sector_cache_table := map (\<lambda>s. s\<lparr>sec_check_ok := False, sec_empty_kv := FAILED_ADDR, sec_addr := FDB_DATA_UNUSED\<rparr>) t,
       kv_cache_table := kvc_clear (kv_cache_table db1)\<rparr>"
  note lt = w(2)
  have "kv_flash (set_oldest (o' * Z) (db1\<lparr>kv_sector_cache_table := t\<rparr>)) D"
    using o'(1) kd(3) flash by (auto simp: kv_flash_def kv_ok_def kv_img_def N_def set_oldest_def)
  then have "kv_flash db2 D" by (simp add: db2_def kv_flash_def kv_ok_def kv_img_def)
  moreover have "kvdb_sec_size db2 = Z" using kd(3) by (simp add: db2_def)
  moreover have "sc_agrees Z D (kv_sector_cache_table db2)" using lt by (intro sc_blank) (simp_all add: db2_def)
  moreover have "kvc_agrees Z D (kv_cache_table db2)"
    using kvc_clear_agrees [of "kv_cache_table db" Z D] ram kd(6) by (simp add: db2_def kv_fresh_ram_def)
  ultimately have rep2: "kv_rep db2 D" using uniq by (simp add: kv_rep_def kv_mem_def)
  have rep3: "kv_rep (kvdb_unlock db2) D" using rep2 by (simp add: kv_rep_def kv_mem_def kv_flash_def)
  have fl: "\<not> kv_gc_request db2" "\<not> kv_last_is_complete_del db2" "kv_wf (kv_cur_kv db2)"
    using ram kd(8-10) by (simp_all add: kv_fresh_ram_def db2_def)
  have thr: "0 < FDB_GC_EMPTY_SEC_THRESHOLD" "FDB_GC_EMPTY_SEC_THRESHOLD < kvdb_max_size db1 div kvdb_sec_size db1"
    using g(2,3) kd(3,4) by (simp_all add: FDB_GC_EMPTY_SEC_THRESHOLD_def)
  have run: "kvdb_init_load db default_kv
      = do {(result, x) \<leftarrow> fdb_kv_load (kvdb_unlock db2); Some (result, kvdb_unlock (kvdb_lock x))}"
    unfolding kvdb_init_load_def Let_def
    unfolding set_oldest_def [symmetric] db1_def [symmetric]
    using w(1) o'(2) thr by (simp add: db2_def kvc_clear_def set_oldest_def)
  let ?db = "db\<lparr>kv_in_recovery_check := False, kv_default_kvs := (case default_kv of Some d \<Rightarrow> d | None \<Rightarrow> [])\<rparr>"
  have d2: "kv_cfg db2 = kv_cfg (kvdb_lock ?db)"
    by (simp add: db2_def db1_def set_oldest_def kvdb_lock_def kv_cfg_def stk_def Let_def)
  have "kv_in_recovery_check (kvdb_unlock db2) = False"
    using kv_cfg_fields [OF d2] by (simp add: kvdb_lock_def kvdb_unlock_def)
  moreover have "kv_cfg (kvdb_unlock db2) = kv_cfg ?db" if "db_lock_set (kv_parent db) = db_unlock_set (kv_parent db)"
    using d2 that by (intro kv_cfg_locked) simp_all
  ultimately show ?thesis using run rep3 fl o'(2) w(4)
    by (intro exI [of _ "kvdb_unlock db2"]) (auto simp: db2_def)
qed

text \<open>Loading ends with locking and unlocking, which cancel out.\<close>

lemma kv_relock:
  assumes "db_lock_set (kv_parent db) = db_unlock_set (kv_parent db)"
  shows "kv_cfg (kvdb_unlock (kvdb_lock db)) = kv_cfg db"
  using assms by (intro kv_cfg_locked) simp_all

lemma kvdb_init_load_state:
  assumes geo: "kv_geometry db (length D)" and ram: "kv_fresh_ram db"
    and sec: "\<forall>k < length D. kv_sector (kv_img db) (k * kvdb_sec_size db) (kvdb_sec_size db) (D ! k)"
    and D: "settled D" "0 < n_empty D" "kv_uniq D"
  shows "\<exists>db'. kvdb_init_load db default_kv = Some (FDB_NO_ERR, db') \<and> kv_state db' D
    \<and> (db_lock_set (kv_parent db) = db_unlock_set (kv_parent db) \<longrightarrow> kv_cfg db' = kv_cfg (db\<lparr>kv_in_recovery_check := False,
          kv_default_kvs := (case default_kv of Some d \<Rightarrow> d | None \<Rightarrow> [])\<rparr>))
    \<and> (sc_zeroed (kv_sector_cache_table db) \<longrightarrow> kvdb_oldest_addr db' = 0)"
proof -
  let ?db = "db\<lparr>kv_in_recovery_check := False, kv_default_kvs := (case default_kv of Some d \<Rightarrow> d | None \<Rightarrow> [])\<rparr>"
  obtain db3 where w: "kvdb_init_load db default_kv = do {(result, x) \<leftarrow> fdb_kv_load db3; Some (result, kvdb_unlock (kvdb_lock x))}"
    "kv_rep db3 D" "\<not> kv_gc_request db3" "\<not> kv_last_is_complete_del db3" "kv_wf (kv_cur_kv db3)"
    "kv_in_recovery_check db3 = False"
    "db_lock_set (kv_parent db) = db_unlock_set (kv_parent db) \<longrightarrow> kv_cfg db3 = kv_cfg ?db"
    "sc_zeroed (kv_sector_cache_table db) \<longrightarrow> kvdb_oldest_addr db3 = 0"
    using kvdb_init_walked [OF geo ram sec D(3), of default_kv] by blast
  obtain db4 where l: "fdb_kv_load db3 = Some (FDB_NO_ERR, db4)" "kv_state db4 D"
    "kv_cfg db4 = kv_cfg (db3\<lparr>kv_in_recovery_check := False\<rparr>)" "kvdb_oldest_addr db4 = kvdb_oldest_addr db3"
    using kv_load_state [OF w(2) D(1,2) w(3-5)] by blast
  have "db3\<lparr>kv_in_recovery_check := False\<rparr> = db3" using w(6) by simp
  then have c: "kv_cfg db4 = kv_cfg db3" using l(3) by simp
  have "kv_cfg (kvdb_unlock (kvdb_lock db4)) = kv_cfg ?db" if lk: "db_lock_set (kv_parent db) = db_unlock_set (kv_parent db)"
  proof -
    have "kv_cfg db4 = kv_cfg ?db" using c w(7) lk by simp
    moreover from kv_cfg_fields [OF this] have "db_lock_set (kv_parent db4) = db_unlock_set (kv_parent db4)" using lk by simp
    ultimately show ?thesis using kv_relock by simp
  qed
  then show ?thesis using w(1,8) l(1,2,4)
    by (intro exI [of _ "kvdb_unlock (kvdb_lock db4)"]) simp
qed

end
