(* ===== verification/Kvdb_Iter.thy ===== *)
theory Kvdb_Iter
  imports Kvdb_State
begin

text \<open>
  The iterator \<open>fdb_kv_iterate\<close>: every call delivers the next written node, in the order of the
  ring of sectors and of the nodes in a sector, until all were delivered.
\<close>

abbreviation is_written :: "kv_node \<Rightarrow> bool" where
  "is_written n \<equiv> fst n = FDB_KV_WRITE"

subsection \<open>The rest of a sector\<close>

lemma next_node_eq:
  assumes mem: "kv_mem db D" and k: "k < length D" and c: "sec_view (k * kvdb_sec_size db) (D ! k) c"
    and nd: "ks_nodes (D ! k) = xs @ (st, key, val) # ns"
  shows "get_next_kv_addr db c (node_kv kv (nodes_end (k * kvdb_sec_size db + 16) xs) st key val)
    = Some (if ns = [] then FAILED_ADDR else nodes_end (k * kvdb_sec_size db + 16) (xs @ [(st, key, val)]))"
  using kv_memD(1,6) [OF mem] sc_agrees_fits [OF mem k] k c nd
  by (intro get_next_kv_addr_eq [where s = "D ! k" and k = k and ys = ns]) (auto simp: sec_view_def)

lemma iterate_sector_eq:
  assumes mem: "kv_mem db D" and k: "k < length D" and c: "sec_view (k * kvdb_sec_size db) (D ! k) c"
  defines "a \<equiv> nodes_end (k * kvdb_sec_size db + 16)"
  shows "ks_nodes (D ! k) = xs @ ns \<Longrightarrow> ns \<noteq> [] \<Longrightarrow> kv_wf kv \<Longrightarrow> kv_addr_start kv = a xs \<Longrightarrow>
    \<exists>kv'. kv_wf kv' \<and>
      (filter is_written ns = [] \<and> kv_iterate_sector db c kv = Some (False, kv', db)
       \<or> (\<exists>ds key val ns' kv0. ns = ds @ (FDB_KV_WRITE, key, val) # ns' \<and> filter is_written ds = []
           \<and> kv_iterate_sector db c kv = Some (True, kv', db) \<and> kv_wf kv0
           \<and> kv' = node_kv kv0 (a (xs @ ds)) FDB_KV_WRITE key val))"
proof (induction ns arbitrary: xs kv)
  case (Cons n ns)
  obtain st key val where n: "n = (st, key, val)" by (metis prod_cases3)
  let ?kv = "node_kv kv (a xs) st key val"
  have nd: "ks_nodes (D ! k) = xs @ (st, key, val) # ns" using Cons.prems(1) n by simp
  have "node_in (kvdb_sec_size db) D (a xs) (st, key, val)" unfolding node_in_def a_def using k nd by blast
  note r = read_kv_in [OF mem this Cons.prems(3,4)]
  note nx = next_node_eq [OF mem k c nd, of kv, folded a_def]
  consider (hit) "st = FDB_KV_WRITE" | (last) "st \<noteq> FDB_KV_WRITE" "ns = []" | (go) "st \<noteq> FDB_KV_WRITE" "ns \<noteq> []" by blast
  then show ?case
  proof cases
    case hit
    have "kv_iterate_sector db c kv = Some (True, ?kv, db)"
      using hit by (subst kv_iterate_sector.simps) (simp add: r(1))
    then show ?thesis using hit n r(2) Cons.prems(3)
      by (intro exI [of _ ?kv] conjI disjI2 exI [of _ "[]"] exI [of _ key] exI [of _ val] exI [of _ ns] exI [of _ kv]) simp_all
  next
    case last
    have "kv_iterate_sector db c kv = Some (False, ?kv\<lparr>kv_addr_start := FAILED_ADDR\<rparr>, db)"
      using last nx by (subst kv_iterate_sector.simps) (simp add: r(1) Let_def)
    then show ?thesis using last n r(2)
      by (intro exI [of _ "?kv\<lparr>kv_addr_start := FAILED_ADDR\<rparr>"]) simp
  next
    case go
    let ?x = "xs @ [(st, key, val)]" let ?kv' = "?kv\<lparr>kv_addr_start := a ?x\<rparr>"
    obtain st' key' val' ns' where n': "ns = (st', key', val') # ns'" using go(2) by (metis list.exhaust prod_cases3)
    have "ks_nodes (D ! k) = ?x @ (st', key', val') # ns'" using nd n' by simp
    then have "node_in (kvdb_sec_size db) D (a ?x) (st', key', val')" unfolding node_in_def a_def using k by blast
    then have "a ?x \<noteq> FAILED_ADDR" using node_in_facts(6) mem by blast
    then have step: "kv_iterate_sector db c kv = kv_iterate_sector db c ?kv'"
      using go nx by (subst kv_iterate_sector.simps) (simp add: r(1) Let_def)
    have x: "ks_nodes (D ! k) = ?x @ ns" using nd by simp
    have w: "kv_wf ?kv'" "kv_addr_start ?kv' = a ?x" using r(2) by simp_all
    from Cons.IH [OF x go(2) w] obtain kv' where kv': "kv_wf kv'"
      "filter is_written ns = [] \<and> kv_iterate_sector db c ?kv' = Some (False, kv', db)
       \<or> (\<exists>ds key val ns' kv0. ns = ds @ (FDB_KV_WRITE, key, val) # ns' \<and> filter is_written ds = []
           \<and> kv_iterate_sector db c ?kv' = Some (True, kv', db) \<and> kv_wf kv0
           \<and> kv' = node_kv kv0 (a (?x @ ds)) FDB_KV_WRITE key val)" by blast
    from kv'(2) show ?thesis
    proof (elim disjE exE conjE)
      assume "filter is_written ns = []" "kv_iterate_sector db c ?kv' = Some (False, kv', db)"
      then show ?thesis using kv'(1) step go n by (intro exI [of _ kv']) simp
    next
      fix ds key1 val1 ns1 kv0
      assume "ns = ds @ (FDB_KV_WRITE, key1, val1) # ns1" "filter is_written ds = []"
        "kv_iterate_sector db c ?kv' = Some (True, kv', db)" "kv_wf kv0"
        "kv' = node_kv kv0 (a (?x @ ds)) FDB_KV_WRITE key1 val1"
      then show ?thesis using kv'(1) step go(1) n
        by (intro exI [of _ kv'] conjI disjI2 exI [of _ "n # ds"] exI [of _ key1] exI [of _ val1] exI [of _ ns1] exI [of _ kv0])
          simp_all
    qed
  qed
qed simp

subsection \<open>Positions of the iterator\<close>

text \<open>
  The iterator is at sector \<open>k\<close>, with \<open>m\<close> sectors after it in the walk and the nodes \<open>ns\<close> of the
  sector still to come: either before the first node, or after one that it delivered.
\<close>

definition itr_at :: "nat \<Rightarrow> kv_sec list \<Rightarrow> fdb_kv_iterator \<Rightarrow> nat \<Rightarrow> nat \<Rightarrow> kv_node list \<Rightarrow> bool" where
  "itr_at Z D itr k m ns \<longleftrightarrow>
     k < length D \<and> Suc m \<le> length D \<and> itr_sector_addr itr = k * Z
   \<and> itr_traversed_len itr = (length D - Suc m) * Z \<and> kv_wf (itr_curr_kv itr)
   \<and> (kv_addr_start (itr_curr_kv itr) = 0 \<and> ns = ks_nodes (D ! k)
      \<or> (\<exists>xs st key val kv0. ks_nodes (D ! k) = xs @ (st, key, val) # ns
           \<and> itr_curr_kv itr = node_kv kv0 (nodes_end (k * Z + 16) xs) st key val))"

definition pending :: "kv_sec list \<Rightarrow> nat \<Rightarrow> nat \<Rightarrow> kv_node list \<Rightarrow> kv_node list" where
  "pending D k m ns = filter is_written (ns @ concat (map (\<lambda>j. ks_nodes (D ! j)) (kvr.walk (length D) (ring_up (length D) k) m)))"

lemma pending_Suc: "pending D k (Suc m) ns = filter is_written ns @ pending D (ring_up (length D) k) m (ks_nodes (D ! ring_up (length D) k))"
  by (simp add: pending_def kvr.walk_Suc)

lemma pending_0: "pending D k 0 ns = filter is_written ns"
  by (simp add: pending_def kvr.walk_def)

text \<open>One sector: the next node to deliver, or the iterator is ready for the next sector.\<close>

lemma iterate_step_eq:
  assumes mem: "kv_mem db D" and at: "itr_at (kvdb_sec_size db) D itr k m ns"
  defines "Z \<equiv> kvdb_sec_size db"
  shows "\<exists>found itr' c t. kv_iterate_step db itr sec = Some (found, itr', c, db\<lparr>kv_sector_cache_table := t\<rparr>)
    \<and> sc_agrees Z D t
    \<and> (if found then \<exists>key val ns' kv0. filter is_written ns = (FDB_KV_WRITE, key, val) # filter is_written ns'
          \<and> itr_at Z D itr' k m ns' \<and> found_kv Z D key val (itr_curr_kv itr')
       else filter is_written ns = [] \<and> sec_view (k * Z) (D ! k) c
          \<and> itr_traversed_len itr' = (length D - m) * Z \<and> kv_addr_start (itr_curr_kv itr') = 0
          \<and> kv_wf (itr_curr_kv itr'))"
proof -
  let ?a = "nodes_end (k * Z + 16)" let ?kv = "itr_curr_kv itr"
  have k: "k < length D" "Suc m \<le> length D" and itr: "itr_sector_addr itr = k * Z"
    "itr_traversed_len itr = (length D - Suc m) * Z" "kv_wf ?kv"
    using at by (simp_all add: itr_at_def Z_def)
  note me = kv_memD [OF mem, folded Z_def] and sa = sector_addr [OF mem k(1), folded Z_def]
  obtain c t where r: "read_sector_info db (k * Z) sec False = Some (FDB_NO_ERR, c, db\<lparr>kv_sector_cache_table := t\<rparr>)"
    "sc_agrees Z D t" "sec_view (k * Z) (D ! k) c"
    using read_sector_info_eq [OF mem k(1), of "k * Z" sec False] by (auto simp: Z_def)
  let ?db = "db\<lparr>kv_sector_cache_table := t\<rparr>"
  have mem': "kv_mem ?db D" using mem r(2) unfolding Z_def by (rule kv_mem_sc)
  have v: "sec_view (k * kvdb_sec_size ?db) (D ! k) c" using r(3) by (simp add: Z_def)
  have ca: "sec_addr c = k * Z" "sec_store c = ks_store (D ! k)" using r(3) by (simp_all add: sec_view_def)
  have u: "u32 (k * Z + SECTOR_HDR_DATA_SIZE) = k * Z + 16" "u32 ((length D - Suc m) * Z + Z) = (length D - m) * Z"
  proof -
    show "u32 (k * Z + SECTOR_HDR_DATA_SIZE) = k * Z + 16"
      using sa(2) kv_mem_size [OF mem] by (simp add: u32_id SECTOR_HDR_DATA_SIZE_def Z_def)
    have "length D - m = Suc (length D - Suc m)" using k(2) by simp
    then have e: "(length D - Suc m) * Z + Z = (length D - m) * Z" by simp
    have "(length D - m) * Z \<le> length D * Z" by (intro mult_le_mono1) simp
    then show "u32 ((length D - Suc m) * Z + Z) = (length D - m) * Z" unfolding e using me(4,8) by (intro u32_id) linarith
  qed
  define nxt where "nxt kv = itr\<lparr>itr_curr_kv := kv\<lparr>kv_addr_start := 0\<rparr>, itr_traversed_len := (length D - m) * Z\<rparr>" for kv
  have done_: ?thesis if "kv_iterate_step db itr sec = Some (False, nxt kv', c, ?db)" "kv_wf kv'" "filter is_written ns = []" for kv'
    using that r(2,3) by (intro exI [of _ False] exI [of _ "nxt kv'"] exI [of _ c] exI [of _ t]) (simp add: nxt_def)
  have step: "kv_iterate_step db itr sec =
      (if sec_store c = FDB_SECTOR_STORE_USING \<or> sec_store c = FDB_SECTOR_STORE_FULL then do {
         addr \<leftarrow> (if kv_addr_start ?kv = 0 then Some (k * Z + 16) else get_next_kv_addr ?db c ?kv);
         if kv_addr_start ?kv \<noteq> 0 \<and> addr = FAILED_ADDR then Some (False, nxt ?kv, c, ?db)
         else do {
           (found, kv, db) \<leftarrow> kv_iterate_sector ?db c (?kv\<lparr>kv_addr_start := addr\<rparr>);
           if found then Some (True, itr\<lparr>itr_curr_kv := kv, itr_iterated_cnt := u32 (itr_iterated_cnt itr + 1),
               itr_iterated_obj_bytes := u32 (itr_iterated_obj_bytes itr + kv_len kv),
               itr_iterated_value_bytes := u32 (itr_iterated_value_bytes itr + kv_value_len kv)\<rparr>, c, db)
           else Some (False, nxt kv, c, db) } }
       else Some (False, nxt ?kv, c, ?db))"
    unfolding kv_iterate_step_def Let_def itr(1,2) r(1) Option.bind.bind_lunit case_prod_conv nxt_def
    by (simp add: Z_def [symmetric] ca(1) u cong: if_cong)
  have scan: ?thesis if h: "ks_nodes (D ! k) = xs @ ns" "ns \<noteq> []"
    and e: "kv_iterate_step db itr sec = do {
           (found, kv, db) \<leftarrow> kv_iterate_sector ?db c (?kv\<lparr>kv_addr_start := ?a xs\<rparr>);
           if found then Some (True, itr\<lparr>itr_curr_kv := kv, itr_iterated_cnt := u32 (itr_iterated_cnt itr + 1),
               itr_iterated_obj_bytes := u32 (itr_iterated_obj_bytes itr + kv_len kv),
               itr_iterated_value_bytes := u32 (itr_iterated_value_bytes itr + kv_value_len kv)\<rparr>, c, db)
           else Some (False, nxt kv, c, db) }" for xs
  proof -
    have w: "kv_wf (?kv\<lparr>kv_addr_start := ?a xs\<rparr>)" "kv_addr_start (?kv\<lparr>kv_addr_start := ?a xs\<rparr>) = ?a xs" using itr(3) by simp_all
    have zz: "kvdb_sec_size ?db = Z" by (simp add: Z_def)
    from iterate_sector_eq [OF mem' k(1) v h w(1), unfolded zz, OF w(2)] obtain kv' where kv': "kv_wf kv'"
      "filter is_written ns = [] \<and> kv_iterate_sector ?db c (?kv\<lparr>kv_addr_start := ?a xs\<rparr>) = Some (False, kv', ?db)
       \<or> (\<exists>ds key val ns' kv0. ns = ds @ (FDB_KV_WRITE, key, val) # ns' \<and> filter is_written ds = []
           \<and> kv_iterate_sector ?db c (?kv\<lparr>kv_addr_start := ?a xs\<rparr>) = Some (True, kv', ?db) \<and> kv_wf kv0
           \<and> kv' = node_kv kv0 (?a (xs @ ds)) FDB_KV_WRITE key val)" by blast
    from kv'(2) show ?thesis
    proof (elim disjE exE conjE)
      assume "filter is_written ns = []" "kv_iterate_sector ?db c (?kv\<lparr>kv_addr_start := ?a xs\<rparr>) = Some (False, kv', ?db)"
      then show ?thesis using e kv'(1) by (intro done_ [of kv']) simp_all
    next
      fix ds key val ns' kv0
      assume f: "ns = ds @ (FDB_KV_WRITE, key, val) # ns'" "filter is_written ds = []"
        "kv_iterate_sector ?db c (?kv\<lparr>kv_addr_start := ?a xs\<rparr>) = Some (True, kv', ?db)" "kv_wf kv0"
        "kv' = node_kv kv0 (?a (xs @ ds)) FDB_KV_WRITE key val"
      let ?itr = "itr\<lparr>itr_curr_kv := kv', itr_iterated_cnt := u32 (itr_iterated_cnt itr + 1),
               itr_iterated_obj_bytes := u32 (itr_iterated_obj_bytes itr + kv_len kv'),
               itr_iterated_value_bytes := u32 (itr_iterated_value_bytes itr + kv_value_len kv')\<rparr>"
      have nd: "ks_nodes (D ! k) = (xs @ ds) @ (FDB_KV_WRITE, key, val) # ns'" using h(1) f(1) by simp
      have "itr_at Z D ?itr k m ns'"
        unfolding itr_at_def using k itr kv'(1) nd f(5)
        by (intro conjI disjI2 exI [of _ "xs @ ds"] exI [of _ FDB_KV_WRITE] exI [of _ key] exI [of _ val] exI [of _ kv0]) simp_all
      moreover have "node_in Z D (?a (xs @ ds)) (FDB_KV_WRITE, key, val)" unfolding node_in_def using k(1) nd by blast
      then have "found_kv Z D key val kv'" unfolding found_kv_def using f(4,5) kv'(1) by blast
      ultimately show ?thesis using e f(1-3) r(2)
        by (intro exI [of _ True] exI [of _ ?itr] exI [of _ c] exI [of _ t])
          (simp, intro exI [of _ key] exI [of _ val] exI [of _ ns'], simp)
    qed
  qed
  have st: "ks_store (D ! k) = (if ks_nodes (D ! k) = [] then FDB_SECTOR_STORE_EMPTY else FDB_SECTOR_STORE_USING)"
    using kv_sectorD(6) [OF kv_memD(6) [OF mem k(1)]] .
  from at have "kv_addr_start ?kv = 0 \<and> ns = ks_nodes (D ! k)
      \<or> (\<exists>xs st key val kv0. ks_nodes (D ! k) = xs @ (st, key, val) # ns \<and> ?kv = node_kv kv0 (?a xs) st key val)"
    by (simp add: itr_at_def Z_def)
  then show ?thesis
  proof (elim disjE exE conjE)
    assume h: "kv_addr_start ?kv = 0" "ns = ks_nodes (D ! k)"
    show ?thesis
    proof (cases "ns = []")
      case True
      then show ?thesis using step h st ca itr(3) by (intro done_ [of ?kv]) simp_all
    next
      case False
      then show ?thesis using step h st ca by (intro scan [of "[]"]) simp_all
    qed
  next
    fix xs st' key val kv0
    assume h: "ks_nodes (D ! k) = xs @ (st', key, val) # ns" "?kv = node_kv kv0 (?a xs) st' key val"
    have us: "sec_store c = FDB_SECTOR_STORE_USING" using st ca(2) h(1) by simp
    have n0: "kv_addr_start ?kv \<noteq> 0" using h(2) nodes_end_ge [of "k * Z + 16" xs] by simp
    have nx: "get_next_kv_addr ?db c ?kv = Some (if ns = [] then FAILED_ADDR else ?a (xs @ [(st', key, val)]))"
      unfolding h(2) using next_node_eq [OF mem' k(1) v h(1), of kv0] by (simp add: Z_def)
    show ?thesis
    proof (cases "ns = []")
      case True
      then show ?thesis using step us n0 nx itr(3) by (intro done_ [of ?kv]) simp_all
    next
      case False
      obtain st1 key1 val1 ns1 where n1: "ns = (st1, key1, val1) # ns1" using False by (metis list.exhaust prod_cases3)
      have "ks_nodes (D ! k) = (xs @ [(st', key, val)]) @ (st1, key1, val1) # ns1" using h(1) n1 by simp
      then have "node_in Z D (?a (xs @ [(st', key, val)])) (st1, key1, val1)" unfolding node_in_def using k(1) by blast
      then have "?a (xs @ [(st', key, val)]) \<noteq> FAILED_ADDR" using node_in_facts(6) [OF mem] by (simp add: Z_def)
      then show ?thesis using step us n0 nx False h(1) by (intro scan [of "xs @ [(st', key, val)]"]) simp_all
    qed
  qed
qed

subsection \<open>All calls\<close>

lemma iterate_loop_eq:
  assumes "kvdb_sec_size db = Z"
  shows "kv_mem db D \<Longrightarrow> kvdb_sec_size db = Z \<Longrightarrow> itr_at Z D itr k m ns \<Longrightarrow>
    \<exists>found itr' t. kv_iterate_loop db itr sec = Some (found, itr', db\<lparr>kv_sector_cache_table := t\<rparr>) \<and> sc_agrees Z D t
      \<and> (if found then \<exists>key val rest k' m' ns'. pending D k m ns = (FDB_KV_WRITE, key, val) # rest
            \<and> found_kv Z D key val (itr_curr_kv itr') \<and> itr_at Z D itr' k' m' ns' \<and> pending D k' m' ns' = rest
         else pending D k m ns = [])"
  using assms
proof (induction m arbitrary: db itr sec k ns)
  case (0 db itr sec k ns)
  have kN: "k < length D" "Suc 0 \<le> length D" using 0(3) by (simp_all add: itr_at_def)
  obtain found itr' c t where s: "kv_iterate_step db itr sec = Some (found, itr', c, db\<lparr>kv_sector_cache_table := t\<rparr>)"
    "sc_agrees Z D t"
    "if found then \<exists>key val ns' kv0. filter is_written ns = (FDB_KV_WRITE, key, val) # filter is_written ns'
          \<and> itr_at Z D itr' k 0 ns' \<and> found_kv Z D key val (itr_curr_kv itr')
       else filter is_written ns = [] \<and> sec_view (k * Z) (D ! k) c
          \<and> itr_traversed_len itr' = (length D - 0) * Z \<and> kv_addr_start (itr_curr_kv itr') = 0
          \<and> kv_wf (itr_curr_kv itr')"
    using iterate_step_eq [OF 0(1), of itr k 0 ns sec] 0(2,3) by blast
  let ?db = "db\<lparr>kv_sector_cache_table := t\<rparr>"
  show ?case
  proof (cases found)
    case True
    then have "kv_iterate_loop db itr sec = Some (True, itr', ?db)"
      using s(1) by (subst kv_iterate_loop.simps) simp
    moreover obtain key val ns' where h: "filter is_written ns = (FDB_KV_WRITE, key, val) # filter is_written ns'"
      "itr_at Z D itr' k 0 ns'" "found_kv Z D key val (itr_curr_kv itr')" using s(3) True by auto
    moreover have "pending D k 0 ns = (FDB_KV_WRITE, key, val) # pending D k 0 ns'"
      unfolding pending_0 h(1) ..
    ultimately show ?thesis using s(2)
      by (intro exI [of _ True] exI [of _ itr'] exI [of _ t]) (simp, blast)
  next
    case False
    have mem': "kv_mem ?db D" using 0(1) s(2) 0(2) kv_mem_sc by blast
    have "get_next_sector_addr ?db c ((length D - 0) * Z) = FAILED_ADDR"
      using walk_step [OF mem' kN] s(3) False 0(2) by (simp add: kv_next_eq sec_view_def)
    then have "kv_iterate_loop db itr sec = Some (False, itr'\<lparr>itr_sector_addr := FAILED_ADDR\<rparr>, ?db)"
      using s(1,3) False by (subst kv_iterate_loop.simps) (simp add: Let_def)
    moreover have "pending D k 0 ns = []" using s(3) False by (simp add: pending_0)
    ultimately show ?thesis using s(2)
      by (intro exI [of _ False] exI [of _ "itr'\<lparr>itr_sector_addr := FAILED_ADDR\<rparr>"] exI [of _ t]) simp
  qed
next
  case (Suc m db itr sec k ns)
  have kN: "k < length D" "Suc (Suc m) \<le> length D" using Suc.prems(3) by (simp_all add: itr_at_def)
  obtain found itr' c t where s: "kv_iterate_step db itr sec = Some (found, itr', c, db\<lparr>kv_sector_cache_table := t\<rparr>)"
    "sc_agrees Z D t"
    "if found then \<exists>key val ns' kv0. filter is_written ns = (FDB_KV_WRITE, key, val) # filter is_written ns'
          \<and> itr_at Z D itr' k (Suc m) ns' \<and> found_kv Z D key val (itr_curr_kv itr')
       else filter is_written ns = [] \<and> sec_view (k * Z) (D ! k) c
          \<and> itr_traversed_len itr' = (length D - Suc m) * Z \<and> kv_addr_start (itr_curr_kv itr') = 0
          \<and> kv_wf (itr_curr_kv itr')"
    using iterate_step_eq [OF Suc.prems(1), of itr k "Suc m" ns sec] Suc.prems(2,3) by blast
  let ?db = "db\<lparr>kv_sector_cache_table := t\<rparr>" let ?k = "ring_up (length D) k"
  show ?case
  proof (cases found)
    case True
    then have "kv_iterate_loop db itr sec = Some (True, itr', ?db)"
      using s(1) by (subst kv_iterate_loop.simps) simp
    moreover obtain key val ns' where h: "filter is_written ns = (FDB_KV_WRITE, key, val) # filter is_written ns'"
      "itr_at Z D itr' k (Suc m) ns'" "found_kv Z D key val (itr_curr_kv itr')" using s(3) True by auto
    moreover have "pending D k (Suc m) ns = (FDB_KV_WRITE, key, val) # pending D k (Suc m) ns'"
      unfolding pending_Suc h(1) by simp
    ultimately show ?thesis using s(2)
      by (intro exI [of _ True] exI [of _ itr'] exI [of _ t]) (simp, blast)
  next
    case False
    let ?itr = "itr'\<lparr>itr_sector_addr := ?k * Z\<rparr>"
    have mem': "kv_mem ?db D" using Suc.prems(1,2) s(2) kv_mem_sc by blast
    have k': "?k < length D" using kN(1) by (simp add: ring_up_props)
    have nx: "get_next_sector_addr ?db c ((length D - Suc m) * Z) = ?k * Z"
      using walk_step [OF mem' kN] s(3) False Suc.prems(2) by (simp add: kv_next_eq sec_view_def)
    have "?k * Z \<noteq> FAILED_ADDR" using sector_addr(3) [OF mem' k'] Suc.prems(2) by (simp add: fdb_const)
    then have step: "kv_iterate_loop db itr sec = kv_iterate_loop ?db ?itr c"
      using s(1,3) False nx by (subst kv_iterate_loop.simps) (simp add: Let_def)
    have at: "itr_at Z D ?itr ?k m (ks_nodes (D ! ?k))"
      using s(3) False k' kN(2) by (simp add: itr_at_def)
    have z: "kvdb_sec_size ?db = Z" using Suc.prems(2) by simp
    have p: "pending D k (Suc m) ns = pending D ?k m (ks_nodes (D ! ?k))" using s(3) False by (simp add: pending_Suc)
    show ?thesis unfolding step p using Suc.IH [OF mem' z at z, of c] by simp
  qed
qed

text \<open>Calling \<open>fdb_kv_iterate\<close> until it returns false: the KVs that it delivers.\<close>

fun kv_iterate_all :: "nat \<Rightarrow> fdb_kvdb \<Rightarrow> fdb_kv_iterator \<Rightarrow> (fdb_kv list \<times> fdb_kvdb) option" where
  "kv_iterate_all 0 db itr = None"
| "kv_iterate_all (Suc n) db itr = do {
     (found, itr, db) \<leftarrow> fdb_kv_iterate db itr;
     if found then do {
       (kvs, db) \<leftarrow> kv_iterate_all n db itr;
       Some (itr_curr_kv itr # kvs, db)
     }
     else Some ([], db)
   }"

lemma iterate_all_eq:
  "kv_mem db D \<Longrightarrow> kvdb_sec_size db = Z \<Longrightarrow> itr_at Z D itr k m ns \<Longrightarrow> length (pending D k m ns) = n \<Longrightarrow>
    \<exists>kvs t. kv_iterate_all (Suc n) db itr = Some (kvs, db\<lparr>kv_sector_cache_table := t\<rparr>) \<and> sc_agrees Z D t
      \<and> list_all2 (\<lambda>n kv. found_kv Z D (fst (snd n)) (snd (snd n)) kv) (pending D k m ns) kvs"
proof (induction n arbitrary: db itr k m ns)
  case 0
  obtain found itr' t where r: "fdb_kv_iterate db itr = Some (found, itr', db\<lparr>kv_sector_cache_table := t\<rparr>)" "sc_agrees Z D t"
    "\<not> found"
    using iterate_loop_eq [OF 0(2,1,2,3), of "junk_sec (kvdb_stk db)"] 0(4)
    by (auto simp: fdb_kv_iterate_def split: if_splits)
  have "kv_iterate_all (Suc 0) db itr = Some ([], db\<lparr>kv_sector_cache_table := t\<rparr>)" using r(1,3) by simp
  then show ?case using r(2) 0(4) by (intro exI [of _ "[]"] exI [of _ t]) simp
next
  case (Suc n)
  have ne: "pending D k m ns \<noteq> []" using Suc.prems(4) by auto
  obtain found itr' t where l: "kv_iterate_loop db itr (junk_sec (kvdb_stk db)) = Some (found, itr', db\<lparr>kv_sector_cache_table := t\<rparr>)"
    "sc_agrees Z D t"
    "if found then \<exists>key val rest k' m' ns'. pending D k m ns = (FDB_KV_WRITE, key, val) # rest
       \<and> found_kv Z D key val (itr_curr_kv itr') \<and> itr_at Z D itr' k' m' ns' \<and> pending D k' m' ns' = rest
     else pending D k m ns = []"
    using iterate_loop_eq [OF Suc.prems(2,1,2,3), of "junk_sec (kvdb_stk db)"] by blast
  have found: found using l(3) ne by (cases found) simp_all
  then obtain key val rest k' m' ns' where r: "pending D k m ns = (FDB_KV_WRITE, key, val) # rest"
    "found_kv Z D key val (itr_curr_kv itr')" "itr_at Z D itr' k' m' ns'" "pending D k' m' ns' = rest"
    using l(3) by auto
  have it: "fdb_kv_iterate db itr = Some (True, itr', db\<lparr>kv_sector_cache_table := t\<rparr>)"
    using l(1) found by (simp add: fdb_kv_iterate_def)
  let ?db = "db\<lparr>kv_sector_cache_table := t\<rparr>"
  have mem': "kv_mem ?db D" using Suc.prems(1,2) l(2) kv_mem_sc by blast
  have z: "kvdb_sec_size ?db = Z" using Suc.prems(2) by simp
  have len: "length (pending D k' m' ns') = n" using Suc.prems(4) r(1,4) by simp
  obtain kvs t' where a: "kv_iterate_all (Suc n) ?db itr' = Some (kvs, ?db\<lparr>kv_sector_cache_table := t'\<rparr>)" "sc_agrees Z D t'"
    "list_all2 (\<lambda>n kv. found_kv Z D (fst (snd n)) (snd (snd n)) kv) rest kvs"
    using Suc.IH [OF mem' z r(3) len] unfolding r(4) by blast
  have "kv_iterate_all (Suc (Suc n)) db itr = Some (itr_curr_kv itr' # kvs, db\<lparr>kv_sector_cache_table := t'\<rparr>)"
    by (subst kv_iterate_all.simps(2)) (simp add: it a(1) del: kv_iterate_all.simps)
  then show ?case using a(2,3) r(1,2)
    by (intro exI [of _ "itr_curr_kv itr' # kvs"] exI [of _ t']) simp
qed

text \<open>A walk over the ring of sectors passes every node once.\<close>

lemma walk_nodes:
  assumes "k < length D"
  shows "mset (concat (map (\<lambda>j. ks_nodes (D ! j)) (kvr.walk (length D) k (length D)))) = mset (all_nodes D)"
proof -
  have "mset (concat (map (\<lambda>j. ks_nodes (D ! j)) xs)) = (\<Sum>j \<in># mset xs. mset (ks_nodes (D ! j)))" for xs
    by (induction xs) simp_all
  then have "mset (concat (map (\<lambda>j. ks_nodes (D ! j)) (kvr.walk (length D) k (length D))))
      = mset (concat (map (\<lambda>j. ks_nodes (D ! j)) [0..<length D]))" by (simp only: walk_perm [OF assms])
  also have "map (\<lambda>j. ks_nodes (D ! j)) [0..<length D] = map ks_nodes D"
    by (rule nth_equalityI) simp_all
  finally show ?thesis by (simp only: all_nodes_def)
qed

text \<open>Any enumeration of the live KVs lists the map.\<close>

lemma live_list:
  assumes "mset l = live_ms D" "kv_uniq D"
  shows "distinct (map fst l)" "map_of l = kv_map D"
proof -
  have "mset (map fst l) = mset (map fst (live D))" using assms(1) by (simp add: live_ms_def)
  then show d: "distinct (map fst l)" using assms(2) unfolding kv_uniq_def by (metis mset_eq_imp_distinct_iff)
  show "map_of l = kv_map D"
    by (rule map_ext_Some) (metis d assms kv_map_ms map_of_eq_Some_iff set_mset_mset)
qed

lemma singleton_list:
  assumes "distinct (map fst l)" "map_of l = [k \<mapsto> v]"
  shows "l = [(k, v)]"
proof (cases l)
  case Nil
  then show ?thesis using assms(2) by (auto dest: fun_cong [of _ _ k])
next
  case (Cons x xs)
  have "(a, b) \<in> set l \<longleftrightarrow> a = k \<and> b = v" for a b
    using map_of_eq_Some_iff [OF assms(1), of a b] assms(2) by (auto split: if_splits)
  then have "set l = {(k, v)}" by auto
  then have x: "x = (k, v)" "set xs \<subseteq> {(k, v)}" using Cons by auto
  then have "fst ` set xs \<subseteq> {k}" "k \<notin> fst ` set xs" using assms(1) Cons by auto
  then have "xs = []" by (cases xs) auto
  with Cons x(1) show ?thesis by simp
qed

lemma iterate_from_start:
  assumes mem: "kv_mem db D" and itr: "kv_wf (itr_curr_kv itr)"
  shows "\<exists>kvs l t. kv_iterate_all (Suc (size (live_ms D))) db (fdb_kv_iterator_init db itr)
      = Some (kvs, db\<lparr>kv_sector_cache_table := t\<rparr>) \<and> sc_agrees (kvdb_sec_size db) D t \<and> mset l = live_ms D
    \<and> list_all2 (\<lambda>(key, val) kv. found_kv (kvdb_sec_size db) D key val kv) l kvs"
proof -
  let ?Z = "kvdb_sec_size db" let ?N = "length D"
  obtain k where k: "k < ?N" "kvdb_oldest_addr db = k * ?Z" "Suc (?N - 1) = ?N" "(?N - Suc (?N - 1)) * ?Z = 0"
    using start_walk [OF mem] .
  let ?p = "pending D k (?N - 1) (ks_nodes (D ! k))"
  have at: "itr_at ?Z D (fdb_kv_iterator_init db itr) k (?N - 1) (ks_nodes (D ! k))"
    using k itr by (simp add: itr_at_def fdb_kv_iterator_init_def)
  have p: "?p = filter is_written (concat (map (\<lambda>j. ks_nodes (D ! j)) (kvr.walk ?N k ?N)))"
    using kvr.walk_Suc [of ?N k "?N - 1"] unfolding k(3) by (simp add: pending_def)
  have "mset (map snd ?p) = live_ms D"
    unfolding p live_ms_def live_def mset_map mset_filter walk_nodes [OF k(1)] ..
  moreover from this have "length ?p = size (live_ms D)" by (metis length_map size_mset)
  from iterate_all_eq [OF mem refl at this] obtain kvs t where
    "kv_iterate_all (Suc (size (live_ms D))) db (fdb_kv_iterator_init db itr) = Some (kvs, db\<lparr>kv_sector_cache_table := t\<rparr>)"
    "sc_agrees ?Z D t" "list_all2 (\<lambda>n kv. found_kv ?Z D (fst (snd n)) (snd (snd n)) kv) ?p kvs" by blast
  moreover from this(3) have "list_all2 (\<lambda>(key, val) kv. found_kv ?Z D key val kv) (map snd ?p) kvs"
    by (simp add: list_all2_map1 case_prod_beta)
  ultimately show ?thesis by (intro exI [of _ kvs] exI [of _ "map snd ?p"] exI [of _ t]) simp
qed

end
