(* ===== verification/Kvdb_Props.thy ===== *)
theory Kvdb_Props
  imports Kvdb_Boot Kvdb_Iter
begin

text \<open>
  The properties of setting, getting and deleting a key, with small databases on the RAM device as
  their concrete inputs: \<open>N\<close> sectors of 256 bytes.
\<close>

subsection \<open>Small databases\<close>

definition ram_kv :: "nat \<Rightarrow> fdb_kvdb" where
  "ram_kv N = \<lparr>kv_parent = ram_db (N * 256) 256, kv_default_kvs = [], kv_gc_request = False, kv_in_recovery_check = False,
     kv_cur_kv = junk_kv 0, kv_cur_sector = junk_sec 0, kv_last_is_complete_del = False,
     kv_cache_table = replicate FDB_KV_CACHE_TABLE_SIZE
       \<lparr>node_name_crc = 0, node_active = 0, node_addr = FDB_DATA_UNUSED\<rparr>,
     kv_sector_cache_table = replicate FDB_SECTOR_CACHE_TABLE_SIZE ((junk_sec 0)\<lparr>sec_addr := FDB_DATA_UNUSED\<rparr>)\<rparr>"

definition demo_kv :: "nat \<Rightarrow> fdb_kvdb" where
  "demo_kv N = snd (the (format_all_loop (ram_kv N) 0 FDB_NO_ERR))"

lemma ram_kv_facts:
  assumes "2 \<le> N" "N < 100"
  shows "kv_geometry (ram_kv N) N" "kvdb_sec_size (ram_kv N) = 256" "kvdb_oldest_addr (ram_kv N) = 0"
    "sc_inside i M Z (kv_sector_cache_table (ram_kv N))" "length (kv_cache_table (ram_kv N)) = FDB_KV_CACHE_TABLE_SIZE"
    "\<not> kv_gc_request (ram_kv N)" "\<not> kv_last_is_complete_del (ram_kv N)" "kv_wf (kv_cur_kv (ram_kv N))"
    "db_lock_set (kv_parent (ram_kv N)) = db_unlock_set (kv_parent (ram_kv N))" "kv_default_kvs (ram_kv N) = []"
proof -
  show "sc_inside i M Z (kv_sector_cache_table (ram_kv N))" by (rule sc_blank) (simp_all add: ram_kv_def)
  have "N * 256 < 2147483648" using assms(2) by simp
  note r = ram_db_ok [OF this]
  show "kv_geometry (ram_kv N) N"
    using r assms(1) by (simp add: kv_geometry_def kv_ok_def kv_img_def ram_kv_def) (simp add: ram_db_def)
qed (simp_all add: ram_kv_def ram_db_def)

lemma demo_kv_state:
  assumes "2 \<le> N" "N < 100"
  shows "kv_state (demo_kv N) (replicate N clear_sec)" "kv_cfg (demo_kv N) = kv_cfg (ram_kv N)"
    "kvdb_sec_size (demo_kv N) = 256" "db_init_ok (kv_parent (demo_kv N))"
    "db_lock_set (kv_parent (demo_kv N)) = db_unlock_set (kv_parent (demo_kv N))" "kv_default_kvs (demo_kv N) = []"
proof -
  note ram = ram_kv_facts [OF assms]
  have c: "kv_cache_table (ram_kv N) = kvc_clear (kv_cache_table (ram_kv N))"
    by (simp add: ram_kv_def kvc_clear_def)
  have o: "\<exists>k < N. kvdb_oldest_addr (ram_kv N) = k * kvdb_sec_size (ram_kv N)"
    using assms(1) by (intro exI [of _ 0]) (simp add: ram)
  obtain db where d: "format_all_loop (ram_kv N) 0 FDB_NO_ERR = Some (FDB_NO_ERR, db)"
    "kv_state db (replicate N clear_sec)" "kv_cfg db = kv_cfg (ram_kv N)"
    using kv_format_all_state [OF ram(1,4) c ram(5) o ram(6-8)] by blast
  have e: "demo_kv N = db" using d(1) by (simp add: demo_kv_def)
  show "kv_state (demo_kv N) (replicate N clear_sec)" "kv_cfg (demo_kv N) = kv_cfg (ram_kv N)" using d e by simp_all
  note f = kv_cfg_fields [OF d(3), folded e]
  show "kvdb_sec_size (demo_kv N) = 256" "db_init_ok (kv_parent (demo_kv N))"
    "db_lock_set (kv_parent (demo_kv N)) = db_unlock_set (kv_parent (demo_kv N))" "kv_default_kvs (demo_kv N) = []"
    using f ram(2) by (simp_all add: ram_kv_def ram_db_def)
qed

lemmas demo_kv3 = demo_kv_state [of 3, simplified] and demo_kv2 = demo_kv_state [of 2, simplified]

lemma demo_keys: "no_clash (replicate N clear_sec) key" "key_ok (cstr ''k'')" "key_ok (cstr ''m'')"
proof -
  have "live (replicate N clear_sec) = []" using clear_sectors(5) [of N] by (simp add: live_ms_def)
  then show "no_clash (replicate N clear_sec) key" by (simp add: no_clash_def)
qed (simp_all add: key_ok_def c_string_def cstr_def fdb_const)

subsection \<open>Setting, getting and deleting\<close>

lemma set_blob_state:
  assumes st: "kv_state db D" and db: "db_init_ok (kv_parent db)" "db_lock_set (kv_parent db) = db_unlock_set (kv_parent db)"
    and key: "no_clash D key" "key_ok key"
    and blob: "blob_buf blob = Some buf" "blob_size blob \<le> length buf" "node_size key (take (blob_size blob) buf) < 2147483648"
  shows "\<exists>err db' D'. fdb_kv_set_blob db key blob = Some (err, db') \<and> kv_state db' D' \<and> kv_cfg db' = kv_cfg db
    \<and> (err = FDB_NO_ERR \<and> kv_map D' = (kv_map D)(key \<mapsto> take (blob_size blob) buf)
       \<or> err = FDB_SAVED_FULL \<and> kv_map D' = kv_map D
         \<and> (n_empty D = 1 \<or> \<not> node_size key (take (blob_size blob) buf) + 104 < kvdb_sec_size db))"
proof -
  have "kv_state (kvdb_lock db) D" using st by simp
  from set_kv_value_state [OF this key blob(3)] obtain err db' D' where
    s: "set_kv_value (kvdb_lock db) key (take (blob_size blob) buf) = Some (err, db')" "kv_state db' D'"
    "kv_cfg db' = kv_cfg (kvdb_lock db)"
    "err = FDB_NO_ERR \<and> kv_map D' = (kv_map D)(key \<mapsto> take (blob_size blob) buf)
       \<or> err = FDB_SAVED_FULL \<and> kv_map D' = kv_map D
         \<and> (n_empty D = 1 \<or> \<not> node_size key (take (blob_size blob) buf) + 104 < kvdb_sec_size db)" by auto
  have "fdb_kv_set_blob db key blob = Some (err, kvdb_unlock db')"
    using s(1) db(1) blob(1,2) by (simp add: fdb_kv_set_blob_def set_kv_def)
  then show ?thesis using s(2,4) kv_cfg_locked [OF s(3) db(2)]
    by (intro exI [of _ err] exI [of _ "kvdb_unlock db'"] exI [of _ D']) simp
qed

lemma get_blob_state:
  assumes st: "kv_state db D" and db: "db_init_ok (kv_parent db)" "db_lock_set (kv_parent db) = db_unlock_set (kv_parent db)"
    and key: "no_clash D key" "key_ok key" and blob: "blob_buf blob = Some buf" "blob_size blob \<le> length buf"
  shows "\<exists>db'. kv_state db' D \<and> kv_cfg db' = kv_cfg db
    \<and> fdb_kv_get_blob db key blob = (case kv_map D key of
        None \<Rightarrow> Some (0, blob\<lparr>blob_saved_len := 0\<rparr>, db')
      | Some val \<Rightarrow> let n = min (blob_size blob) (length val) in
          Some (n, blob\<lparr>blob_buf := Some (take n val @ drop n buf), blob_saved_len := length val\<rparr>, db'))"
proof -
  have st': "kv_state (kvdb_lock db) D" using st by simp
  have "min (blob_size blob) (length (the (kv_map D key))) \<le> length buf" using blob(2) by simp
  from get_kv_eq [OF kv_stateD(1) [OF st'] key this] obtain db' where
    g: "kv_rep db' D" "same_flash (kvdb_lock db) db'"
    "get_kv (kvdb_lock db) key (Some buf) (blob_size blob) = (case kv_map D key of
           None \<Rightarrow> Some (0, Some buf, 0, db')
         | Some val \<Rightarrow> Some (min (blob_size blob) (length val),
             Some (take (blob_size blob) val @ drop (min (blob_size blob) (length val)) buf), length val, db'))" by blast
  have "kv_state db' D" using g(1,2) st' by (simp add: kv_state_def same_flash_fields)
  moreover have "kv_cfg (kvdb_unlock db') = kv_cfg db"
    using same_flash_fields(1) [OF g(2)] db(2) by (rule kv_cfg_locked)
  moreover have "take (min n (length val)) val = take n val" for n and val :: bytes by (simp add: min_def)
  ultimately show ?thesis using g(3) db(1) blob(1)
    by (intro exI [of _ "kvdb_unlock db'"]) (simp add: fdb_kv_get_blob_def Let_def split: option.split)
qed

lemma del_call_state:
  assumes "kv_state db D" "db_init_ok (kv_parent db)" "db_lock_set (kv_parent db) = db_unlock_set (kv_parent db)"
    and "no_clash D key" "key_ok key"
  shows "\<exists>db' D'. fdb_kv_del db key = Some (if kv_map D key = None then FDB_KV_NAME_ERR else FDB_NO_ERR, db')
    \<and> kv_state db' D' \<and> kv_cfg db' = kv_cfg db \<and> n_empty D' = n_empty D \<and> kv_map D' = (kv_map D)(key := None)"
proof -
  have st': "kv_state (kvdb_lock db) D" using assms(1) by simp
  from del_kv_state [OF st' assms(4,5)] obtain db' D' where
    d: "del_kv (kvdb_lock db) (Some key) None True = Some (if kv_map D key = None then FDB_KV_NAME_ERR else FDB_NO_ERR, db')"
    "kv_state db' D'" "kv_cfg db' = kv_cfg (kvdb_lock db)" "n_empty D' = n_empty D"
    "kv_map D' = (kv_map D)(key := None)" by blast
  have "fdb_kv_del db key = Some (if kv_map D key = None then FDB_KV_NAME_ERR else FDB_NO_ERR, kvdb_unlock db')"
    using d(1) assms(2) by (simp add: fdb_kv_del_def)
  then show ?thesis using d(2,4,5) kv_cfg_locked [OF d(3) assms(3)]
    by (intro exI [of _ "kvdb_unlock db'"] exI [of _ D']) simp
qed

text \<open>C3: Setting a key implements the update of the abstract map: either the call succeeds and the
  key has the new value and no other key changes, whatever moved on flash on the way, or the flash
  is full and the map is what it was. Either way the database is again in a state between two calls,
  with its configuration, the lock count included, as before.\<close>

theorem kv_set_refines:
  assumes "kv_state db D" "db_init_ok (kv_parent db)" "db_lock_set (kv_parent db) = db_unlock_set (kv_parent db)"
    and "no_clash D key" "key_ok key"
    and "blob_buf blob = Some buf" "blob_size blob \<le> length buf" "node_size key (take (blob_size blob) buf) < 2147483648"
  shows "\<exists>err db' D'. fdb_kv_set_blob db key blob = Some (err, db') \<and> kv_state db' D' \<and> kv_cfg db' = kv_cfg db
    \<and> (err = FDB_NO_ERR \<and> kv_map D' = (kv_map D)(key \<mapsto> take (blob_size blob) buf)
       \<or> err = FDB_SAVED_FULL \<and> kv_map D' = kv_map D)"
  using set_blob_state [OF assms] by blast

theorem kv_set_refines_witness:
  "\<exists>err db' D'. fdb_kv_set_blob (demo_kv 3) (cstr ''k'') (demo_blob [1, 2]) = Some (err, db') \<and> kv_state db' D'
    \<and> (err = FDB_NO_ERR \<and> kv_map D' = [cstr ''k'' \<mapsto> [1, 2]] \<or> err = FDB_SAVED_FULL \<and> kv_map D' = Map.empty)"
proof -
  have "node_size (cstr ''k'') (take (blob_size (demo_blob [1, 2])) [1, 2]) < 2147483648"
    by (simp add: node_size_def demo_blob_def cstr_def)
  from kv_set_refines [OF demo_kv3(1,4,5) demo_keys(1,2) _ _ this] show ?thesis
    by (auto simp: demo_blob_def clear_sectors)
qed

text \<open>C13: With two empty sectors, setting a key that fits an empty sector succeeds.\<close>

theorem kv_set_succeeds:
  assumes "kv_state db D" "db_init_ok (kv_parent db)" "db_lock_set (kv_parent db) = db_unlock_set (kv_parent db)"
    and "no_clash D key" "key_ok key"
    and "blob_buf blob = Some buf" "blob_size blob \<le> length buf"
    and "1 < n_empty D" "node_size key (take (blob_size blob) buf) + 104 < kvdb_sec_size db"
  shows "\<exists>db' D'. fdb_kv_set_blob db key blob = Some (FDB_NO_ERR, db') \<and> kv_state db' D'
    \<and> kv_map D' = (kv_map D)(key \<mapsto> take (blob_size blob) buf)"
proof -
  note mem = kv_stateD(7) [OF assms(1)]
  have "1 * kvdb_sec_size db \<le> length D * kvdb_sec_size db" using kv_memD(3) [OF mem] by (intro mult_le_mono1) simp
  then have "node_size key (take (blob_size blob) buf) < 2147483648"
    using assms(9) kv_memD(4,8) [OF mem] by linarith
  from set_blob_state [OF assms(1-7) this] assms(8,9) show ?thesis by auto
qed

theorem kv_set_succeeds_witness:
  "\<exists>db' D'. fdb_kv_set_blob (demo_kv 3) (cstr ''k'') (demo_blob [1, 2]) = Some (FDB_NO_ERR, db') \<and> kv_state db' D'
    \<and> kv_map D' = [cstr ''k'' \<mapsto> [1, 2]]"
proof -
  have "1 < n_empty (replicate 3 clear_sec)"
    "node_size (cstr ''k'') (take (blob_size (demo_blob [1, 2])) [1, 2]) + 104 < kvdb_sec_size (demo_kv 3)"
    by (simp_all add: clear_sectors node_size_def demo_blob_def cstr_def demo_kv3)
  from kv_set_succeeds [OF demo_kv3(1,4,5) demo_keys(1,2) _ _ this] show ?thesis
    by (auto simp: demo_blob_def clear_sectors)
qed

text \<open>C8: Getting a key implements the lookup in the abstract map: the value, cut to the size of the
  caller's buffer, and its full length; and nothing when the key is not there. The map is kept.\<close>

theorem kv_get_refines:
  assumes "kv_state db D" "db_init_ok (kv_parent db)" "db_lock_set (kv_parent db) = db_unlock_set (kv_parent db)"
    and "no_clash D key" "key_ok key" "blob_buf blob = Some buf" "blob_size blob \<le> length buf"
  shows "\<exists>db'. kv_state db' D \<and> kv_cfg db' = kv_cfg db
    \<and> fdb_kv_get_blob db key blob = (case kv_map D key of
        None \<Rightarrow> Some (0, blob\<lparr>blob_saved_len := 0\<rparr>, db')
      | Some val \<Rightarrow> let n = min (blob_size blob) (length val) in
          Some (n, blob\<lparr>blob_buf := Some (take n val @ drop n buf), blob_saved_len := length val\<rparr>, db'))"
  using assms by (rule get_blob_state)

theorem kv_get_refines_witness:
  "\<exists>db'. kv_state db' (replicate 3 clear_sec)
    \<and> fdb_kv_get_blob (demo_kv 3) (cstr ''k'') (demo_blob [0, 0]) = Some (0, demo_blob [0, 0], db')"
  using kv_get_refines [OF demo_kv3(1,4,5) demo_keys(1,2), of "demo_blob [0, 0]" "[0, 0]"]
  by (auto simp: demo_blob_def clear_sectors)

text \<open>C9: Deleting a key implements the removal from the abstract map, and the call says whether the key
  was there.\<close>

theorem kv_del_refines:
  assumes "kv_state db D" "db_init_ok (kv_parent db)" "db_lock_set (kv_parent db) = db_unlock_set (kv_parent db)"
    and "no_clash D key" "key_ok key"
  shows "\<exists>db' D'. fdb_kv_del db key = Some (if kv_map D key = None then FDB_KV_NAME_ERR else FDB_NO_ERR, db')
    \<and> kv_state db' D' \<and> kv_cfg db' = kv_cfg db \<and> n_empty D' = n_empty D \<and> kv_map D' = (kv_map D)(key := None)"
  using assms by (rule del_call_state)

theorem kv_del_refines_witness:
  "\<exists>db' D'. fdb_kv_del (demo_kv 3) (cstr ''k'') = Some (FDB_KV_NAME_ERR, db') \<and> kv_state db' D' \<and> kv_map D' = Map.empty"
  using kv_del_refines [OF demo_kv3(1,4,5) demo_keys(1,2)] by (auto simp: clear_sectors)

end
