(* ===== verification/Kvdb_Upkeep.thy ===== *)
theory Kvdb_Upkeep
  imports Kvdb_Props
begin

text \<open>
  The upkeep of a key-value database: collecting garbage, resetting it to its defaults, starting
  it again after a power cycle and walking over its keys. What is at the caller's hands in all of
  them is the abstract map \<open>kv_map\<close>.
\<close>

subsection \<open>A database with one key\<close>

definition demo_kv1 :: "nat \<Rightarrow> fdb_kvdb" where
  "demo_kv1 N = snd (the (fdb_kv_set_blob (demo_kv N) (cstr ''k'') (demo_blob [1, 2])))"

lemma demo_kv1_state:
  assumes "2 \<le> N" "N < 100"
  shows "\<exists>D. kv_state (demo_kv1 N) D \<and> kv_map D = [cstr ''k'' \<mapsto> [1, 2]]"
    "kv_cfg (demo_kv1 N) = kv_cfg (ram_kv N)" "kv_default_kvs (demo_kv1 N) = []" "kvdb_sec_size (demo_kv1 N) = 256"
    "kvdb_max_size (demo_kv1 N) = N * 256" "db_init_ok (kv_parent (demo_kv1 N))"
    "db_lock_set (kv_parent (demo_kv1 N)) = db_unlock_set (kv_parent (demo_kv1 N))"
    "fdb_kv_set_blob (demo_kv N) (cstr ''k'') (demo_blob [1, 2]) = Some (FDB_NO_ERR, demo_kv1 N)"
proof -
  note d = demo_kv_state [OF assms]
  have "node_size (cstr ''k'') (take (blob_size (demo_blob [1, 2])) [1, 2]) < 2147483648"
    by (simp add: node_size_def demo_blob_def cstr_def)
  from set_blob_state [OF d(1,4,5) demo_keys(1,2) _ _ this] obtain err db' D' where
    s: "fdb_kv_set_blob (demo_kv N) (cstr ''k'') (demo_blob [1, 2]) = Some (err, db')" "kv_state db' D'"
    "kv_cfg db' = kv_cfg (demo_kv N)"
    "err = FDB_NO_ERR \<and> kv_map D' = (kv_map (replicate N clear_sec))(cstr ''k'' \<mapsto> [1, 2])"
    using assms(1) by (auto simp: demo_blob_def clear_sectors node_size_def cstr_def d(3))
  have e: "demo_kv1 N = db'" using s(1) by (simp add: demo_kv1_def)
  show "fdb_kv_set_blob (demo_kv N) (cstr ''k'') (demo_blob [1, 2]) = Some (FDB_NO_ERR, demo_kv1 N)"
    using s(1,4) by (simp add: e)
  show "\<exists>D. kv_state (demo_kv1 N) D \<and> kv_map D = [cstr ''k'' \<mapsto> [1, 2]]"
    using s(2,4) by (auto simp: e clear_sectors)
  show c: "kv_cfg (demo_kv1 N) = kv_cfg (ram_kv N)" using s(3) d(2) by (simp add: e)
  note f = kv_cfg_fields [OF c]
  show "kv_default_kvs (demo_kv1 N) = []" "kvdb_sec_size (demo_kv1 N) = 256" "kvdb_max_size (demo_kv1 N) = N * 256"
    "db_init_ok (kv_parent (demo_kv1 N))"
    "db_lock_set (kv_parent (demo_kv1 N)) = db_unlock_set (kv_parent (demo_kv1 N))"
    unfolding f by (simp_all add: ram_kv_def ram_db_def)
qed

lemma kv_state_length: "kv_state db D \<Longrightarrow> length D = kvdb_max_size db div kvdb_sec_size db"
  using kv_memD(2,4) [OF kv_stateD(7)] by simp

lemma nonempty_sector:
  assumes "kv_state db D" "kv_map D key = Some val"
  shows "n_empty D < length D"
proof -
  note m = kv_stateD(7,8) [OF assms(1)]
  obtain k where k: "k < length D" "(FDB_KV_WRITE, key, val) \<in> set (ks_nodes (D ! k))"
    using assms(2) kv_map_Some [OF m(2)] by (auto simp: in_all_nodes)
  then have "ks_store (D ! k) \<noteq> FDB_SECTOR_STORE_EMPTY"
    using kv_memD(6) [OF m(1) k(1)] by (auto simp: kv_sector_def split: if_splits)
  then show ?thesis unfolding n_empty_def using k(1) by (intro length_filter_less [of "D ! k"]) simp_all
qed

subsection \<open>Garbage collection\<close>

text \<open>C10: A requested collection on a database that is down to its last empty sector keeps the
  abstract map and leaves no KV on the whole flash that is not a written one: every sector that had
  deleted KVs has been reclaimed, and the database is again in a state between two calls.\<close>

theorem kv_gc_reclaims:
  assumes "kv_state db D" "n_empty D = 1"
  shows "\<exists>db' D'. gc_collect (db\<lparr>kv_gc_request := True\<rparr>) = Some db' \<and> kv_state db' D' \<and> kv_cfg db' = kv_cfg db
    \<and> kv_map D' = kv_map D \<and> length D' = length D \<and> (\<forall>n \<in> set (all_nodes D'). fst n = FDB_KV_WRITE)"
proof -
  let ?db = "db\<lparr>kv_gc_request := True\<rparr>" let ?Z = "kvdb_sec_size db"
  note s = kv_stateD [OF assms(1)]
  have "kv_rep ?db D" using s(1) by (rule kv_rep_fields) simp_all
  from gc_collect_by_free_size_eq [OF this _ s(2,3), of "kvdb_max_size db"] obtain db' D' where
    g: "gc_collect_by_free_size ?db (kvdb_max_size db) = Some db'" "kv_rep db' D'" "gc_frame ?db db'"
      "\<not> kv_gc_request db'" "length D' = length D" "live_ms D' = live_ms D" "settled D'" "0 < n_empty D'"
      "1 < n_empty D \<or> kvdb_max_size db \<le> length D * (?Z - 16) \<or> (\<forall>k < length D. ks_dirty (D' ! k) = FDB_SECTOR_DIRTY_FALSE)"
    by auto
  have "length D * (?Z - 16) < kvdb_max_size db"
  proof -
    have "0 < length D" using kv_memD(3) [OF s(7)] by linarith
    then show ?thesis using kv_memD(4) [OF s(7)] kv_mem_size [OF s(7)] mult_strict_left_mono [of "?Z - 16" ?Z "length D"] by simp
  qed
  then have "\<forall>k < length D'. ks_dirty (D' ! k) = FDB_SECTOR_DIRTY_FALSE" using g(5,9) assms(2) by simp
  then have "all_written (ks_nodes (D' ! k))" if "k < length D'" for k
    using g(7) that unfolding settled_def settled_sec_def by (metis dirty_when_eq(1))
  then have w: "\<forall>n \<in> set (all_nodes D'). fst n = FDB_KV_WRITE"
    using in_all_nodes [of _ D'] unfolding all_written_def by blast
  have "kv_state db' D'" "kv_cfg db' = kv_cfg db"
    using g(2-4,7,8) s(5,6) by (auto simp: kv_state_def gc_frame_def kv_cfg_def Let_def)
  then show ?thesis using g(1,5) w live_ms_same(2) [OF s(8) g(6)] by (auto simp: gc_collect_def)
qed

theorem kv_gc_reclaims_witness:
  "\<exists>db' D'. gc_collect ((demo_kv1 2)\<lparr>kv_gc_request := True\<rparr>) = Some db' \<and> kv_state db' D'
    \<and> kv_map D' = [cstr ''k'' \<mapsto> [1, 2]] \<and> (\<forall>n \<in> set (all_nodes D'). fst n = FDB_KV_WRITE)"
proof -
  obtain D where d: "kv_state (demo_kv1 2) D" "kv_map D = [cstr ''k'' \<mapsto> [1, 2]]" using demo_kv1_state(1) [of 2] by auto
  have "length D = 2" using kv_state_length [OF d(1)] demo_kv1_state(4,5) [of 2] by simp
  then have "n_empty D = 1" using nonempty_sector [OF d(1), of "cstr ''k''" "[1, 2]"] kv_stateD(3) [OF d(1)] d(2) by simp
  from kv_gc_reclaims [OF d(1) this] show ?thesis using d(2) by metis
qed

subsection \<open>Resetting\<close>

lemma default_call_state:
  assumes "kv_state db D" "db_lock_set (kv_parent db) = db_unlock_set (kv_parent db)"
    and "list_all2 default_ok (kv_default_kvs db) vals" "distinct (map dkv_key (kv_default_kvs db))"
  shows "\<exists>db' D'. fdb_kv_set_default db = Some (FDB_NO_ERR, db') \<and> kv_state db' D' \<and> length D' = length D
    \<and> kv_cfg db' = kv_cfg db \<and> kvdb_oldest_addr db' = 0
    \<and> kv_map D' \<subseteq>\<^sub>m map_of (zip (map dkv_key (kv_default_kvs db)) vals)
    \<and> (length (kv_default_kvs db) < length D
         \<and> list_all2 (default_fits (kvdb_sec_size db)) (kv_default_kvs db) vals
       \<longrightarrow> kv_map D' = map_of (zip (map dkv_key (kv_default_kvs db)) vals))"
proof -
  note s = kv_stateD [OF assms(1)]
  have sc: "sc_inside 0 (length D) (kvdb_sec_size db) (kv_sector_cache_table db)"
    using kv_memD(9) [OF s(7)] by (rule sc_agrees_inside)
  have "length (kv_cache_table db) = FDB_KV_CACHE_TABLE_SIZE"
    using s(1) kvc.coherent_ok unfolding kv_rep_def kvc_agrees_def kvc_ok_def by blast
  from set_default_state [OF kv_mem_geometry [OF s(7)] sc this kv_memD(7) [OF s(7)] s(4-6) assms(2-4)] show ?thesis .
qed

definition demo_default :: fdb_default_kv_node where
  "demo_default = \<lparr>dkv_key = cstr ''m'', dkv_value = [7, 8], dkv_value_len = 2\<rparr>"

text \<open>C14: Resetting a database leaves default KVs and nothing else: every key of the new map has the value
  that the table of defaults gives it, whatever was stored before. Without default KVs the database
  is empty; when there are fewer of them than sectors and each fits an empty sector, all of them
  are there.\<close>

theorem kv_reset_defaults:
  assumes "kv_state db D" "db_lock_set (kv_parent db) = db_unlock_set (kv_parent db)"
    and "list_all2 default_ok (kv_default_kvs db) vals" "distinct (map dkv_key (kv_default_kvs db))"
  shows "\<exists>db' D'. fdb_kv_set_default db = Some (FDB_NO_ERR, db') \<and> kv_state db' D' \<and> length D' = length D
    \<and> kv_cfg db' = kv_cfg db \<and> kvdb_oldest_addr db' = 0
    \<and> kv_map D' \<subseteq>\<^sub>m map_of (zip (map dkv_key (kv_default_kvs db)) vals)
    \<and> (length (kv_default_kvs db) < length D
         \<and> list_all2 (default_fits (kvdb_sec_size db)) (kv_default_kvs db) vals
       \<longrightarrow> kv_map D' = map_of (zip (map dkv_key (kv_default_kvs db)) vals))"
  using assms by (rule default_call_state)

theorem kv_reset_defaults_witness:
  "\<exists>db' D'. fdb_kv_set_default ((demo_kv1 3)\<lparr>kv_default_kvs := [demo_default]\<rparr>) = Some (FDB_NO_ERR, db')
    \<and> kv_state db' D' \<and> kv_map D' = [cstr ''m'' \<mapsto> [7, 8]]"
proof -
  let ?db = "(demo_kv1 3)\<lparr>kv_default_kvs := [demo_default]\<rparr>"
  obtain D where d: "kv_state (demo_kv1 3) D" using demo_kv1_state(1) [of 3] by auto
  then have st: "kv_state ?db D" by (simp add: kv_state_def kv_rep_def kv_mem_def kv_flash_def kv_ok_def kv_img_def)
  have len: "length (cstr ''m'') = 1" by (simp add: cstr_def)
  have "length D = 3" using kv_state_length [OF d] demo_kv1_state(4,5) [of 3] by simp
  moreover have "list_all2 default_ok (kv_default_kvs ?db) [[7, 8]]" "distinct (map dkv_key (kv_default_kvs ?db))"
    using demo_keys(3) by (simp_all add: default_ok_def demo_default_def default_kv_value_def node_size_def len)
  moreover have "list_all2 (default_fits (kvdb_sec_size ?db)) (kv_default_kvs ?db) [[7, 8]]"
    by (simp add: default_fits_def demo_default_def demo_kv1_state(4) node_size_def len)
  ultimately show ?thesis
    using kv_reset_defaults [OF st, of "[[7, 8]]"] by (auto simp: demo_kv1_state(7) demo_default_def)
qed

subsection \<open>Starting again\<close>

lemma reboot_state:
  assumes "kv_state db D"
    and "kv_ok db0" "kv_fresh_ram db0" "kv_img db0 = kv_img db" "kvdb_sec_size db0 = kvdb_sec_size db"
      "kvdb_max_size db0 = kvdb_max_size db"
  shows "\<exists>db'. kvdb_init_load db0 default_kv = Some (FDB_NO_ERR, db') \<and> kv_state db' D
    \<and> (db_lock_set (kv_parent db0) = db_unlock_set (kv_parent db0) \<longrightarrow> kv_cfg db' = kv_cfg (db0\<lparr>kv_in_recovery_check := False,
          kv_default_kvs := (case default_kv of Some d \<Rightarrow> d | None \<Rightarrow> [])\<rparr>))
    \<and> (sc_zeroed (kv_sector_cache_table db0) \<longrightarrow> kvdb_oldest_addr db' = 0)"
proof -
  note s = kv_stateD [OF assms(1)]
  have "kv_geometry db0 (length D)"
    using kv_mem_geometry [OF s(7)] assms(2,4-6) by (simp add: kv_geometry_def)
  moreover have "\<forall>k < length D. kv_sector (kv_img db0) (k * kvdb_sec_size db0) (kvdb_sec_size db0) (D ! k)"
    using kv_memD(6) [OF s(7)] assms(4,5) by simp
  ultimately show ?thesis using assms(3) s(2,3,8) by (intro kvdb_init_load_state)
qed

text \<open>C6: After a power cycle between two calls, initialisation recovers the database: from a freshly
  started object over the same flash, zeroed or with nothing cached, it succeeds with exactly the map
  that was stored, and the next call finds it in a state between two calls. From a zeroed object the
  oldest sector is always taken to be sector 0, whatever the sectors say.\<close>

theorem kv_reboot_recovers:
  assumes "kv_state db D"
    and "kv_ok db0" "kv_fresh_ram db0" "kv_img db0 = kv_img db" "kvdb_sec_size db0 = kvdb_sec_size db"
      "kvdb_max_size db0 = kvdb_max_size db"
  shows "\<exists>db'. kvdb_init_load db0 default_kv = Some (FDB_NO_ERR, db') \<and> kv_state db' D
    \<and> (sc_zeroed (kv_sector_cache_table db0) \<longrightarrow> kvdb_oldest_addr db' = 0)"
  using reboot_state [OF assms] by blast

theorem kv_reboot_recovers_witness:
  "\<exists>db' D. kvdb_init_load ((ram_kv 3)\<lparr>kv_parent := kv_parent (demo_kv1 3),
      kv_sector_cache_table := replicate FDB_SECTOR_CACHE_TABLE_SIZE (junk_sec 0)\<rparr>) None = Some (FDB_NO_ERR, db')
    \<and> kv_state db' D \<and> kv_map D = [cstr ''k'' \<mapsto> [1, 2]]"
proof -
  let ?db0 = "(ram_kv 3)\<lparr>kv_parent := kv_parent (demo_kv1 3),
      kv_sector_cache_table := replicate FDB_SECTOR_CACHE_TABLE_SIZE (junk_sec 0)\<rparr>"
  obtain D where d: "kv_state (demo_kv1 3) D" "kv_map D = [cstr ''k'' \<mapsto> [1, 2]]" using demo_kv1_state(1) [of 3] by auto
  have k: "kv_ok ?db0" "kv_img ?db0 = kv_img (demo_kv1 3)"
    using kv_memD(1) [OF kv_stateD(7) [OF d(1)]] by (simp_all add: kv_ok_def kv_img_def)
  have "sc_zeroed (kv_sector_cache_table ?db0)"
    by (simp add: sc_zeroed_def junk_sec_def FDB_SECTOR_CACHE_TABLE_SIZE_def store_of_def of_le32_def)
  then have "kv_fresh_ram ?db0" by (simp add: kv_fresh_ram_def ram_kv_def)
  from kv_reboot_recovers [OF d(1) k(1) this k(2), of None] show ?thesis using d(2) by auto
qed

subsection \<open>Iterating\<close>

text \<open>C12: Iterating from the start delivers every key of the map exactly once with an object that
  describes its value, and then ends: the keys delivered are distinct, and they are the keys of the
  map with their values. The fuel, one more than the number of live KVs, counts the calls of
  \<open>fdb_kv_iterate\<close>; the last of them returns false.\<close>

theorem kv_iterate_each_once:
  assumes "kv_state db D" "kv_wf (itr_curr_kv itr)"
  shows "\<exists>l kvs db'. kv_iterate_all (Suc (length l)) db (fdb_kv_iterator_init db itr) = Some (kvs, db')
    \<and> kv_state db' D \<and> kv_img db' = kv_img db
    \<and> distinct (map fst l) \<and> map_of l = kv_map D
    \<and> list_all2 (\<lambda>(key, val) kv. found_kv (kvdb_sec_size db) D key val kv) l kvs"
proof -
  note s = kv_stateD [OF assms(1)]
  obtain kvs l t where i: "kv_iterate_all (Suc (size (live_ms D))) db (fdb_kv_iterator_init db itr)
      = Some (kvs, db\<lparr>kv_sector_cache_table := t\<rparr>)" "sc_agrees (kvdb_sec_size db) D t" "mset l = live_ms D"
    "list_all2 (\<lambda>(key, val) kv. found_kv (kvdb_sec_size db) D key val kv) l kvs"
    using iterate_from_start [OF s(7) assms(2)] by blast
  note l = live_list [OF i(3) s(8)]
  have "kv_state (db\<lparr>kv_sector_cache_table := t\<rparr>) D"
    using assms(1) kv_mem_sc [OF s(7) i(2)] by (simp add: kv_state_def kv_rep_def)
  moreover have "size (live_ms D) = length l" unfolding i(3) [symmetric] by simp
  ultimately show ?thesis using i(1,4) l
    by (intro exI [of _ l] exI [of _ kvs] exI [of _ "db\<lparr>kv_sector_cache_table := t\<rparr>"]) (simp add: kv_img_def)
qed

theorem kv_iterate_each_once_witness:
  "\<exists>kv db'. kv_iterate_all 2 (demo_kv1 3) (fdb_kv_iterator_init (demo_kv1 3)
      \<lparr>itr_curr_kv = junk_kv 0, itr_iterated_cnt = 0, itr_iterated_obj_bytes = 0, itr_iterated_value_bytes = 0,
       itr_sector_addr = 0, itr_traversed_len = 0\<rparr>) = Some ([kv], db') \<and> kv_value_len kv = 2"
proof -
  let ?itr = "\<lparr>itr_curr_kv = junk_kv 0, itr_iterated_cnt = 0, itr_iterated_obj_bytes = 0, itr_iterated_value_bytes = 0,
     itr_sector_addr = 0, itr_traversed_len = 0\<rparr>"
  obtain D where d: "kv_state (demo_kv1 3) D" "kv_map D = [cstr ''k'' \<mapsto> [1, 2]]" using demo_kv1_state(1) [of 3] by auto
  have "kv_wf (itr_curr_kv ?itr)" by simp
  from kv_iterate_each_once [OF d(1) this] obtain l kvs db' where
    i: "kv_iterate_all (Suc (length l)) (demo_kv1 3) (fdb_kv_iterator_init (demo_kv1 3) ?itr) = Some (kvs, db')"
      "distinct (map fst l)" "map_of l = [cstr ''k'' \<mapsto> [1, 2]]"
      "list_all2 (\<lambda>(key, val) kv. found_kv (kvdb_sec_size (demo_kv1 3)) D key val kv) l kvs" unfolding d(2) by blast
  have l: "l = [(cstr ''k'', [1, 2])]" using i(2,3) by (rule singleton_list)
  then obtain kv where k: "kvs = [kv]" "found_kv (kvdb_sec_size (demo_kv1 3)) D (cstr ''k'') [1, 2] kv"
    using i(4) by (auto simp: list_all2_Cons1)
  have "kv_value_len kv = 2" using k(2) by (auto simp: found_kv_def)
  then show ?thesis using i(1) l k(1) by (simp add: numeral_2_eq_2)
qed

end
