(* ===== verification/Kvdb_Fresh.thy ===== *)
theory Kvdb_Fresh
  imports Fal_Boot Kvdb_Upkeep
begin

text \<open>
  The first start: initialisation over a flash none of whose sectors has a header. Every sector is
  formatted while it is checked, and since all of them failed, the database is reset to its
  default KVs. The memory may hold anything else, like the RAM block the module allocates. Together
  with \<open>Fal_Boot\<close> this gives the path from loading the module to a usable database.
\<close>

subsection \<open>Sectors without a header\<close>

definition unformatted :: "bytes \<Rightarrow> nat \<Rightarrow> bool" where
  "unformatted m S \<longleftrightarrow> of_le32 (slice (S + 4) 4 m) \<noteq> SECTOR_MAGIC_WORD"

lemma read_unformatted:
  assumes "kv_ok db" "0 < kvdb_sec_size db" "S mod kvdb_sec_size db = 0" "S + 16 \<le> length (kv_img db)"
    and "unformatted (kv_img db) S" "sc_get (kv_sector_cache_table db) S = None"
  shows "\<exists>c. read_sector_info db S sec False = Some (FDB_INIT_FAILED, c, db) \<and> \<not> sec_check_ok c
    \<and> sec_store c = FDB_SECTOR_STORE_UNUSED \<and> sec_addr c = S \<and> sec_combined c = SECTOR_NOT_COMBINED"
proof -
  have "S \<noteq> FDB_DATA_UNUSED" using assms(4) kvf.img_bound [OF assms(1)] by (simp add: fdb_const)
  then have "get_sector_from_cache db S = None" using assms(6) by (simp add: get_sector_from_cache_get)
  moreover have "kv_flash_read db S (replicate SECTOR_HDR_DATA_SIZE 0) = Some (FDB_NO_ERR, slice S 16 (kv_img db))"
    using kvf.rd_in [OF assms(1), of S "replicate SECTOR_HDR_DATA_SIZE 0"] assms(4) by (simp add: fdb_const)
  moreover have "slice 4 4 (slice S 16 (kv_img db)) = slice (S + 4) 4 (kv_img db)" by (simp add: slice_slice)
  ultimately show ?thesis using assms(2,3,5)
    by (simp add: read_sector_info_def read_sector_hdr_def unformatted_def Let_def)
qed

lemma next_unformatted:
  assumes "sec_addr c = i * Z" "sec_combined c = SECTOR_NOT_COMBINED" "i < N" "N * Z < 2147483648" "0 < Z"
    and "kvdb_sec_size db = Z" "kvdb_max_size db = N * Z"
  shows "u32 (i * Z + Z) = Suc i * Z"
    "get_next_sector_addr db c (Suc i * Z) = (if Suc i < N then Suc i * Z else FAILED_ADDR)"
proof -
  have b: "Suc i * Z \<le> N * Z" using assms(3) by (intro mult_le_mono1) simp
  then show u: "u32 (i * Z + Z) = Suc i * Z" using assms(4) by (simp add: u32_id add.commute)
  have "Z \<le> N * Z" using b assms(5) by (cases N) simp_all
  then have "u32 (Suc i * Z + Z) = Suc (Suc i) * Z" using b assms(4) by (simp add: u32_id)
  moreover have "Suc (Suc i) * Z \<le> N * Z \<longleftrightarrow> Suc i < N" using assms(5) by (metis Suc_le_eq mult_le_cancel2)
  moreover have "Suc i < N \<Longrightarrow> Suc i * Z < N * Z" using assms(5) by (simp only: mult_less_cancel2)
  ultimately show "get_next_sector_addr db c (Suc i * Z) = (if Suc i < N then Suc i * Z else FAILED_ADDR)"
    using u assms by (simp add: get_next_sector_addr_def Let_def add.commute)
qed

lemma sector_iter_unformatted:
  assumes r: "read_sector_info db (i * Z) sec False = Some (err, c, db1)" and cb: "cb c arg db1 = Some (False, arg', db')"
    and c: "sec_addr c = i * Z" "sec_combined c = SECTOR_NOT_COMBINED" and i: "i < N" "N * Z < 2147483648" "0 < Z"
    and db: "kvdb_sec_size db = Z" "kvdb_sec_size db' = Z" "kvdb_max_size db' = N * Z"
  shows "sector_iter_loop cb False FDB_SECTOR_STORE_UNUSED db sec arg (i * Z) (i * Z) =
    (if Suc i < N then sector_iter_loop cb False FDB_SECTOR_STORE_UNUSED db' c arg' (Suc i * Z) (Suc i * Z)
     else Some (c, arg', db'))"
proof -
  note n = next_unformatted [OF c i db(2,3)]
  have e: "sector_iter_loop cb False FDB_SECTOR_STORE_UNUSED db sec arg (i * Z) (i * Z) =
    (if get_next_sector_addr db' c (Suc i * Z) \<noteq> FAILED_ADDR
     then sector_iter_loop cb False FDB_SECTOR_STORE_UNUSED db' c arg' (get_next_sector_addr db' c (Suc i * Z)) (Suc i * Z)
     else Some (c, arg', db'))"
    by (subst sector_iter_loop.simps) (simp add: Let_def r cb db(1) n(1) del: mult_Suc)
  show ?thesis
  proof (cases "Suc i < N")
    case True
    then have "Suc i * Z \<noteq> FAILED_ADDR" using sector_end [of "Suc i" N 0 Z] i(2) by (simp add: fdb_const)
    moreover have "get_next_sector_addr db' c (Suc i * Z) = Suc i * Z" using n(2) True by (simp only: if_True)
    ultimately show ?thesis using True unfolding e by (simp only: if_True simp_thms)
  next
    case False
    then have "get_next_sector_addr db' c (Suc i * Z) = FAILED_ADDR" using n(2) by (simp only: if_False)
    then show ?thesis using False unfolding e by (simp only: if_False simp_thms)
  qed
qed

text \<open>The walk for the oldest sector leaves the address at 0.\<close>

lemma oldest_step_unformatted:
  assumes "kv_geometry db N" "N * kvdb_sec_size db < 2147483648" "i < N" "unformatted (kv_img db) (i * kvdb_sec_size db)"
    and "sc_get (kv_sector_cache_table db) (i * kvdb_sec_size db) = None"
  shows "\<exists>c. sector_iter_loop check_oldest_addr_cb False FDB_SECTOR_STORE_UNUSED db sec (0, FDB_SECTOR_STORE_UNUSED)
        (i * kvdb_sec_size db) (i * kvdb_sec_size db)
      = (if Suc i < N then sector_iter_loop check_oldest_addr_cb False FDB_SECTOR_STORE_UNUSED db c (0, FDB_SECTOR_STORE_UNUSED)
           (Suc i * kvdb_sec_size db) (Suc i * kvdb_sec_size db) else Some (c, (0, FDB_SECTOR_STORE_UNUSED), db))"
proof -
  let ?Z = "kvdb_sec_size db"
  have g: "kv_ok db" "104 < ?Z" "kvdb_max_size db = N * ?Z" "N * ?Z \<le> length (kv_img db)"
    using assms(1) by (simp_all add: kv_geometry_def)
  have "i * ?Z + 16 \<le> N * ?Z" using sector_end [OF assms(3), of 16 ?Z] g(2) by simp
  then obtain c where c: "read_sector_info db (i * ?Z) sec False = Some (FDB_INIT_FAILED, c, db)" "\<not> sec_check_ok c"
    "sec_store c = FDB_SECTOR_STORE_UNUSED" "sec_addr c = i * ?Z" "sec_combined c = SECTOR_NOT_COMBINED"
    using read_unformatted [OF g(1), of "i * ?Z" sec] g(2,4) assms(4,5) by auto
  have cb: "check_oldest_addr_cb c (0, FDB_SECTOR_STORE_UNUSED) db = Some (False, (0, FDB_SECTOR_STORE_UNUSED), db)"
    using c(3) by (simp add: check_oldest_addr_cb_def)
  have "0 < ?Z" using g(2) by simp
  from sector_iter_unformatted [where cb = check_oldest_addr_cb, OF c(1) cb c(4,5) assms(3,2) this refl refl g(3)]
  show ?thesis by (intro exI [of _ c])
qed

lemma oldest_walk_unformatted:
  assumes "kv_geometry db N" "N * kvdb_sec_size db < 2147483648"
    and "\<forall>k < N. unformatted (kv_img db) (k * kvdb_sec_size db)"
    and "\<forall>k < N. sc_get (kv_sector_cache_table db) (k * kvdb_sec_size db) = None"
  shows "i < N \<Longrightarrow> \<exists>c. sector_iter_loop check_oldest_addr_cb False FDB_SECTOR_STORE_UNUSED db sec
      (0, FDB_SECTOR_STORE_UNUSED) (i * kvdb_sec_size db) (i * kvdb_sec_size db) = Some (c, (0, FDB_SECTOR_STORE_UNUSED), db)"
proof (induction "N - i" arbitrary: i sec)
  case (Suc m)
  have u: "unformatted (kv_img db) (i * kvdb_sec_size db)" "sc_get (kv_sector_cache_table db) (i * kvdb_sec_size db) = None"
    using assms(3,4) Suc.prems by simp_all
  obtain c where c: "sector_iter_loop check_oldest_addr_cb False FDB_SECTOR_STORE_UNUSED db sec (0, FDB_SECTOR_STORE_UNUSED)
        (i * kvdb_sec_size db) (i * kvdb_sec_size db)
      = (if Suc i < N then sector_iter_loop check_oldest_addr_cb False FDB_SECTOR_STORE_UNUSED db c (0, FDB_SECTOR_STORE_UNUSED)
           (Suc i * kvdb_sec_size db) (Suc i * kvdb_sec_size db) else Some (c, (0, FDB_SECTOR_STORE_UNUSED), db))"
    using oldest_step_unformatted [OF assms(1,2) Suc.prems u] ..
  show ?case
  proof (cases "Suc i < N")
    case True
    then show ?thesis using c Suc.hyps(1) [of "Suc i" c] Suc.hyps(2) by simp
  qed (use c in simp)
qed simp

text \<open>The walk that checks the sectors formats every one of them.\<close>

lemma format_step_unformatted:
  assumes "kv_geometry db N" "N * kvdb_sec_size db < 2147483648" "i < N" "unformatted (kv_img db) (i * kvdb_sec_size db)"
    and "sc_get (kv_sector_cache_table db) (i * kvdb_sec_size db) = None" "\<not> db_not_formatable (kv_parent db)" "n < N"
  defines "db' \<equiv> (kv_put (sector_formatted (i * kvdb_sec_size db) (kvdb_sec_size db) (kv_img db)) db)
      \<lparr>kv_sector_cache_table := sc_drop (i * kvdb_sec_size db) (kv_sector_cache_table db)\<rparr>"
  shows "\<exists>c. sector_iter_loop check_sec_hdr_cb False FDB_SECTOR_STORE_UNUSED db sec n (i * kvdb_sec_size db) (i * kvdb_sec_size db)
      = (if Suc i < N then sector_iter_loop check_sec_hdr_cb False FDB_SECTOR_STORE_UNUSED db' c (Suc n)
           (Suc i * kvdb_sec_size db) (Suc i * kvdb_sec_size db) else Some (c, Suc n, db'))"
    "kv_geometry db' N" "kv_step db db'" "kv_img db' = sector_formatted (i * kvdb_sec_size db) (kvdb_sec_size db) (kv_img db)"
proof -
  let ?Z = "kvdb_sec_size db"
  let ?m = "sector_formatted (i * ?Z) ?Z (kv_img db)"
  have g: "kv_ok db" "104 < ?Z" "kvdb_max_size db = N * ?Z" "N * ?Z \<le> length (kv_img db)" "2 \<le> N"
    using assms(1) by (simp_all add: kv_geometry_def)
  have fit: "i * ?Z + ?Z \<le> length (kv_img db)" using sector_end [OF assms(3), of ?Z ?Z] g(4) by simp
  then obtain c where c: "read_sector_info db (i * ?Z) sec False = Some (FDB_INIT_FAILED, c, db)" "\<not> sec_check_ok c"
    "sec_store c = FDB_SECTOR_STORE_UNUSED" "sec_addr c = i * ?Z" "sec_combined c = SECTOR_NOT_COMBINED"
    using read_unformatted [OF g(1), of "i * ?Z" sec] g(2) assms(4,5) by auto
  note p = sector_formatted_props [OF fit g(2)]
  have f: "format_sector db (i * ?Z) SECTOR_NOT_COMBINED = Some (FDB_NO_ERR, db')"
    unfolding db'_def using format_sector_eq [OF g(1,2) _ fit] by simp
  show st: "kv_step db db'" unfolding db'_def using kv_step_put [OF g(1) p(1)] kv_step_sc kv_step_trans by blast
  show img: "kv_img db' = ?m" unfolding db'_def using kvf.img_put [OF g(1) p(1)] by (simp add: kv_img_def)
  have "kv_ok db'" unfolding db'_def using kvf.ok_put [OF g(1) p(1)] by (simp add: kv_ok_def)
  moreover have z: "kvdb_sec_size db' = ?Z" "kvdb_max_size db' = kvdb_max_size db"
    using st kv_cfg_fields(1,2) [of db' db] by (simp_all add: kv_step_def kv_frame_def)
  ultimately show "kv_geometry db' N" using g img p(1) by (simp add: kv_geometry_def)
  have "1 * ?Z \<le> N * ?Z \<and> N * 1 \<le> N * ?Z" using g(2,5) by (intro conjI mult_le_mono1 mult_le_mono2) simp_all
  then have "n + 1 < 4294967296" using assms(2,7) by linarith
  then have "u32 (n + 1) = Suc n" by (simp add: u32_id)
  then have cb: "check_sec_hdr_cb c n db = Some (False, Suc n, db')" using c(2,4) f assms(6) by (simp add: check_sec_hdr_cb_def)
  have "0 < ?Z" "kvdb_max_size db' = N * ?Z" using g(2,3) z by simp_all
  from sector_iter_unformatted [where cb = check_sec_hdr_cb, OF c(1) cb c(4,5) assms(3,2) this(1) refl z(1) this(2)]
  show "\<exists>c. sector_iter_loop check_sec_hdr_cb False FDB_SECTOR_STORE_UNUSED db sec n (i * ?Z) (i * ?Z)
      = (if Suc i < N then sector_iter_loop check_sec_hdr_cb False FDB_SECTOR_STORE_UNUSED db' c (Suc n)
           (Suc i * ?Z) (Suc i * ?Z) else Some (c, Suc n, db'))" by (intro exI [of _ c])
qed

lemma sc_inside_none_get: "sc_inside N N Z t \<Longrightarrow> sc_get t a = None"
  unfolding sc_inside_def by (cases "sc_get t a") (auto dest: scc.coherentD)

lemma format_walk_unformatted:
  assumes "Z < 2147483648" "N * Z < 2147483648"
  shows "i < N \<Longrightarrow> kv_geometry db N \<Longrightarrow> kvdb_sec_size db = Z \<Longrightarrow> sc_inside N N Z (kv_sector_cache_table db) \<Longrightarrow>
    \<not> db_not_formatable (kv_parent db) \<Longrightarrow> \<forall>k < N. i \<le> k \<longrightarrow> unformatted (kv_img db) (k * Z) \<Longrightarrow>
    \<exists>c db'. sector_iter_loop check_sec_hdr_cb False FDB_SECTOR_STORE_UNUSED db sec i (i * Z) (i * Z) = Some (c, N, db')
      \<and> kv_geometry db' N \<and> kv_step db db' \<and> sc_inside N N Z (kv_sector_cache_table db')"
proof (induction "N - i" arbitrary: i sec db)
  case (Suc m)
  let ?m = "sector_formatted (i * Z) Z (kv_img db)"
  let ?db = "(kv_put ?m db)\<lparr>kv_sector_cache_table := sc_drop (i * Z) (kv_sector_cache_table db)\<rparr>"
  note z = Suc.prems(3)
  have g: "104 < Z" "N * Z \<le> length (kv_img db)" using Suc.prems(2) z by (simp_all add: kv_geometry_def)
  have u: "unformatted (kv_img db) (i * kvdb_sec_size db)" "N * kvdb_sec_size db < 2147483648"
    using assms(2) z Suc.prems(1,6) by simp_all
  note f = format_step_unformatted [OF Suc.prems(2) u(2) Suc.prems(1) u(1) sc_inside_none_get [OF Suc.prems(4)] Suc.prems(5,1), unfolded z]
  obtain c where e: "sector_iter_loop check_sec_hdr_cb False FDB_SECTOR_STORE_UNUSED db sec i (i * Z) (i * Z)
      = (if Suc i < N then sector_iter_loop check_sec_hdr_cb False FDB_SECTOR_STORE_UNUSED ?db c (Suc i) (Suc i * Z) (Suc i * Z)
         else Some (c, Suc i, ?db))"
    using f(1) ..
  note st = f(2-4)
  have sc: "sc_inside N N Z (kv_sector_cache_table ?db)"
    using Suc.prems(4) unfolding sc_inside_def by (simp, intro scc.coherent_drop) auto
  show ?case
  proof (cases "Suc i < N")
    case False
    then have "Suc i = N" using Suc.prems(1) by simp
    then show ?thesis using e st(1,2) sc by auto
  next
    case True
    have fit: "i * Z + Z \<le> length (kv_img db)" using sector_end [OF Suc.prems(1), of Z Z] g(2) by simp
    have un: "\<forall>k < N. Suc i \<le> k \<longrightarrow> unformatted (kv_img ?db) (k * Z)"
    proof (intro allI impI)
      fix k
      assume k: "k < N" "Suc i \<le> k"
      have "k * Z + 8 \<le> length (kv_img db)" using sector_end [OF k(1), of 8 Z] g by simp
      moreover have "i * Z + Z \<le> k * Z" using k(2) mult_le_mono1 [of "Suc i" k Z] by simp
      ultimately have "slice (k * Z + 4) 4 ?m = slice (k * Z + 4) 4 (kv_img db)"
        using sector_formatted_props(1,3) [OF fit g(1)] by (intro slice_eqI) simp_all
      then show "unformatted (kv_img ?db) (k * Z)" using Suc.prems(6) k unfolding st(3) unformatted_def by simp
    qed
    have h: "kvdb_sec_size ?db = Z" "m = N - Suc i" using kv_step_sec [OF st(2)] z Suc.hyps(2) by simp_all
    have nf: "\<not> db_not_formatable (kv_parent ?db)"
      using st(2) Suc.prems(5) kv_cfg_fields(5) [of ?db db] by (simp add: kv_step_def kv_frame_def)
    obtain c' db' where r: "sector_iter_loop check_sec_hdr_cb False FDB_SECTOR_STORE_UNUSED ?db c (Suc i) (Suc i * Z) (Suc i * Z)
        = Some (c', N, db')" "kv_geometry db' N" "kv_step ?db db'" "sc_inside N N Z (kv_sector_cache_table db')"
      using Suc.hyps(1) [where sec = c, OF h(2) True st(1) h(1) sc nf un] by - (elim exE conjE, rule that)
    have "sector_iter_loop check_sec_hdr_cb False FDB_SECTOR_STORE_UNUSED db sec i (i * Z) (i * Z) = Some (c', N, db')"
      using True unfolding e r(1) by (simp only: if_True)
    then show ?thesis using r(2,4) kv_step_trans [OF st(2) r(3)] by (intro exI [of _ c'] exI [of _ db'] conjI)
  qed
qed simp

subsection \<open>Loading a flash without headers\<close>

text \<open>The end of loading: the walks for an unfinished collection and over the KVs.\<close>

lemma kv_load_tail:
  assumes rep: "kv_rep db D" "settled D" "0 < n_empty D"
    and fl: "\<not> kv_gc_request db" "\<not> kv_last_is_complete_del db" "kv_wf (kv_cur_kv db)"
  shows "\<exists>c db' db''. sector_iterator db sec FDB_SECTOR_STORE_UNUSED () check_and_recovery_gc_cb False = Some (c, (), db')
    \<and> kv_load_retry db' (junk_kv (kvdb_stk db')) = Some db''
    \<and> kv_state (db''\<lparr>kv_in_recovery_check := False\<rparr>) D
    \<and> kv_cfg (db''\<lparr>kv_in_recovery_check := False\<rparr>) = kv_cfg (db\<lparr>kv_in_recovery_check := False\<rparr>)"
proof -
  have ng: "ks_dirty (D ! k) \<noteq> FDB_SECTOR_DIRTY_GC" if "k < length D" for k
    using rep(2) that by (auto simp: settled_def settled_sec_def)
  obtain c t where w: "sector_iterator db sec FDB_SECTOR_STORE_UNUSED () check_and_recovery_gc_cb False
      = Some (c, (), db\<lparr>kv_sector_cache_table := t\<rparr>)" "sc_agrees (kvdb_sec_size db) D t"
    using sector_iter_pure [OF kv_rep_in [OF rep(1)], of "\<lambda>_. True" "()" check_and_recovery_gc_cb sec] ng
    by (auto simp: check_and_recovery_gc_cb_def sec_view_def)
  let ?db = "db\<lparr>kv_sector_cache_table := t\<rparr>"
  have rep2: "kv_rep ?db D" using rep(1) w(2) kv_mem_sc by (simp add: kv_rep_def)
  obtain kv' db2 where r: "kv_iterator ?db (junk_kv (kvdb_stk ?db)) () check_and_recovery_kv_cb = Some (kv', (), db2)"
    "kv_rep db2 D" "same_flash ?db db2"
    using load_walk_eq [OF rep2 rep(2) kv_wf_junk] by blast
  let ?x = "db2\<lparr>kv_in_recovery_check := False\<rparr>"
  have "\<not> kv_gc_request db2" using r(3) fl(1) by (simp add: same_flash_fields)
  then have "kv_load_retry ?db (junk_kv (kvdb_stk ?db)) = Some db2"
    using r(1) by (subst kv_load_retry.simps) simp
  moreover have "kv_rep ?x D" using r(2) by (rule kv_rep_fields) simp_all
  then have "kv_state ?x D" using rep(2,3) fl r(3) by (simp add: kv_state_def same_flash_fields)
  moreover have "kv_cfg ?x = kv_cfg (db\<lparr>kv_in_recovery_check := False\<rparr>)"
    using same_flash_fields(1) [OF r(3)] by (simp add: kv_cfg_def Let_def)
  ultimately show ?thesis using w(1) by blast
qed

lemma kv_load_unformatted:
  assumes geo: "kv_geometry db N" and bounds: "kvdb_sec_size db < 2147483648" "N * kvdb_sec_size db < 2147483648"
    and sc: "sc_inside N N (kvdb_sec_size db) (kv_sector_cache_table db)"
    and kvc: "length (kv_cache_table db) = FDB_KV_CACHE_TABLE_SIZE" and old: "kvdb_oldest_addr db = 0"
    and un: "\<forall>k < N. unformatted (kv_img db) (k * kvdb_sec_size db)" "\<not> db_not_formatable (kv_parent db)"
    and fl: "\<not> kv_gc_request db" "\<not> kv_last_is_complete_del db" "kv_wf (kv_cur_kv db)"
    and lock: "db_lock_set (kv_parent db) = db_unlock_set (kv_parent db)"
    and ds: "list_all2 default_ok (kv_default_kvs db) vals" "distinct (map dkv_key (kv_default_kvs db))"
  shows "\<exists>db' D'. fdb_kv_load db = Some (FDB_NO_ERR, db') \<and> kv_state db' D' \<and> length D' = N
    \<and> kv_cfg db' = kv_cfg (db\<lparr>kv_in_recovery_check := False\<rparr>)
    \<and> kv_map D' \<subseteq>\<^sub>m map_of (zip (map dkv_key (kv_default_kvs db)) vals)
    \<and> (length (kv_default_kvs db) < N \<and> list_all2 (default_fits (kvdb_sec_size db)) (kv_default_kvs db) vals
       \<longrightarrow> kv_map D' = map_of (zip (map dkv_key (kv_default_kvs db)) vals))"
proof -
  let ?db = "db\<lparr>kv_in_recovery_check := True\<rparr>" let ?Z = "kvdb_sec_size db"
  have N: "2 \<le> N" "0 < ?Z" "kvdb_max_size db = N * ?Z" using geo by (simp_all add: kv_geometry_def)
  have geo1: "kv_geometry ?db N" using geo by (simp add: kv_geometry_def kv_ok_def kv_img_def)
  have un1: "\<forall>k < N. 0 \<le> k \<longrightarrow> unformatted (kv_img ?db) (k * ?Z)" using un(1) by (simp add: kv_img_def)
  obtain c db1 where w: "sector_iter_loop check_sec_hdr_cb False FDB_SECTOR_STORE_UNUSED ?db (junk_sec (kvdb_stk ?db)) 0 (0 * ?Z) (0 * ?Z)
      = Some (c, N, db1)" "kv_geometry db1 N" "kv_step ?db db1" "sc_inside N N ?Z (kv_sector_cache_table db1)"
    using format_walk_unformatted [OF bounds _ geo1 _ _ _ un1, of "junk_sec (kvdb_stk ?db)"] N(1) sc un(2) by auto
  have c1: "kv_cfg db1 = kv_cfg ?db" "kvdb_oldest_addr db1 = 0" "\<not> kv_gc_request db1" "\<not> kv_last_is_complete_del db1"
    "kv_wf (kv_cur_kv db1)" "length (kv_cache_table db1) = FDB_KV_CACHE_TABLE_SIZE"
    using w(3) old fl kvc by (simp_all add: kv_step_def kv_frame_def)
  note f = kv_cfg_fields [OF c1(1)]
  have sc1: "sc_inside 0 N (kvdb_sec_size db1) (kv_sector_cache_table db1)"
    using w(4) f(1) unfolding sc_inside_def by (auto elim: scc.coherent_mono)
  have old1: "\<exists>k < N. kvdb_oldest_addr db1 = k * kvdb_sec_size db1" using c1(2) N(1) by (intro exI [of _ 0]) simp
  obtain db2 D where d: "fdb_kv_set_default db1 = Some (FDB_NO_ERR, db2)" "kv_state db2 D" "length D = N" "kv_cfg db2 = kv_cfg db1"
    "kv_map D \<subseteq>\<^sub>m map_of (zip (map dkv_key (kv_default_kvs db)) vals)"
    "length (kv_default_kvs db) < N \<and> list_all2 (default_fits ?Z) (kv_default_kvs db) vals
       \<longrightarrow> kv_map D = map_of (zip (map dkv_key (kv_default_kvs db)) vals)"
    using set_default_state [OF w(2) sc1 c1(6) old1 c1(3-5), of vals] lock ds f by auto
  note s = kv_stateD [OF d(2)]
  obtain c2 db3 db4 where t: "sector_iterator db2 c FDB_SECTOR_STORE_UNUSED () check_and_recovery_gc_cb False = Some (c2, (), db3)"
    "kv_load_retry db3 (junk_kv (kvdb_stk db3)) = Some db4" "kv_state (db4\<lparr>kv_in_recovery_check := False\<rparr>) D"
    "kv_cfg (db4\<lparr>kv_in_recovery_check := False\<rparr>) = kv_cfg (db2\<lparr>kv_in_recovery_check := False\<rparr>)"
    using kv_load_tail [OF s(1-6), of c] by blast
  have "kv_cfg (db2\<lparr>kv_in_recovery_check := False\<rparr>) = kv_cfg (db\<lparr>kv_in_recovery_check := False\<rparr>)"
    using d(4) c1(1) by (simp add: kv_cfg_def Let_def)
  moreover have "fdb_kv_load db = Some (FDB_NO_ERR, db4\<lparr>kv_in_recovery_check := False\<rparr>)"
    using w(1) d(1) t(1,2) N un(2) f old kv_cfg_fields [OF d(4)]
    by (simp add: fdb_kv_load_def sector_iterator_def Let_def)
  ultimately show ?thesis using t(3,4) d(3,5,6)
    by (intro exI [of _ "db4\<lparr>kv_in_recovery_check := False\<rparr>"] exI [of _ D]) simp
qed

subsection \<open>The first start\<close>

lemma blank_inside:
  assumes "length t = FDB_SECTOR_CACHE_TABLE_SIZE" "\<forall>i < FDB_SECTOR_CACHE_TABLE_SIZE. sec_addr (t ! i) = FDB_DATA_UNUSED"
  shows "sc_inside N N Z t"
  using assms by (intro sc_blank) simp_all

lemma oldest_walk_fresh:
  assumes "kv_geometry db N" "kv_fresh_ram db" "kvdb_oldest_addr db = 0"
    and "kvdb_sec_size db < 2147483648" "N * kvdb_sec_size db < 2147483648"
    and "\<forall>k < N. unformatted (kv_img db) (k * kvdb_sec_size db)"
  shows "\<exists>c. sector_iterator db sec FDB_SECTOR_STORE_UNUSED (0, FDB_SECTOR_STORE_UNUSED) check_oldest_addr_cb False
    = Some (c, (0, FDB_SECTOR_STORE_UNUSED), db)"
proof (cases "sc_zeroed (kv_sector_cache_table db)")
  case True
  then show ?thesis
    using zeroed_walk [OF True, of "kvdb_sec_size db" N 0 sec] assms(1,3-5) by (simp add: sector_iterator_def kv_geometry_def)
next
  case False
  then have "sc_inside N N Z (kv_sector_cache_table db)" for Z
    using assms(2) by (intro blank_inside) (simp_all add: kv_fresh_ram_def)
  then have "\<forall>k < N. sc_get (kv_sector_cache_table db) (k * kvdb_sec_size db) = None" using sc_inside_none_get by blast
  moreover have "0 < N" using assms(1) by (simp add: kv_geometry_def)
  ultimately show ?thesis using oldest_walk_unformatted [OF assms(1,5,6), of 0 sec] assms(3) by (simp add: sector_iterator_def)
qed

lemma kv_init_unformatted:
  assumes geo: "kv_geometry db N" and ram: "kv_fresh_ram db"
    and un: "\<forall>k < N. unformatted (kv_img db) (k * kvdb_sec_size db)" "\<not> db_not_formatable (kv_parent db)"
    and lock: "db_lock_set (kv_parent db) = db_unlock_set (kv_parent db)"
    and d: "d = (case default_kv of Some d \<Rightarrow> d | None \<Rightarrow> [])"
    and ds: "list_all2 default_ok d vals" "distinct (map dkv_key d)"
  shows "\<exists>db' D'. kvdb_init_load db default_kv = Some (FDB_NO_ERR, db') \<and> kv_state db' D' \<and> length D' = N
    \<and> kv_cfg db' = kv_cfg (db\<lparr>kv_in_recovery_check := False, kv_default_kvs := d\<rparr>)
    \<and> kv_map D' \<subseteq>\<^sub>m map_of (zip (map dkv_key d) vals)
    \<and> (length d < N \<and> list_all2 (default_fits (kvdb_sec_size db)) d vals \<longrightarrow> kv_map D' = map_of (zip (map dkv_key d) vals))"
proof -
  let ?Z = "kvdb_sec_size db" let ?cfg = "db\<lparr>kv_in_recovery_check := False, kv_default_kvs := d\<rparr>"
  have g: "kv_ok db" "2 \<le> N" "104 < ?Z" "kvdb_max_size db = N * ?Z" "N * ?Z \<le> length (kv_img db)"
    using geo by (simp_all add: kv_geometry_def)
  have nz: "N * ?Z < 2147483648" using g(5) kvf.img_bound [OF g(1)] by linarith
  have z: "?Z < 2147483648" using nz g(2) mult_le_mono1 [of 1 N ?Z] by linarith
  define db1 where "db1 = set_oldest 0 ((kvdb_lock db)\<lparr>kv_gc_request := False, kv_in_recovery_check := False, kv_default_kvs := d\<rparr>)"
  have k1: "kv_img db1 = kv_img db" "kv_ok db1" "kvdb_sec_size db1 = ?Z" "kvdb_max_size db1 = N * ?Z"
    "kv_sector_cache_table db1 = kv_sector_cache_table db" "kv_cache_table db1 = kv_cache_table db" "kvdb_oldest_addr db1 = 0"
    "\<not> kv_gc_request db1" "kv_last_is_complete_del db1 = kv_last_is_complete_del db" "kv_cur_kv db1 = kv_cur_kv db"
    using g by (simp_all add: db1_def) (simp_all add: kv_img_def kv_ok_def kvdb_lock_def)
  have geo1: "kv_geometry db1 N" using g k1 by (simp add: kv_geometry_def)
  have ram1: "kv_fresh_ram db1" using ram k1 by (simp add: kv_fresh_ram_def)
  obtain c where w: "sector_iterator db1 (junk_sec (kvdb_stk db1)) FDB_SECTOR_STORE_UNUSED (0, FDB_SECTOR_STORE_UNUSED)
      check_oldest_addr_cb False = Some (c, (0, FDB_SECTOR_STORE_UNUSED), db1)"
    using oldest_walk_fresh [OF geo1 ram1 k1(7), of "junk_sec (kvdb_stk db1)"] z nz un(1) k1(1,3) by auto
  define db2 where "db2 = kvdb_unlock (db1\<lparr>kv_sector_cache_table := map (\<lambda>s. s\<lparr>sec_check_ok := False, sec_empty_kv := FAILED_ADDR,
      sec_addr := FDB_DATA_UNUSED\<rparr>) (kv_sector_cache_table db1), kv_cache_table := kvc_clear (kv_cache_table db1)\<rparr>)"
  have c2: "kv_cfg db2 = kv_cfg ?cfg"
    unfolding db2_def by (rule kv_cfg_locked)
      (use lock in \<open>simp_all add: db1_def set_oldest_def kvdb_lock_def kv_cfg_def stk_def Let_def\<close>)
  note f = kv_cfg_fields [OF c2]
  have p2: "kv_ok db2 = kv_ok db1" "kv_img db2 = kv_img db1" "kvdb_sec_size db2 = kvdb_sec_size db1" "kvdb_max_size db2 = kvdb_max_size db1"
    by (simp_all add: db2_def) (simp_all add: kv_ok_def kv_img_def)
  have geo2: "kv_geometry db2 N" using geo1 p2 by (simp add: kv_geometry_def)
  have sc2: "sc_inside N N (kvdb_sec_size db2) (kv_sector_cache_table db2)"
    using ram1 by (intro blank_inside) (simp_all add: db2_def kv_fresh_ram_def)
  have k2: "kvdb_oldest_addr db2 = 0" "length (kv_cache_table db2) = FDB_KV_CACHE_TABLE_SIZE" "\<not> kv_gc_request db2"
    "\<not> kv_last_is_complete_del db2" "kv_wf (kv_cur_kv db2)" "kv_img db2 = kv_img db"
    using k1 ram p2 by (simp_all add: db2_def kv_fresh_ram_def kvc_clear_def)
  obtain db3 D where l: "fdb_kv_load db2 = Some (FDB_NO_ERR, db3)" "kv_state db3 D" "length D = N"
    "kv_cfg db3 = kv_cfg (db2\<lparr>kv_in_recovery_check := False\<rparr>)" "kv_map D \<subseteq>\<^sub>m map_of (zip (map dkv_key d) vals)"
    "length d < N \<and> list_all2 (default_fits ?Z) d vals \<longrightarrow> kv_map D = map_of (zip (map dkv_key d) vals)"
    using kv_load_unformatted [OF geo2 _ _ sc2 k2(2,1) _ _ k2(3-5), of vals] z nz un lock ds f k2(6) by auto
  have c3: "kv_cfg db3 = kv_cfg ?cfg" using l(4) c2 by (simp add: kv_cfg_def Let_def)
  have same: "db1\<lparr>kv_parent := kv_parent db1\<lparr>db_oldest_addr := 0\<rparr>\<rparr> = db1" by (simp add: db1_def set_oldest_def)
  have "kvdb_init_load db default_kv = Some (FDB_NO_ERR, kvdb_unlock (kvdb_lock db3))"
    unfolding kvdb_init_load_def Let_def d [symmetric]
    unfolding set_oldest_def [symmetric] db1_def [symmetric]
    using w l(1) g(2,3) k1(3,4,7) by (simp add: same db2_def kvc_clear_def set_oldest_def FDB_GC_EMPTY_SEC_THRESHOLD_def)
  moreover have "kv_cfg (kvdb_unlock (kvdb_lock db3)) = kv_cfg ?cfg"
    using kv_relock [of db3] lock kv_cfg_fields [OF c3] c3 by simp
  ultimately show ?thesis using l(2,3,5,6) by (intro exI [of _ "kvdb_unlock (kvdb_lock db3)"] exI [of _ D]) simp
qed

text \<open>C17: The first start: on a flash whose sectors have no header, initialisation formats all of them and
  leaves the default KVs and nothing else. The database is empty without defaults; when there are
  fewer defaults than sectors and each fits an empty sector, all of them are there.\<close>

theorem kv_init_fresh:
  assumes "kv_geometry db N" "kv_fresh_ram db"
    and "\<forall>k < N. unformatted (kv_img db) (k * kvdb_sec_size db)" "\<not> db_not_formatable (kv_parent db)"
    and "db_lock_set (kv_parent db) = db_unlock_set (kv_parent db)"
    and "list_all2 default_ok d vals" "distinct (map dkv_key d)"
  shows "\<exists>db' D'. kvdb_init_load db (Some d) = Some (FDB_NO_ERR, db') \<and> kv_state db' D' \<and> length D' = N
    \<and> kv_map D' \<subseteq>\<^sub>m map_of (zip (map dkv_key d) vals)
    \<and> (length d < N \<and> list_all2 (default_fits (kvdb_sec_size db)) d vals \<longrightarrow> kv_map D' = map_of (zip (map dkv_key d) vals))"
  using kv_init_unformatted [OF assms(1-5) _ assms(6,7), of "Some d"] by auto

lemma slice_erased: "a + n \<le> m \<Longrightarrow> slice a n (replicate m x) = replicate n x"
  by (simp add: slice_def)

theorem kv_init_fresh_witness:
  "\<exists>db' D'. kvdb_init_load (ram_kv 3) (Some [demo_default]) = Some (FDB_NO_ERR, db') \<and> kv_state db' D'
    \<and> kv_map D' = [cstr ''m'' \<mapsto> [7, 8]]"
proof -
  note r = ram_kv_facts [of 3]
  have i: "kv_img (ram_kv 3) = replicate 768 FDB_BYTE_ERASED" using ram_db_ok [of 768 256] by (simp add: kv_img_def ram_kv_def)
  have "unformatted (kv_img (ram_kv 3)) (k * 256)" if "k < 3" for k
    using that by (simp add: unformatted_def i slice_erased of_le32_def FDB_BYTE_ERASED_def SECTOR_MAGIC_WORD_def)
  moreover have "kv_fresh_ram (ram_kv 3)" by (simp add: kv_fresh_ram_def ram_kv_def)
  moreover have len: "length (cstr ''m'') = 1" by (simp add: cstr_def)
  moreover have "list_all2 default_ok [demo_default] [[7, 8]]"
    using demo_keys(3) by (simp add: default_ok_def demo_default_def default_kv_value_def node_size_def len)
  moreover have "list_all2 (default_fits 256) [demo_default] [[7, 8]]"
    by (simp add: default_fits_def demo_default_def node_size_def len)
  moreover have "\<not> db_not_formatable (kv_parent (ram_kv 3))" by (simp add: ram_kv_def ram_db_def)
  ultimately show ?thesis
    using kv_init_fresh [of "ram_kv 3" 3 "[demo_default]" "[[7, 8]]"] r by (auto simp: demo_default_def)
qed

subsection \<open>The first start of the module\<close>

lemma unformatted_take: "S + 8 \<le> n \<Longrightarrow> unformatted (take n m) S = unformatted m S"
  by (simp add: unformatted_def slice_def drop_take min_def)

lemma kv_state_parent:
  "kv_state (db\<lparr>kv_parent := (kv_parent db)\<lparr>db_init_ok := b\<rparr>\<rparr>) D = kv_state db D"
  by (simp add: kv_state_def kv_rep_def kv_mem_def kv_flash_def kv_ok_def kv_img_def flash_ok_def db_img_def
      db_flash_len_def fdb_flash_read_def)

text \<open>C16: From loading the module to a usable database: a KVDB object of zeroed memory, initialised on the
  partition that the module parameter names over a newly allocated RAM block without headers, ends
  initialised with eight sectors of 4096 bytes and with its default KVs as its map.\<close>

theorem module_first_start:
  assumes "length name \<le> 23" "c_string name" "no_mtd_partition pn mtds" "32768 \<le> sz" "sz < 2147483648" "\<forall>n. kmalloc_ok n"
    and "\<not> db_init_ok (kv_parent db)" "\<not> db_file_mode (kv_parent db)" "kvdb_sec_size db = 0"
    and "db_fal (kv_parent db) = fal_load name sz pn mtds malloc kmalloc_ok junk" "malloc (nat sz) = Some mem" "length mem = nat sz"
    and "\<forall>k < 8. unformatted mem (k * 4096)" "kv_fresh_ram db" "\<not> db_not_formatable (kv_parent db)"
    and "db_lock_set (kv_parent db) = db_unlock_set (kv_parent db)"
    and "list_all2 default_ok d vals" "distinct (map dkv_key d)"
  shows "\<exists>db' D. fdb_kvdb_init db dbname name (Some d) u = Some (FDB_NO_ERR, db') \<and> db_init_ok (kv_parent db')
    \<and> kv_state db' D \<and> length D = 8 \<and> kvdb_sec_size db' = 4096 \<and> kv_map D \<subseteq>\<^sub>m map_of (zip (map dkv_key d) vals)
    \<and> (length d < 8 \<and> list_all2 (default_fits 4096) d vals \<longrightarrow> kv_map D = map_of (zip (map dkv_key d) vals))"
proof -
  have z: "0 < sz" using assms(4) by simp
  let ?p = "module_db (kv_parent db) dbname name sz pn mtds malloc kmalloc_ok junk FDB_DB_TYPE_KV u"
  let ?db = "db\<lparr>kv_parent := ?p\<rparr>"
  have i: "fdb_init_ex (kv_parent db) dbname name FDB_DB_TYPE_KV u = Some (FDB_NO_ERR, ?p)"
    using module_init_ex [OF assms(1-3) z assms(5-8) _ assms(10)] assms(9) by simp
  note m = module_db_mem [OF z assms(5,8,11,12,4) refl [of ?p]]
  have f: "kvdb_sec_size ?db = 4096" "kvdb_max_size ?db = 32768" by (simp_all add: module_db_def)
  have "length (db_img ?p) = 32768" using m(2,3) assms(4,12) by simp
  then have geo: "kv_geometry ?db 8" using m(1) f by (simp add: kv_geometry_def kv_ok_def kv_img_def)
  have un: "\<forall>k < 8. unformatted (kv_img ?db) (k * kvdb_sec_size ?db)"
    using assms(13) f(1) m(3) by (simp add: kv_img_def unformatted_take)
  have ram: "kv_fresh_ram ?db" using assms(14) by (simp add: kv_fresh_ram_def)
  have nf: "\<not> db_not_formatable (kv_parent ?db)" "db_lock_set (kv_parent ?db) = db_unlock_set (kv_parent ?db)"
    using assms(15,16) by (simp_all add: module_db_def)
  obtain db' D where l: "kvdb_init_load ?db (Some d) = Some (FDB_NO_ERR, db')" "kv_state db' D" "length D = 8"
    "kv_cfg db' = kv_cfg (?db\<lparr>kv_in_recovery_check := False, kv_default_kvs := d\<rparr>)" "kv_map D \<subseteq>\<^sub>m map_of (zip (map dkv_key d) vals)"
    "length d < 8 \<and> list_all2 (default_fits 4096) d vals \<longrightarrow> kv_map D = map_of (zip (map dkv_key d) vals)"
    using kv_init_unformatted [OF geo ram un nf _ assms(17,18), of "Some d"] f(1) by auto
  have "fdb_kvdb_init db dbname name (Some d) u = Some (FDB_NO_ERR, db'\<lparr>kv_parent := (kv_parent db')\<lparr>db_init_ok := True\<rparr>\<rparr>)"
    using i l(1) by (simp add: fdb_kvdb_init_def fdb_init_finish_def FDB_WRITE_GRAN_def)
  then show ?thesis using l(2,3,5,6) kv_cfg_fields(1) [OF l(4)] f(1)
    by (intro exI [of _ "db'\<lparr>kv_parent := (kv_parent db')\<lparr>db_init_ok := True\<rparr>\<rparr>"] exI [of _ D]) (simp add: kv_state_parent)
qed

theorem module_first_start_witness:
  "\<exists>db' D. fdb_kvdb_init ((ram_kv 3)\<lparr>kv_parent := module_blank 32768,
      kv_sector_cache_table := replicate FDB_SECTOR_CACHE_TABLE_SIZE (junk_sec 0)\<rparr>)
      (cstr ''env'') (cstr ''flashdb'') (Some []) 0 = Some (FDB_NO_ERR, db') \<and> kv_state db' D \<and> kv_map D = Map.empty"
proof -
  let ?db = "(ram_kv 3)\<lparr>kv_parent := module_blank 32768,
      kv_sector_cache_table := replicate FDB_SECTOR_CACHE_TABLE_SIZE (junk_sec 0)\<rparr>"
  have un: "\<forall>k < 8. unformatted (replicate 32768 0) (k * 4096)"
    by (simp add: unformatted_def slice_erased of_le32_def SECTOR_MAGIC_WORD_def)
  have "sc_zeroed (kv_sector_cache_table ?db)"
    by (simp add: sc_zeroed_def junk_sec_def FDB_SECTOR_CACHE_TABLE_SIZE_def store_of_def of_le32_def)
  then have ram: "kv_fresh_ram ?db" by (simp add: kv_fresh_ram_def ram_kv_def)
  have lock: "\<not> db_not_formatable (module_blank 32768)" "db_lock_set (module_blank 32768) = db_unlock_set (module_blank 32768)"
    by (simp_all add: module_blank_def ram_db_def)
  have fal: "db_fal (module_blank 32768)
      = fal_load (cstr ''flashdb'') 32768 (cstr ''spi0.0'') [demo_mtd] (\<lambda>k. Some (replicate k 0)) (\<lambda>_. True) 0xA5"
    by (simp add: module_blank_def)
  show ?thesis
    using module_first_start [OF module_blank_facts(1-3), of 32768 "\<lambda>_. True" ?db "\<lambda>k. Some (replicate k 0)" "0xA5"
        "replicate 32768 0" "[]" "[]" "cstr ''env''" 0] module_blank_facts(4-6) un ram lock fal by auto
qed

end
