(* ===== verification/Os_Files.thy ===== *)
theory Os_Files
  imports Fdb_Prelude
begin

text \<open>
  The functions of the C library that the file mode of FlashDB (\<open>fdb_file.c\<close>) calls, as far as
  its calls can observe them: a file system is a map from paths to contents and a table of open
  descriptors with their positions. A call fails for the documented reasons: no such file or
  no access (\<open>fs_access\<close>), no free descriptor (\<open>fs_open_max\<close>), a file that cannot grow
  (\<open>fs_file_max\<close>). \<open>open\<close> returns the lowest free descriptor, writing past the end fills
  the gap with zero bytes. A stream of \<open>stdio.h\<close> is the descriptor it was opened on; its buffer
  is not visible to a program that opens each file once.

  The second part holds the text functions: \<open>%d\<close>, and \<open>snprintf\<close>, which cuts what does not fit.
\<close>

record file_sys =
  fs_files :: "bytes \<Rightarrow> bytes option"
  fs_fds :: "nat \<Rightarrow> (bytes \<times> nat) option"
  fs_access :: "bytes \<Rightarrow> bool"
  fs_open_max :: nat
  fs_file_max :: nat

subsection \<open>POSIX calls\<close>

definition fs_free_fd :: "file_sys \<Rightarrow> nat option" where
  "fs_free_fd fs = List.find (\<lambda>i. fs_fds fs i = None) [0..<fs_open_max fs]"

text \<open>\<open>open(path, O_RDWR)\<close>, and with \<open>O_CREAT | O_TRUNC\<close> when \<open>trunc\<close> is set.\<close>

definition fs_open :: "file_sys \<Rightarrow> bytes \<Rightarrow> bool \<Rightarrow> int \<times> file_sys" where
  "fs_open fs path trunc =
     (case fs_free_fd fs of
        None \<Rightarrow> (-1, fs)
      | Some i \<Rightarrow>
          if \<not> fs_access fs path \<or> \<not> trunc \<and> fs_files fs path = None then (-1, fs)
          else (int i, fs\<lparr>fs_files := (if trunc then (fs_files fs)(path \<mapsto> []) else fs_files fs),
                         fs_fds := (fs_fds fs)(i \<mapsto> (path, 0))\<rparr>))"

definition fs_close :: "file_sys \<Rightarrow> int \<Rightarrow> file_sys" where
  "fs_close fs fd = (if fd < 0 then fs else fs\<lparr>fs_fds := (fs_fds fs)(nat fd := None)\<rparr>)"

definition fs_lookup :: "file_sys \<Rightarrow> int \<Rightarrow> (bytes \<times> nat) option" where
  "fs_lookup fs fd = (if fd < 0 then None else fs_fds fs (nat fd))"

text \<open>\<open>lseek(fd, addr, SEEK_SET)\<close>; \<open>off_t\<close> is signed.\<close>

definition fs_seek :: "file_sys \<Rightarrow> int \<Rightarrow> nat \<Rightarrow> int \<times> file_sys" where
  "fs_seek fs fd addr =
     (case fs_lookup fs fd of
        None \<Rightarrow> (-1, fs)
      | Some (path, pos) \<Rightarrow>
          if addr \<ge> 2147483648 then (-1, fs)
          else (int addr, fs\<lparr>fs_fds := (fs_fds fs)(nat fd \<mapsto> (path, addr))\<rparr>))"

text \<open>The bytes that \<open>read\<close> stores are the second component.\<close>

definition fs_read :: "file_sys \<Rightarrow> int \<Rightarrow> nat \<Rightarrow> int \<times> bytes \<times> file_sys" where
  "fs_read fs fd n =
     (case fs_lookup fs fd of
        None \<Rightarrow> (-1, [], fs)
      | Some (path, pos) \<Rightarrow>
          (case fs_files fs path of
             None \<Rightarrow> (-1, [], fs)
           | Some c \<Rightarrow>
               let bs = slice pos n c in
               (int (length bs), bs, fs\<lparr>fs_fds := (fs_fds fs)(nat fd \<mapsto> (path, pos + length bs))\<rparr>)))"

definition fs_put :: "bytes \<Rightarrow> nat \<Rightarrow> bytes \<Rightarrow> bytes" where
  "fs_put c pos bs = splice (c @ replicate (pos - length c) 0) pos bs"

definition fs_write :: "file_sys \<Rightarrow> int \<Rightarrow> bytes \<Rightarrow> int \<times> file_sys" where
  "fs_write fs fd bs =
     (case fs_lookup fs fd of
        None \<Rightarrow> (-1, fs)
      | Some (path, pos) \<Rightarrow>
          (case fs_files fs path of
             None \<Rightarrow> (-1, fs)
           | Some c \<Rightarrow>
               let ws = take (fs_file_max fs - pos) bs in
               if ws = [] \<and> bs \<noteq> [] then (-1, fs)
               else (int (length ws),
                     fs\<lparr>fs_files := (fs_files fs)(path \<mapsto> fs_put c pos ws),
                        fs_fds := (fs_fds fs)(nat fd \<mapsto> (path, pos + length ws))\<rparr>)))"

subsection \<open>Streams\<close>

text \<open>\<open>fopen\<close> with mode \<open>rb+\<close>, or \<open>wb+\<close> when \<open>trunc\<close> is set; \<^const>\<open>None\<close> is a null pointer.\<close>

definition fs_fopen :: "file_sys \<Rightarrow> bytes \<Rightarrow> bool \<Rightarrow> nat option \<times> file_sys" where
  "fs_fopen fs path trunc =
     (let (fd, fs) = fs_open fs path trunc in (if fd < 0 then None else Some (nat fd), fs))"

definition fs_fseek :: "file_sys \<Rightarrow> nat \<Rightarrow> nat \<Rightarrow> int \<times> file_sys" where
  "fs_fseek fs fp addr =
     (let (r, fs) = fs_seek fs (int fp) addr in (if r < 0 then -1 else 0, fs))"

text \<open>\<open>fread(buf, size, n, fp)\<close> and \<open>fwrite\<close> return the number of complete elements.\<close>

definition fs_fread :: "file_sys \<Rightarrow> nat \<Rightarrow> nat \<Rightarrow> nat \<Rightarrow> nat \<times> bytes \<times> file_sys" where
  "fs_fread fs fp sz n =
     (let (r, bs, fs) = fs_read fs (int fp) (sz * n) in
      (if r < 0 \<or> sz = 0 then 0 else nat r div sz, bs, fs))"

definition fs_fwrite :: "file_sys \<Rightarrow> nat \<Rightarrow> bytes \<Rightarrow> nat \<Rightarrow> nat \<Rightarrow> nat \<times> file_sys" where
  "fs_fwrite fs fp bs sz n =
     (let (r, fs) = fs_write fs (int fp) bs in (if r < 0 \<or> sz = 0 then 0 else nat r div sz, fs))"

subsection \<open>Text\<close>

fun nat_digits :: "nat \<Rightarrow> bytes" where
  "nat_digits n =
     (if n < 10 then [of_nat (48 + n)] else nat_digits (n div 10) @ [of_nat (48 + n mod 10)])"

definition int_text :: "int \<Rightarrow> bytes" where
  "int_text i = (if i < 0 then 45 # nat_digits (nat (- i)) else nat_digits (nat i))"

definition snprintf :: "nat \<Rightarrow> bytes \<Rightarrow> bytes" where
  "snprintf n s = take (n - 1) s"

declare nat_digits.simps [simp del]

subsection \<open>Facts\<close>

lemma fs_free_fd_Some: "fs_free_fd fs = Some i \<Longrightarrow> i < fs_open_max fs \<and> fs_fds fs i = None"
  by (auto simp: fs_free_fd_def find_Some_iff)

lemma fs_free_fd_None: "fs_free_fd fs = None \<longleftrightarrow> (\<forall>i < fs_open_max fs. fs_fds fs i \<noteq> None)"
  by (auto simp: fs_free_fd_def find_None_iff)

lemma fs_free_fd_ex:
  "i < fs_open_max fs \<Longrightarrow> fs_fds fs i = None \<Longrightarrow> \<exists>j. fs_free_fd fs = Some j"
  using fs_free_fd_None [of fs] by (cases "fs_free_fd fs") auto

lemma snprintf_all: "length s < n \<Longrightarrow> snprintf n s = s"
  by (simp add: snprintf_def)

lemma digit_inj: "a < 10 \<Longrightarrow> b < 10 \<Longrightarrow> (of_nat (48 + a) :: byte) = of_nat (48 + b) \<longleftrightarrow> a = b"
  by (simp add: word_unat_eq_iff unat_of_nat del: of_nat_add)

lemma nat_digits_not_Nil [simp]: "nat_digits n \<noteq> []"
  by (subst nat_digits.simps) simp

lemma nat_digits_length: "n < 10 ^ k \<Longrightarrow> 0 < k \<Longrightarrow> length (nat_digits n) \<le> k"
proof (induction k arbitrary: n)
  case (Suc k)
  show ?case
  proof (cases "n < 10")
    case False
    then have "0 < k" "n div 10 < 10 ^ k" using Suc.prems by (cases k; simp)+
    with Suc.IH have "length (nat_digits (n div 10)) \<le> k" by blast
    with False show ?thesis by (subst nat_digits.simps) simp
  qed (subst nat_digits.simps, simp)
qed simp

lemma nat_digits_inj: "nat_digits m = nat_digits n \<Longrightarrow> m = n"
proof (induction m arbitrary: n rule: nat_digits.induct)
  case (1 m)
  have r: "m mod 10 < 10" "n mod 10 < 10" by simp_all
  show ?case
  proof (cases "m < 10"; cases "n < 10")
    assume "m < 10" "n < 10"
    then show ?thesis using "1.prems" digit_inj by (simp add: nat_digits.simps [of m] nat_digits.simps [of n] del: of_nat_add)
  next
    assume "m < 10" "\<not> n < 10"
    then show ?thesis using "1.prems"
      by (simp add: nat_digits.simps [of m] nat_digits.simps [of n] nat_digits_not_Nil [symmetric])
  next
    assume "\<not> m < 10" "n < 10"
    then show ?thesis using "1.prems"
      by (simp add: nat_digits.simps [of m] nat_digits.simps [of n] nat_digits_not_Nil [symmetric])
  next
    assume "\<not> m < 10" "\<not> n < 10"
    then have "nat_digits (m div 10) = nat_digits (n div 10)" "m mod 10 = n mod 10"
      using "1.prems" digit_inj [OF r] by (simp_all add: nat_digits.simps [of m] nat_digits.simps [of n] del: of_nat_add)
    moreover have "m div 10 = n div 10" using "1.IH" calculation(1) \<open>\<not> m < 10\<close> by blast
    ultimately show ?thesis by (metis div_mult_mod_eq)
  qed
qed

end
