(* ===== verification/Os_Text.thy ===== *)
theory Os_Text
  imports Os_Files
begin

text \<open>
  The conversions of \<open>printf\<close> that the program uses: strings with a precision or a field width,
  and numbers in hexadecimal. Decimal numbers are in \<open>Os_Files\<close>. The two arguments of the
  hexadecimal conversions are the first letter used for the digit ten, and the number.
\<close>

definition hex_digit :: "nat \<Rightarrow> nat \<Rightarrow> byte" where
  "hex_digit a d = of_nat (if d < 10 then 48 + d else a + (d - 10))"

fun hex_digits :: "nat \<Rightarrow> nat \<Rightarrow> bytes" where
  "hex_digits a n = (if n < 16 then [hex_digit a n] else hex_digits a (n div 16) @ [hex_digit a (n mod 16)])"

declare hex_digits.simps [simp del]

text \<open>\<open>%08x\<close> and \<open>%08X\<close>.\<close>

definition hex08 :: "nat \<Rightarrow> nat \<Rightarrow> bytes" where
  "hex08 a n = replicate (8 - length (hex_digits a n)) 48 @ hex_digits a n"

definition fmt_x :: "nat \<Rightarrow> bytes" where
  "fmt_x = hex08 97"

definition fmt_X :: "nat \<Rightarrow> bytes" where
  "fmt_X = hex08 65"

text \<open>\<open>%.*s\<close>: at most so many bytes of an array, and none from its first zero on.\<close>

definition fmt_s :: "nat \<Rightarrow> bytes \<Rightarrow> bytes" where
  "fmt_s n s = takeWhile (\<lambda>b. b \<noteq> 0) (take n s)"

text \<open>\<open>%-*.*s\<close>: the same, filled up with blanks to the right.\<close>

definition fmt_ls :: "nat \<Rightarrow> nat \<Rightarrow> bytes \<Rightarrow> bytes" where
  "fmt_ls w n s = fmt_s n s @ replicate (w - length (fmt_s n s)) 32"

lemma hex_digits_length: "n < 16 ^ k \<Longrightarrow> 0 < k \<Longrightarrow> length (hex_digits a n) \<le> k"
proof (induction k arbitrary: n)
  case (Suc k)
  show ?case
  proof (cases "n < 16")
    case False
    then have "0 < k" "n div 16 < 16 ^ k" using Suc.prems by (cases k; simp add: less_mult_imp_div_less mult.commute)+
    with Suc.IH have "length (hex_digits a (n div 16)) \<le> k" by blast
    with False show ?thesis by (subst hex_digits.simps) simp
  qed (subst hex_digits.simps, simp)
qed simp

lemma hex08_length: "n < 4294967296 \<Longrightarrow> length (hex08 a n) = 8"
  using hex_digits_length [of n 8 a] by (simp add: hex08_def)

lemma hex08_length_le:
  assumes "n < 16 ^ k" "8 \<le> k"
  shows "length (hex08 a n) \<le> k"
proof -
  have "length (hex_digits a n) \<le> k" using assms by (intro hex_digits_length) simp_all
  then show ?thesis using assms(2) by (simp add: hex08_def)
qed

lemma fmt_s_length: "length (fmt_s n s) \<le> n"
proof -
  have "length (fmt_s n s) \<le> length (take n s)" unfolding fmt_s_def by (rule length_takeWhile_le)
  then show ?thesis by simp
qed

lemma fmt_s_all: "0 \<notin> set (take n s) \<Longrightarrow> fmt_s n s = take n s"
  unfolding fmt_s_def by (intro takeWhile_eq_all_conv [THEN iffD2]) auto

lemma fmt_ls_length: "length (fmt_ls w n s) = max w (length (fmt_s n s))"
  by (simp add: fmt_ls_def)

end
