(* ===== verification/Kvdb_Print.thy ===== *)
theory Kvdb_Print
  imports Kvdb_Upkeep Os_Text
begin

text \<open>
  Printing a key-value database (\<open>fdb_kv_print\<close>, \<open>print_kv_cb\<close>). What \<open>FDB_PRINT\<close> puts on the
  console is a result of the model; the log message about an uninitialised database is left out.
\<close>

subsection \<open>The code\<close>

text \<open>
  One pass over a value, from the label \<open>__reload\<close> to the end of the loop, through the buffer of 32
  bytes: without \<open>print_value\<close> it tests for a string, with it it prints. The result says whether the
  value still counts as a string.
\<close>

partial_function (option) print_value_loop ::
  "fdb_kvdb \<Rightarrow> fdb_kv \<Rightarrow> bool \<Rightarrow> bytes \<Rightarrow> nat \<Rightarrow> bytes \<Rightarrow> (bool \<times> bytes \<times> bytes) option" where
  "print_value_loop db kv print_value buf len out =
     (if len < kv_value_len kv then do {
        let sz = (if len + 32 < kv_value_len kv then 32 else kv_value_len kv - len);
        (err, rd) \<leftarrow> kv_flash_read db (u32 (kv_addr_value kv + len)) (take (FDB_WG_ALIGN sz) buf);
        let buf = rd @ drop (FDB_WG_ALIGN sz) buf;
        if print_value then print_value_loop db kv print_value buf (len + sz) (out @ fmt_s sz buf)
        else if \<not> fdb_is_str buf sz then Some (False, out, buf)
        else print_value_loop db kv print_value buf (len + sz) out
      } else Some (True, out, buf))"

definition print_kv_cb ::
  "fdb_kv \<Rightarrow> nat \<times> bytes \<Rightarrow> fdb_kvdb \<Rightarrow> (bool \<times> (nat \<times> bytes) \<times> fdb_kvdb) option" where
  "print_kv_cb kv arg db =
     (let (using_size, out) = arg in
      if kv_crc_is_ok kv then
        let using_size = using_size + kv_len kv in
        if kv_status kv = FDB_KV_WRITE then do {
          let out = out @ fmt_s (kv_name_len kv) (kv_name kv) @ cstr ''='';
          (value_is_str, out) \<leftarrow>
            (if kv_value_len kv < FDB_STR_KV_VALUE_MAX_SIZE then do {
               (value_is_str, out, buf) \<leftarrow>
                 print_value_loop db kv False (replicate 32 (kvdb_stk db)) 0 out;
               if value_is_str then do {
                 (value_is_str, out, buf) \<leftarrow> print_value_loop db kv True buf 0 out;
                 Some (value_is_str, out)
               }
               else Some (value_is_str, out)
             }
             else Some (False, out));
          let out = (if value_is_str then out
             else out @ cstr ''blob @0x'' @ fmt_X (kv_addr_value kv) @ cstr '' '' @ nat_digits (kv_value_len kv)
               @ cstr ''bytes'');
          Some (False, (using_size, out @ [10]), db)
        }
        else Some (False, (using_size, out), db)
      else Some (False, arg, db))"

definition fdb_kv_print :: "fdb_kvdb \<Rightarrow> (bytes \<times> fdb_kvdb) option" where
  "fdb_kv_print db =
     (if \<not> db_init_ok (kv_parent db) then Some ([], db)
      else do {
        let db = kvdb_lock db;
        (kv, (using_size, out), db) \<leftarrow> kv_iterator db (junk_kv (kvdb_stk db)) (0, []) print_kv_cb;
        let out = out @ [10] @ cstr ''mode: next generation'' @ [10]
          @ cstr ''size: ''
          @ nat_digits (u32 (using_size
              + u32_sub (kvdb_max_size db div kvdb_sec_size db) FDB_GC_EMPTY_SEC_THRESHOLD * SECTOR_HDR_DATA_SIZE))
          @ cstr ''/''
          @ nat_digits (u32_sub (kvdb_max_size db) (u32 (kvdb_sec_size db * FDB_GC_EMPTY_SEC_THRESHOLD)))
          @ cstr '' bytes.'' @ [10];
        Some (out, kvdb_unlock db)
      })"

subsection \<open>What is printed\<close>

text \<open>The line of a KV with its value at \<open>a\<close>: the value itself when it is a short string.\<close>

definition kv_text :: "bytes \<Rightarrow> nat \<Rightarrow> bytes" where
  "kv_text val a =
     (if length val < 128 \<and> fdb_is_str val (length val) then val
      else cstr ''blob @0x'' @ fmt_X a @ cstr '' '' @ nat_digits (length val) @ cstr ''bytes'')"

definition kv_line :: "kv_node \<Rightarrow> nat \<Rightarrow> bytes" where
  "kv_line n a = (case n of (st, key, val) \<Rightarrow> key @ cstr ''='' @ kv_text val (a + 24 + length key) @ [10])"

definition used_size :: "kv_node list \<Rightarrow> nat" where
  "used_size ns = sum_list (map (\<lambda>(st, key, val). node_size key val) ns)"

lemma is_str_append:
  "fdb_is_str (u @ v) (length u + n) = (fdb_is_str u (length u) \<and> fdb_is_str v n)"
  by (simp add: fdb_is_str_def)

lemma is_str_no_nul: "fdb_is_str s (length s) \<Longrightarrow> 0 \<notin> set s"
  by (auto simp: fdb_is_str_def list_all_iff u32_of_int_def)

subsection \<open>The passes over a value\<close>

lemma print_value_loop_eq:
  assumes ok: "kv_ok db" and img: "kv_addr_value kv + length val \<le> length (kv_img db)"
    and val: "slice (kv_addr_value kv) (length val) (kv_img db) = val" "kv_value_len kv = length val"
    and pv: "pv \<longrightarrow> 0 \<notin> set val"
  shows "length buf = 32 \<Longrightarrow> len \<le> length val \<Longrightarrow>
    \<exists>buf'. length buf' = 32 \<and> print_value_loop db kv pv buf len out
      = Some (pv \<or> fdb_is_str (drop len val) (length val - len), if pv then out @ drop len val else out, buf')"
proof (induction "length val - len" arbitrary: buf len out rule: less_induct)
  case less
  note bound = kvf.img_bound [OF ok]
  show ?case
  proof (cases "len < length val")
    case False
    then show ?thesis using less.prems val(2)
      by (intro exI [of _ buf], subst print_value_loop.simps) (simp add: fdb_is_str_def)
  next
    case True
    define sz where "sz = (if len + 32 < length val then 32 else length val - len)"
    have b: "0 < sz" "sz \<le> 32" "len + sz \<le> length val" using True by (auto simp: sz_def)
    have u: "u32 sz = sz" "u32 (kv_addr_value kv + len) = kv_addr_value kv + len"
      using b True img bound by (auto intro!: u32_id)
    let ?rd = "slice len sz val"
    have "slice (kv_addr_value kv + len) sz (kv_img db) = slice len sz (slice (kv_addr_value kv) (length val) (kv_img db))"
      using b by (simp add: slice_slice)
    then have rd: "kv_flash_read db (kv_addr_value kv + len) (take sz buf) = Some (FDB_NO_ERR, ?rd)"
      using ok img b less.prems(1) val(1) by (simp add: kvf.rd_in)
    have l: "length ?rd = sz" using b by simp
    let ?buf = "?rd @ drop sz buf"
    have lb: "length ?buf = 32" using l b less.prems(1) by simp
    have sp: "drop len val = ?rd @ drop (len + sz) val"
      using append_take_drop_id [of sz "drop len val"] by (simp add: slice_def add.commute)
    have str: "fdb_is_str (drop len val) (length val - len)
        = (fdb_is_str ?buf sz \<and> fdb_is_str (drop (len + sz) val) (length val - (len + sz)))"
      using is_str_append [of ?rd "drop (len + sz) val" "length val - (len + sz)"] b l
      by (simp add: sp fdb_is_str_def)
    have fm: "fmt_s sz ?buf = ?rd" if pv
    proof -
      have "0 \<notin> set ?rd" using that pv by (auto simp: slice_def dest: in_set_takeD in_set_dropD)
      then show ?thesis using l by (simp add: fmt_s_all)
    qed
    have dec: "length val - (len + sz) < length val - len" using True b(1) by linarith
    obtain buf' where i: "length buf' = 32" "print_value_loop db kv pv ?buf (len + sz) (if pv then out @ ?rd else out)
        = Some (pv \<or> fdb_is_str (drop (len + sz) val) (length val - (len + sz)),
            if pv then (out @ ?rd) @ drop (len + sz) val else out, buf')"
      using less.hyps [OF dec lb b(3), of "if pv then out @ ?rd else out"] by (cases pv) auto
    have less_len: "len < kv_value_len kv" and szif: "(if len + 32 < kv_value_len kv then 32 else kv_value_len kv - len) = sz"
      using True val(2) by (simp_all add: sz_def)
    have step: "print_value_loop db kv pv buf len out =
        (if pv then print_value_loop db kv pv ?buf (len + sz) (out @ ?rd)
         else if \<not> fdb_is_str ?buf sz then Some (False, out, ?buf)
         else print_value_loop db kv pv ?buf (len + sz) out)"
      using less_len fm by (subst print_value_loop.simps) (simp add: Let_def u rd szif)
    show ?thesis
    proof (cases "pv \<or> fdb_is_str ?buf sz")
      case True
      then show ?thesis using i step str sp by (intro exI [of _ buf']) (auto split: if_splits)
    next
      case False
      then show ?thesis using step str lb by (intro exI [of _ ?buf]) auto
    qed
  qed
qed

subsection \<open>The walk\<close>

text \<open>What the callback has made of the nodes that it has seen.\<close>

definition printed :: "nat \<Rightarrow> kv_sec list \<Rightarrow> kv_node list \<Rightarrow> nat \<times> bytes \<Rightarrow> bool" where
  "printed Z D ns arg \<longleftrightarrow> fst arg = used_size ns
     \<and> (\<exists>as. list_all2 (\<lambda>n a. node_in Z D a n) (filter is_written ns) as
          \<and> snd arg = concat (map2 kv_line (filter is_written ns) as))"

lemma printed_start: "printed Z D [] (0, [])"
  by (simp add: printed_def used_size_def)

lemma kv_at_value:
  assumes "kv_at m a st key val"
  shows "a + 24 + length key + length val \<le> length m" "slice (a + 24 + length key) (length val) m = val"
proof -
  have "slice (a + 24 + length key) (length val) m
      = slice (length key) (length val) (slice (a + 24) (length key + length val) m)"
    by (simp add: slice_slice)
  also have "\<dots> = val" using assms by (simp add: kv_at_def slice_def)
  finally show "slice (a + 24 + length key) (length val) m = val" .
qed (use assms in \<open>simp add: kv_at_def node_size_def\<close>)

lemma print_kv_cb_eq:
  assumes mem: "kv_mem db D" and n: "node_in (kvdb_sec_size db) D a (st, key, val)" and kv: "kv_wf kv"
    and p: "printed (kvdb_sec_size db) D ns arg"
  shows "\<exists>arg'. print_kv_cb (node_kv kv a st key val) arg db = Some (False, arg', db)
    \<and> printed (kvdb_sec_size db) D (ns @ [(st, key, val)]) arg'"
proof (cases "st = FDB_KV_WRITE")
  case False
  then show ?thesis using p
    by (cases arg) (simp add: print_kv_cb_def printed_def used_size_def)
next
  case True
  let ?kv = "node_kv kv a FDB_KV_WRITE key val"
  note n' = n [unfolded True]
  note nf = node_in_facts [OF mem n']
  have at: "kv_addr_value ?kv + length val \<le> length (kv_img db)"
    "slice (kv_addr_value ?kv) (length val) (kv_img db) = val"
    using kv_at_value [OF nf(1)] by simp_all
  obtain used out where arg: "arg = (used, out)" by (cases arg)
  have name: "fmt_s (length key) (kv_name ?kv) = key"
    using node_kv_name(2) [OF _ nf(4)] kv nf(5)
    by (auto simp: kv_wf_def fmt_s_def c_string_def takeWhile_eq_all_conv)
  let ?out = "out @ key @ cstr ''=''"
  note ok = kv_memD(1) [OF mem]
  obtain b where b: "length b = 32" "print_value_loop db ?kv False (replicate 32 (kvdb_stk db)) 0 ?out
      = Some (fdb_is_str val (length val), ?out, b)"
    using print_value_loop_eq [OF ok at, of False "replicate 32 (kvdb_stk db)" 0 ?out] by auto
  have "\<exists>b'. fdb_is_str val (length val) \<longrightarrow> print_value_loop db ?kv True b 0 ?out = Some (True, ?out @ val, b')"
    using print_value_loop_eq [OF ok at, of True b 0 ?out] is_str_no_nul [of val] b(1) by auto
  then obtain b' where b': "fdb_is_str val (length val) \<longrightarrow> print_value_loop db ?kv True b 0 ?out = Some (True, ?out @ val, b')"
    by blast
  have "print_kv_cb ?kv arg db = Some (False, (used + node_size key val, out @ kv_line (FDB_KV_WRITE, key, val) a), db)"
  proof (cases "length val < 128 \<and> fdb_is_str val (length val)")
    case True
    then show ?thesis using b' by (simp add: print_kv_cb_def arg name b(2) kv_line_def kv_text_def fdb_const del: One_nat_def)
  next
    case False
    then show ?thesis
      by (cases "length val < 128") (simp_all add: print_kv_cb_def arg name b(2) kv_line_def kv_text_def fdb_const Let_def)
  qed
  moreover have "printed (kvdb_sec_size db) D (ns @ [(FDB_KV_WRITE, key, val)]) (used + node_size key val, out @ kv_line (FDB_KV_WRITE, key, val) a)"
  proof -
    obtain as where as: "list_all2 (\<lambda>n a. node_in (kvdb_sec_size db) D a n) (filter is_written ns) as"
      "out = concat (map2 kv_line (filter is_written ns) as)" "used = used_size ns"
      using p by (auto simp: printed_def arg)
    note l = list_all2_lengthD [OF as(1)]
    show ?thesis unfolding printed_def using as n' l
      by (intro conjI exI [of _ "as @ [a]"])
        (simp_all add: used_size_def list_all2_appendI)
  qed
  ultimately show ?thesis unfolding True by blast
qed

lemma print_sector_eq:
  assumes mem: "kv_mem db D" and k: "k < length D"
    and v: "sec_addr c = k * kvdb_sec_size db" "sec_store c = ks_store (D ! k)"
    and ns: "ks_nodes (D ! k) \<noteq> []" and kv: "kv_wf kv" "kv_addr_start kv = k * kvdb_sec_size db + 16"
    and p: "printed (kvdb_sec_size db) D seen arg"
  shows "\<exists>kv' arg'. kv_iter_sector print_kv_cb db c kv arg = Some (False, kv', arg', db) \<and> kv_wf kv'
    \<and> printed (kvdb_sec_size db) D (seen @ ks_nodes (D ! k)) arg'"
proof -
  define Z where "Z = kvdb_sec_size db"
  let ?J = "\<lambda>ns arg db'. db' = db \<and> (\<exists>xs. ks_nodes (D ! k) = xs @ ns \<and> printed Z D (seen @ xs) arg)"
  have "\<exists>stop kv' arg' db'. kv_iter_sector print_kv_cb db c kv arg = Some (stop, kv', arg', db') \<and> kv_wf kv'
      \<and> (if stop then False else ?J [] arg' db')"
  proof (rule kv_iter_sector_rule [where J = ?J and R = "\<lambda>kv arg db. False" and D = D and k = k and Z = Z
        and ns = "ks_nodes (D ! k)" and xs = "[]"])
    fix xs st key val ns arg db' kv
    assume J: "?J ((st, key, val) # ns) arg db'" and xs: "ks_nodes (D ! k) = xs @ (st, key, val) # ns"
      and w: "kv_wf kv"
    let ?a = "nodes_end (k * Z + 16) xs"
    have db: "db' = db" and p: "printed (kvdb_sec_size db) D (seen @ xs) arg" using J xs by (auto simp: Z_def)
    have "node_in (kvdb_sec_size db) D ?a (st, key, val)" using xs k unfolding node_in_def Z_def by blast
    then obtain arg' where "print_kv_cb (node_kv kv ?a st key val) arg db = Some (False, arg', db)"
      "printed Z D ((seen @ xs) @ [(st, key, val)]) arg'"
      using print_kv_cb_eq [OF mem _ w p] unfolding Z_def by blast
    then show "\<exists>stop arg' db1. print_kv_cb (node_kv kv ?a st key val) arg db' = Some (stop, arg', db1)
        \<and> (if stop then False else ?J ns arg' db1)"
      using xs by (intro exI [of _ False] exI [of _ arg'] exI [of _ db]) (auto simp: db)
  qed (use mem k v ns kv p in \<open>auto simp: Z_def\<close>)
  then obtain stop kv' arg' db' where r: "kv_iter_sector print_kv_cb db c kv arg = Some (stop, kv', arg', db')" "kv_wf kv'"
    "if stop then False else ?J [] arg' db'" by blast
  have "\<not> stop" using r(3) by (cases stop) simp_all
  then show ?thesis using r by (intro exI [of _ kv'] exI [of _ arg']) (auto simp: Z_def)
qed

text \<open>The nodes in the order in which a walk over the sectors \<open>ks\<close> meets them.\<close>

abbreviation walk_list :: "kv_sec list \<Rightarrow> nat list \<Rightarrow> kv_node list" where
  "walk_list D ks \<equiv> concat (map (\<lambda>j. ks_nodes (D ! j)) ks)"

lemma print_walk_eq:
  assumes mem: "kv_mem db D" and kv: "kv_wf kv"
  shows "\<exists>kv' arg t ns. kv_iterator db kv (0, []) print_kv_cb = Some (kv', arg, db\<lparr>kv_sector_cache_table := t\<rparr>)
    \<and> sc_agrees (kvdb_sec_size db) D t \<and> mset ns = mset (all_nodes D) \<and> printed (kvdb_sec_size db) D ns arg"
proof -
  define N where "N = length D"
  define Z where "Z = kvdb_sec_size db"
  obtain o' where o': "o' < N" "kvdb_oldest_addr db = o' * Z" "Suc (N - 1) = N" "(N - Suc (N - 1)) * Z = 0"
    using start_walk [OF mem] unfolding N_def Z_def .
  let ?all = "walk_list D (kvr.walk N o' N)"
  let ?I = "\<lambda>ks arg db' D'. D' = D \<and> (\<exists>t ns. db' = db\<lparr>kv_sector_cache_table := t\<rparr> \<and> sc_agrees Z D t
     \<and> printed Z D ns arg \<and> ?all = ns @ walk_list D ks)"
  have m: "kv_mem (db\<lparr>kv_sector_cache_table := t\<rparr>) D" if "sc_agrees Z D t" for t
    using mem that unfolding Z_def by (rule kv_mem_sc)
  have "\<exists>kv' arg db' D'. kv_iter_loop print_kv_cb db kv (0, []) (junk_sec (kvdb_stk db)) (o' * Z)
      ((N - Suc (N - 1)) * Z) = Some (kv', arg, db') \<and> kv_wf kv' \<and> (False \<or> ?I [] arg db' D')"
  proof (rule kv_iter_rule [where I = ?I and R = "\<lambda>kv arg db D. False" and N = N and Z = Z and D = D])
    fix ks arg db' D'
    assume "?I ks arg db' D'"
    then show "kv_mem db' D' \<and> length D' = N \<and> kvdb_sec_size db' = Z" using m by (auto simp: N_def Z_def)
  next
    fix ks arg db' D' t
    assume "?I ks arg db' D'" "sc_agrees Z D' t"
    then show "?I ks arg (db'\<lparr>kv_sector_cache_table := t\<rparr>) D'" by auto
  next
    fix k ks arg db' D' c kv
    assume I: "?I (k # ks) arg db' D'" and k: "k < N" and v: "sec_view (k * Z) (D' ! k) c"
      and ne: "ks_nodes (D' ! k) \<noteq> []" and kv: "kv_wf kv" "kv_addr_start kv = k * Z + 16"
    obtain t ns where i: "D' = D" "db' = db\<lparr>kv_sector_cache_table := t\<rparr>" "sc_agrees Z D t" "printed Z D ns arg"
      "?all = ns @ walk_list D (k # ks)" using I by blast
    obtain kv' arg' where "kv_iter_sector print_kv_cb db' c kv arg = Some (False, kv', arg', db')" "kv_wf kv'"
      "printed Z D (ns @ ks_nodes (D ! k)) arg'"
      using print_sector_eq [of db' D k c kv ns arg] m [OF i(3)] i(1,2,4) k v ne kv
      by (auto simp: N_def Z_def sec_view_def)
    then show "\<exists>stop kv' arg' db'' D''. kv_iter_sector print_kv_cb db' c kv arg = Some (stop, kv', arg', db'')
        \<and> kv_wf kv' \<and> (if stop then False else ?I ks arg' db'' D'')"
      using i by (intro exI [of _ False] exI [of _ kv'] exI [of _ arg'] exI [of _ db'] exI [of _ D]) auto
  next
    fix k ks arg db' D'
    assume "?I (k # ks) arg db' D'" "ks_nodes (D' ! k) = []"
    then show "?I ks arg db' D'" by auto
  next
    have "db = db\<lparr>kv_sector_cache_table := kv_sector_cache_table db\<rparr>" by simp
    then show "?I (kvr.walk N o' (Suc (N - 1))) (0, []) db D" unfolding o'(3)
      using kv_memD(9) [OF mem] printed_start [of Z D] unfolding Z_def by force
  qed (use o' kv in auto)
  then obtain kv' arg db' D' where r: "kv_iter_loop print_kv_cb db kv (0, []) (junk_sec (kvdb_stk db)) (o' * Z) 0
      = Some (kv', arg, db')" "?I [] arg db' D'" unfolding o'(4) by blast
  then obtain t where t: "db' = db\<lparr>kv_sector_cache_table := t\<rparr>" "sc_agrees Z D t" "printed Z D ?all arg" by auto
  have "mset ?all = mset (all_nodes D)" using walk_nodes [of o' D] o'(1) by (simp add: N_def)
  then show ?thesis using r t unfolding Z_def
    by (intro exI [of _ kv'] exI [of _ arg] exI [of _ t] exI [of _ ?all]) (simp add: kv_iterator_def o'(2) Z_def)
qed

subsection \<open>The property\<close>

lemma used_size_simps [simp]:
  "used_size [] = 0" "used_size ((st, key, val) # ns) = node_size key val + used_size ns"
  "used_size (ms @ ns) = used_size ms + used_size ns"
  by (simp_all add: used_size_def)

lemma used_size_perm:
  assumes "mset ms = mset ns"
  shows "used_size ms = used_size ns"
proof -
  have "used_size ns = (\<Sum>n \<in># mset ns. case n of (st, key, val) \<Rightarrow> node_size key val)" for ns
    unfolding used_size_def by (simp only: sum_mset_sum_list mset_map [symmetric])
  then show ?thesis using assms by simp
qed

lemma nodes_end_used: "nodes_end a ns = a + used_size ns"
proof (induction ns arbitrary: a)
  case (Cons n ns)
  obtain st key val where "n = (st, key, val)" by (metis prod_cases3)
  then show ?case using Cons.IH [of "a + node_size key val"] by simp
qed simp

lemma used_total:
  assumes "kv_mem db D"
  shows "used_size (all_nodes D) + length D * 16 \<le> kvdb_max_size db"
proof -
  let ?Z = "kvdb_sec_size db"
  have "used_size (ks_nodes s) + 16 \<le> ?Z" if sD: "s \<in> set D" for s
  proof -
    obtain k where k: "k < length D" "D ! k = s" using sD unfolding in_set_conv_nth by blast
    show ?thesis using kv_sectorD(4) [OF kv_memD(6) [OF assms k(1)]] k(2) by (simp add: nodes_end_used)
  qed
  then have "used_size (all_nodes D) + length D * 16 \<le> length D * ?Z"
    unfolding all_nodes_def by (induction D) fastforce+
  then show ?thesis using kv_memD(4) [OF assms] kv_mem_size [OF assms] by simp
qed

text \<open>The lines and the values, from the addresses of the nodes to those of the values.\<close>

definition value_addrs :: "kv_node list \<Rightarrow> nat list \<Rightarrow> nat list" where
  "value_addrs ns as = map2 (\<lambda>n a. a + 24 + length (fst (snd n))) ns as"

lemma lines_of_nodes:
  assumes mem: "kv_mem db D" and "list_all2 (\<lambda>n a. node_in (kvdb_sec_size db) D a n) ns as"
  shows "map2 kv_line ns as
      = map2 (\<lambda>(key, val) a. key @ cstr ''='' @ kv_text val a @ [10]) (map snd ns) (value_addrs ns as)"
    "list_all2 (\<lambda>(key, val) a. slice a (length val) (kv_img db) = val) (map snd ns) (value_addrs ns as)"
  unfolding atomize_conj using assms(2)
proof (induction rule: list_all2_induct)
  case (Cons n ns a as)
  obtain st key val where n: "n = (st, key, val)" by (metis prod_cases3)
  show ?case using Cons kv_at_value(2) [OF node_in_facts(1) [OF mem Cons(1) [unfolded n]]]
    by (simp add: value_addrs_def n kv_line_def)
qed (simp add: value_addrs_def)

text \<open>C15: Printing a database puts one line on the console for each KV of the map and then its size:
  the keys printed are distinct, and they are the keys of the map with their values. A value of less
  than 128 printable bytes is printed as it is, every other one as its address on flash and its
  length. The size counts the KVs of every status and the headers of all sectors but one. The
  database stays as it was.\<close>

theorem kv_print_lists_map:
  assumes "kv_state db D" "db_init_ok (kv_parent db)" "db_lock_set (kv_parent db) = db_unlock_set (kv_parent db)"
  shows "\<exists>l as db'. fdb_kv_print db = Some (concat (map2 (\<lambda>(key, val) a. key @ cstr ''='' @ kv_text val a @ [10]) l as)
        @ [10] @ cstr ''mode: next generation'' @ [10] @ cstr ''size: ''
        @ nat_digits (used_size (all_nodes D) + (length D - 1) * 16) @ cstr ''/''
        @ nat_digits (kvdb_max_size db - kvdb_sec_size db) @ cstr '' bytes.'' @ [10], db')
    \<and> kv_state db' D \<and> kv_cfg db' = kv_cfg db \<and> kv_img db' = kv_img db
    \<and> distinct (map fst l) \<and> map_of l = kv_map D
    \<and> list_all2 (\<lambda>(key, val) a. slice a (length val) (kv_img db) = val) l as"
proof -
  let ?db = "kvdb_lock db" let ?Z = "kvdb_sec_size db"
  note s = kv_stateD [OF assms(1)]
  have st: "kv_state ?db D" using assms(1) by simp
  note m = kv_stateD(7) [OF st]
  obtain kv used out t ns where w: "kv_iterator ?db (junk_kv (kvdb_stk ?db)) (0, []) print_kv_cb
      = Some (kv, (used, out), ?db\<lparr>kv_sector_cache_table := t\<rparr>)"
    "sc_agrees (kvdb_sec_size ?db) D t" "mset ns = mset (all_nodes D)" "printed (kvdb_sec_size ?db) D ns (used, out)"
    using print_walk_eq [OF m kv_wf_junk] by (metis prod.exhaust)
  let ?db' = "kvdb_unlock (?db\<lparr>kv_sector_cache_table := t\<rparr>)"
  obtain as where as: "list_all2 (\<lambda>n a. node_in ?Z D a n) (filter is_written ns) as"
    "out = concat (map2 kv_line (filter is_written ns) as)" using w(4) by (auto simp: printed_def)
  have used: "used = used_size (all_nodes D)" using w(4) used_size_perm [OF w(3)] by (simp add: printed_def)
  let ?l = "map snd (filter is_written ns)"
  have "mset ?l = live_ms D" using w(3) by (simp add: live_ms_def live_def)
  note l = live_list [OF this s(8)]
  note lines = lines_of_nodes [OF s(7) as(1)]
  have n: "kvdb_max_size db div ?Z = length D" using kv_state_length [OF assms(1)] by simp
  have b: "used_size (all_nodes D) + length D * 16 < 4294967296" "1 \<le> length D" "?Z \<le> kvdb_max_size db" "kvdb_max_size db < 4294967296"
    using used_total [OF s(7)] kv_memD(2,3,4,8) [OF s(7)] kv_mem_size [OF s(7)] by (simp_all add: mult_le_mono)
  have sz: "u32 (used + u32_sub (kvdb_max_size db div ?Z) FDB_GC_EMPTY_SEC_THRESHOLD * SECTOR_HDR_DATA_SIZE)
      = used_size (all_nodes D) + (length D - 1) * 16"
    "u32_sub (kvdb_max_size db) (u32 (?Z * FDB_GC_EMPTY_SEC_THRESHOLD)) = kvdb_max_size db - ?Z"
    using b by (simp_all add: n used fdb_const u32_sub_id u32_id SECTOR_HDR_DATA_SIZE_def)
  have run: "fdb_kv_print db = Some (out @ [10] @ cstr ''mode: next generation'' @ [10] @ cstr ''size: ''
      @ nat_digits (used_size (all_nodes D) + (length D - 1) * 16) @ cstr ''/''
      @ nat_digits (kvdb_max_size db - ?Z) @ cstr '' bytes.'' @ [10], ?db')"
    unfolding sz [symmetric] using assms(2) by (simp add: fdb_kv_print_def w(1) [unfolded kvdb_lock_simps] Let_def)
  have "kv_state (?db\<lparr>kv_sector_cache_table := t\<rparr>) D"
    using st kv_mem_sc [OF m w(2)] by (simp add: kv_state_def kv_rep_def)
  then have "kv_state ?db' D" by simp
  moreover have "kv_cfg ?db' = kv_cfg db" using assms(3) by (intro kv_cfg_locked) (simp_all add: kv_cfg_def)
  moreover have "kv_img ?db' = kv_img db"
  proof -
    have "kv_img (?db\<lparr>kv_sector_cache_table := t\<rparr>) = kv_img ?db" by (simp add: kv_img_def)
    then show ?thesis by simp
  qed
  ultimately show ?thesis using run [unfolded as(2) lines(1)] l lines(2)
    by (intro exI [of _ ?l] exI [of _ "value_addrs (filter is_written ns) as"] exI [of _ ?db'] conjI)
qed

theorem kv_print_lists_map_witness:
  "\<exists>a rest db'. fdb_kv_print (demo_kv1 3) = Some (cstr ''k=blob @0x'' @ fmt_X a @ cstr '' 2bytes'' @ [10] @ rest, db')
    \<and> slice a 2 (kv_img (demo_kv1 3)) = [1, 2]"
proof -
  obtain D where d: "kv_state (demo_kv1 3) D" "kv_map D = [cstr ''k'' \<mapsto> [1, 2]]" using demo_kv1_state(1) [of 3] by auto
  have "db_init_ok (kv_parent (demo_kv1 3))" "db_lock_set (kv_parent (demo_kv1 3)) = db_unlock_set (kv_parent (demo_kv1 3))"
    using demo_kv1_state(6,7) [of 3] by simp_all
  from kv_print_lists_map [OF d(1) this] obtain l as db' rest where
    p: "fdb_kv_print (demo_kv1 3)
      = Some (concat (map2 (\<lambda>(key, val) a. key @ cstr ''='' @ kv_text val a @ [10]) l as) @ rest, db')"
      "distinct (map fst l)" "map_of l = [cstr ''k'' \<mapsto> [1, 2]]"
      "list_all2 (\<lambda>(key, val) a. slice a (length val) (kv_img (demo_kv1 3)) = val) l as" unfolding d(2) by blast
  have l: "l = [(cstr ''k'', [1, 2])]" using p(2,3) by (rule singleton_list)
  then obtain a where a: "as = [a]" "slice a 2 (kv_img (demo_kv1 3)) = [1, 2]"
    using p(4) by (auto simp: list_all2_Cons1 numeral_2_eq_2)
  have "kv_text [1, 2] a = cstr ''blob @0x'' @ fmt_X a @ cstr '' 2bytes''"
    by (simp add: kv_text_def fdb_is_str_def u32_of_int_def nat_digits.simps cstr_def)
  then show ?thesis using p(1) a(2) unfolding l a(1) by (intro exI [of _ a] exI [of _ rest] exI [of _ db']) (simp add: cstr_def)
qed

end
