(* ===== verification/Kvdb_Trace.thy ===== *)
theory Kvdb_Trace
  imports Kvdb_Upkeep
begin

text \<open>
  Sequences of calls. \<open>kv_call\<close> is the step relation of the database with its events: one call of
  the API with what it returned, or a power cycle. \<open>map_call\<close> is the same on an abstract map, where
  setting may fail because the flash is full. Every run of the database is a run of the map, and
  every state it reaches is a state between two calls.
\<close>

subsection \<open>Events and steps\<close>

datatype kv_event =
    Ev_set bytes bytes fdb_err
  | Ev_del bytes fdb_err
  | Ev_get bytes nat bytes
  | Ev_default fdb_err
  | Ev_restart fdb_err

text \<open>A blob over a buffer of the caller, and the bytes that a get of at most \<open>n\<close> bytes delivers.\<close>

definition buf_blob :: "bytes \<Rightarrow> fdb_blob" where
  "buf_blob buf = fdb_blob_make \<lparr>blob_buf = None, blob_size = 0, blob_saved_meta_addr = 0, blob_saved_addr = 0,
     blob_saved_len = 0\<rparr> (Some buf) (length buf)"

definition blob_data :: "nat \<Rightarrow> fdb_blob \<Rightarrow> bytes" where
  "blob_data n blob = (case blob_buf blob of None \<Rightarrow> [] | Some buf \<Rightarrow> take n buf)"

inductive kv_call :: "fdb_kvdb \<Rightarrow> kv_event \<Rightarrow> fdb_kvdb \<Rightarrow> bool" where
  set: "fdb_kv_set_blob db key (buf_blob val) = Some (err, db') \<Longrightarrow> kv_call db (Ev_set key val err) db'"
| del: "fdb_kv_del db key = Some (err, db') \<Longrightarrow> kv_call db (Ev_del key err) db'"
| get: "fdb_kv_get_blob db key (buf_blob (replicate n 0)) = Some (len, blob, db') \<Longrightarrow>
    kv_call db (Ev_get key n (blob_data len blob)) db'"
| default: "fdb_kv_set_default db = Some (err, db') \<Longrightarrow> kv_call db (Ev_default err) db'"
| restart: "kv_fresh_ram db0 \<Longrightarrow> kv_parent db0 = kv_parent db \<Longrightarrow>
    kvdb_init_load db0 (Some (kv_default_kvs db)) = Some (err, db') \<Longrightarrow> kv_call db (Ev_restart err) db'"

inductive_cases kv_call_setE: "kv_call db (Ev_set key val err) db'"
inductive_cases kv_call_delE: "kv_call db (Ev_del key err) db'"
inductive_cases kv_call_getE: "kv_call db (Ev_get key n v) db'"
inductive_cases kv_call_defaultE: "kv_call db (Ev_default err) db'"
inductive_cases kv_call_restartE: "kv_call db (Ev_restart err) db'"

lemmas kv_callE = kv_call_setE kv_call_delE kv_call_getE kv_call_defaultE kv_call_restartE

inductive kv_calls :: "fdb_kvdb \<Rightarrow> kv_event list \<Rightarrow> fdb_kvdb \<Rightarrow> bool" where
  Nil: "kv_calls db [] db"
| Cons: "kv_call db e db' \<Longrightarrow> kv_calls db' es db'' \<Longrightarrow> kv_calls db (e # es) db''"

subsection \<open>The same on a map\<close>

type_synonym kv_store = "bytes \<Rightarrow> bytes option"

inductive map_call :: "kv_store \<Rightarrow> kv_store \<Rightarrow> kv_event \<Rightarrow> kv_store \<Rightarrow> bool" for defaults :: kv_store where
  set_ok: "map_call defaults m (Ev_set key val FDB_NO_ERR) (m(key \<mapsto> val))"
| set_full: "map_call defaults m (Ev_set key val FDB_SAVED_FULL) m"
| del: "map_call defaults m (Ev_del key (if m key = None then FDB_KV_NAME_ERR else FDB_NO_ERR)) (m(key := None))"
| get: "map_call defaults m (Ev_get key n (case m key of None \<Rightarrow> [] | Some val \<Rightarrow> take n val)) m"
| default: "m' \<subseteq>\<^sub>m defaults \<Longrightarrow> map_call defaults m (Ev_default FDB_NO_ERR) m'"
| restart: "map_call defaults m (Ev_restart FDB_NO_ERR) m"

inductive map_calls :: "kv_store \<Rightarrow> kv_store \<Rightarrow> kv_event list \<Rightarrow> kv_store \<Rightarrow> bool" for defaults :: kv_store where
  Nil: "map_calls defaults m [] m"
| Cons: "map_call defaults m e m' \<Longrightarrow> map_calls defaults m' es m'' \<Longrightarrow> map_calls defaults m (e # es) m''"

subsection \<open>The simulation\<close>

text \<open>
  The keys in use, \<open>K\<close>, have distinct 16-bit CRCs; an event uses keys of \<open>K\<close> and values that
  a 32-bit length can hold.
\<close>

definition keys_ok :: "bytes set \<Rightarrow> bool" where
  "keys_ok K \<longleftrightarrow> inj_on kv_name_crc K \<and> (\<forall>key \<in> K. key_ok key)"

fun event_ok :: "bytes set \<Rightarrow> kv_event \<Rightarrow> bool" where
  "event_ok K (Ev_set key val err) \<longleftrightarrow> key \<in> K \<and> node_size key val < 2147483648"
| "event_ok K (Ev_del key err) \<longleftrightarrow> key \<in> K"
| "event_ok K (Ev_get key n v) \<longleftrightarrow> key \<in> K"
| "event_ok K (Ev_default err) \<longleftrightarrow> True"
| "event_ok K (Ev_restart err) \<longleftrightarrow> True"

definition defaults_ok :: "bytes set \<Rightarrow> fdb_default_kv_node list \<Rightarrow> bytes list \<Rightarrow> bool" where
  "defaults_ok K ds vals \<longleftrightarrow> list_all2 default_ok ds vals \<and> distinct (map dkv_key ds) \<and> dkv_key ` set ds \<subseteq> K"

text \<open>The invariant of a database that is in use.\<close>

definition kv_inv :: "bytes set \<Rightarrow> fdb_default_kv_node list \<Rightarrow> fdb_kvdb \<Rightarrow> kv_sec list \<Rightarrow> bool" where
  "kv_inv K ds db D \<longleftrightarrow>
     kv_state db D \<and> dom (kv_map D) \<subseteq> K \<and> db_init_ok (kv_parent db)
   \<and> db_lock_set (kv_parent db) = db_unlock_set (kv_parent db) \<and> kv_default_kvs db = ds"

lemma kv_inv_cfg:
  assumes "kv_inv K ds db D" "kv_state db' D'" "kv_cfg db' = kv_cfg db" "dom (kv_map D') \<subseteq> K"
  shows "kv_inv K ds db' D'"
  using assms kv_cfg_fields [OF assms(3)] by (simp add: kv_inv_def)

lemma no_clash_keys:
  assumes "keys_ok K" "dom (kv_map D) \<subseteq> K" "key \<in> K"
  shows "no_clash D key" "key_ok key"
proof -
  have "dom (kv_map D) = fst ` set (live D)" by (simp add: kv_map_def dom_map_of_conv_image_fst)
  then show "no_clash D key" "key_ok key"
    using assms unfolding no_clash_def keys_ok_def inj_on_def by auto
qed

lemma kv_call_map:
  assumes K: "keys_ok K" "defaults_ok K ds vals" and inv: "kv_inv K ds db D"
    and e: "kv_call db e db'" "event_ok K e"
  shows "\<exists>D'. kv_inv K ds db' D' \<and> map_call (map_of (zip (map dkv_key ds) vals)) (kv_map D) e (kv_map D')"
proof -
  note i = inv [unfolded kv_inv_def, THEN conjunct1]
  have db: "db_init_ok (kv_parent db)" "db_lock_set (kv_parent db) = db_unlock_set (kv_parent db)"
    "dom (kv_map D) \<subseteq> K" "kv_default_kvs db = ds" using inv by (simp_all add: kv_inv_def)
  note nk = no_clash_keys [OF K(1) db(3)]
  have bb: "blob_buf (buf_blob buf) = Some buf" "blob_size (buf_blob buf) = length buf" for buf
    by (simp_all add: buf_blob_def fdb_blob_make_def)
  show ?thesis
  proof (cases e)
    case (Ev_set key val err)
    then have k: "key \<in> K" "node_size key val < 2147483648" using e(2) by simp_all
    obtain err' db1 D1 where s: "fdb_kv_set_blob db key (buf_blob val) = Some (err', db1)" "kv_state db1 D1"
      "kv_cfg db1 = kv_cfg db"
      "err' = FDB_NO_ERR \<and> kv_map D1 = (kv_map D)(key \<mapsto> val) \<or> err' = FDB_SAVED_FULL \<and> kv_map D1 = kv_map D"
      using set_blob_state [OF i db(1,2) nk [OF k(1)] bb(1), of val] k(2) by (auto simp: bb)
    have "db' = db1" "err = err'" using e(1) s(1) unfolding Ev_set by (auto elim: kv_call_setE)
    moreover have "dom (kv_map D1) \<subseteq> K" using s(4) db(3) k(1) by (elim disjE conjE) simp_all
    moreover from this have "kv_inv K ds db1 D1" using kv_inv_cfg [OF inv s(2,3)] by simp
    ultimately show ?thesis unfolding Ev_set
      using s(4) map_call.set_ok [of _ "kv_map D" key val] map_call.set_full [of _ "kv_map D" key val]
      by (intro exI [of _ D1]) auto
  next
    case (Ev_del key err)
    then have k: "key \<in> K" using e(2) by simp
    note nk = nk [OF k]
    obtain db1 D1 where s: "fdb_kv_del db key = Some (if kv_map D key = None then FDB_KV_NAME_ERR else FDB_NO_ERR, db1)"
      "kv_state db1 D1" "kv_cfg db1 = kv_cfg db" "kv_map D1 = (kv_map D)(key := None)"
      using del_call_state [OF i db(1,2) nk] by blast
    have "db' = db1" "err = (if kv_map D key = None then FDB_KV_NAME_ERR else FDB_NO_ERR)"
      using e(1) s(1) unfolding Ev_del by (auto elim: kv_call_delE)
    moreover have "dom (kv_map D1) \<subseteq> K" using s(4) db(3) by (auto split: if_splits)
    moreover from this have "kv_inv K ds db1 D1" using kv_inv_cfg [OF inv s(2,3)] by simp
    ultimately show ?thesis unfolding Ev_del using s(4) map_call.del [of _ "kv_map D" key] by (intro exI [of _ D1]) simp
  next
    case (Ev_get key n v)
    then have k: "key \<in> K" using e(2) by simp
    let ?b = "buf_blob (replicate n 0)"
    have le: "blob_size ?b \<le> length (replicate n 0)" by (simp add: bb)
    obtain db1 where s: "kv_state db1 D" "kv_cfg db1 = kv_cfg db" "fdb_kv_get_blob db key ?b = (case kv_map D key of
        None \<Rightarrow> Some (0, ?b\<lparr>blob_saved_len := 0\<rparr>, db1)
      | Some val \<Rightarrow> let l = min (blob_size ?b) (length val) in
          Some (l, ?b\<lparr>blob_buf := Some (take l val @ drop l (replicate n 0)), blob_saved_len := length val\<rparr>, db1))"
      using get_blob_state [OF i db(1,2) nk [OF k] bb(1) le] by blast
    have "db' = db1 \<and> v = (case kv_map D key of None \<Rightarrow> [] | Some val \<Rightarrow> take n val)"
      using e(1) unfolding Ev_get by (rule kv_call_getE) (use s(3) in \<open>auto simp: bb blob_data_def Let_def min_def split: option.splits if_splits\<close>)
    moreover have "kv_inv K ds db1 D" using kv_inv_cfg [OF inv s(1,2) db(3)] .
    ultimately show ?thesis unfolding Ev_get using map_call.get [of _ "kv_map D" key n] by auto
  next
    case (Ev_default err)
    have ds: "list_all2 default_ok (kv_default_kvs db) vals" "distinct (map dkv_key (kv_default_kvs db))"
      using K(2) by (simp_all add: defaults_ok_def db(4))
    obtain db1 D1 where s: "fdb_kv_set_default db = Some (FDB_NO_ERR, db1)" "kv_state db1 D1" "kv_cfg db1 = kv_cfg db"
      "kv_map D1 \<subseteq>\<^sub>m map_of (zip (map dkv_key ds) vals)"
      using default_call_state [OF i db(2) ds] unfolding db(4) by blast
    have "db' = db1" "err = FDB_NO_ERR" using e(1) s(1) unfolding Ev_default by (auto elim: kv_call_defaultE)
    moreover have "dom (map_of (zip (map dkv_key ds) vals)) \<subseteq> K"
      using K(2) list_all2_lengthD [of default_ok ds vals] by (simp add: defaults_ok_def dom_map_of_zip)
    then have "dom (kv_map D1) \<subseteq> K" using map_le_implies_dom_le [OF s(4)] by blast
    then have "kv_inv K ds db1 D1" using kv_inv_cfg [OF inv s(2,3)] by simp
    ultimately show ?thesis unfolding Ev_default using s(4) map_call.default by blast
  next
    case (Ev_restart err)
    obtain db0 where z: "kv_fresh_ram db0" "kv_parent db0 = kv_parent db"
      "kvdb_init_load db0 (Some (kv_default_kvs db)) = Some (err, db')"
      using e(1) unfolding Ev_restart by (rule kv_call_restartE)
    have k0: "kv_ok db0" "kv_img db0 = kv_img db" "kvdb_sec_size db0 = kvdb_sec_size db" "kvdb_max_size db0 = kvdb_max_size db"
      using z(2) kv_memD(1) [OF kv_stateD(7) [OF i]] by (simp_all add: kv_ok_def kv_img_def)
    obtain db1 where s: "kvdb_init_load db0 (Some ds) = Some (FDB_NO_ERR, db1)" "kv_state db1 D"
      "kv_cfg db1 = kv_cfg (db0\<lparr>kv_in_recovery_check := False, kv_default_kvs := ds\<rparr>)"
      using reboot_state [OF i k0(1) z(1) k0(2-4), of "Some ds"] db(2) z(2) by auto
    have "db' = db1" "err = FDB_NO_ERR" using z(3) s(1) db(4) by simp_all
    moreover have "kv_inv K ds db1 D"
      using s(2) db(1-3) kv_cfg_fields [OF s(3)] z(2) by (simp add: kv_inv_def)
    ultimately show ?thesis unfolding Ev_restart using map_call.restart by blast
  qed
qed

lemma kv_calls_map:
  assumes "keys_ok K" "defaults_ok K ds vals" "kv_inv K ds db D"
    and "kv_calls db es db'" "\<forall>e \<in> set es. event_ok K e"
  shows "\<exists>D'. kv_inv K ds db' D' \<and> map_calls (map_of (zip (map dkv_key ds) vals)) (kv_map D) es (kv_map D')"
  using assms(4,3,5)
proof (induction arbitrary: D)
  case (Nil db)
  then show ?case using map_calls.Nil by blast
next
  case (Cons db e db1 es db')
  obtain D1 where d: "kv_inv K ds db1 D1" "map_call (map_of (zip (map dkv_key ds) vals)) (kv_map D) e (kv_map D1)"
    using kv_call_map [OF assms(1,2) Cons.prems(1) Cons.hyps(1)] Cons.prems(2) by auto
  then show ?case using Cons.IH [OF d(1)] Cons.prems(2) map_calls.Cons [OF d(2)] by auto
qed

subsection \<open>What a run of the map keeps\<close>

inductive_cases map_calls_NilE: "map_calls d m [] m'"
inductive_cases map_calls_ConsE: "map_calls d m (e # es) m'"
inductive_cases map_call_setE: "map_call d m (Ev_set key val err) m'"
inductive_cases map_call_delE: "map_call d m (Ev_del key err) m'"
inductive_cases map_call_getE: "map_call d m (Ev_get key n v) m'"
inductive_cases map_call_restartE: "map_call d m (Ev_restart err) m'"

lemmas map_callE = map_call_setE map_call_delE map_call_getE map_call_restartE

fun changes :: "bytes \<Rightarrow> kv_event \<Rightarrow> bool" where
  "changes key (Ev_set key' val err) \<longleftrightarrow> key' = key"
| "changes key (Ev_del key' err) \<longleftrightarrow> key' = key"
| "changes key (Ev_get key' n v) \<longleftrightarrow> False"
| "changes key (Ev_default err) \<longleftrightarrow> True"
| "changes key (Ev_restart err) \<longleftrightarrow> False"

lemma map_calls_append: "map_calls d m (es @ es') m' \<longleftrightarrow> (\<exists>m1. map_calls d m es m1 \<and> map_calls d m1 es' m')"
proof
  show "map_calls d m (es @ es') m' \<Longrightarrow> \<exists>m1. map_calls d m es m1 \<and> map_calls d m1 es' m'"
    by (induction es arbitrary: m) (auto intro: map_calls.intros elim: map_calls_ConsE, blast intro: map_calls.intros elim: map_calls_ConsE)
  assume "\<exists>m1. map_calls d m es m1 \<and> map_calls d m1 es' m'"
  then obtain m1 where m1: "map_calls d m es m1" "map_calls d m1 es' m'" by blast
  then show "map_calls d m (es @ es') m'" by induction (auto intro: map_calls.intros)
qed

lemma map_calls_keep:
  assumes "map_calls d m es m'" "\<forall>e \<in> set es. \<not> changes key e"
  shows "m' key = m key"
  using assms
proof induction
  case (Cons m e m1 es m')
  have "m1 key = m key" using Cons.hyps(1) Cons.prems by (cases e) (auto elim!: map_callE)
  then show ?case using Cons.IH Cons.prems by simp
qed simp

subsection \<open>Runs\<close>

lemma demo_run:
  "keys_ok {cstr ''k''}" "defaults_ok {cstr ''k''} [] []" "kv_inv {cstr ''k''} [] (demo_kv 3) (replicate 3 clear_sec)"
  "kv_calls (demo_kv 3) [Ev_set (cstr ''k'') [1, 2] FDB_NO_ERR] (demo_kv1 3)"
proof -
  show "keys_ok {cstr ''k''}" using demo_keys(2) by (simp add: keys_ok_def)
  show "kv_inv {cstr ''k''} [] (demo_kv 3) (replicate 3 clear_sec)"
    using demo_kv_state [of 3] by (simp add: kv_inv_def clear_sectors)
  have "buf_blob [1, 2] = demo_blob [1, 2]" by (simp add: buf_blob_def demo_blob_def fdb_blob_make_def)
  then show "kv_calls (demo_kv 3) [Ev_set (cstr ''k'') [1, 2] FDB_NO_ERR] (demo_kv1 3)"
    using demo_kv1_state(8) [of 3] by (auto intro!: kv_calls.intros kv_call.set)
qed (simp add: defaults_ok_def)

text \<open>C1: Every run of the database, any sequence of set, delete, get, reset and power cycle, is a run of
  the abstract map with the same events: the same results of the calls, the same bytes read. The
  invariant of a database in use holds in every state that is reached.\<close>

theorem kv_calls_refine:
  assumes "keys_ok K" "defaults_ok K ds vals" "kv_inv K ds db D"
    and "kv_calls db es db'" "\<forall>e \<in> set es. event_ok K e"
  shows "\<exists>D'. kv_inv K ds db' D' \<and> map_calls (map_of (zip (map dkv_key ds) vals)) (kv_map D) es (kv_map D')"
  using assms by (rule kv_calls_map)

theorem kv_calls_refine_witness:
  "\<exists>D'. kv_inv {cstr ''k''} [] (demo_kv1 3) D'
    \<and> map_calls Map.empty Map.empty [Ev_set (cstr ''k'') [1, 2] FDB_NO_ERR] (kv_map D')"
proof -
  from kv_calls_refine [OF demo_run(1-3) demo_run(4)] show ?thesis using demo_keys(2) by (simp add: clear_sectors node_size_def cstr_def)
qed

text \<open>C5: A value that was set is what later calls read, whatever else is set, deleted or read in between and
  however often the power is cycled, until its key is set or deleted again or the database is
  reset.\<close>

theorem kv_value_persists:
  assumes "keys_ok K" "defaults_ok K ds vals" "kv_inv K ds db D"
    and "kv_calls db (Ev_set key val FDB_NO_ERR # es @ [Ev_get key n v]) db'"
    and "key \<in> K" "node_size key val < 2147483648" "\<forall>e \<in> set es. event_ok K e \<and> \<not> changes key e"
  shows "v = take n val"
proof -
  have "\<forall>e \<in> set (Ev_set key val FDB_NO_ERR # es @ [Ev_get key n v]). event_ok K e" using assms(5-7) by auto
  from kv_calls_map [OF assms(1-4) this] obtain m m1 m2 where
    "map_call m (kv_map D) (Ev_set key val FDB_NO_ERR) m1" "map_calls m m1 (es @ [Ev_get key n v]) m2"
    by (blast elim: map_calls_ConsE)
  moreover from this obtain m3 where "map_calls m m1 es m3" "map_call m m3 (Ev_get key n v) m2"
    by (auto simp: map_calls_append elim: map_calls_ConsE map_calls_NilE)
  moreover from this(1) have "m3 key = m1 key" using assms(7) by (intro map_calls_keep) auto
  ultimately show ?thesis by (auto elim!: map_callE)
qed

theorem kv_value_persists_witness:
  "\<exists>v db'. kv_calls (demo_kv 3) [Ev_set (cstr ''k'') [1, 2] FDB_NO_ERR, Ev_get (cstr ''k'') 1 v] db' \<and> v = [1]"
proof -
  let ?k = "cstr ''k''"
  obtain D where D: "kv_state (demo_kv1 3) D" "kv_map D = [?k \<mapsto> [1, 2]]" using demo_kv1_state(1) [of 3] by auto
  have nk: "no_clash D ?k" "key_ok ?k"
    using no_clash_keys [of "{?k}" D ?k] demo_run(1) D(2) by auto
  have b: "blob_buf (buf_blob [0]) = Some [0]" "blob_size (buf_blob [0]) \<le> length [0]"
    by (simp_all add: buf_blob_def fdb_blob_make_def)
  obtain len blob db' where g: "fdb_kv_get_blob (demo_kv1 3) ?k (buf_blob [0]) = Some (len, blob, db')"
    using get_blob_state [OF D(1) demo_kv1_state(6,7) [of 3] nk b] by (auto simp: D(2) Let_def)
  from g have "kv_call (demo_kv1 3) (Ev_get ?k 1 (blob_data len blob)) db'" by (intro kv_call.get) simp
  with demo_run(4) have "kv_calls (demo_kv 3) [Ev_set ?k [1, 2] FDB_NO_ERR, Ev_get ?k 1 (blob_data len blob)] db'"
    by (auto intro!: kv_calls.intros elim: kv_calls.cases)
  moreover from this have "blob_data len blob = take 1 [1, 2]"
    using kv_value_persists [OF demo_run(1-3), of ?k "[1, 2]" "[]" 1 "blob_data len blob" db']
    by (simp add: node_size_def) (simp add: cstr_def)
  ultimately show ?thesis by auto
qed

end
