(* ===== verification/Kvdb_Recover.thy ===== *)
theory Kvdb_Recover
  imports Kvdb_Trace
begin

text \<open>
  Recovery after a loss of power while a key was being changed. The old KV may be found in the
  status \<open>PRE_DELETE\<close>, with the new KV written or not yet begun. Loading the database then copies the
  old KV to a new place, unless the new one is there, and finishes its deletion: the key has its
  old value or its new one.
\<close>

subsection \<open>Half-deleted databases\<close>





subsection \<open>Moving the old KV\<close>






subsection \<open>The walk\<close>








subsection \<open>Loading\<close>






subsection \<open>Losing power while a key is set\<close>







end
