(* ===== verification/Kvdb_Typed.thy ===== *)
theory Kvdb_Typed
  imports Kvdb_Props
begin

text \<open>
  Reading a KV from flash that may hold anything: \<open>read_kv\<close> returns, and what it returns is a value
  of \<open>struct fdb_kv\<close>, unless the length byte of the name exceeds the array. This is the reading
  that the other theories do on well-formed sectors only.
\<close>

text \<open>The values of \<open>struct fdb_kv\<close>: unsigned fields in their width, an array for the name.\<close>

definition kv_typed :: "fdb_kv \<Rightarrow> bool" where
  "kv_typed kv \<longleftrightarrow> kv_wf kv \<and> kv_name_len kv < 256 \<and> kv_magic kv < 4294967296 \<and> kv_len kv < 4294967296
   \<and> kv_value_len kv < 4294967296 \<and> kv_addr_start kv < 4294967296 \<and> kv_addr_value kv < 4294967296"

lemma kv_read_any:
  assumes "kv_ok db" "a + length buf < 4294967296"
  shows "\<exists>err rd. kv_flash_read db a buf = Some (err, rd) \<and> length rd = length buf"
proof (cases "a + length buf \<le> length (kv_img db)")
  case True
  then show ?thesis using kvf.rd_in [OF assms(1) True] by simp
next
  case False
  then have "length (kv_img db) < u32 (a + length buf)" using assms(2) by (simp add: u32_id)
  then show ?thesis using kvf.rd_out [OF assms(1)] by simp
qed

lemma kv_crc_loop_any:
  assumes "kv_ok db" "base + n < 4294967296" "n + 32 < 4294967296"
  shows "length buf = 32 \<Longrightarrow> len \<le> n \<Longrightarrow> \<exists>r. kv_crc_loop db base n crc buf len = Some r"
proof (induction "n - len" arbitrary: len crc buf rule: less_induct)
  case less
  show ?case
  proof (cases "len < n")
    case False
    then show ?thesis by (subst kv_crc_loop.simps) simp
  next
    case True
    define k where "k = (if len + 32 < n then 32 else n - len)"
    have k: "0 < k" "k \<le> 32" "len + k \<le> n" using True by (auto simp: k_def)
    have u: "u32 (len + 32) = len + 32" "u32_sub n len = n - len" "u32 (base + len) = base + len" "u32 (len + k) = len + k" "u32 k = k"
      using True assms(2,3) k(2,3) by (simp_all add: u32_id u32_sub_id)
    obtain err rd where r: "kv_flash_read db (base + len) (take k buf) = Some (err, rd)" "length rd = k"
      using kv_read_any [OF assms(1), of "base + len" "take k buf"] assms(2) k less.prems by auto
    obtain res where "kv_crc_loop db base n (fdb_calc_crc32 crc (take k rd)) (rd @ drop k buf) (len + k) = Some res"
      using less.hyps [of "len + k" "rd @ drop k buf" "fdb_calc_crc32 crc (take k rd)"] True k r(2) less.prems(1)
      by (metis add.commute add_diff_cancel_left' diff_less_mono2 length_append length_drop le_add_diff_inverse less_add_same_cancel1)
    then have "kv_crc_loop db base n crc buf len = Some res"
      using True u r(1) unfolding k_def [symmetric] by (subst kv_crc_loop.simps) (simp add: Let_def k_def [symmetric] cong: if_cong)
    then show ?thesis by blast
  qed
qed

lemma kv_typed_simps [simp]:
  "kv_typed (kv\<lparr>kv_status := st\<rparr>) = kv_typed kv" "kv_typed (kv\<lparr>kv_crc_is_ok := ok\<rparr>) = kv_typed kv"
  "kv_typed kv \<Longrightarrow> n < 4294967296 \<Longrightarrow> kv_typed (kv\<lparr>kv_len := n\<rparr>)"
  "kv_typed kv \<Longrightarrow> n < 4294967296 \<Longrightarrow> kv_typed (kv\<lparr>kv_value_len := n\<rparr>)"
  "kv_typed kv \<Longrightarrow> n < 4294967296 \<Longrightarrow> kv_typed (kv\<lparr>kv_addr_value := n\<rparr>)"
  "kv_typed kv \<Longrightarrow> n < 256 \<Longrightarrow> kv_typed (kv\<lparr>kv_name_len := n\<rparr>)"
  "kv_typed kv \<Longrightarrow> length nm = FDB_KV_NAME_MAX \<Longrightarrow> kv_typed (kv\<lparr>kv_name := nm\<rparr>)"
  by (simp_all add: kv_typed_def kv_wf_def)

text \<open>C32: Reading a KV at any address inside the partition, whatever the flash holds: \<open>read_kv\<close> returns a
  value of \<open>struct fdb_kv\<close> at the same address, and the database stays in order. A KV with a good CRC
  leaves the flash alone; otherwise an error is reported and at most the status of this KV is
  written. The one execution that does not return is a KV whose length byte exceeds the array for
  the name.\<close>

theorem read_kv_typed:
  assumes "kv_ok db" "kv_typed kv" "kv_addr_start kv + KV_HDR_DATA_SIZE \<le> length (kv_img db)" "kvdb_max_size db < 2147483648"
  shows "(\<exists>err kv' db'. read_kv db kv = Some (err, kv', db') \<and> kv_typed kv' \<and> kv_addr_start kv' = kv_addr_start kv \<and> kv_ok db'
      \<and> (err = FDB_NO_ERR \<longleftrightarrow> kv_crc_is_ok kv') \<and> (err = FDB_NO_ERR \<longrightarrow> db' = db)
      \<and> (kv_img db' = kv_img db
         \<or> kv_img db' = splice (kv_img db) (kv_addr_start kv) [status_byte (kv_status_num FDB_KV_ERR_HDR)]))
    \<or> unat (kv_img db ! (kv_addr_start kv + 16)) > FDB_KV_NAME_MAX \<and> read_kv db kv = None"
proof -
  define A where "A = kv_addr_start kv"
  define h where "h = slice A KV_HDR_DATA_SIZE (kv_img db)"
  have b: "A + 24 \<le> length (kv_img db)" "length (kv_img db) < 2147483648"
    using assms(3) kvf.img_bound [OF assms(1)] by (simp_all add: A_def KV_HDR_DATA_SIZE_def)
  have rh: "kv_flash_read db A (replicate KV_HDR_DATA_SIZE (kvdb_stk db)) = Some (FDB_NO_ERR, h)"
    using kvf.rd_in [OF assms(1)] assms(3) by (simp add: h_def A_def)
  have h16: "h ! 16 = kv_img db ! (kv_addr_start kv + 16)" using b by (simp add: h_def A_def nth_slice KV_HDR_DATA_SIZE_def)
  define st len where "st = kv_status_of (fdb_get_status FDB_WRITE_GRAN (slice 0 1 h) FDB_KV_STATUS_NUM)"
    and "len = of_le32 (slice 8 4 h)"
  define kv0 where "kv0 = kv\<lparr>kv_status := st, kv_len := len\<rparr>"
  have lh: "length h = 24" using b by (simp add: h_def KV_HDR_DATA_SIZE_def)
  then have lb: "len < 4294967296" "of_le32 (slice 20 4 h) < 4294967296" unfolding len_def by (intro of_le32_less; simp)+
  have t0: "kv_typed kv0" "kv_addr_start kv0 = A" using assms(2) lb by (simp_all add: kv0_def A_def)
  show ?thesis
  proof (cases "len = 0xFFFFFFFF \<or> len > kvdb_max_size db \<or> len < KV_HDR_DATA_SIZE")
    case True
    show ?thesis
    proof (cases "st = FDB_KV_ERR_HDR")
      case eh: True
      have "read_kv db kv = Some (FDB_READ_ERR, (kv\<lparr>kv_status := st, kv_len := KV_HDR_DATA_SIZE, kv_crc_is_ok := False\<rparr>), db)"
        using True rh eh unfolding len_def st_def by (simp add: read_kv_def A_def Let_def)
      then show ?thesis using assms(1,2) by (simp add: KV_HDR_DATA_SIZE_def)
    next
      case ne: False
      obtain db' where w: "kv_write_status db A FDB_KV_STATUS_NUM (kv_status_num FDB_KV_ERR_HDR) True = Some (FDB_NO_ERR, db')"
        "kv_ok db'" "kv_img db' = splice (kv_img db) A [status_byte (kv_status_num FDB_KV_ERR_HDR)]"
        using kv_write_status_ok [OF assms(1), of A "kv_status_num FDB_KV_ERR_HDR" FDB_KV_STATUS_NUM True] b by (auto simp: fdb_const)
      have "read_kv db kv = Some (FDB_READ_ERR,
          (kv\<lparr>kv_status := FDB_KV_ERR_HDR, kv_len := KV_HDR_DATA_SIZE, kv_crc_is_ok := False\<rparr>), db')"
        using True rh ne w(1) unfolding len_def st_def by (simp add: read_kv_def A_def Let_def del: kv_status_num.simps)
      then show ?thesis using assms(2) w(2,3) by (simp add: A_def KV_HDR_DATA_SIZE_def)
    qed
  next
    case False
    let ?a = "u32 (A + KV_HDR_DATA_SIZE)" let ?n = "unat (h ! 16)"
    have a: "?a = A + 24" using b by (simp add: u32_id KV_HDR_DATA_SIZE_def)
    have l: "len \<le> kvdb_max_size db" "\<not> len < KV_HDR_DATA_SIZE" using False by simp_all
    let ?crc = "fdb_calc_crc32 (fdb_calc_crc32 0 (slice 16 4 h)) (slice 20 4 h)"
    have "?a + (len - KV_HDR_DATA_SIZE) < 4294967296" "len - KV_HDR_DATA_SIZE + 32 < 4294967296"
      using a b l(1) assms(4) by linarith+
    then obtain r where r: "kv_crc_loop db ?a (len - KV_HDR_DATA_SIZE) ?crc (replicate 32 (kvdb_stk db)) 0 = Some r"
      using kv_crc_loop_any [OF assms(1), of ?a "len - KV_HDR_DATA_SIZE" "replicate 32 (kvdb_stk db)" 0 ?crc] by auto
    have nm: "length (kv_name kv) = FDB_KV_NAME_MAX" using assms(2) by (simp add: kv_typed_def kv_wf_def)
    have read: "\<exists>err rd. kv_flash_read db ?a (take k (kv_name kv)) = Some (err, rd) \<and> length rd = k" if "k \<le> FDB_KV_NAME_MAX" for k
      using kv_read_any [OF assms(1), of ?a "take k (kv_name kv)"] a b nm that by (auto simp: FDB_KV_NAME_MAX_def)
    have u: "u32 k = k" if "k \<le> FDB_KV_NAME_MAX" for k using that by (simp add: u32_id FDB_KV_NAME_MAX_def)
    show ?thesis
    proof (cases "unat r = of_le32 (slice 12 4 h)")
      case bad: False
      let ?k = "if ?n > FDB_KV_NAME_MAX then FDB_KV_NAME_MAX else ?n"
      have k: "?k \<le> FDB_KV_NAME_MAX" by simp
      obtain err rd where n: "kv_flash_read db ?a (take ?k (kv_name kv)) = Some (err, rd)" "length rd = ?k" using read [OF k] by blast
      have "read_kv db kv = Some (FDB_READ_ERR, kv0\<lparr>kv_crc_is_ok := False, kv_name := rd @ drop ?k (kv_name kv)\<rparr>, db)"
        using False rh r n(1) bad u [OF k] unfolding len_def st_def kv0_def by (simp add: read_kv_def A_def Let_def cong: if_cong)
      moreover have "length (rd @ drop ?k (kv_name kv)) = FDB_KV_NAME_MAX" using n(2) nm k by simp
      ultimately show ?thesis using t0 assms(1) by (simp add: A_def)
    next
      case True
      show ?thesis
      proof (cases "?n > FDB_KV_NAME_MAX")
        case long: True
        have "read_kv db kv = None"
          using False rh r True long unfolding len_def by (simp add: read_kv_def A_def Let_def)
        then show ?thesis using long h16 by simp
      next
        case nl: False
        then have k: "?n \<le> FDB_KV_NAME_MAX" by simp
        obtain err rd where n: "kv_flash_read db ?a (take ?n (kv_name kv)) = Some (err, rd)" "length rd = ?n" using read [OF k] by blast
        let ?kv = "kv0\<lparr>kv_crc_is_ok := True, kv_addr_value := u32 (?a + ?n), kv_value_len := of_le32 (slice 20 4 h), kv_name_len := ?n,
            kv_name := (rd @ drop ?n (kv_name kv))[(if ?n \<ge> FDB_KV_NAME_MAX then FDB_KV_NAME_MAX - 1 else ?n) := 0]\<rparr>"
        have "read_kv db kv = Some (FDB_NO_ERR, ?kv, db)"
          using False rh r n(1) True nl u [OF k] unfolding len_def st_def kv0_def by (simp add: read_kv_def A_def Let_def)
        moreover have "length (rd @ drop ?n (kv_name kv)) = FDB_KV_NAME_MAX" using n(2) nm k by simp
        then have "kv_typed ?kv" using t0(1) lb(2) k by (simp add: FDB_KV_NAME_MAX_def)
        ultimately show ?thesis using t0(2) assms(1) by (simp add: A_def)
      qed
    qed
  qed
qed

theorem read_kv_typed_witness:
  "\<exists>err kv' db'. read_kv (kv_put (replicate 768 0) (ram_kv 3)) (junk_kv 0) = Some (err, kv', db') \<and> kv_typed kv' \<and> kv_ok db'"
proof -
  have k: "kv_ok (ram_kv 3)" "length (replicate 768 (0 :: byte)) = length (kv_img (ram_kv 3))"
    using ram_kv_facts(1) [of 3] ram_db_ok [of 768 256] by (simp_all add: kv_geometry_def kv_img_def ram_kv_def)
  let ?db = "kv_put (replicate 768 0) (ram_kv 3)"
  have db: "kv_ok ?db" "kv_img ?db = replicate 768 0" using kvf.ok_put [OF k] kvf.img_put [OF k] by simp_all
  have "kvdb_max_size ?db = 768" using kv_step_put [OF k] kv_cfg_fields(2) [of ?db "ram_kv 3"]
    by (simp add: kv_step_def kv_frame_def) (simp add: ram_kv_def ram_db_def)
  moreover have "kv_typed (junk_kv 0)" by (simp add: kv_typed_def kv_wf_def junk_kv_def of_le32_def)
  moreover have "kv_addr_start (junk_kv 0) = 0" by (simp add: junk_kv_def of_le32_def)
  ultimately show ?thesis using read_kv_typed [OF db(1), of "junk_kv 0"] db(2) by (auto simp: KV_HDR_DATA_SIZE_def FDB_KV_NAME_MAX_def)
qed

end
