(* ===== verification/Kvdb_Upgrade.thy ===== *)
theory Kvdb_Upgrade
  imports Kvdb_Trace
begin

text \<open>
  The automatic update of the default KVs (\<open>kv_auto_update\<close>): at the end of the initialisation a
  database of another version gets the default KVs that it does not have yet. The module is built
  without \<open>FDB_KV_AUTO_UPDATE\<close>, so no other theory rests on this one. The version number of the
  settings, the field \<open>ver_num\<close> of the object, is an argument.
\<close>

subsection \<open>The code\<close>

definition VER_NUM_KV_NAME :: bytes where
  "VER_NUM_KV_NAME = cstr ''__ver_num__''"

fun update_defaults_loop :: "fdb_default_kv_node list \<Rightarrow> fdb_kvdb \<Rightarrow> fdb_kvdb option" where
  "update_defaults_loop [] db = Some db"
| "update_defaults_loop (d # ds) db = do {
     (found, cur_kv, db) \<leftarrow> find_kv db (dkv_key d) (kv_cur_kv db);
     let db = db\<lparr>kv_cur_kv := cur_kv\<rparr>;
     if found then update_defaults_loop ds db
     else do {
       value \<leftarrow> default_kv_value d;
       (err, sector, db) \<leftarrow> create_kv_blob db ((kv_cur_sector db)\<lparr>sec_empty_kv := FAILED_ADDR\<rparr>) (dkv_key d) value;
       update_defaults_loop ds (db\<lparr>kv_cur_sector := sector\<rparr>)
     }
   }"

text \<open>A saved number shorter than 4 bytes leaves the rest of \<open>saved_ver_num\<close> as it was on the stack.\<close>

definition kv_auto_update :: "fdb_kvdb \<Rightarrow> nat \<Rightarrow> fdb_kvdb option" where
  "kv_auto_update db setting_ver_num = do {
     (read_len, buf, value_len, db) \<leftarrow> get_kv db VER_NUM_KV_NAME (Some (replicate 4 (kvdb_stk db))) 4;
     let saved_ver_num = (case buf of Some b \<Rightarrow> of_le32 b | None \<Rightarrow> 0);
     if read_len > 0 \<and> saved_ver_num = setting_ver_num then Some db
     else do {
       db \<leftarrow> (if read_len > 0 then update_defaults_loop (kv_default_kvs db) db else Some db);
       (err, db) \<leftarrow> set_kv db VER_NUM_KV_NAME (Some (le32 setting_ver_num)) 4;
       Some db
     }
   }"

subsection \<open>The loop\<close>

text \<open>Adding the defaults that are missing, on the map.\<close>

definition defaults_map :: "fdb_default_kv_node list \<Rightarrow> bytes list \<Rightarrow> bytes \<Rightarrow> bytes option" where
  "defaults_map ds vals = map_of (zip (map dkv_key ds) vals)"

lemma defaults_map_Cons:
  "defaults_map (d # ds) (v # vs) = (defaults_map ds vs)(dkv_key d \<mapsto> v)"
  by (simp add: defaults_map_def)

lemma same_flash_state:
  assumes "kv_state db D" "kv_rep db' D" "same_flash db db'" "kv_wf kv"
  shows "kv_state (db'\<lparr>kv_cur_kv := kv\<rparr>) D" "kv_cfg (db'\<lparr>kv_cur_kv := kv\<rparr>) = kv_cfg db"
proof -
  have "kv_rep (db'\<lparr>kv_cur_kv := kv\<rparr>) D" using assms(2) by (rule kv_rep_fields) simp_all
  then show "kv_state (db'\<lparr>kv_cur_kv := kv\<rparr>) D" using assms by (simp add: kv_state_def same_flash_fields)
  have "kv_cfg (db'\<lparr>kv_cur_kv := kv\<rparr>) = kv_cfg db'" by (simp add: kv_cfg_def)
  then show "kv_cfg (db'\<lparr>kv_cur_kv := kv\<rparr>) = kv_cfg db" using same_flash_fields(1) [OF assms(3)] by simp
qed

lemma update_defaults_eq:
  assumes K: "keys_ok K"
  shows "kv_state db D \<Longrightarrow> dom (kv_map D) \<subseteq> K \<Longrightarrow> dkv_key ` set ds \<subseteq> K \<Longrightarrow> list_all2 default_ok ds vals \<Longrightarrow>
    distinct (map dkv_key ds) \<Longrightarrow>
    \<exists>db' D'. update_defaults_loop ds db = Some db' \<and> kv_state db' D' \<and> kv_cfg db' = kv_cfg db \<and> length D' = length D
      \<and> kv_map D \<subseteq>\<^sub>m kv_map D' \<and> kv_map D' \<subseteq>\<^sub>m defaults_map ds vals ++ kv_map D
      \<and> n_empty D \<le> n_empty D' + length ds
      \<and> (length ds < n_empty D \<and> list_all2 (default_fits (kvdb_sec_size db)) ds vals
         \<longrightarrow> kv_map D' = defaults_map ds vals ++ kv_map D)"
proof (induction ds arbitrary: db D vals)
  case Nil
  then show ?case by (intro exI [of _ db] exI [of _ D]) (simp add: defaults_map_def)
next
  case (Cons d ds)
  obtain v vs where v: "vals = v # vs" "default_ok d v" "list_all2 default_ok ds vs"
    using Cons.prems(4) by (auto simp: list_all2_Cons1)
  have d: "default_kv_value d = Some v" "node_size (dkv_key d) v < 2147483648" using v(2) by (simp_all add: default_ok_def)
  let ?k = "dkv_key d"
  have kK: "?k \<in> K" "dkv_key ` set ds \<subseteq> K" "distinct (map dkv_key ds)" using Cons.prems(3,5) by simp_all
  note nk = no_clash_keys [OF K Cons.prems(2) kK(1)]
  obtain found kv' db1 where f: "find_kv db ?k (kv_cur_kv db) = Some (found, kv', db1)" "kv_wf kv'" "kv_rep db1 D"
    "same_flash db db1" "if found then \<exists>val. kv_map D ?k = Some val else kv_map D ?k = None"
    using find_kv_eq [OF kv_stateD(1) [OF Cons.prems(1)] nk kv_stateD(6) [OF Cons.prems(1)]] by (auto split: if_splits)
  let ?db1 = "db1\<lparr>kv_cur_kv := kv'\<rparr>"
  note s1 = same_flash_state [OF Cons.prems(1) f(3,4,2)]
  note z1 = kv_cfg_fields(1) [OF s1(2)]
  obtain db2 D2 where c: "update_defaults_loop (d # ds) db = update_defaults_loop ds db2" "kv_state db2 D2"
    "kv_cfg db2 = kv_cfg db" "length D2 = length D" "n_empty D \<le> Suc (n_empty D2)"
    "kv_map D2 = (if found then kv_map D else (kv_map D)(?k \<mapsto> v))
     \<or> kv_map D2 = kv_map D \<and> \<not> found \<and> (n_empty D = 1 \<or> \<not> default_fits (kvdb_sec_size db) d v)"
  proof (cases found)
    case True
    show ?thesis using that [of ?db1 D] True f(1) s1 by simp
  next
    case False
    let ?c = "(kv_cur_sector ?db1)\<lparr>sec_empty_kv := FAILED_ADDR\<rparr>"
    have n: "kv_map D ?k = None" using f(5) False by simp
    obtain err c' db2 D2 where c: "create_kv_blob ?db1 ?c ?k v = Some (err, c', db2)" "kv_state db2 D2"
      "kv_cfg db2 = kv_cfg ?db1" "length D2 = length D" "n_empty D \<le> Suc (n_empty D2)"
      "kv_map D2 = (kv_map D)(?k \<mapsto> v) \<or> kv_map D2 = kv_map D \<and> (n_empty D = 1 \<or> \<not> node_size ?k v + 104 < kvdb_sec_size ?db1)"
      using create_kv_new [OF s1(1) _ nk(2) n d(2), of ?c] by auto
    let ?db2 = "db2\<lparr>kv_cur_sector := c'\<rparr>"
    have "kv_rep ?db2 D2" using kv_stateD(1) [OF c(2)] by (rule kv_rep_fields) simp_all
    then have "kv_state ?db2 D2" using c(2) by (simp add: kv_state_def)
    moreover have "kv_cfg ?db2 = kv_cfg db" using c(3) s1(2) by (simp add: kv_cfg_def)
    moreover have "update_defaults_loop (d # ds) db = update_defaults_loop ds ?db2"
      using f(1) False d(1) c(1) by simp
    ultimately show ?thesis using that [of ?db2 D2] c(4-6) False z1 by (simp add: default_fits_def)
  qed
  let ?dm = "defaults_map ds vs" let ?M = "defaults_map (d # ds) vals ++ kv_map D"
  have kd: "?k \<notin> dom ?dm"
    using Cons.prems(5) v(3) by (auto simp: defaults_map_def list_all2_lengthD dom_map_of_zip)
  have M: "?M x = (case kv_map D x of Some y \<Rightarrow> Some y | None \<Rightarrow> if x = ?k then Some v else ?dm x)" for x
    unfolding v(1) defaults_map_Cons by (simp add: map_add_def split: option.split)
  have D2: "kv_map D2 = kv_map D \<or> kv_map D ?k = None \<and> kv_map D2 = (kv_map D)(?k \<mapsto> v)"
    using c(6) f(5) by (auto split: if_splits)
  then have sub: "kv_map D \<subseteq>\<^sub>m kv_map D2" "?dm ++ kv_map D2 \<subseteq>\<^sub>m ?M"
    using kd unfolding map_le_def by (auto simp: v(1) defaults_map_Cons map_add_def domIff split: option.splits if_splits)
  have all: "?dm ++ kv_map D2 = ?M" if "n_empty D \<noteq> 1" "default_fits (kvdb_sec_size db) d v"
  proof
    fix x
    have "kv_map D2 = (if found then kv_map D else (kv_map D)(?k \<mapsto> v))" using c(6) that by blast
    then show "(?dm ++ kv_map D2) x = ?M x"
      using f(5) kd unfolding M by (cases found; cases "x = ?k") (auto simp: map_add_def domIff split: option.split)
  qed
  have "dom (kv_map D2) \<subseteq> K" using D2 Cons.prems(2) kK(1) by (elim disjE conjE) simp_all
  from Cons.IH [OF c(2) this kK(2) v(3) kK(3)] obtain db' D' where
    r: "update_defaults_loop ds db2 = Some db'" "kv_state db' D'" "kv_cfg db' = kv_cfg db2" "length D' = length D2"
      "kv_map D2 \<subseteq>\<^sub>m kv_map D'" "kv_map D' \<subseteq>\<^sub>m ?dm ++ kv_map D2" "n_empty D2 \<le> n_empty D' + length ds"
      "length ds < n_empty D2 \<and> list_all2 (default_fits (kvdb_sec_size db2)) ds vs \<longrightarrow> kv_map D' = ?dm ++ kv_map D2"
    by blast
  have "kv_map D' = ?M" if fit: "length (d # ds) < n_empty D" "list_all2 (default_fits (kvdb_sec_size db)) (d # ds) vals"
    using all r(8) fit c(5) kv_cfg_fields(1) [OF c(3)] by (simp add: v(1))
  then show ?case
    using c(1,3,4,5) r map_le_trans [OF sub(1) r(5)] map_le_trans [OF r(6) sub(2)]
    by (intro exI [of _ db'] exI [of _ D'] conjI impI) auto
qed

subsection \<open>The property\<close>

text \<open>What \<open>kv_auto_update\<close> reads as the saved version, \<open>junk\<close> being what the stack holds.\<close>

definition saved_version :: "byte \<Rightarrow> bytes option \<Rightarrow> nat option" where
  "saved_version junk val = (case val of
     None \<Rightarrow> None
   | Some v \<Rightarrow> if v = [] then None else Some (of_le32 (take 4 v @ replicate (4 - length v) junk)))"

text \<open>C19: The automatic update of defaults. A database of the same version is left alone. A database of
  another version keeps the value of every key that it has and gets default KVs that it lacks, all
  of them when there are more empty sectors than defaults, and then the new version number. A
  database without a version number only gets the number.\<close>

theorem kv_auto_update_map:
  assumes "keys_ok K" "defaults_ok K ds vals" "VER_NUM_KV_NAME \<in> K" "kv_inv K ds db D"
  shows "\<exists>db' D' M. kv_auto_update db ver = Some db' \<and> kv_inv K ds db' D'
    \<and> (case saved_version (kvdb_stk db) (kv_map D VER_NUM_KV_NAME) of
         None \<Rightarrow> M = kv_map D
       | Some s \<Rightarrow> if s = ver then M = kv_map D \<and> kv_map D' = M
           else kv_map D \<subseteq>\<^sub>m M \<and> M \<subseteq>\<^sub>m defaults_map ds vals ++ kv_map D
             \<and> (length ds < n_empty D \<and> list_all2 (default_fits (kvdb_sec_size db)) ds vals
                \<longrightarrow> M = defaults_map ds vals ++ kv_map D))
    \<and> (kv_map D' = M \<or> kv_map D' = M(VER_NUM_KV_NAME \<mapsto> le32 ver))
    \<and> (saved_version (kvdb_stk db) (kv_map D VER_NUM_KV_NAME) \<noteq> Some ver
         \<and> Suc (length ds) < n_empty D \<and> 143 < kvdb_sec_size db
       \<longrightarrow> kv_map D' = M(VER_NUM_KV_NAME \<mapsto> le32 ver))"
proof -
  let ?k = VER_NUM_KV_NAME let ?sv = "saved_version (kvdb_stk db) (kv_map D VER_NUM_KV_NAME)"
  note i = assms(4) [unfolded kv_inv_def]
  have st: "kv_state db D" and dom: "dom (kv_map D) \<subseteq> K" and ds: "kv_default_kvs db = ds" using i by blast+
  note nk = no_clash_keys [OF assms(1) dom assms(3)]
  have le: "min 4 (length (the (kv_map D ?k))) \<le> length (replicate 4 (kvdb_stk db))" by simp
  from get_kv_eq [OF kv_stateD(1) [OF st] nk le] obtain db1 where
    g: "kv_rep db1 D" "same_flash db db1"
    "get_kv db ?k (Some (replicate 4 (kvdb_stk db))) 4 = (case kv_map D ?k of
       None \<Rightarrow> Some (0, Some (replicate 4 (kvdb_stk db)), 0, db1)
     | Some val \<Rightarrow> Some (min 4 (length val), Some (take 4 val @ drop (min 4 (length val)) (replicate 4 (kvdb_stk db))), length val, db1))"
    by blast
  have s1: "kv_state db1 D" "kv_cfg db1 = kv_cfg db"
    using g(1,2) st same_flash_fields(1) [OF g(2)] by (simp_all add: kv_state_def same_flash_fields)
  note z1 = kv_cfg_fields(1,9) [OF s1(2)]
  have sv: "kv_auto_update db ver = (if ?sv = Some ver then Some db1
      else do {
        db \<leftarrow> (if ?sv \<noteq> None then update_defaults_loop ds db1 else Some db1);
        (err, db) \<leftarrow> set_kv db ?k (Some (le32 ver)) 4;
        Some db })"
    unfolding kv_auto_update_def g(3)
    by (cases "kv_map D ?k") (simp_all add: saved_version_def z1 ds min_def)
  show ?thesis
  proof (cases "?sv = Some ver")
    case True
    have "kv_inv K ds db1 D" using kv_inv_cfg [OF assms(4) s1 dom] .
    then show ?thesis using True sv by (intro exI [of _ db1] exI [of _ D] exI [of _ "kv_map D"]) simp
  next
    case False
    let ?loop = "if ?sv \<noteq> None then update_defaults_loop ds db1 else Some db1"
    have dk: "list_all2 default_ok ds vals" "distinct (map dkv_key ds)" "dkv_key ` set ds \<subseteq> K"
      using assms(2) by (simp_all add: defaults_ok_def)
    have "\<exists>db2 D2. ?loop = Some db2 \<and> kv_state db2 D2 \<and> kv_cfg db2 = kv_cfg db \<and> n_empty D \<le> n_empty D2 + length ds
        \<and> kv_map D2 \<subseteq>\<^sub>m defaults_map ds vals ++ kv_map D
        \<and> (if ?sv = None then kv_map D2 = kv_map D else kv_map D \<subseteq>\<^sub>m kv_map D2
           \<and> (length ds < n_empty D \<and> list_all2 (default_fits (kvdb_sec_size db)) ds vals
               \<longrightarrow> kv_map D2 = defaults_map ds vals ++ kv_map D))"
    proof (cases "?sv = None")
      case True
      then show ?thesis using s1 by (intro exI [of _ db1] exI [of _ D]) (auto simp: map_le_def map_add_def)
    next
      case False
      then show ?thesis using update_defaults_eq [OF assms(1) s1(1) dom dk(3,1,2)] s1(2) z1(1) by force
    qed
    then obtain db2 D2 where l: "?loop = Some db2" "kv_state db2 D2" "kv_cfg db2 = kv_cfg db"
      "n_empty D \<le> n_empty D2 + length ds" "kv_map D2 \<subseteq>\<^sub>m defaults_map ds vals ++ kv_map D"
      "if ?sv = None then kv_map D2 = kv_map D else kv_map D \<subseteq>\<^sub>m kv_map D2
           \<and> (length ds < n_empty D \<and> list_all2 (default_fits (kvdb_sec_size db)) ds vals
               \<longrightarrow> kv_map D2 = defaults_map ds vals ++ kv_map D)" by blast
    have dom2: "dom (kv_map D2) \<subseteq> K"
    proof -
      have "dom (defaults_map ds vals) \<subseteq> dkv_key ` set ds"
        using dk(1) by (simp add: defaults_map_def list_all2_lengthD dom_map_of_zip)
      then show ?thesis using map_le_implies_dom_le [OF l(5)] dom dk(3) unfolding dom_map_add by blast
    qed
    have len: "length ?k = 11" by (simp add: VER_NUM_KV_NAME_def cstr_def)
    have n: "node_size ?k (le32 ver) = 39" by (simp add: node_size_def len)
    from set_kv_value_state [OF l(2) no_clash_keys [OF assms(1) dom2 assms(3)], of "le32 ver"] n obtain err db3 D3 where
      w: "set_kv_value db2 ?k (le32 ver) = Some (err, db3)" "kv_state db3 D3" "kv_cfg db3 = kv_cfg db2"
      "kv_map D3 = (kv_map D2)(?k \<mapsto> le32 ver)
       \<or> kv_map D3 = kv_map D2 \<and> (n_empty D2 = 1 \<or> \<not> 143 < kvdb_sec_size db2)" by fastforce
    have run: "kv_auto_update db ver = Some db3"
      using sv False l(1) w(1) by (simp add: set_kv_def)
    have dom3: "dom (kv_map D3) \<subseteq> K" using w(4) dom2 assms(3) by (elim disjE conjE) simp_all
    have "kv_cfg db3 = kv_cfg db" using w(3) l(3) by simp
    from kv_inv_cfg [OF assms(4) w(2) this dom3] have inv: "kv_inv K ds db3 D3" .
    have z2: "kvdb_sec_size db2 = kvdb_sec_size db" using l(3) by (rule kv_cfg_fields)
    have full: "kv_map D3 = (kv_map D2)(?k \<mapsto> le32 ver)" if "Suc (length ds) < n_empty D" "143 < kvdb_sec_size db"
      using w(4) l(4) that z2 by auto
    show ?thesis
      using run inv l(5,6) w(4) full False
      by (intro exI [of _ db3] exI [of _ D3] exI [of _ "kv_map D2"]) (auto split: option.split)
  qed
qed

theorem kv_auto_update_map_witness:
  "\<exists>db1 db2 D. kv_auto_update (demo_kv 3) 1 = Some db1 \<and> kv_auto_update db1 1 = Some db2
    \<and> kv_inv {VER_NUM_KV_NAME} [] db2 D \<and> kv_map D = [VER_NUM_KV_NAME \<mapsto> [1, 0, 0, 0]]"
proof -
  let ?k = VER_NUM_KV_NAME let ?K = "{VER_NUM_KV_NAME}"
  have K: "keys_ok ?K" "defaults_ok ?K [] []" "?k \<in> ?K"
    by (simp_all add: keys_ok_def key_ok_def c_string_def VER_NUM_KV_NAME_def cstr_def fdb_const defaults_ok_def)
  have i: "kv_inv ?K [] (demo_kv 3) (replicate 3 clear_sec)"
    using demo_kv_state [of 3] by (simp add: kv_inv_def clear_sectors)
  have e: "n_empty (replicate 3 clear_sec) = 3" by (simp add: n_empty_def clear_sec_def numeral_eq_Suc)
  have le: "le32 1 = [1, 0, 0, 0]" by (simp add: le32_def)
  from kv_auto_update_map [OF K i, of 1] obtain db1 D1 where
    u: "kv_auto_update (demo_kv 3) 1 = Some db1" "kv_inv ?K [] db1 D1" "kv_map D1 = [?k \<mapsto> [1, 0, 0, 0]]"
    unfolding le [symmetric] using demo_kv_state(3) [of 3]
    by (simp add: saved_version_def clear_sectors e del: One_nat_def) blast
  have "of_le32 [1, 0, 0, 0] = 1" using of_le32_le32 [of 1] unfolding le by (simp add: u32_id)
  then have "saved_version x (Some [1, 0, 0, 0]) = Some 1" for x by (simp add: saved_version_def)
  then show ?thesis using kv_auto_update_map [OF K u(2), of 1] u(1,3) by auto
qed

end
