(* ===== verification/Tsdb_Core.thy ===== *)
theory Tsdb_Core
  imports Fdb_Flash "HOL-Library.Signed_Division"
begin

text \<open>
  The time series database (\<open>fdb_tsdb.c\<close>): its data, the reading of a log and of a sector header,
  the order of the sectors, and appending. A sector holds the log indexes from its top and the
  log data from its bottom.

  \<open>struct sector_hdr_data\<close> is 40 bytes: \<open>status\<close> at 0, \<open>magic\<close> at 4, \<open>start_time\<close> at 8,
  \<open>end_info[0]\<close> with \<open>time\<close> at 12, \<open>index\<close> at 16 and \<open>status\<close> at 20, \<open>end_info[1]\<close> the same at
  24, 28 and 32, \<open>reserved\<close> at 36. \<open>struct log_idx_data\<close> is 16 bytes: \<open>status_table\<close> at 0,
  \<open>time\<close> at 4, \<open>log_len\<close> at 8, \<open>log_addr\<close> at 12. Times are signed 32-bit numbers.
\<close>

definition TS_SECTOR_MAGIC_WORD :: nat where [fdb_const]: "TS_SECTOR_MAGIC_WORD = 0x304C5354"
definition TS_SECTOR_HDR_DATA_SIZE :: nat where [fdb_const]: "TS_SECTOR_HDR_DATA_SIZE = 40"
definition LOG_IDX_DATA_SIZE :: nat where [fdb_const]: "LOG_IDX_DATA_SIZE = 16"
definition LOG_IDX_TS_OFFSET :: nat where [fdb_const]: "LOG_IDX_TS_OFFSET = 4"
definition TS_SECTOR_MAGIC_OFFSET :: nat where [fdb_const]: "TS_SECTOR_MAGIC_OFFSET = 4"
definition SECTOR_START_TIME_OFFSET :: nat where [fdb_const]: "SECTOR_START_TIME_OFFSET = 8"
definition SECTOR_END0_TIME_OFFSET :: nat where [fdb_const]: "SECTOR_END0_TIME_OFFSET = 12"
definition SECTOR_END0_IDX_OFFSET :: nat where [fdb_const]: "SECTOR_END0_IDX_OFFSET = 16"
definition SECTOR_END0_STATUS_OFFSET :: nat where [fdb_const]: "SECTOR_END0_STATUS_OFFSET = 20"
definition SECTOR_END1_TIME_OFFSET :: nat where [fdb_const]: "SECTOR_END1_TIME_OFFSET = 24"
definition SECTOR_END1_IDX_OFFSET :: nat where [fdb_const]: "SECTOR_END1_IDX_OFFSET = 28"
definition SECTOR_END1_STATUS_OFFSET :: nat where [fdb_const]: "SECTOR_END1_STATUS_OFFSET = 32"
definition TS_FAILED_ADDR :: nat where [fdb_const]: "TS_FAILED_ADDR = 0xFFFFFFFF"

subsection \<open>Data\<close>

record fdb_tsl =
  tsl_status :: fdb_tsl_status
  tsl_time :: int
  tsl_log_len :: nat
  tsl_addr_index :: nat
  tsl_addr_log :: nat

record tsdb_sec_info =
  tsec_check_ok :: bool
  tsec_status :: fdb_sector_store_status
  tsec_addr :: nat
  tsec_magic :: nat
  tsec_start_time :: int
  tsec_end_time :: int
  tsec_end_idx :: nat
  tsec_end_stat0 :: fdb_tsl_status
  tsec_end_stat1 :: fdb_tsl_status
  tsec_remain :: nat
  tsec_empty_idx :: nat
  tsec_empty_data :: nat

record fdb_tsdb =
  ts_parent :: fdb_db
  ts_cur_sec :: tsdb_sec_info
  ts_last_time :: int
  ts_max_len :: nat
  ts_rollover :: bool

definition junk_tsl :: "byte \<Rightarrow> fdb_tsl" where
  "junk_tsl b =
     (let n = of_le32 (replicate 4 b) in
      \<lparr>tsl_status = tsl_status_of n, tsl_time = s32 (int n), tsl_log_len = n, tsl_addr_index = n,
       tsl_addr_log = n\<rparr>)"

definition junk_tsec :: "byte \<Rightarrow> tsdb_sec_info" where
  "junk_tsec b =
     (let n = of_le32 (replicate 4 b) in
      \<lparr>tsec_check_ok = (b \<noteq> 0), tsec_status = store_of n, tsec_addr = n, tsec_magic = n,
       tsec_start_time = s32 (int n), tsec_end_time = s32 (int n), tsec_end_idx = n,
       tsec_end_stat0 = tsl_status_of n, tsec_end_stat1 = tsl_status_of n, tsec_remain = n,
       tsec_empty_idx = n, tsec_empty_data = n\<rparr>)"

abbreviation tsdb_sec_size :: "fdb_tsdb \<Rightarrow> nat" where
  "tsdb_sec_size db \<equiv> db_sec_size (ts_parent db)"

abbreviation tsdb_max_size :: "fdb_tsdb \<Rightarrow> nat" where
  "tsdb_max_size db \<equiv> db_max_size (ts_parent db)"

abbreviation tsdb_oldest_addr :: "fdb_tsdb \<Rightarrow> nat" where
  "tsdb_oldest_addr db \<equiv> db_oldest_addr (ts_parent db)"

abbreviation tsdb_stk :: "fdb_tsdb \<Rightarrow> byte" where
  "tsdb_stk db \<equiv> stk (ts_parent db)"

definition tsdb_lock :: "fdb_tsdb \<Rightarrow> fdb_tsdb" where
  "tsdb_lock db = db\<lparr>ts_parent := db_lock (ts_parent db)\<rparr>"

definition tsdb_unlock :: "fdb_tsdb \<Rightarrow> fdb_tsdb" where
  "tsdb_unlock db = db\<lparr>ts_parent := db_unlock (ts_parent db)\<rparr>"

definition ts_flash_read :: "fdb_tsdb \<Rightarrow> nat \<Rightarrow> bytes \<Rightarrow> (fdb_err \<times> bytes) option" where
  "ts_flash_read db addr buf = fdb_flash_read (ts_parent db) addr buf"

definition ts_flash_write :: "fdb_tsdb \<Rightarrow> nat \<Rightarrow> bytes \<Rightarrow> bool \<Rightarrow> (fdb_err \<times> fdb_tsdb) option" where
  "ts_flash_write db addr buf sync = do {
     (err, p) \<leftarrow> fdb_flash_write (ts_parent db) addr buf sync;
     Some (err, db\<lparr>ts_parent := p\<rparr>)
   }"

definition ts_flash_erase :: "fdb_tsdb \<Rightarrow> nat \<Rightarrow> nat \<Rightarrow> (fdb_err \<times> fdb_tsdb) option" where
  "ts_flash_erase db addr sz = do {
     (err, p) \<leftarrow> fdb_flash_erase (ts_parent db) addr sz;
     Some (err, db\<lparr>ts_parent := p\<rparr>)
   }"

definition ts_write_status :: "fdb_tsdb \<Rightarrow> nat \<Rightarrow> nat \<Rightarrow> nat \<Rightarrow> bool \<Rightarrow> (fdb_err \<times> fdb_tsdb) option" where
  "ts_write_status db addr num idx sync = do {
     (err, p) \<leftarrow> fdb_write_status (ts_parent db) addr num idx sync;
     Some (err, db\<lparr>ts_parent := p\<rparr>)
   }"

text \<open>The macros \<open>_FDB_WRITE_STATUS\<close> and \<open>FLASH_WRITE\<close>: an error returns from the function.\<close>

definition ok_then ::
  "(fdb_err \<times> 'd) option \<Rightarrow> ('d \<Rightarrow> (fdb_err \<times> 'd) option) \<Rightarrow> (fdb_err \<times> 'd) option" where
  "ok_then m k = do {
     (result, db) \<leftarrow> m;
     if result \<noteq> FDB_NO_ERR then Some (result, db) else k db
   }"

subsection \<open>Reading a log index\<close>

definition read_tsl :: "fdb_tsdb \<Rightarrow> fdb_tsl \<Rightarrow> fdb_tsl option" where
  "read_tsl db tsl = do {
     (err, idx) \<leftarrow> ts_flash_read db (tsl_addr_index tsl) (replicate LOG_IDX_DATA_SIZE (tsdb_stk db));
     let status = tsl_status_of (fdb_get_status FDB_WRITE_GRAN (slice 0 1 idx) FDB_TSL_STATUS_NUM);
     if status = FDB_TSL_PRE_WRITE \<or> status = FDB_TSL_UNUSED
     then Some (tsl\<lparr>tsl_status := status, tsl_log_len := ts_max_len db,
                    tsl_addr_log := FDB_DATA_UNUSED, tsl_time := 0\<rparr>)
     else Some (tsl\<lparr>tsl_status := status, tsl_log_len := of_le32 (slice 8 4 idx),
                    tsl_addr_log := of_le32 (slice 12 4 idx),
                    tsl_time := s32 (int (of_le32 (slice 4 4 idx)))\<rparr>)
   }"

subsection \<open>The order of sectors and logs\<close>

definition ts_get_next_sector_addr :: "fdb_tsdb \<Rightarrow> tsdb_sec_info \<Rightarrow> nat \<Rightarrow> nat" where
  "ts_get_next_sector_addr db pre_sec traversed_len =
     (if u32 (traversed_len + tsdb_sec_size db) \<le> tsdb_max_size db
      then if u32 (tsec_addr pre_sec + tsdb_sec_size db) < tsdb_max_size db
           then u32 (tsec_addr pre_sec + tsdb_sec_size db) else 0
      else TS_FAILED_ADDR)"

definition get_next_tsl_addr :: "tsdb_sec_info \<Rightarrow> fdb_tsl \<Rightarrow> nat" where
  "get_next_tsl_addr sector pre_tsl =
     (if tsec_status sector = FDB_SECTOR_STORE_EMPTY then TS_FAILED_ADDR
      else if u32 (tsl_addr_index pre_tsl + LOG_IDX_DATA_SIZE) \<le> tsec_end_idx sector
      then u32 (tsl_addr_index pre_tsl + LOG_IDX_DATA_SIZE)
      else TS_FAILED_ADDR)"

definition get_last_tsl_addr :: "tsdb_sec_info \<Rightarrow> fdb_tsl \<Rightarrow> nat" where
  "get_last_tsl_addr sector pre_tsl =
     (if tsec_status sector = FDB_SECTOR_STORE_EMPTY then TS_FAILED_ADDR
      else if tsl_addr_index pre_tsl
              \<ge> u32 (tsec_addr sector + TS_SECTOR_HDR_DATA_SIZE + LOG_IDX_DATA_SIZE)
      then u32_sub (tsl_addr_index pre_tsl) LOG_IDX_DATA_SIZE
      else TS_FAILED_ADDR)"

definition ts_get_last_sector_addr :: "fdb_tsdb \<Rightarrow> tsdb_sec_info \<Rightarrow> nat \<Rightarrow> nat" where
  "ts_get_last_sector_addr db pre_sec traversed_len =
     (if u32 (traversed_len + tsdb_sec_size db) \<le> tsdb_max_size db
      then if tsec_addr pre_sec \<ge> tsdb_sec_size db
           then u32_sub (tsec_addr pre_sec) (tsdb_sec_size db)
           else u32_sub (tsdb_max_size db) (tsdb_sec_size db)
      else TS_FAILED_ADDR)"

subsection \<open>Reading a sector header\<close>

text \<open>The loop of \<open>read_sector_info\<close> over the logs of a sector in use.\<close>

partial_function (option) ts_traverse ::
  "fdb_tsdb \<Rightarrow> tsdb_sec_info \<Rightarrow> fdb_tsl \<Rightarrow> (fdb_err \<times> tsdb_sec_info) option" where
  "ts_traverse db sector tsl = do {
     tsl \<leftarrow> read_tsl db tsl;
     if tsl_status tsl = FDB_TSL_UNUSED \<or> tsl_status tsl = FDB_TSL_PRE_WRITE
     then Some (FDB_NO_ERR, sector)
     else do {
       let used = u32 (LOG_IDX_DATA_SIZE + FDB_WG_ALIGN (tsl_log_len tsl));
       let sector = sector\<lparr>tsec_end_time := tsl_time tsl, tsec_end_idx := tsl_addr_index tsl,
             tsec_empty_idx := u32 (tsec_empty_idx sector + LOG_IDX_DATA_SIZE),
             tsec_empty_data := u32_sub (tsec_empty_data sector) (FDB_WG_ALIGN (tsl_log_len tsl))\<rparr>;
       let tsl = tsl\<lparr>tsl_addr_index := u32 (tsl_addr_index tsl + LOG_IDX_DATA_SIZE)\<rparr>;
       if tsec_remain sector > used
       then ts_traverse db (sector\<lparr>tsec_remain := u32_sub (tsec_remain sector) used\<rparr>) tsl
       else Some (FDB_READ_ERR, sector\<lparr>tsec_remain := 0\<rparr>)
     }
   }"

definition ts_read_sector_info ::
  "fdb_tsdb \<Rightarrow> nat \<Rightarrow> tsdb_sec_info \<Rightarrow> bool \<Rightarrow> (fdb_err \<times> tsdb_sec_info) option" where
  "ts_read_sector_info db addr sector traversal = do {
     (err, hdr) \<leftarrow> ts_flash_read db addr (replicate TS_SECTOR_HDR_DATA_SIZE (tsdb_stk db));
     let sector = sector\<lparr>tsec_addr := addr, tsec_magic := of_le32 (slice 4 4 hdr)\<rparr>;
     if tsec_magic sector \<noteq> TS_SECTOR_MAGIC_WORD
     then Some (FDB_INIT_FAILED, sector\<lparr>tsec_check_ok := False\<rparr>)
     else do {
       let stat = (\<lambda>a. tsl_status_of (fdb_get_status FDB_WRITE_GRAN (slice a 1 hdr) FDB_TSL_STATUS_NUM));
       let sector = sector\<lparr>tsec_check_ok := True,
             tsec_status := store_of (fdb_get_status FDB_WRITE_GRAN (slice 0 1 hdr)
                                        FDB_SECTOR_STORE_STATUS_NUM),
             tsec_start_time := s32 (int (of_le32 (slice SECTOR_START_TIME_OFFSET 4 hdr))),
             tsec_end_stat0 := stat SECTOR_END0_STATUS_OFFSET,
             tsec_end_stat1 := stat SECTOR_END1_STATUS_OFFSET\<rparr>;
       sector \<leftarrow>
         (if tsec_end_stat0 sector = FDB_TSL_WRITE
          then Some (sector\<lparr>
                 tsec_end_time := s32 (int (of_le32 (slice SECTOR_END0_TIME_OFFSET 4 hdr))),
                 tsec_end_idx := of_le32 (slice SECTOR_END0_IDX_OFFSET 4 hdr)\<rparr>)
          else if tsec_end_stat1 sector = FDB_TSL_WRITE
          then Some (sector\<lparr>
                 tsec_end_time := s32 (int (of_le32 (slice SECTOR_END1_TIME_OFFSET 4 hdr))),
                 tsec_end_idx := of_le32 (slice SECTOR_END1_IDX_OFFSET 4 hdr)\<rparr>)
          else if tsec_end_stat0 sector = FDB_TSL_PRE_WRITE \<and> tsec_end_stat1 sector = FDB_TSL_PRE_WRITE
          then None
          else Some sector);
       let sector = sector\<lparr>tsec_empty_idx := u32 (addr + TS_SECTOR_HDR_DATA_SIZE),
                           tsec_empty_data := u32 (addr + tsdb_sec_size db)\<rparr>;
       let sector = sector\<lparr>tsec_remain := u32_sub (tsec_empty_data sector) (tsec_empty_idx sector)\<rparr>;
       if tsec_status sector = FDB_SECTOR_STORE_USING \<and> traversal
       then ts_traverse db sector ((junk_tsl (tsdb_stk db))\<lparr>tsl_addr_index := tsec_empty_idx sector\<rparr>)
       else Some (FDB_NO_ERR, sector)
     }
   }"

definition ts_format_sector :: "fdb_tsdb \<Rightarrow> nat \<Rightarrow> (fdb_err \<times> fdb_tsdb) option" where
  "ts_format_sector db addr =
     (if tsdb_sec_size db = 0 \<or> addr mod tsdb_sec_size db \<noteq> 0 then None
      else
        ok_then (ts_flash_erase db addr (tsdb_sec_size db)) (\<lambda>db.
        ok_then (ts_write_status db addr FDB_SECTOR_STORE_STATUS_NUM
                   (store_num FDB_SECTOR_STORE_EMPTY) True) (\<lambda>db.
        ts_flash_write db (u32 (addr + TS_SECTOR_MAGIC_OFFSET)) (le32 TS_SECTOR_MAGIC_WORD) True)))"

partial_function (option) ts_sector_iter_loop ::
  "(tsdb_sec_info \<Rightarrow> 'a \<Rightarrow> fdb_tsdb \<Rightarrow> (bool \<times> 'a \<times> fdb_tsdb) option) \<Rightarrow> bool
   \<Rightarrow> fdb_sector_store_status \<Rightarrow> fdb_tsdb \<Rightarrow> tsdb_sec_info \<Rightarrow> 'a \<Rightarrow> nat \<Rightarrow> nat
   \<Rightarrow> (tsdb_sec_info \<times> 'a \<times> fdb_tsdb) option" where
  "ts_sector_iter_loop callback traversal status db sector arg addr traversed_len = do {
     (err, sector) \<leftarrow> ts_read_sector_info db addr sector False;
     (stop, sector, arg, db) \<leftarrow>
       (if status = FDB_SECTOR_STORE_UNUSED \<or> status = tsec_status sector then do {
          (err, sector) \<leftarrow> (if traversal then ts_read_sector_info db addr sector True
                            else Some (FDB_NO_ERR, sector));
          (stop, arg, db) \<leftarrow> callback sector arg db;
          Some (stop, sector, arg, db)
        }
        else Some (False, sector, arg, db));
     if stop then Some (sector, arg, db)
     else
       let traversed_len = u32 (traversed_len + tsdb_sec_size db);
           next = ts_get_next_sector_addr db sector traversed_len in
       if next \<noteq> TS_FAILED_ADDR
       then ts_sector_iter_loop callback traversal status db sector arg next traversed_len
       else Some (sector, arg, db)
   }"

definition ts_sector_iterator ::
  "fdb_tsdb \<Rightarrow> tsdb_sec_info \<Rightarrow> fdb_sector_store_status \<Rightarrow> 'a
   \<Rightarrow> (tsdb_sec_info \<Rightarrow> 'a \<Rightarrow> fdb_tsdb \<Rightarrow> (bool \<times> 'a \<times> fdb_tsdb) option) \<Rightarrow> bool
   \<Rightarrow> (tsdb_sec_info \<times> 'a \<times> fdb_tsdb) option" where
  "ts_sector_iterator db sector status arg callback traversal =
     ts_sector_iter_loop callback traversal status db sector arg (tsec_addr sector) 0"

subsection \<open>Appending\<close>

text \<open>
  The index of the log in memory, from its field \<open>time\<close> on. The log data is \<open>blob->buf\<close> of
  \<open>blob->size\<close> bytes.
\<close>

definition log_idx_image :: "int \<Rightarrow> nat \<Rightarrow> nat \<Rightarrow> bytes" where
  "log_idx_image time log_len log_addr = le32 (u32_of_int time) @ le32 log_len @ le32 log_addr"

definition write_tsl :: "fdb_tsdb \<Rightarrow> bytes \<Rightarrow> int \<Rightarrow> (fdb_err \<times> fdb_tsdb) option" where
  "write_tsl db data time =
     (let idx_addr = tsec_empty_idx (ts_cur_sec db);
          log_len = length data;
          log_addr = u32_sub (tsec_empty_data (ts_cur_sec db)) (FDB_WG_ALIGN log_len) in
      ok_then (ts_write_status db idx_addr FDB_TSL_STATUS_NUM (tsl_status_num FDB_TSL_PRE_WRITE) False)
        (\<lambda>db.
      ok_then (ts_flash_write db (u32 (idx_addr + LOG_IDX_TS_OFFSET))
                 (log_idx_image time log_len log_addr) False) (\<lambda>db.
      ok_then (ts_flash_write db log_addr data False) (\<lambda>db.
      ts_write_status db idx_addr FDB_TSL_STATUS_NUM (tsl_status_num FDB_TSL_WRITE) True))))"

text \<open>Writing \<open>end_info[0]\<close> or \<open>end_info[1]\<close>: the offsets of its status, time and index.\<close>

definition write_end_info ::
  "fdb_tsdb \<Rightarrow> nat \<Rightarrow> nat \<Rightarrow> nat \<Rightarrow> nat \<Rightarrow> nat \<Rightarrow> (fdb_err \<times> fdb_tsdb) option" where
  "write_end_info db addr end_index st_ofs time_ofs idx_ofs =
     ok_then (ts_write_status db (u32 (addr + st_ofs)) FDB_TSL_STATUS_NUM
                (tsl_status_num FDB_TSL_PRE_WRITE) False) (\<lambda>db.
     ok_then (ts_flash_write db (u32 (addr + time_ofs)) (le32 (u32_of_int (ts_last_time db))) False) (\<lambda>db.
     ok_then (ts_flash_write db (u32 (addr + idx_ofs)) (le32 end_index) False) (\<lambda>db.
     ts_write_status db (u32 (addr + st_ofs)) FDB_TSL_STATUS_NUM (tsl_status_num FDB_TSL_WRITE) True)))"

text \<open>
  The parts of \<open>update_sec_status\<close>, whose \<open>sector\<close> is \<open>&db->cur_sec\<close>: opening an empty sector,
  and changing to the next sector.
\<close>

definition ts_open_sector :: "fdb_tsdb \<Rightarrow> int \<Rightarrow> (fdb_err \<times> fdb_tsdb) option" where
  "ts_open_sector db cur_time =
     (if tsec_status (ts_cur_sec db) = FDB_SECTOR_STORE_EMPTY then
        let db = db\<lparr>ts_cur_sec := (ts_cur_sec db)\<lparr>tsec_status := FDB_SECTOR_STORE_USING,
                                                  tsec_start_time := cur_time\<rparr>\<rparr>;
            addr = tsec_addr (ts_cur_sec db) in
        ok_then (ts_write_status db addr FDB_SECTOR_STORE_STATUS_NUM
                   (store_num FDB_SECTOR_STORE_USING) True) (\<lambda>db.
        ts_flash_write db (u32 (addr + SECTOR_START_TIME_OFFSET)) (le32 (u32_of_int cur_time)) True)
      else Some (FDB_NO_ERR, db))"

definition ts_next_sector :: "fdb_tsdb \<Rightarrow> nat \<Rightarrow> fdb_tsdb option" where
  "ts_next_sector db new_sec_addr = do {
     (err, sec) \<leftarrow> ts_read_sector_info db new_sec_addr (ts_cur_sec db) False;
     let db = db\<lparr>ts_cur_sec := sec\<rparr>;
     if tsec_status sec \<noteq> FDB_SECTOR_STORE_EMPTY then do {
       let next = u32 (new_sec_addr + tsdb_sec_size db);
       let db = db\<lparr>ts_parent := (ts_parent db)\<lparr>db_oldest_addr :=
             (if next < tsdb_max_size db then next else 0)\<rparr>\<rparr>;
       (err, db) \<leftarrow> ts_format_sector db new_sec_addr;
       (err, sec) \<leftarrow> ts_read_sector_info db new_sec_addr (ts_cur_sec db) False;
       Some (db\<lparr>ts_cur_sec := sec\<rparr>)
     }
     else Some db
   }"

definition ts_update_sec_status :: "fdb_tsdb \<Rightarrow> nat \<Rightarrow> int \<Rightarrow> (fdb_err \<times> fdb_tsdb) option" where
  "ts_update_sec_status db log_size cur_time =
     (let sector = ts_cur_sec db; addr = tsec_addr sector in
      if tsec_status sector = FDB_SECTOR_STORE_USING
         \<and> tsec_remain sector < u32 (LOG_IDX_DATA_SIZE + FDB_WG_ALIGN log_size)
      then
        let end_index = u32_sub (tsec_empty_idx sector) LOG_IDX_DATA_SIZE in
        ok_then
          (if tsec_end_stat0 sector = FDB_TSL_UNUSED
           then write_end_info db addr end_index SECTOR_END0_STATUS_OFFSET SECTOR_END0_TIME_OFFSET
                  SECTOR_END0_IDX_OFFSET
           else if tsec_end_stat1 sector = FDB_TSL_UNUSED
           then write_end_info db addr end_index SECTOR_END1_STATUS_OFFSET SECTOR_END1_TIME_OFFSET
                  SECTOR_END1_IDX_OFFSET
           else Some (FDB_NO_ERR, db)) (\<lambda>db.
        ok_then (ts_write_status db addr FDB_SECTOR_STORE_STATUS_NUM
                   (store_num FDB_SECTOR_STORE_FULL) True) (\<lambda>db.
        let db = db\<lparr>ts_cur_sec := (ts_cur_sec db)\<lparr>tsec_status := FDB_SECTOR_STORE_FULL\<rparr>\<rparr>;
            next = u32 (addr + tsdb_sec_size db) in
        if \<not> next < tsdb_max_size db \<and> \<not> ts_rollover db then Some (FDB_SAVED_FULL, db)
        else do {
          db \<leftarrow> ts_next_sector db (if next < tsdb_max_size db then next else 0);
          ts_open_sector db cur_time
        }))
      else if tsec_status sector = FDB_SECTOR_STORE_FULL then Some (FDB_SAVED_FULL, db)
      else ts_open_sector db cur_time)"

text \<open>
  \<open>tsl_append\<close>. \<open>now\<close> is what the user's \<open>get_time\<close> callback returns, used when no time stamp is
  given. A blob whose buffer is null or shorter than its size has no defined result.
\<close>

definition tsl_append ::
  "fdb_tsdb \<Rightarrow> fdb_blob \<Rightarrow> int option \<Rightarrow> int \<Rightarrow> (fdb_err \<times> fdb_tsdb) option" where
  "tsl_append db blob timestamp now =
     (let cur_time = (case timestamp of None \<Rightarrow> now | Some t \<Rightarrow> t) in
      if blob_size blob > ts_max_len db then Some (FDB_WRITE_ERR, db)
      else if cur_time \<le> ts_last_time db then Some (FDB_WRITE_ERR, db)
      else
        ok_then (ts_update_sec_status db (blob_size blob) cur_time) (\<lambda>db.
        ok_then
          (case blob_buf blob of
             None \<Rightarrow> None
           | Some buf \<Rightarrow> if length buf < blob_size blob then None
                         else write_tsl db (take (blob_size blob) buf) cur_time) (\<lambda>db.
        let sec = ts_cur_sec db;
            used = u32 (LOG_IDX_DATA_SIZE + FDB_WG_ALIGN (blob_size blob));
            sec = sec\<lparr>tsec_end_idx := tsec_empty_idx sec, tsec_end_time := cur_time,
                      tsec_empty_idx := u32 (tsec_empty_idx sec + LOG_IDX_DATA_SIZE),
                      tsec_empty_data := u32_sub (tsec_empty_data sec) (FDB_WG_ALIGN (blob_size blob)),
                      tsec_remain := u32_sub (tsec_remain sec) used\<rparr> in
        Some (FDB_NO_ERR, db\<lparr>ts_cur_sec := sec, ts_last_time := cur_time\<rparr>))))"

definition fdb_tsl_append :: "fdb_tsdb \<Rightarrow> fdb_blob \<Rightarrow> int \<Rightarrow> (fdb_err \<times> fdb_tsdb) option" where
  "fdb_tsl_append db blob now =
     (if \<not> db_init_ok (ts_parent db) then Some (FDB_INIT_FAILED, db)
      else do {
        (result, db) \<leftarrow> tsl_append (tsdb_lock db) blob None now;
        Some (result, tsdb_unlock db)
      })"

definition fdb_tsl_append_with_ts :: "fdb_tsdb \<Rightarrow> fdb_blob \<Rightarrow> int \<Rightarrow> (fdb_err \<times> fdb_tsdb) option" where
  "fdb_tsl_append_with_ts db blob timestamp =
     (if \<not> db_init_ok (ts_parent db) then Some (FDB_INIT_FAILED, db)
      else do {
        (result, db) \<leftarrow> tsl_append (tsdb_lock db) blob (Some timestamp) 0;
        Some (result, tsdb_unlock db)
      })"

end
