(* ===== verification/Tsdb_Api.thy ===== *)
theory Tsdb_Api
  imports Tsdb_Core
begin

text \<open>
  The rest of \<open>fdb_tsdb.c\<close>: iterating over the logs forwards, backwards and by time, counting,
  the status of a log, formatting, options and initialisation.

  The user's callback \<open>fdb_tsl_cb\<close> gets the log, its own argument and the database (it may call
  \<open>fdb_tsl_set_status\<close>, as the samples do) and returns whether the iteration stops; it does not
  write to the log object. \<^const>\<open>None\<close> for a callback is a null pointer.
\<close>

type_synonym 'a tsl_cb = "fdb_tsl \<Rightarrow> 'a \<Rightarrow> fdb_tsdb \<Rightarrow> (bool \<times> 'a \<times> fdb_tsdb) option"

subsection \<open>Iterating over all logs\<close>

text \<open>
  The inner loop of \<open>fdb_tsl_iter\<close> and \<open>fdb_tsl_iter_reverse\<close> over one sector; \<open>next\<close> is
  \<open>get_next_tsl_addr\<close> or \<open>get_last_tsl_addr\<close>.
\<close>

partial_function (option) tsl_iter_sector ::
  "(tsdb_sec_info \<Rightarrow> fdb_tsl \<Rightarrow> nat) \<Rightarrow> (fdb_tsl \<Rightarrow> 'a \<Rightarrow> fdb_tsdb \<Rightarrow> (bool \<times> 'a \<times> fdb_tsdb) option)
   \<Rightarrow> fdb_tsdb \<Rightarrow> tsdb_sec_info \<Rightarrow> fdb_tsl \<Rightarrow> 'a \<Rightarrow> (bool \<times> fdb_tsl \<times> 'a \<times> fdb_tsdb) option" where
  "tsl_iter_sector next cb db sector tsl arg = do {
     tsl \<leftarrow> read_tsl db tsl;
     (stop, arg, db) \<leftarrow> cb tsl arg db;
     if stop then Some (True, tsl, arg, db)
     else
       let addr = next sector tsl; tsl = tsl\<lparr>tsl_addr_index := addr\<rparr> in
       if addr \<noteq> TS_FAILED_ADDR then tsl_iter_sector next cb db sector tsl arg
       else Some (False, tsl, arg, db)
   }"

text \<open>The sector information used for the logs: the current sector's copy when it is in use.\<close>

definition ts_sector_for_iter :: "fdb_tsdb \<Rightarrow> tsdb_sec_info \<Rightarrow> tsdb_sec_info" where
  "ts_sector_for_iter db sector =
     (if tsec_status sector = FDB_SECTOR_STORE_USING then ts_cur_sec db else sector)"

partial_function (option) tsl_iter_loop ::
  "(fdb_tsl \<Rightarrow> 'a \<Rightarrow> fdb_tsdb \<Rightarrow> (bool \<times> 'a \<times> fdb_tsdb) option) \<Rightarrow> fdb_tsdb \<Rightarrow> tsdb_sec_info
   \<Rightarrow> fdb_tsl \<Rightarrow> 'a \<Rightarrow> nat \<Rightarrow> nat \<Rightarrow> ('a \<times> fdb_tsdb) option" where
  "tsl_iter_loop cb db sector tsl arg addr traversed_len = do {
     let traversed_len = u32 (traversed_len + tsdb_sec_size db);
     (err, sector) \<leftarrow> ts_read_sector_info db addr sector False;
     let has_tsl = (err = FDB_NO_ERR \<and> (tsec_status sector = FDB_SECTOR_STORE_USING
                                        \<or> tsec_status sector = FDB_SECTOR_STORE_FULL));
     let sector = (if has_tsl then ts_sector_for_iter db sector else sector);
     (stop, tsl, arg, db) \<leftarrow>
       (if has_tsl
        then tsl_iter_sector get_next_tsl_addr cb db sector
               (tsl\<lparr>tsl_addr_index := u32 (tsec_addr sector + TS_SECTOR_HDR_DATA_SIZE)\<rparr>) arg
        else Some (False, tsl, arg, db));
     if stop then Some (arg, db)
     else
       let next = ts_get_next_sector_addr db sector traversed_len in
       if next \<noteq> TS_FAILED_ADDR then tsl_iter_loop cb db sector tsl arg next traversed_len
       else Some (arg, db)
   }"

text \<open>The database may be not initialised: the code only prints a message and goes on.\<close>

definition fdb_tsl_iter ::
  "fdb_tsdb \<Rightarrow> (fdb_tsl \<Rightarrow> 'a \<Rightarrow> fdb_tsdb \<Rightarrow> (bool \<times> 'a \<times> fdb_tsdb) option) option \<Rightarrow> 'a
   \<Rightarrow> ('a \<times> fdb_tsdb) option" where
  "fdb_tsl_iter db cb arg =
     (case cb of
        None \<Rightarrow> Some (arg, db)
      | Some cb \<Rightarrow> do {
          (arg, db) \<leftarrow> tsl_iter_loop cb (tsdb_lock db) (junk_tsec (tsdb_stk db))
                         (junk_tsl (tsdb_stk db)) arg (tsdb_oldest_addr db) 0;
          Some (arg, tsdb_unlock db)
        })"

partial_function (option) tsl_iter_rev_loop ::
  "(fdb_tsl \<Rightarrow> 'a \<Rightarrow> fdb_tsdb \<Rightarrow> (bool \<times> 'a \<times> fdb_tsdb) option) \<Rightarrow> fdb_tsdb \<Rightarrow> tsdb_sec_info
   \<Rightarrow> fdb_tsl \<Rightarrow> 'a \<Rightarrow> nat \<Rightarrow> nat \<Rightarrow> ('a \<times> fdb_tsdb) option" where
  "tsl_iter_rev_loop cb db sector tsl arg addr traversed_len = do {
     let traversed_len = u32 (traversed_len + tsdb_sec_size db);
     (err, sector) \<leftarrow> ts_read_sector_info db addr sector False;
     let has_tsl = (err = FDB_NO_ERR \<and> (tsec_status sector = FDB_SECTOR_STORE_USING
                                        \<or> tsec_status sector = FDB_SECTOR_STORE_FULL));
     if err = FDB_NO_ERR \<and> \<not> has_tsl then Some (arg, db)
     else do {
       let sector = (if has_tsl then ts_sector_for_iter db sector else sector);
       (stop, tsl, arg, db) \<leftarrow>
         (if has_tsl
          then tsl_iter_sector get_last_tsl_addr cb db sector
                 (tsl\<lparr>tsl_addr_index := tsec_end_idx sector\<rparr>) arg
          else Some (False, tsl, arg, db));
       if stop then Some (arg, db)
       else
         let next = ts_get_last_sector_addr db sector traversed_len in
         if next \<noteq> TS_FAILED_ADDR then tsl_iter_rev_loop cb db sector tsl arg next traversed_len
         else Some (arg, db)
     }
   }"

definition fdb_tsl_iter_reverse ::
  "fdb_tsdb \<Rightarrow> (fdb_tsl \<Rightarrow> 'a \<Rightarrow> fdb_tsdb \<Rightarrow> (bool \<times> 'a \<times> fdb_tsdb) option) option \<Rightarrow> 'a
   \<Rightarrow> ('a \<times> fdb_tsdb) option" where
  "fdb_tsl_iter_reverse db cb arg =
     (case cb of
        None \<Rightarrow> Some (arg, db)
      | Some cb \<Rightarrow> do {
          (arg, db) \<leftarrow> tsl_iter_rev_loop cb (tsdb_lock db) (junk_tsec (tsdb_stk db))
                         (junk_tsl (tsdb_stk db)) arg (tsec_addr (ts_cur_sec db)) 0;
          Some (arg, tsdb_unlock db)
        })"

subsection \<open>Searching by time\<close>

text \<open>
  The binary search of \<open>search_start_tsl_addr\<close>. \<open>start\<close> and \<open>end_pos\<close> are of type \<open>int\<close>; the middle
  is computed in \<open>uint32_t\<close>, since \<open>LOG_IDX_DATA_SIZE\<close> is unsigned.
\<close>

definition search_mid :: "int \<Rightarrow> int \<Rightarrow> nat" where
  "search_mid start end_pos =
     u32_of_int (start + int (FDB_ALIGN (u32_of_int (s32 (end_pos - start) sdiv 2)) LOG_IDX_DATA_SIZE))"

partial_function (option) search_start_tsl_addr ::
  "fdb_tsdb \<Rightarrow> int \<Rightarrow> int \<Rightarrow> int \<Rightarrow> int \<Rightarrow> int option" where
  "search_start_tsl_addr db start end_pos from to = do {
     let mid = search_mid start end_pos;
     tsl \<leftarrow> read_tsl db ((junk_tsl (tsdb_stk db))\<lparr>tsl_addr_index := mid\<rparr>);
     if tsl_time tsl = from then Some (s32 (int mid))
     else do {
       let start = (if tsl_time tsl < from then s32 (int (u32 (mid + LOG_IDX_DATA_SIZE))) else start);
       let end_pos = (if tsl_time tsl > from then s32 (int (u32_sub mid LOG_IDX_DATA_SIZE)) else end_pos);
       if start > end_pos then
         if from > to then do {
           tsl \<leftarrow> read_tsl db ((junk_tsl (tsdb_stk db))\<lparr>tsl_addr_index := u32_of_int start\<rparr>);
           Some (if tsl_time tsl > from
                 then s32 (int (u32_sub (u32_of_int start) LOG_IDX_DATA_SIZE)) else start)
         }
         else Some start
       else search_start_tsl_addr db start end_pos from to
     }
   }"

subsection \<open>Iterating by time\<close>

definition in_time_range :: "int \<Rightarrow> int \<Rightarrow> int \<Rightarrow> bool" where
  "in_time_range from to t \<longleftrightarrow>
     from \<le> to \<and> t \<ge> from \<and> t \<le> to \<or> from > to \<and> t \<le> from \<and> t \<ge> to"

text \<open>
  The inner loop of \<open>fdb_tsl_iter_by_time\<close>: it leaves the whole iteration at the first log that
  is used and out of the range.
\<close>

partial_function (option) tsl_time_sector ::
  "int \<Rightarrow> int \<Rightarrow> (fdb_tsl \<Rightarrow> 'a \<Rightarrow> fdb_tsdb \<Rightarrow> (bool \<times> 'a \<times> fdb_tsdb) option)
   \<Rightarrow> fdb_tsdb \<Rightarrow> tsdb_sec_info \<Rightarrow> fdb_tsl \<Rightarrow> 'a \<Rightarrow> (bool \<times> fdb_tsl \<times> 'a \<times> fdb_tsdb) option" where
  "tsl_time_sector from to cb db sector tsl arg = do {
     tsl \<leftarrow> read_tsl db tsl;
     (stop, arg, db) \<leftarrow>
       (if tsl_status tsl \<noteq> FDB_TSL_UNUSED
        then if in_time_range from to (tsl_time tsl) then cb tsl arg db else Some (True, arg, db)
        else Some (False, arg, db));
     if stop then Some (True, tsl, arg, db)
     else
       let addr = (if from \<le> to then get_next_tsl_addr sector tsl else get_last_tsl_addr sector tsl);
           tsl = tsl\<lparr>tsl_addr_index := addr\<rparr> in
       if addr \<noteq> TS_FAILED_ADDR then tsl_time_sector from to cb db sector tsl arg
       else Some (False, tsl, arg, db)
   }"

text \<open>Whether the range starts in this sector (the condition beside \<open>found_start_tsl\<close>).\<close>

definition time_range_starts :: "int \<Rightarrow> int \<Rightarrow> bool \<Rightarrow> tsdb_sec_info \<Rightarrow> bool" where
  "time_range_starts from to at_start sector \<longleftrightarrow>
     from \<le> to \<and> (at_start \<and> from \<le> tsec_start_time sector \<or> from \<le> tsec_end_time sector)
   \<or> from > to \<and> (at_start \<and> from \<ge> tsec_end_time sector \<or> from \<ge> tsec_start_time sector)"

partial_function (option) tsl_time_loop ::
  "int \<Rightarrow> int \<Rightarrow> nat \<Rightarrow> (fdb_tsl \<Rightarrow> 'a \<Rightarrow> fdb_tsdb \<Rightarrow> (bool \<times> 'a \<times> fdb_tsdb) option) \<Rightarrow> fdb_tsdb
   \<Rightarrow> tsdb_sec_info \<Rightarrow> fdb_tsl \<Rightarrow> bool \<Rightarrow> 'a \<Rightarrow> nat \<Rightarrow> nat \<Rightarrow> ('a \<times> fdb_tsdb) option" where
  "tsl_time_loop from to start_addr cb db sector tsl found arg addr traversed_len = do {
     let traversed_len = u32 (traversed_len + tsdb_sec_size db);
     (err, sector) \<leftarrow> ts_read_sector_info db addr sector False;
     let has_tsl = (err = FDB_NO_ERR \<and> (tsec_status sector = FDB_SECTOR_STORE_USING
                                        \<or> tsec_status sector = FDB_SECTOR_STORE_FULL));
     if err = FDB_NO_ERR \<and> tsec_status sector = FDB_SECTOR_STORE_EMPTY then Some (arg, db)
     else do {
       let sector = (if has_tsl then ts_sector_for_iter db sector else sector);
       let here = (has_tsl \<and> (found \<or> time_range_starts from to (addr = start_addr) sector));
       (stop, tsl, arg, db) \<leftarrow>
         (if here then do {
            start \<leftarrow> search_start_tsl_addr db
                       (s32 (int (u32 (tsec_addr sector + TS_SECTOR_HDR_DATA_SIZE))))
                       (s32 (int (tsec_end_idx sector))) from to;
            tsl_time_sector from to cb db sector (tsl\<lparr>tsl_addr_index := u32_of_int start\<rparr>) arg
          } else Some (False, tsl, arg, db));
       if stop then Some (arg, db)
       else
         let next = (if from \<le> to then ts_get_next_sector_addr db sector traversed_len
                     else ts_get_last_sector_addr db sector traversed_len) in
         if next \<noteq> TS_FAILED_ADDR
         then tsl_time_loop from to start_addr cb db sector tsl (found \<or> here) arg next traversed_len
         else Some (arg, db)
     }
   }"

definition fdb_tsl_iter_by_time ::
  "fdb_tsdb \<Rightarrow> int \<Rightarrow> int \<Rightarrow> (fdb_tsl \<Rightarrow> 'a \<Rightarrow> fdb_tsdb \<Rightarrow> (bool \<times> 'a \<times> fdb_tsdb) option) option
   \<Rightarrow> 'a \<Rightarrow> ('a \<times> fdb_tsdb) option" where
  "fdb_tsl_iter_by_time db from to cb arg =
     (let start_addr = (if from \<le> to then tsdb_oldest_addr db else tsec_addr (ts_cur_sec db)) in
      case cb of
        None \<Rightarrow> Some (arg, db)
      | Some cb \<Rightarrow> do {
          (arg, db) \<leftarrow> tsl_time_loop from to start_addr cb (tsdb_lock db) (junk_tsec (tsdb_stk db))
                         (junk_tsl (tsdb_stk db)) False arg start_addr 0;
          Some (arg, tsdb_unlock db)
        })"

text \<open>The argument of the callback is the pair of the status and the count.\<close>

definition query_count_cb ::
  "fdb_tsl \<Rightarrow> fdb_tsl_status \<times> nat \<Rightarrow> fdb_tsdb
   \<Rightarrow> (bool \<times> (fdb_tsl_status \<times> nat) \<times> fdb_tsdb) option" where
  "query_count_cb tsl args db =
     Some (False, (fst args, if tsl_status tsl = fst args then u32 (snd args + 1) else snd args), db)"

definition fdb_tsl_query_count ::
  "fdb_tsdb \<Rightarrow> int \<Rightarrow> int \<Rightarrow> fdb_tsl_status \<Rightarrow> (nat \<times> fdb_tsdb) option" where
  "fdb_tsl_query_count db from to status =
     (if \<not> db_init_ok (ts_parent db) then Some (0, db)
      else do {
        (args, db) \<leftarrow> fdb_tsl_iter_by_time db from to (Some query_count_cb) (status, 0);
        Some (snd args, db)
      })"

subsection \<open>One log\<close>

definition fdb_tsl_set_status ::
  "fdb_tsdb \<Rightarrow> fdb_tsl \<Rightarrow> fdb_tsl_status \<Rightarrow> (fdb_err \<times> fdb_tsdb) option" where
  "fdb_tsl_set_status db tsl status =
     ts_write_status db (tsl_addr_index tsl) FDB_TSL_STATUS_NUM (tsl_status_num status) True"

definition fdb_tsl_to_blob :: "fdb_tsl \<Rightarrow> fdb_blob \<Rightarrow> fdb_blob" where
  "fdb_tsl_to_blob tsl blob =
     blob\<lparr>blob_saved_addr := tsl_addr_log tsl, blob_saved_meta_addr := tsl_addr_index tsl,
          blob_saved_len := tsl_log_len tsl\<rparr>"

subsection \<open>Formatting\<close>

definition ts_format_all_cb :: "tsdb_sec_info \<Rightarrow> unit \<Rightarrow> fdb_tsdb \<Rightarrow> (bool \<times> unit \<times> fdb_tsdb) option" where
  "ts_format_all_cb sector arg db = do {
     (err, db) \<leftarrow> ts_format_sector db (tsec_addr sector);
     Some (False, arg, db)
   }"

definition tsl_format_all :: "fdb_tsdb \<Rightarrow> fdb_tsdb option" where
  "tsl_format_all db = do {
     (sector, arg, db) \<leftarrow>
       ts_sector_iterator db ((junk_tsec (tsdb_stk db))\<lparr>tsec_addr := 0\<rparr>) FDB_SECTOR_STORE_UNUSED ()
         ts_format_all_cb False;
     let db = db\<lparr>ts_parent := (ts_parent db)\<lparr>db_oldest_addr := 0\<rparr>,
                 ts_cur_sec := (ts_cur_sec db)\<lparr>tsec_addr := 0\<rparr>, ts_last_time := 0\<rparr>;
     (err, sec) \<leftarrow> ts_read_sector_info db (tsec_addr (ts_cur_sec db)) (ts_cur_sec db) False;
     Some (db\<lparr>ts_cur_sec := sec\<rparr>)
   }"

definition fdb_tsl_clean :: "fdb_tsdb \<Rightarrow> fdb_tsdb option" where
  "fdb_tsl_clean db = do {
     db \<leftarrow> tsl_format_all (tsdb_lock db);
     Some (tsdb_unlock db)
   }"

subsection \<open>Options\<close>

text \<open>A command with its argument, and what a \<open>GET\<close> command stores through its pointer.\<close>

datatype tsdb_cmd =
    TSDB_SET_SEC_SIZE nat
  | TSDB_GET_SEC_SIZE
  | TSDB_SET_LOCK bool
  | TSDB_SET_UNLOCK bool
  | TSDB_SET_ROLLOVER bool
  | TSDB_GET_ROLLOVER
  | TSDB_GET_LAST_TIME
  | TSDB_SET_FILE_MODE bool
  | TSDB_SET_MAX_SIZE nat
  | TSDB_SET_NOT_FORMAT bool

datatype tsdb_out = Out_none | Out_size nat | Out_bool bool | Out_time int

fun fdb_tsdb_control :: "fdb_tsdb \<Rightarrow> tsdb_cmd \<Rightarrow> (fdb_tsdb \<times> tsdb_out) option" where
  "fdb_tsdb_control db (TSDB_SET_SEC_SIZE n) =
     (if db_init_ok (ts_parent db) then None
      else Some (db\<lparr>ts_parent := (ts_parent db)\<lparr>db_sec_size := n\<rparr>\<rparr>, Out_none))"
| "fdb_tsdb_control db TSDB_GET_SEC_SIZE = Some (db, Out_size (tsdb_sec_size db))"
| "fdb_tsdb_control db (TSDB_SET_LOCK l) =
     Some (db\<lparr>ts_parent := (ts_parent db)\<lparr>db_lock_set := l\<rparr>\<rparr>, Out_none)"
| "fdb_tsdb_control db (TSDB_SET_UNLOCK l) =
     Some (db\<lparr>ts_parent := (ts_parent db)\<lparr>db_unlock_set := l\<rparr>\<rparr>, Out_none)"
| "fdb_tsdb_control db (TSDB_SET_ROLLOVER b) =
     (if \<not> db_init_ok (ts_parent db) then None else Some (db\<lparr>ts_rollover := b\<rparr>, Out_none))"
| "fdb_tsdb_control db TSDB_GET_ROLLOVER = Some (db, Out_bool (ts_rollover db))"
| "fdb_tsdb_control db TSDB_GET_LAST_TIME = Some (db, Out_time (ts_last_time db))"
| "fdb_tsdb_control db (TSDB_SET_FILE_MODE b) = Some (db, Out_none)"
| "fdb_tsdb_control db (TSDB_SET_MAX_SIZE n) = Some (db, Out_none)"
| "fdb_tsdb_control db (TSDB_SET_NOT_FORMAT b) =
     (if db_init_ok (ts_parent db) then None
      else Some (db\<lparr>ts_parent := (ts_parent db)\<lparr>db_not_formatable := b\<rparr>\<rparr>, Out_none))"

subsection \<open>Initialisation\<close>

text \<open>\<open>struct check_sec_hdr_cb_args\<close> without the database.\<close>

record check_sec_hdr_args =
  chk_failed :: bool
  chk_empty_num :: nat
  chk_empty_addr :: nat

definition ts_check_sec_hdr_cb ::
  "tsdb_sec_info \<Rightarrow> check_sec_hdr_args \<Rightarrow> fdb_tsdb \<Rightarrow> (bool \<times> check_sec_hdr_args \<times> fdb_tsdb) option" where
  "ts_check_sec_hdr_cb sector arg db =
     (if \<not> tsec_check_ok sector then Some (True, arg\<lparr>chk_failed := True\<rparr>, db)
      else if tsec_status sector = FDB_SECTOR_STORE_USING
      then if tsec_addr (ts_cur_sec db) = FDB_DATA_UNUSED
           then Some (False, arg, db\<lparr>ts_cur_sec := sector\<rparr>)
           else Some (True, arg\<lparr>chk_failed := True\<rparr>, db)
      else if tsec_status sector = FDB_SECTOR_STORE_EMPTY
      then
        let n = u32 (chk_empty_num arg + 1);
            arg = arg\<lparr>chk_empty_num := n, chk_empty_addr := tsec_addr sector\<rparr> in
        if n = 1 \<and> tsec_addr (ts_cur_sec db) = FDB_DATA_UNUSED
        then Some (False, arg, db\<lparr>ts_cur_sec := sector\<rparr>)
        else Some (False, arg, db)
      else Some (False, arg, db))"

text \<open>The latest sector of a database that needs no formatting, and the oldest one after it.\<close>

definition ts_find_oldest :: "fdb_tsdb \<Rightarrow> check_sec_hdr_args \<Rightarrow> fdb_tsdb" where
  "ts_find_oldest db arg =
     (let last = u32_sub (tsdb_max_size db) (tsdb_sec_size db);
          (latest_addr, db) =
            (if chk_empty_num arg > 0 then (chk_empty_addr arg, db)
             else if ts_rollover db then (tsec_addr (ts_cur_sec db), db)
             else (last, db\<lparr>ts_cur_sec := (ts_cur_sec db)\<lparr>tsec_addr := last\<rparr>\<rparr>));
          next = u32 (latest_addr + tsdb_sec_size db)
      in db\<lparr>ts_parent := (ts_parent db)\<lparr>db_oldest_addr := (if next \<ge> tsdb_max_size db then 0 else next)\<rparr>\<rparr>)"

text \<open>The last time stamp, read from the current sector or from the one before it.\<close>

definition ts_init_last_time :: "fdb_tsdb \<Rightarrow> fdb_tsdb option" where
  "ts_init_last_time db = do {
     (err, sec) \<leftarrow> ts_read_sector_info db (tsec_addr (ts_cur_sec db)) (ts_cur_sec db) True;
     let db = db\<lparr>ts_cur_sec := sec\<rparr>;
     if tsec_status sec = FDB_SECTOR_STORE_USING then Some (db\<lparr>ts_last_time := tsec_end_time sec\<rparr>)
     else if tsec_status sec = FDB_SECTOR_STORE_EMPTY \<and> tsdb_oldest_addr db \<noteq> tsec_addr sec
     then do {
       (err, prev) \<leftarrow> ts_read_sector_info db
         (if tsec_addr sec = 0 then u32_sub (tsdb_max_size db) (tsdb_sec_size db)
          else u32_sub (tsec_addr sec) (tsdb_sec_size db)) (junk_tsec (tsdb_stk db)) False;
       Some (db\<lparr>ts_last_time := tsec_end_time prev\<rparr>)
     }
     else Some db
   }"

text \<open>
  The part of \<open>fdb_tsdb_init\<close> after \<open>_fdb_init_ex\<close> succeeded. The error path of a database
  that must not be formatted leaves it locked, as the code does.
\<close>

definition tsdb_init_load :: "fdb_tsdb \<Rightarrow> nat \<Rightarrow> (fdb_err \<times> fdb_tsdb) option" where
  "tsdb_init_load db max_len = do {
     let db = tsdb_lock db;
     let db = db\<lparr>ts_max_len := max_len, ts_rollover := True,
                 ts_parent := (ts_parent db)\<lparr>db_oldest_addr := FDB_DATA_UNUSED\<rparr>,
                 ts_cur_sec := (ts_cur_sec db)\<lparr>tsec_addr := FDB_DATA_UNUSED\<rparr>\<rparr>;
     if \<not> max_len < tsdb_sec_size db then None
     else do {
       (sector, arg, db) \<leftarrow>
         ts_sector_iterator db ((junk_tsec (tsdb_stk db))\<lparr>tsec_addr := 0\<rparr>) FDB_SECTOR_STORE_UNUSED
           \<lparr>chk_failed = False, chk_empty_num = 0, chk_empty_addr = 0\<rparr> ts_check_sec_hdr_cb True;
       if chk_failed arg \<and> db_not_formatable (ts_parent db) then Some (FDB_READ_ERR, db)
       else do {
         db \<leftarrow> (if chk_failed arg then tsl_format_all db else Some (ts_find_oldest db arg));
         db \<leftarrow> ts_init_last_time db;
         Some (FDB_NO_ERR, tsdb_unlock db)
       }
     }
   }"

text \<open>\<open>has_get_time\<close> says that the callback \<open>get_time\<close> is not null.\<close>

definition fdb_tsdb_init ::
  "fdb_tsdb \<Rightarrow> bytes \<Rightarrow> bytes \<Rightarrow> bool \<Rightarrow> nat \<Rightarrow> nat \<Rightarrow> (fdb_err \<times> fdb_tsdb) option" where
  "fdb_tsdb_init db name path has_get_time max_len user_data =
     (if \<not> has_get_time then None
      else do {
        (result, p) \<leftarrow> fdb_init_ex (ts_parent db) name path FDB_DB_TYPE_TS user_data;
        let db = db\<lparr>ts_parent := p\<rparr>;
        (result, db) \<leftarrow> (if result \<noteq> FDB_NO_ERR then Some (result, db)
                         else tsdb_init_load db max_len);
        Some (result, db\<lparr>ts_parent := fdb_init_finish (ts_parent db) result\<rparr>)
      })"

definition fdb_tsdb_deinit :: "fdb_tsdb \<Rightarrow> fdb_err \<times> fdb_tsdb" where
  "fdb_tsdb_deinit db = (FDB_NO_ERR, db\<lparr>ts_parent := fdb_deinit (ts_parent db)\<rparr>)"

end
