(* ===== verification/Tsdb_Spec.thy ===== *)
theory Tsdb_Spec
  imports Tsdb_Api Fdb_Store
begin

text \<open>
  What a sector of the time series database holds, as a list of logs, and that the operations of
  \<open>fdb_tsdb.c\<close> implement that list: appending adds at its end, reading the sector header back
  recovers the positions that are kept in RAM, and the iterators visit its elements in order.
\<close>

subsection \<open>The flash of a time series database\<close>

definition ts_img :: "fdb_tsdb \<Rightarrow> bytes" where
  "ts_img db = db_img (ts_parent db)"

definition ts_put :: "bytes \<Rightarrow> fdb_tsdb \<Rightarrow> fdb_tsdb" where
  "ts_put m db = db\<lparr>ts_parent := db_put m (ts_parent db)\<rparr>"

definition ts_ok :: "fdb_tsdb \<Rightarrow> bool" where
  "ts_ok db \<longleftrightarrow> flash_ok (ts_parent db)"

interpretation tsl: lifted_store fdb_flash_read fdb_flash_write fdb_flash_erase db_img db_put flash_ok
  ts_parent "\<lambda>p db. db\<lparr>ts_parent := p\<rparr>"
  by unfold_locales simp_all

lemma ts_flash_defs:
  "ts_flash_read = (\<lambda>t. fdb_flash_read (ts_parent t))"
  "ts_flash_write = (\<lambda>t a bs sync. map_option (\<lambda>(e, s). (e, t\<lparr>ts_parent := s\<rparr>))
     (fdb_flash_write (ts_parent t) a bs sync))"
  "ts_flash_erase = (\<lambda>t a n. map_option (\<lambda>(e, s). (e, t\<lparr>ts_parent := s\<rparr>))
     (fdb_flash_erase (ts_parent t) a n))"
  "ts_img = (\<lambda>t. db_img (ts_parent t))"
  "ts_put = (\<lambda>m t. t\<lparr>ts_parent := db_put m (ts_parent t)\<rparr>)"
  "ts_ok = (\<lambda>t. flash_ok (ts_parent t))"
  by (intro ext; simp add: ts_flash_read_def ts_flash_write_def ts_flash_erase_def ts_img_def
      ts_put_def ts_ok_def bind_pair_map)+

interpretation tsf: flash_store ts_flash_read ts_flash_write ts_flash_erase ts_img ts_put ts_ok
  unfolding ts_flash_defs by (rule tsl.lifted.flash_store_axioms)

lemma ts_put_simps [simp]:
  "ts_cur_sec (ts_put m db) = ts_cur_sec db" "ts_last_time (ts_put m db) = ts_last_time db"
  "ts_max_len (ts_put m db) = ts_max_len db" "ts_rollover (ts_put m db) = ts_rollover db"
  by (simp_all add: ts_put_def)

lemma ts_put_fields:
  assumes "ts_ok db" "length m = length (ts_img db)"
  shows "tsdb_sec_size (ts_put m db) = tsdb_sec_size db" "tsdb_max_size (ts_put m db) = tsdb_max_size db"
    "tsdb_oldest_addr (ts_put m db) = tsdb_oldest_addr db" "tsdb_stk (ts_put m db) = tsdb_stk db"
    "db_init_ok (ts_parent (ts_put m db)) = db_init_ok (ts_parent db)"
    "db_lock_cnt (ts_parent (ts_put m db)) = db_lock_cnt (ts_parent db)"
    "db_lock_set (ts_parent (ts_put m db)) = db_lock_set (ts_parent db)"
    "db_unlock_set (ts_parent (ts_put m db)) = db_unlock_set (ts_parent db)"
  using assms by (simp_all add: ts_put_def ts_ok_def ts_img_def db_put_fields)

lemma ts_write_status_1:
  assumes "0 < k" "k < n" "n \<le> 8"
  shows "ts_write_status db a n k sync = ts_flash_write db (u32 a) [drop_bit k 0xFF] sync"
  using assms by (simp add: ts_write_status_def ts_flash_write_def write_status_1)


subsection \<open>The logs of a sector\<close>

text \<open>
  A log is its status, its time stamp and its data. \<open>log_at m i st t a n\<close> says that the index at
  address \<open>i\<close> has status \<open>st\<close>, time \<open>t\<close>, data address \<open>a\<close> and data length \<open>n\<close>.
\<close>

type_synonym ts_log = "fdb_tsl_status \<times> int \<times> bytes"

definition log_at :: "bytes \<Rightarrow> nat \<Rightarrow> fdb_tsl_status \<Rightarrow> int \<Rightarrow> nat \<Rightarrow> nat \<Rightarrow> bool" where
  "log_at m i st t a n \<longleftrightarrow>
     tsl_status_of (fdb_get_status FDB_WRITE_GRAN (slice i 1 m) FDB_TSL_STATUS_NUM) = st
   \<and> s32 (int (of_le32 (slice (i + 4) 4 m))) = t
   \<and> of_le32 (slice (i + 8) 4 m) = n \<and> of_le32 (slice (i + 12) 4 m) = a"

fun logs_end :: "nat \<Rightarrow> ts_log list \<Rightarrow> nat" where
  "logs_end d [] = d"
| "logs_end d ((st, t, bs) # ls) = logs_end (d - length bs) ls"

text \<open>The logs \<open>ls\<close> have their indexes from \<open>i\<close> upwards and their data from \<open>d\<close> downwards.\<close>

fun ts_holds :: "bytes \<Rightarrow> nat \<Rightarrow> nat \<Rightarrow> ts_log list \<Rightarrow> bool" where
  "ts_holds m i d [] = True"
| "ts_holds m i d ((st, t, bs) # ls) =
     (st \<noteq> FDB_TSL_UNUSED \<and> st \<noteq> FDB_TSL_PRE_WRITE \<and> length bs \<le> d
      \<and> log_at m i st t (d - length bs) (length bs) \<and> slice (d - length bs) (length bs) m = bs
      \<and> ts_holds m (i + 16) (d - length bs) ls)"

text \<open>
  The sector of \<open>Z\<close> bytes at \<open>S\<close> holds exactly the logs \<open>ls\<close>: between the last index and the
  data of the last log everything is erased.
\<close>

definition ts_sector :: "bytes \<Rightarrow> nat \<Rightarrow> nat \<Rightarrow> ts_log list \<Rightarrow> bool" where
  "ts_sector m S Z ls \<longleftrightarrow>
     S + Z \<le> length m \<and> S + 40 + 16 * length ls \<le> logs_end (S + Z) ls
   \<and> ts_holds m (S + 40) (S + Z) ls
   \<and> (\<forall>j. S + 40 + 16 * length ls \<le> j \<and> j < logs_end (S + Z) ls \<longrightarrow> m ! j = FDB_BYTE_ERASED)"

lemma logs_end_le: "logs_end d ls \<le> d"
  by (induction d ls rule: logs_end.induct) (auto intro: order_trans)

lemma logs_end_append: "logs_end d (ls @ ls') = logs_end (logs_end d ls) ls'"
  by (induction d ls rule: logs_end.induct) auto

lemma ts_holds_append:
  "ts_holds m i d (ls @ ls') \<longleftrightarrow>
     ts_holds m i d ls \<and> ts_holds m (i + 16 * length ls) (logs_end d ls) ls'"
  by (induction m i d ls rule: ts_holds.induct) (auto simp: algebra_simps)

lemma log_at_cong:
  assumes "\<And>j. i \<le> j \<Longrightarrow> j < i + 16 \<Longrightarrow> m ! j = m' ! j" "i + 16 \<le> length m" "i + 16 \<le> length m'"
  shows "log_at m i st t a n = log_at m' i st t a n"
proof -
  have "slice (i + k) n m = slice (i + k) n m'" if "k + n \<le> 16" for k n
    using assms that by (intro slice_eqI) auto
  from this [of 0 1] this [of 4 4] this [of 8 4] this [of 12 4] show ?thesis
    by (simp add: log_at_def)
qed

lemma ts_holds_cong:
  assumes "ts_holds m i d ls" "d \<le> length m" "i + 16 * length ls \<le> length m" "length m' = length m"
    and "\<And>j. i \<le> j \<and> j < i + 16 * length ls \<or> logs_end d ls \<le> j \<and> j < d \<Longrightarrow> m ! j = m' ! j"
  shows "ts_holds m' i d ls"
  using assms
proof (induction m i d ls rule: ts_holds.induct)
  case (2 m i d st t bs ls)
  have e: "logs_end (d - length bs) ls \<le> d - length bs" by (rule logs_end_le)
  have "log_at m' i st t (d - length bs) (length bs)"
    using 2 log_at_cong [of i m m'] by auto
  moreover have "slice (d - length bs) (length bs) m' = slice (d - length bs) (length bs) m"
  proof (rule slice_eqI)
    fix k assume "k < length bs"
    moreover have "length bs \<le> d" using "2.prems"(1) by simp
    ultimately have "logs_end (d - length bs) ls \<le> d - length bs + k" "d - length bs + k < d"
      using e by linarith+
    then show "m' ! (d - length bs + k) = m ! (d - length bs + k)"
      using "2.prems"(5) [of "d - length bs + k"] by simp
  qed (use 2 in auto)
  moreover have "ts_holds m' (i + 16) (d - length bs) ls"
  proof (rule "2.IH")
    fix j
    assume "i + 16 \<le> j \<and> j < i + 16 + 16 * length ls \<or> logs_end (d - length bs) ls \<le> j \<and> j < d - length bs"
    then show "m ! j = m' ! j"
      by (intro "2.prems"(5)) auto
  qed (use "2.prems" in auto)
  ultimately show ?case using 2 by simp
qed simp

text \<open>The log object the code makes from a log.\<close>

definition tsl_of :: "fdb_tsl \<Rightarrow> nat \<Rightarrow> fdb_tsl_status \<Rightarrow> int \<Rightarrow> nat \<Rightarrow> nat \<Rightarrow> fdb_tsl" where
  "tsl_of tsl i st t a n =
     tsl\<lparr>tsl_addr_index := i, tsl_status := st, tsl_log_len := n, tsl_addr_log := a, tsl_time := t\<rparr>"

lemma read_tsl_log:
  assumes "ts_ok db" "tsl_addr_index tsl = i" "i + 16 \<le> length (ts_img db)"
    and "log_at (ts_img db) i st t a n" "st \<noteq> FDB_TSL_UNUSED" "st \<noteq> FDB_TSL_PRE_WRITE"
  shows "read_tsl db tsl = Some (tsl_of tsl i st t a n)"
  using assms
  by (simp add: read_tsl_def tsf.rd_in LOG_IDX_DATA_SIZE_def log_at_def slice_slice [of 0 1 16 i, simplified]
      slice_slice tsl_of_def)

lemma read_tsl_unused:
  assumes "ts_ok db" "tsl_addr_index tsl + 16 \<le> length (ts_img db)"
    and "ts_img db ! tsl_addr_index tsl = FDB_BYTE_ERASED"
  shows "\<exists>tsl'. read_tsl db tsl = Some tsl' \<and> tsl_status tsl' = FDB_TSL_UNUSED"
proof -
  have "slice (tsl_addr_index tsl) 1 (ts_img db) = [drop_bit 0 0xFF]"
    using assms(2,3)
    by (simp add: slice_def take_Suc_conv_app_nth FDB_BYTE_ERASED_def hd_drop_conv_nth take_Suc hd_conv_nth)
  then have "tsl_status_of (fdb_get_status FDB_WRITE_GRAN (slice (tsl_addr_index tsl) 1 (ts_img db))
      FDB_TSL_STATUS_NUM) = FDB_TSL_UNUSED"
    using get_status_1 [of 0 FDB_TSL_STATUS_NUM] by (simp add: tsl_status_of_def fdb_const)
  then show ?thesis using assms
    by (simp add: read_tsl_def tsf.rd_in LOG_IDX_DATA_SIZE_def slice_slice [of 0 1 16, simplified])
qed


subsection \<open>Writing a log\<close>

lemma ok_then_Some [simp]:
  "ok_then (Some (FDB_NO_ERR, s)) k = k s" "e \<noteq> FDB_NO_ERR \<Longrightarrow> ok_then (Some (e, s)) k = Some (e, s)"
  by (simp_all add: ok_then_def)

definition tsl_written :: "bytes \<Rightarrow> nat \<Rightarrow> nat \<Rightarrow> int \<Rightarrow> bytes \<Rightarrow> bytes" where
  "tsl_written m i a t data =
     splice (splice (splice (splice m i [drop_bit (tsl_status_num FDB_TSL_PRE_WRITE) 0xFF])
       (i + 4) (log_idx_image t (length data) a)) a data) i [drop_bit (tsl_status_num FDB_TSL_WRITE) 0xFF]"

lemma length_log_idx_image [simp]: "length (log_idx_image t n a) = 12"
  by (simp add: log_idx_image_def)

lemma length_tsl_written [simp]:
  "i + 16 \<le> length m \<Longrightarrow> a + length data \<le> length m \<Longrightarrow> length (tsl_written m i a t data) = length m"
  by (simp add: tsl_written_def)

lemma tsl_written_outside:
  assumes "i + 16 \<le> a" "a + length data \<le> length m" "j < length m"
    and "j < i \<or> i + 16 \<le> j" "j < a \<or> a + length data \<le> j"
  shows "tsl_written m i a t data ! j = m ! j"
  using assms by (auto simp: tsl_written_def nth_splice)

lemma tsl_written_log:
  assumes "i + 16 \<le> a" "a + length data \<le> length m" "length m < 2147483648"
    and "- 2147483648 \<le> t" "t < 2147483648"
  shows "log_at (tsl_written m i a t data) i FDB_TSL_WRITE t a (length data)"
    and "slice a (length data) (tsl_written m i a t data) = data"
proof -
  let ?w = "tsl_written m i a t data"
  have st: "slice i 1 ?w = [drop_bit (tsl_status_num FDB_TSL_WRITE) 0xFF]"
    using assms by (simp add: tsl_written_def slice_splice_same)
  have f: "slice (i + k) 4 ?w = slice (k - 4) 4 (log_idx_image t (length data) a)"
    if "k = 4 \<or> k = 8 \<or> k = 12" for k
    using assms that
    by (auto simp: tsl_written_def slice_splice_disj slice_splice_inside)
  have g: "tsl_status_of (fdb_get_status FDB_WRITE_GRAN [drop_bit (tsl_status_num FDB_TSL_WRITE) 0xFF]
      FDB_TSL_STATUS_NUM) = FDB_TSL_WRITE"
    by (subst get_status_1) (simp_all add: FDB_TSL_STATUS_NUM_def tsl_status_of_def)
  show "log_at ?w i FDB_TSL_WRITE t a (length data)"
    using f [of 4] f [of 8] f [of 12] assms unfolding log_at_def st g
    by (simp add: log_idx_image_def slice_def of_le32_le32 u32_id s32_u32_of_int s32_id)
  show "slice a (length data) ?w = data"
    using assms by (simp add: tsl_written_def slice_splice_disj slice_splice_same)
qed

lemma write_tsl_ok:
  assumes "ts_ok db" "tsec_empty_idx (ts_cur_sec db) = i" "tsec_empty_data (ts_cur_sec db) = d"
    and "i + 16 + length data \<le> d" "d \<le> length (ts_img db)"
  shows "write_tsl db data t
         = Some (FDB_NO_ERR, ts_put (tsl_written (ts_img db) i (d - length data) t data) db)"
proof -
  note b = tsf.img_bound [OF assms(1)]
  have u: "u32 (length data) = length data" "u32 i = i" "u32 (i + 4) = i + 4"
    using assms b by (auto intro!: u32_id)
  have a: "u32_sub d (length data) = d - length data" using assms b by (intro u32_sub_id) auto
  have n: "0 < tsl_status_num FDB_TSL_PRE_WRITE" "0 < tsl_status_num FDB_TSL_WRITE" by simp_all
  have l: "length (splice (ts_img db) i [x]) = length (ts_img db)" for x
    using assms by simp
  show ?thesis
    using assms
    by (simp add: write_tsl_def Let_def assms(2,3) u a ts_write_status_1 [OF n(1)] ts_write_status_1 [OF n(2)]
        tsf.wr_in tsf.ok_put tsf.img_put tsf.put_put LOG_IDX_TS_OFFSET_def tsl_written_def
        del: tsl_status_num.simps)
qed

text \<open>Writing a log adds it to the logs of the sector.\<close>

lemma tsl_written_sector:
  assumes s: "ts_sector m S Z ls" and i: "i = S + 40 + 16 * length ls" and d: "d = logs_end (S + Z) ls"
    and room: "i + 16 + length data \<le> d" and len: "length m < 2147483648"
    and t: "- 2147483648 \<le> t" "t < 2147483648"
  shows "ts_sector (tsl_written m i (d - length data) t data) S Z (ls @ [(FDB_TSL_WRITE, t, data)])"
proof -
  let ?a = "d - length data" let ?w = "tsl_written m i ?a t data"
  have dl: "d \<le> length m" using s logs_end_le [of "S + Z" ls] d by (simp add: ts_sector_def)
  have lw: "length ?w = length m" using room dl by simp
  have out: "?w ! j = m ! j" if "j < length m" "j < i \<or> i + 16 \<le> j" "j < ?a \<or> d \<le> j" for j
    using that room dl by (intro tsl_written_outside) auto
  have h: "ts_holds ?w (S + 40) (S + Z) ls"
  proof (rule ts_holds_cong)
    show "ts_holds m (S + 40) (S + Z) ls" using s by (simp add: ts_sector_def)
    fix j
    assume "S + 40 \<le> j \<and> j < S + 40 + 16 * length ls \<or> logs_end (S + Z) ls \<le> j \<and> j < S + Z"
    then show "m ! j = ?w ! j" using s room i d dl
      by (intro out [symmetric]) (auto simp: ts_sector_def)
  qed (use s dl lw room i in \<open>auto simp: ts_sector_def\<close>)
  have "log_at ?w i FDB_TSL_WRITE t ?a (length data)" "slice ?a (length data) ?w = data"
    using tsl_written_log [of i ?a data m t] room dl len t by auto
  moreover have "?w ! j = FDB_BYTE_ERASED" if "i + 16 \<le> j" "j < ?a" for j
    using that s i d dl out [of j] by (simp add: ts_sector_def)
  ultimately show ?thesis
    using s h i d room lw by (simp add: ts_sector_def ts_holds_append logs_end_append)
qed


subsection \<open>The current sector\<close>

text \<open>The header of the sector at \<open>S\<close>: its status, its magic word, and no end information.\<close>

definition ts_hdr :: "bytes \<Rightarrow> nat \<Rightarrow> fdb_sector_store_status \<Rightarrow> bool" where
  "ts_hdr m S st \<longleftrightarrow>
     slice S 1 m = [drop_bit (store_num st) 0xFF] \<and> of_le32 (slice (S + 4) 4 m) = TS_SECTOR_MAGIC_WORD
   \<and> slice (S + 20) 1 m = [0xFF] \<and> slice (S + 32) 1 m = [0xFF]"

text \<open>
  The database keeps the logs \<open>ls\<close> in its current sector: the flash holds them, and the
  positions in \<open>cur_sec\<close> agree with them.
\<close>

definition ts_rep :: "fdb_tsdb \<Rightarrow> ts_log list \<Rightarrow> bool" where
  "ts_rep db ls \<longleftrightarrow>
     (let c = ts_cur_sec db; S = tsec_addr c; Z = tsdb_sec_size db; m = ts_img db in
      ts_ok db \<and> ts_sector m S Z ls \<and> ts_hdr m S (tsec_status c) \<and> tsec_end_stat0 c = FDB_TSL_UNUSED
    \<and> (tsec_status c = FDB_SECTOR_STORE_USING \<or> tsec_status c = FDB_SECTOR_STORE_EMPTY \<and> ls = [])
    \<and> tsec_empty_idx c = S + 40 + 16 * length ls \<and> tsec_empty_data c = logs_end (S + Z) ls
    \<and> tsec_remain c = tsec_empty_data c - tsec_empty_idx c
    \<and> (ls \<noteq> [] \<longrightarrow> tsec_end_idx c = S + 40 + 16 * (length ls - 1)
          \<and> tsec_end_time c = fst (snd (last ls)) \<and> ts_last_time db = fst (snd (last ls))))"

lemma tsdb_lock_simps [simp]:
  "ts_cur_sec (tsdb_lock db) = ts_cur_sec db" "ts_cur_sec (tsdb_unlock db) = ts_cur_sec db"
  "ts_last_time (tsdb_lock db) = ts_last_time db" "ts_last_time (tsdb_unlock db) = ts_last_time db"
  "ts_max_len (tsdb_lock db) = ts_max_len db" "ts_max_len (tsdb_unlock db) = ts_max_len db"
  "ts_img (tsdb_lock db) = ts_img db" "ts_img (tsdb_unlock db) = ts_img db"
  "ts_ok (tsdb_lock db) = ts_ok db" "ts_ok (tsdb_unlock db) = ts_ok db"
  "ts_parent (tsdb_lock db) = db_lock (ts_parent db)"
  "ts_parent (tsdb_unlock db) = db_unlock (ts_parent db)"
  by (simp_all add: tsdb_lock_def tsdb_unlock_def ts_img_def ts_ok_def)

lemma ts_rep_lock [simp]:
  "ts_rep (tsdb_lock db) ls = ts_rep db ls" "ts_rep (tsdb_unlock db) ls = ts_rep db ls"
  by (simp_all add: ts_rep_def)

text \<open>Opening an empty sector changes only its header.\<close>

lemma ts_sector_outside:
  assumes "ts_sector m S Z ls" "length m' = length m" "\<And>j. S + 40 \<le> j \<Longrightarrow> j < S + Z \<Longrightarrow> m' ! j = m ! j"
  shows "ts_sector m' S Z ls"
proof -
  have e: "logs_end (S + Z) ls \<le> S + Z" by (rule logs_end_le)
  have "ts_holds m' (S + 40) (S + Z) ls"
  proof (rule ts_holds_cong)
    show "ts_holds m (S + 40) (S + Z) ls" using assms(1) by (simp add: ts_sector_def)
    fix j
    assume "S + 40 \<le> j \<and> j < S + 40 + 16 * length ls \<or> logs_end (S + Z) ls \<le> j \<and> j < S + Z"
    moreover have "S + 40 + 16 * length ls \<le> logs_end (S + Z) ls" using assms(1) by (simp add: ts_sector_def)
    ultimately have "S + 40 \<le> j" "j < S + Z" using e by linarith+
    then show "m ! j = m' ! j" by (simp add: assms(3))
  qed (use assms(1,2) e in \<open>auto simp: ts_sector_def\<close>)
  moreover have "m' ! j = FDB_BYTE_ERASED"
    if "S + 40 + 16 * length ls \<le> j" "j < logs_end (S + Z) ls" for j
    using assms(1) assms(3) [of j] that e by (simp add: ts_sector_def)
  ultimately show ?thesis using assms(1,2) by (simp add: ts_sector_def)
qed

text \<open>What the writing operations leave alone outside the flash and \<open>cur_sec\<close>.\<close>

definition ts_same :: "fdb_tsdb \<Rightarrow> fdb_tsdb \<Rightarrow> bool" where
  "ts_same db db' \<longleftrightarrow>
     ts_last_time db' = ts_last_time db \<and> ts_max_len db' = ts_max_len db
   \<and> ts_rollover db' = ts_rollover db \<and> tsdb_sec_size db' = tsdb_sec_size db
   \<and> tsdb_max_size db' = tsdb_max_size db \<and> tsdb_stk db' = tsdb_stk db
   \<and> db_init_ok (ts_parent db') = db_init_ok (ts_parent db)
   \<and> db_lock_cnt (ts_parent db') = db_lock_cnt (ts_parent db)
   \<and> db_lock_set (ts_parent db') = db_lock_set (ts_parent db)
   \<and> db_unlock_set (ts_parent db') = db_unlock_set (ts_parent db)
   \<and> length (ts_img db') = length (ts_img db)"

lemma ts_same_refl [simp]: "ts_same db db"
  by (simp add: ts_same_def)

lemma ts_same_trans: "ts_same a b \<Longrightarrow> ts_same b c \<Longrightarrow> ts_same a c"
  by (simp add: ts_same_def)

lemma ts_same_put [simp]: "ts_ok db \<Longrightarrow> length m = length (ts_img db) \<Longrightarrow> ts_same db (ts_put m db)"
  by (simp add: ts_same_def ts_put_fields tsf.img_put)

lemma ts_same_cur [simp]: "ts_same db (db\<lparr>ts_cur_sec := c\<rparr>)"
  by (simp add: ts_same_def ts_img_def)

text \<open>Only the current sector's flash changes, and it stays the current one.\<close>

definition ts_only :: "fdb_tsdb \<Rightarrow> fdb_tsdb \<Rightarrow> bool" where
  "ts_only db db' \<longleftrightarrow>
     tsec_addr (ts_cur_sec db') = tsec_addr (ts_cur_sec db)
   \<and> (\<forall>j<length (ts_img db). j < tsec_addr (ts_cur_sec db)
        \<or> tsec_addr (ts_cur_sec db) + tsdb_sec_size db \<le> j \<longrightarrow> ts_img db' ! j = ts_img db ! j)
   \<and> tsdb_oldest_addr db' = tsdb_oldest_addr db"

lemma ts_only_refl [simp]: "ts_only db db"
  by (simp add: ts_only_def)

lemma ts_only_trans: "ts_only a b \<Longrightarrow> ts_same a b \<Longrightarrow> ts_only b c \<Longrightarrow> ts_only a c"
  by (simp add: ts_only_def ts_same_def)

lemma ts_img_cur [simp]: "ts_img (db\<lparr>ts_cur_sec := c\<rparr>) = ts_img db" "ts_ok (db\<lparr>ts_cur_sec := c\<rparr>) = ts_ok db"
  by (simp_all add: ts_img_def ts_ok_def)

lemma ts_open_sector_rep:
  assumes rep: "ts_rep db ls"
  shows "\<exists>db'. ts_open_sector db t = Some (FDB_NO_ERR, db') \<and> ts_rep db' ls \<and> ts_same db db'
    \<and> ts_only db db' \<and> tsec_status (ts_cur_sec db') = FDB_SECTOR_STORE_USING
    \<and> tsec_remain (ts_cur_sec db') = tsec_remain (ts_cur_sec db)"
proof (cases "tsec_status (ts_cur_sec db) = FDB_SECTOR_STORE_EMPTY")
  case False
  then show ?thesis using rep by (auto simp: ts_open_sector_def ts_rep_def Let_def)
next
  case True
  let ?S = "tsec_addr (ts_cur_sec db)" let ?m = "ts_img db"
  let ?c = "(ts_cur_sec db)\<lparr>tsec_status := FDB_SECTOR_STORE_USING, tsec_start_time := t\<rparr>"
  let ?m' = "splice (splice ?m ?S [drop_bit (store_num FDB_SECTOR_STORE_USING) 0xFF])
    (?S + 8) (le32 (u32_of_int t))"
  have ok: "ts_ok db" and ls: "ls = []" and sec: "ts_sector ?m ?S (tsdb_sec_size db) []"
    and hdr: "ts_hdr ?m ?S FDB_SECTOR_STORE_EMPTY"
    using rep True by (auto simp: ts_rep_def Let_def)
  note b = tsf.img_bound [OF ok]
  have room: "?S + 40 \<le> length ?m" using sec by (simp add: ts_sector_def)
  have u: "u32 ?S = ?S" "u32 (?S + 8) = ?S + 8" using room b by (auto intro: u32_id)
  have n: "0 < store_num FDB_SECTOR_STORE_USING" by simp
  have l: "length ?m' = length ?m" using room by simp
  have w: "ts_open_sector db t = Some (FDB_NO_ERR, ts_put ?m' (db\<lparr>ts_cur_sec := ?c\<rparr>))"
    using True ok room
    by (simp add: ts_open_sector_def Let_def ts_write_status_1 [OF n] u tsf.wr_in tsf.ok_put tsf.img_put
        tsf.put_put SECTOR_START_TIME_OFFSET_def del: store_num.simps)
  have "ts_hdr ?m' ?S FDB_SECTOR_STORE_USING"
    using hdr room by (simp add: ts_hdr_def slice_splice_same slice_splice_disj del: store_num.simps)
  moreover have "ts_sector ?m' ?S (tsdb_sec_size db) []"
    using room sec
    by (intro ts_sector_outside [OF sec]) (auto simp: nth_splice ts_sector_def)
  ultimately have "ts_rep (ts_put ?m' (db\<lparr>ts_cur_sec := ?c\<rparr>)) ls"
    using rep ls ok l
    by (simp add: ts_rep_def Let_def tsf.ok_put tsf.img_put ts_put_fields)
  moreover have "ts_only db (ts_put ?m' (db\<lparr>ts_cur_sec := ?c\<rparr>))"
    using ok l sec room
    by (auto simp: ts_only_def tsf.img_put ts_put_fields nth_splice ts_sector_def)
  ultimately show ?thesis using w ok l
    by (auto intro!: ts_same_trans [OF ts_same_cur ts_same_put])
qed

text \<open>Appending to the current sector while there is room.\<close>

lemma tsl_append_after:
  assumes up: "ts_update_sec_status db (blob_size blob) t = Some (FDB_NO_ERR, db1)"
    and rep1: "ts_rep db1 ls" and st1: "tsec_status (ts_cur_sec db1) = FDB_SECTOR_STORE_USING"
    and buf: "blob_buf blob = Some buf" "blob_size blob \<le> length buf"
    and room: "16 + blob_size blob \<le> tsec_remain (ts_cur_sec db1)"
    and max: "blob_size blob \<le> ts_max_len db"
    and t: "ts_last_time db < t" "- 2147483648 \<le> t" "t < 2147483648"
    and stamp: "(case stamp of None \<Rightarrow> now | Some u \<Rightarrow> u) = t"
  shows "\<exists>db'. tsl_append db blob stamp now = Some (FDB_NO_ERR, db')
    \<and> ts_rep db' (ls @ [(FDB_TSL_WRITE, t, take (blob_size blob) buf)])
    \<and> ts_same db1 (db'\<lparr>ts_last_time := ts_last_time db1\<rparr>) \<and> ts_last_time db' = t \<and> ts_only db1 db'"
proof -
  let ?n = "blob_size blob" let ?data = "take ?n buf"
  define c where "c = ts_cur_sec db1"
  define S where "S = tsec_addr c"
  define i where "i = tsec_empty_idx c"
  define d where "d = tsec_empty_data c"
  have r1: "ts_ok db1" "ts_sector (ts_img db1) S (tsdb_sec_size db1) ls"
    "ts_hdr (ts_img db1) S FDB_SECTOR_STORE_USING"
    "i = S + 40 + 16 * length ls" "d = logs_end (S + tsdb_sec_size db1) ls" "tsec_remain c = d - i"
    "tsec_end_stat0 c = FDB_TSL_UNUSED"
    using rep1 st1 by (auto simp: ts_rep_def Let_def c_def S_def i_def d_def)
  note b = tsf.img_bound [OF r1(1)]
  have dl: "d \<le> length (ts_img db1)" "d \<le> S + tsdb_sec_size db1"
    using r1(2,5) logs_end_le [of "S + tsdb_sec_size db1" ls] by (auto simp: ts_sector_def)
  have rm: "i + 16 + ?n \<le> d" "16 + ?n \<le> d - i" using room r1(6) c_def by auto
  have nl: "length ?data = ?n" using buf(2) by simp
  let ?w = "tsl_written (ts_img db1) i (d - ?n) t ?data"
  have u: "u32 ?n = ?n" "u32 (16 + ?n) = 16 + ?n" "u32 (i + 16) = i + 16"
    using rm dl b by (auto intro: u32_id)
  have us: "u32_sub d ?n = d - ?n" "u32_sub (d - i) (16 + ?n) = d - i - (16 + ?n)"
    using rm dl b u32_sub_id [of ?n d] u32_sub_id [of "16 + ?n" "d - i"] by linarith+
  have w: "write_tsl db1 ?data t = Some (FDB_NO_ERR, ts_put ?w db1)"
    using write_tsl_ok [OF r1(1), of i d ?data t] rm dl nl by (simp add: c_def i_def d_def)
  have lw: "length ?w = length (ts_img db1)" using rm dl nl by simp
  let ?c = "c\<lparr>tsec_end_idx := i, tsec_end_time := t, tsec_empty_idx := i + 16,
    tsec_empty_data := d - ?n, tsec_remain := d - i - (16 + ?n)\<rparr>"
  let ?db = "(ts_put ?w db1)\<lparr>ts_cur_sec := ?c, ts_last_time := t\<rparr>"
  have a: "tsl_append db blob stamp now = Some (FDB_NO_ERR, ?db)"
    using t(1) max buf up w r1(6)
    by (simp add: tsl_append_def Let_def u us LOG_IDX_DATA_SIZE_def c_def [symmetric] i_def [symmetric]
        d_def [symmetric] stamp)
  have sec: "ts_sector ?w S (tsdb_sec_size db1) (ls @ [(FDB_TSL_WRITE, t, ?data)])"
    using tsl_written_sector [OF r1(2,4,5), of ?data t] rm b t(2,3) nl by simp
  have "ts_hdr ?w S FDB_SECTOR_STORE_USING"
  proof -
    have "slice (S + k) n ?w = slice (S + k) n (ts_img db1)" if "k + n \<le> 40" for k n
      using that lw rm dl nl r1(4) by (intro slice_eqI tsl_written_outside) auto
    from this [of 0 1] this [of 4 4] this [of 20 1] this [of 32 1] show ?thesis
      using r1(3) by (simp add: ts_hdr_def)
  qed
  then have "ts_rep ?db (ls @ [(FDB_TSL_WRITE, t, ?data)])"
    using sec r1 st1 lw nl rm tsf.ok_put [OF r1(1) lw] tsf.img_put [OF r1(1) lw] ts_put_fields(1) [OF r1(1) lw]
    by (auto simp: ts_rep_def Let_def c_def [symmetric] S_def logs_end_append ts_img_def ts_ok_def)
  moreover have "ts_same db1 (?db\<lparr>ts_last_time := ts_last_time db1\<rparr>)"
    using ts_same_put [OF r1(1) lw] by (auto simp: ts_same_def ts_img_def)
  moreover have "ts_only db1 ?db"
  proof -
    have i: "ts_img ?db = ?w" using tsf.img_put [OF r1(1) lw] by (simp add: ts_img_def)
    have "?w ! j = ts_img db1 ! j" if "j < length (ts_img db1)" "j < S \<or> S + tsdb_sec_size db1 \<le> j" for j
      using that rm dl nl r1(4) by (intro tsl_written_outside) auto
    then show ?thesis using i ts_put_fields(3) [OF r1(1) lw]
      by (simp add: ts_only_def c_def [symmetric] S_def [symmetric])
  qed
  ultimately show ?thesis using a by auto
qed

lemma tsl_append_rep:
  assumes rep: "ts_rep db ls" and buf: "blob_buf blob = Some buf" "blob_size blob \<le> length buf"
    and room: "16 + blob_size blob \<le> tsec_remain (ts_cur_sec db)"
    and max: "blob_size blob \<le> ts_max_len db"
    and t: "ts_last_time db < t" "- 2147483648 \<le> t" "t < 2147483648"
    and stamp: "(case stamp of None \<Rightarrow> now | Some u \<Rightarrow> u) = t"
  shows "\<exists>db'. tsl_append db blob stamp now = Some (FDB_NO_ERR, db')
    \<and> ts_rep db' (ls @ [(FDB_TSL_WRITE, t, take (blob_size blob) buf)])
    \<and> ts_same db (db'\<lparr>ts_last_time := ts_last_time db\<rparr>) \<and> ts_last_time db' = t \<and> ts_only db db'"
proof -
  from ts_open_sector_rep [OF rep] obtain db1 where o: "ts_open_sector db t = Some (FDB_NO_ERR, db1)"
    and rep1: "ts_rep db1 ls" and same1: "ts_same db db1" and only1: "ts_only db db1"
    and st1: "tsec_status (ts_cur_sec db1) = FDB_SECTOR_STORE_USING"
    and rm1: "tsec_remain (ts_cur_sec db1) = tsec_remain (ts_cur_sec db)" by blast
  have "ts_ok db" "tsec_addr (ts_cur_sec db) + tsdb_sec_size db \<le> length (ts_img db)"
    "tsec_remain (ts_cur_sec db) \<le> logs_end (tsec_addr (ts_cur_sec db) + tsdb_sec_size db) ls"
    using rep by (auto simp: ts_rep_def Let_def ts_sector_def)
  then have "tsec_remain (ts_cur_sec db) < 2147483648"
    using tsf.img_bound [of db] logs_end_le [of "tsec_addr (ts_cur_sec db) + tsdb_sec_size db" ls]
    by linarith
  then have u: "u32 (blob_size blob) = blob_size blob" "u32 (16 + blob_size blob) = 16 + blob_size blob"
    using room by (auto intro!: u32_id)
  have up: "ts_update_sec_status db (blob_size blob) t = Some (FDB_NO_ERR, db1)"
    using rep room o u by (auto simp: ts_update_sec_status_def Let_def ts_rep_def LOG_IDX_DATA_SIZE_def)
  have room1: "16 + blob_size blob \<le> tsec_remain (ts_cur_sec db1)" using room rm1 by simp
  from tsl_append_after [OF up rep1 st1 buf room1 max t stamp] obtain db' where
    a: "tsl_append db blob stamp now = Some (FDB_NO_ERR, db')"
      "ts_rep db' (ls @ [(FDB_TSL_WRITE, t, take (blob_size blob) buf)])"
      "ts_same db1 (db'\<lparr>ts_last_time := ts_last_time db1\<rparr>)" "ts_last_time db' = t" "ts_only db1 db'"
    by blast
  have "ts_same db (db'\<lparr>ts_last_time := ts_last_time db\<rparr>)"
    using same1 a(3) by (auto simp: ts_same_def ts_img_def)
  then show ?thesis using a ts_only_trans [OF only1 same1 a(5)] by blast
qed

end
