(* ===== verification/Tsdb_Walk.thy ===== *)
theory Tsdb_Walk
  imports Tsdb_Spec Fdb_Ring
begin

text \<open>
  Reading a sector back and walking over it: the traversal at initialisation recovers the
  positions that appending keeps in RAM, the iterators visit the logs of a sector in order, and
  the sector walks of the time series database visit every sector once.
\<close>

subsection \<open>The walks over the sectors\<close>

definition ts_geom :: "fdb_tsdb \<Rightarrow> bool" where
  "ts_geom db \<longleftrightarrow> 0 < tsdb_sec_size db \<and> tsdb_sec_size db dvd tsdb_max_size db
     \<and> tsdb_max_size db < 2147483648"

definition ts_count :: "fdb_tsdb \<Rightarrow> nat" where
  "ts_count db = tsdb_max_size db div tsdb_sec_size db"

definition ts_nxt :: "fdb_tsdb \<Rightarrow> nat \<Rightarrow> nat \<Rightarrow> nat" where
  "ts_nxt db addr = ts_get_next_sector_addr db ((junk_tsec 0)\<lparr>tsec_addr := addr\<rparr>)"

definition ts_prv :: "fdb_tsdb \<Rightarrow> nat \<Rightarrow> nat \<Rightarrow> nat" where
  "ts_prv db addr = ts_get_last_sector_addr db ((junk_tsec 0)\<lparr>tsec_addr := addr\<rparr>)"

lemma geom_facts:
  assumes "0 < Z" "Z dvd M" "M < 2147483648" "k < M div Z" "j \<le> M div Z"
  shows "k * Z + Z \<le> M" "j * Z \<le> M" "u32 (k * Z + Z) = k * Z + Z" "u32 (j * Z + Z) = j * Z + Z"
    "j < M div Z \<longleftrightarrow> j * Z + Z \<le> M" "k * Z + Z < M \<longleftrightarrow> Suc k < M div Z" "Z \<le> M"
    "(M div Z - 1) * Z = M - Z"
proof -
  obtain n where M: "M = Z * n" using assms(2) by blast
  then have n: "M div Z = n" using assms(1) by simp
  have k: "Suc k * Z \<le> n * Z" using assms(4) n by (intro mult_le_mono1) simp
  have j: "j * Z \<le> n * Z" using assms(5) n by (intro mult_le_mono1) simp
  have z: "1 * Z \<le> n * Z" using assms(4) n by (intro mult_le_mono1) simp
  show "k * Z + Z \<le> M" "j * Z \<le> M" "Z \<le> M" using k j z M by (simp_all add: mult.commute)
  then show "u32 (k * Z + Z) = k * Z + Z" "u32 (j * Z + Z) = j * Z + Z"
    using assms(3) by (auto intro!: u32_id)
  have "Suc j * Z \<le> n * Z \<longleftrightarrow> Suc j \<le> n" "Suc (Suc k) * Z \<le> n * Z \<longleftrightarrow> Suc (Suc k) \<le> n"
    "Suc k * Z < n * Z \<longleftrightarrow> Suc k < n"
    using assms(1) by (simp_all only: mult_le_cancel2 mult_less_cancel2) auto
  then show "j < M div Z \<longleftrightarrow> j * Z + Z \<le> M" "k * Z + Z < M \<longleftrightarrow> Suc k < M div Z"
    using n M by (auto simp: mult.commute)
  show "(M div Z - 1) * Z = M - Z" 
    unfolding n M by (simp add: diff_mult_distrib mult.commute [of Z n])
qed

lemma ts_nxt_sec: "tsec_addr x = a \<Longrightarrow> ts_get_next_sector_addr db x tr = ts_nxt db a tr"
  by (simp add: ts_nxt_def ts_get_next_sector_addr_def)

lemma ts_nxt_step:
  assumes "ts_geom db" "k < ts_count db" "j \<le> ts_count db"
  shows "ts_nxt db (k * tsdb_sec_size db) (j * tsdb_sec_size db)
         = (if j < ts_count db then ring_up (ts_count db) k * tsdb_sec_size db else FDB_FAILED_ADDR)"
  using assms geom_facts [of "tsdb_sec_size db" "tsdb_max_size db" k j]
  by (auto simp: ts_nxt_def ts_get_next_sector_addr_def ring_up_def ts_geom_def ts_count_def
      TS_FAILED_ADDR_def FDB_FAILED_ADDR_def add.commute)

lemma ts_prv_step:
  assumes "ts_geom db" "k < ts_count db" "j \<le> ts_count db"
  shows "ts_prv db (k * tsdb_sec_size db) (j * tsdb_sec_size db)
         = (if j < ts_count db then ring_down (ts_count db) k * tsdb_sec_size db else FDB_FAILED_ADDR)"
proof -
  note f = geom_facts [of "tsdb_sec_size db" "tsdb_max_size db" k j]
  have g: "0 < tsdb_sec_size db" "tsdb_max_size db < 2147483648" "k * tsdb_sec_size db < 4294967296"
    "u32 (j * tsdb_sec_size db + tsdb_sec_size db) = j * tsdb_sec_size db + tsdb_sec_size db"
    "j < ts_count db \<longleftrightarrow> j * tsdb_sec_size db + tsdb_sec_size db \<le> tsdb_max_size db"
    "(ts_count db - 1) * tsdb_sec_size db = tsdb_max_size db - tsdb_sec_size db"
    "tsdb_sec_size db \<le> tsdb_max_size db"
    using assms f by (auto simp: ts_geom_def ts_count_def)
  have "u32_sub (k * tsdb_sec_size db) (tsdb_sec_size db) = (k - 1) * tsdb_sec_size db" if "0 < k"
    using that g(3) by (subst u32_sub_id) (auto simp: diff_mult_distrib)
  moreover have "u32_sub (tsdb_max_size db) (tsdb_sec_size db) = (ts_count db - 1) * tsdb_sec_size db"
    using g by (subst u32_sub_id) auto
  ultimately show ?thesis using g
    by (auto simp: ts_prv_def ts_get_last_sector_addr_def ring_down_def TS_FAILED_ADDR_def
        FDB_FAILED_ADDR_def add.commute)
qed

interpretation ts_up: sector_ring ts_nxt "\<lambda>db. tsdb_sec_size db" ts_count ts_geom ring_up
  by unfold_locales (auto simp: ts_nxt_step ring_up_props ts_geom_def)

interpretation ts_down: sector_ring ts_prv "\<lambda>db. tsdb_sec_size db" ts_count ts_geom ring_down
  by unfold_locales (auto simp: ts_prv_step ring_down_props ts_geom_def)

subsection \<open>Recovering the positions of a sector\<close>

definition ts_recovered :: "tsdb_sec_info \<Rightarrow> nat \<Rightarrow> nat \<Rightarrow> ts_log list \<Rightarrow> tsdb_sec_info" where
  "ts_recovered sec i d ls =
     (if ls = [] then sec
      else sec\<lparr>tsec_end_time := fst (snd (last ls)), tsec_end_idx := i + 16 * (length ls - 1)\<rparr>)
     \<lparr>tsec_empty_idx := i + 16 * length ls, tsec_empty_data := logs_end d ls,
      tsec_remain := logs_end d ls - (i + 16 * length ls)\<rparr>"

lemma ts_traverse_logs:
  assumes ok: "ts_ok db" and "tsl_addr_index tsl = i" "tsec_empty_idx sec = i" "tsec_empty_data sec = d"
    and "tsec_remain sec = d - i" "i < d" "d \<le> length (ts_img db)" "ts_holds (ts_img db) i d ls"
    and "i + 16 * length ls \<le> logs_end d ls" "i + 16 * length ls + 16 \<le> length (ts_img db)"
    and "\<And>j. i + 16 * length ls \<le> j \<Longrightarrow> j < logs_end d ls \<Longrightarrow> ts_img db ! j = FDB_BYTE_ERASED"
  shows "ts_traverse db sec tsl
    = Some (if i + 16 * length ls < logs_end d ls then FDB_NO_ERR else FDB_READ_ERR,
            ts_recovered sec i d ls)"
  using assms(2-)
proof (induction ls arbitrary: sec tsl i d)
  case Nil
  then have "ts_img db ! tsl_addr_index tsl = FDB_BYTE_ERASED" "tsl_addr_index tsl + 16 \<le> length (ts_img db)"
    by auto
  from read_tsl_unused [OF ok this(2,1)] obtain tsl' where
    r: "read_tsl db tsl = Some tsl'" "tsl_status tsl' = FDB_TSL_UNUSED" by blast
  then show ?case using Nil
    by (subst ts_traverse.simps) (simp add: ts_recovered_def)
next
  case (Cons l ls)
  obtain st t bs where l: "l = (st, t, bs)" by (cases l)
  note b = tsf.img_bound [OF ok]
  let ?n = "length bs"
  have h: "st \<noteq> FDB_TSL_UNUSED" "st \<noteq> FDB_TSL_PRE_WRITE" "?n \<le> d"
    "log_at (ts_img db) i st t (d - ?n) ?n" "ts_holds (ts_img db) (i + 16) (d - ?n) ls"
    using Cons.prems(7) l by auto
  have e: "logs_end (d - ?n) ls \<le> d - ?n" by (rule logs_end_le)
  have room: "i + 16 + 16 * length ls \<le> logs_end (d - ?n) ls" using Cons.prems(8) l by simp
  have r: "read_tsl db tsl = Some (tsl_of tsl i st t (d - ?n) ?n)"
    using Cons.prems(1,9) h by (intro read_tsl_log [OF ok]) auto
  have u: "u32 ?n = ?n" "u32 (16 + ?n) = 16 + ?n" "u32 (i + 16) = i + 16" "u32_sub d ?n = d - ?n"
    "u32_sub (d - i) (16 + ?n) = d - ?n - (i + 16)"
    using Cons.prems(6) b room e h(3) u32_sub_id [of "16 + ?n" "d - i"]
    by (auto intro!: u32_id u32_sub_id)
  let ?sec = "sec\<lparr>tsec_end_time := t, tsec_end_idx := i, tsec_empty_idx := i + 16,
    tsec_empty_data := d - ?n, tsec_remain := d - ?n - (i + 16)\<rparr>"
  let ?tsl = "(tsl_of tsl i st t (d - ?n) ?n)\<lparr>tsl_addr_index := i + 16\<rparr>"
  show ?case
  proof (cases "16 + ?n < d - i")
    case True
    have step: "ts_traverse db sec tsl = ts_traverse db ?sec ?tsl"
      using Cons.prems(2-4) r h True u
      by (subst ts_traverse.simps) (simp add: tsl_of_def LOG_IDX_DATA_SIZE_def)
    have "ts_traverse db ?sec ?tsl
        = Some (if i + 16 + 16 * length ls < logs_end (d - ?n) ls then FDB_NO_ERR else FDB_READ_ERR,
            ts_recovered ?sec (i + 16) (d - ?n) ls)"
      using Cons.prems l h True room
      by (intro Cons.IH) (auto simp: tsl_of_def)
    moreover have "ts_recovered ?sec (i + 16) (d - ?n) ls = ts_recovered sec i d (l # ls)"
      by (cases ls) (simp_all add: ts_recovered_def l)
    ultimately show ?thesis using step l by simp
  next
    case False
    then have "d - ?n = i + 16" using room e by linarith
    moreover from this have ls: "ls = []" using room e by (cases ls) auto
    ultimately have "ts_traverse db sec tsl = Some (FDB_READ_ERR, ?sec)"
      using Cons.prems(2-4) r h False u
      by (subst ts_traverse.simps) (simp add: tsl_of_def LOG_IDX_DATA_SIZE_def)
    then show ?thesis using \<open>d - ?n = i + 16\<close> by (simp add: ls l ts_recovered_def)
  qed
qed

text \<open>The header of a sector without end information.\<close>

lemma read_hdr:
  assumes "ts_ok db" "S + 40 \<le> length (ts_img db)" "ts_hdr (ts_img db) S st"
  shows "\<exists>sec'. tsec_addr sec' = S \<and> tsec_status sec' = st \<and> tsec_check_ok sec'
    \<and> tsec_empty_idx sec' = S + 40 \<and> tsec_empty_data sec' = u32 (S + tsdb_sec_size db)
    \<and> tsec_remain sec' = u32_sub (u32 (S + tsdb_sec_size db)) (S + 40)
    \<and> tsec_end_idx sec' = tsec_end_idx sec \<and> tsec_end_time sec' = tsec_end_time sec
    \<and> tsec_end_stat0 sec' = FDB_TSL_UNUSED
    \<and> ts_read_sector_info db S sec trav =
        (if st = FDB_SECTOR_STORE_USING \<and> trav
         then ts_traverse db sec' ((junk_tsl (tsdb_stk db))\<lparr>tsl_addr_index := S + 40\<rparr>)
         else Some (FDB_NO_ERR, sec'))"
proof -
  let ?h = "slice S 40 (ts_img db)"
  have rd: "ts_flash_read db S (replicate 40 (tsdb_stk db)) = Some (FDB_NO_ERR, ?h)"
    using assms by (subst tsf.rd_in) auto
  have sl: "slice k n ?h = slice (S + k) n (ts_img db)" if "k + n \<le> 40" for k n
    using that by (rule slice_slice)
  have st: "store_of (fdb_get_status FDB_WRITE_GRAN [drop_bit (store_num st) 0xFF] FDB_SECTOR_STORE_STATUS_NUM) = st"
    by (subst get_status_1) simp_all
  have un: "tsl_status_of (fdb_get_status FDB_WRITE_GRAN [0xFF] FDB_TSL_STATUS_NUM) = FDB_TSL_UNUSED"
    using get_status_1 [of 0 FDB_TSL_STATUS_NUM] by (simp add: tsl_status_of_def FDB_TSL_STATUS_NUM_def)
  have u: "u32 (S + 40) = S + 40" using assms tsf.img_bound [of db] by (auto intro: u32_id)
  define sec' where "sec' = sec\<lparr>tsec_addr := S, tsec_magic := TS_SECTOR_MAGIC_WORD, tsec_check_ok := True,
    tsec_status := st, tsec_start_time := s32 (int (of_le32 (slice (S + 8) 4 (ts_img db)))),
    tsec_end_stat0 := FDB_TSL_UNUSED, tsec_end_stat1 := FDB_TSL_UNUSED,
    tsec_empty_idx := S + 40, tsec_empty_data := u32 (S + tsdb_sec_size db),
    tsec_remain := u32_sub (u32 (S + tsdb_sec_size db)) (S + 40)\<rparr>"
  have "ts_read_sector_info db S sec trav =
        (if st = FDB_SECTOR_STORE_USING \<and> trav
         then ts_traverse db sec' ((junk_tsl (tsdb_stk db))\<lparr>tsl_addr_index := S + 40\<rparr>)
         else Some (FDB_NO_ERR, sec'))"
    using assms(3)
    by (simp add: ts_read_sector_info_def Let_def TS_SECTOR_HDR_DATA_SIZE_def rd sl ts_hdr_def st un u
        SECTOR_END0_STATUS_OFFSET_def SECTOR_END1_STATUS_OFFSET_def SECTOR_START_TIME_OFFSET_def
        sec'_def)
  then show ?thesis by (intro exI [of _ sec']) (simp add: sec'_def)
qed


text \<open>Reading a sector in use finds where its logs end, and its last log.\<close>

lemma read_using_sector:
  assumes r: "ts_ok db" "ts_sector (ts_img db) S (tsdb_sec_size db) ls"
      "ts_hdr (ts_img db) S FDB_SECTOR_STORE_USING"
    and "S + 56 + 16 * length ls \<le> length (ts_img db)" "40 < tsdb_sec_size db"
  shows "\<exists>e sec'. ts_read_sector_info db S sec True = Some (e, sec')
    \<and> tsec_check_ok sec' \<and> tsec_addr sec' = S \<and> tsec_status sec' = FDB_SECTOR_STORE_USING
    \<and> tsec_empty_idx sec' = S + 40 + 16 * length ls
    \<and> tsec_empty_data sec' = logs_end (S + tsdb_sec_size db) ls
    \<and> tsec_remain sec' = tsec_empty_data sec' - tsec_empty_idx sec' \<and> tsec_end_stat0 sec' = FDB_TSL_UNUSED
    \<and> (ls \<noteq> [] \<longrightarrow> tsec_end_idx sec' = S + 40 + 16 * (length ls - 1)
          \<and> tsec_end_time sec' = fst (snd (last ls)))"
proof -
  define Z where "Z = tsdb_sec_size db"
  define m where "m = ts_img db"
  have sec: "S + Z \<le> length m" "S + 40 + 16 * length ls \<le> logs_end (S + Z) ls"
    "ts_holds m (S + 40) (S + Z) ls"
    "\<And>j. S + 40 + 16 * length ls \<le> j \<Longrightarrow> j < logs_end (S + Z) ls \<Longrightarrow> m ! j = FDB_BYTE_ERASED"
    using r(2) by (auto simp: ts_sector_def m_def Z_def)
  have z: "40 < Z" using assms(5) by (simp add: Z_def)
  have b: "length m < 2147483648" using tsf.img_bound [OF r(1)] by (simp add: m_def)
  have u: "u32 (S + Z) = S + Z" "u32_sub (S + Z) (S + 40) = S + Z - (S + 40)"
    using sec(1) z b u32_sub_id [of "S + 40" "S + Z"] by (auto intro: u32_id)
  have l: "S + 40 \<le> length (ts_img db)" using sec(1) z by (simp add: m_def)
  from read_hdr [OF r(1) l r(3), of sec True] obtain sec' where
    h: "tsec_addr sec' = S" "tsec_status sec' = FDB_SECTOR_STORE_USING" "tsec_check_ok sec'"
      "tsec_end_stat0 sec' = FDB_TSL_UNUSED"
      "tsec_empty_idx sec' = S + 40" "tsec_empty_data sec' = S + Z" "tsec_remain sec' = S + Z - (S + 40)"
      "ts_read_sector_info db S sec True
       = ts_traverse db sec' ((junk_tsl (tsdb_stk db))\<lparr>tsl_addr_index := S + 40\<rparr>)"
    by (auto simp: u Z_def [symmetric])
  have "ts_traverse db sec' ((junk_tsl (tsdb_stk db))\<lparr>tsl_addr_index := S + 40\<rparr>)
    = Some (if S + 40 + 16 * length ls < logs_end (S + Z) ls then FDB_NO_ERR else FDB_READ_ERR,
            ts_recovered sec' (S + 40) (S + Z) ls)"
    using sec z h assms(4) by (intro ts_traverse_logs [OF r(1)]) (auto simp: m_def)
  then show ?thesis using h by (auto simp: ts_recovered_def Z_def)
qed

subsection \<open>Visiting the logs of a sector\<close>

text \<open>The log objects of a list of logs, and a callback that only reads, run over log objects.\<close>

fun tsls :: "nat \<Rightarrow> nat \<Rightarrow> ts_log list \<Rightarrow> fdb_tsl list" where
  "tsls i d [] = []"
| "tsls i d ((st, t, bs) # ls) =
     \<lparr>tsl_status = st, tsl_time = t, tsl_log_len = length bs, tsl_addr_index = i,
      tsl_addr_log = d - length bs\<rparr> # tsls (i + 16) (d - length bs) ls"

fun run_cb :: "(fdb_tsl \<Rightarrow> 'a \<Rightarrow> bool \<times> 'a) \<Rightarrow> fdb_tsl list \<Rightarrow> 'a \<Rightarrow> bool \<times> 'a" where
  "run_cb f [] a = (False, a)"
| "run_cb f (x # xs) a = (case f x a of (stop, a) \<Rightarrow> if stop then (True, a) else run_cb f xs a)"

definition pure_cb :: "(fdb_tsl \<Rightarrow> 'a \<Rightarrow> bool \<times> 'a) \<Rightarrow> fdb_tsl \<Rightarrow> 'a \<Rightarrow> fdb_tsdb \<Rightarrow> (bool \<times> 'a \<times> fdb_tsdb) option" where
  "pure_cb f tsl a db = (case f tsl a of (stop, a) \<Rightarrow> Some (stop, a, db))"

lemma length_tsls [simp]: "length (tsls i d ls) = length ls"
  by (induction i d ls rule: tsls.induct) auto

lemma tsls_index: "k < length ls \<Longrightarrow> tsl_addr_index (tsls i d ls ! k) = i + 16 * k"
  by (induction i d ls arbitrary: k rule: tsls.induct) (auto simp: nth_Cons split: nat.split)

lemma tsls_read:
  assumes "ts_ok db" "ts_holds (ts_img db) i d ls" "i + 16 * length ls \<le> length (ts_img db)"
    and "k < length ls" "tsl_addr_index tsl = i + 16 * k"
  shows "read_tsl db tsl = Some (tsls i d ls ! k)"
  using assms(2-)
proof (induction i d ls arbitrary: k rule: tsls.induct)
  case (2 i d st t bs ls)
  show ?case
  proof (cases k)
    case 0
    have "read_tsl db tsl = Some (tsl_of tsl i st t (d - length bs) (length bs))"
      using 2 0 by (intro read_tsl_log [OF assms(1)]) auto
    then show ?thesis using 0 by (simp add: tsl_of_def)
  next
    case (Suc k')
    then show ?thesis using 2 by (simp add: 2(1))
  qed
qed simp

text \<open>A chain: reading at the index of each object gives it, and \<open>next\<close> leads to the following one.\<close>

definition tsl_chain :: "fdb_tsdb \<Rightarrow> (fdb_tsl \<Rightarrow> nat) \<Rightarrow> fdb_tsl list \<Rightarrow> bool" where
  "tsl_chain db next xs \<longleftrightarrow>
     (\<forall>k<length xs. (\<forall>tsl. tsl_addr_index tsl = tsl_addr_index (xs ! k) \<longrightarrow> read_tsl db tsl = Some (xs ! k))
        \<and> next (xs ! k) = (if Suc k < length xs then tsl_addr_index (xs ! Suc k) else TS_FAILED_ADDR)
        \<and> (Suc k < length xs \<longrightarrow> tsl_addr_index (xs ! Suc k) \<noteq> TS_FAILED_ADDR))"

lemma tsl_chain_Cons: "tsl_chain db next (x # xs) \<Longrightarrow> tsl_chain db next xs"
  unfolding tsl_chain_def by fastforce

lemma iter_chain:
  assumes "tsl_chain db (next sec) xs" "xs \<noteq> []" "tsl_addr_index tsl = tsl_addr_index (hd xs)"
  shows "\<exists>tsl'. tsl_iter_sector next (pure_cb f) db sec tsl a
    = Some (fst (run_cb f xs a), tsl', snd (run_cb f xs a), db)"
  using assms
proof (induction xs arbitrary: tsl a)
  case (Cons x xs)
  have r: "read_tsl db tsl = Some x"
    using Cons.prems(1,3) unfolding tsl_chain_def by force
  have n: "next sec x = (if xs = [] then TS_FAILED_ADDR else tsl_addr_index (hd xs))"
    "xs \<noteq> [] \<Longrightarrow> tsl_addr_index (hd xs) \<noteq> TS_FAILED_ADDR"
    using Cons.prems(1) unfolding tsl_chain_def by (fastforce simp: hd_conv_nth)+
  obtain stop a' where f: "f x a = (stop, a')" by fastforce
  show ?case
  proof (cases "stop \<or> xs = []")
    case True
    then show ?thesis using r f n
      by (subst tsl_iter_sector.simps) (auto simp: pure_cb_def)
  next
    case False
    obtain tsl' where "tsl_iter_sector next (pure_cb f) db sec (x\<lparr>tsl_addr_index := tsl_addr_index (hd xs)\<rparr>) a'
      = Some (fst (run_cb f xs a'), tsl', snd (run_cb f xs a'), db)"
      using Cons.IH [OF tsl_chain_Cons [OF Cons.prems(1)], of "x\<lparr>tsl_addr_index := tsl_addr_index (hd xs)\<rparr>" a'] False
      by auto
    then show ?thesis using r f n False
      by (subst tsl_iter_sector.simps) (auto simp: pure_cb_def)
  qed
qed simp


lemma tsls_forward:
  assumes "ts_ok db" "ts_holds (ts_img db) i d ls" "i + 16 * length ls \<le> length (ts_img db)"
    and "ls \<noteq> []" "tsec_status sec \<noteq> FDB_SECTOR_STORE_EMPTY" "tsec_end_idx sec = i + 16 * (length ls - 1)"
  shows "tsl_chain db (get_next_tsl_addr sec) (tsls i d ls)"
proof -
  note b = tsf.img_bound [OF assms(1)]
  have "get_next_tsl_addr sec (tsls i d ls ! k)
      = (if Suc k < length ls then tsl_addr_index (tsls i d ls ! Suc k) else TS_FAILED_ADDR)
      \<and> (Suc k < length ls \<longrightarrow> tsl_addr_index (tsls i d ls ! Suc k) \<noteq> TS_FAILED_ADDR)"
    if "k < length ls" for k
  proof -
    have le: "16 * Suc k \<le> 16 * length ls" using that by simp
    have u: "u32 (i + 16 * k + 16) = i + 16 * k + 16"
      using that assms(3) b by (intro u32_id) simp
    have "i + 16 * k + 16 \<le> i + 16 * (length ls - 1) \<longleftrightarrow> Suc k < length ls" using that by auto
    then show ?thesis using that assms(3,5,6) b
      by (auto simp: get_next_tsl_addr_def tsls_index LOG_IDX_DATA_SIZE_def u TS_FAILED_ADDR_def)
  qed
  then show ?thesis using tsls_read [OF assms(1-3)]
    by (simp add: tsl_chain_def tsls_index)
qed

lemma rev_nth_tsls: "k < length ls \<Longrightarrow> rev (tsls i d ls) ! k = tsls i d ls ! (length ls - Suc k)"
  by (simp add: rev_nth)

lemma tsls_backward:
  assumes "ts_ok db" "ts_holds (ts_img db) (tsec_addr sec + 40) d ls"
    and "tsec_addr sec + 40 + 16 * length ls \<le> length (ts_img db)"
    and "ls \<noteq> []" "tsec_status sec \<noteq> FDB_SECTOR_STORE_EMPTY"
  shows "tsl_chain db (get_last_tsl_addr sec) (rev (tsls (tsec_addr sec + 40) d ls))"
proof -
  let ?i = "tsec_addr sec + 40" let ?xs = "tsls ?i d ls"
  note b = tsf.img_bound [OF assms(1)]
  have u: "u32 (tsec_addr sec + 56) = tsec_addr sec + 56" "u32 (56 + tsec_addr sec) = tsec_addr sec + 56"
    using assms(3,4) b by (cases ls; auto simp: add.commute intro!: u32_id)+
  have "get_last_tsl_addr sec (?xs ! k)
      = (if 0 < k then tsl_addr_index (?xs ! (k - 1)) else TS_FAILED_ADDR)
      \<and> (0 < k \<longrightarrow> tsl_addr_index (?xs ! (k - 1)) \<noteq> TS_FAILED_ADDR)"
    if k: "k < length ls" for k
  proof (cases k)
    case 0
    then show ?thesis using k assms(5)
      by (simp add: get_last_tsl_addr_def tsls_index LOG_IDX_DATA_SIZE_def TS_SECTOR_HDR_DATA_SIZE_def u)
  next
    case (Suc k')
    have le: "16 * k + 16 \<le> 16 * length ls" using k by simp
    have bd: "?i + 16 * k < 2147483648" using le assms(3) b by linarith
    have "u32_sub (?i + 16 * k) 16 = ?i + 16 * k'"
      using bd Suc by (subst u32_sub_id) auto
    then show ?thesis using k Suc assms(5) bd
      by (simp add: get_last_tsl_addr_def tsls_index LOG_IDX_DATA_SIZE_def TS_SECTOR_HDR_DATA_SIZE_def u
          TS_FAILED_ADDR_def)
  qed
  note g = this
  show ?thesis
    unfolding tsl_chain_def
  proof (intro allI impI conjI)
    fix k tsl
    assume k: "k < length (rev ?xs)"
    let ?j = "length ls - Suc k"
    have j: "?j < length ls" using k by simp
    have x: "rev ?xs ! k = ?xs ! ?j" using k by (simp add: rev_nth)
    have y: "Suc k < length (rev ?xs) \<Longrightarrow> rev ?xs ! Suc k = ?xs ! (?j - 1)"
      by (simp add: rev_nth)
    show "tsl_addr_index tsl = tsl_addr_index (rev ?xs ! k) \<Longrightarrow> read_tsl db tsl = Some (rev ?xs ! k)"
      using tsls_read [OF assms(1-3) j] j by (simp add: x tsls_index)
    have e: "Suc k < length (rev ?xs) \<longleftrightarrow> 0 < ?j" by auto
    show "get_last_tsl_addr sec (rev ?xs ! k)
        = (if Suc k < length (rev ?xs) then tsl_addr_index (rev ?xs ! Suc k) else TS_FAILED_ADDR)"
      using g [OF j] x y e by metis
    show "Suc k < length (rev ?xs) \<Longrightarrow> tsl_addr_index (rev ?xs ! Suc k) \<noteq> TS_FAILED_ADDR"
      using g [OF j] y e by metis
  qed
qed

subsection \<open>The logs of the whole database\<close>

text \<open>A sector that was closed: its header holds the index of the last log.\<close>

definition ts_full :: "bytes \<Rightarrow> nat \<Rightarrow> nat \<Rightarrow> ts_log list \<Rightarrow> bool" where
  "ts_full m S Z ls \<longleftrightarrow>
     ls \<noteq> [] \<and> S + Z \<le> length m \<and> S + 40 + 16 * length ls \<le> logs_end (S + Z) ls
   \<and> ts_holds m (S + 40) (S + Z) ls
   \<and> slice S 1 m = [drop_bit (store_num FDB_SECTOR_STORE_FULL) 0xFF]
   \<and> of_le32 (slice (S + 4) 4 m) = TS_SECTOR_MAGIC_WORD
   \<and> slice (S + 20) 1 m = [drop_bit (tsl_status_num FDB_TSL_WRITE) 0xFF]
   \<and> s32 (int (of_le32 (slice (S + 12) 4 m))) = fst (snd (last ls))
   \<and> of_le32 (slice (S + 16) 4 m) = S + 40 + 16 * (length ls - 1)"

text \<open>
  \<open>L k\<close> are the logs of sector \<open>k\<close>: every sector is empty, closed, or the current one in use.
\<close>

definition ts_db_holds :: "fdb_tsdb \<Rightarrow> (nat \<Rightarrow> ts_log list) \<Rightarrow> bool" where
  "ts_db_holds db L \<longleftrightarrow>
     ts_ok db \<and> ts_geom db \<and> 40 < tsdb_sec_size db
   \<and> tsdb_max_size db \<le> length (ts_img db)
   \<and> (\<forall>k<ts_count db. let S = k * tsdb_sec_size db; Z = tsdb_sec_size db in
        ts_hdr (ts_img db) S FDB_SECTOR_STORE_EMPTY \<and> L k = []
      \<or> ts_full (ts_img db) S Z (L k)
      \<or> ts_rep db (L k) \<and> L k \<noteq> [] \<and> tsec_addr (ts_cur_sec db) = S)"

lemma ts_db_holds_lock [simp]:
  "ts_db_holds (tsdb_lock db) L = ts_db_holds db L"
  by (simp add: ts_db_holds_def ts_geom_def ts_count_def)

lemma run_cb_append:
  "run_cb f (xs @ ys) a = (case run_cb f xs a of (stop, a) \<Rightarrow> if stop then (True, a) else run_cb f ys a)"
  by (induction f xs a rule: run_cb.induct) (auto split: prod.split)

lemma read_full:
  assumes "ts_ok db" "ts_full (ts_img db) S (tsdb_sec_size db) ls"
  shows "\<exists>sec'. ts_read_sector_info db S sec trav = Some (FDB_NO_ERR, sec') \<and> tsec_addr sec' = S
    \<and> tsec_check_ok sec' \<and> tsec_status sec' = FDB_SECTOR_STORE_FULL \<and> tsec_end_idx sec' = S + 40 + 16 * (length ls - 1)
    \<and> tsec_end_time sec' = fst (snd (last ls))"
proof -
  have l: "S + 40 \<le> length (ts_img db)"
    using assms(2) logs_end_le [of "S + tsdb_sec_size db" ls] by (simp add: ts_full_def)
  have rd: "ts_flash_read db S (replicate 40 (tsdb_stk db)) = Some (FDB_NO_ERR, slice S 40 (ts_img db))"
    using assms l by (subst tsf.rd_in) auto
  have sl: "slice k n (slice S 40 (ts_img db)) = slice (S + k) n (ts_img db)" if "k + n \<le> 40" for k n
    using that by (rule slice_slice)
  have st: "store_of (fdb_get_status FDB_WRITE_GRAN [drop_bit (store_num FDB_SECTOR_STORE_FULL) 0xFF]
      FDB_SECTOR_STORE_STATUS_NUM) = FDB_SECTOR_STORE_FULL"
    by (subst get_status_1) (simp_all add: FDB_SECTOR_STORE_STATUS_NUM_def store_of_def)
  have wr: "tsl_status_of (fdb_get_status FDB_WRITE_GRAN [drop_bit (tsl_status_num FDB_TSL_WRITE) 0xFF]
      FDB_TSL_STATUS_NUM) = FDB_TSL_WRITE"
    by (subst get_status_1) (simp_all add: FDB_TSL_STATUS_NUM_def tsl_status_of_def)
  show ?thesis using assms(2)
    by (simp add: ts_read_sector_info_def Let_def TS_SECTOR_HDR_DATA_SIZE_def rd sl ts_full_def st wr
        SECTOR_END0_STATUS_OFFSET_def SECTOR_END0_IDX_OFFSET_def SECTOR_END0_TIME_OFFSET_def
        SECTOR_END1_STATUS_OFFSET_def del: store_num.simps tsl_status_num.simps)
qed


lemma ts_db_sector:
  assumes h: "ts_db_holds db L" and k: "k < ts_count db"
  defines "S \<equiv> k * tsdb_sec_size db"
  shows "\<exists>sec'. ts_read_sector_info db S sec False = Some (FDB_NO_ERR, sec') \<and> tsec_addr sec' = S
    \<and> (if L k = [] then tsec_status sec' = FDB_SECTOR_STORE_EMPTY
       else (tsec_status sec' = FDB_SECTOR_STORE_USING \<or> tsec_status sec' = FDB_SECTOR_STORE_FULL)
          \<and> tsec_addr (ts_sector_for_iter db sec') = S
          \<and> tsec_status (ts_sector_for_iter db sec') \<noteq> FDB_SECTOR_STORE_EMPTY
          \<and> tsec_end_idx (ts_sector_for_iter db sec') = S + 40 + 16 * (length (L k) - 1)
          \<and> ts_holds (ts_img db) (S + 40) (S + tsdb_sec_size db) (L k)
          \<and> S + 40 + 16 * length (L k) \<le> length (ts_img db))"
proof -
  have ok: "ts_ok db" "ts_geom db" "40 < tsdb_sec_size db" "tsdb_max_size db \<le> length (ts_img db)"
    using h by (auto simp: ts_db_holds_def)
  have "S + tsdb_sec_size db \<le> tsdb_max_size db"
    using geom_facts(1) [of "tsdb_sec_size db" "tsdb_max_size db" k 0] ok(2) k
    by (simp add: S_def ts_geom_def ts_count_def)
  then have l: "S + tsdb_sec_size db \<le> length (ts_img db)" "S + 40 \<le> length (ts_img db)" using ok by auto
  have e: "logs_end (S + tsdb_sec_size db) (L k) \<le> S + tsdb_sec_size db" by (rule logs_end_le)
  from h k consider
      (empty) "ts_hdr (ts_img db) S FDB_SECTOR_STORE_EMPTY" "L k = []"
    | (full) "ts_full (ts_img db) S (tsdb_sec_size db) (L k)"
    | (cur) "ts_rep db (L k)" "L k \<noteq> []" "tsec_addr (ts_cur_sec db) = S"
    by (auto simp: ts_db_holds_def Let_def S_def)
  then show ?thesis
  proof cases
    case empty
    then show ?thesis using read_hdr [OF ok(1) l(2) empty(1), of sec False] by auto
  next
    case full
    then have "L k \<noteq> []" "ts_holds (ts_img db) (S + 40) (S + tsdb_sec_size db) (L k)"
      "S + 40 + 16 * length (L k) \<le> logs_end (S + tsdb_sec_size db) (L k)"
      by (auto simp: ts_full_def)
    then show ?thesis using read_full [OF ok(1) full, of sec False] l e
      by (auto simp: ts_sector_for_iter_def)
  next
    case cur
    then have r: "ts_hdr (ts_img db) S FDB_SECTOR_STORE_USING"
      "tsec_status (ts_cur_sec db) = FDB_SECTOR_STORE_USING"
      "tsec_end_idx (ts_cur_sec db) = S + 40 + 16 * (length (L k) - 1)"
      "ts_holds (ts_img db) (S + 40) (S + tsdb_sec_size db) (L k)"
      "S + 40 + 16 * length (L k) \<le> logs_end (S + tsdb_sec_size db) (L k)"
      by (auto simp: ts_rep_def Let_def ts_sector_def)
    then show ?thesis using read_hdr [OF ok(1) l(2) r(1), of sec False] cur l e
      by (auto simp: ts_sector_for_iter_def)
  qed
qed

text \<open>The log objects of a sector, as the iterators deliver them.\<close>

definition sector_tsls :: "fdb_tsdb \<Rightarrow> (nat \<Rightarrow> ts_log list) \<Rightarrow> nat \<Rightarrow> fdb_tsl list" where
  "sector_tsls db L k = tsls (k * tsdb_sec_size db + 40) (k * tsdb_sec_size db + tsdb_sec_size db) (L k)"

lemma tsl_iter_walk:
  assumes h: "ts_db_holds db L" and k: "k0 < ts_count db"
  defines "w \<equiv> ts_up.walk (ts_count db) k0 (ts_count db)"
  assumes i: "i < ts_count db"
  shows "tsl_iter_loop (pure_cb f) db sec tsl a (w ! i * tsdb_sec_size db) (i * tsdb_sec_size db)
    = Some (snd (run_cb f (concat (map (sector_tsls db L) (drop i w))) a), db)"
  using i
proof (induction "ts_count db - i" arbitrary: i sec tsl a)
  case 0
  then show ?case by simp
next
  case (Suc n)
  let ?Z = "tsdb_sec_size db" and ?N = "ts_count db"
  let ?S = "w ! i * ?Z"
  have ok: "ts_ok db" "ts_geom db" using h by (auto simp: ts_db_holds_def)
  have wl: "length w = ?N" by (simp add: w_def)
  have wi: "w ! i < ?N"
    using Suc.prems k ts_up.iter_less by (simp add: w_def ts_up.walk_def)
  have g: "u32 (i * ?Z + ?Z) = Suc i * ?Z"
    using geom_facts(4) [of ?Z "tsdb_max_size db" "w ! i" i] ok(2) wi Suc.prems
    by (simp add: ts_geom_def ts_count_def add.commute)
  have s: "u32 (?S + 40) = ?S + 40"
    using geom_facts(1) [of ?Z "tsdb_max_size db" "w ! i" i] ok(2) wi Suc.prems h
    by (intro u32_id) (simp add: ts_geom_def ts_count_def ts_db_holds_def)
  have dr: "drop i w = w ! i # drop (Suc i) w" using Suc.prems wl by (simp add: Cons_nth_drop_Suc)
  have nxt: "ts_get_next_sector_addr db x (Suc i * ?Z)
      = (if Suc i < ?N then w ! Suc i * ?Z else TS_FAILED_ADDR)" if "tsec_addr x = ?S" for x
    using ts_up.nxt_walk [OF ok(2) k Suc.prems]
    unfolding ts_nxt_sec [OF that] w_def by (simp only: TS_FAILED_ADDR_def FDB_FAILED_ADDR_def)
  have nf: "w ! Suc i * ?Z \<noteq> TS_FAILED_ADDR" if "Suc i < ?N"
  proof -
    have "w ! Suc i < ?N" using that ts_up.iter_less [OF k, of "Suc i"] by (simp add: w_def ts_up.walk_def)
    then have "w ! Suc i * ?Z < 2147483648"
      using geom_facts(1) [of ?Z "tsdb_max_size db" "w ! Suc i" i] ok(2) Suc.prems
      by (simp add: ts_geom_def ts_count_def)
    then show ?thesis by (simp add: TS_FAILED_ADDR_def)
  qed
  from ts_db_sector [OF h wi, of sec] obtain sec' where
    r: "ts_read_sector_info db ?S sec False = Some (FDB_NO_ERR, sec')" "tsec_addr sec' = ?S"
    and c: "if L (w ! i) = [] then tsec_status sec' = FDB_SECTOR_STORE_EMPTY
       else (tsec_status sec' = FDB_SECTOR_STORE_USING \<or> tsec_status sec' = FDB_SECTOR_STORE_FULL)
          \<and> tsec_addr (ts_sector_for_iter db sec') = ?S
          \<and> tsec_status (ts_sector_for_iter db sec') \<noteq> FDB_SECTOR_STORE_EMPTY
          \<and> tsec_end_idx (ts_sector_for_iter db sec') = ?S + 40 + 16 * (length (L (w ! i)) - 1)
          \<and> ts_holds (ts_img db) (?S + 40) (?S + ?Z) (L (w ! i))
          \<and> ?S + 40 + 16 * length (L (w ! i)) \<le> length (ts_img db)" by blast
  have rest: "tsl_iter_loop (pure_cb f) db x y b (w ! Suc i * ?Z) (Suc i * ?Z)
      = Some (snd (run_cb f (concat (map (sector_tsls db L) (drop (Suc i) w))) b), db)"
    if "Suc i < ?N" for x y b
    using Suc.hyps(2) that by (intro Suc.hyps(1)) auto
  have last: "drop (Suc i) w = []" if "\<not> Suc i < ?N" using that wl by simp
  show ?case
  proof (cases "L (w ! i) = []")
    case True
    then have "sector_tsls db L (w ! i) = []" by (simp add: sector_tsls_def)
    then show ?thesis using r c True g nxt [OF r(2)] nf rest last dr
      by (subst tsl_iter_loop.simps) (simp split: prod.split)
  next
    case False
    let ?sec = "ts_sector_for_iter db sec'" and ?xs = "sector_tsls db L (w ! i)"
    have cc: "tsec_status sec' = FDB_SECTOR_STORE_USING \<or> tsec_status sec' = FDB_SECTOR_STORE_FULL"
      "tsec_addr ?sec = ?S" using c False by auto
    have ch: "tsl_chain db (get_next_tsl_addr ?sec) ?xs"
      unfolding sector_tsls_def using c False by (intro tsls_forward [OF ok(1)]) auto
    have "?xs \<noteq> []" "tsl_addr_index (hd ?xs) = ?S + 40"
      using False tsls_index [of 0 "L (w ! i)" "?S + 40" "?S + ?Z"]
      by (simp_all add: sector_tsls_def hd_conv_nth flip: length_greater_0_conv)
    then obtain tsl' where it: "tsl_iter_sector get_next_tsl_addr (pure_cb f) db ?sec
        (tsl\<lparr>tsl_addr_index := ?S + 40\<rparr>) a
      = Some (fst (run_cb f ?xs a), tsl', snd (run_cb f ?xs a), db)"
      using iter_chain [of db get_next_tsl_addr ?sec ?xs "tsl\<lparr>tsl_addr_index := ?S + 40\<rparr>" f a] ch
      by auto
    obtain stop a' where rc: "run_cb f ?xs a = (stop, a')" by fastforce
    show ?thesis using r cc g nxt [OF cc(2)] nf rest last dr it rc s
      by (subst tsl_iter_loop.simps)
        (simp add: Let_def TS_SECTOR_HDR_DATA_SIZE_def run_cb_append)
  qed
qed

end
