(* ===== verification/Tsdb_Search.thy ===== *)
theory Tsdb_Search
  imports Tsdb_Walk
begin

text \<open>
  The binary search of \<open>fdb_tsl_iter_by_time\<close> over the logs of a sector, whose time stamps
  increase: it ends, and returns the index of the first log that is not before the start of the
  range, or for a reverse range of the last log that is not after it.
\<close>

lemma search_mid_eq:
  assumes "lo \<le> hi" "i + 16 * hi < 2147483648"
  shows "search_mid (int (i + 16 * lo)) (int (i + 16 * hi)) = i + 16 * (lo + (hi - lo + 1) div 2)"
proof -
  let ?d = "hi - lo"
  have e: "int (i + 16 * hi) - int (i + 16 * lo) = int (16 * ?d)" using assms(1) by simp
  have lt: "16 * ?d < 2147483648" using assms by simp
  then have s: "s32 (int (16 * ?d)) = int (16 * ?d)" by (intro s32_id) auto
  have h: "int (16 * ?d) sdiv 2 = int (8 * ?d)"
    by (auto simp: signed_divide_int_def sgn_if)
  have u: "u32_of_int (int (8 * ?d)) = 8 * ?d"
    using lt by (simp add: u32_of_int_def nat_mod_distrib)
  have a: "FDB_ALIGN (8 * ?d) 16 = 16 * ((?d + 1) div 2)"
  proof -
    have "u32 (8 * ?d + 15) = 8 * ?d + 15" using lt by (intro u32_id) simp
    moreover have "8 * ?d + 15 - (8 * ?d + 15) mod 16 = 16 * ((8 * ?d + 15) div 16)"
      by (metis minus_mod_eq_mult_div)
    moreover have "(8 * ?d + 15) div 16 = (?d + 1) div 2" by linarith
    ultimately show ?thesis by (simp add: FDB_ALIGN_def Let_def)
  qed
  have "i + 16 * lo + 16 * ((?d + 1) div 2) < 4294967296"
    using assms by linarith
  then have "u32_of_int (int (i + 16 * lo) + int (16 * ((?d + 1) div 2)))
      = i + 16 * lo + 16 * ((?d + 1) div 2)"
    by (simp add: u32_of_int_def flip: of_nat_add)
  then show ?thesis
    by (simp add: search_mid_def e s h u a LOG_IDX_DATA_SIZE_def del: of_nat_add of_nat_mult)
qed


text \<open>One round of the search, for a middle whose time is \<open>T\<close>.\<close>

lemma search_round:
  assumes "search_mid start end_pos = m"
    and "read_tsl db ((junk_tsl (tsdb_stk db))\<lparr>tsl_addr_index := m\<rparr>) = Some x" "tsl_time x = T"
    and "m + 16 < 2147483648" "16 \<le> m"
  shows "T = from \<Longrightarrow> search_start_tsl_addr db start end_pos from to = Some (int m)"
    and "T < from \<Longrightarrow> int m + 16 \<le> end_pos \<Longrightarrow> search_start_tsl_addr db start end_pos from to
           = search_start_tsl_addr db (int m + 16) end_pos from to"
    and "from < T \<Longrightarrow> start \<le> int m - 16 \<Longrightarrow> search_start_tsl_addr db start end_pos from to
           = search_start_tsl_addr db start (int m - 16) from to"
    and "T < from \<Longrightarrow> end_pos < int m + 16 \<Longrightarrow> \<not> to < from
           \<Longrightarrow> search_start_tsl_addr db start end_pos from to = Some (int m + 16)"
    and "from < T \<Longrightarrow> int m - 16 < start \<Longrightarrow> \<not> to < from
           \<Longrightarrow> search_start_tsl_addr db start end_pos from to = Some start"
    and "from < T \<Longrightarrow> start = int m \<Longrightarrow> to < from
           \<Longrightarrow> search_start_tsl_addr db start end_pos from to = Some (int m - 16)"
    and "T < from \<Longrightarrow> end_pos < int m + 16 \<Longrightarrow> to < from
      \<Longrightarrow> read_tsl db ((junk_tsl (tsdb_stk db))\<lparr>tsl_addr_index := m + 16\<rparr>) = Some y \<Longrightarrow> from < tsl_time y
      \<Longrightarrow> search_start_tsl_addr db start end_pos from to = Some (int m)"
proof -
  have u: "s32 (int m) = int m" "s32 (int (u32 (m + 16))) = int m + 16"
    "s32 (int (u32_sub m 16)) = int m - 16" "u32_of_int (int m) = m"
    using assms(4,5) by (auto simp: u32_id u32_sub_id s32_id u32_of_int_def)
  note d = search_start_tsl_addr.simps [of db start end_pos "from" to]
  show "T = from \<Longrightarrow> search_start_tsl_addr db start end_pos from to = Some (int m)"
    using assms u by (simp add: d)
  show "T < from \<Longrightarrow> int m + 16 \<le> end_pos \<Longrightarrow> search_start_tsl_addr db start end_pos from to
           = search_start_tsl_addr db (int m + 16) end_pos from to"
    using assms u by (subst d) (simp add: Let_def LOG_IDX_DATA_SIZE_def)
  show "from < T \<Longrightarrow> start \<le> int m - 16 \<Longrightarrow> search_start_tsl_addr db start end_pos from to
           = search_start_tsl_addr db start (int m - 16) from to"
    using assms u by (subst d) (simp add: Let_def LOG_IDX_DATA_SIZE_def)
  show "T < from \<Longrightarrow> end_pos < int m + 16 \<Longrightarrow> \<not> to < from
           \<Longrightarrow> search_start_tsl_addr db start end_pos from to = Some (int m + 16)"
    using assms u by (simp add: d Let_def LOG_IDX_DATA_SIZE_def)
  show "from < T \<Longrightarrow> int m - 16 < start \<Longrightarrow> \<not> to < from
           \<Longrightarrow> search_start_tsl_addr db start end_pos from to = Some start"
    using assms u by (simp add: d Let_def LOG_IDX_DATA_SIZE_def)
  show "from < T \<Longrightarrow> start = int m \<Longrightarrow> to < from
           \<Longrightarrow> search_start_tsl_addr db start end_pos from to = Some (int m - 16)"
    using assms u by (subst d) (simp add: Let_def LOG_IDX_DATA_SIZE_def)
  show "T < from \<Longrightarrow> end_pos < int m + 16 \<Longrightarrow> to < from
      \<Longrightarrow> read_tsl db ((junk_tsl (tsdb_stk db))\<lparr>tsl_addr_index := m + 16\<rparr>) = Some y \<Longrightarrow> from < tsl_time y
      \<Longrightarrow> search_start_tsl_addr db start end_pos from to = Some (int m)"
  proof -
    have "u32_of_int (int m + 16) = m + 16" "s32 (int (u32_sub (m + 16) 16)) = int m"
      using assms(4) by (auto simp: u32_sub_id s32_id u32_of_int_def nat_add_distrib)
    then show "T < from \<Longrightarrow> end_pos < int m + 16 \<Longrightarrow> to < from
      \<Longrightarrow> read_tsl db ((junk_tsl (tsdb_stk db))\<lparr>tsl_addr_index := m + 16\<rparr>) = Some y \<Longrightarrow> from < tsl_time y
      \<Longrightarrow> search_start_tsl_addr db start end_pos from to = Some (int m)"
      using assms u by (subst d) (simp add: Let_def LOG_IDX_DATA_SIZE_def)
  qed
qed


text \<open>
  The search over \<open>n\<close> logs with increasing times \<open>T\<close>: \<open>pos\<close> is the number of logs before
  \<open>from\<close>. A reverse search needs a log at or after \<open>from\<close>, or else it reads past the last log.
\<close>

lemma search_loop:
  assumes rd: "\<And>k tsl. k < n \<Longrightarrow> tsl_addr_index tsl = i + 16 * k
      \<Longrightarrow> \<exists>x. read_tsl db tsl = Some x \<and> tsl_time x = T k"
    and mono: "\<And>j k. j < k \<Longrightarrow> k < n \<Longrightarrow> T j < T k"
    and b: "i + 16 * n < 2147483648" "16 \<le> i" and n: "hi < n" and lh: "lo \<le> hi"
    and lo: "\<And>k. k < lo \<Longrightarrow> T k < from" and hi: "\<And>k. hi < k \<Longrightarrow> k < n \<Longrightarrow> from < T k"
    and rev: "to < from \<Longrightarrow> from \<le> T (n - 1)"
  shows "\<exists>pos. pos \<le> n \<and> (\<forall>k<pos. T k < from) \<and> (\<forall>k. pos \<le> k \<and> k < n \<longrightarrow> from \<le> T k)
    \<and> search_start_tsl_addr db (int (i + 16 * lo)) (int (i + 16 * hi)) from to
      = Some (if to < from \<and> \<not> (pos < n \<and> T pos = from) then int (i + 16 * pos) - 16
              else int (i + 16 * pos))"
  using n lh lo hi
proof (induction "hi - lo" arbitrary: lo hi rule: less_induct)
  case less
  define mid where "mid = lo + (hi - lo + 1) div 2"
  define s where "s = int (i + 16 * lo)"
  define e where "e = int (i + 16 * hi)"
  have m: "lo \<le> mid" "mid \<le> hi" using less.prems(2) unfolding mid_def by linarith+
  have mn: "mid < n" using m less.prems(1) by linarith
  have bb: "i + 16 * mid + 16 < 2147483648" "i + 16 * hi < 2147483648" "16 \<le> i + 16 * mid"
    using b mn less.prems(1) by linarith+
  have sm: "search_mid s e = i + 16 * mid"
    unfolding mid_def s_def e_def using less.prems(2) bb by (intro search_mid_eq) auto
  obtain x where x: "read_tsl db ((junk_tsl (tsdb_stk db))\<lparr>tsl_addr_index := i + 16 * mid\<rparr>) = Some x"
    "tsl_time x = T mid"
    using rd [OF mn, of "(junk_tsl (tsdb_stk db))\<lparr>tsl_addr_index := i + 16 * mid\<rparr>"] by auto
  note round = search_round [OF sm x bb(1,3)]
  have below: "T k < T mid" if "k < mid" for k using mono [OF that mn] .
  have above: "T mid < T k" if "mid < k" "k < n" for k using mono [OF that] .
  have se: "e < int (i + 16 * mid) + 16 \<longleftrightarrow> mid = hi" "int (i + 16 * mid) - 16 < s \<longleftrightarrow> mid = lo"
    "int (i + 16 * mid) + 16 = int (i + 16 * (mid + 1))"
    using m by (auto simp: s_def e_def)
  show ?case unfolding s_def [symmetric] e_def [symmetric]
  proof (cases "T mid" "from" rule: linorder_cases)
    case equal
    have "\<forall>k. mid \<le> k \<and> k < n \<longrightarrow> from \<le> T k"
      using above equal by (metis le_less order_refl)
    then show "\<exists>pos\<le>n. (\<forall>k<pos. T k < from) \<and> (\<forall>k. pos \<le> k \<and> k < n \<longrightarrow> from \<le> T k)
      \<and> search_start_tsl_addr db s e from to
        = Some (if to < from \<and> \<not> (pos < n \<and> T pos = from) then int (i + 16 * pos) - 16
                else int (i + 16 * pos))"
      using below equal mn round(1) by (intro exI [of _ mid]) auto
  next
    case less': less
    have lo': "T k < from" if "k < mid + 1" for k
      using that below [of k] less' by (cases "k = mid") auto
    show "\<exists>pos\<le>n. (\<forall>k<pos. T k < from) \<and> (\<forall>k. pos \<le> k \<and> k < n \<longrightarrow> from \<le> T k)
      \<and> search_start_tsl_addr db s e from to
        = Some (if to < from \<and> \<not> (pos < n \<and> T pos = from) then int (i + 16 * pos) - 16
                else int (i + 16 * pos))"
    proof (cases "mid = hi")
      case False
      then have "search_start_tsl_addr db s e from to
          = search_start_tsl_addr db (int (i + 16 * (mid + 1))) (int (i + 16 * hi)) from to"
        using round(2) less' se(1,3) by (simp add: e_def algebra_simps)
      then show ?thesis
        using less.hyps [of hi "mid + 1"] False m less.prems lo' by simp
    next
      case True
      have up: "\<forall>k. mid + 1 \<le> k \<and> k < n \<longrightarrow> from < T k" using less.prems(4) True by fastforce
      have "search_start_tsl_addr db s e from to
          = Some (if to < from then int (i + 16 * (mid + 1)) - 16 else int (i + 16 * (mid + 1)))"
      proof (cases "to < from")
        case rv: True
        have nn: "mid + 1 < n"
        proof (rule ccontr)
          assume "\<not> mid + 1 < n"
          then have "n - 1 = mid" using mn by simp
          then show False using rev [OF rv] less' by simp
        qed
        obtain y where y: "read_tsl db ((junk_tsl (tsdb_stk db))\<lparr>tsl_addr_index := i + 16 * mid + 16\<rparr>) = Some y"
          "tsl_time y = T (mid + 1)"
          using rd [OF nn, of "(junk_tsl (tsdb_stk db))\<lparr>tsl_addr_index := i + 16 * mid + 16\<rparr>"] by auto
        show ?thesis using round(7) [OF less' _ rv y(1)] se(1,3) True rv y(2) up nn by simp
      next
        case False
        then show ?thesis using round(4) less' se(1,3) True by simp
      qed
      moreover have "\<forall>k. mid + 1 \<le> k \<and> k < n \<longrightarrow> from \<le> T k" "\<not> (mid + 1 < n \<and> T (mid + 1) = from)"
        using up by fastforce+
      ultimately show ?thesis using lo' mn by (intro exI [of _ "mid + 1"]) auto
    qed
  next
    case greater
    have up: "from < T k" if "mid \<le> k" "k < n" for k
      using that above [of k] greater by (cases "k = mid") auto
    show "\<exists>pos\<le>n. (\<forall>k<pos. T k < from) \<and> (\<forall>k. pos \<le> k \<and> k < n \<longrightarrow> from \<le> T k)
      \<and> search_start_tsl_addr db s e from to
        = Some (if to < from \<and> \<not> (pos < n \<and> T pos = from) then int (i + 16 * pos) - 16
                else int (i + 16 * pos))"
    proof (cases "mid = lo")
      case False
      then have md: "0 < mid" "lo \<le> mid - 1" using m by auto
      have e1: "int (i + 16 * mid) - 16 = int (i + 16 * (mid - 1))" using md(1) by (cases mid) auto
      have "s \<le> int (i + 16 * mid) - 16" using se(2) False by (metis linorder_not_less)
      then have step: "search_start_tsl_addr db s e from to
          = search_start_tsl_addr db (int (i + 16 * lo)) (int (i + 16 * (mid - 1))) from to"
        using round(3) [OF greater] by (simp only: s_def e1)
      have up': "from < T k" if "mid - 1 < k" "k < n" for k using that md(1) by (intro up) linarith
      show ?thesis unfolding step
      proof (rule less.hyps [of "mid - 1" lo])
        show "mid - 1 - lo < hi - lo" "mid - 1 < n" "lo \<le> mid - 1" using md m mn by linarith+
      qed (use less.prems(3) up' in auto)
    next
      case True
      have "search_start_tsl_addr db s e from to
          = Some (if to < from then int (i + 16 * mid) - 16 else int (i + 16 * mid))"
        using round(5,6) greater se(2) True by (auto simp: s_def)
      then show ?thesis using up greater less.prems(3) True mn
        by (intro exI [of _ mid]) (auto intro: less_imp_le)
    qed
  qed
qed

end
