(* ===== verification/Tsdb_Roll.thy ===== *)
theory Tsdb_Roll
  imports Tsdb_Search
begin

text \<open>
  Formatting a sector of the time series database, and changing to the next sector: the sector
  that is left is closed with its logs and its end information, the next one is opened, after
  formatting when it still holds old logs.
\<close>

lemma ts_sector_blank:
  assumes "S + Z \<le> length m" "40 \<le> Z" "\<And>j. S + 40 \<le> j \<Longrightarrow> j < S + Z \<Longrightarrow> m ! j = FDB_BYTE_ERASED"
  shows "ts_sector m S Z []"
  using assms by (simp add: ts_sector_def)

definition ts_formatted :: "bytes \<Rightarrow> nat \<Rightarrow> nat \<Rightarrow> bytes" where
  "ts_formatted m S Z =
     splice (splice (splice m S (replicate Z FDB_BYTE_ERASED)) S
       [drop_bit (store_num FDB_SECTOR_STORE_EMPTY) 0xFF]) (S + 4) (le32 TS_SECTOR_MAGIC_WORD)"

lemma ts_formatted_props:
  assumes "S + Z \<le> length m" "40 \<le> Z"
  shows "length (ts_formatted m S Z) = length m"
    and "ts_hdr (ts_formatted m S Z) S FDB_SECTOR_STORE_EMPTY"
    and "ts_sector (ts_formatted m S Z) S Z []"
    and "j < length m \<Longrightarrow> j < S \<or> S + Z \<le> j \<Longrightarrow> ts_formatted m S Z ! j = m ! j"
proof -
  show l: "length (ts_formatted m S Z) = length m" using assms by (simp add: ts_formatted_def)
  let ?e = "splice m S (replicate Z FDB_BYTE_ERASED)"
  have er: "slice (S + k) 1 ?e = [0xFF]" if "k < Z" for k
  proof -
    have "slice (S + k) 1 ?e = slice k 1 (replicate Z FDB_BYTE_ERASED)"
      using that assms by (subst slice_splice_inside) auto
    then show ?thesis using that by (simp add: slice_def FDB_BYTE_ERASED_def take_Suc)
  qed
  show "ts_hdr (ts_formatted m S Z) S FDB_SECTOR_STORE_EMPTY"
    using assms er [of 20] er [of 32]
    by (simp add: ts_hdr_def ts_formatted_def slice_splice_same slice_splice_disj of_le32_le32 u32_id
        TS_SECTOR_MAGIC_WORD_def)
  show "ts_sector (ts_formatted m S Z) S Z []"
    using assms l by (intro ts_sector_blank) (auto simp: ts_formatted_def nth_splice)
  show "j < length m \<Longrightarrow> j < S \<or> S + Z \<le> j \<Longrightarrow> ts_formatted m S Z ! j = m ! j"
    using assms by (auto simp: ts_formatted_def nth_splice)
qed

lemma ts_format_ok:
  assumes "ts_ok db" "S + tsdb_sec_size db \<le> length (ts_img db)" "40 \<le> tsdb_sec_size db"
    and "S mod tsdb_sec_size db = 0"
  shows "ts_format_sector db S = Some (FDB_NO_ERR, ts_put (ts_formatted (ts_img db) S (tsdb_sec_size db)) db)"
proof -
  have n: "0 < store_num FDB_SECTOR_STORE_EMPTY" by simp
  have u: "u32 S = S" "u32 (S + 4) = S + 4"
    using assms tsf.img_bound [OF assms(1)] by (auto intro!: u32_id)
  show ?thesis using assms
    by (simp add: ts_format_sector_def tsf.er_in ts_write_status_1 [OF n] u tsf.wr_in tsf.ok_put
        tsf.img_put tsf.put_put TS_SECTOR_MAGIC_OFFSET_def ts_formatted_def del: store_num.simps)
qed

subsection \<open>Closing a sector\<close>

definition ts_closed :: "bytes \<Rightarrow> nat \<Rightarrow> int \<Rightarrow> nat \<Rightarrow> bytes" where
  "ts_closed m S t end_index =
     splice (splice (splice (splice (splice m (S + 20) [drop_bit (tsl_status_num FDB_TSL_PRE_WRITE) 0xFF])
       (S + 12) (le32 (u32_of_int t))) (S + 16) (le32 end_index))
       (S + 20) [drop_bit (tsl_status_num FDB_TSL_WRITE) 0xFF])
       S [drop_bit (store_num FDB_SECTOR_STORE_FULL) 0xFF]"

lemma ts_closed_props:
  assumes "S + 40 \<le> length m"
  shows "length (ts_closed m S t i) = length m"
    and "j < length m \<Longrightarrow> j < S \<or> S + 40 \<le> j \<Longrightarrow> ts_closed m S t i ! j = m ! j"
    and "slice S 1 (ts_closed m S t i) = [drop_bit (store_num FDB_SECTOR_STORE_FULL) 0xFF]"
    and "slice (S + 4) 4 (ts_closed m S t i) = slice (S + 4) 4 m"
    and "slice (S + 20) 1 (ts_closed m S t i) = [drop_bit (tsl_status_num FDB_TSL_WRITE) 0xFF]"
    and "slice (S + 12) 4 (ts_closed m S t i) = le32 (u32_of_int t)"
    and "slice (S + 16) 4 (ts_closed m S t i) = le32 i"
  using assms
  by (auto simp: ts_closed_def nth_splice slice_splice_same slice_splice_disj
      simp del: store_num.simps tsl_status_num.simps)

lemma last_log_time:
  assumes "ts_holds m i d ls" "ls \<noteq> []"
  shows "- 2147483648 \<le> fst (snd (last ls)) \<and> fst (snd (last ls)) < 2147483648"
proof -
  obtain l where l: "ls = butlast ls @ [l]" "last ls = l" using assms(2) by (metis append_butlast_last_id)
  obtain st t bs where p: "l = (st, t, bs)" by (cases l)
  have "ts_holds m i d (butlast ls @ [l])" using assms(1) l(1) by simp
  then have "s32 (int (of_le32 (slice (i + 16 * length (butlast ls) + 4) 4 m))) = t"
    by (simp add: ts_holds_append p log_at_def)
  then have "- 2147483648 \<le> t \<and> t < 2147483648" using s32_range by metis
  then show ?thesis by (simp add: l(2) p)
qed

lemma ts_closed_full:
  assumes rep: "ts_rep db ls" and ls: "ls \<noteq> []"
  defines "S \<equiv> tsec_addr (ts_cur_sec db)"
  shows "ts_full (ts_closed (ts_img db) S (ts_last_time db) (S + 40 + 16 * (length ls - 1))) S
    (tsdb_sec_size db) ls"
proof -
  let ?Z = "tsdb_sec_size db" and ?i = "S + 40 + 16 * (length ls - 1)"
  have r: "ts_ok db" "ts_sector (ts_img db) S ?Z ls" "ts_last_time db = fst (snd (last ls))"
    "of_le32 (slice (S + 4) 4 (ts_img db)) = TS_SECTOR_MAGIC_WORD"
    using rep ls by (auto simp: ts_rep_def Let_def S_def ts_hdr_def)
  have e: "logs_end (S + ?Z) ls \<le> S + ?Z" by (rule logs_end_le)
  have s: "S + ?Z \<le> length (ts_img db)" "S + 40 + 16 * length ls \<le> logs_end (S + ?Z) ls"
    "ts_holds (ts_img db) (S + 40) (S + ?Z) ls"
    using r(2) by (auto simp: ts_sector_def)
  have l: "S + 40 \<le> length (ts_img db)" using s e by linarith
  note p = ts_closed_props [OF l]
  have "ts_holds (ts_closed (ts_img db) S (ts_last_time db) ?i) (S + 40) (S + ?Z) ls"
  proof (rule ts_holds_cong [OF s(3)])
    fix j
    assume "S + 40 \<le> j \<and> j < S + 40 + 16 * length ls \<or> logs_end (S + ?Z) ls \<le> j \<and> j < S + ?Z"
    then have "S + 40 \<le> j" "j < length (ts_img db)" using s e by linarith+
    then show "ts_img db ! j = ts_closed (ts_img db) S (ts_last_time db) ?i ! j"
      by (simp add: p)
  qed (use s e p in auto)
  moreover have "?i < 4294967296" using s e tsf.img_bound [OF r(1)] by linarith
  moreover have "- 2147483648 \<le> ts_last_time db" "ts_last_time db < 2147483648"
    using last_log_time [OF s(3) ls] r(3) by auto
  ultimately show ?thesis using ls s p r(3,4)
    by (simp add: ts_full_def of_le32_le32 u32_id s32_u32_of_int s32_id)
qed

lemma ts_hdr_cur_stat0:
  assumes "ts_rep db ls"
  shows "slice (tsec_addr (ts_cur_sec db) + 20) 1 (ts_img db) = [0xFF]"
  using assms by (simp add: ts_rep_def Let_def ts_hdr_def)


lemma write_end_info_ok:
  assumes "ts_ok db" "S + 40 \<le> length (ts_img db)"
  shows "write_end_info db S i SECTOR_END0_STATUS_OFFSET SECTOR_END0_TIME_OFFSET SECTOR_END0_IDX_OFFSET
    = Some (FDB_NO_ERR, ts_put (splice (splice (splice (splice (ts_img db) (S + 20)
        [drop_bit (tsl_status_num FDB_TSL_PRE_WRITE) 0xFF]) (S + 12) (le32 (u32_of_int (ts_last_time db))))
        (S + 16) (le32 i)) (S + 20) [drop_bit (tsl_status_num FDB_TSL_WRITE) 0xFF]) db)"
proof -
  have u: "u32 (S + 20) = S + 20" "u32 (S + 12) = S + 12" "u32 (S + 16) = S + 16"
    using assms tsf.img_bound [OF assms(1)] by (auto intro!: u32_id)
  have n: "0 < tsl_status_num FDB_TSL_PRE_WRITE" "0 < tsl_status_num FDB_TSL_WRITE" by simp_all
  show ?thesis using assms
    by (simp add: write_end_info_def u ts_write_status_1 [OF n(1)] ts_write_status_1 [OF n(2)] tsf.wr_in
        tsf.ok_put tsf.img_put tsf.put_put SECTOR_END0_STATUS_OFFSET_def SECTOR_END0_TIME_OFFSET_def
        SECTOR_END0_IDX_OFFSET_def del: tsl_status_num.simps)
qed

text \<open>An append that does not fit closes the current sector, and then needs the next one.\<close>

lemma ts_close_step:
  assumes rep: "ts_rep db ls" "ls \<noteq> []" and full: "tsec_remain (ts_cur_sec db) < 16 + n" "n < 2147483648"
    and geom: "ts_geom db" "tsec_addr (ts_cur_sec db) + tsdb_sec_size db \<le> tsdb_max_size db"
  defines "S \<equiv> tsec_addr (ts_cur_sec db)"
  defines "m \<equiv> ts_closed (ts_img db) S (ts_last_time db) (S + 40 + 16 * (length ls - 1))"
  defines "db1 \<equiv> (ts_put m db)\<lparr>ts_cur_sec := (ts_cur_sec db)\<lparr>tsec_status := FDB_SECTOR_STORE_FULL\<rparr>\<rparr>"
  shows "ts_update_sec_status db n t
    = (if S + tsdb_sec_size db < tsdb_max_size db \<or> ts_rollover db
       then do {
         db \<leftarrow> ts_next_sector db1 (if S + tsdb_sec_size db < tsdb_max_size db then S + tsdb_sec_size db else 0);
         ts_open_sector db t
       }
       else Some (FDB_SAVED_FULL, db1))"
    and "ts_same db db1" "ts_ok db1" "ts_img db1 = m" "tsdb_oldest_addr db1 = tsdb_oldest_addr db"
proof -
  have r: "ts_ok db" "ts_sector (ts_img db) S (tsdb_sec_size db) ls"
    "tsec_status (ts_cur_sec db) = FDB_SECTOR_STORE_USING" "tsec_end_stat0 (ts_cur_sec db) = FDB_TSL_UNUSED"
    "tsec_empty_idx (ts_cur_sec db) = S + 40 + 16 * length ls"
    using rep by (auto simp: ts_rep_def Let_def S_def)
  have l: "S + tsdb_sec_size db \<le> length (ts_img db)" "S + 40 + 16 * length ls \<le> length (ts_img db)"
    using r(2) logs_end_le [of "S + tsdb_sec_size db" ls] by (auto simp: ts_sector_def)
  then have l40: "S + 40 \<le> length (ts_img db)" by simp
  note b = tsf.img_bound [OF r(1)]
  have lm: "length m = length (ts_img db)" unfolding m_def by (rule ts_closed_props(1) [OF l40])
  have bd: "S < 4294967296" "S + tsdb_sec_size db < 4294967296" "16 + n < 4294967296"
    "S + 40 + 16 * length ls < 4294967296" using l b full(2) by linarith+
  have e1: "16 \<le> S + 40 + 16 * length ls" "length ls = Suc (length ls - 1)"
    using rep(2) by (auto simp: Suc_leI)
  have "S + 40 + 16 * length ls - 16 = S + 40 + 16 * (length ls - 1)" using e1(2) by arith
  then have u: "u32 S = S" "u32 (S + tsdb_sec_size db) = S + tsdb_sec_size db" "u32 (16 + n) = 16 + n"
    "u32_sub (S + 40 + 16 * length ls) 16 = S + 40 + 16 * (length ls - 1)" "u32 n = n"
    using bd u32_sub_id [OF e1(1) bd(4)] by (auto intro!: u32_id)
  have n: "0 < store_num FDB_SECTOR_STORE_FULL" by simp
  show "ts_update_sec_status db n t
    = (if S + tsdb_sec_size db < tsdb_max_size db \<or> ts_rollover db
       then do {
         db \<leftarrow> ts_next_sector db1 (if S + tsdb_sec_size db < tsdb_max_size db then S + tsdb_sec_size db else 0);
         ts_open_sector db t
       }
       else Some (FDB_SAVED_FULL, db1))"
    using r full l40 write_end_info_ok [OF r(1) l40]
    by (auto simp: ts_update_sec_status_def Let_def S_def [symmetric] u LOG_IDX_DATA_SIZE_def
        ts_write_status_1 [OF n] tsf.wr_in tsf.ok_put tsf.img_put tsf.put_put ts_put_fields db1_def m_def
        ts_closed_def simp del: tsl_status_num.simps store_num.simps)
  show "ts_same db db1" "ts_ok db1" "ts_img db1 = m" "tsdb_oldest_addr db1 = tsdb_oldest_addr db"
    using r(1) lm unfolding db1_def
    by (auto intro: ts_same_trans [OF ts_same_put ts_same_cur] simp: tsf.ok_put tsf.img_put ts_put_fields)
qed

subsection \<open>Opening the next sector\<close>

lemma ts_img_oldest [simp]:
  "ts_img (db\<lparr>ts_parent := (ts_parent db)\<lparr>db_oldest_addr := a\<rparr>\<rparr>) = ts_img db"
  "ts_ok (db\<lparr>ts_parent := (ts_parent db)\<lparr>db_oldest_addr := a\<rparr>\<rparr>) = ts_ok db"
  by (simp_all add: ts_img_def ts_ok_def flash_ok_def db_img_def fdb_flash_read_def db_flash_len_def)

text \<open>A sector that was just read and is empty is a current sector without logs.\<close>

lemma read_empty_rep:
  assumes "ts_ok db" "ts_hdr (ts_img db) S FDB_SECTOR_STORE_EMPTY"
    "ts_sector (ts_img db) S (tsdb_sec_size db) []"
  shows "\<exists>sec'. ts_read_sector_info db S sec trav = Some (FDB_NO_ERR, sec') \<and> tsec_check_ok sec'
    \<and> tsec_addr sec' = S \<and> tsec_status sec' = FDB_SECTOR_STORE_EMPTY
    \<and> tsec_remain sec' = tsdb_sec_size db - 40 \<and> ts_rep (db\<lparr>ts_cur_sec := sec'\<rparr>) []"
proof -
  have l: "S + tsdb_sec_size db \<le> length (ts_img db)" "40 \<le> tsdb_sec_size db"
    using assms(3) by (auto simp: ts_sector_def)
  note b = tsf.img_bound [OF assms(1)]
  have u: "u32 (S + tsdb_sec_size db) = S + tsdb_sec_size db"
    "u32_sub (S + tsdb_sec_size db) (S + 40) = tsdb_sec_size db - 40"
    using l b u32_sub_id [of "S + 40" "S + tsdb_sec_size db"] by (auto intro: u32_id)
  have l40: "S + 40 \<le> length (ts_img db)" using l by simp
  show ?thesis
    using read_hdr [OF assms(1) l40 assms(2), of sec trav] assms l
    by (auto simp: u ts_rep_def Let_def)
qed

lemma ts_next_sector_ok:
  assumes ok: "ts_ok db" and l: "S + tsdb_sec_size db \<le> length (ts_img db)" "40 \<le> tsdb_sec_size db"
    and z: "S mod tsdb_sec_size db = 0"
    and h: "ts_hdr (ts_img db) S FDB_SECTOR_STORE_EMPTY \<and> ts_sector (ts_img db) S (tsdb_sec_size db) []
      \<or> ts_full (ts_img db) S (tsdb_sec_size db) old"
  shows "\<exists>db'. ts_next_sector db S = Some db' \<and> ts_rep db' [] \<and> tsec_addr (ts_cur_sec db') = S
    \<and> tsec_status (ts_cur_sec db') = FDB_SECTOR_STORE_EMPTY
    \<and> tsec_remain (ts_cur_sec db') = tsdb_sec_size db - 40 \<and> ts_same db db'
    \<and> (\<forall>j<length (ts_img db). j < S \<or> S + tsdb_sec_size db \<le> j \<longrightarrow> ts_img db' ! j = ts_img db ! j)
    \<and> tsdb_oldest_addr db' =
        (if ts_full (ts_img db) S (tsdb_sec_size db) old
         then if S + tsdb_sec_size db < tsdb_max_size db then S + tsdb_sec_size db else 0
         else tsdb_oldest_addr db)"
proof (cases "ts_full (ts_img db) S (tsdb_sec_size db) old")
  case False
  then have "ts_hdr (ts_img db) S FDB_SECTOR_STORE_EMPTY" "ts_sector (ts_img db) S (tsdb_sec_size db) []"
    using h by auto
  from read_empty_rep [OF ok this, of "ts_cur_sec db" False] False show ?thesis
    by (auto simp: ts_next_sector_def)
next
  case True
  from read_full [OF ok True, of "ts_cur_sec db" False] obtain sec1 where
    r1: "ts_read_sector_info db S (ts_cur_sec db) False = Some (FDB_NO_ERR, sec1)"
      "tsec_status sec1 = FDB_SECTOR_STORE_FULL" by auto
  have u: "u32 (S + tsdb_sec_size db) = S + tsdb_sec_size db"
    using l tsf.img_bound [OF ok] by (auto intro: u32_id)
  let ?a = "if S + tsdb_sec_size db < tsdb_max_size db then S + tsdb_sec_size db else 0"
  define db1 where "db1 = db\<lparr>ts_cur_sec := sec1, ts_parent := (ts_parent db)\<lparr>db_oldest_addr := ?a\<rparr>\<rparr>"
  have d1: "ts_ok db1" "ts_img db1 = ts_img db" "tsdb_sec_size db1 = tsdb_sec_size db"
    "tsdb_oldest_addr db1 = ?a" "ts_cur_sec db1 = sec1" "ts_same db db1"
    using ok ts_img_oldest [of ?a "db\<lparr>ts_cur_sec := sec1\<rparr>"]
    by (auto simp: db1_def ts_same_def stk_def)
  define db2 where "db2 = ts_put (ts_formatted (ts_img db) S (tsdb_sec_size db)) db1"
  note f = ts_formatted_props [OF l]
  have f1: "ts_format_sector db1 S = Some (FDB_NO_ERR, db2)"
    using ts_format_ok [OF d1(1), of S] d1 l z by (simp add: db2_def)
  have d2: "ts_ok db2" "ts_img db2 = ts_formatted (ts_img db) S (tsdb_sec_size db)"
    "tsdb_sec_size db2 = tsdb_sec_size db" "tsdb_oldest_addr db2 = ?a" "ts_same db db2"
    "ts_cur_sec db2 = sec1"
    using d1 f(1) ts_same_trans [OF d1(6) ts_same_put [OF d1(1)]]
    by (auto simp: db2_def tsf.ok_put tsf.img_put ts_put_fields simp del: f(1))
  from read_empty_rep [OF d2(1), of S sec1 False] f(2,3) obtain sec2 where
    r2: "ts_read_sector_info db2 S sec1 False = Some (FDB_NO_ERR, sec2)" "tsec_addr sec2 = S"
      "tsec_status sec2 = FDB_SECTOR_STORE_EMPTY" "tsec_remain sec2 = tsdb_sec_size db - 40"
      "ts_rep (db2\<lparr>ts_cur_sec := sec2\<rparr>) []"
    by (auto simp: d2)
  have "ts_next_sector db S = Some (db2\<lparr>ts_cur_sec := sec2\<rparr>)"
    using r1 f1 r2(1) d2(6) by (simp add: ts_next_sector_def Let_def u db1_def)
  then show ?thesis using True r2 d2 f(4) ts_same_trans [OF d2(5) ts_same_cur]
    by auto
qed

text \<open>What a sector holds depends on its own bytes only.\<close>

lemma ts_region_cong:
  assumes "40 \<le> Z" "S + Z \<le> length m" "length m' = length m" "\<And>j. S \<le> j \<Longrightarrow> j < S + Z \<Longrightarrow> m ! j = m' ! j"
  shows "ts_hdr m S st = ts_hdr m' S st" "ts_sector m S Z ls = ts_sector m' S Z ls"
    "ts_full m S Z ls = ts_full m' S Z ls"
proof -
  have sl: "slice (S + k) n m = slice (S + k) n m'" if "k + n \<le> 40" for k n
    using assms that by (intro slice_eqI) auto
  from this [of 0 1] this [of 4 4] this [of 20 1] this [of 32 1]
  show "ts_hdr m S st = ts_hdr m' S st" by (simp add: ts_hdr_def)
  show "ts_sector m S Z ls = ts_sector m' S Z ls"
    using ts_sector_outside [of m S Z ls m'] ts_sector_outside [of m' S Z ls m] assms by auto
  have e: "logs_end (S + Z) ls \<le> S + Z" by (rule logs_end_le)
  have h: "ts_holds a (S + 40) (S + Z) ls \<Longrightarrow> ts_holds b (S + 40) (S + Z) ls"
    if "length a = length m" "length b = length m" "S + 40 + 16 * length ls \<le> logs_end (S + Z) ls"
      "\<And>j. S \<le> j \<Longrightarrow> j < S + Z \<Longrightarrow> a ! j = b ! j" for a b
  proof (erule ts_holds_cong)
    show "S + Z \<le> length a" "S + 40 + 16 * length ls \<le> length a" "length b = length a"
      using that assms(2) e by linarith+
    fix j
    assume "S + 40 \<le> j \<and> j < S + 40 + 16 * length ls \<or> logs_end (S + Z) ls \<le> j \<and> j < S + Z"
    then have "S \<le> j" "j < S + Z" using e that(3) by linarith+
    then show "a ! j = b ! j" by (rule that(4))
  qed
  show "ts_full m S Z ls = ts_full m' S Z ls"
    using sl [of 0 1] sl [of 4 4] sl [of 20 1] sl [of 12 4] sl [of 16 4] h [of m m'] h [of m' m] assms
    by (auto simp: ts_full_def simp del: store_num.simps tsl_status_num.simps)
qed

lemma ts_only_outside:
  "ts_only db db' \<Longrightarrow> j < length (ts_img db) \<Longrightarrow>
     j < tsec_addr (ts_cur_sec db) \<or> tsec_addr (ts_cur_sec db) + tsdb_sec_size db \<le> j \<Longrightarrow>
     ts_img db' ! j = ts_img db ! j"
  unfolding ts_only_def by blast

text \<open>
  Changing the sector: the one that is left keeps its logs and is closed, the next one holds the
  new log only, and every other sector is as before.
\<close>

lemma tsl_append_roll:
  assumes rep: "ts_rep db ls" "ls \<noteq> []" and buf: "blob_buf blob = Some buf" "blob_size blob \<le> length buf"
    and full: "tsec_remain (ts_cur_sec db) < 16 + blob_size blob"
    and fits: "56 + blob_size blob \<le> tsdb_sec_size db" and max: "blob_size blob \<le> ts_max_len db"
    and t: "ts_last_time db < t" "- 2147483648 \<le> t" "t < 2147483648"
    and stamp: "(case stamp of None \<Rightarrow> now | Some u \<Rightarrow> u) = t"
    and geom: "ts_geom db" "tsdb_max_size db \<le> length (ts_img db)"
    and k: "tsec_addr (ts_cur_sec db) = k * tsdb_sec_size db" "k < ts_count db" "1 < ts_count db"
    and roll: "Suc k < ts_count db \<or> ts_rollover db"
  defines "S' \<equiv> ring_up (ts_count db) k * tsdb_sec_size db"
  assumes h: "ts_hdr (ts_img db) S' FDB_SECTOR_STORE_EMPTY \<and> ts_sector (ts_img db) S' (tsdb_sec_size db) []
      \<or> ts_full (ts_img db) S' (tsdb_sec_size db) old"
  shows "\<exists>db'. tsl_append db blob stamp now = Some (FDB_NO_ERR, db')
    \<and> ts_rep db' [(FDB_TSL_WRITE, t, take (blob_size blob) buf)]
    \<and> tsec_addr (ts_cur_sec db') = S' \<and> ts_last_time db' = t
    \<and> ts_full (ts_img db') (k * tsdb_sec_size db) (tsdb_sec_size db) ls
    \<and> (\<forall>j<length (ts_img db). (\<forall>s\<in>{k * tsdb_sec_size db, S'}. j < s \<or> s + tsdb_sec_size db \<le> j)
          \<longrightarrow> ts_img db' ! j = ts_img db ! j)
    \<and> ts_same db (db'\<lparr>ts_last_time := ts_last_time db\<rparr>)
    \<and> tsdb_oldest_addr db' =
        (if ts_full (ts_img db) S' (tsdb_sec_size db) old
         then ring_up (ts_count db) (ring_up (ts_count db) k) * tsdb_sec_size db
         else tsdb_oldest_addr db)"
proof -
  let ?Z = "tsdb_sec_size db" and ?N = "ts_count db"
  define S where "S = k * ?Z"
  note g = geom_facts [of ?Z "tsdb_max_size db" k k]
  have r: "ts_ok db" "ts_sector (ts_img db) S ?Z ls" using rep k(1) by (auto simp: ts_rep_def Let_def S_def)
  have z: "0 < ?Z" "?Z dvd tsdb_max_size db" "tsdb_max_size db < 2147483648"
    using geom(1) by (auto simp: ts_geom_def)
  have sz: "S + ?Z \<le> tsdb_max_size db" "S + ?Z < tsdb_max_size db \<longleftrightarrow> Suc k < ?N"
    using g z k(2) by (auto simp: S_def ts_count_def)
  have k': "ring_up ?N k < ?N" "ring_up ?N k \<noteq> k" using k(2,3) by (auto simp: ring_up_def)
  have s': "S' + ?Z \<le> tsdb_max_size db"
    using geom_facts(1) [of ?Z "tsdb_max_size db" "ring_up ?N k" k] z k'(1) k(2)
    by (simp add: S'_def ts_count_def)
  have dj: "S + ?Z \<le> S' \<or> S' + ?Z \<le> S"
    using k'(2) mult_le_mono1 [of "Suc k" "ring_up ?N k" ?Z] mult_le_mono1 [of "Suc (ring_up ?N k)" k ?Z]
    by (simp add: S_def S'_def) linarith
  have nx: "(if S + ?Z < tsdb_max_size db then S + ?Z else 0) = S'"
    using sz(2) k(2) by (auto simp: S'_def S_def ring_up_def)
  have n: "blob_size blob < 2147483648" using fits s' z(3) by linarith
  define m where "m = ts_closed (ts_img db) S (ts_last_time db) (S + 40 + 16 * (length ls - 1))"
  define db1 where "db1 = (ts_put m db)\<lparr>ts_cur_sec := (ts_cur_sec db)\<lparr>tsec_status := FDB_SECTOR_STORE_FULL\<rparr>\<rparr>"
  have l: "S + 40 \<le> length (ts_img db)" using sz(1) geom(2) fits by linarith
  note cp = ts_closed_props [OF l, where t = "ts_last_time db" and i = "S + 40 + 16 * (length ls - 1)", folded m_def]
  have c: "ts_update_sec_status db (blob_size blob) t
      = (ts_next_sector db1 S' \<bind> (\<lambda>db. ts_open_sector db t))"
    "ts_same db db1" "ts_ok db1" "ts_img db1 = m" "tsdb_oldest_addr db1 = tsdb_oldest_addr db"
    using ts_close_step(1) [OF rep full n geom(1), of t] ts_close_step(2-) [OF rep full n geom(1)] sz roll nx
    by (auto simp: k(1) S_def [symmetric] m_def db1_def)
  have fl: "ts_full m S ?Z ls" using ts_closed_full [OF rep] k(1) by (simp add: m_def S_def)
  have same1: "tsdb_sec_size db1 = ?Z" "length (ts_img db1) = length (ts_img db)"
    "tsdb_max_size db1 = tsdb_max_size db"
    using c(2) by (auto simp: ts_same_def)
  have out: "m ! j = ts_img db ! j" if "j < length (ts_img db)" "j < S \<or> S + 40 \<le> j" for j
    using cp(2) that by blast
  have h1: "(ts_hdr m S' FDB_SECTOR_STORE_EMPTY \<and> ts_sector m S' ?Z [] \<or> ts_full m S' ?Z old)
    \<and> ts_full m S' ?Z old = ts_full (ts_img db) S' ?Z old"
  proof -
    have "ts_img db ! j = m ! j" if "S' \<le> j" "j < S' + ?Z" for j
      using that dj s' geom(2) fits by (intro out [symmetric]) linarith+
    moreover have "40 \<le> ?Z" "S' + ?Z \<le> length (ts_img db)" using fits s' geom(2) by linarith+
    ultimately show ?thesis using h ts_region_cong [of ?Z S' "ts_img db" m] cp(1) by simp
  qed
  from ts_next_sector_ok [OF c(3), of S' old] obtain db2 where
    n2: "ts_next_sector db1 S' = Some db2" "ts_rep db2 []" "tsec_addr (ts_cur_sec db2) = S'"
      "tsec_status (ts_cur_sec db2) = FDB_SECTOR_STORE_EMPTY" "tsec_remain (ts_cur_sec db2) = ?Z - 40"
      "ts_same db1 db2"
      "\<forall>j<length (ts_img db). j < S' \<or> S' + ?Z \<le> j \<longrightarrow> ts_img db2 ! j = m ! j"
      "tsdb_oldest_addr db2 = (if ts_full (ts_img db) S' ?Z old
         then if S' + ?Z < tsdb_max_size db then S' + ?Z else 0 else tsdb_oldest_addr db)"
    using h1 s' geom(2) fits same1 c(4,5) by (auto simp: S'_def)
  from ts_open_sector_rep [OF n2(2), of t] obtain db3 where
    o3: "ts_open_sector db2 t = Some (FDB_NO_ERR, db3)" "ts_rep db3 []" "ts_same db2 db3"
      "ts_only db2 db3" "tsec_status (ts_cur_sec db3) = FDB_SECTOR_STORE_USING"
      "tsec_remain (ts_cur_sec db3) = tsec_remain (ts_cur_sec db2)" by blast
  have up: "ts_update_sec_status db (blob_size blob) t = Some (FDB_NO_ERR, db3)"
    using c(1) n2(1) o3(1) by simp
  have room: "16 + blob_size blob \<le> tsec_remain (ts_cur_sec db3)" using o3(6) n2(5) fits by simp
  from tsl_append_after [OF up o3(2,5) buf room max t stamp] obtain db' where
    a: "tsl_append db blob stamp now = Some (FDB_NO_ERR, db')"
      "ts_rep db' ([] @ [(FDB_TSL_WRITE, t, take (blob_size blob) buf)])"
      "ts_same db3 (db'\<lparr>ts_last_time := ts_last_time db3\<rparr>)" "ts_last_time db' = t" "ts_only db3 db'"
    by blast
  have same: "ts_same db db3" using c(2) n2(6) o3(3) ts_same_trans by blast
  have i3: "ts_img db' ! j = m ! j" if "j < length (ts_img db)" "j < S' \<or> S' + ?Z \<le> j" for j
  proof -
    have e: "length (ts_img db2) = length (ts_img db)" "length (ts_img db3) = length (ts_img db)"
      "tsdb_sec_size db2 = ?Z" "tsdb_sec_size db3 = ?Z" "tsec_addr (ts_cur_sec db3) = S'"
      using n2(3,6) o3(3,4) same1 by (simp_all add: ts_only_def ts_same_def)
    have "ts_img db' ! j = ts_img db3 ! j" "ts_img db3 ! j = ts_img db2 ! j"
      using ts_only_outside [OF a(5), of j] ts_only_outside [OF o3(4), of j] that n2(3) by (simp_all add: e)
    then show ?thesis using n2(7) that by simp
  qed
  have len: "length (ts_img db') = length m"
    using a(3) same cp(1) by (simp add: ts_same_def ts_img_def)
  have "ts_full (ts_img db') S ?Z ls"
  proof -
    have "m ! j = ts_img db' ! j" if "S \<le> j" "j < S + ?Z" for j
      using that dj sz(1) geom(2) by (intro i3 [symmetric]) linarith+
    moreover have "40 \<le> ?Z" "S + ?Z \<le> length m" using fits sz(1) geom(2) cp(1) by linarith+
    ultimately show ?thesis using fl ts_region_cong(3) [of ?Z S m "ts_img db'"] len by simp
  qed
  moreover have "\<forall>j<length (ts_img db). (\<forall>s\<in>{S, S'}. j < s \<or> s + ?Z \<le> j) \<longrightarrow> ts_img db' ! j = ts_img db ! j"
    using i3 out fits by auto
  moreover have "tsec_addr (ts_cur_sec db') = S'"
    using a(5) o3(4) n2(3) by (simp add: ts_only_def)
  moreover have "ts_same db (db'\<lparr>ts_last_time := ts_last_time db\<rparr>)"
    using same a(3) by (simp add: ts_same_def ts_img_def)
  moreover have "(if S' + ?Z < tsdb_max_size db then S' + ?Z else 0) = ring_up ?N (ring_up ?N k) * ?Z"
    using geom_facts(6) [of ?Z "tsdb_max_size db" "ring_up ?N k" k] z k'(1) k(2)
    by (auto simp: S'_def ring_up_def ts_count_def add.commute)
  then have "tsdb_oldest_addr db' = (if ts_full (ts_img db) S' ?Z old then ring_up ?N (ring_up ?N k) * ?Z
      else tsdb_oldest_addr db)"
    using a(5) o3(4) n2(8) by (simp add: ts_only_def)
  ultimately show ?thesis using a by (auto simp: S_def)
qed

end
