(* ===== verification/Tsdb_Hist.thy ===== *)
theory Tsdb_Hist
  imports Tsdb_Roll
begin

text \<open>
  The time series database as a history of logs. The abstract state is the number of the oldest
  sector and the logs of the sectors from there to the current one; appending adds a log to the
  current sector, opens the next sector, or drops the logs of the oldest sector when all sectors
  are used. \<open>ts_state\<close> relates the database to this state, \<open>tsl_append\<close> implements the abstract
  append, and the iterators visit the logs of the history in order.
\<close>

type_synonym ts_hist = "nat \<times> ts_log list list"

abbreviation hist_logs :: "ts_hist \<Rightarrow> ts_log list" where
  "hist_logs h \<equiv> concat (snd h)"

definition hist_append :: "nat \<Rightarrow> bool \<Rightarrow> ts_hist \<Rightarrow> ts_log \<Rightarrow> ts_hist" where
  "hist_append N fits h log =
     (case h of (k0, secs) \<Rightarrow>
        if fits then (k0, butlast secs @ [last secs @ [log]])
        else if length secs < N then (k0, secs @ [[log]])
        else ((k0 + 1) mod N, tl secs @ [[log]]))"

text \<open>The logs after an append: the new one last, and those of the oldest sector dropped if needed.\<close>

lemma hist_append_logs:
  assumes "secs \<noteq> []"
  shows "hist_logs (hist_append N fits (k0, secs) log)
    = drop (if fits \<or> length secs < N then 0 else length (hd secs)) (concat secs) @ [log]"
proof -
  have l: "concat (butlast secs) @ last secs = concat secs"
    using assms by (metis append_butlast_last_id concat.simps concat_append append_Nil2)
  have h: "concat secs = hd secs @ concat (tl secs)" using assms by (metis concat.simps(2) list.collapse)
  show ?thesis using l h by (simp add: hist_append_def)
qed

definition sec_no :: "nat \<Rightarrow> nat \<Rightarrow> nat \<Rightarrow> nat" where
  "sec_no N k0 q = (k0 + q) mod N"

definition ts_state :: "fdb_tsdb \<Rightarrow> ts_hist \<Rightarrow> bool" where
  "ts_state db h \<longleftrightarrow>
     (let N = ts_count db; Z = tsdb_sec_size db; m = ts_img db; k0 = fst h; secs = snd h in
      ts_ok db \<and> ts_geom db \<and> 40 < Z \<and> tsdb_max_size db \<le> length m \<and> 1 < N
    \<and> k0 < N \<and> tsdb_oldest_addr db = k0 * Z \<and> secs \<noteq> [] \<and> length secs \<le> N
    \<and> (\<forall>q<length secs - 1. ts_full m (sec_no N k0 q * Z) Z (secs ! q))
    \<and> ts_rep db (last secs) \<and> tsec_addr (ts_cur_sec db) = sec_no N k0 (length secs - 1) * Z
    \<and> (last secs = [] \<longrightarrow> tsec_status (ts_cur_sec db) = FDB_SECTOR_STORE_EMPTY)
    \<and> (\<forall>q. length secs \<le> q \<and> q < N \<longrightarrow> ts_hdr m (sec_no N k0 q * Z) FDB_SECTOR_STORE_EMPTY
          \<and> ts_sector m (sec_no N k0 q * Z) Z []))"

lemma sec_no_less [simp]: "0 < N \<Longrightarrow> sec_no N k0 q < N"
  by (simp add: sec_no_def)

lemma sec_no_0 [simp]: "k0 < N \<Longrightarrow> sec_no N k0 0 = k0"
  by (simp add: sec_no_def)

lemma sec_no_up: "k0 < N \<Longrightarrow> ring_up N (sec_no N k0 q) = sec_no N k0 (Suc q)"
  using ring_up_iter [of k0 N "Suc q"] ring_up_iter [of k0 N q] by (simp add: sec_no_def)

lemma sec_no_eq: "k0 < N \<Longrightarrow> p < N \<Longrightarrow> q < N \<Longrightarrow> sec_no N k0 p = sec_no N k0 q \<longleftrightarrow> p = q"
  by (auto simp: sec_no_def mod_if split: if_splits)

lemma sec_no_shift: "sec_no N (sec_no N k0 a) q = sec_no N k0 (a + q)"
  by (simp add: sec_no_def mod_simps add.assoc)

lemma sec_no_cycle: "k0 < N \<Longrightarrow> sec_no N k0 N = k0"
  by (simp add: sec_no_def)

lemma walk_sec_no: "k0 < N \<Longrightarrow> q < M \<Longrightarrow> ts_up.walk N k0 M ! q = sec_no N k0 q"
  by (simp add: ts_up.walk_def ring_up_iter sec_no_def)

text \<open>Changing some sectors leaves what the others hold.\<close>

lemma sector_frame:
  assumes "k < N" "N * Z \<le> length m" "40 \<le> Z" "length m' = length m" "K \<subseteq> {..<N}" "k \<notin> K"
    and same: "\<forall>j<length m. (\<forall>s\<in>K. j < s * Z \<or> s * Z + Z \<le> j) \<longrightarrow> m' ! j = m ! j"
  shows "ts_hdr m' (k * Z) st = ts_hdr m (k * Z) st" "ts_sector m' (k * Z) Z ls = ts_sector m (k * Z) Z ls"
    "ts_full m' (k * Z) Z ls = ts_full m (k * Z) Z ls" "k * Z + Z \<le> length m"
proof -
  have "Suc k * Z \<le> N * Z" using assms(1) by (intro mult_le_mono1) simp
  then show l: "k * Z + Z \<le> length m" using assms(2) by simp
  have "m ! j = m' ! j" if "k * Z \<le> j" "j < k * Z + Z" for j
  proof -
    have "j < s * Z \<or> s * Z + Z \<le> j" if "s \<in> K" for s
    proof (cases "k < s")
      case True
      then have "Suc k * Z \<le> s * Z" by (intro mult_le_mono1) simp
      then show ?thesis using \<open>j < k * Z + Z\<close> by simp
    next
      case False
      then have "Suc s \<le> k" using assms(6) that by (metis Suc_leI linorder_neqE_nat)
      then have "Suc s * Z \<le> k * Z" by (intro mult_le_mono1)
      then show ?thesis using \<open>k * Z \<le> j\<close> by simp
    qed
    moreover have "j < length m" using that l by simp
    ultimately show ?thesis using same by simp
  qed
  then show "ts_hdr m' (k * Z) st = ts_hdr m (k * Z) st"
    "ts_sector m' (k * Z) Z ls = ts_sector m (k * Z) Z ls"
    "ts_full m' (k * Z) Z ls = ts_full m (k * Z) Z ls"
    using ts_region_cong [OF assms(3) l assms(4)] by auto
qed

lemma hdr_not_full: "ts_hdr m S FDB_SECTOR_STORE_EMPTY \<Longrightarrow> \<not> ts_full m S Z ls"
  by (simp add: ts_hdr_def ts_full_def)

lemma geom_count: "ts_geom db \<Longrightarrow> ts_count db * tsdb_sec_size db = tsdb_max_size db"
  by (simp add: ts_geom_def ts_count_def)

lemma ts_same_geom:
  assumes "ts_same db (db'\<lparr>ts_last_time := x\<rparr>)"
  shows "ts_geom db' = ts_geom db" "ts_count db' = ts_count db" "tsdb_sec_size db' = tsdb_sec_size db"
    "tsdb_max_size db' = tsdb_max_size db" "length (ts_img db') = length (ts_img db)"
  using assms by (auto simp: ts_same_def ts_geom_def ts_count_def ts_img_def)

subsection \<open>Appending\<close>

lemma append_fits_state:
  assumes st: "ts_state db (k0, secs)" and buf: "blob_buf blob = Some buf" "blob_size blob \<le> length buf"
    and room: "16 + blob_size blob \<le> tsec_remain (ts_cur_sec db)" and max: "blob_size blob \<le> ts_max_len db"
    and t: "ts_last_time db < t" "- 2147483648 \<le> t" "t < 2147483648"
    and stamp: "(case stamp of None \<Rightarrow> now | Some u \<Rightarrow> u) = t"
  shows "\<exists>db'. tsl_append db blob stamp now = Some (FDB_NO_ERR, db')
    \<and> ts_state db' (hist_append (ts_count db) True (k0, secs) (FDB_TSL_WRITE, t, take (blob_size blob) buf))
    \<and> ts_same db (db'\<lparr>ts_last_time := ts_last_time db\<rparr>) \<and> ts_last_time db' = t"
proof -
  let ?N = "ts_count db" and ?Z = "tsdb_sec_size db"
  let ?log = "(FDB_TSL_WRITE, t, take (blob_size blob) buf)"
  define p where "p = length secs - 1"
  have s: "ts_rep db (last secs)" "ts_geom db" "40 < ?Z" "tsdb_max_size db \<le> length (ts_img db)" "1 < ?N"
    "k0 < ?N" "secs \<noteq> []" "length secs \<le> ?N" "tsec_addr (ts_cur_sec db) = sec_no ?N k0 p * ?Z"
    "\<forall>q<p. ts_full (ts_img db) (sec_no ?N k0 q * ?Z) ?Z (secs ! q)"
    "\<forall>q. length secs \<le> q \<and> q < ?N \<longrightarrow> ts_hdr (ts_img db) (sec_no ?N k0 q * ?Z) FDB_SECTOR_STORE_EMPTY
        \<and> ts_sector (ts_img db) (sec_no ?N k0 q * ?Z) ?Z []" "tsdb_oldest_addr db = k0 * ?Z"
    using st unfolding ts_state_def Let_def p_def by simp_all
  from tsl_append_rep [OF s(1) buf room max t stamp] obtain db' where
    a: "tsl_append db blob stamp now = Some (FDB_NO_ERR, db')" "ts_rep db' (last secs @ [?log])"
      "ts_same db (db'\<lparr>ts_last_time := ts_last_time db\<rparr>)" "ts_last_time db' = t" "ts_only db db'"
    by blast
  note g = ts_same_geom [OF a(3)]
  have pN: "p < ?N" using s by (auto simp: p_def Suc_le_eq)
  have fr: "ts_hdr (ts_img db') (sec_no ?N k0 q * ?Z) x = ts_hdr (ts_img db) (sec_no ?N k0 q * ?Z) x"
    "ts_sector (ts_img db') (sec_no ?N k0 q * ?Z) ?Z y = ts_sector (ts_img db) (sec_no ?N k0 q * ?Z) ?Z y"
    "ts_full (ts_img db') (sec_no ?N k0 q * ?Z) ?Z y = ts_full (ts_img db) (sec_no ?N k0 q * ?Z) ?Z y"
    if "q < ?N" "q \<noteq> p" for q x y
    using sector_frame [of "sec_no ?N k0 q" ?N ?Z "ts_img db" "ts_img db'" "{sec_no ?N k0 p}"] that s g
      geom_count [OF s(2)] a(5) sec_no_eq [OF s(6) _ pN]
    by (auto simp: ts_only_def)
  have "\<forall>q<p. ts_full (ts_img db') (sec_no ?N k0 q * ?Z) ?Z ((butlast secs @ [last secs @ [?log]]) ! q)"
    using s(10) fr(3) pN by (simp add: nth_append nth_butlast p_def)
  moreover have "\<forall>q. length secs \<le> q \<and> q < ?N \<longrightarrow>
      ts_hdr (ts_img db') (sec_no ?N k0 q * ?Z) FDB_SECTOR_STORE_EMPTY
        \<and> ts_sector (ts_img db') (sec_no ?N k0 q * ?Z) ?Z []"
  proof (intro allI impI)
    fix q
    assume q: "length secs \<le> q \<and> q < ?N"
    then have "q \<noteq> p" using s(7) by (cases secs) (auto simp: p_def)
    then show "ts_hdr (ts_img db') (sec_no ?N k0 q * ?Z) FDB_SECTOR_STORE_EMPTY
        \<and> ts_sector (ts_img db') (sec_no ?N k0 q * ?Z) ?Z []" using s(11) fr(1,2) q by simp
  qed
  moreover have "ts_ok db'" using a(2) by (simp add: ts_rep_def Let_def)
  moreover have "tsdb_oldest_addr db' = k0 * ?Z" "tsec_addr (ts_cur_sec db') = sec_no ?N k0 p * ?Z"
    using a(5) s(9,12) by (auto simp: ts_only_def)
  moreover have "length (butlast secs @ [last secs @ [?log]]) = length secs" "length secs - 1 = p"
    using s(7) by (auto simp: p_def Suc_le_eq)
  ultimately have "ts_state db' (k0, butlast secs @ [last secs @ [?log]])"
    using a(2) s(2-6,8) unfolding ts_state_def Let_def fst_conv snd_conv g by simp
  then show ?thesis using a by (simp add: hist_append_def)
qed


lemma append_roll_state:
  assumes st: "ts_state db (k0, secs)" and buf: "blob_buf blob = Some buf" "blob_size blob \<le> length buf"
    and full: "tsec_remain (ts_cur_sec db) < 16 + blob_size blob"
    and fits: "56 + blob_size blob \<le> tsdb_sec_size db" and max: "blob_size blob \<le> ts_max_len db"
    and t: "ts_last_time db < t" "- 2147483648 \<le> t" "t < 2147483648"
    and stamp: "(case stamp of None \<Rightarrow> now | Some u \<Rightarrow> u) = t" and roll: "ts_rollover db"
  shows "\<exists>db'. tsl_append db blob stamp now = Some (FDB_NO_ERR, db')
    \<and> ts_state db' (hist_append (ts_count db) False (k0, secs) (FDB_TSL_WRITE, t, take (blob_size blob) buf))
    \<and> ts_same db (db'\<lparr>ts_last_time := ts_last_time db\<rparr>) \<and> ts_last_time db' = t"
proof -
  let ?N = "ts_count db" and ?Z = "tsdb_sec_size db"
  let ?log = "(FDB_TSL_WRITE, t, take (blob_size blob) buf)"
  define p where "p = length secs - 1"
  define S where "S = (\<lambda>q. sec_no ?N k0 q * ?Z)"
  define n where "n = length secs"
  have s: "ts_rep db (last secs)" "ts_geom db" "40 < ?Z" "tsdb_max_size db \<le> length (ts_img db)" "1 < ?N"
    "k0 < ?N" "secs \<noteq> []" "n \<le> ?N" "tsec_addr (ts_cur_sec db) = sec_no ?N k0 p * ?Z"
    "\<forall>q<p. ts_full (ts_img db) (S q) ?Z (secs ! q)"
    "\<forall>q. n \<le> q \<and> q < ?N \<longrightarrow> ts_hdr (ts_img db) (S q) FDB_SECTOR_STORE_EMPTY
        \<and> ts_sector (ts_img db) (S q) ?Z []" "tsdb_oldest_addr db = k0 * ?Z"
    "last secs = [] \<longrightarrow> tsec_status (ts_cur_sec db) = FDB_SECTOR_STORE_EMPTY"
    using st unfolding ts_state_def Let_def p_def S_def n_def by simp_all
  have pn: "Suc p = n" using s(7) by (cases secs) (auto simp: p_def n_def)
  then have pN: "p < ?N" using s(8) by simp
  have up: "ring_up ?N (sec_no ?N k0 q) = sec_no ?N k0 (Suc q)" for q by (rule sec_no_up [OF s(6)])
  have ls: "last secs \<noteq> []"
  proof
    assume "last secs = []"
    then have "tsec_remain (ts_cur_sec db) = ?Z - 40" using s(1) by (simp add: ts_rep_def Let_def)
    then show False using full fits by simp
  qed
  have ll: "last secs = secs ! p" using s(7) by (simp add: last_conv_nth p_def)
  define old where "old = (if n < ?N then [] else secs ! 0)"
  have wrap: "S n = k0 * ?Z" "0 < p" if "\<not> n < ?N"
    using that s(5,6,8) pn pN sec_no_cycle [OF s(6)] by (auto simp: S_def)
  have h: "ts_hdr (ts_img db) (S n) FDB_SECTOR_STORE_EMPTY \<and> ts_sector (ts_img db) (S n) ?Z []
      \<or> ts_full (ts_img db) (S n) ?Z old"
    "ts_full (ts_img db) (S n) ?Z old \<longleftrightarrow> \<not> n < ?N"
  proof -
    show "ts_full (ts_img db) (S n) ?Z old \<longleftrightarrow> \<not> n < ?N"
    proof (cases "n < ?N")
      case True
      then show ?thesis using s(11) hdr_not_full by auto
    next
      case False
      then have "S n = S 0" using wrap(1) s(6) by (simp add: S_def)
      then show ?thesis using False s(10) wrap(2) by (simp add: old_def)
    qed
    then show "ts_hdr (ts_img db) (S n) FDB_SECTOR_STORE_EMPTY \<and> ts_sector (ts_img db) (S n) ?Z []
      \<or> ts_full (ts_img db) (S n) ?Z old" using s(11) by auto
  qed
  have kN: "sec_no ?N k0 p < ?N" using s(5) by simp
  have S: "ring_up ?N (sec_no ?N k0 p) = sec_no ?N k0 n" "sec_no ?N k0 p * ?Z = S p"
    "sec_no ?N k0 n * ?Z = S n" "ring_up ?N (sec_no ?N k0 n) * ?Z = S (Suc n)"
    using up [of p] up [of n] pn by (simp_all add: S_def)
  note ar = tsl_append_roll [OF s(1) ls buf full fits max t stamp s(2,4,9) kN s(5), of old, unfolded S]
  from ar [OF disjI2 [OF roll] h(1)] obtain db' where
    a: "tsl_append db blob stamp now = Some (FDB_NO_ERR, db')" "ts_rep db' [?log]"
      "tsec_addr (ts_cur_sec db') = S n" "ts_last_time db' = t"
      "ts_full (ts_img db') (S p) ?Z (last secs)"
      "\<forall>j<length (ts_img db). (\<forall>s\<in>{S p, S n}. j < s \<or> s + ?Z \<le> j) \<longrightarrow> ts_img db' ! j = ts_img db ! j"
      "ts_same db (db'\<lparr>ts_last_time := ts_last_time db\<rparr>)"
      "tsdb_oldest_addr db' = (if n < ?N then k0 * ?Z else S (Suc n))"
    unfolding h(2) s(12) if_not_P by (metis (full_types))
  note g = ts_same_geom [OF a(7)]
  have fr: "ts_hdr (ts_img db') (S q) x = ts_hdr (ts_img db) (S q) x"
    "ts_sector (ts_img db') (S q) ?Z y = ts_sector (ts_img db) (S q) ?Z y"
    "ts_full (ts_img db') (S q) ?Z y = ts_full (ts_img db) (S q) ?Z y"
    if "q < ?N" "q \<noteq> p" "q \<noteq> n" "n < ?N \<or> q \<noteq> 0" for q x y
  proof -
    have "sec_no ?N k0 q \<notin> {sec_no ?N k0 p, sec_no ?N k0 n}"
      using that pn pN s(6,8) sec_no_eq [OF s(6), of q] sec_no_eq [OF s(6) that(1), of 0] sec_no_cycle [OF s(6)]
      by (cases "n < ?N") (auto simp: sec_no_eq)
    then show "ts_hdr (ts_img db') (S q) x = ts_hdr (ts_img db) (S q) x"
      "ts_sector (ts_img db') (S q) ?Z y = ts_sector (ts_img db) (S q) ?Z y"
      "ts_full (ts_img db') (S q) ?Z y = ts_full (ts_img db) (S q) ?Z y"
      using sector_frame [of "sec_no ?N k0 q" ?N ?Z "ts_img db" "ts_img db'" "{sec_no ?N k0 p, sec_no ?N k0 n}"]
        s(3,4,5) g geom_count [OF s(2)] a(6)
      by (auto simp: S_def)
  qed
  have ok: "ts_ok db'" using a(2) by (simp add: ts_rep_def Let_def)
  have "ts_state db' (if n < ?N then (k0, secs @ [[?log]]) else ((k0 + 1) mod ?N, tl secs @ [[?log]]))"
  proof (cases "n < ?N")
    case True
    have "\<forall>q<n. ts_full (ts_img db') (S q) ?Z ((secs @ [[?log]]) ! q)"
    proof (intro allI impI)
      fix q
      assume q: "q < n"
      show "ts_full (ts_img db') (S q) ?Z ((secs @ [[?log]]) ! q)"
        using q True fr(3) [of q] s(10) a(5) pn ll by (cases "q = p") (auto simp: nth_append n_def)
    qed
    moreover have "\<forall>q. Suc n \<le> q \<and> q < ?N \<longrightarrow> ts_hdr (ts_img db') (S q) FDB_SECTOR_STORE_EMPTY
        \<and> ts_sector (ts_img db') (S q) ?Z []"
      using fr(1,2) s(11) pn True by auto
    ultimately show ?thesis
      using True a(2,3,8) s(2-6) ok unfolding ts_state_def Let_def fst_conv snd_conv g
      by (simp add: n_def S_def)
  next
    case False
    then have nN: "n = ?N" using s(8) by simp
    define k1 where "k1 = (k0 + 1) mod ?N"
    have sh: "sec_no ?N k1 q = sec_no ?N k0 (Suc q)" for q
      by (simp add: k1_def sec_no_def mod_simps)
    have "\<forall>q<p. ts_full (ts_img db') (S (Suc q)) ?Z ((tl secs @ [[?log]]) ! q)"
    proof (intro allI impI)
      fix q
      assume q: "q < p"
      have nt: "(tl secs @ [[?log]]) ! q = secs ! Suc q" using q by (simp add: nth_append nth_tl p_def)
      show "ts_full (ts_img db') (S (Suc q)) ?Z ((tl secs @ [[?log]]) ! q)"
        unfolding nt using q fr(3) [of "Suc q"] s(10) a(5) pn nN ll by (cases "Suc q = p") auto
    qed
    moreover have "(Suc k0 + ?N) mod ?N = Suc k0 mod ?N" by (rule mod_add_self2)
    then have "S (Suc n) = k1 * ?Z" by (simp add: S_def nN sec_no_def k1_def)
    moreover have "k1 < ?N" using s(5) by (simp add: k1_def)
    moreover have "tl secs @ [[?log]] \<noteq> []" "length (tl secs @ [[?log]]) = ?N"
      "last (tl secs @ [[?log]]) = [?log]" "?N - 1 = p" "S (Suc p) = S n"
      using pn nN by (simp_all add: n_def)
    ultimately have "ts_state db' (k1, tl secs @ [[?log]])"
      using False a(2,3,8) s(2-5) ok unfolding ts_state_def Let_def fst_conv snd_conv g sh
      by (simp add: S_def) (meson leD)
    then show ?thesis using False by (simp add: k1_def)
  qed
  then have "ts_state db' (hist_append ?N False (k0, secs) ?log)" 
    by (simp add: hist_append_def n_def)
  then show ?thesis using a by blast
qed


subsection \<open>Iterating\<close>

text \<open>
  The log object \<open>x\<close> shows the log: its status and time, and reading a blob made from it gives
  the data.
\<close>

definition tsl_shows :: "fdb_tsdb \<Rightarrow> fdb_tsl \<Rightarrow> ts_log \<Rightarrow> bool" where
  "tsl_shows db x log =
     (case log of (st, t, bs) \<Rightarrow>
        tsl_status x = st \<and> tsl_time x = t
      \<and> (\<forall>blob buf. blob_buf blob = Some buf \<longrightarrow> blob_size blob = length buf \<longrightarrow> length bs \<le> length buf
          \<longrightarrow> (\<exists>blob'. fdb_blob_read (ts_parent db) (fdb_tsl_to_blob x blob) = Some (length bs, blob')
                \<and> blob_buf blob' = Some (bs @ drop (length bs) buf))))"

lemma tsls_shows:
  assumes "ts_ok db" "ts_holds (ts_img db) i d ls" "d \<le> length (ts_img db)"
  shows "list_all2 (tsl_shows db) (tsls i d ls) ls"
  using assms(2-)
proof (induction i d ls rule: tsls.induct)
  case (2 i d st t bs ls)
  have rd: "fdb_flash_read (ts_parent db) (d - length bs) (take (length bs) buf) = Some (FDB_NO_ERR, bs)"
    if "length bs \<le> length buf" for buf
    using 2 that assms(1) dbs.rd_in [of "ts_parent db" "d - length bs" "take (length bs) buf"]
    by (simp add: ts_ok_def ts_img_def)
  let ?x = "\<lparr>tsl_status = st, tsl_time = t, tsl_log_len = length bs, tsl_addr_index = i,
      tsl_addr_log = d - length bs\<rparr>"
  have "tsl_shows db ?x (st, t, bs)"
    unfolding tsl_shows_def prod.case
  proof (intro conjI allI impI)
    fix blob :: fdb_blob and buf
    assume b: "blob_buf blob = Some buf" "blob_size blob = length buf" "length bs \<le> length buf"
    have "fdb_blob_read (ts_parent db) (fdb_tsl_to_blob ?x blob)
        = Some (length bs, (fdb_tsl_to_blob ?x blob)\<lparr>blob_buf := Some (bs @ drop (length bs) buf)\<rparr>)"
      using b rd [OF b(3)] unfolding fdb_blob_read_def fdb_tsl_to_blob_def Let_def
      by (cases "length bs = length buf") simp_all
    then show "\<exists>blob'. fdb_blob_read (ts_parent db) (fdb_tsl_to_blob ?x blob) = Some (length bs, blob')
        \<and> blob_buf blob' = Some (bs @ drop (length bs) buf)" by simp
  qed simp_all
  then show ?case using 2 by simp
qed simp

lemma list_all2_concat_map:
  "(\<And>j. j \<in> set ws \<Longrightarrow> list_all2 P (f j) (g j)) \<Longrightarrow> list_all2 P (concat (map f ws)) (concat (map g ws))"
  by (induction ws) (auto intro: list_all2_appendI)

definition hist_sector :: "nat \<Rightarrow> ts_hist \<Rightarrow> nat \<Rightarrow> ts_log list" where
  "hist_sector N h j =
     (let q = (j + (N - fst h)) mod N in if q < length (snd h) then snd h ! q else [])"

lemma sec_no_inv: "k0 < N \<Longrightarrow> q < N \<Longrightarrow> (sec_no N k0 q + (N - k0)) mod N = q"
proof -
  assume k: "k0 < N" "q < N"
  have "((k0 + q) mod N + (N - k0)) mod N = ((k0 + q) + (N - k0)) mod N" by (rule mod_add_left_eq)
  also have "k0 + q + (N - k0) = q + N" using k by simp
  finally show ?thesis using k by (simp add: sec_no_def)
qed

lemma hist_sector_no:
  "k0 < N \<Longrightarrow> q < N \<Longrightarrow> hist_sector N (k0, secs) (sec_no N k0 q) = (if q < length secs then secs ! q else [])"
  using sec_no_inv [of k0 N q] by (simp add: hist_sector_def Let_def)

lemma sec_no_ex: "k0 < N \<Longrightarrow> j < N \<Longrightarrow> \<exists>q<N. j = sec_no N k0 q"
  by (rule exI [of _ "(j + (N - k0)) mod N"]) (simp add: sec_no_def mod_simps)

lemma walk_map: "k0 < N \<Longrightarrow> ts_up.walk N k0 N = map (sec_no N k0) [0..<N]"
  by (simp add: ts_up.walk_def ring_up_iter sec_no_def)

lemma hist_sector_walk:
  assumes "k0 < N" "length secs \<le> N"
  shows "concat (map (hist_sector N (k0, secs)) (ts_up.walk N k0 N)) = concat secs"
proof -
  have "map (hist_sector N (k0, secs)) (ts_up.walk N k0 N) = secs @ replicate (N - length secs) []"
    using assms by (intro nth_equalityI) (auto simp: walk_map hist_sector_no nth_append)
  then show ?thesis by simp
qed

lemma ts_state_holds:
  assumes st: "ts_state db (k0, secs)"
  shows "ts_db_holds db (hist_sector (ts_count db) (k0, secs))"
proof -
  let ?N = "ts_count db" and ?Z = "tsdb_sec_size db"
  have s: "ts_ok db" "ts_geom db" "40 < ?Z" "tsdb_max_size db \<le> length (ts_img db)"
    "ts_rep db (last secs)" "k0 < ?N" "secs \<noteq> []" "length secs \<le> ?N"
    "tsec_addr (ts_cur_sec db) = sec_no ?N k0 (length secs - 1) * ?Z"
    "\<forall>q<length secs - 1. ts_full (ts_img db) (sec_no ?N k0 q * ?Z) ?Z (secs ! q)"
    "\<forall>q. length secs \<le> q \<and> q < ?N \<longrightarrow> ts_hdr (ts_img db) (sec_no ?N k0 q * ?Z) FDB_SECTOR_STORE_EMPTY
        \<and> ts_sector (ts_img db) (sec_no ?N k0 q * ?Z) ?Z []"
    "last secs = [] \<longrightarrow> tsec_status (ts_cur_sec db) = FDB_SECTOR_STORE_EMPTY"
    using st unfolding ts_state_def Let_def by simp_all
  have "ts_hdr (ts_img db) (j * ?Z) FDB_SECTOR_STORE_EMPTY \<and> hist_sector ?N (k0, secs) j = []
      \<or> ts_full (ts_img db) (j * ?Z) ?Z (hist_sector ?N (k0, secs) j)
      \<or> ts_rep db (hist_sector ?N (k0, secs) j) \<and> hist_sector ?N (k0, secs) j \<noteq> []
          \<and> tsec_addr (ts_cur_sec db) = j * ?Z" if "j < ?N" for j
  proof -
    from sec_no_ex [OF s(6) that] obtain q where q: "q < ?N" "j = sec_no ?N k0 q" by blast
    have h: "hist_sector ?N (k0, secs) j = (if q < length secs then secs ! q else [])"
      using hist_sector_no [OF s(6) q(1)] q(2) by simp
    consider "q < length secs - 1" | "q = length secs - 1" | "length secs \<le> q"
      by linarith
    then show ?thesis
    proof cases
      case 1
      then have "q < length secs" by simp
      then show ?thesis using h s(10) q(2) 1 by simp
    next
      case 2
      then have l: "hist_sector ?N (k0, secs) j = last secs" using h s(7) by (simp add: last_conv_nth)
      show ?thesis
      proof (cases "last secs = []")
        case True
        then show ?thesis using l s(5,9,12) 2 q(2) by (simp add: ts_rep_def Let_def)
      next
        case False
        then show ?thesis using l s(5,9) 2 q(2) by simp
      qed
    next
      case 3
      then show ?thesis using h s(11) q by simp
    qed
  qed
  then show ?thesis using s(1-4) by (simp add: ts_db_holds_def Let_def)
qed

text \<open>The log objects that an iteration over the whole database delivers.\<close>

definition hist_tsls :: "fdb_tsdb \<Rightarrow> ts_hist \<Rightarrow> fdb_tsl list" where
  "hist_tsls db h =
     concat (map (sector_tsls db (hist_sector (ts_count db) h)) (ts_up.walk (ts_count db) (fst h) (ts_count db)))"

lemma hist_tsls_shows:
  assumes st: "ts_state db (k0, secs)"
  shows "list_all2 (tsl_shows db) (hist_tsls db (k0, secs)) (concat secs)"
proof -
  let ?N = "ts_count db" and ?Z = "tsdb_sec_size db" and ?L = "hist_sector (ts_count db) (k0, secs)"
  have s: "ts_ok db" "ts_geom db" "tsdb_max_size db \<le> length (ts_img db)" "k0 < ?N" "length secs \<le> ?N"
    using st unfolding ts_state_def Let_def by simp_all
  note h = ts_state_holds [OF st]
  have "list_all2 (tsl_shows db) (sector_tsls db ?L j) (?L j)" if "j < ?N" for j
  proof (cases "?L j = []")
    case True
    then show ?thesis by (simp add: sector_tsls_def)
  next
    case False
    then have "ts_holds (ts_img db) (j * ?Z + 40) (j * ?Z + ?Z) (?L j)" 
      using ts_db_sector [OF h that, of undefined] by auto
    moreover have "j * ?Z + ?Z \<le> length (ts_img db)"
      using geom_facts(1) [of ?Z "tsdb_max_size db" j 0] s(2,3) that by (simp add: ts_geom_def ts_count_def)
    ultimately show ?thesis using tsls_shows [OF s(1)] by (simp add: sector_tsls_def)
  qed
  then have "list_all2 (tsl_shows db) (concat (map (sector_tsls db ?L) (ts_up.walk ?N k0 ?N)))
      (concat (map ?L (ts_up.walk ?N k0 ?N)))"
    using ts_up.set_walk [OF s(4)] by (intro list_all2_concat_map) auto
  then show ?thesis using hist_sector_walk [OF s(4,5)] by (simp add: hist_tsls_def)
qed


lemma unlock_lock:
  "db_lock_set (ts_parent db) = db_unlock_set (ts_parent db) \<Longrightarrow> tsdb_unlock (tsdb_lock db) = db"
  by (simp add: tsdb_lock_def tsdb_unlock_def db_lock_def db_unlock_def)

lemma ts_state_lock [simp]: "ts_state (tsdb_lock db) h = ts_state db h" "ts_state (tsdb_unlock db) h = ts_state db h"
  by (simp_all add: ts_state_def ts_geom_def ts_count_def)

lemma hist_tsls_lock [simp]: "hist_tsls (tsdb_lock db) h = hist_tsls db h"
  by (simp add: hist_tsls_def sector_tsls_def [abs_def] ts_count_def)

lemma iter_hist:
  assumes st: "ts_state db h"
  shows "tsl_iter_loop (pure_cb f) db sec tsl a (tsdb_oldest_addr db) 0
    = Some (snd (run_cb f (hist_tsls db h) a), db)"
proof -
  obtain k0 secs where h: "h = (k0, secs)" by (cases h)
  have s: "k0 < ts_count db" "tsdb_oldest_addr db = k0 * tsdb_sec_size db" "0 < ts_count db"
    using st unfolding h ts_state_def Let_def by simp_all
  show ?thesis
    using tsl_iter_walk [OF ts_state_holds [OF st [unfolded h]] s(1) s(3), of f sec tsl a] s
    by (simp add: h hist_tsls_def walk_sec_no)
qed

lemma hist_tsls_used:
  assumes "k0 < ts_count db" "length secs \<le> ts_count db"
  shows "hist_tsls db (k0, secs)
    = concat (map (\<lambda>q. sector_tsls db (hist_sector (ts_count db) (k0, secs)) (sec_no (ts_count db) k0 q)) [0..<length secs])"
proof -
  let ?N = "ts_count db" and ?g = "\<lambda>q. sector_tsls db (hist_sector (ts_count db) (k0, secs)) (sec_no (ts_count db) k0 q)"
  have "[0..<?N] = [0..<length secs] @ [length secs..<?N]"
    using assms(2) by (metis le_add_diff_inverse upt_add_eq_append zero_le)
  moreover have "?g q = []" if "q \<in> set [length secs..<?N]" for q
    using that assms by (simp add: sector_tsls_def hist_sector_no)
  then have "concat (map ?g [length secs..<?N]) = []" by auto
  ultimately show ?thesis using assms(1) by (simp add: hist_tsls_def walk_map o_def)
qed

lemma ts_state_sector:
  assumes st: "ts_state db (k0, secs)" and q: "q < length secs" "secs ! q \<noteq> []"
  defines "S \<equiv> sec_no (ts_count db) k0 q * tsdb_sec_size db"
  shows "\<exists>sec'. ts_read_sector_info db S sec False = Some (FDB_NO_ERR, sec') \<and> tsec_addr sec' = S
    \<and> (tsec_status sec' = FDB_SECTOR_STORE_USING \<or> tsec_status sec' = FDB_SECTOR_STORE_FULL)
    \<and> tsec_addr (ts_sector_for_iter db sec') = S
    \<and> tsec_status (ts_sector_for_iter db sec') \<noteq> FDB_SECTOR_STORE_EMPTY
    \<and> tsec_end_idx (ts_sector_for_iter db sec') = S + 40 + 16 * (length (secs ! q) - 1)
    \<and> ts_holds (ts_img db) (S + 40) (S + tsdb_sec_size db) (secs ! q)
    \<and> S + 40 + 16 * length (secs ! q) \<le> length (ts_img db)"
proof -
  have s: "k0 < ts_count db" "length secs \<le> ts_count db"
    using st unfolding ts_state_def Let_def by simp_all
  have h: "hist_sector (ts_count db) (k0, secs) (sec_no (ts_count db) k0 q) = secs ! q"
    using hist_sector_no [OF s(1), of q secs] q s(2) by simp
  have "sec_no (ts_count db) k0 q < ts_count db" using s(1) by simp
  from ts_db_sector [OF ts_state_holds [OF st] this, of sec] show ?thesis
    using q(2) unfolding S_def h by auto
qed

lemma sec_no_down:
  assumes "k0 < N" "q < N"
  shows "ring_down N (sec_no N k0 q) = sec_no N k0 (if 0 < q then q - 1 else N - 1)"
  using assms by (auto simp: ring_down_def sec_no_def mod_if split: if_splits)

lemma iter_rev_sector:
  assumes st: "ts_state db (k0, secs)" and m: "m < length secs" "secs ! m \<noteq> []"
  defines "S \<equiv> sec_no (ts_count db) k0 m * tsdb_sec_size db"
  shows "\<exists>stop a' tsl'. run_cb f (rev (tsls (S + 40) (S + tsdb_sec_size db) (secs ! m))) a = (stop, a')
    \<and> tsl_iter_rev_loop (pure_cb f) db sec tsl a S tr
      = (if stop then Some (a', db)
         else let next = ts_prv db S (u32 (tr + tsdb_sec_size db)) in
           if next \<noteq> TS_FAILED_ADDR
           then tsl_iter_rev_loop (pure_cb f) db (fst tsl') (snd tsl') a' next (u32 (tr + tsdb_sec_size db))
           else Some (a', db))"
proof -
  let ?Z = "tsdb_sec_size db" and ?ls = "secs ! m"
  let ?xs = "rev (tsls (S + 40) (S + ?Z) ?ls)"
  have ok: "ts_ok db" using st unfolding ts_state_def Let_def by simp
  from ts_state_sector [OF st m, of sec] obtain sec' where
    r: "ts_read_sector_info db S sec False = Some (FDB_NO_ERR, sec')" "tsec_addr sec' = S"
      "tsec_status sec' = FDB_SECTOR_STORE_USING \<or> tsec_status sec' = FDB_SECTOR_STORE_FULL"
      "tsec_addr (ts_sector_for_iter db sec') = S" "tsec_status (ts_sector_for_iter db sec') \<noteq> FDB_SECTOR_STORE_EMPTY"
      "tsec_end_idx (ts_sector_for_iter db sec') = S + 40 + 16 * (length ?ls - 1)"
      "ts_holds (ts_img db) (S + 40) (S + ?Z) ?ls" "S + 40 + 16 * length ?ls \<le> length (ts_img db)"
    unfolding S_def by blast
  let ?sec = "ts_sector_for_iter db sec'"
  let ?tsl = "tsl\<lparr>tsl_addr_index := S + 40 + 16 * (length ?ls - 1)\<rparr>"
  have ch: "tsl_chain db (get_last_tsl_addr ?sec) ?xs"
    using tsls_backward [OF ok, of ?sec "S + ?Z" ?ls] r m(2) by simp
  have "?xs \<noteq> []" using m(2) by (simp flip: length_greater_0_conv)
  moreover have "tsl_addr_index (hd ?xs) = S + 40 + 16 * (length ?ls - 1)"
    using m(2) \<open>?xs \<noteq> []\<close> tsls_index [of "length ?ls - 1" ?ls "S + 40" "S + ?Z"]
    by (simp add: hd_rev last_conv_nth)
  ultimately obtain tsl' where it: "tsl_iter_sector get_last_tsl_addr (pure_cb f) db ?sec ?tsl a
      = Some (fst (run_cb f ?xs a), tsl', snd (run_cb f ?xs a), db)"
    using iter_chain [of db get_last_tsl_addr ?sec ?xs ?tsl f a] ch by auto
  obtain stop a' where rc: "run_cb f ?xs a = (stop, a')" by fastforce
  have nx: "ts_get_last_sector_addr db ?sec t = ts_prv db S t" for t
    using r(4) by (simp add: ts_prv_def ts_get_last_sector_addr_def)
  have "tsl_iter_rev_loop (pure_cb f) db sec tsl a S tr
      = (if stop then Some (a', db)
         else let next = ts_prv db S (u32 (tr + ?Z)) in
           if next \<noteq> TS_FAILED_ADDR
           then tsl_iter_rev_loop (pure_cb f) db ?sec tsl' a' next (u32 (tr + ?Z))
           else Some (a', db))"
    using r(1,3) it rc r(6) nx
    by (subst tsl_iter_rev_loop.simps) (simp add: Let_def, blast)
  then show ?thesis using rc by (intro exI [of _ stop] exI [of _ a'] exI [of _ "(?sec, tsl')"]) (simp add: Let_def)
qed


lemma ts_prv_sec:
  assumes "ts_geom db" "k0 < ts_count db" "q < ts_count db" "j \<le> ts_count db"
  shows "ts_prv db (sec_no (ts_count db) k0 q * tsdb_sec_size db) (j * tsdb_sec_size db)
    = (if j < ts_count db
       then sec_no (ts_count db) k0 (if 0 < q then q - 1 else ts_count db - 1) * tsdb_sec_size db
       else TS_FAILED_ADDR)"
  using ts_prv_step [OF assms(1) _ assms(4), of "sec_no (ts_count db) k0 q"] assms
  by (simp add: sec_no_down TS_FAILED_ADDR_def FDB_FAILED_ADDR_def)

lemma sec_addr_valid:
  assumes "ts_geom db" "0 < ts_count db"
  shows "sec_no (ts_count db) k0 q * tsdb_sec_size db \<noteq> TS_FAILED_ADDR"
    "sec_no (ts_count db) k0 q * tsdb_sec_size db + tsdb_sec_size db \<le> tsdb_max_size db"
proof -
  show "sec_no (ts_count db) k0 q * tsdb_sec_size db + tsdb_sec_size db \<le> tsdb_max_size db"
    using geom_facts(1) [of "tsdb_sec_size db" "tsdb_max_size db" "sec_no (ts_count db) k0 q" 0] assms
    by (simp add: ts_geom_def ts_count_def)
  then show "sec_no (ts_count db) k0 q * tsdb_sec_size db \<noteq> TS_FAILED_ADDR"
    using assms(1) by (simp add: ts_geom_def TS_FAILED_ADDR_def)
qed

text \<open>The reverse iteration from sector \<open>m\<close> of the history downwards; it stops at an empty sector.\<close>

lemma iter_rev_down:
  assumes st: "ts_state db (k0, secs)" and ne: "last secs \<noteq> []" and m: "m < length secs"
  defines "S \<equiv> \<lambda>q. sec_no (ts_count db) k0 q * tsdb_sec_size db"
  shows "tsl_iter_rev_loop (pure_cb f) db sec tsl a (S m) ((length secs - 1 - m) * tsdb_sec_size db)
    = Some (snd (run_cb f (rev (concat (map (\<lambda>q. tsls (S q + 40) (S q + tsdb_sec_size db) (secs ! q))
        [0..<Suc m]))) a), db)"
  using m
proof (induction m arbitrary: sec tsl a rule: less_induct)
  case (less m)
  let ?N = "ts_count db" and ?Z = "tsdb_sec_size db"
  let ?g = "\<lambda>q. tsls (S q + 40) (S q + ?Z) (secs ! q)"
  let ?d = "length secs - 1 - m"
  have s: "ts_ok db" "ts_geom db" "40 < ?Z" "tsdb_max_size db \<le> length (ts_img db)" "k0 < ?N"
    "secs \<noteq> []" "length secs \<le> ?N"
    "\<forall>q<length secs - 1. ts_full (ts_img db) (sec_no ?N k0 q * ?Z) ?Z (secs ! q)"
    "\<forall>q. length secs \<le> q \<and> q < ?N \<longrightarrow> ts_hdr (ts_img db) (sec_no ?N k0 q * ?Z) FDB_SECTOR_STORE_EMPTY
        \<and> ts_sector (ts_img db) (sec_no ?N k0 q * ?Z) ?Z []"
    using st unfolding ts_state_def Let_def by simp_all
  have mN: "m < ?N" "?d < ?N" using less.prems s(7) by linarith+
  have full: "secs ! m \<noteq> []"
  proof (cases "m < length secs - 1")
    case True
    then show ?thesis using s(8) by (auto simp: ts_full_def)
  next
    case False
    then have "m = length secs - 1" using less.prems by simp
    then show ?thesis using ne s(6) by (simp add: last_conv_nth)
  qed
  from iter_rev_sector [OF st less.prems full, of f a sec tsl "?d * ?Z"] obtain stop a' tsl' where
    rc: "run_cb f (rev (?g m)) a = (stop, a')"
    and step: "tsl_iter_rev_loop (pure_cb f) db sec tsl a (S m) (?d * ?Z)
      = (if stop then Some (a', db)
         else let next = ts_prv db (S m) (u32 (?d * ?Z + ?Z)) in
           if next \<noteq> TS_FAILED_ADDR
           then tsl_iter_rev_loop (pure_cb f) db (fst tsl') (snd tsl') a' next (u32 (?d * ?Z + ?Z))
           else Some (a', db))"
    unfolding S_def by blast
  have u: "u32 (?d * ?Z + ?Z) = Suc ?d * ?Z"
    using geom_facts(4) [of ?Z "tsdb_max_size db" m ?d] s(2) mN by (simp add: ts_geom_def ts_count_def add.commute)
  note pv = ts_prv_sec [OF s(2,5) mN(1), of "Suc ?d"]
  have g: "rev (concat (map ?g [0..<Suc m])) = rev (?g m) @ rev (concat (map ?g [0..<m]))" by simp
  show ?case
  proof (cases "stop \<or> \<not> Suc ?d < ?N")
    case True
    have "\<not> stop \<Longrightarrow> m = 0" using True mN s(7) less.prems by linarith
    then show ?thesis using True step rc pv u mN unfolding g by (auto simp: run_cb_append S_def)
  next
    case False
    show ?thesis
    proof (cases m)
      case 0
      have ls: "length secs \<le> ?N - 1" "?N - 1 < ?N" using False 0 s(7) less.prems by linarith+
      from s(9) ls have e: "ts_hdr (ts_img db) (S (?N - 1)) FDB_SECTOR_STORE_EMPTY"
        unfolding S_def by blast
      have l: "S (?N - 1) + 40 \<le> length (ts_img db)"
        using sec_addr_valid(2) [OF s(2), of k0 "?N - 1"] s(3,4,5) by (simp add: S_def)
      from read_hdr [OF s(1) l e, of "fst tsl'" False] obtain sec' where
        r: "ts_read_sector_info db (S (?N - 1)) (fst tsl') False = Some (FDB_NO_ERR, sec')"
          "tsec_status sec' = FDB_SECTOR_STORE_EMPTY" by auto
      have "tsl_iter_rev_loop (pure_cb f) db (fst tsl') (snd tsl') a' (S (?N - 1)) (Suc ?d * ?Z) = Some (a', db)"
        using r by (subst tsl_iter_rev_loop.simps) simp
      then show ?thesis
        using 0 False step rc pv u s(5) sec_addr_valid(1) [OF s(2), of k0 "?N - 1"] unfolding g
        by (simp add: run_cb_append S_def Let_def)
    next
      case (Suc m')
      have "m' < m" "m' < length secs" "length secs - 1 - m' = Suc ?d" using Suc less.prems by linarith+
      from less.IH [OF this(1,2)] this(3) have
        "tsl_iter_rev_loop (pure_cb f) db (fst tsl') (snd tsl') a' (S m') (Suc ?d * ?Z)
          = Some (snd (run_cb f (rev (concat (map ?g [0..<Suc m']))) a'), db)" by simp
      then show ?thesis
        using Suc False step rc pv u s(5) sec_addr_valid(1) [OF s(2), of k0 m'] unfolding g
        by (simp add: run_cb_append S_def Let_def)
    qed
  qed
qed

end
