(* ===== verification/Tsdb_Init.thy ===== *)
theory Tsdb_Init
  imports Tsdb_Hist
begin

text \<open>
  Formatting a whole time series database, and its initialisation: a fresh partition becomes an
  empty database, and a database that was written before is recovered with all its logs.
\<close>

text \<open>
  A sector whose header can be read: the code does not return when both end records are half
  written.
\<close>

definition tsl_stat_at :: "bytes \<Rightarrow> nat \<Rightarrow> fdb_tsl_status" where
  "tsl_stat_at m a = tsl_status_of (fdb_get_status FDB_WRITE_GRAN (slice a 1 m) FDB_TSL_STATUS_NUM)"

definition ts_readable :: "bytes \<Rightarrow> nat \<Rightarrow> bool" where
  "ts_readable m S \<longleftrightarrow>
     \<not> (of_le32 (slice (S + 4) 4 m) = TS_SECTOR_MAGIC_WORD
        \<and> tsl_stat_at m (S + 20) = FDB_TSL_PRE_WRITE \<and> tsl_stat_at m (S + 32) = FDB_TSL_PRE_WRITE)"

lemma read_any:
  assumes "ts_ok db" "S + 40 \<le> length (ts_img db)" "ts_readable (ts_img db) S"
  shows "\<exists>e sec'. ts_read_sector_info db S sec False = Some (e, sec') \<and> tsec_addr sec' = S
    \<and> (of_le32 (slice (S + 4) 4 (ts_img db)) \<noteq> TS_SECTOR_MAGIC_WORD \<longrightarrow> \<not> tsec_check_ok sec')"
proof -
  have rd: "ts_flash_read db S (replicate 40 (tsdb_stk db)) = Some (FDB_NO_ERR, slice S 40 (ts_img db))"
    using assms by (subst tsf.rd_in) auto
  have sl: "slice k n (slice S 40 (ts_img db)) = slice (S + k) n (ts_img db)" if "k + n \<le> 40" for k n
    using that by (rule slice_slice)
  show ?thesis using assms(3)
    by (auto simp: ts_read_sector_info_def Let_def TS_SECTOR_HDR_DATA_SIZE_def rd sl ts_readable_def
        tsl_stat_at_def SECTOR_END0_STATUS_OFFSET_def SECTOR_END1_STATUS_OFFSET_def)
qed

subsection \<open>Formatting all sectors\<close>

definition ts_blank :: "bytes \<Rightarrow> nat \<Rightarrow> nat \<Rightarrow> bool" where
  "ts_blank m S Z \<longleftrightarrow> ts_hdr m S FDB_SECTOR_STORE_EMPTY \<and> ts_sector m S Z []"

lemma format_loop:
  assumes "ts_ok db" "ts_geom db" "40 < tsdb_sec_size db" "tsdb_max_size db \<le> length (ts_img db)"
    and "k < ts_count db"
    and "\<forall>j. k \<le> j \<and> j < ts_count db \<longrightarrow> ts_readable (ts_img db) (j * tsdb_sec_size db)"
  shows "\<exists>sec' m'. ts_sector_iter_loop ts_format_all_cb False FDB_SECTOR_STORE_UNUSED db sec ()
      (k * tsdb_sec_size db) (k * tsdb_sec_size db) = Some (sec', (), ts_put m' db)
    \<and> length m' = length (ts_img db)
    \<and> (\<forall>j. k \<le> j \<and> j < ts_count db \<longrightarrow> ts_blank m' (j * tsdb_sec_size db) (tsdb_sec_size db))
    \<and> (\<forall>j<k * tsdb_sec_size db. m' ! j = ts_img db ! j)"
  using assms
proof (induction "ts_count db - k" arbitrary: k db sec)
  case (Suc n)
  let ?N = "ts_count db" and ?Z = "tsdb_sec_size db"
  let ?S = "k * ?Z"
  have g: "?S + ?Z \<le> tsdb_max_size db" "u32 (?S + ?Z) = Suc k * ?Z" "?N * ?Z \<le> length (ts_img db)"
    using geom_facts(1,4) [of ?Z "tsdb_max_size db" k k] Suc.prems geom_count [of db]
    by (simp_all add: ts_geom_def ts_count_def add.commute)
  have l: "?S + ?Z \<le> length (ts_img db)" "40 \<le> ?Z" using g Suc.prems by linarith+
  then have l40: "?S + 40 \<le> length (ts_img db)" by linarith
  have "ts_readable (ts_img db) ?S" using Suc.prems(5,6) by simp
  from read_any [OF Suc.prems(1) l40 this, of sec] obtain e sec1 where
    r: "ts_read_sector_info db ?S sec False = Some (e, sec1)" "tsec_addr sec1 = ?S" by blast
  define m1 where "m1 = ts_formatted (ts_img db) ?S ?Z"
  note f = ts_formatted_props [OF l, folded m1_def]
  have fm: "ts_format_sector db ?S = Some (FDB_NO_ERR, ts_put m1 db)"
    using ts_format_ok [OF Suc.prems(1) l] by (simp add: m1_def)
  let ?db1 = "ts_put m1 db"
  have d1: "ts_ok ?db1" "ts_img ?db1 = m1" "tsdb_sec_size ?db1 = ?Z" "ts_geom ?db1" "ts_count ?db1 = ?N"
    "tsdb_max_size ?db1 = tsdb_max_size db"
    using Suc.prems(1,2) f(1)
    by (auto simp: tsf.ok_put tsf.img_put ts_put_fields ts_geom_def ts_count_def)
  have nxt: "ts_get_next_sector_addr ?db1 sec1 (Suc k * ?Z) = (if Suc k < ?N then Suc k * ?Z else TS_FAILED_ADDR)"
  proof -
    have "ts_nxt ?db1 ?S (Suc k * ?Z) = (if Suc k < ?N then ring_up ?N k * ?Z else FDB_FAILED_ADDR)"
      using ts_nxt_step [OF d1(4), of k "Suc k"] Suc.prems(5) unfolding d1 by simp
    then show ?thesis
      by (simp add: ts_nxt_sec [OF r(2)] ring_up_def TS_FAILED_ADDR_def FDB_FAILED_ADDR_def)
  qed
  have nf: "Suc k < ?N \<Longrightarrow> Suc k * ?Z \<noteq> TS_FAILED_ADDR"
    using geom_facts(1) [of ?Z "tsdb_max_size db" "Suc k" 0] Suc.prems(2)
    by (auto simp: ts_geom_def ts_count_def TS_FAILED_ADDR_def)
  have step: "ts_sector_iter_loop ts_format_all_cb False FDB_SECTOR_STORE_UNUSED db sec () ?S ?S
      = (if Suc k < ?N
         then ts_sector_iter_loop ts_format_all_cb False FDB_SECTOR_STORE_UNUSED ?db1 sec1 ()
                (Suc k * ?Z) (Suc k * ?Z)
         else Some (sec1, (), ?db1))"
    using r fm nxt nf d1(3) g(2)
    by (subst ts_sector_iter_loop.simps) (simp add: ts_format_all_cb_def Let_def)
  have out: "m1 ! j = ts_img db ! j" if "j < ?S \<or> ?S + ?Z \<le> j" "j < length (ts_img db)" for j
    using f(4) that by blast
  have blank: "ts_blank m1 ?S ?Z" using f by (simp add: ts_blank_def)
  show ?case
  proof (cases "Suc k < ?N")
    case False
    then have "k \<le> j \<and> j < ?N \<Longrightarrow> j = k" for j by linarith
    then have "\<forall>j. k \<le> j \<and> j < ?N \<longrightarrow> ts_blank m1 (j * ?Z) ?Z" using blank by blast
    moreover have "\<forall>j<?S. m1 ! j = ts_img db ! j" using out l by simp
    ultimately show ?thesis using False step f(1) by (intro exI [of _ sec1] exI [of _ m1]) simp
  next
    case True
    have rd: "ts_readable m1 (j * ?Z)" if "Suc k \<le> j" "j < ?N" for j
    proof -
      have jl: "Suc k * ?Z \<le> j * ?Z" "Suc j * ?Z \<le> ?N * ?Z"
        using that mult_le_mono1 [of "Suc k" j ?Z] mult_le_mono1 [of "Suc j" ?N ?Z] by linarith+
      have sl: "slice (j * ?Z + a) n m1 = slice (j * ?Z + a) n (ts_img db)" if "a + n \<le> 40" for a n
        using that jl g(3) f(1) l by (intro slice_eqI out) auto
      from this [of 4 4] this [of 20 1] this [of 32 1] show ?thesis
        using Suc.prems(6) that by (auto simp: ts_readable_def tsl_stat_at_def)
    qed
    have n: "n = ?N - Suc k" using Suc.hyps(2) by linarith
    from Suc.hyps(1) [of ?db1 "Suc k" sec1] obtain sec' m' where
      h: "ts_sector_iter_loop ts_format_all_cb False FDB_SECTOR_STORE_UNUSED ?db1 sec1 ()
          (Suc k * ?Z) (Suc k * ?Z) = Some (sec', (), ts_put m' ?db1)"
        "length m' = length m1"
        "\<forall>j. Suc k \<le> j \<and> j < ?N \<longrightarrow> ts_blank m' (j * ?Z) ?Z" "\<forall>j<Suc k * ?Z. m' ! j = m1 ! j"
      using n d1 Suc.prems True rd f(1) unfolding d1 by auto
    have "ts_blank m' ?S ?Z"
      using blank ts_region_cong(1,2) [of ?Z ?S m1 m'] l f(1) h(2,4) by (simp add: ts_blank_def)
    moreover have "k \<le> j \<and> j < ?N \<Longrightarrow> j = k \<or> Suc k \<le> j \<and> j < ?N" for j by linarith
    ultimately have "\<forall>j. k \<le> j \<and> j < ?N \<longrightarrow> ts_blank m' (j * ?Z) ?Z" using h(3) by blast
    moreover have "\<forall>j<?S. m' ! j = ts_img db ! j" using h(4) out l by simp
    moreover have "ts_put m' ?db1 = ts_put m' db" using tsf.put_put [OF Suc.prems(1)] f(1) h(2) by simp
    ultimately show ?thesis using step True h(1,2) f(1) by auto
  qed
qed simp


lemma ts_img_time [simp]: "ts_img (db\<lparr>ts_last_time := t\<rparr>) = ts_img db" "ts_ok (db\<lparr>ts_last_time := t\<rparr>) = ts_ok db"
  by (simp_all add: ts_img_def ts_ok_def)

lemma ts_img_reset [simp]:
  "ts_img (db\<lparr>ts_parent := (ts_parent db)\<lparr>db_oldest_addr := a\<rparr>, ts_cur_sec := c, ts_last_time := t\<rparr>) = ts_img db"
  "ts_ok (db\<lparr>ts_parent := (ts_parent db)\<lparr>db_oldest_addr := a\<rparr>, ts_cur_sec := c, ts_last_time := t\<rparr>) = ts_ok db"
  using ts_img_oldest [of a db] by (simp_all add: ts_img_def ts_ok_def)

lemma format_all_state:
  assumes ok: "ts_ok db" "ts_geom db" "40 < tsdb_sec_size db" "tsdb_max_size db \<le> length (ts_img db)"
    and N: "1 < ts_count db"
    and rd: "\<forall>j<ts_count db. ts_readable (ts_img db) (j * tsdb_sec_size db)"
  shows "\<exists>db'. tsl_format_all db = Some db' \<and> ts_state db' (0, [[]]) \<and> ts_last_time db' = 0
    \<and> ts_same db (db'\<lparr>ts_last_time := ts_last_time db\<rparr>)"
proof -
  let ?N = "ts_count db" and ?Z = "tsdb_sec_size db"
  have "0 < ?N" "\<forall>j. 0 \<le> j \<and> j < ?N \<longrightarrow> ts_readable (ts_img db) (j * ?Z)" using N rd by auto
  from format_loop [OF ok this, of "(junk_tsec (tsdb_stk db))\<lparr>tsec_addr := 0\<rparr>"] obtain sec' m' where
    h: "ts_sector_iterator db ((junk_tsec (tsdb_stk db))\<lparr>tsec_addr := 0\<rparr>) FDB_SECTOR_STORE_UNUSED ()
        ts_format_all_cb False = Some (sec', (), ts_put m' db)"
      "length m' = length (ts_img db)" "\<forall>j<?N. ts_blank m' (j * ?Z) ?Z"
    by (auto simp: ts_sector_iterator_def)
  define db1 where "db1 = (ts_put m' db)\<lparr>ts_parent := (ts_parent (ts_put m' db))\<lparr>db_oldest_addr := 0\<rparr>,
      ts_cur_sec := (ts_cur_sec (ts_put m' db))\<lparr>tsec_addr := 0\<rparr>, ts_last_time := 0\<rparr>"
  have d: "ts_ok db1" "ts_img db1 = m'" "tsdb_sec_size db1 = ?Z" "tsdb_oldest_addr db1 = 0" "ts_last_time db1 = 0"
    "tsec_addr (ts_cur_sec db1) = 0"
    using ok(1) h(2) unfolding db1_def by (simp_all add: tsf.ok_put tsf.img_put ts_put_fields)
  have d': "ts_same db (db1\<lparr>ts_last_time := ts_last_time db\<rparr>)"
    using ts_put_fields [OF ok(1) h(2)] d(2) h(2)
    by (simp add: ts_same_def) (simp add: db1_def stk_def)
  have "0 < ?N" using N by simp
  then have b: "ts_blank m' 0 ?Z" using h(3) by fastforce
  then have "ts_hdr (ts_img db1) 0 FDB_SECTOR_STORE_EMPTY" "ts_sector (ts_img db1) 0 (tsdb_sec_size db1) []"
    by (auto simp: ts_blank_def d)
  from read_empty_rep [OF d(1) this, of "ts_cur_sec db1" False] obtain sec2 where
    r: "ts_read_sector_info db1 0 (ts_cur_sec db1) False = Some (FDB_NO_ERR, sec2)"
      "tsec_addr sec2 = 0" "tsec_status sec2 = FDB_SECTOR_STORE_EMPTY" "ts_rep (db1\<lparr>ts_cur_sec := sec2\<rparr>) []"
    by blast
  let ?db = "db1\<lparr>ts_cur_sec := sec2\<rparr>"
  have a: "tsl_format_all db = Some ?db"
    using h(1) r(1) d(6) by (simp add: tsl_format_all_def Let_def db1_def)
  have same: "ts_same db (?db\<lparr>ts_last_time := ts_last_time db\<rparr>)"
    using d' by (simp add: ts_same_def)
  note g = ts_same_geom [OF same]
  have "\<forall>q<?N. ts_hdr m' (q * ?Z) FDB_SECTOR_STORE_EMPTY \<and> ts_sector m' (q * ?Z) ?Z []"
    using h(3) by (simp add: ts_blank_def)
  then have "ts_state ?db (0, [[]])"
    using r(2,3,4) ok N d unfolding ts_state_def Let_def fst_conv snd_conv g by (simp add: sec_no_def)
  then show ?thesis using a same d(5) by (intro exI [of _ ?db]) simp
qed

end
