(* ===== verification/Tsdb_Boot.thy ===== *)
theory Tsdb_Boot
  imports Tsdb_Init
begin

text \<open>
  Initialisation of the time series database on a flash that was never used, and on one that
  holds a database: the latter recovers the history that the flash holds.
\<close>

subsection \<open>Reading the last time stamp\<close>

lemma ts_next_any:
  assumes "ts_geom db" "a < ts_count db" "tsec_addr sec = a * tsdb_sec_size db"
  shows "u32 (a * tsdb_sec_size db + tsdb_sec_size db) = Suc a * tsdb_sec_size db"
    and "ts_get_next_sector_addr db sec (Suc a * tsdb_sec_size db)
      = (if Suc a < ts_count db then Suc a * tsdb_sec_size db else TS_FAILED_ADDR)"
    and "Suc a < ts_count db \<Longrightarrow> Suc a * tsdb_sec_size db \<noteq> TS_FAILED_ADDR"
proof -
  note g = geom_facts [of "tsdb_sec_size db" "tsdb_max_size db"]
  show "u32 (a * tsdb_sec_size db + tsdb_sec_size db) = Suc a * tsdb_sec_size db"
    using g(4) [of a a] assms(1,2) by (simp add: ts_geom_def ts_count_def add.commute)
  show "ts_get_next_sector_addr db sec (Suc a * tsdb_sec_size db)
      = (if Suc a < ts_count db then Suc a * tsdb_sec_size db else TS_FAILED_ADDR)"
    using ts_nxt_step [OF assms(1,2), of "Suc a"] assms(2)
    unfolding ts_nxt_sec [OF assms(3)]
    by (simp add: ring_up_def TS_FAILED_ADDR_def FDB_FAILED_ADDR_def)
  show "Suc a < ts_count db \<Longrightarrow> Suc a * tsdb_sec_size db \<noteq> TS_FAILED_ADDR"
    using g(1) [of "Suc a" 0] assms(1) by (auto simp: ts_geom_def ts_count_def TS_FAILED_ADDR_def)
qed

subsection \<open>The scan over the sector headers\<close>

text \<open>
  The statuses that the scan accepts: one current sector \<open>c\<close>, in use or empty, and the empty
  sectors \<open>[e, e')\<close>, which begin at the current one or after it.
\<close>

definition scan_shape :: "(nat \<Rightarrow> fdb_sector_store_status) \<Rightarrow> nat \<Rightarrow> nat \<Rightarrow> nat \<Rightarrow> nat \<Rightarrow> bool" where
  "scan_shape st N c e e' \<longleftrightarrow>
     c < N \<and> (e = c \<and> c < e' \<or> e = Suc c) \<and> e \<le> e' \<and> e' \<le> N
   \<and> (\<forall>a<N. st a = (if e \<le> a \<and> a < e' then FDB_SECTOR_STORE_EMPTY
                    else if a = c then FDB_SECTOR_STORE_USING else FDB_SECTOR_STORE_FULL))"

text \<open>What the scan has found before sector \<open>k\<close>.\<close>

definition scan_args :: "nat \<Rightarrow> nat \<Rightarrow> nat \<Rightarrow> nat \<Rightarrow> nat \<Rightarrow> check_sec_hdr_args" where
  "scan_args Z x0 e e' k =
     (let n = min k e' - e in
      \<lparr>chk_failed = False, chk_empty_num = n, chk_empty_addr = (if 0 < n then (min k e' - 1) * Z else x0)\<rparr>)"

definition scan_cur :: "nat \<Rightarrow> (nat \<Rightarrow> fdb_sector_store_status) \<Rightarrow> nat \<Rightarrow> nat \<Rightarrow> tsdb_sec_info \<Rightarrow> bool" where
  "scan_cur Z st c k cur \<longleftrightarrow>
     (if k \<le> c then tsec_addr cur = FDB_DATA_UNUSED
      else tsec_addr cur = c * Z \<and> tsec_status cur = st c)"

lemma check_step:
  assumes sh: "scan_shape st N c e e'" and k: "k < N" and N: "N < 4294967296" and cZ: "c * Z \<noteq> FDB_DATA_UNUSED"
    and cur: "scan_cur Z st c k (ts_cur_sec db)"
    and sec: "tsec_check_ok sec" "tsec_addr sec = k * Z" "tsec_status sec = st k"
  shows "\<exists>cur'. ts_check_sec_hdr_cb sec (scan_args Z x0 e e' k) db
      = Some (False, scan_args Z x0 e e' (Suc k), db\<lparr>ts_cur_sec := cur'\<rparr>) \<and> scan_cur Z st c (Suc k) cur'"
proof -
  note s = sh [unfolded scan_shape_def]
  have st: "st k = (if e \<le> k \<and> k < e' then FDB_SECTOR_STORE_EMPTY
      else if k = c then FDB_SECTOR_STORE_USING else FDB_SECTOR_STORE_FULL)" using s k by blast
  have same: "db\<lparr>ts_cur_sec := ts_cur_sec db\<rparr> = db" by simp
  consider (empty) "e \<le> k" "k < e'" | (using') "k = c" "e = Suc c" | (full) "k \<noteq> c" "\<not> (e \<le> k \<and> k < e')"
    using s by fastforce
  then show ?thesis
  proof cases
    case empty
    have n: "u32 (k - e + 1) = Suc k - e" using empty k N by (simp add: u32_def Suc_diff_le)
    have st': "tsec_status sec = FDB_SECTOR_STORE_EMPTY" using st empty sec(3) by simp
    have a: "scan_args Z x0 e e' (Suc k) = (scan_args Z x0 e e' k)\<lparr>chk_empty_num := Suc k - e, chk_empty_addr := k * Z\<rparr>"
      using empty by (simp add: scan_args_def Let_def)
    have nk: "chk_empty_num (scan_args Z x0 e e' k) = k - e" using empty by (simp add: scan_args_def Let_def)
    show ?thesis
    proof (cases "k = c")
      case True
      then have "e = k" using empty s by auto
      then show ?thesis using True st' sec cur n nk a
        by (intro exI [of _ sec]) (simp add: ts_check_sec_hdr_cb_def Let_def scan_cur_def)
    next
      case False
      then have "c < k" using empty s by auto
      then have cu: "tsec_addr (ts_cur_sec db) = c * Z" "scan_cur Z st c (Suc k) (ts_cur_sec db)"
        using cur by (auto simp: scan_cur_def)
      show ?thesis using st' sec cu(1) n nk a cZ
        by (intro exI [of _ "ts_cur_sec db"] conjI cu(2)) (simp add: ts_check_sec_hdr_cb_def Let_def)
    qed
  next
    case using'
    then have st': "tsec_status sec = FDB_SECTOR_STORE_USING" using st sec(3) by simp
    have "scan_args Z x0 e e' (Suc k) = scan_args Z x0 e e' k" using using' by (simp add: scan_args_def)
    then show ?thesis using st' sec cur using'(1)
      by (intro exI [of _ sec]) (simp add: ts_check_sec_hdr_cb_def scan_cur_def)
  next
    case full
    then have st': "tsec_status sec = FDB_SECTOR_STORE_FULL" using st sec(3) by auto
    have "scan_args Z x0 e e' (Suc k) = scan_args Z x0 e e' k"
      using full by (auto simp: scan_args_def Let_def min_def)
    moreover have "scan_cur Z st c (Suc k) (ts_cur_sec db)" using cur full(1) by (auto simp: scan_cur_def)
    ultimately show ?thesis using st' sec(1) 
      by (intro exI [of _ "ts_cur_sec db"]) (simp add: ts_check_sec_hdr_cb_def)
  qed
qed

lemma check_loop:
  assumes g: "ts_geom db" and sh: "scan_shape st (ts_count db) c e e'"
    and rd: "\<And>cur sec a. a < ts_count db \<Longrightarrow>
      \<exists>e1 sec1. ts_read_sector_info (db\<lparr>ts_cur_sec := cur\<rparr>) (a * tsdb_sec_size db) sec False = Some (e1, sec1)"
    and rdt: "\<And>cur sec a. a < ts_count db \<Longrightarrow>
      \<exists>e2 sec2. ts_read_sector_info (db\<lparr>ts_cur_sec := cur\<rparr>) (a * tsdb_sec_size db) sec True = Some (e2, sec2)
        \<and> tsec_check_ok sec2 \<and> tsec_addr sec2 = a * tsdb_sec_size db \<and> tsec_status sec2 = st a"
    and Nb: "ts_count db < 4294967296" and k: "k < ts_count db"
    and cur: "scan_cur (tsdb_sec_size db) st c k cur"
  shows "\<exists>sec' cur'. ts_sector_iter_loop ts_check_sec_hdr_cb True FDB_SECTOR_STORE_UNUSED
      (db\<lparr>ts_cur_sec := cur\<rparr>) sec (scan_args (tsdb_sec_size db) x0 e e' k)
      (k * tsdb_sec_size db) (k * tsdb_sec_size db)
    = Some (sec', scan_args (tsdb_sec_size db) x0 e e' (ts_count db), db\<lparr>ts_cur_sec := cur'\<rparr>)
    \<and> scan_cur (tsdb_sec_size db) st c (ts_count db) cur'"
  using k cur
proof (induction "ts_count db - k" arbitrary: k cur sec)
  case (Suc n)
  let ?Z = "tsdb_sec_size db" and ?N = "ts_count db"
  let ?db = "db\<lparr>ts_cur_sec := cur\<rparr>"
  have cZ: "c * ?Z \<noteq> FDB_DATA_UNUSED"
    using geom_facts(1) [of ?Z "tsdb_max_size db" c 0] g sh
    by (simp add: ts_geom_def ts_count_def scan_shape_def FDB_DATA_UNUSED_def)
  obtain e1 sec1 where r1: "ts_read_sector_info ?db (k * ?Z) sec False = Some (e1, sec1)"
    using rd [OF Suc.prems(1)] by blast
  obtain e2 sec2 where r2: "ts_read_sector_info ?db (k * ?Z) sec1 True = Some (e2, sec2)"
    "tsec_check_ok sec2" "tsec_addr sec2 = k * ?Z" "tsec_status sec2 = st k"
    using rdt [OF Suc.prems(1)] by blast
  have "scan_cur ?Z st c k (ts_cur_sec ?db)" using Suc.prems(2) by simp
  from check_step [OF sh Suc.prems(1) Nb cZ this r2(2-4), of x0] obtain cur' where
    cb: "ts_check_sec_hdr_cb sec2 (scan_args ?Z x0 e e' k) ?db
      = Some (False, scan_args ?Z x0 e e' (Suc k), ?db\<lparr>ts_cur_sec := cur'\<rparr>)"
      "scan_cur ?Z st c (Suc k) cur'" by blast
  have nx: "u32 (k * ?Z + ?Z) = Suc k * ?Z"
    "ts_get_next_sector_addr (db\<lparr>ts_cur_sec := cur'\<rparr>) sec2 (Suc k * ?Z)
      = (if Suc k < ?N then Suc k * ?Z else TS_FAILED_ADDR)"
    "Suc k < ?N \<Longrightarrow> Suc k * ?Z \<noteq> TS_FAILED_ADDR"
  proof -
    have g': "ts_geom (db\<lparr>ts_cur_sec := cur'\<rparr>)" "ts_count (db\<lparr>ts_cur_sec := cur'\<rparr>) = ?N"
      using g by (simp_all add: ts_geom_def ts_count_def)
    show "u32 (k * ?Z + ?Z) = Suc k * ?Z"
      "ts_get_next_sector_addr (db\<lparr>ts_cur_sec := cur'\<rparr>) sec2 (Suc k * ?Z)
        = (if Suc k < ?N then Suc k * ?Z else TS_FAILED_ADDR)"
      "Suc k < ?N \<Longrightarrow> Suc k * ?Z \<noteq> TS_FAILED_ADDR"
      using ts_next_any [OF g'(1), of k sec2] Suc.prems(1) r2(3) unfolding g'(2) by simp_all
  qed
  have step: "ts_sector_iter_loop ts_check_sec_hdr_cb True FDB_SECTOR_STORE_UNUSED ?db sec
      (scan_args ?Z x0 e e' k) (k * ?Z) (k * ?Z)
      = (if Suc k < ?N
         then ts_sector_iter_loop ts_check_sec_hdr_cb True FDB_SECTOR_STORE_UNUSED (db\<lparr>ts_cur_sec := cur'\<rparr>) sec2
                (scan_args ?Z x0 e e' (Suc k)) (Suc k * ?Z) (Suc k * ?Z)
         else Some (sec2, scan_args ?Z x0 e e' (Suc k), db\<lparr>ts_cur_sec := cur'\<rparr>))"
    using r1 r2(1) cb(1) nx by (subst ts_sector_iter_loop.simps) (simp add: Let_def)
  show ?case
  proof (cases "Suc k < ?N")
    case True
    have "n = ?N - Suc k" using Suc.hyps(2) by linarith
    from Suc.hyps(1) [OF this True cb(2), of sec2] show ?thesis using True step by simp
  next
    case False
    then have "Suc k = ?N" using Suc.prems(1) by linarith
    then show ?thesis using step cb(2) by (intro exI [of _ sec2] exI [of _ cur']) simp
  qed
qed simp


subsection \<open>The flash of a database\<close>

text \<open>The part of \<^const>\<open>ts_state\<close> that is on flash, and so survives a reset.\<close>

definition ts_on_flash :: "fdb_tsdb \<Rightarrow> ts_hist \<Rightarrow> bool" where
  "ts_on_flash db h \<longleftrightarrow>
     (let N = ts_count db; Z = tsdb_sec_size db; m = ts_img db; k0 = fst h; secs = snd h;
          c = sec_no N k0 (length secs - 1) * Z in
      ts_ok db \<and> ts_geom db \<and> 40 < Z \<and> tsdb_max_size db \<le> length m \<and> 1 < N
    \<and> k0 < N \<and> secs \<noteq> [] \<and> length secs \<le> N
    \<and> (\<forall>q<length secs - 1. ts_full m (sec_no N k0 q * Z) Z (secs ! q))
    \<and> ts_hdr m c (if last secs = [] then FDB_SECTOR_STORE_EMPTY else FDB_SECTOR_STORE_USING)
    \<and> ts_sector m c Z (last secs)
    \<and> (\<forall>q. length secs \<le> q \<and> q < N \<longrightarrow> ts_blank m (sec_no N k0 q * Z) Z))"

lemma ts_state_on_flash: "ts_state db h \<Longrightarrow> ts_on_flash db h"
  unfolding ts_state_def ts_on_flash_def Let_def ts_blank_def
  by (auto simp: ts_rep_def Let_def)

lemma ts_on_flash_state:
  assumes "ts_on_flash db (k0, secs)" "tsdb_oldest_addr db = k0 * tsdb_sec_size db"
    and "tsec_addr (ts_cur_sec db) = sec_no (ts_count db) k0 (length secs - 1) * tsdb_sec_size db"
    and "ts_rep db (last secs)"
    and "last secs = [] \<longrightarrow> tsec_status (ts_cur_sec db) = FDB_SECTOR_STORE_EMPTY"
  shows "ts_state db (k0, secs)"
  using assms unfolding ts_state_def ts_on_flash_def Let_def ts_blank_def by simp

lemma ts_on_flash_cong:
  assumes "ts_on_flash db h" "ts_ok db'" "ts_img db' = ts_img db" "tsdb_sec_size db' = tsdb_sec_size db"
    "tsdb_max_size db' = tsdb_max_size db"
  shows "ts_on_flash db' h" "ts_count db' = ts_count db" "ts_geom db' = ts_geom db"
proof -
  show c: "ts_count db' = ts_count db" "ts_geom db' = ts_geom db"
    using assms(4,5) by (simp_all add: ts_count_def ts_geom_def)
  show "ts_on_flash db' h"
    using assms unfolding ts_on_flash_def Let_def c by simp
qed

lemma init_last_time:
  assumes fl: "ts_on_flash db (k0, secs)" and old: "tsdb_oldest_addr db = k0 * tsdb_sec_size db"
    and cur: "tsec_addr (ts_cur_sec db) = sec_no (ts_count db) k0 (length secs - 1) * tsdb_sec_size db"
    and room: "tsec_addr (ts_cur_sec db) + 56 + 16 * length (last secs) \<le> length (ts_img db)"
  shows "\<exists>sec t. ts_init_last_time db = Some (db\<lparr>ts_cur_sec := sec, ts_last_time := t\<rparr>)
    \<and> ts_state (db\<lparr>ts_cur_sec := sec, ts_last_time := t\<rparr>) (k0, secs)
    \<and> (concat secs \<noteq> [] \<longrightarrow> t = fst (snd (last (concat secs))))
    \<and> (secs = [[]] \<longrightarrow> t = ts_last_time db)"
proof -
  let ?N = "ts_count db" and ?Z = "tsdb_sec_size db" and ?m = "ts_img db"
  define n where "n = length secs"
  define S where "S = sec_no ?N k0 (n - 1) * ?Z"
  have f: "ts_ok db" "ts_geom db" "40 < ?Z" "tsdb_max_size db \<le> length ?m" "1 < ?N" "k0 < ?N" "secs \<noteq> []" "n \<le> ?N"
    "\<forall>q<n - 1. ts_full ?m (sec_no ?N k0 q * ?Z) ?Z (secs ! q)"
    "ts_hdr ?m S (if last secs = [] then FDB_SECTOR_STORE_EMPTY else FDB_SECTOR_STORE_USING)"
    "ts_sector ?m S ?Z (last secs)"
    using fl unfolding ts_on_flash_def Let_def n_def S_def by simp_all
  have cur': "tsec_addr (ts_cur_sec db) = S" using cur by (simp add: S_def n_def)
  have cs: "concat secs = concat (butlast secs) @ last secs"
    using f(7) by (metis append_butlast_last_id concat.simps concat_append append_Nil2)
  have st: "ts_state (db\<lparr>ts_cur_sec := sec, ts_last_time := t\<rparr>) (k0, secs)"
    if "tsec_addr sec = S" "ts_rep (db\<lparr>ts_cur_sec := sec, ts_last_time := t\<rparr>) (last secs)"
      "last secs = [] \<longrightarrow> tsec_status sec = FDB_SECTOR_STORE_EMPTY" for sec t
    using that old ts_on_flash_cong [OF fl, of "db\<lparr>ts_cur_sec := sec, ts_last_time := t\<rparr>"] f(1)
    by (intro ts_on_flash_state) (simp_all add: S_def n_def)
  show ?thesis
  proof (cases "last secs = []")
    case False
    from f(10) False have h: "ts_hdr ?m S FDB_SECTOR_STORE_USING" by simp
    have "S + 56 + 16 * length (last secs) \<le> length ?m" using room cur by (simp add: S_def n_def)
    from read_using_sector [OF f(1,11) h this f(3), of "ts_cur_sec db"] obtain e sec where
      r: "ts_read_sector_info db S (ts_cur_sec db) True = Some (e, sec)"
        "tsec_addr sec = S" "tsec_status sec = FDB_SECTOR_STORE_USING"
        "tsec_empty_idx sec = S + 40 + 16 * length (last secs)"
        "tsec_empty_data sec = logs_end (S + ?Z) (last secs)"
        "tsec_remain sec = tsec_empty_data sec - tsec_empty_idx sec" "tsec_end_stat0 sec = FDB_TSL_UNUSED"
        "tsec_end_idx sec = S + 40 + 16 * (length (last secs) - 1)"
        "tsec_end_time sec = fst (snd (last (last secs)))" using False by blast
    let ?t = "tsec_end_time sec"
    have i: "ts_init_last_time db = Some (db\<lparr>ts_cur_sec := sec, ts_last_time := ?t\<rparr>)"
      using r cur by (simp add: ts_init_last_time_def S_def n_def Let_def)
    have "ts_rep (db\<lparr>ts_cur_sec := sec, ts_last_time := ?t\<rparr>) (last secs)"
      using f(1,11) h r False by (simp add: ts_rep_def Let_def ts_img_def ts_ok_def)
    then have "ts_state (db\<lparr>ts_cur_sec := sec, ts_last_time := ?t\<rparr>) (k0, secs)"
      using st [OF r(2)] False by blast
    moreover have "last (concat secs) = last (last secs)" using cs False by simp
    ultimately show ?thesis using i r(9) False by (intro exI [of _ sec] exI [of _ ?t]) auto
  next
    case True
    from f(10,11) True have h: "ts_hdr ?m S FDB_SECTOR_STORE_EMPTY" "ts_sector ?m S ?Z []" by simp_all
    from read_empty_rep [OF f(1) h, of "ts_cur_sec db" True] obtain sec where
      r: "ts_read_sector_info db S (ts_cur_sec db) True = Some (FDB_NO_ERR, sec)"
        "tsec_addr sec = S" "tsec_status sec = FDB_SECTOR_STORE_EMPTY" "ts_rep (db\<lparr>ts_cur_sec := sec\<rparr>) []"
      by blast
    have rep: "ts_rep (db\<lparr>ts_cur_sec := sec, ts_last_time := t\<rparr>) []" for t
      using r(4) by (simp add: ts_rep_def Let_def ts_img_def ts_ok_def)
    show ?thesis
    proof (cases "n = 1")
      case n1: True
      then have "S = k0 * ?Z" using f(6) by (simp add: S_def)
      then have "ts_init_last_time db = Some (db\<lparr>ts_cur_sec := sec, ts_last_time := ts_last_time db\<rparr>)"
        using r cur' old by (simp add: ts_init_last_time_def Let_def)
      moreover have "concat secs = []" using n1 True cs by (cases secs) (auto simp: n_def)
      ultimately show ?thesis using st [OF r(2), of "ts_last_time db"] rep [of "ts_last_time db"] True r(3)
        by (intro exI [of _ sec] exI [of _ "ts_last_time db"]) simp
    next
      case False
      have n2: "n - 2 < n - 1" "n - 1 < ?N" "n - 2 = n - 1 - 1" "0 < n - 1"
        using False f(7,8) by (cases secs; simp add: n_def)+
      have ne: "S \<noteq> k0 * ?Z"
        using n2(2,4) sec_no_eq [OF f(6) n2(2), of 0] f(3,5,6) by (simp add: S_def)
      have pv: "(if S = 0 then u32_sub (tsdb_max_size db) ?Z else u32_sub S ?Z) = sec_no ?N k0 (n - 2) * ?Z"
      proof -
        have "1 \<le> ?N" "sec_no ?N k0 (n - 1) < ?N" using f(5) by auto
        from ts_prv_step [OF f(2) this(2,1)] have "ts_prv db S ?Z = sec_no ?N k0 (n - 2) * ?Z"
          using f(5) n2 sec_no_down [OF f(6) n2(2)] by (simp add: S_def)
        moreover have "ts_prv db S ?Z = (if S = 0 then u32_sub (tsdb_max_size db) ?Z else u32_sub S ?Z)"
        proof -
          have "u32 (?Z + ?Z) \<le> tsdb_max_size db"
            using geom_facts(4) [of ?Z "tsdb_max_size db" 1 1] geom_facts(1) [of ?Z "tsdb_max_size db" 1 1] f(2,5)
            by (simp add: ts_geom_def ts_count_def)
          moreover have "S = 0 \<or> ?Z \<le> S" unfolding S_def by (cases "sec_no ?N k0 (n - 1)") simp_all
          ultimately show ?thesis using f(3) by (auto simp: ts_prv_def ts_get_last_sector_addr_def)
        qed
        ultimately show ?thesis by simp
      qed
      from f(9) n2(1) have "ts_full ?m (sec_no ?N k0 (n - 2) * ?Z) ?Z (secs ! (n - 2))" by blast
      then have fu: "ts_full (ts_img (db\<lparr>ts_cur_sec := sec\<rparr>)) (sec_no ?N k0 (n - 2) * ?Z)
          (tsdb_sec_size (db\<lparr>ts_cur_sec := sec\<rparr>)) (secs ! (n - 2))" by simp
      have "ts_ok (db\<lparr>ts_cur_sec := sec\<rparr>)" using f(1) by simp
      from read_full [OF this fu, of "junk_tsec (tsdb_stk (db\<lparr>ts_cur_sec := sec\<rparr>))" False] obtain prev where
        p: "ts_read_sector_info (db\<lparr>ts_cur_sec := sec\<rparr>) (sec_no ?N k0 (n - 2) * ?Z)
            (junk_tsec (tsdb_stk (db\<lparr>ts_cur_sec := sec\<rparr>))) False = Some (FDB_NO_ERR, prev)"
          "tsec_end_time prev = fst (snd (last (secs ! (n - 2))))" by blast
      let ?t = "tsec_end_time prev"
      have i: "ts_init_last_time db = Some (db\<lparr>ts_cur_sec := sec, ts_last_time := ?t\<rparr>)"
        using r p(1) cur' old ne pv by (cases "S = 0") (simp_all add: ts_init_last_time_def Let_def)
      have bl: "butlast secs \<noteq> []" "last (butlast secs) = secs ! (n - 2)"
        using n2 by (auto simp: n_def last_conv_nth nth_butlast simp flip: length_greater_0_conv)
      have "secs ! (n - 2) \<noteq> []" using fu by (simp add: ts_full_def)
      moreover have "concat (butlast secs) = concat (butlast (butlast secs)) @ secs ! (n - 2)"
        using bl by (metis append_butlast_last_id concat.simps concat_append append_Nil2)
      ultimately have "last (concat secs) = last (secs ! (n - 2))" using cs True by simp
      moreover have "secs \<noteq> [[]]" using False by (auto simp: n_def)
      ultimately show ?thesis using i p(2) st [OF r(2)] rep True r(3)
        by (intro exI [of _ sec] exI [of _ ?t]) simp
    qed
  qed
qed


subsection \<open>Initialisation on a flash that holds a database\<close>

text \<open>
  The scan gives the oldest sector back when the history starts in sector 0 or uses all sectors,
  as it does for every history that appending made.
\<close>

definition hist_reached :: "nat \<Rightarrow> ts_hist \<Rightarrow> bool" where
  "hist_reached N h \<longleftrightarrow> fst h = 0 \<or> length (snd h) = N"

lemma hist_append_reached:
  assumes "secs \<noteq> []" "length secs \<le> N" "hist_reached N (k0, secs)"
  shows "hist_reached N (hist_append N fits (k0, secs) log)"
  using assms by (auto simp: hist_reached_def hist_append_def Suc_le_eq)

lemma scan_facts:
  assumes fl: "ts_on_flash db (k0, secs)" and re: "hist_reached (ts_count db) (k0, secs)"
    and room: "sec_no (ts_count db) k0 (length secs - 1) * tsdb_sec_size db + 56 + 16 * length (last secs)
      \<le> length (ts_img db)"
  defines "N \<equiv> ts_count db" and "c \<equiv> sec_no (ts_count db) k0 (length secs - 1)"
  defines "e \<equiv> (if last secs = [] then c else Suc c)" and "e' \<equiv> (if k0 = 0 then ts_count db else Suc c)"
  defines "st \<equiv> \<lambda>a. if e \<le> a \<and> a < e' then FDB_SECTOR_STORE_EMPTY
    else if a = c then FDB_SECTOR_STORE_USING else FDB_SECTOR_STORE_FULL"
  shows "scan_shape st N c e e'"
    and "a < N \<Longrightarrow> \<exists>e2 sec2. ts_read_sector_info db (a * tsdb_sec_size db) sec True = Some (e2, sec2)
      \<and> tsec_check_ok sec2 \<and> tsec_addr sec2 = a * tsdb_sec_size db \<and> tsec_status sec2 = st a"
    and "a < N \<Longrightarrow> \<exists>e1 sec1. ts_read_sector_info db (a * tsdb_sec_size db) sec False = Some (e1, sec1)"
    and "k0 = (if e' = N then 0 else Suc c)" "\<not> e < e' \<Longrightarrow> e' = Suc c"
proof -
  let ?Z = "tsdb_sec_size db" and ?m = "ts_img db"
  define n where "n = length secs"
  have f: "ts_ok db" "ts_geom db" "40 < ?Z" "tsdb_max_size db \<le> length ?m" "1 < N" "k0 < N" "secs \<noteq> []" "n \<le> N"
    "\<forall>q<n - 1. ts_full ?m (sec_no N k0 q * ?Z) ?Z (secs ! q)"
    "ts_hdr ?m (c * ?Z) (if last secs = [] then FDB_SECTOR_STORE_EMPTY else FDB_SECTOR_STORE_USING)"
    "ts_sector ?m (c * ?Z) ?Z (last secs)"
    "\<forall>q. n \<le> q \<and> q < N \<longrightarrow> ts_blank ?m (sec_no N k0 q * ?Z) ?Z"
    using fl unfolding ts_on_flash_def Let_def n_def c_def N_def by simp_all
  have n0: "0 < n" using f(7) by (simp add: n_def)
  have cN: "c < N" using f(5) by (simp add: c_def N_def)
  have k0: "k0 = 0 \<and> c = n - 1 \<or> k0 \<noteq> 0 \<and> n = N \<and> Suc c = k0"
  proof (cases "k0 = 0")
    case True
    moreover have "n - 1 < N" using n0 f(8) by linarith
    ultimately show ?thesis by (simp add: c_def sec_no_def N_def n_def)
  next
    case False
    then have "n = N" using re by (simp add: hist_reached_def N_def n_def)
    moreover have "(k0 + (N - 1)) mod N = k0 - 1"
    proof -
      have e: "k0 + (N - 1) = (k0 - 1) + N" using False f(5) by simp
      show ?thesis unfolding e mod_add_self2 using f(6) by (intro mod_less) linarith
    qed
    ultimately show ?thesis using False by (simp add: c_def sec_no_def N_def n_def)
  qed
  show sh: "scan_shape st N c e e'"
    unfolding scan_shape_def using cN by (auto simp: st_def e_def e'_def N_def Suc_le_eq)
  show "k0 = (if e' = N then 0 else Suc c)" using k0 f(6) by (auto simp: e'_def N_def)
  show "\<not> e < e' \<Longrightarrow> e' = Suc c" using cN k0 by (auto simp: e_def e'_def N_def split: if_splits)
  have sec: "ts_full ?m (a * ?Z) ?Z (secs ! q) \<and> st a = FDB_SECTOR_STORE_FULL
      \<or> a = c \<and> st a = (if last secs = [] then FDB_SECTOR_STORE_EMPTY else FDB_SECTOR_STORE_USING)
      \<or> ts_blank ?m (a * ?Z) ?Z \<and> st a = FDB_SECTOR_STORE_EMPTY"
    if "a = sec_no N k0 q" "q < N" for a q
  proof -
    consider "q < n - 1" | "q = n - 1" | "n \<le> q" by linarith
    then show ?thesis
    proof cases
      case 1
      then have "a \<noteq> c" using that(1) sec_no_eq [OF f(6) that(2), of "n - 1"] f(8)
        by (simp add: c_def N_def n_def)
      moreover have "k0 = 0 \<Longrightarrow> a < c" using that k0 1 by (auto simp: sec_no_def)
      ultimately have "st a = FDB_SECTOR_STORE_FULL" by (auto simp: st_def e_def e'_def)
      then show ?thesis using f(9) 1 that(1) by blast
    next
      case 2
      then have "a = c" using that(1) by (simp add: c_def N_def n_def)
      then show ?thesis using cN by (auto simp: st_def e_def e'_def N_def)
    next
      case 3
      then have "k0 = 0" "a = q" "c < a" using k0 n0 that by (auto simp: sec_no_def)
      then have "st a = FDB_SECTOR_STORE_EMPTY" using that(2) by (auto simp: st_def e_def e'_def N_def)
      then show ?thesis using f(12) 3 that by blast
    qed
  qed
  have l: "a * ?Z + ?Z \<le> length ?m" if "a < N" for a
    using geom_facts(1) [of ?Z "tsdb_max_size db" a 0] f(2,4) that by (simp add: ts_geom_def ts_count_def N_def)
  have rd: "\<exists>e2 sec2. ts_read_sector_info db (a * ?Z) sec trav = Some (e2, sec2)
      \<and> tsec_check_ok sec2 \<and> tsec_addr sec2 = a * ?Z \<and> tsec_status sec2 = st a"
    if a: "a < N" and tr: "trav \<or> \<not> trav" for a sec trav
  proof -
    obtain q where q: "q < N" "a = sec_no N k0 q" using sec_no_ex [OF f(6) a] by blast
    have blank: ?thesis if "ts_hdr ?m (a * ?Z) FDB_SECTOR_STORE_EMPTY" "ts_sector ?m (a * ?Z) ?Z []"
      "st a = FDB_SECTOR_STORE_EMPTY"
      using read_empty_rep [OF f(1) that(1,2), of sec trav] that(3) by auto
    from sec [OF q(2,1)] consider
        (full) "ts_full ?m (a * ?Z) ?Z (secs ! q)" "st a = FDB_SECTOR_STORE_FULL"
      | (cur) "a = c" "st a = (if last secs = [] then FDB_SECTOR_STORE_EMPTY else FDB_SECTOR_STORE_USING)"
      | (bl) "ts_blank ?m (a * ?Z) ?Z" "st a = FDB_SECTOR_STORE_EMPTY" by blast
    then show ?thesis
    proof cases
      case full
      then show ?thesis using read_full [OF f(1) full(1), of sec trav] by auto
    next
      case bl
      then show ?thesis using blank by (simp add: ts_blank_def)
    next
      case cur
      show ?thesis
      proof (cases "last secs = []")
        case True
        then show ?thesis using blank f(10,11) cur by simp
      next
        case False
        then have h: "ts_hdr ?m (c * ?Z) FDB_SECTOR_STORE_USING" using f(10) by simp
        have l40: "c * ?Z + 40 \<le> length ?m" using l [OF cN] f(3) by linarith
        have rm: "c * ?Z + 56 + 16 * length (last secs) \<le> length ?m"
          using room by (simp add: c_def)
        show ?thesis
          using read_using_sector [OF f(1,11) h rm f(3), of sec] read_hdr [OF f(1) l40 h, of sec False]
            cur False by (cases trav) auto
      qed
    qed
  qed
  show "a < N \<Longrightarrow> \<exists>e2 sec2. ts_read_sector_info db (a * ?Z) sec True = Some (e2, sec2)
      \<and> tsec_check_ok sec2 \<and> tsec_addr sec2 = a * ?Z \<and> tsec_status sec2 = st a" using rd by blast
  show "a < N \<Longrightarrow> \<exists>e1 sec1. ts_read_sector_info db (a * ?Z) sec False = Some (e1, sec1)" using rd by blast
qed


lemma db_lock_formatable [simp]: "db_not_formatable (db_lock p) = db_not_formatable p"
  by (simp add: db_lock_def)

lemma tsdb_lock_rollover [simp]: "ts_rollover (tsdb_lock db) = ts_rollover db" "ts_rollover (tsdb_unlock db) = ts_rollover db"
  by (simp_all add: tsdb_lock_def tsdb_unlock_def)

lemma boot_load:
  assumes fl: "ts_on_flash db (k0, secs)" and re: "hist_reached (ts_count db) (k0, secs)"
    and room: "sec_no (ts_count db) k0 (length secs - 1) * tsdb_sec_size db + 56 + 16 * length (last secs)
      \<le> length (ts_img db)"
    and max: "max_len < tsdb_sec_size db"
  shows "\<exists>db'. tsdb_init_load db max_len = Some (FDB_NO_ERR, db') \<and> ts_state db' (k0, secs)
    \<and> (concat secs \<noteq> [] \<longrightarrow> ts_last_time db' = fst (snd (last (concat secs))))
    \<and> ts_max_len db' = max_len \<and> ts_rollover db' \<and> ts_img db' = ts_img db
    \<and> db_lock_cnt (ts_parent db') = db_lock_cnt (ts_parent (tsdb_unlock (tsdb_lock db)))"
proof -
  let ?N = "ts_count db" and ?Z = "tsdb_sec_size db"
  define c where "c = sec_no ?N k0 (length secs - 1)"
  define e where "e = (if last secs = [] then c else Suc c)"
  define e' where "e' = (if k0 = 0 then ?N else Suc c)"
  define st where "st = (\<lambda>a. if e \<le> a \<and> a < e' then FDB_SECTOR_STORE_EMPTY
    else if a = c then FDB_SECTOR_STORE_USING else FDB_SECTOR_STORE_FULL)"
  have f: "ts_ok db" "ts_geom db" "40 < ?Z" "1 < ?N" "k0 < ?N"
    using fl unfolding ts_on_flash_def Let_def by simp_all
  define db0 where "db0 = (tsdb_lock db)\<lparr>ts_max_len := max_len, ts_rollover := True,
      ts_parent := (ts_parent (tsdb_lock db))\<lparr>db_oldest_addr := FDB_DATA_UNUSED\<rparr>,
      ts_cur_sec := (ts_cur_sec db)\<lparr>tsec_addr := FDB_DATA_UNUSED\<rparr>\<rparr>"
  have d0: "ts_ok db0" "ts_img db0 = ts_img db" "tsdb_sec_size db0 = ?Z" "tsdb_max_size db0 = tsdb_max_size db"
    "ts_rollover db0" "ts_max_len db0 = max_len" "tsec_addr (ts_cur_sec db0) = FDB_DATA_UNUSED"
    "db_lock_cnt (ts_parent db0) = db_lock_cnt (db_lock (ts_parent db))"
    "db_unlock_set (ts_parent db0) = db_unlock_set (ts_parent db)"
    using f(1) ts_img_oldest [of FDB_DATA_UNUSED "tsdb_lock db"]
    unfolding db0_def by (simp_all add: ts_img_def ts_ok_def)
  have N0: "ts_count db0 = ?N" "ts_geom db0 = ts_geom db" using d0 by (simp_all add: ts_count_def ts_geom_def)
  have fl': "ts_on_flash (db0\<lparr>ts_cur_sec := cur\<rparr>) (k0, secs)" "ts_count (db0\<lparr>ts_cur_sec := cur\<rparr>) = ?N" for cur
    using ts_on_flash_cong [OF fl, of "db0\<lparr>ts_cur_sec := cur\<rparr>"] d0 by simp_all
  have room': "sec_no (ts_count (db0\<lparr>ts_cur_sec := cur\<rparr>)) k0 (length secs - 1)
      * tsdb_sec_size (db0\<lparr>ts_cur_sec := cur\<rparr>) + 56 + 16 * length (last secs)
      \<le> length (ts_img (db0\<lparr>ts_cur_sec := cur\<rparr>))"
    and re': "hist_reached (ts_count (db0\<lparr>ts_cur_sec := cur\<rparr>)) (k0, secs)" for cur
    using room re d0 fl'(2) by simp_all
  note sf = scan_facts [OF fl'(1) re' room', unfolded fl'(2), folded c_def, folded e_def e'_def]
  have sh: "scan_shape st (ts_count db0) c e e'" using sf(1) N0 by (simp add: st_def)
  have rd: "\<exists>e1 sec1. ts_read_sector_info (db0\<lparr>ts_cur_sec := cur\<rparr>) (a * tsdb_sec_size db0) sec False
      = Some (e1, sec1)"
    and rdt: "\<exists>e2 sec2. ts_read_sector_info (db0\<lparr>ts_cur_sec := cur\<rparr>) (a * tsdb_sec_size db0) sec True
      = Some (e2, sec2) \<and> tsec_check_ok sec2 \<and> tsec_addr sec2 = a * tsdb_sec_size db0
        \<and> tsec_status sec2 = st a" if "a < ts_count db0" for cur sec a
    using sf(2,3) [of a cur sec] that N0 d0 by (simp_all add: st_def)
  have sz: "ts_count db0 < 4294967296" "0 < ts_count db0"
    using f(2,4) N0 by (auto simp: ts_geom_def ts_count_def intro: le_less_trans [OF div_le_dividend])
  have sc: "scan_cur (tsdb_sec_size db0) st c 0 (ts_cur_sec db0)" by (simp add: scan_cur_def d0)
  have g0: "ts_geom db0" using N0 f(2) by simp
  from check_loop [OF g0 sh rd rdt sz sc, of "(junk_tsec (tsdb_stk db0))\<lparr>tsec_addr := 0\<rparr>" 0]
  obtain sec' cur' where
    lp: "ts_sector_iter_loop ts_check_sec_hdr_cb True FDB_SECTOR_STORE_UNUSED
      db0 ((junk_tsec (tsdb_stk db0))\<lparr>tsec_addr := 0\<rparr>) (scan_args ?Z 0 e e' 0) 0 0
      = Some (sec', scan_args ?Z 0 e e' ?N, db0\<lparr>ts_cur_sec := cur'\<rparr>)"
    and cu: "tsec_addr cur' = c * ?Z"
    using sh by (auto simp: scan_cur_def scan_shape_def N0 d0)
  have a0: "scan_args ?Z 0 e e' 0 = \<lparr>chk_failed = False, chk_empty_num = 0, chk_empty_addr = 0\<rparr>"
    by (simp add: scan_args_def)
  have le: "e' \<le> ?N" "c < ?N" using sh N0 by (auto simp: scan_shape_def)
  define db1 where "db1 = db0\<lparr>ts_cur_sec := cur', ts_parent := (ts_parent db0)\<lparr>db_oldest_addr := k0 * ?Z\<rparr>\<rparr>"
  have fo: "ts_find_oldest (db0\<lparr>ts_cur_sec := cur'\<rparr>) (scan_args ?Z 0 e e' ?N) = db1"
  proof -
    have "(if 0 < chk_empty_num (scan_args ?Z 0 e e' ?N) then chk_empty_addr (scan_args ?Z 0 e e' ?N)
        else tsec_addr cur') = (e' - 1) * ?Z"
      using le cu sf(5) by (auto simp: scan_args_def min_def)
    moreover have "Suc (e' - 1) = e'" using sf(5) le by (cases e') (auto simp: e'_def)
    moreover have "u32 ((e' - 1) * ?Z + ?Z) = Suc (e' - 1) * ?Z"
      using geom_facts(4) [of ?Z "tsdb_max_size db" c "e' - 1"] f(2) le
      by (simp add: ts_geom_def ts_count_def add.commute)
    moreover have "(if tsdb_max_size db \<le> e' * ?Z then 0 else e' * ?Z) = k0 * ?Z"
    proof (cases "e' = ?N")
      case True
      then have "k0 = 0" using sf(4) by (simp only: if_True simp_thms)
      then show ?thesis using True geom_count [OF f(2)] by simp
    next
      case False
      then have "k0 = Suc c" using sf(4) by (simp only: if_False simp_thms)
      then have "e' = k0" by (simp add: e'_def)
      moreover have "Suc k0 * ?Z \<le> ?N * ?Z" using f(5) by (intro mult_le_mono1) simp
      ultimately show ?thesis using geom_count [OF f(2)] f(3) by simp
    qed
    ultimately show ?thesis using d0 
      by (auto simp: ts_find_oldest_def Let_def db1_def split: if_splits)
  qed
  have d1: "ts_ok db1" "ts_img db1 = ts_img db" "tsdb_sec_size db1 = ?Z" "tsdb_max_size db1 = tsdb_max_size db"
    "tsdb_oldest_addr db1 = k0 * ?Z" "tsec_addr (ts_cur_sec db1) = c * ?Z"
    using d0 cu ts_img_oldest [of "k0 * ?Z" "db0\<lparr>ts_cur_sec := cur'\<rparr>"] by (simp_all add: db1_def)
  have N1: "ts_on_flash db1 (k0, secs)" "ts_count db1 = ?N"
    using ts_on_flash_cong [OF fl d1(1-4)] by auto
  from init_last_time [OF N1(1)] room d1 N1(2) obtain sec t where
    lt: "ts_init_last_time db1 = Some (db1\<lparr>ts_cur_sec := sec, ts_last_time := t\<rparr>)"
      "ts_state (db1\<lparr>ts_cur_sec := sec, ts_last_time := t\<rparr>) (k0, secs)"
      "concat secs \<noteq> [] \<longrightarrow> t = fst (snd (last (concat secs)))"
    by (auto simp: c_def)
  let ?db = "tsdb_unlock (db1\<lparr>ts_cur_sec := sec, ts_last_time := t\<rparr>)"
  have "tsdb_init_load db max_len = Some (FDB_NO_ERR, ?db)"
  proof -
    have "tsdb_init_load db max_len = do {
        (sector, arg, db) \<leftarrow> ts_sector_iterator db0 ((junk_tsec (tsdb_stk db0))\<lparr>tsec_addr := 0\<rparr>)
          FDB_SECTOR_STORE_UNUSED \<lparr>chk_failed = False, chk_empty_num = 0, chk_empty_addr = 0\<rparr>
          ts_check_sec_hdr_cb True;
        if chk_failed arg \<and> db_not_formatable (ts_parent db) then Some (FDB_READ_ERR, db)
        else do {
          db \<leftarrow> (if chk_failed arg then tsl_format_all db else Some (ts_find_oldest db arg));
          db \<leftarrow> ts_init_last_time db;
          Some (FDB_NO_ERR, tsdb_unlock db)
        }
      }"
      using max unfolding tsdb_init_load_def Let_def db0_def by simp
    moreover have "\<not> chk_failed (scan_args ?Z 0 e e' ?N)" by (simp add: scan_args_def Let_def)
    ultimately show ?thesis using lp [unfolded a0] fo lt(1) by (simp add: ts_sector_iterator_def)
  qed
  moreover have "ts_state ?db (k0, secs)" using lt(2) by simp
  moreover have "ts_img ?db = ts_img db" using d1(2) by (simp add: ts_img_def)
  moreover have "db_lock_cnt (ts_parent ?db) = db_lock_cnt (ts_parent (tsdb_unlock (tsdb_lock db)))"
    using d0(8,9) by (simp add: db1_def db_unlock_def)
  ultimately show ?thesis using lt(3) d0 by (intro exI [of _ ?db]) (simp add: db1_def)
qed


subsection \<open>Initialisation on a flash without a database\<close>

text \<open>The first sector has no magic word: all sectors are formatted.\<close>

lemma fresh_load:
  assumes ok: "ts_ok db" "ts_geom db" "40 < tsdb_sec_size db" "tsdb_max_size db \<le> length (ts_img db)"
    and N: "1 < ts_count db" and max: "max_len < tsdb_sec_size db"
    and fm: "\<not> db_not_formatable (ts_parent db)"
    and rd: "\<forall>j<ts_count db. ts_readable (ts_img db) (j * tsdb_sec_size db)"
    and mg: "of_le32 (slice 4 4 (ts_img db)) \<noteq> TS_SECTOR_MAGIC_WORD"
  shows "\<exists>db'. tsdb_init_load db max_len = Some (FDB_NO_ERR, db') \<and> ts_state db' (0, [[]])
    \<and> ts_last_time db' = 0 \<and> ts_max_len db' = max_len \<and> ts_rollover db'
    \<and> db_lock_cnt (ts_parent db') = db_lock_cnt (ts_parent (tsdb_unlock (tsdb_lock db)))"
proof -
  let ?N = "ts_count db" and ?Z = "tsdb_sec_size db"
  define db0 where "db0 = (tsdb_lock db)\<lparr>ts_max_len := max_len, ts_rollover := True,
      ts_parent := (ts_parent (tsdb_lock db))\<lparr>db_oldest_addr := FDB_DATA_UNUSED\<rparr>,
      ts_cur_sec := (ts_cur_sec db)\<lparr>tsec_addr := FDB_DATA_UNUSED\<rparr>\<rparr>"
  have d0: "ts_ok db0" "ts_img db0 = ts_img db" "tsdb_sec_size db0 = ?Z" "tsdb_max_size db0 = tsdb_max_size db"
    "ts_rollover db0" "ts_max_len db0 = max_len" "\<not> db_not_formatable (ts_parent db0)"
    "db_lock_cnt (ts_parent db0) = db_lock_cnt (db_lock (ts_parent db))"
    "db_unlock_set (ts_parent db0) = db_unlock_set (ts_parent db)"
    using ok(1) fm ts_img_oldest [of FDB_DATA_UNUSED "tsdb_lock db"]
    unfolding db0_def by (simp_all add: ts_img_def ts_ok_def)
  have N0: "ts_count db0 = ?N" "ts_geom db0 = ts_geom db" using d0 by (simp_all add: ts_count_def ts_geom_def)
  have "?N * ?Z = tsdb_max_size db" "1 * ?Z \<le> ?N * ?Z"
    using geom_count [OF ok(2)] mult_le_mono1 [of 1 ?N ?Z] N by linarith+
  then have l: "0 + 40 \<le> length (ts_img db0)" using ok(3,4) d0 by simp
  have rd0: "ts_readable (ts_img db0) 0" using rd [rule_format, of 0] N d0(2) by simp
  from read_any [OF d0(1) l rd0, of "(junk_tsec (tsdb_stk db0))\<lparr>tsec_addr := 0\<rparr>"] obtain e1 sec1 where
    r1: "ts_read_sector_info db0 0 ((junk_tsec (tsdb_stk db0))\<lparr>tsec_addr := 0\<rparr>) False = Some (e1, sec1)" by blast
  have rt: "\<exists>e2 sec2. ts_read_sector_info db0 0 sec True = Some (e2, sec2) \<and> \<not> tsec_check_ok sec2" for sec
  proof -
    have "ts_flash_read db0 0 (replicate 40 (tsdb_stk db0)) = Some (FDB_NO_ERR, slice 0 40 (ts_img db0))"
      using d0(1) l by (subst tsf.rd_in) auto
    moreover have "slice 4 4 (slice 0 40 (ts_img db0)) = slice 4 4 (ts_img db0)"
      using slice_slice [of 4 4 40 0] by simp
    ultimately show ?thesis using mg d0(2)
      by (simp add: ts_read_sector_info_def Let_def TS_SECTOR_HDR_DATA_SIZE_def)
  qed
  from rt [of sec1] obtain e2 sec2 where r2: "ts_read_sector_info db0 0 sec1 True = Some (e2, sec2)"
    "\<not> tsec_check_ok sec2" by blast
  let ?a0 = "\<lparr>chk_failed = False, chk_empty_num = 0, chk_empty_addr = 0\<rparr>"
  have lp: "ts_sector_iterator db0 ((junk_tsec (tsdb_stk db0))\<lparr>tsec_addr := 0\<rparr>) FDB_SECTOR_STORE_UNUSED ?a0
      ts_check_sec_hdr_cb True = Some (sec2, ?a0\<lparr>chk_failed := True\<rparr>, db0)"
    using r1 r2 unfolding ts_sector_iterator_def
    by (subst ts_sector_iter_loop.simps) (simp add: ts_check_sec_hdr_cb_def)
  have pre: "ts_geom db0" "40 < tsdb_sec_size db0" "tsdb_max_size db0 \<le> length (ts_img db0)" "1 < ts_count db0"
    "\<forall>j<ts_count db0. ts_readable (ts_img db0) (j * tsdb_sec_size db0)"
    using ok N rd d0 N0 by simp_all
  from format_all_state [OF d0(1) pre] obtain db1 where
    fa: "tsl_format_all db0 = Some db1" "ts_state db1 (0, [[]])" "ts_last_time db1 = 0"
      "ts_same db0 (db1\<lparr>ts_last_time := ts_last_time db0\<rparr>)" by blast
  have st1: "tsdb_oldest_addr db1 = 0 * tsdb_sec_size db1"
    "tsec_addr (ts_cur_sec db1) = sec_no (ts_count db1) 0 (length [[] :: ts_log list] - 1) * tsdb_sec_size db1"
    "40 < tsdb_sec_size db1" "tsdb_max_size db1 \<le> length (ts_img db1)" "ts_geom db1" "1 < ts_count db1"
    using fa(2) unfolding ts_state_def Let_def by simp_all
  have "ts_count db1 * tsdb_sec_size db1 = tsdb_max_size db1" "2 * tsdb_sec_size db1 \<le> ts_count db1 * tsdb_sec_size db1"
    using geom_count [OF st1(5)] st1(6) mult_le_mono1 [of 2 "ts_count db1" "tsdb_sec_size db1"] by linarith+
  then have rm: "tsec_addr (ts_cur_sec db1) + 56 + 16 * length (last [[] :: ts_log list]) \<le> length (ts_img db1)"
    using st1 by (simp add: sec_no_def)
  from init_last_time [OF ts_state_on_flash [OF fa(2)] st1(1,2) rm] obtain sec t where
    lt: "ts_init_last_time db1 = Some (db1\<lparr>ts_cur_sec := sec, ts_last_time := t\<rparr>)"
      "ts_state (db1\<lparr>ts_cur_sec := sec, ts_last_time := t\<rparr>) (0, [[]])" "t = ts_last_time db1" by blast
  have t0: "t = 0" using lt(3) fa(3) by simp
  let ?db = "tsdb_unlock (db1\<lparr>ts_cur_sec := sec, ts_last_time := t\<rparr>)"
  have "tsdb_init_load db max_len = do {
      (sector, arg, db) \<leftarrow> ts_sector_iterator db0 ((junk_tsec (tsdb_stk db0))\<lparr>tsec_addr := 0\<rparr>)
        FDB_SECTOR_STORE_UNUSED ?a0 ts_check_sec_hdr_cb True;
      if chk_failed arg \<and> db_not_formatable (ts_parent db) then Some (FDB_READ_ERR, db)
      else do {
        db \<leftarrow> (if chk_failed arg then tsl_format_all db else Some (ts_find_oldest db arg));
        db \<leftarrow> ts_init_last_time db;
        Some (FDB_NO_ERR, tsdb_unlock db)
      }
    }"
    using max unfolding tsdb_init_load_def Let_def db0_def by simp
  then have "tsdb_init_load db max_len = Some (FDB_NO_ERR, ?db)" using lp fa(1) lt(1) d0(7) by simp
  moreover have "ts_max_len db1 = max_len" "ts_rollover db1"
    "db_lock_cnt (ts_parent db1) = db_lock_cnt (ts_parent db0)"
    "db_unlock_set (ts_parent db1) = db_unlock_set (ts_parent db0)"
    using fa(4) d0 by (auto simp: ts_same_def)
  ultimately show ?thesis using lt(2) t0 d0 by (intro exI [of _ ?db]) (simp add: db_unlock_def)
qed

end
