(* ===== verification/Tsdb_Props.thy ===== *)
theory Tsdb_Props
  imports Tsdb_Boot
begin

text \<open>
  The properties of the time series database, with a small database on the RAM device as their
  concrete input: three sectors of 128 bytes.
\<close>

subsection \<open>A small database\<close>

definition ram_ts :: fdb_tsdb where
  "ram_ts = \<lparr>ts_parent = ram_db 384 128, ts_cur_sec = junk_tsec 0, ts_last_time = 0, ts_max_len = 64,
     ts_rollover = True\<rparr>"

definition demo_ts :: fdb_tsdb where
  "demo_ts = the (tsl_format_all ram_ts)"

lemma ram_ts_facts:
  "ts_ok ram_ts" "ts_geom ram_ts" "40 < tsdb_sec_size ram_ts" "tsdb_sec_size ram_ts = 128"
  "tsdb_max_size ram_ts \<le> length (ts_img ram_ts)"
  "ts_count ram_ts = 3" "1 < ts_count ram_ts" "ts_img ram_ts = replicate 384 FDB_BYTE_ERASED"
  by (simp_all add: ts_ok_def ts_img_def ram_ts_def ram_db_ok) (simp_all add: ram_db_def ts_geom_def ts_count_def)

lemma erased_word: "S + 8 \<le> n \<Longrightarrow> of_le32 (slice (S + 4) 4 (replicate n FDB_BYTE_ERASED)) = 0xFFFFFFFF"
proof -
  assume "S + 8 \<le> n"
  then have "slice (S + 4) 4 (replicate n FDB_BYTE_ERASED) = replicate 4 FDB_BYTE_ERASED"
    by (simp add: slice_def)
  also have "\<dots> = [FDB_BYTE_ERASED, FDB_BYTE_ERASED, FDB_BYTE_ERASED, FDB_BYTE_ERASED]"
    by (simp add: numeral_eq_Suc)
  finally show ?thesis by (simp add: of_le32_def FDB_BYTE_ERASED_def)
qed

lemma ram_ts_readable: "\<forall>j<ts_count ram_ts. ts_readable (ts_img ram_ts) (j * tsdb_sec_size ram_ts)"
  by (auto simp: ts_readable_def ram_ts_facts erased_word TS_SECTOR_MAGIC_WORD_def)

lemma demo_ts_state:
  "ts_state demo_ts (0, [[]])" "ts_last_time demo_ts = 0" "ts_max_len demo_ts = 64" "ts_rollover demo_ts"
  "db_lock_set (ts_parent demo_ts) = db_unlock_set (ts_parent demo_ts)" "db_init_ok (ts_parent demo_ts)"
  "tsdb_sec_size demo_ts = 128" "ts_count demo_ts = 3"
proof -
  from format_all_state [OF ram_ts_facts(1,2,3,5,7) ram_ts_readable] obtain db where
    d: "tsl_format_all ram_ts = Some db" "ts_state db (0, [[]])" "ts_last_time db = 0"
      "ts_same ram_ts (db\<lparr>ts_last_time := ts_last_time ram_ts\<rparr>)" by blast
  then have e: "demo_ts = db" by (simp add: demo_ts_def)
  have "ts_last_time ram_ts = 0" by (simp add: ram_ts_def)
  show "ts_state demo_ts (0, [[]])" "ts_last_time demo_ts = 0" using d e by simp_all
  show "ts_max_len demo_ts = 64" "ts_rollover demo_ts"
    "db_lock_set (ts_parent demo_ts) = db_unlock_set (ts_parent demo_ts)" "db_init_ok (ts_parent demo_ts)"
    "tsdb_sec_size demo_ts = 128" "ts_count demo_ts = 3"
    using d(4) ram_ts_facts(4,6) ts_same_geom(2) [OF d(4)] unfolding e
    by (simp_all add: ts_same_def) (simp_all add: ram_ts_def ram_db_def)
qed

subsection \<open>Appending\<close>

text \<open>The bytes of a sector that its logs use.\<close>

definition sec_used :: "ts_log list \<Rightarrow> nat" where
  "sec_used ls = 40 + (\<Sum>(st, t, bs)\<leftarrow>ls. 16 + length bs)"

lemma logs_end_used:
  assumes "S + 40 + 16 * length ls \<le> logs_end (S + Z) ls"
  shows "logs_end (S + Z) ls - (S + 40 + 16 * length ls) = Z - sec_used ls \<and> sec_used ls \<le> Z"
proof -
  define x where "x = (\<Sum>(st, t, bs)\<leftarrow>ls. length bs)"
  have e: "logs_end d ls = d - x" for d
    unfolding x_def by (induction d ls rule: logs_end.induct) auto
  have u: "sec_used ls = 40 + (16 * length ls + x)"
    unfolding x_def sec_used_def by (induction ls) auto
  show ?thesis using assms unfolding e u by arith
qed

lemma remain_used:
  assumes "ts_rep db ls"
  shows "tsec_remain (ts_cur_sec db) = tsdb_sec_size db - sec_used ls" "sec_used ls \<le> tsdb_sec_size db"
  using assms logs_end_used [of "tsec_addr (ts_cur_sec db)" ls "tsdb_sec_size db"]
  by (simp_all add: ts_rep_def Let_def ts_sector_def)

lemma ts_same_locked:
  "ts_same (tsdb_lock db) x \<Longrightarrow> db_lock_set (ts_parent db) = db_unlock_set (ts_parent db)
    \<Longrightarrow> ts_same db (tsdb_unlock x)"
  by (simp add: ts_same_def stk_def)

lemma tsdb_unlock_time: "(tsdb_unlock db)\<lparr>ts_last_time := t\<rparr> = tsdb_unlock (db\<lparr>ts_last_time := t\<rparr>)"
  by (simp add: tsdb_unlock_def)

lemma ts_state_rep: "ts_state db (k0, secs) \<Longrightarrow> ts_rep db (last secs)"
  by (simp add: ts_state_def Let_def)

text \<open>The small database after one append.\<close>

definition demo_ts1 :: fdb_tsdb where
  "demo_ts1 = snd (the (tsl_append demo_ts (demo_blob [1, 2, 3]) (Some 5) 0))"

lemma demo_ts1_state:
  "ts_state demo_ts1 (0, [[(FDB_TSL_WRITE, 5, [1, 2, 3])]])" "ts_last_time demo_ts1 = 5"
  "db_lock_set (ts_parent demo_ts1) = db_unlock_set (ts_parent demo_ts1)" "ts_rollover demo_ts1"
  "tsdb_sec_size demo_ts1 = 128" "ts_count demo_ts1 = 3" "length (ts_img demo_ts1) = 384"
  "db_init_ok (ts_parent demo_ts1)" "ts_max_len demo_ts1 = 64"
proof -
  have r: "tsec_remain (ts_cur_sec demo_ts) = 88"
    using remain_used(1) [OF ts_state_rep [OF demo_ts_state(1)]] demo_ts_state(7) by (simp add: sec_used_def)
  have il: "length (ts_img demo_ts) = 384"
    using format_all_state [OF ram_ts_facts(1,2,3,5,7) ram_ts_readable] ram_ts_facts(8)
    by (auto simp: demo_ts_def ts_same_def)
  from append_fits_state [OF demo_ts_state(1), of "demo_blob [1, 2, 3]" "[1, 2, 3]" 5 0 "Some 5"] obtain db where
    a: "tsl_append demo_ts (demo_blob [1, 2, 3]) (Some 5) 0 = Some (FDB_NO_ERR, db)"
      "ts_state db (0, [[(FDB_TSL_WRITE, 5, [1, 2, 3])]])"
      "ts_same demo_ts (db\<lparr>ts_last_time := ts_last_time demo_ts\<rparr>)" "ts_last_time db = 5"
    using r demo_ts_state by (auto simp: demo_blob_def hist_append_def)
  have e: "demo_ts1 = db" using a(1) by (simp add: demo_ts1_def)
  show "ts_state demo_ts1 (0, [[(FDB_TSL_WRITE, 5, [1, 2, 3])]])" "ts_last_time demo_ts1 = 5"
    using a e by simp_all
  show "db_lock_set (ts_parent demo_ts1) = db_unlock_set (ts_parent demo_ts1)" "ts_rollover demo_ts1"
    "tsdb_sec_size demo_ts1 = 128" "ts_count demo_ts1 = 3" "length (ts_img demo_ts1) = 384"
    "db_init_ok (ts_parent demo_ts1)" "ts_max_len demo_ts1 = 64"
    using a(3) demo_ts_state(3-) ts_same_geom [OF a(3)] il unfolding e by (simp_all add: ts_same_def)
qed

text \<open>C4: Appending a log with a time stamp implements the abstract history: when the log and its
  index fit in the current sector, it is added there; otherwise the next sector is opened with it,
  and when all sectors are used the logs of the oldest one are dropped. The time stamp is
  remembered, and everything else of the database, the lock count included, is as before.\<close>

theorem ts_append_refines:
  assumes "ts_state db h" "db_init_ok (ts_parent db)" "ts_rollover db"
    and "db_lock_set (ts_parent db) = db_unlock_set (ts_parent db)"
    and "blob_buf blob = Some buf" "blob_size blob \<le> length buf"
    and "blob_size blob \<le> ts_max_len db" "56 + blob_size blob \<le> tsdb_sec_size db"
    and "ts_last_time db < t" "- 2147483648 \<le> t" "t < 2147483648"
  shows "\<exists>db'. fdb_tsl_append_with_ts db blob t = Some (FDB_NO_ERR, db')
    \<and> ts_state db' (hist_append (ts_count db)
        (sec_used (last (snd h)) + 16 + blob_size blob \<le> tsdb_sec_size db) h
        (FDB_TSL_WRITE, t, take (blob_size blob) buf))
    \<and> ts_last_time db' = t \<and> ts_same db (db'\<lparr>ts_last_time := ts_last_time db\<rparr>)"
proof -
  obtain k0 secs where h: "h = (k0, secs)" by (cases h)
  have st: "ts_state (tsdb_lock db) (k0, secs)" using assms(1) h by simp
  have l: "ts_count (tsdb_lock db) = ts_count db" "ts_rollover (tsdb_lock db)"
    using assms(3) by (simp_all add: ts_count_def tsdb_lock_def)
  have ru: "tsec_remain (ts_cur_sec db) = tsdb_sec_size db - sec_used (last secs)"
    "sec_used (last secs) \<le> tsdb_sec_size db"
    using remain_used [OF ts_state_rep [OF assms(1) [unfolded h]]] by simp_all
  have stamp: "(case Some t of None \<Rightarrow> 0 | Some u \<Rightarrow> u) = t" by simp
  let ?fits = "sec_used (last secs) + 16 + blob_size blob \<le> tsdb_sec_size db"
  have "\<exists>db'. tsl_append (tsdb_lock db) blob (Some t) 0 = Some (FDB_NO_ERR, db')
    \<and> ts_state db' (hist_append (ts_count db) ?fits (k0, secs) (FDB_TSL_WRITE, t, take (blob_size blob) buf))
    \<and> ts_same (tsdb_lock db) (db'\<lparr>ts_last_time := ts_last_time (tsdb_lock db)\<rparr>) \<and> ts_last_time db' = t"
  proof (cases ?fits)
    case True
    then show ?thesis
      using append_fits_state [OF st assms(5,6) _ _ _ assms(10,11) stamp] assms(7,9) ru l by simp
  next
    case False
    then show ?thesis
      using append_roll_state [OF st assms(5,6) _ _ _ _ assms(10,11) stamp l(2)] assms(7,8,9) ru l by simp
  qed
  then obtain db' where a: "tsl_append (tsdb_lock db) blob (Some t) 0 = Some (FDB_NO_ERR, db')"
    "ts_state db' (hist_append (ts_count db) ?fits (k0, secs) (FDB_TSL_WRITE, t, take (blob_size blob) buf))"
    "ts_same (tsdb_lock db) (db'\<lparr>ts_last_time := ts_last_time db\<rparr>)" "ts_last_time db' = t" by auto
  have "ts_same db ((tsdb_unlock db')\<lparr>ts_last_time := ts_last_time db\<rparr>)"
    unfolding tsdb_unlock_time by (rule ts_same_locked [OF a(3) assms(4)])
  then show ?thesis using a assms(2) h
    by (intro exI [of _ "tsdb_unlock db'"]) (simp add: fdb_tsl_append_with_ts_def)
qed

theorem ts_append_refines_witness:
  "\<exists>db'. fdb_tsl_append_with_ts demo_ts (demo_blob [1, 2, 3]) 5 = Some (FDB_NO_ERR, db')
    \<and> ts_state db' (0, [[(FDB_TSL_WRITE, 5, [1, 2, 3])]]) \<and> ts_last_time db' = 5"
proof -
  have "ts_state demo_ts (0, [[]])" by (rule demo_ts_state)
  from ts_append_refines [OF this, of "demo_blob [1, 2, 3]" "[1, 2, 3]" 5] demo_ts_state(2-) show ?thesis
    by (auto simp: demo_blob_def hist_append_def sec_used_def)
qed


subsection \<open>Iterating\<close>

lemma fdb_tsl_iter_hist:
  assumes "ts_state db h" "db_lock_set (ts_parent db) = db_unlock_set (ts_parent db)"
  shows "fdb_tsl_iter db (Some (pure_cb f)) a = Some (snd (run_cb f (hist_tsls db h) a), db)"
  using assms iter_hist [of "tsdb_lock db" h f "junk_tsec (tsdb_stk db)" "junk_tsl (tsdb_stk db)" a]
  by (simp add: fdb_tsl_iter_def unlock_lock)

lemma hist_tsls_map:
  assumes "ts_state db (k0, secs)"
  shows "hist_tsls db (k0, secs) = concat (map (\<lambda>q. tsls (sec_no (ts_count db) k0 q * tsdb_sec_size db + 40)
    (sec_no (ts_count db) k0 q * tsdb_sec_size db + tsdb_sec_size db) (secs ! q)) [0..<length secs])"
proof -
  have s: "k0 < ts_count db" "length secs \<le> ts_count db"
    using assms unfolding ts_state_def Let_def by simp_all
  have "sector_tsls db (hist_sector (ts_count db) (k0, secs)) (sec_no (ts_count db) k0 q)
    = tsls (sec_no (ts_count db) k0 q * tsdb_sec_size db + 40)
    (sec_no (ts_count db) k0 q * tsdb_sec_size db + tsdb_sec_size db) (secs ! q)" if "q < length secs" for q
    using that s hist_sector_no [OF s(1), of q secs] by (simp add: sector_tsls_def)
  then show ?thesis using hist_tsls_used [OF s]
    by (auto intro!: arg_cong [where f = concat] map_cong)
qed

text \<open>C11: Iterating over the database delivers the logs of the history in order, oldest first, each
  with its status, its time and a blob that reads as its data, until the callback stops; the
  database, with its lock count, is as before.\<close>

theorem ts_iter_in_order:
  assumes "ts_state db h" "db_lock_set (ts_parent db) = db_unlock_set (ts_parent db)"
  shows "\<exists>xs. list_all2 (tsl_shows db) xs (hist_logs h)
    \<and> (\<forall>f a. fdb_tsl_iter db (Some (pure_cb f)) a = Some (snd (run_cb f xs a), db))"
proof -
  obtain k0 secs where h: "h = (k0, secs)" by (cases h)
  show ?thesis
  proof (intro exI conjI allI)
    show "list_all2 (tsl_shows db) (hist_tsls db h) (hist_logs h)"
      using hist_tsls_shows [OF assms(1) [unfolded h]] by (simp add: h)
  qed (rule fdb_tsl_iter_hist [OF assms])
qed

theorem ts_iter_in_order_witness:
  "fdb_tsl_iter demo_ts1 (Some (pure_cb (\<lambda>x n. (False, n + tsl_time x)))) 0 = Some (5, demo_ts1)"
proof -
  obtain xs where x: "list_all2 (tsl_shows demo_ts1) xs [(FDB_TSL_WRITE, 5, [1, 2, 3])]"
    "\<forall>f a. fdb_tsl_iter demo_ts1 (Some (pure_cb f)) (a :: int) = Some (snd (run_cb f xs a), demo_ts1)"
    using ts_iter_in_order [OF demo_ts1_state(1,3)] by auto
  then show ?thesis by (auto simp: list_all2_Cons2 tsl_shows_def)
qed

text \<open>C26: Iterating in reverse delivers the same logs, newest first, when the current sector
  holds a log.\<close>

theorem ts_iter_reverse_order:
  assumes "ts_state db h" "last (snd h) \<noteq> []" "db_lock_set (ts_parent db) = db_unlock_set (ts_parent db)"
  shows "\<exists>xs. list_all2 (tsl_shows db) xs (rev (hist_logs h))
    \<and> (\<forall>f a. fdb_tsl_iter_reverse db (Some (pure_cb f)) a = Some (snd (run_cb f xs a), db))"
proof -
  obtain k0 secs where h: "h = (k0, secs)" by (cases h)
  have st: "ts_state (tsdb_lock db) (k0, secs)" using assms(1) h by simp
  have s: "secs \<noteq> []"
    "tsec_addr (ts_cur_sec db) = sec_no (ts_count db) k0 (length secs - 1) * tsdb_sec_size db"
    using assms(1) unfolding h ts_state_def Let_def by simp_all
  have m: "length secs - 1 < length secs" "Suc (length secs - 1) = length secs" using s(1) by (cases secs; simp)+
  have c: "ts_count (tsdb_lock db) = ts_count db" by (simp add: ts_count_def)
  show ?thesis
  proof (intro exI conjI allI)
    show "list_all2 (tsl_shows db) (rev (hist_tsls db h)) (rev (hist_logs h))"
      using hist_tsls_shows [OF assms(1) [unfolded h]] by (simp add: h)
  next
    fix f :: "fdb_tsl \<Rightarrow> 'a \<Rightarrow> bool \<times> 'a" and a
    show "fdb_tsl_iter_reverse db (Some (pure_cb f)) a = Some (snd (run_cb f (rev (hist_tsls db h)) a), db)"
      using iter_rev_down [OF st _ m(1), of f "junk_tsec (tsdb_stk db)" "junk_tsl (tsdb_stk db)" a,
          unfolded m(2)] hist_tsls_map [OF assms(1) [unfolded h]] assms(2,3) s(2)
      by (simp add: fdb_tsl_iter_reverse_def h c unlock_lock)
  qed
qed

theorem ts_iter_reverse_order_witness:
  "fdb_tsl_iter_reverse demo_ts1 (Some (pure_cb (\<lambda>x n. (False, n + tsl_time x)))) 0 = Some (5, demo_ts1)"
proof -
  obtain xs where x: "list_all2 (tsl_shows demo_ts1) xs [(FDB_TSL_WRITE, 5, [1, 2, 3])]"
    "\<forall>f a. fdb_tsl_iter_reverse demo_ts1 (Some (pure_cb f)) (a :: int) = Some (snd (run_cb f xs a), demo_ts1)"
    using ts_iter_reverse_order [OF demo_ts1_state(1) _ demo_ts1_state(3)] by auto
  then show ?thesis by (auto simp: list_all2_Cons2 tsl_shows_def)
qed

subsection \<open>Initialisation\<close>

text \<open>C7: Initialising a database on a flash that holds a history, whatever its RAM copy was,
  recovers this history, the time stamp of its last log and the current sector, and leaves the
  flash as it is. The current sector must leave room for reading one more index before the end
  of the partition.\<close>

theorem ts_reboot_recovers:
  assumes "ts_state db h" "hist_reached (ts_count db) h"
    and "tsec_addr (ts_cur_sec db) + 56 + 16 * length (last (snd h)) \<le> length (ts_img db)"
    and "ts_ok db2" "ts_img db2 = ts_img db" "tsdb_sec_size db2 = tsdb_sec_size db"
    and "tsdb_max_size db2 = tsdb_max_size db" "max_len < tsdb_sec_size db"
  shows "\<exists>db'. tsdb_init_load db2 max_len = Some (FDB_NO_ERR, db') \<and> ts_state db' h
    \<and> (hist_logs h \<noteq> [] \<longrightarrow> ts_last_time db' = fst (snd (last (hist_logs h))))
    \<and> ts_max_len db' = max_len \<and> ts_rollover db' \<and> ts_img db' = ts_img db"
proof -
  obtain k0 secs where h: "h = (k0, secs)" by (cases h)
  note fl = ts_on_flash_cong [OF ts_state_on_flash [OF assms(1) [unfolded h]] assms(4-7)]
  have "tsec_addr (ts_cur_sec db) = sec_no (ts_count db) k0 (length secs - 1) * tsdb_sec_size db"
    using assms(1) unfolding h ts_state_def Let_def by simp
  then show ?thesis
    using boot_load [OF fl(1), of max_len] fl(2) assms(2,3,5,6,8) by (auto simp: h)
qed

theorem ts_reboot_recovers_witness:
  "\<exists>db'. tsdb_init_load (demo_ts1\<lparr>ts_cur_sec := junk_tsec 7, ts_last_time := 0\<rparr>) 64 = Some (FDB_NO_ERR, db')
    \<and> ts_state db' (0, [[(FDB_TSL_WRITE, 5, [1, 2, 3])]]) \<and> ts_last_time db' = 5"
proof -
  have "ts_ok demo_ts1" "tsec_addr (ts_cur_sec demo_ts1) = 0"
    using demo_ts1_state(1) unfolding ts_state_def Let_def by (simp_all add: sec_no_def)
  then show ?thesis
    using ts_reboot_recovers [OF demo_ts1_state(1), of "demo_ts1\<lparr>ts_cur_sec := junk_tsec 7, ts_last_time := 0\<rparr>" 64]
      demo_ts1_state(5-7) by (auto simp: hist_reached_def)
qed

text \<open>C27: Initialising a database on a flash whose first sector has no magic word formats all
  sectors, if formatting is allowed, and gives the empty history with the first sector current.\<close>

theorem ts_init_fresh:
  assumes "ts_ok db" "ts_geom db" "40 < tsdb_sec_size db" "tsdb_max_size db \<le> length (ts_img db)"
    and "1 < ts_count db" "max_len < tsdb_sec_size db" "\<not> db_not_formatable (ts_parent db)"
    and "\<forall>j<ts_count db. ts_readable (ts_img db) (j * tsdb_sec_size db)"
    and "of_le32 (slice 4 4 (ts_img db)) \<noteq> TS_SECTOR_MAGIC_WORD"
  shows "\<exists>db'. tsdb_init_load db max_len = Some (FDB_NO_ERR, db') \<and> ts_state db' (0, [[]])
    \<and> ts_last_time db' = 0 \<and> ts_max_len db' = max_len \<and> ts_rollover db'"
  using fresh_load [OF assms] by blast

theorem ts_init_fresh_witness:
  "\<exists>db'. tsdb_init_load ram_ts 64 = Some (FDB_NO_ERR, db') \<and> ts_state db' (0, [[]])"
proof -
  have "\<not> db_not_formatable (ts_parent ram_ts)" by (simp add: ram_ts_def ram_db_def)
  moreover have "of_le32 (slice 4 4 (ts_img ram_ts)) \<noteq> TS_SECTOR_MAGIC_WORD"
    using erased_word [of 0 384] by (simp add: ram_ts_facts TS_SECTOR_MAGIC_WORD_def)
  ultimately show ?thesis
    using ts_init_fresh [OF ram_ts_facts(1-3,5,7) _ _ ram_ts_readable, of 64] ram_ts_facts(4) by auto
qed

text \<open>C38: Cleaning a database formats every sector: the history is empty, the first sector is the
  current and the oldest one, and the last time stamp is 0.\<close>

theorem ts_clean_empties:
  assumes "ts_ok db" "ts_geom db" "40 < tsdb_sec_size db" "tsdb_max_size db \<le> length (ts_img db)"
    and "1 < ts_count db" "\<forall>j<ts_count db. ts_readable (ts_img db) (j * tsdb_sec_size db)"
  shows "\<exists>db'. fdb_tsl_clean db = Some db' \<and> ts_state db' (0, [[]]) \<and> ts_last_time db' = 0"
proof -
  have "ts_ok (tsdb_lock db)" "ts_geom (tsdb_lock db)" "40 < tsdb_sec_size (tsdb_lock db)"
    "tsdb_max_size (tsdb_lock db) \<le> length (ts_img (tsdb_lock db))" "1 < ts_count (tsdb_lock db)"
    "\<forall>j<ts_count (tsdb_lock db). ts_readable (ts_img (tsdb_lock db)) (j * tsdb_sec_size (tsdb_lock db))"
    using assms by (simp_all add: ts_geom_def ts_count_def)
  from format_all_state [OF this] show ?thesis by (auto simp: fdb_tsl_clean_def)
qed

theorem ts_clean_empties_witness:
  "\<exists>db'. fdb_tsl_clean ram_ts = Some db' \<and> ts_state db' (0, [[]])"
  using ts_clean_empties [OF ram_ts_facts(1-3,5,7) ram_ts_readable] by blast


subsection \<open>Refused appends\<close>

text \<open>C37: An append to a database that is not initialised, of a blob longer than the maximum, or
  with a time stamp not after the last one, is refused with the documented error and changes
  nothing, the lock count included; with and without an explicit time stamp.\<close>

theorem ts_append_rejects:
  assumes "db_lock_set (ts_parent db) = db_unlock_set (ts_parent db)"
  shows "(\<not> db_init_ok (ts_parent db) \<longrightarrow>
        fdb_tsl_append_with_ts db blob t = Some (FDB_INIT_FAILED, db)
      \<and> fdb_tsl_append db blob t = Some (FDB_INIT_FAILED, db))
    \<and> (db_init_ok (ts_parent db) \<and> (ts_max_len db < blob_size blob \<or> t \<le> ts_last_time db) \<longrightarrow>
        fdb_tsl_append_with_ts db blob t = Some (FDB_WRITE_ERR, db)
      \<and> fdb_tsl_append db blob t = Some (FDB_WRITE_ERR, db))"
  using unlock_lock [OF assms]
  by (auto simp: fdb_tsl_append_with_ts_def fdb_tsl_append_def tsl_append_def Let_def)

theorem ts_append_rejects_witness:
  "fdb_tsl_append_with_ts demo_ts1 (demo_blob [1]) 5 = Some (FDB_WRITE_ERR, demo_ts1)"
  using ts_append_rejects [OF demo_ts1_state(3), of "demo_blob [1]" 5] demo_ts1_state(2,8) by simp

text \<open>C36: Without rollover, an append that does not fit in the last sector is refused with
  \<open>FDB_SAVED_FULL\<close>; all logs of the history stay readable in closed sectors, and every later
  append of an acceptable log is refused in the same way, without a change.\<close>

theorem ts_append_saved_full:
  assumes "ts_state db (k0, secs)" "db_init_ok (ts_parent db)" "\<not> ts_rollover db"
    and "db_lock_set (ts_parent db) = db_unlock_set (ts_parent db)"
    and "sec_no (ts_count db) k0 (length secs - 1) = ts_count db - 1" "last secs \<noteq> []"
    and "blob_size blob \<le> ts_max_len db" "blob_size blob < 2147483648" "ts_last_time db < t"
    and "tsdb_sec_size db < sec_used (last secs) + 16 + blob_size blob"
  shows "\<exists>db'. fdb_tsl_append_with_ts db blob t = Some (FDB_SAVED_FULL, db')
    \<and> (\<forall>q<length secs. ts_full (ts_img db') (sec_no (ts_count db) k0 q * tsdb_sec_size db)
          (tsdb_sec_size db) (secs ! q))
    \<and> (\<forall>b u. blob_size b \<le> ts_max_len db \<and> ts_last_time db < u
          \<longrightarrow> fdb_tsl_append_with_ts db' b u = Some (FDB_SAVED_FULL, db'))"
proof -
  let ?N = "ts_count db" and ?Z = "tsdb_sec_size db" and ?d = "tsdb_lock db"
  let ?k = "sec_no ?N k0 (length secs - 1)"
  have s: "ts_ok db" "ts_geom db" "40 < ?Z" "tsdb_max_size db \<le> length (ts_img db)" "1 < ?N" "k0 < ?N"
    "secs \<noteq> []" "length secs \<le> ?N" "tsec_addr (ts_cur_sec db) = ?k * ?Z" "ts_rep db (last secs)"
    "\<forall>q<length secs - 1. ts_full (ts_img db) (sec_no ?N k0 q * ?Z) ?Z (secs ! q)"
    using assms(1) unfolding ts_state_def Let_def by simp_all
  define S where "S = ?k * ?Z"
  have kN: "?k < ?N" using s(5) by simp
  have SZ: "S + ?Z = tsdb_max_size db"
  proof -
    have "S + ?Z = Suc (?N - 1) * ?Z" unfolding S_def assms(5) by simp
    also have "\<dots> = ?N * ?Z" using s(5) by simp
    finally show ?thesis using geom_count [OF s(2)] by simp
  qed
  define m where "m = ts_closed (ts_img db) S (ts_last_time db) (S + 40 + 16 * (length (last secs) - 1))"
  define db1 where "db1 = (ts_put m ?d)\<lparr>ts_cur_sec := (ts_cur_sec ?d)\<lparr>tsec_status := FDB_SECTOR_STORE_FULL\<rparr>\<rparr>"
  have r: "ts_rep ?d (last secs)" "tsec_remain (ts_cur_sec ?d) < 16 + blob_size blob" "ts_geom ?d"
    "tsec_addr (ts_cur_sec ?d) + tsdb_sec_size ?d \<le> tsdb_max_size ?d"
    using s SZ assms(10) remain_used [OF s(10)] by (auto simp: ts_geom_def S_def)
  note cl = ts_close_step [OF r(1) assms(6) r(2) assms(8) r(3,4)]
  have up: "ts_update_sec_status ?d (blob_size blob) t = Some (FDB_SAVED_FULL, db1)"
    using cl(1) [of t] SZ s(9) assms(3) by (simp add: db1_def m_def S_def)
  have d1: "ts_same ?d db1" "ts_img db1 = m"
    using cl(2,4) s(9) by (simp_all add: db1_def m_def S_def)
  let ?db = "tsdb_unlock db1"
  have same: "ts_same db ?db" by (rule ts_same_locked [OF d1(1) assms(4)])
  have lk: "tsdb_unlock (tsdb_lock ?db) = ?db"
    using same assms(4) by (intro unlock_lock) (simp add: ts_same_def)
  have app: "fdb_tsl_append_with_ts db blob t = Some (FDB_SAVED_FULL, ?db)"
    using up assms(2,7,9) by (simp add: fdb_tsl_append_with_ts_def tsl_append_def Let_def ok_then_def)
  have l40: "S + 40 \<le> length (ts_img db)" using SZ s(3,4) by linarith
  note cp = ts_closed_props(1,2) [OF l40, where t = "ts_last_time db"
      and i = "S + 40 + 16 * (length (last secs) - 1)", folded m_def]
  have full: "ts_full m (sec_no ?N k0 q * ?Z) ?Z (secs ! q)" if q: "q < length secs" for q
  proof (cases "q = length secs - 1")
    case True
    then have "secs ! q = last secs" using s(7) by (simp add: last_conv_nth)
    then show ?thesis using ts_closed_full [OF s(10) assms(6)] s(9) True by (simp add: m_def S_def)
  next
    case False
    have fr: "ts_full m (sec_no ?N k0 q * ?Z) ?Z (secs ! q) = ts_full (ts_img db) (sec_no ?N k0 q * ?Z) ?Z (secs ! q)"
    proof (rule sector_frame(3) [of _ ?N ?Z _ _ "{?k}"])
      show "sec_no ?N k0 q \<notin> {?k}"
        using False q s(8) sec_no_eq [OF s(6), of q "length secs - 1"] by simp
      show "\<forall>j<length (ts_img db). (\<forall>s\<in>{?k}. j < s * ?Z \<or> s * ?Z + ?Z \<le> j) \<longrightarrow> m ! j = ts_img db ! j"
        using cp(2) s(3) unfolding S_def by simp
    qed (use s(3,4,5) geom_count [OF s(2)] cp(1) kN in auto)
    then show ?thesis using s(11) False q by simp
  qed
  have again: "fdb_tsl_append_with_ts ?db b u = Some (FDB_SAVED_FULL, ?db)"
    if "blob_size b \<le> ts_max_len db \<and> ts_last_time db < u" for b u
    using that same assms(2) lk
    by (simp add: fdb_tsl_append_with_ts_def tsl_append_def Let_def ok_then_def ts_same_def
        ts_update_sec_status_def) (simp add: db1_def)
  show ?thesis using app full again d1(2) by (intro exI [of _ ?db]) simp
qed


text \<open>A history that fills the small database: one log of 60 bytes in each sector.\<close>

lemma demo_fill:
  "\<exists>db. ts_state db (0, map (\<lambda>t. [(FDB_TSL_WRITE, t, replicate 60 7)]) [1, 2, 3]) \<and> ts_last_time db = 3
    \<and> ts_same demo_ts (db\<lparr>ts_last_time := 0\<rparr>)"
proof -
  let ?b = "demo_blob (replicate 60 7)" and ?l = "\<lambda>t. (FDB_TSL_WRITE, t :: int, replicate 60 (7 :: byte))"
  have step: "\<exists>db'. ts_state db' (hist_append 3 False (0, secs) (?l t)) \<and> ts_last_time db' = t
      \<and> ts_same demo_ts (db'\<lparr>ts_last_time := 0\<rparr>)"
    if "ts_state db (0, secs)" "ts_same demo_ts (db\<lparr>ts_last_time := 0\<rparr>)" "ts_last_time db < t" "0 < t" "t < 10"
      "last secs = [?l x]" for db secs t x
  proof -
    have f: "tsdb_sec_size db = 128" "ts_max_len db = 64" "ts_rollover db" "ts_count db = 3"
      using that(2) demo_ts_state(3,4,7,8) ts_same_geom(2,3) [OF that(2)] by (simp_all add: ts_same_def)
    have "tsec_remain (ts_cur_sec db) = 12"
      using remain_used(1) [OF ts_state_rep [OF that(1)]] f(1) that(6) by (simp add: sec_used_def)
    from append_roll_state [OF that(1), of ?b "replicate 60 7" t 0 "Some t"] this f that(3-5) obtain db' where
      "ts_state db' (hist_append 3 False (0, secs) (?l t))" "ts_same db (db'\<lparr>ts_last_time := ts_last_time db\<rparr>)"
      "ts_last_time db' = t" by (auto simp: demo_blob_def)
    moreover have "ts_same demo_ts (db'\<lparr>ts_last_time := 0\<rparr>)"
      using that(2) calculation(2) by (simp add: ts_same_def)
    ultimately show ?thesis by blast
  qed
  have "tsec_remain (ts_cur_sec demo_ts) = 88"
    using remain_used(1) [OF ts_state_rep [OF demo_ts_state(1)]] demo_ts_state(7) by (simp add: sec_used_def)
  from append_fits_state [OF demo_ts_state(1), of ?b "replicate 60 7" 1 0 "Some 1"] this demo_ts_state obtain db1
    where d1: "ts_state db1 (0, [[?l 1]])" "ts_same demo_ts (db1\<lparr>ts_last_time := 0\<rparr>)" "ts_last_time db1 = 1"
    by (auto simp: demo_blob_def hist_append_def)
  from step [OF d1(1,2), of 2 1] d1(3) obtain db2 where
    d2: "ts_state db2 (0, [[?l 1], [?l 2]])" "ts_same demo_ts (db2\<lparr>ts_last_time := 0\<rparr>)" "ts_last_time db2 = 2"
    by (auto simp: hist_append_def)
  from step [OF d2(1,2), of 3 2] d2(3) show ?thesis by (auto simp: hist_append_def)
qed

lemma ts_state_rollover: "ts_state (db\<lparr>ts_rollover := b\<rparr>) h = ts_state db h"
proof -
  have "ts_img (db\<lparr>ts_rollover := b\<rparr>) = ts_img db" "ts_ok (db\<lparr>ts_rollover := b\<rparr>) = ts_ok db"
    by (simp_all add: ts_img_def ts_ok_def)
  then show ?thesis by (simp add: ts_state_def ts_rep_def ts_geom_def ts_count_def Let_def)
qed

theorem ts_append_saved_full_witness:
  "\<exists>db db'. ts_state db (0, map (\<lambda>t. [(FDB_TSL_WRITE, t, replicate 60 7)]) [1, 2, 3])
    \<and> fdb_tsl_append_with_ts db (demo_blob (replicate 60 8)) 4 = Some (FDB_SAVED_FULL, db')"
proof -
  let ?secs = "map (\<lambda>t. [(FDB_TSL_WRITE, t, replicate 60 7)]) [1, 2, 3]"
  obtain db where d: "ts_state db (0, ?secs)" "ts_last_time db = 3" "ts_same demo_ts (db\<lparr>ts_last_time := 0\<rparr>)"
    using demo_fill by blast
  let ?db = "db\<lparr>ts_rollover := False\<rparr>"
  have st: "ts_state ?db (0, ?secs)" using d(1) ts_state_rollover by blast
  have f: "tsdb_sec_size db = 128" "ts_max_len db = 64" "ts_count db = 3" "db_init_ok (ts_parent db)"
    "db_lock_set (ts_parent db) = db_unlock_set (ts_parent db)" "ts_count ?db = 3"
    using d(3) demo_ts_state(3-) ts_same_geom(2,3) [OF d(3)] by (simp_all add: ts_same_def ts_count_def)
  have "\<exists>db'. fdb_tsl_append_with_ts ?db (demo_blob (replicate 60 8)) 4 = Some (FDB_SAVED_FULL, db')"
    using ts_append_saved_full [OF st, of "demo_blob (replicate 60 8)" 4] f d(2)
    by (auto simp: demo_blob_def sec_used_def sec_no_def)
  then show ?thesis using st by blast
qed

subsection \<open>Searching\<close>

lemma tsls_time: "k < length ls \<Longrightarrow> tsl_time (tsls i d ls ! k) = fst (snd (ls ! k))"
  by (induction i d ls arbitrary: k rule: tsls.induct) (auto simp: nth_Cons split: nat.split)

text \<open>C25: The binary search over the logs of a sector with increasing time stamps ends. With
  \<open>pos\<close> the number of logs before \<open>from\<close>, it returns the index address of log \<open>pos\<close>, the first one
  not before \<open>from\<close>; for a reverse range whose start is no log's time, that of the log before it.\<close>

theorem ts_search_correct:
  assumes "ts_ok db" "ts_holds (ts_img db) i d ls" "i + 16 * length ls \<le> length (ts_img db)" "16 \<le> i"
    and "ls \<noteq> []" "sorted_wrt (<) (map (fst \<circ> snd) ls)" "to < from \<longrightarrow> from \<le> fst (snd (last ls))"
  shows "\<exists>pos\<le>length ls. (\<forall>k<pos. fst (snd (ls ! k)) < from)
    \<and> (\<forall>k. pos \<le> k \<and> k < length ls \<longrightarrow> from \<le> fst (snd (ls ! k)))
    \<and> search_start_tsl_addr db (int i) (int (i + 16 * (length ls - 1))) from to
      = Some (if to < from \<and> \<not> (pos < length ls \<and> fst (snd (ls ! pos)) = from) then int (i + 16 * pos) - 16
              else int (i + 16 * pos))"
proof -
  let ?n = "length ls" and ?T = "\<lambda>k. fst (snd (ls ! k))"
  have rd: "\<exists>x. read_tsl db tsl = Some x \<and> tsl_time x = ?T k"
    if "k < ?n" "tsl_addr_index tsl = i + 16 * k" for k tsl
    using tsls_read [OF assms(1-3) that] tsls_time [OF that(1)] by simp
  have mono: "?T j < ?T k" if "j < k" "k < ?n" for j k
    using assms(6) that by (auto simp: sorted_wrt_iff_nth_less)
  have "\<exists>pos. pos \<le> ?n \<and> (\<forall>k<pos. ?T k < from) \<and> (\<forall>k. pos \<le> k \<and> k < ?n \<longrightarrow> from \<le> ?T k)
    \<and> search_start_tsl_addr db (int (i + 16 * 0)) (int (i + 16 * (?n - 1))) from to
      = Some (if to < from \<and> \<not> (pos < ?n \<and> ?T pos = from) then int (i + 16 * pos) - 16
              else int (i + 16 * pos))"
  proof (rule search_loop [OF rd mono])
    show "i + 16 * ?n < 2147483648" using assms(3) tsf.img_bound [OF assms(1)] by linarith
    show "to < from \<Longrightarrow> from \<le> ?T (?n - 1)" using assms(5,7) by (simp add: last_conv_nth)
  qed (use assms(4,5) in auto)
  then show ?thesis by auto
qed

theorem ts_search_correct_witness:
  "search_start_tsl_addr demo_ts1 40 40 3 9 = Some 40"
proof -
  have r: "ts_rep demo_ts1 [(FDB_TSL_WRITE, 5, [1, 2, 3])]" "tsec_addr (ts_cur_sec demo_ts1) = 0"
    using demo_ts1_state(1) unfolding ts_state_def Let_def by (simp_all add: sec_no_def)
  then have "ts_ok demo_ts1" "ts_holds (ts_img demo_ts1) 40 128 [(FDB_TSL_WRITE, 5, [1, 2, 3])]"
    using demo_ts1_state(5) unfolding ts_rep_def Let_def ts_sector_def by simp_all
  from ts_search_correct [OF this, of 9 3] demo_ts1_state(7) obtain pos where
    "pos \<le> 1" "\<forall>k<pos. fst (snd ([(FDB_TSL_WRITE, 5 :: int, [1, 2, 3 :: byte])] ! k)) < 3"
    "search_start_tsl_addr demo_ts1 40 40 3 9 = Some (int (40 + 16 * pos))" by auto
  then show ?thesis by (cases pos) auto
qed

end
