(* ===== verification/Fdb_File.thy ===== *)
theory Fdb_File
  imports Fdb_Flash Os_Files
begin

text \<open>
  File mode (\<open>fdb_file.c\<close>, file mode parts of \<open>fdb.c\<close>): one file per sector in a directory, named
  after the database and the number of the sector, with a cache of open descriptors. This theory
  holds the path, the POSIX variant and the fields that file mode adds to \<open>struct fdb_db\<close>.
  The type parameter is the type of the members of \<open>cur_file\<close>, descriptors or streams. The size of the cache is the length of its two arrays (\<open>FDB_FILE_CACHE_TABLE_SIZE\<close>, 2 unless
  the user defines it). \<^const>\<open>None\<close> is a failed assertion, a division by zero, or an access
  outside an array.
\<close>

record 'fd fdb_file_db = fdb_db +
  db_dir :: bytes
  db_cur_file_sec :: "nat list"
  db_cur_file :: "'fd list"
  db_cur_sec :: nat
  db_fs :: file_sys

definition DB_PATH_MAX :: nat where
  [fdb_const]: "DB_PATH_MAX = 256"

definition DB_NAME_MAX :: nat where
  [fdb_const]: "DB_NAME_MAX = 8"

definition FDB_FILE_CACHE_TABLE_SIZE :: nat where
  [fdb_const]: "FDB_FILE_CACHE_TABLE_SIZE = 2"

subsection \<open>The path of a sector\<close>

text \<open>\<open>file_name\<close> in \<open>get_db_file_path\<close>: the buffer has \<open>DB_NAME_MAX + 4 + 10\<close> bytes.\<close>

definition db_file_name :: "bytes \<Rightarrow> int \<Rightarrow> bytes" where
  "db_file_name name index =
     snprintf (DB_NAME_MAX + 4 + 10)
       (take DB_NAME_MAX name @ cstr ''.fdb.'' @ int_text index)"

definition get_db_file_path :: "('fd, 'a) fdb_file_db_scheme \<Rightarrow> nat \<Rightarrow> nat \<Rightarrow> bytes option" where
  "get_db_file_path db addr sz =
     (if db_sec_size db = 0 then None
      else
        let sec_addr = FDB_ALIGN_DOWN addr (db_sec_size db);
            index = s32 (int (sec_addr div db_sec_size db));
            file_name = db_file_name (db_name db) index in
        if length (db_dir db) + 1 + length file_name \<ge> sz then None
        else Some (snprintf sz (db_dir db @ cstr ''/'' @ file_name)))"

subsection \<open>The cache of descriptors\<close>

definition get_file_from_cache :: "(int, 'a) fdb_file_db_scheme \<Rightarrow> nat \<Rightarrow> int" where
  "get_file_from_cache db sec_addr =
     (case List.find (\<lambda>i. db_cur_file_sec db ! i = sec_addr) [0..<length (db_cur_file_sec db)] of
        Some i \<Rightarrow> db_cur_file db ! i
      | None \<Rightarrow> -1)"

text \<open>
  The first loop of \<open>update_file_cache\<close>: the entry of the sector (\<^const>\<open>Inl\<close>), or the last free
  entry, the table size when there is none (\<^const>\<open>Inr\<close>).
\<close>

fun cache_scan :: "nat list \<Rightarrow> int list \<Rightarrow> nat \<Rightarrow> nat \<Rightarrow> nat \<Rightarrow> nat + nat" where
  "cache_scan (s # secs) (fd # fds) sec_addr i free_index =
     (if s = sec_addr then Inl i
      else cache_scan secs fds sec_addr (Suc i) (if fd = -1 then i else free_index))"
| "cache_scan _ _ sec_addr i free_index = Inr free_index"

text \<open>The loop that moves the entries of a full cache towards its end.\<close>

fun cache_shift :: "nat \<Rightarrow> (int, 'a) fdb_file_db_scheme \<Rightarrow> (int, 'a) fdb_file_db_scheme" where
  "cache_shift 0 db = db"
| "cache_shift (Suc i) db =
     cache_shift i
       (db\<lparr>db_fs := fs_close (db_fs db) (db_cur_file db ! Suc i),
           db_cur_file := (db_cur_file db)[Suc i := db_cur_file db ! i],
           db_cur_file_sec := (db_cur_file_sec db)[Suc i := db_cur_file_sec db ! i]\<rparr>)"

definition update_file_cache :: "(int, 'a) fdb_file_db_scheme \<Rightarrow> nat \<Rightarrow> int \<Rightarrow> (int, 'a) fdb_file_db_scheme" where
  "update_file_cache db sec_addr fd =
     (let n = length (db_cur_file_sec db) in
      case cache_scan (db_cur_file_sec db) (db_cur_file db) sec_addr 0 n of
        Inl i \<Rightarrow> db\<lparr>db_cur_file := (db_cur_file db)[i := fd]\<rparr>
      | Inr free_index \<Rightarrow>
          if fd > 0 then
            if free_index < n
            then db\<lparr>db_cur_file := (db_cur_file db)[free_index := fd],
                    db_cur_file_sec := (db_cur_file_sec db)[free_index := sec_addr]\<rparr>
            else
              let db = cache_shift (n - 1) db in
              db\<lparr>db_cur_file := (db_cur_file db)[0 := fd],
                 db_cur_file_sec := (db_cur_file_sec db)[0 := sec_addr]\<rparr>
          else db)"

subsection \<open>Opening\<close>

text \<open>The block under \<open>if (clean)\<close>: an empty file replaces the old one.\<close>

definition clean_db_file :: "(int, 'a) fdb_file_db_scheme \<Rightarrow> bytes \<Rightarrow> (int, 'a) fdb_file_db_scheme" where
  "clean_db_file db path =
     (let (clean_fd, fs) = fs_open (db_fs db) path True in
      db\<lparr>db_fs := (if clean_fd \<le> 0 then fs else fs_close fs clean_fd)\<rparr>)"

definition open_db_file ::
  "(int, 'a) fdb_file_db_scheme \<Rightarrow> nat \<Rightarrow> bool \<Rightarrow> (int \<times> (int, 'a) fdb_file_db_scheme) option" where
  "open_db_file db addr clean =
     (if db_sec_size db = 0 then None
      else
        let sec_addr = FDB_ALIGN_DOWN addr (db_sec_size db);
            fd = get_file_from_cache db sec_addr in
        if fd \<le> 0 \<or> clean then do {
          path \<leftarrow> get_db_file_path db addr DB_PATH_MAX;
          let (fd, db) =
            (if fd > 0
             then (-1, update_file_cache (db\<lparr>db_fs := fs_close (db_fs db) fd\<rparr>) sec_addr (-1))
             else (fd, db));
          let db = (if clean then clean_db_file db path else db);
          let (fd, db) =
            (if get_file_from_cache db sec_addr < 0 then
               let (fd, fs) = fs_open (db_fs db) path False in
               (fd, update_file_cache (db\<lparr>db_fs := fs\<rparr>) sec_addr fd)
             else (fd, db));
          Some (fd, db\<lparr>db_cur_sec := sec_addr\<rparr>)
        }
        else Some (fd, db))"

subsection \<open>Reading, writing and erasing\<close>

text \<open>
  \<open>buf\<close> is the buffer of the caller and its length is \<open>size\<close>. The comparison of a failed
  \<open>lseek\<close> with \<open>(int32_t) addr\<close> comes first, so that nothing is read after it.
\<close>

definition fdb_file_read ::
  "(int, 'a) fdb_file_db_scheme \<Rightarrow> nat \<Rightarrow> bytes \<Rightarrow> (fdb_err \<times> bytes \<times> (int, 'a) fdb_file_db_scheme) option" where
  "fdb_file_read db addr buf = do {
     (fd, db) \<leftarrow> open_db_file db addr False;
     if fd > 0 then
       let addr = addr mod db_sec_size db;
           (r, fs) = fs_seek (db_fs db) fd addr in
       if r \<noteq> s32 (int addr) then Some (FDB_READ_ERR, buf, db\<lparr>db_fs := fs\<rparr>)
       else
         let (n, bs, fs) = fs_read fs fd (length buf) in
         Some (if n \<noteq> int (length buf) then FDB_READ_ERR else FDB_NO_ERR,
               bs @ drop (length bs) buf, db\<lparr>db_fs := fs\<rparr>)
     else Some (FDB_READ_ERR, buf, db)
   }"

definition fdb_file_write ::
  "(int, 'a) fdb_file_db_scheme \<Rightarrow> nat \<Rightarrow> bytes \<Rightarrow> bool \<Rightarrow> (fdb_err \<times> (int, 'a) fdb_file_db_scheme) option" where
  "fdb_file_write db addr buf sync = do {
     (fd, db) \<leftarrow> open_db_file db addr False;
     if fd > 0 then
       let addr = addr mod db_sec_size db;
           (r, fs) = fs_seek (db_fs db) fd addr in
       if r \<noteq> s32 (int addr) then Some (FDB_WRITE_ERR, db\<lparr>db_fs := fs\<rparr>)
       else
         let (n, fs) = fs_write fs fd buf in
         Some (if n \<noteq> int (length buf) then FDB_WRITE_ERR else FDB_NO_ERR, db\<lparr>db_fs := fs\<rparr>)
     else Some (FDB_WRITE_ERR, db)
   }"

definition BUF_SIZE :: nat where
  [fdb_const]: "BUF_SIZE = 32"

text \<open>The loop of \<open>_fdb_file_erase\<close>; \<open>k\<close> is the number of buffers still to write.\<close>

fun erase_loop :: "nat \<Rightarrow> file_sys \<Rightarrow> int \<Rightarrow> file_sys" where
  "erase_loop 0 fs fd = fs"
| "erase_loop (Suc k) fs fd =
     erase_loop k (snd (fs_write fs fd (replicate BUF_SIZE FDB_BYTE_ERASED))) fd"

text \<open>
  The loop ends with the least \<open>i\<close> such that \<open>i * BUF_SIZE\<close> is at least the size. The last
  \<open>write\<close> has the size \<open>size - i * BUF_SIZE\<close>, computed in \<open>size_t\<close>: when it is larger than the
  buffer, \<open>write\<close> reads outside the buffer. The loop never ends when \<open>i * BUF_SIZE\<close> wraps.
  \<open>fsync\<close>, here and in the write, changes nothing that a later call can observe.
\<close>

definition fdb_file_erase ::
  "(int, 'a) fdb_file_db_scheme \<Rightarrow> nat \<Rightarrow> nat \<Rightarrow> (fdb_err \<times> (int, 'a) fdb_file_db_scheme) option" where
  "fdb_file_erase db addr sz = do {
     (fd, db) \<leftarrow> open_db_file db addr True;
     if fd > 0 then
       if sz > 4294967264 then None
       else
       let i = (sz + (BUF_SIZE - 1)) div BUF_SIZE;
           fs = erase_loop i (snd (fs_seek (db_fs db) fd 0)) fd;
           rest = u32_sub sz (i * BUF_SIZE) in
       if rest > BUF_SIZE then None
       else Some (FDB_NO_ERR, db\<lparr>db_fs := snd (fs_write fs fd (replicate rest FDB_BYTE_ERASED))\<rparr>)
     else Some (FDB_ERASE_ERR, db)
   }"

subsection \<open>Initialisation and end (\<open>fdb.c\<close> in file mode)\<close>

text \<open>The file mode branch of \<open>_fdb_init_ex\<close>, for a cache of \<open>n\<close> entries.\<close>

definition fdb_file_init ::
  "nat \<Rightarrow> (int, 'a) fdb_file_db_scheme \<Rightarrow> bytes \<Rightarrow> bytes \<Rightarrow> fdb_db_type \<Rightarrow> nat
   \<Rightarrow> (fdb_err \<times> (int, 'a) fdb_file_db_scheme) option" where
  "fdb_file_init n db name path type user_data =
     (if db_init_ok db then Some (FDB_NO_ERR, db)
      else
        let db = db\<lparr>db_name := name, db_type := type, db_user_data := user_data,
                    db_cur_file_sec := replicate n FDB_FAILED_ADDR\<rparr> in
        if db_sec_size db = 0 \<or> db_max_size db = 0 then None
        else
          let db = db\<lparr>db_cur_file := replicate n (-1), db_dir := path\<rparr> in
          if length path = 0 then None
          else if (db_sec_size db) AND (u32_sub (db_sec_size db) 1) \<noteq> 0 then None
          else if db_max_size db mod db_sec_size db \<noteq> 0 then Some (FDB_INIT_FAILED, db)
          else if db_max_size db div db_sec_size db < 2 then Some (FDB_INIT_FAILED, db)
          else Some (FDB_NO_ERR, db))"

text \<open>\<open>_fdb_deinit\<close> closes the cached descriptors and leaves them in the cache.\<close>

definition fdb_file_deinit :: "(int, 'a) fdb_file_db_scheme \<Rightarrow> (int, 'a) fdb_file_db_scheme" where
  "fdb_file_deinit db =
     (if db_init_ok db
      then db\<lparr>db_fs := fold (\<lambda>fd fs. if fd > 0 then fs_close fs fd else fs) (db_cur_file db) (db_fs db),
              db_init_ok := False\<rparr>
      else db)"

end
