(* ===== verification/Fdb_Sectors.thy ===== *)
theory Fdb_Sectors
  imports Fdb_Store
begin

text \<open>
  The contract both storage backends of FlashDB give to the databases, sector by sector: a store
  is an array of sectors of equal size, an access stays inside one sector, a write replaces bytes
  of one sector and an erase fills it with ones. The locale \<open>sector_store\<close> states it for stores
  whose reads may change the state (file mode caches descriptors); it is proved here for the
  flash abstraction layer and in \<open>Fdb_File_Posix\<close> for files. \<open>sec_run\<close> is the reference
  implementation, an array of byte lists.
\<close>

datatype sec_op =
    Sec_Read nat nat nat
  | Sec_Write nat nat bytes
  | Sec_Erase nat

text \<open>An access of the sector \<open>k\<close> stays inside it.\<close>

fun op_inside :: "nat \<Rightarrow> nat \<Rightarrow> sec_op \<Rightarrow> bool" where
  "op_inside Z N (Sec_Read k x n) \<longleftrightarrow> k < N \<and> x < Z \<and> x + n \<le> Z"
| "op_inside Z N (Sec_Write k x bs) \<longleftrightarrow> k < N \<and> x < Z \<and> x + length bs \<le> Z"
| "op_inside Z N (Sec_Erase k) \<longleftrightarrow> k < N"

fun sec_step :: "nat \<Rightarrow> (nat \<Rightarrow> bytes) \<Rightarrow> sec_op \<Rightarrow> bytes \<times> (nat \<Rightarrow> bytes)" where
  "sec_step Z f (Sec_Read k x n) = (slice x n (f k), f)"
| "sec_step Z f (Sec_Write k x bs) = ([], f(k := splice (f k) x bs))"
| "sec_step Z f (Sec_Erase k) = ([], f(k := replicate Z FDB_BYTE_ERASED))"

fun sec_run :: "nat \<Rightarrow> (nat \<Rightarrow> bytes) \<Rightarrow> sec_op list \<Rightarrow> (fdb_err \<times> bytes) list \<times> (nat \<Rightarrow> bytes)" where
  "sec_run Z f [] = ([], f)"
| "sec_run Z f (c # cs) =
     (let (out, f) = sec_step Z f c; (outs, f) = sec_run Z f cs in ((FDB_NO_ERR, out) # outs, f))"

text \<open>The same operations on a backend; the buffer of a read starts with zero bytes.\<close>

fun store_step ::
  "('s \<Rightarrow> nat \<Rightarrow> bytes \<Rightarrow> (fdb_err \<times> bytes \<times> 's) option) \<Rightarrow> ('s \<Rightarrow> nat \<Rightarrow> bytes \<Rightarrow> bool \<Rightarrow> (fdb_err \<times> 's) option)
   \<Rightarrow> ('s \<Rightarrow> nat \<Rightarrow> nat \<Rightarrow> (fdb_err \<times> 's) option) \<Rightarrow> nat \<Rightarrow> 's \<Rightarrow> sec_op \<Rightarrow> ((fdb_err \<times> bytes) \<times> 's) option" where
  "store_step rd wr er Z s (Sec_Read k x n) = do { (e, b, s) \<leftarrow> rd s (k * Z + x) (replicate n 0); Some ((e, b), s) }"
| "store_step rd wr er Z s (Sec_Write k x bs) = do { (e, s) \<leftarrow> wr s (k * Z + x) bs True; Some ((e, []), s) }"
| "store_step rd wr er Z s (Sec_Erase k) = do { (e, s) \<leftarrow> er s (k * Z) Z; Some ((e, []), s) }"

fun store_run ::
  "('s \<Rightarrow> nat \<Rightarrow> bytes \<Rightarrow> (fdb_err \<times> bytes \<times> 's) option) \<Rightarrow> ('s \<Rightarrow> nat \<Rightarrow> bytes \<Rightarrow> bool \<Rightarrow> (fdb_err \<times> 's) option)
   \<Rightarrow> ('s \<Rightarrow> nat \<Rightarrow> nat \<Rightarrow> (fdb_err \<times> 's) option) \<Rightarrow> nat \<Rightarrow> 's \<Rightarrow> sec_op list \<Rightarrow> ((fdb_err \<times> bytes) list \<times> 's) option" where
  "store_run rd wr er Z s [] = Some ([], s)"
| "store_run rd wr er Z s (c # cs) = do {
     (out, s) \<leftarrow> store_step rd wr er Z s c;
     (outs, s) \<leftarrow> store_run rd wr er Z s cs;
     Some (out # outs, s) }"

text \<open>What every law of the contract says of the state after an operation.\<close>

definition sectors_become ::
  "('s \<Rightarrow> bool) \<Rightarrow> ('s \<Rightarrow> nat) \<Rightarrow> ('s \<Rightarrow> nat) \<Rightarrow> ('s \<Rightarrow> nat \<Rightarrow> bytes) \<Rightarrow> 's \<Rightarrow> 's \<Rightarrow> (nat \<Rightarrow> bytes) \<Rightarrow> bool" where
  "sectors_become ok ssize count sec s s' f \<longleftrightarrow>
     ok s' \<and> ssize s' = ssize s \<and> count s' = count s \<and> (\<forall>j < count s. sec s' j = f j)"

locale sector_store =
  fixes rd :: "'s \<Rightarrow> nat \<Rightarrow> bytes \<Rightarrow> (fdb_err \<times> bytes \<times> 's) option"
    and wr :: "'s \<Rightarrow> nat \<Rightarrow> bytes \<Rightarrow> bool \<Rightarrow> (fdb_err \<times> 's) option"
    and er :: "'s \<Rightarrow> nat \<Rightarrow> nat \<Rightarrow> (fdb_err \<times> 's) option"
    and ssize :: "'s \<Rightarrow> nat" and count :: "'s \<Rightarrow> nat"
    and sec :: "'s \<Rightarrow> nat \<Rightarrow> bytes"
    and ok :: "'s \<Rightarrow> bool"
  assumes sec_length: "ok s \<Longrightarrow> k < count s \<Longrightarrow> length (sec s k) = ssize s"
    and rd_law: "ok s \<Longrightarrow> k < count s \<Longrightarrow> x < ssize s \<Longrightarrow> x + length buf \<le> ssize s
      \<Longrightarrow> \<exists>s'. rd s (k * ssize s + x) buf = Some (FDB_NO_ERR, slice x (length buf) (sec s k), s')
            \<and> sectors_become ok ssize count sec s s' (sec s)"
    and wr_law: "ok s \<Longrightarrow> k < count s \<Longrightarrow> x < ssize s \<Longrightarrow> x + length bs \<le> ssize s
      \<Longrightarrow> \<exists>s'. wr s (k * ssize s + x) bs sync = Some (FDB_NO_ERR, s')
            \<and> sectors_become ok ssize count sec s s' ((sec s)(k := splice (sec s k) x bs))"
    and er_law: "ok s \<Longrightarrow> k < count s
      \<Longrightarrow> \<exists>s'. er s (k * ssize s) (ssize s) = Some (FDB_NO_ERR, s')
            \<and> sectors_become ok ssize count sec s s' ((sec s)(k := replicate (ssize s) FDB_BYTE_ERASED))"
begin

lemma step_eq:
  assumes "ok s" "op_inside (ssize s) (count s) c" "\<forall>j < count s. sec s j = f j"
  shows "\<exists>s'. store_step rd wr er (ssize s) s c = Some ((FDB_NO_ERR, fst (sec_step (ssize s) f c)), s')
    \<and> sectors_become ok ssize count sec s s' (snd (sec_step (ssize s) f c))"
proof (cases c)
  case (Sec_Read k x n)
  with assms rd_law [OF assms(1), of k x "replicate n 0"] show ?thesis by (auto simp: sectors_become_def)
next
  case (Sec_Write k x bs)
  with assms wr_law [OF assms(1), of k x bs True] show ?thesis by (auto simp: sectors_become_def)
next
  case (Sec_Erase k)
  with assms er_law [OF assms(1), of k] show ?thesis by (auto simp: sectors_become_def)
qed

lemma run_eq:
  assumes "ok s" "\<forall>c \<in> set cs. op_inside (ssize s) (count s) c" "\<forall>j < count s. sec s j = f j"
  shows "\<exists>s'. store_run rd wr er (ssize s) s cs = Some (fst (sec_run (ssize s) f cs), s')
    \<and> sectors_become ok ssize count sec s s' (snd (sec_run (ssize s) f cs))"
  using assms
proof (induction cs arbitrary: s f)
  case Nil
  then show ?case by (simp add: sectors_become_def)
next
  case (Cons c cs)
  obtain s1 where s1: "store_step rd wr er (ssize s) s c = Some ((FDB_NO_ERR, fst (sec_step (ssize s) f c)), s1)"
    "ok s1" "ssize s1 = ssize s" "count s1 = count s" "\<forall>j < count s1. sec s1 j = snd (sec_step (ssize s) f c) j"
    using step_eq [OF Cons.prems(1) _ Cons.prems(3), of c] Cons.prems(2) by (auto simp: sectors_become_def)
  with Cons.IH [OF s1(2) _ s1(5)] Cons.prems(2) show ?case
    by (auto simp: sectors_become_def case_prod_unfold Let_def)
qed

text \<open>What was written is read back until the next write or erase of the sector.\<close>

lemma write_read:
  assumes "ok s" "k < count s" "x < ssize s" "x + length bs \<le> ssize s" "length buf = length bs"
  shows "\<exists>s1 s2. wr s (k * ssize s + x) bs sync = Some (FDB_NO_ERR, s1)
    \<and> rd s1 (k * ssize s + x) buf = Some (FDB_NO_ERR, bs, s2) \<and> ok s2"
proof -
  obtain s1 where s1: "wr s (k * ssize s + x) bs sync = Some (FDB_NO_ERR, s1)" "ok s1" "ssize s1 = ssize s"
    "count s1 = count s" "sec s1 k = splice (sec s k) x bs"
    using wr_law [OF assms(1-4), of sync] assms(2) by (fastforce simp: sectors_become_def)
  then show ?thesis using rd_law [OF s1(2), of k x buf] assms sec_length [OF assms(1,2)]
    by (auto simp: slice_splice_same sectors_become_def)
qed

end

subsection \<open>The flash abstraction layer\<close>

definition db_count :: "fdb_db \<Rightarrow> nat" where
  "db_count db = db_max_size db div db_sec_size db"

definition db_sector :: "fdb_db \<Rightarrow> nat \<Rightarrow> bytes" where
  "db_sector db k = slice (k * db_sec_size db) (db_sec_size db) (db_img db)"

definition db_sectors_ok :: "fdb_db \<Rightarrow> bool" where
  "db_sectors_ok db \<longleftrightarrow> flash_ok db \<and> db_max_size db \<le> db_flash_len db"

lemma db_sector_end:
  "db_sectors_ok db \<Longrightarrow> k < db_count db \<Longrightarrow> x \<le> db_sec_size db \<Longrightarrow> k * db_sec_size db + x \<le> length (db_img db)"
  using sector_end [of k "db_count db" x "db_sec_size db"]
    order_trans [OF div_times_less_eq_dividend [of "db_max_size db" "db_sec_size db"], of "db_flash_len db"]
  by (simp add: db_sectors_ok_def db_count_def length_db_img)

lemma splice_other_sector:
  assumes "a + length bs \<le> length m" "(j + 1) * Z \<le> length m" "j \<noteq> k" "k * Z \<le> a" "a + length bs \<le> (k + 1) * Z"
  shows "slice (j * Z) Z (splice m a bs) = slice (j * Z) Z (m :: bytes)"
proof -
  have "j < k \<Longrightarrow> (j + 1) * Z \<le> k * Z" "k < j \<Longrightarrow> (k + 1) * Z \<le> j * Z" by (intro mult_le_mono1; simp)+
  then have "j * Z + Z \<le> a \<or> a + length bs \<le> j * Z" using assms(3-5) by (cases "j < k") auto
  then show ?thesis using assms(1,2) by (intro slice_splice_disj) (auto simp: algebra_simps)
qed

lemma splice_this_sector:
  assumes "k * Z + Z \<le> length m" "x + length bs \<le> Z"
  shows "slice (k * Z) Z (splice m (k * Z + x) bs) = splice (slice (k * Z) Z m) x (bs :: bytes)"
  using assms by (rule mem_slice_splice)

lemma db_put_sectors:
  assumes "db_sectors_ok db" "k < db_count db" "x + length bs \<le> db_sec_size db"
  shows "sectors_become db_sectors_ok db_sec_size db_count db_sector db
    (db_put (splice (db_img db) (k * db_sec_size db + x) bs) db) ((db_sector db)(k := splice (db_sector db k) x bs))"
proof -
  let ?Z = "db_sec_size db" let ?m = "splice (db_img db) (k * ?Z + x) bs" let ?d = "db_put ?m db"
  have ok: "flash_ok db" using assms(1) by (simp add: db_sectors_ok_def)
  have e: "k * ?Z + x + length bs \<le> length (db_img db)"
    using db_sector_end [OF assms(1,2,3)] by (simp add: add.assoc)
  then have l: "length ?m = length (db_img db)" by simp
  have d: "db_sec_size ?d = ?Z" "db_count ?d = db_count db" "db_img ?d = ?m" "db_sectors_ok ?d"
    using db_put_fields [OF ok l] db_put_props [OF ok, of ?m] l assms(1)
    by (simp_all add: db_count_def db_sectors_ok_def length_db_img)
  have "slice (j * ?Z) ?Z ?m = ((db_sector db)(k := splice (db_sector db k) x bs)) j" if "j < db_count db" for j
  proof (cases "j = k")
    case True
    then show ?thesis using splice_this_sector [of k ?Z "db_img db" x bs] db_sector_end [OF assms(1,2), of ?Z] assms(3)
      by (simp add: db_sector_def)
  next
    case False
    then show ?thesis using splice_other_sector [of "k * ?Z + x" bs "db_img db" j ?Z k] e assms(3) that
        db_sector_end [OF assms(1) that, of ?Z] by (simp add: db_sector_def algebra_simps)
  qed
  then show ?thesis using d by (simp add: sectors_become_def db_sector_def)
qed

text \<open>The read of the flash abstraction layer, with its unchanged state.\<close>

definition flash_read_state :: "fdb_db \<Rightarrow> nat \<Rightarrow> bytes \<Rightarrow> (fdb_err \<times> bytes \<times> fdb_db) option" where
  "flash_read_state db addr buf = map_option (\<lambda>(e, b). (e, b, db)) (fdb_flash_read db addr buf)"

interpretation fal_sectors: sector_store flash_read_state fdb_flash_write fdb_flash_erase
  db_sec_size db_count db_sector db_sectors_ok
proof
  fix s :: fdb_db and k x :: nat and buf bs :: bytes and sync :: bool
  assume ok: "db_sectors_ok s" and k: "k < db_count s"
  let ?Z = "db_sec_size s"
  note f = ok [unfolded db_sectors_ok_def, THEN conjunct1] and e = db_sector_end [OF ok k]
  show "length (db_sector s k) = ?Z" using e [of ?Z] by (simp add: db_sector_def)
  show "\<exists>s'. fdb_flash_erase s (k * ?Z) ?Z = Some (FDB_NO_ERR, s')
    \<and> sectors_become db_sectors_ok db_sec_size db_count db_sector s s'
        ((db_sector s)(k := replicate ?Z FDB_BYTE_ERASED))"
  proof -
    have "splice (db_sector s k) 0 (replicate ?Z FDB_BYTE_ERASED) = replicate ?Z FDB_BYTE_ERASED"
      using e [of ?Z] by (simp add: splice_def db_sector_def)
    then show ?thesis
      using dbs.er_in [OF f, of "k * ?Z" ?Z] e [of ?Z] db_put_sectors [OF ok k, of 0 "replicate ?Z FDB_BYTE_ERASED"] by simp
  qed
  assume "x < ?Z"
  { assume b: "x + length buf \<le> ?Z"
    then have "k * ?Z + x + length buf \<le> length (db_img s)" using e [of "x + length buf"] by simp
    from dbs.rd_in [OF f this] b show "\<exists>s'. flash_read_state s (k * ?Z + x) buf
        = Some (FDB_NO_ERR, slice x (length buf) (db_sector s k), s')
      \<and> sectors_become db_sectors_ok db_sec_size db_count db_sector s s' (db_sector s)"
      using ok by (simp add: flash_read_state_def sectors_become_def db_sector_def slice_slice) }
  { assume b: "x + length bs \<le> ?Z"
    then have "k * ?Z + x + length bs \<le> length (db_img s)" using e [of "x + length bs"] by simp
    from dbs.wr_in [OF f this] db_put_sectors [OF ok k b] show "\<exists>s'. fdb_flash_write s (k * ?Z + x) bs sync
        = Some (FDB_NO_ERR, s')
      \<and> sectors_become db_sectors_ok db_sec_size db_count db_sector s s'
          ((db_sector s)(k := splice (db_sector s k) x bs))" by simp }
qed

end
