(* ===== verification/Fdb_File_Posix.thy ===== *)
theory Fdb_File_Posix
  imports Fdb_File Fdb_Sectors
begin

text \<open>
  The POSIX variant of file mode implements the sector contract. \<open>file_env\<close> says that the database
  is well configured, that each cached descriptor is open on the file of its sector, and that the
  process has three descriptors for it (two cached ones and one more while a full cache is
  changed); \<open>file_ok\<close> adds that every sector has its file. No operation leaks a descriptor: the
  set of descriptors that are free or cached never changes.
\<close>

subsection \<open>Paths\<close>

definition sec_path :: "int fdb_file_db \<Rightarrow> nat \<Rightarrow> bytes" where
  "sec_path db k = db_dir db @ cstr ''/'' @ take DB_NAME_MAX (db_name db) @ cstr ''.fdb.'' @ nat_digits k"

definition file_count :: "int fdb_file_db \<Rightarrow> nat" where
  "file_count db = db_max_size db div db_sec_size db"

definition file_geom :: "int fdb_file_db \<Rightarrow> bool" where
  "file_geom db \<longleftrightarrow>
     0 < db_sec_size db \<and> BUF_SIZE dvd db_sec_size db \<and> db_sec_size db dvd db_max_size db
   \<and> 0 < db_max_size db \<and> db_max_size db \<le> 2147483648 \<and> length (db_dir db) < 234"

lemma file_geomD:
  assumes "file_geom db"
  shows "0 < db_sec_size db" "32 dvd db_sec_size db" "file_count db * db_sec_size db = db_max_size db"
    "db_sec_size db \<le> 2147483648" "file_count db \<le> 67108864"
proof -
  show z: "0 < db_sec_size db" "32 dvd db_sec_size db" using assms by (simp_all add: file_geom_def BUF_SIZE_def)
  show n: "file_count db * db_sec_size db = db_max_size db" using assms by (simp add: file_geom_def file_count_def)
  have "db_sec_size db \<le> db_max_size db" using assms by (auto simp: file_geom_def dest: dvd_imp_le)
  then show "db_sec_size db \<le> 2147483648" using assms by (simp add: file_geom_def)
  have "32 \<le> db_sec_size db" using z by (auto dest: dvd_imp_le)
  then have "file_count db * 32 \<le> db_max_size db" unfolding n [symmetric] by (rule mult_le_mono2)
  then show "file_count db \<le> 67108864" using assms by (simp add: file_geom_def)
qed

lemma sec_path_inj: "sec_path db j = sec_path db k \<longleftrightarrow> j = k"
  using nat_digits_inj by (auto simp: sec_path_def)

lemma sec_path_length:
  assumes "file_geom db" "k < file_count db"
  shows "length (sec_path db k) < DB_PATH_MAX"
proof -
  have "k < 10 ^ 8" using file_geomD(5) [OF assms(1)] assms(2) by simp
  then have "length (nat_digits k) \<le> 8" by (rule nat_digits_length) simp
  then show ?thesis using assms(1) by (simp add: sec_path_def cstr_def DB_NAME_MAX_def DB_PATH_MAX_def file_geom_def min_def)
qed

lemma sec_start:
  fixes k x Z :: nat
  assumes "x < Z"
  shows "(k * Z + x) div Z = k" "(k * Z + x) mod Z = x" "FDB_ALIGN_DOWN (k * Z + x) Z = k * Z"
  using assms by (simp_all add: FDB_ALIGN_DOWN_def)

lemma get_db_file_path_eq:
  assumes "file_geom db" "k < file_count db" "x < db_sec_size db"
  shows "get_db_file_path db (k * db_sec_size db + x) DB_PATH_MAX = Some (sec_path db k)"
proof -
  note g = file_geomD [OF assms(1)]
  have k: "k < 10 ^ 8" using g(5) assms(2) by simp
  then have d: "length (nat_digits k) \<le> 8" by (rule nat_digits_length) simp
  define n where "n = take DB_NAME_MAX (db_name db) @ cstr ''.fdb.'' @ nat_digits k"
  have l: "length n \<le> 21" using d by (simp add: n_def cstr_def DB_NAME_MAX_def)
  have "db_file_name (db_name db) (int k) = n"
    using l by (simp add: db_file_name_def int_text_def DB_NAME_MAX_def snprintf_all n_def)
  moreover have "s32 (int k) = int k" using k by (simp add: s32_id)
  moreover have "length (db_dir db) + 1 + length n < 256" using l assms(1) by (simp add: file_geom_def)
  moreover from this have "snprintf 256 (db_dir db @ cstr ''/'' @ n) = db_dir db @ cstr ''/'' @ n"
    by (intro snprintf_all) (simp add: cstr_def)
  ultimately show ?thesis using g(1) sec_start [OF assms(3), of k]
    by (simp add: get_db_file_path_def Let_def DB_PATH_MAX_def sec_path_def n_def)
qed

subsection \<open>The invariant\<close>

definition fd_entry :: "int fdb_file_db \<Rightarrow> nat \<Rightarrow> int \<Rightarrow> bool" where
  "fd_entry db s fd \<longleftrightarrow>
     fd = -1 \<or> 0 < fd \<and> (\<exists>k < file_count db. s = k * db_sec_size db
        \<and> (\<exists>pos. fs_fds (db_fs db) (nat fd) = Some (sec_path db k, pos)))"

definition file_cache :: "int fdb_file_db \<Rightarrow> nat \<Rightarrow> int \<Rightarrow> nat \<Rightarrow> int \<Rightarrow> bool" where
  "file_cache db s0 f0 s1 f1 \<longleftrightarrow>
     db_cur_file_sec db = [s0, s1] \<and> db_cur_file db = [f0, f1] \<and> fd_entry db s0 f0 \<and> fd_entry db s1 f1
   \<and> (s0 = s1 \<longrightarrow> s0 = FDB_FAILED_ADDR)"

definition own_fds :: "int fdb_file_db \<Rightarrow> nat set" where
  "own_fds db = {nat f | f. f \<in> set (db_cur_file db) \<and> 0 < f}"

definition fd_pool :: "int fdb_file_db \<Rightarrow> nat set" where
  "fd_pool db = {i. i < fs_open_max (db_fs db) \<and> (fs_fds (db_fs db) i = None \<or> i \<in> own_fds db)}"

definition file_env :: "int fdb_file_db \<Rightarrow> bool" where
  "file_env db \<longleftrightarrow>
     file_geom db \<and> (\<exists>s0 f0 s1 f1. file_cache db s0 f0 s1 f1)
   \<and> own_fds db \<subseteq> fd_pool db \<and> 0 \<notin> fd_pool db \<and> 3 \<le> card (fd_pool db)
   \<and> (\<forall>k < file_count db. fs_access (db_fs db) (sec_path db k))
   \<and> db_sec_size db \<le> fs_file_max (db_fs db)"

definition file_sec :: "int fdb_file_db \<Rightarrow> nat \<Rightarrow> bytes" where
  "file_sec db k = (case fs_files (db_fs db) (sec_path db k) of Some c \<Rightarrow> c | None \<Rightarrow> [])"

definition has_file :: "int fdb_file_db \<Rightarrow> nat \<Rightarrow> bool" where
  "has_file db k \<longleftrightarrow> (\<exists>c. fs_files (db_fs db) (sec_path db k) = Some c \<and> length c = db_sec_size db)"

definition file_ok :: "int fdb_file_db \<Rightarrow> bool" where
  "file_ok db \<longleftrightarrow> file_env db \<and> (\<forall>k < file_count db. has_file db k)"

text \<open>What an operation keeps, files apart: the configuration and the descriptors of others.\<close>

definition file_frame :: "int fdb_file_db \<Rightarrow> int fdb_file_db \<Rightarrow> bool" where
  "file_frame db db' \<longleftrightarrow>
     db_name db' = db_name db \<and> db_dir db' = db_dir db \<and> db_sec_size db' = db_sec_size db
   \<and> db_max_size db' = db_max_size db \<and> db_init_ok db' = db_init_ok db
   \<and> fs_access (db_fs db') = fs_access (db_fs db) \<and> fs_open_max (db_fs db') = fs_open_max (db_fs db)
   \<and> fs_file_max (db_fs db') = fs_file_max (db_fs db) \<and> fd_pool db' = fd_pool db
   \<and> (\<forall>i. i \<notin> fd_pool db \<longrightarrow> fs_fds (db_fs db') i = fs_fds (db_fs db) i)"

lemma file_frame_refl [simp]: "file_frame db db"
  by (simp add: file_frame_def)

lemma file_frame_trans: "file_frame db db1 \<Longrightarrow> file_frame db1 db2 \<Longrightarrow> file_frame db db2"
  by (simp add: file_frame_def)

lemma file_frame_same:
  assumes "file_frame db db'"
  shows "sec_path db' = sec_path db" "file_count db' = file_count db" "file_geom db' = file_geom db"
    "db_sec_size db' = db_sec_size db"
  using assms by (auto simp: file_frame_def sec_path_def file_count_def file_geom_def)

lemma file_env_frame:
  assumes "file_env db" "file_frame db db'" "file_cache db' s0 f0 s1 f1" "own_fds db' \<subseteq> fd_pool db'"
  shows "file_env db'"
  using assms file_frame_same [OF assms(2)] unfolding file_env_def file_frame_def by auto

text \<open>Descriptors in use by the cache, and the next free one.\<close>

lemma own_fds_cache: "file_cache db s0 f0 s1 f1 \<Longrightarrow> own_fds db = nat ` ({f0, f1} \<inter> {0<..})"
  by (auto simp: own_fds_def file_cache_def)

lemma own_fds_two:
  assumes "file_env db"
  shows "card (own_fds db) \<le> 2"
proof -
  obtain s0 f0 s1 f1 where c: "file_cache db s0 f0 s1 f1" using assms by (auto simp: file_env_def)
  have "card (own_fds db) \<le> card {f0, f1}" unfolding own_fds_cache [OF c]
    by (meson card_image_le card_mono finite.emptyI finite.insertI finite_Int inf_le1 order_trans)
  also have "\<dots> \<le> 2" by (simp add: card_insert_if)
  finally show ?thesis .
qed

lemma free_fd:
  assumes "file_env db"
  shows "\<exists>i. fs_free_fd (db_fs db) = Some i \<and> 0 < i \<and> i \<in> fd_pool db \<and> i \<notin> own_fds db"
proof -
  obtain s0 f0 s1 f1 where c: "file_cache db s0 f0 s1 f1" using assms by (auto simp: file_env_def)
  have "card (own_fds db) < card (fd_pool db)" using own_fds_two [OF assms] assms by (simp add: file_env_def)
  moreover have "own_fds db \<subseteq> fd_pool db" using assms by (simp add: file_env_def)
  ultimately have "own_fds db \<subset> fd_pool db" by auto
  then obtain j where j: "j \<in> fd_pool db" "j \<notin> own_fds db" by blast
  then obtain i where i: "fs_free_fd (db_fs db) = Some i"
    using fs_free_fd_ex [of j "db_fs db"] by (auto simp: fd_pool_def)
  note p = fs_free_fd_Some [OF i]
  then have "i \<in> fd_pool db" by (simp add: fd_pool_def)
  moreover have "i \<noteq> 0" using assms calculation unfolding file_env_def by metis
  moreover have "i \<notin> own_fds db" using p c by (auto simp: own_fds_cache [OF c] file_cache_def fd_entry_def)
  ultimately show ?thesis using i by (intro exI [of _ i]) simp
qed


subsection \<open>Changing the cache\<close>

lemma cache_change:
  assumes "file_env db"
    and "db_name db' = db_name db" "db_dir db' = db_dir db" "db_sec_size db' = db_sec_size db"
      "db_max_size db' = db_max_size db" "db_init_ok db' = db_init_ok db"
    and "fs_access (db_fs db') = fs_access (db_fs db)" "fs_open_max (db_fs db') = fs_open_max (db_fs db)"
      "fs_file_max (db_fs db') = fs_file_max (db_fs db)"
    and "file_cache db' t0 g0 t1 g1" "own_fds db' \<subseteq> fd_pool db"
    and "\<forall>j. j \<notin> fd_pool db \<longrightarrow> fs_fds (db_fs db') j = fs_fds (db_fs db) j"
    and "\<forall>j \<in> fd_pool db. fs_fds (db_fs db') j = None \<or> j \<in> own_fds db'"
  shows "file_env db' \<and> file_frame db db'"
proof -
  have "fd_pool db' = fd_pool db"
  proof (rule set_eqI)
    fix j
    show "j \<in> fd_pool db' \<longleftrightarrow> j \<in> fd_pool db"
    proof (cases "j \<in> fd_pool db")
      case True
      then show ?thesis using assms(8,13) by (auto simp: fd_pool_def)
    next
      case False
      then show ?thesis using assms(8,11,12) by (auto simp: fd_pool_def)
    qed
  qed
  then have f: "file_frame db db'" using assms(2-9,12) by (simp add: file_frame_def)
  then show ?thesis using file_env_frame [OF assms(1) f assms(10)] assms(11) by (simp add: file_frame_def)
qed

lemma get_file_cached:
  "file_cache db s0 f0 s1 f1 \<Longrightarrow>
     get_file_from_cache db a = (if s0 = a then f0 else if s1 = a then f1 else -1)"
  by (simp add: file_cache_def get_file_from_cache_def numeral_2_eq_2 upt_conv_Cons)

lemma update_file_cached:
  "file_cache db s0 f0 s1 f1 \<Longrightarrow> update_file_cache db a fd =
     (if s0 = a then db\<lparr>db_cur_file := [fd, f1]\<rparr> else if s1 = a then db\<lparr>db_cur_file := [f0, fd]\<rparr>
      else if \<not> 0 < fd then db
      else if f1 = -1 then db\<lparr>db_cur_file := [f0, fd], db_cur_file_sec := [s0, a]\<rparr>
      else if f0 = -1 then db\<lparr>db_cur_file := [fd, f1], db_cur_file_sec := [a, s1]\<rparr>
      else db\<lparr>db_fs := fs_close (db_fs db) f1, db_cur_file := [fd, f0], db_cur_file_sec := [a, s0]\<rparr>)"
  by (simp add: file_cache_def update_file_cache_def Let_def numeral_2_eq_2)

lemma fd_entry_unused [simp]: "fd_entry db s (-1)"
  by (simp add: fd_entry_def)

lemma fd_entryE:
  assumes "fd_entry db s fd" "fd \<noteq> -1"
  obtains k pos where "0 < fd" "k < file_count db" "s = k * db_sec_size db" "fs_fds (db_fs db) (nat fd) = Some (sec_path db k, pos)"
  using assms by (auto simp: fd_entry_def)

lemma fd_entries_distinct:
  assumes "file_geom db" "fd_entry db s0 f0" "fd_entry db s1 f1" "s0 \<noteq> s1" "f0 \<noteq> -1"
  shows "f0 \<noteq> f1 \<and> nat f0 \<noteq> nat f1"
proof (cases "f1 = -1")
  case True
  then show ?thesis using assms(2,5) by (auto simp: fd_entry_def)
next
  case False
  from assms(2,5) obtain j p where "s0 = j * db_sec_size db" "fs_fds (db_fs db) (nat f0) = Some (sec_path db j, p)" "0 < f0"
    by (rule fd_entryE)
  moreover from assms(3) False obtain k q where "s1 = k * db_sec_size db" "fs_fds (db_fs db) (nat f1) = Some (sec_path db k, q)"
    by (rule fd_entryE)
  ultimately show ?thesis using assms(4) by (auto simp: sec_path_inj)
qed

lemma fd_entry_transfer:
  assumes "fd_entry db s fd" "sec_path db' = sec_path db" "file_count db' = file_count db" "db_sec_size db' = db_sec_size db"
    and "fd \<noteq> -1 \<Longrightarrow> fs_fds (db_fs db') (nat fd) = fs_fds (db_fs db) (nat fd)"
  shows "fd_entry db' s fd"
  using assms by (auto simp: fd_entry_def)

lemma sec_start_ne_failed:
  "file_geom db \<Longrightarrow> k < file_count db \<Longrightarrow> k * db_sec_size db \<noteq> FDB_FAILED_ADDR"
  using sector_end [of k "file_count db" 0 "db_sec_size db"] file_geomD(3) [of db]
  by (auto simp: file_geom_def FDB_FAILED_ADDR_def)

text \<open>
  The descriptor \<open>i\<close> was opened for the sector \<open>k\<close> and entered beside the entry \<open>(s, f)\<close>, the
  descriptors in \<open>closed\<close> were closed.
\<close>

lemma cache_enter:
  assumes env: "file_env db" and k: "k < file_count db" and i: "0 < i" "i \<in> fd_pool db" "i \<notin> own_fds db"
    and e: "fd_entry db s f" "s \<noteq> k * db_sec_size db"
    and cl: "closed \<subseteq> own_fds db" "f \<noteq> -1 \<Longrightarrow> nat f \<notin> closed \<and> nat f \<in> own_fds db"
      "own_fds db \<subseteq> closed \<union> nat ` ({f} \<inter> {0<..})"
    and db': "db' = db\<lparr>db_fs := (db_fs db)\<lparr>fs_fds := (\<lambda>j. if j = i then Some (sec_path db k, 0)
        else if j \<in> closed then None else fs_fds (db_fs db) j)\<rparr>, db_cur_file_sec := [t0, t1], db_cur_file := [g0, g1]\<rparr>"
      "(t0, g0) = (s, f) \<and> (t1, g1) = (k * db_sec_size db, int i)
       \<or> (t1, g1) = (s, f) \<and> (t0, g0) = (k * db_sec_size db, int i)"
  shows "file_env db' \<and> file_frame db db' \<and> i \<in> own_fds db' \<and> fs_fds (db_fs db') i = Some (sec_path db k, 0)
    \<and> fs_files (db_fs db') = fs_files (db_fs db)"
proof -
  have pool: "own_fds db \<subseteq> fd_pool db" using env by (simp add: file_env_def)
  have p: "sec_path db' = sec_path db" "file_count db' = file_count db" "db_sec_size db' = db_sec_size db"
    by (auto simp: db'(1) sec_path_def file_count_def)
  have "fd_entry db' (k * db_sec_size db) (int i)" using k i(1) unfolding fd_entry_def p by (auto simp: db'(1))
  moreover have "fd_entry db' s f" using e(1) p
  proof (rule fd_entry_transfer)
    assume "f \<noteq> -1"
    with cl(2) i(3) show "fs_fds (db_fs db') (nat f) = fs_fds (db_fs db) (nat f)" by (auto simp: db'(1))
  qed
  ultimately have c: "file_cache db' t0 g0 t1 g1" using db'(2) e(2) unfolding file_cache_def by (auto simp: db'(1))
  have o: "own_fds db' = insert i (nat ` ({f} \<inter> {0<..}))"
    unfolding own_fds_cache [OF c] using db'(2) i(1) by (auto simp: Int_insert_left)
  have f: "nat ` ({f} \<inter> {0<..}) \<subseteq> own_fds db" using cl(2) e(1) by (auto simp: fd_entry_def)
  have "file_env db' \<and> file_frame db db'"
  proof (rule cache_change [OF env _ _ _ _ _ _ _ _ c])
    show "own_fds db' \<subseteq> fd_pool db" using o f pool i(2) by auto
    show "\<forall>j. j \<notin> fd_pool db \<longrightarrow> fs_fds (db_fs db') j = fs_fds (db_fs db) j"
      using i(2) cl(1) pool by (auto simp: db'(1))
    show "\<forall>j \<in> fd_pool db. fs_fds (db_fs db') j = None \<or> j \<in> own_fds db'"
      using cl(3) unfolding o by (auto simp: db'(1) fd_pool_def)
  qed (simp_all add: db'(1))
  then show ?thesis using o by (simp add: db'(1))
qed

text \<open>Opening a file that is not cached and putting its descriptor into the cache.\<close>

definition opened :: "int fdb_file_db \<Rightarrow> nat \<Rightarrow> nat \<Rightarrow> int fdb_file_db" where
  "opened db k i = update_file_cache (db\<lparr>db_fs := (db_fs db)\<lparr>fs_fds := (fs_fds (db_fs db))(i \<mapsto> (sec_path db k, 0))\<rparr>\<rparr>)
     (k * db_sec_size db) (int i)"

lemma opened_env:
  assumes env: "file_env db" and k: "k < file_count db" and i: "0 < i" "i \<in> fd_pool db" "i \<notin> own_fds db"
    and miss: "get_file_from_cache db (k * db_sec_size db) \<le> 0"
  shows "file_env (opened db k i) \<and> file_frame db (opened db k i) \<and> i \<in> own_fds (opened db k i)
    \<and> fs_fds (db_fs (opened db k i)) i = Some (sec_path db k, 0)
    \<and> fs_files (db_fs (opened db k i)) = fs_files (db_fs db)"
proof -
  obtain s0 f0 s1 f1 where c: "file_cache db s0 f0 s1 f1" using env by (auto simp: file_env_def)
  let ?a = "k * db_sec_size db"
  let ?fs = "(db_fs db)\<lparr>fs_fds := (fs_fds (db_fs db))(i \<mapsto> (sec_path db k, 0))\<rparr>" let ?o = "opened db k i"
  have g: "file_geom db" using env by (simp add: file_env_def)
  have a: "?a \<noteq> FDB_FAILED_ADDR" using sec_start_ne_failed [OF g k] .
  have e: "fd_entry db s0 f0" "fd_entry db s1 f1" "s0 = s1 \<longrightarrow> s0 = FDB_FAILED_ADDR" "db_cur_file_sec db = [s0, s1]"
    "db_cur_file db = [f0, f1]"
    using c by (simp_all add: file_cache_def)
  have ow: "own_fds db = nat ` ({f0, f1} \<inter> {0<..})" by (rule own_fds_cache [OF c])
  have pos: "f0 \<noteq> -1 \<longrightarrow> 0 < f0" "f1 \<noteq> -1 \<longrightarrow> 0 < f1" using e by (auto simp: fd_entry_def)
  have "file_cache (db\<lparr>db_fs := ?fs\<rparr>) s0 f0 s1 f1"
    using c i(3) pos unfolding file_cache_def by (auto simp: ow intro!: fd_entry_transfer [of db])
      (auto simp: sec_path_def file_count_def)
  note u = update_file_cached [OF this, of ?a "int i"]
  note h = cache_enter [OF env k i]
  have m: "s0 = ?a \<longrightarrow> f0 = -1" "s0 \<noteq> ?a \<and> s1 = ?a \<longrightarrow> f1 = -1"
    using miss pos unfolding get_file_cached [OF c] by (auto split: if_splits)
  consider "s0 = ?a \<or> s0 \<noteq> ?a \<and> s1 \<noteq> ?a \<and> f1 \<noteq> -1 \<and> f0 = -1" | "s0 \<noteq> ?a" "f1 = -1"
    | "s0 \<noteq> ?a" "s1 \<noteq> ?a" "f1 \<noteq> -1" "f0 \<noteq> -1" using m by blast
  then show ?thesis
  proof cases
    case 1
    then have "s1 \<noteq> ?a" "f0 = -1" using e(3) a m by auto
    moreover have "?o = db\<lparr>db_fs := (db_fs db)\<lparr>fs_fds := (\<lambda>j. if j = i then Some (sec_path db k, 0)
        else if j \<in> {} then None else fs_fds (db_fs db) j)\<rparr>, db_cur_file_sec := [?a, s1], db_cur_file := [int i, f1]\<rparr>"
      using 1 i(1) e(4) unfolding opened_def u by (auto simp: fun_upd_def intro!: fdb_file_db.equality cong: if_cong)
    ultimately show ?thesis using pos e(2) ow by (intro h [of s1 f1 "{}"]) auto
  next
    case 2
    have "?o = db\<lparr>db_fs := (db_fs db)\<lparr>fs_fds := (\<lambda>j. if j = i then Some (sec_path db k, 0)
        else if j \<in> {} then None else fs_fds (db_fs db) j)\<rparr>, db_cur_file_sec := [s0, ?a], db_cur_file := [f0, int i]\<rparr>"
      using 2 i(1) e(4) unfolding opened_def u by (auto simp: fun_upd_def intro!: fdb_file_db.equality cong: if_cong)
    then show ?thesis using pos e(1) ow 2 by (intro h [of s0 f0 "{}"]) auto
  next
    case 3
    have d: "s0 \<noteq> s1" using 3 e(1,3) sec_start_ne_failed [OF g] by (auto simp: fd_entry_def)
    note n = fd_entries_distinct [OF g e(1,2) d 3(4)]
    have ni: "nat f1 \<noteq> i" using i(3) pos 3 ow by auto
    have "(fs_fds ?fs)(nat f1 := None) = (\<lambda>j. if j = i then Some (sec_path db k, 0)
        else if j \<in> {nat f1} then None else fs_fds (db_fs db) j)" using ni by (auto cong: if_cong)
    then have "?o = db\<lparr>db_fs := (db_fs db)\<lparr>fs_fds := (\<lambda>j. if j = i then Some (sec_path db k, 0)
        else if j \<in> {nat f1} then None else fs_fds (db_fs db) j)\<rparr>, db_cur_file_sec := [?a, s0], db_cur_file := [int i, f0]\<rparr>"
      using 3 i(1) pos unfolding opened_def u by (simp add: fs_close_def)
    then show ?thesis using pos e(1) ow 3 n by (intro h [of s0 f0 "{nat f1}"]) auto
  qed
qed

subsection \<open>Opening\<close>

text \<open>Changes that the invariant does not see.\<close>

lemma file_view_same:
  assumes "db' = db\<lparr>db_fs := (db_fs db)\<lparr>fs_files := F\<rparr>, db_cur_sec := a\<rparr>"
  shows "file_env db' = file_env db" "own_fds db' = own_fds db" "fd_pool db' = fd_pool db"
    "sec_path db' = sec_path db" "file_count db' = file_count db"
    "file_frame db0 db' = file_frame db0 db" "get_file_from_cache db' = get_file_from_cache db"
    "get_db_file_path db' = get_db_file_path db"
proof -
  have fl: "db_name db' = db_name db" "db_dir db' = db_dir db" "db_sec_size db' = db_sec_size db"
    "db_max_size db' = db_max_size db" "db_init_ok db' = db_init_ok db" "db_cur_file_sec db' = db_cur_file_sec db" "db_cur_file db' = db_cur_file db"
    "fs_fds (db_fs db') = fs_fds (db_fs db)" "fs_access (db_fs db') = fs_access (db_fs db)"
    "fs_open_max (db_fs db') = fs_open_max (db_fs db)" "fs_file_max (db_fs db') = fs_file_max (db_fs db)"
    by (simp_all add: assms)
  show o: "own_fds db' = own_fds db" by (simp add: fl own_fds_def)
  show p: "fd_pool db' = fd_pool db" by (simp add: fl o fd_pool_def)
  show s: "sec_path db' = sec_path db" by (simp add: fl sec_path_def fun_eq_iff)
  show c: "file_count db' = file_count db" by (simp add: fl file_count_def)
  have e: "fd_entry db' = fd_entry db" by (simp add: fl s c fun_eq_iff fd_entry_def)
  show "file_env db' = file_env db" by (simp add: file_env_def file_cache_def file_geom_def fl o p s c e)
  show "file_frame db0 db' = file_frame db0 db" by (simp add: file_frame_def fl p)
  show "get_file_from_cache db' = get_file_from_cache db" by (simp add: get_file_from_cache_def fun_eq_iff fl split: option.split)
  show "get_db_file_path db' = get_db_file_path db" by (simp add: get_db_file_path_def fun_eq_iff fl Let_def)
qed

lemma cur_sec_same [simp]:
  "file_env (db\<lparr>db_cur_sec := a\<rparr>) = file_env db" "own_fds (db\<lparr>db_cur_sec := a\<rparr>) = own_fds db"
  "file_frame db0 (db\<lparr>db_cur_sec := a\<rparr>) = file_frame db0 db"
  using file_view_same [where db' = "db\<lparr>db_cur_sec := a\<rparr>" and db = db and F = "fs_files (db_fs db)" and a = a]
  by simp_all

lemma cached_fd:
  assumes "file_env db" "0 < get_file_from_cache db (k * db_sec_size db)"
  shows "\<exists>pos. fs_fds (db_fs db) (nat (get_file_from_cache db (k * db_sec_size db))) = Some (sec_path db k, pos)"
    "nat (get_file_from_cache db (k * db_sec_size db)) \<in> own_fds db"
proof -
  obtain s0 f0 s1 f1 where c: "file_cache db s0 f0 s1 f1" using assms(1) by (auto simp: file_env_def)
  have z: "0 < db_sec_size db" using assms(1) file_geomD(1) by (simp add: file_env_def)
  note g = get_file_cached [OF c, of "k * db_sec_size db"]
  from assms(2) z show "\<exists>pos. fs_fds (db_fs db) (nat (get_file_from_cache db (k * db_sec_size db))) = Some (sec_path db k, pos)"
    unfolding g using c by (auto simp: file_cache_def fd_entry_def split: if_splits)
  from assms(2) show "nat (get_file_from_cache db (k * db_sec_size db)) \<in> own_fds db"
    unfolding g own_fds_cache [OF c] by (auto split: if_splits)
qed

lemma get_file_miss:
  assumes "file_env db" "\<not> 0 < get_file_from_cache db a"
  shows "get_file_from_cache db a = -1"
proof -
  obtain s0 f0 s1 f1 where c: "file_cache db s0 f0 s1 f1" using assms(1) by (auto simp: file_env_def)
  then have "f0 = -1 \<or> 0 < f0" "f1 = -1 \<or> 0 < f1" by (auto simp: file_cache_def fd_entry_def)
  then show ?thesis using assms(2) by (auto simp: get_file_cached [OF c])
qed

lemma fs_open_old:
  assumes "file_env db" "k < file_count db" "fs_files (db_fs db) (sec_path db k) \<noteq> None"
  shows "\<exists>i. fs_open (db_fs db) (sec_path db k) False
      = (int i, (db_fs db)\<lparr>fs_fds := (fs_fds (db_fs db))(i \<mapsto> (sec_path db k, 0))\<rparr>)
    \<and> 0 < i \<and> i \<in> fd_pool db \<and> i \<notin> own_fds db"
  using free_fd [OF assms(1)] assms by (auto simp: fs_open_def file_env_def)

text \<open>The result of opening: a descriptor of the file of the sector, in the cache.\<close>

definition opens :: "int fdb_file_db \<Rightarrow> nat \<Rightarrow> (bytes \<Rightarrow> bytes option) \<Rightarrow> int \<Rightarrow> int fdb_file_db \<Rightarrow> bool" where
  "opens db k F fd db' \<longleftrightarrow>
     0 < fd \<and> (\<exists>pos. fs_fds (db_fs db') (nat fd) = Some (sec_path db k, pos)) \<and> nat fd \<in> own_fds db'
   \<and> file_env db' \<and> file_frame db db' \<and> fs_files (db_fs db') = F"

lemma open_db_file_plain:
  assumes "file_env db" "k < file_count db" "x < db_sec_size db" "fs_files (db_fs db) (sec_path db k) \<noteq> None"
  shows "\<exists>fd db'. open_db_file db (k * db_sec_size db + x) False = Some (fd, db')
    \<and> opens db k (fs_files (db_fs db)) fd db'"
proof (cases "0 < get_file_from_cache db (k * db_sec_size db)")
  case True
  then show ?thesis using assms(3) cached_fd [OF assms(1) True] assms(1) sec_start [OF assms(3)]
    by (simp add: open_db_file_def opens_def)
next
  case False
  have g: "file_geom db" using assms(1) by (simp add: file_env_def)
  obtain i where i: "fs_open (db_fs db) (sec_path db k) False
      = (int i, (db_fs db)\<lparr>fs_fds := (fs_fds (db_fs db))(i \<mapsto> (sec_path db k, 0))\<rparr>)"
    "0 < i" "i \<in> fd_pool db" "i \<notin> own_fds db" using fs_open_old [OF assms(1,2,4)] by blast
  note n = get_file_miss [OF assms(1) False]
  note o = opened_env [OF assms(1,2) i(2-4)]
  have "open_db_file db (k * db_sec_size db + x) False = Some (int i, (opened db k i)\<lparr>db_cur_sec := k * db_sec_size db\<rparr>)"
    using assms(3) get_db_file_path_eq [OF g assms(2,3)] i(1) n sec_start [OF assms(3)]
    by (simp add: open_db_file_def opened_def Let_def)
  then show ?thesis using o n i(2) by (auto simp: opens_def)
qed

text \<open>Closing the cached descriptor of a sector that is about to be replaced.\<close>

definition uncached :: "int fdb_file_db \<Rightarrow> nat \<Rightarrow> int fdb_file_db" where
  "uncached db a =
     (let fd = get_file_from_cache db a in
      if fd > 0 then update_file_cache (db\<lparr>db_fs := fs_close (db_fs db) fd\<rparr>) a (-1) else db)"

lemma uncached_env:
  assumes "file_env db" "k < file_count db"
  defines "a \<equiv> k * db_sec_size db"
  shows "file_env (uncached db a) \<and> file_frame db (uncached db a) \<and> get_file_from_cache (uncached db a) a = -1
    \<and> fs_files (db_fs (uncached db a)) = fs_files (db_fs db)"
proof (cases "0 < get_file_from_cache db a")
  case False
  then show ?thesis using get_file_miss [OF assms(1) False] assms(1) by (simp add: uncached_def)
next
  case True
  let ?fd = "get_file_from_cache db a" let ?u = "uncached db a"
  obtain s0 f0 s1 f1 where c: "file_cache db s0 f0 s1 f1" using assms(1) by (auto simp: file_env_def)
  have g: "file_geom db" using assms(1) by (simp add: file_env_def)
  have e: "fd_entry db s0 f0" "fd_entry db s1 f1" "s0 = s1 \<longrightarrow> s0 = FDB_FAILED_ADDR" "db_cur_file_sec db = [s0, s1]"
    "db_cur_file db = [f0, f1]"
    using c by (simp_all add: file_cache_def)
  have pool: "own_fds db \<subseteq> fd_pool db" using assms(1) by (simp add: file_env_def)
  have ow: "own_fds db = nat ` ({f0, f1} \<inter> {0<..})" by (rule own_fds_cache [OF c])
  have a: "a \<noteq> FDB_FAILED_ADDR" using sec_start_ne_failed [OF g assms(2)] by (simp add: a_def)
  have u: "?u = db\<lparr>db_fs := fs_close (db_fs db) ?fd, db_cur_file := (if s0 = a then [-1, f1] else [f0, -1])\<rparr>"
    using True e(4,5) by (cases "s0 = a") (simp_all add: uncached_def Let_def get_file_cached [OF c] update_file_cache_def split: if_splits)
  have q: "sec_path ?u = sec_path db" "file_count ?u = file_count db" "db_sec_size ?u = db_sec_size db"
    by (auto simp: u sec_path_def file_count_def)
  have s: "s0 \<noteq> s1" using e(3) a True by (auto simp: get_file_cached [OF c] split: if_splits)
  have d: "nat f0 \<noteq> nat f1" if "f0 \<noteq> -1" "f1 \<noteq> -1" using fd_entries_distinct [OF g e(1,2) s that(1)] by simp
  have fd: "?fd = (if s0 = a then f0 else f1)" using True by (simp add: get_file_cached [OF c] split: if_splits)
  have keep: "fd_entry ?u t f" if "fd_entry db t f" "f = (if s0 = a then f1 else f0)" for t f
    using that(1) q
  proof (rule fd_entry_transfer)
    assume "f \<noteq> -1"
    then have "nat f \<noteq> nat ?fd" using that(2) True d unfolding fd by (cases "s0 = a") auto
    then show "fs_fds (db_fs ?u) (nat f) = fs_fds (db_fs db) (nat f)" using True by (simp add: u fs_close_def)
  qed
  have c': "file_cache ?u s0 (if s0 = a then -1 else f0) s1 (if s0 = a then f1 else -1)"
    using e(4) keep [OF e(1)] keep [OF e(2)] s fd_entry_unused
    unfolding file_cache_def by (cases "s0 = a") (simp_all add: u)
  have o: "own_fds ?u = own_fds db - {nat ?fd}"
    unfolding own_fds_cache [OF c'] ow using True d fd by (auto simp: image_iff)
  have "file_env ?u \<and> file_frame db ?u"
  proof (rule cache_change [OF assms(1) _ _ _ _ _ _ _ _ c'])
    show "\<forall>j. j \<notin> fd_pool db \<longrightarrow> fs_fds (db_fs ?u) j = fs_fds (db_fs db) j"
      using pool cached_fd(2) [OF assms(1) True [unfolded a_def], folded a_def] True by (auto simp: u fs_close_def)
    show "\<forall>j \<in> fd_pool db. fs_fds (db_fs ?u) j = None \<or> j \<in> own_fds ?u"
      using True by (auto simp: o) (auto simp: u fs_close_def fd_pool_def split: if_splits)
  qed (use pool o in \<open>auto simp: u fs_close_def\<close>)
  moreover have "get_file_from_cache ?u a = -1"
    using True s by (auto simp: get_file_cached [OF c'] get_file_cached [OF c] split: if_splits)
  ultimately show ?thesis by (simp add: u fs_close_def)
qed

lemma clean_db_file_eq:
  assumes "file_env db" "k < file_count db"
  shows "clean_db_file db (sec_path db k) = db\<lparr>db_fs := (db_fs db)\<lparr>fs_files := (fs_files (db_fs db))(sec_path db k \<mapsto> [])\<rparr>\<rparr>"
proof -
  obtain i where i: "fs_free_fd (db_fs db) = Some i" "0 < i" using free_fd [OF assms(1)] by blast
  have "fs_fds (db_fs db) i = None" using fs_free_fd_Some [OF i(1)] by simp
  then have "(fs_fds (db_fs db))(i \<mapsto> (sec_path db k, 0), i := None) = fs_fds (db_fs db)" by auto
  then show ?thesis using assms i by (simp add: clean_db_file_def fs_open_def fs_close_def file_env_def)
qed

lemma open_db_file_clean:
  assumes "file_env db" "k < file_count db"
  shows "\<exists>fd db'. open_db_file db (k * db_sec_size db) True = Some (fd, db')
    \<and> opens db k ((fs_files (db_fs db))(sec_path db k \<mapsto> [])) fd db'
    \<and> fs_fds (db_fs db') (nat fd) = Some (sec_path db k, 0)"
proof -
  let ?a = "k * db_sec_size db" let ?u = "uncached db ?a"
  let ?c = "?u\<lparr>db_fs := (db_fs ?u)\<lparr>fs_files := (fs_files (db_fs db))(sec_path db k \<mapsto> [])\<rparr>\<rparr>"
  have g: "file_geom db" and z: "0 < db_sec_size db" using assms(1) file_geomD(1) by (simp_all add: file_env_def)
  note u = uncached_env [OF assms]
  have s: "sec_path ?u = sec_path db" "file_count ?u = file_count db" "db_sec_size ?u = db_sec_size db"
    using u file_frame_same by blast+
  have v: "?c = ?u\<lparr>db_fs := (db_fs ?u)\<lparr>fs_files := (fs_files (db_fs db))(sec_path db k \<mapsto> [])\<rparr>, db_cur_sec := db_cur_sec ?u\<rparr>" by simp
  note w = file_view_same [OF v]
  have c: "clean_db_file ?u (sec_path db k) = ?c" using clean_db_file_eq [of ?u k] u s assms(2) by simp
  have env: "file_env ?c" "file_frame db ?c" "get_file_from_cache ?c ?a = -1" "k < file_count ?c" "sec_path ?c = sec_path db"
    "db_sec_size ?c = db_sec_size db"
    using u w s assms(2) by simp_all
  obtain i where i: "fs_open (db_fs ?c) (sec_path db k) False
      = (int i, (db_fs ?c)\<lparr>fs_fds := (fs_fds (db_fs ?c))(i \<mapsto> (sec_path db k, 0))\<rparr>)"
    "0 < i" "i \<in> fd_pool ?c" "i \<notin> own_fds ?c"
    using fs_open_old [OF env(1,4)] env(5) by auto
  have o: "file_env (opened ?c k i) \<and> file_frame ?c (opened ?c k i) \<and> i \<in> own_fds (opened ?c k i)
    \<and> fs_fds (db_fs (opened ?c k i)) i = Some (sec_path db k, 0) \<and> fs_files (db_fs (opened ?c k i)) = fs_files (db_fs ?c)"
    using opened_env [OF env(1,4) i(2-4)] env(3,5,6) by simp
  have p: "get_db_file_path db ?a DB_PATH_MAX = Some (sec_path db k)" using get_db_file_path_eq [OF g assms(2) z] by simp
  have al: "FDB_ALIGN_DOWN ?a (db_sec_size db) = ?a" using sec_start(3) [OF z, of k] by simp
  have "open_db_file db ?a True = Some (int i, (opened ?c k i)\<lparr>db_cur_sec := ?a\<rparr>)"
  proof -
    have "(if 0 < get_file_from_cache db ?a
       then (- 1, update_file_cache (db\<lparr>db_fs := fs_close (db_fs db) (get_file_from_cache db ?a)\<rparr>) ?a (- 1))
       else (get_file_from_cache db ?a, db)) = (-1, ?u)"
      using get_file_miss [OF assms(1), of ?a] by (simp add: uncached_def)
    then show ?thesis using z p al c i(1) env(3,5,6) by (simp add: open_db_file_def Let_def opened_def)
  qed
  then show ?thesis using o i(2) file_frame_trans [OF env(2)] by (intro exI [of _ "int i"] exI [of _ "(opened ?c k i)\<lparr>db_cur_sec := ?a\<rparr>"]) (simp add: opens_def)
qed

subsection \<open>Reading, writing and erasing\<close>

text \<open>The position of a cached descriptor and the contents of files are free to change.\<close>

lemma file_env_pos:
  fixes F :: "bytes \<Rightarrow> bytes option" and pos' :: nat
  assumes "file_env db" "nat fd \<in> own_fds db" "0 < fd" "fs_fds (db_fs db) (nat fd) = Some (p, pos)"
  defines "db' \<equiv> db\<lparr>db_fs := (db_fs db)\<lparr>fs_files := F, fs_fds := (fs_fds (db_fs db))(nat fd \<mapsto> (p, pos'))\<rparr>\<rparr>"
  shows "file_env db' \<and> file_frame db db'"
proof -
  obtain s0 f0 s1 f1 where c: "file_cache db s0 f0 s1 f1" using assms(1) by (auto simp: file_env_def)
  have q: "sec_path db' = sec_path db" "file_count db' = file_count db" "db_sec_size db' = db_sec_size db"
    by (auto simp: db'_def sec_path_def file_count_def)
  have e: "fd_entry db' s f" if "fd_entry db s f" for s f
    using that assms(3,4) unfolding fd_entry_def q by (auto simp: db'_def)
  have c': "file_cache db' s0 f0 s1 f1" using c e unfolding file_cache_def by (simp add: db'_def)
  have o: "own_fds db' = own_fds db" by (simp add: own_fds_def db'_def)
  have pool: "own_fds db \<subseteq> fd_pool db" using assms(1) by (simp add: file_env_def)
  show ?thesis
  proof (rule cache_change [OF assms(1) _ _ _ _ _ _ _ _ c'])
    show "\<forall>j. j \<notin> fd_pool db \<longrightarrow> fs_fds (db_fs db') j = fs_fds (db_fs db) j"
      using pool assms(2) by (auto simp: db'_def)
    show "\<forall>j \<in> fd_pool db. fs_fds (db_fs db') j = None \<or> j \<in> own_fds db'"
      using assms(2) by (auto simp: o) (auto simp: db'_def fd_pool_def split: if_splits)
  qed (use pool o in \<open>auto simp: db'_def\<close>)
qed

lemma has_file_sec: "has_file db k \<Longrightarrow> fs_files (db_fs db) (sec_path db k) = Some (file_sec db k) \<and> length (file_sec db k) = db_sec_size db"
  by (auto simp: has_file_def file_sec_def)

lemma fs_seek_open:
  "fs_fds fs (nat fd) = Some (p, pos) \<Longrightarrow> 0 < fd \<Longrightarrow> x < 2147483648
     \<Longrightarrow> fs_seek fs fd x = (int x, fs\<lparr>fs_fds := (fs_fds fs)(nat fd \<mapsto> (p, x))\<rparr>)"
  by (simp add: fs_seek_def fs_lookup_def)

lemma fs_put_inside: "x + length bs \<le> length c \<Longrightarrow> fs_put c x bs = splice c x bs"
  by (simp add: fs_put_def)

lemma fs_put_end: "fs_put c (length c) bs = c @ bs"
  by (simp add: fs_put_def splice_def)

lemma file_pos_bound: "file_env db \<Longrightarrow> x < db_sec_size db \<Longrightarrow> x < 2147483648"
  using file_geomD(4) [of db] by (simp add: file_env_def)

lemma opens_seek:
  assumes "opens db k F fd db1" "x < db_sec_size db"
  shows "fs_seek (db_fs db1) fd x = (int x, (db_fs db1)\<lparr>fs_fds := (fs_fds (db_fs db1))(nat fd \<mapsto> (sec_path db k, x))\<rparr>)"
    "s32 (int x) = int x" "fs_files (db_fs db1) = F" "0 < fd" "db_sec_size db1 = db_sec_size db"
    "file_frame db db1"
    "file_env (db1\<lparr>db_fs := (db_fs db1)\<lparr>fs_files := G, fs_fds := (fs_fds (db_fs db1))(nat fd \<mapsto> (sec_path db k, y))\<rparr>\<rparr>)"
    "file_frame db1 (db1\<lparr>db_fs := (db_fs db1)\<lparr>fs_files := G, fs_fds := (fs_fds (db_fs db1))(nat fd \<mapsto> (sec_path db k, y))\<rparr>\<rparr>)"
proof -
  obtain pos where p: "fs_fds (db_fs db1) (nat fd) = Some (sec_path db k, pos)" "0 < fd" "nat fd \<in> own_fds db1"
    "file_env db1" "file_frame db db1"
    using assms(1) by (auto simp: opens_def)
  have "x < db_sec_size db1" using assms(2) file_frame_same(4) [OF p(5)] by simp
  then have x: "x < 2147483648" using file_pos_bound [OF p(4)] by simp
  then show "fs_seek (db_fs db1) fd x = (int x, (db_fs db1)\<lparr>fs_fds := (fs_fds (db_fs db1))(nat fd \<mapsto> (sec_path db k, x))\<rparr>)"
    using fs_seek_open [OF p(1,2)] by simp
  show "s32 (int x) = int x" using x by (simp add: s32_id)
  show "fs_files (db_fs db1) = F" "0 < fd" "file_frame db db1" using assms(1) by (simp_all add: opens_def)
  then show "db_sec_size db1 = db_sec_size db" using file_frame_same(4) by simp
  show "file_env (db1\<lparr>db_fs := (db_fs db1)\<lparr>fs_files := G, fs_fds := (fs_fds (db_fs db1))(nat fd \<mapsto> (sec_path db k, y))\<rparr>\<rparr>)"
    "file_frame db1 (db1\<lparr>db_fs := (db_fs db1)\<lparr>fs_files := G, fs_fds := (fs_fds (db_fs db1))(nat fd \<mapsto> (sec_path db k, y))\<rparr>\<rparr>)"
    using file_env_pos [OF p(4,3,2,1)] by blast+
qed

text \<open>Contents after an operation on the sector \<open>k\<close>.\<close>

lemma sectors_become_file:
  assumes "file_ok db" "k < file_count db" "length c = db_sec_size db" "file_env db'" "file_frame db db'"
    "fs_files (db_fs db') = (fs_files (db_fs db))(sec_path db k \<mapsto> c)"
  shows "sectors_become file_ok db_sec_size file_count file_sec db db' ((file_sec db)(k := c))"
  using assms file_frame_same [OF assms(5)]
  by (auto simp: sectors_become_def file_ok_def has_file_def file_sec_def sec_path_inj)

lemma file_read_law:
  assumes "file_ok db" "k < file_count db" "x < db_sec_size db" "x + length buf \<le> db_sec_size db"
  shows "\<exists>db'. fdb_file_read db (k * db_sec_size db + x) buf = Some (FDB_NO_ERR, slice x (length buf) (file_sec db k), db')
    \<and> sectors_become file_ok db_sec_size file_count file_sec db db' (file_sec db) \<and> file_frame db db'"
proof -
  have env: "file_env db" and hf: "has_file db k" using assms(1,2) by (simp_all add: file_ok_def)
  note f = has_file_sec [OF hf]
  obtain fd db1 where o: "open_db_file db (k * db_sec_size db + x) False = Some (fd, db1)" "opens db k (fs_files (db_fs db)) fd db1"
    using open_db_file_plain [OF env assms(2,3)] f by auto
  note s = opens_seek [OF o(2) assms(3)]
  let ?d = "db1\<lparr>db_fs := (db_fs db1)\<lparr>fs_files := fs_files (db_fs db), fs_fds := (fs_fds (db_fs db1))(nat fd \<mapsto> (sec_path db k, x + length buf))\<rparr>\<rparr>"
  have "fs_read ((db_fs db1)\<lparr>fs_fds := (fs_fds (db_fs db1))(nat fd \<mapsto> (sec_path db k, x))\<rparr>) fd (length buf)
      = (int (length buf), slice x (length buf) (file_sec db k), db_fs ?d)"
    using f assms(4) s(3,4) by (simp add: fs_read_def fs_lookup_def Let_def)
  then have r: "fdb_file_read db (k * db_sec_size db + x) buf = Some (FDB_NO_ERR, slice x (length buf) (file_sec db k), ?d)"
    using o(1) s(1-5) sec_start [OF assms(3), of k] f assms(4) by (simp add: fdb_file_read_def Let_def)
  have "(fs_files (db_fs db))(sec_path db k \<mapsto> file_sec db k) = fs_files (db_fs db)" using f by auto
  then have "sectors_become file_ok db_sec_size file_count file_sec db ?d ((file_sec db)(k := file_sec db k))"
    using f by (intro sectors_become_file [OF assms(1,2) _ s(7) file_frame_trans [OF s(6,8)]]) simp_all
  then show ?thesis using r file_frame_trans [OF s(6,8)] by (intro exI [of _ ?d]) simp
qed

lemma file_write_law:
  assumes "file_ok db" "k < file_count db" "x < db_sec_size db" "x + length bs \<le> db_sec_size db"
  shows "\<exists>db'. fdb_file_write db (k * db_sec_size db + x) bs sync = Some (FDB_NO_ERR, db')
    \<and> sectors_become file_ok db_sec_size file_count file_sec db db' ((file_sec db)(k := splice (file_sec db k) x bs))
    \<and> file_frame db db'"
proof -
  have env: "file_env db" and hf: "has_file db k" using assms(1,2) by (simp_all add: file_ok_def)
  note f = has_file_sec [OF hf]
  obtain fd db1 where o: "open_db_file db (k * db_sec_size db + x) False = Some (fd, db1)" "opens db k (fs_files (db_fs db)) fd db1"
    using open_db_file_plain [OF env assms(2,3)] f by auto
  note s = opens_seek [OF o(2) assms(3)]
  let ?c = "splice (file_sec db k) x bs"
  let ?d = "db1\<lparr>db_fs := (db_fs db1)\<lparr>fs_files := (fs_files (db_fs db))(sec_path db k \<mapsto> ?c),
    fs_fds := (fs_fds (db_fs db1))(nat fd \<mapsto> (sec_path db k, x + length bs))\<rparr>\<rparr>"
  have "fs_file_max (db_fs db1) = fs_file_max (db_fs db)" using s(6) by (simp add: file_frame_def)
  moreover have "db_sec_size db \<le> fs_file_max (db_fs db)" using env by (simp add: file_env_def)
  ultimately have "length bs \<le> fs_file_max (db_fs db1) - x" using assms(4) by linarith
  then have m: "take (fs_file_max (db_fs db1) - x) bs = bs" by simp
  have "fs_write ((db_fs db1)\<lparr>fs_fds := (fs_fds (db_fs db1))(nat fd \<mapsto> (sec_path db k, x))\<rparr>) fd bs = (int (length bs), db_fs ?d)"
    using f assms(4) s(3,4) m by (simp add: fs_write_def fs_lookup_def Let_def fs_put_inside del: take_eq_Nil take_all_iff)
  then have r: "fdb_file_write db (k * db_sec_size db + x) bs sync = Some (FDB_NO_ERR, ?d)"
    using o(1) s(1-5) sec_start [OF assms(3), of k] by (simp add: fdb_file_write_def Let_def)
  have "sectors_become file_ok db_sec_size file_count file_sec db ?d ((file_sec db)(k := ?c))"
    using f assms(4) by (intro sectors_become_file [OF assms(1,2) _ s(7) file_frame_trans [OF s(6,8)]]) simp_all
  then show ?thesis using r file_frame_trans [OF s(6,8)] by (intro exI [of _ ?d]) simp
qed

lemma erase_loop_fills:
  assumes "fs_fds fs (nat fd) = Some (p, length c)" "0 < fd" "fs_files fs p = Some c" "length c + n * 32 \<le> fs_file_max fs"
  shows "erase_loop n fs fd = fs\<lparr>fs_files := (fs_files fs)(p \<mapsto> c @ replicate (n * 32) FDB_BYTE_ERASED),
    fs_fds := (fs_fds fs)(nat fd \<mapsto> (p, length c + n * 32))\<rparr>"
  using assms
proof (induction n arbitrary: fs c)
  case 0
  then have "(fs_files fs)(p \<mapsto> c) = fs_files fs" "(fs_fds fs)(nat fd \<mapsto> (p, length c)) = fs_fds fs" by auto
  then show ?case by simp
next
  case (Suc n)
  let ?b = "replicate 32 FDB_BYTE_ERASED"
  let ?fs = "fs\<lparr>fs_files := (fs_files fs)(p \<mapsto> c @ ?b), fs_fds := (fs_fds fs)(nat fd \<mapsto> (p, length (c @ ?b)))\<rparr>"
  have "take (fs_file_max fs - length c) ?b = ?b" using Suc.prems(4) by simp
  then have "snd (fs_write fs fd ?b) = ?fs" using Suc.prems by (simp add: fs_write_def fs_lookup_def Let_def fs_put_end)
  moreover have "erase_loop n ?fs fd = ?fs\<lparr>fs_files := (fs_files ?fs)(p \<mapsto> (c @ ?b) @ replicate (n * 32) FDB_BYTE_ERASED),
    fs_fds := (fs_fds ?fs)(nat fd \<mapsto> (p, length (c @ ?b) + n * 32))\<rparr>"
    using Suc.prems by (intro Suc.IH) simp_all
  ultimately show ?case by (simp add: BUF_SIZE_def replicate_add [symmetric] add.assoc, simp add: fun_upd_def)
qed

text \<open>Erasing makes the file of the sector, whether there was one or not.\<close>

lemma file_erase_any:
  assumes "file_env db" "k < file_count db"
  shows "\<exists>db'. fdb_file_erase db (k * db_sec_size db) (db_sec_size db) = Some (FDB_NO_ERR, db')
    \<and> file_env db' \<and> file_frame db db'
    \<and> fs_files (db_fs db') = (fs_files (db_fs db))(sec_path db k \<mapsto> replicate (db_sec_size db) FDB_BYTE_ERASED)"
proof -
  let ?Z = "db_sec_size db" let ?p = "sec_path db k" let ?F = "(fs_files (db_fs db))(?p \<mapsto> [])"
  have g: "file_geom db" "?Z \<le> fs_file_max (db_fs db)" using assms(1) by (simp_all add: file_env_def)
  note z = file_geomD [OF g(1)]
  obtain n where n: "?Z = n * 32" using z(2) by (metis dvd_div_mult_self)
  obtain fd db1 where o: "open_db_file db (k * ?Z) True = Some (fd, db1)" "opens db k ?F fd db1"
    "fs_fds (db_fs db1) (nat fd) = Some (?p, 0)" using open_db_file_clean [OF assms] by blast
  note s = opens_seek [OF o(2) z(1)]
  have m: "fs_file_max (db_fs db1) = fs_file_max (db_fs db)" using s(6) by (simp add: file_frame_def)
  let ?e = "replicate (n * 32) FDB_BYTE_ERASED"
  let ?fs = "(db_fs db1)\<lparr>fs_fds := (fs_fds (db_fs db1))(nat fd \<mapsto> (?p, 0))\<rparr>"
  let ?d = "db1\<lparr>db_fs := (db_fs db1)\<lparr>fs_files := (fs_files (db_fs db))(?p \<mapsto> ?e),
    fs_fds := (fs_fds (db_fs db1))(nat fd \<mapsto> (?p, n * 32))\<rparr>\<rparr>"
  have l: "erase_loop n ?fs fd = db_fs ?d"
    using erase_loop_fills [of ?fs fd ?p "[]" n] s(3,4) m g(2) n by simp
  have w: "snd (fs_write (db_fs ?d) fd []) = db_fs ?d"
    using s(4) by (simp add: fs_write_def fs_lookup_def Let_def fs_put_inside)
  have "(?Z + (BUF_SIZE - 1)) div BUF_SIZE = n" "u32_sub ?Z (n * BUF_SIZE) = 0"
    using n u32_sub_id [of "n * 32" "n * 32"] z(4) by (simp_all add: BUF_SIZE_def)
  then have r: "fdb_file_erase db (k * ?Z) ?Z = Some (FDB_NO_ERR, ?d)"
    using o(1) s(1,4) l w z(4) by (simp add: fdb_file_erase_def Let_def BUF_SIZE_def)
  then show ?thesis using s(7) file_frame_trans [OF s(6,8)] n by (intro exI [of _ ?d]) simp
qed

lemma file_erase_law:
  assumes "file_ok db" "k < file_count db"
  shows "\<exists>db'. fdb_file_erase db (k * db_sec_size db) (db_sec_size db) = Some (FDB_NO_ERR, db')
    \<and> sectors_become file_ok db_sec_size file_count file_sec db db'
        ((file_sec db)(k := replicate (db_sec_size db) FDB_BYTE_ERASED)) \<and> file_frame db db'"
  using file_erase_any [of db k] sectors_become_file [OF assms, of "replicate (db_sec_size db) FDB_BYTE_ERASED"] assms
  by (fastforce simp: file_ok_def)

interpretation posix_sectors: sector_store fdb_file_read fdb_file_write fdb_file_erase
  db_sec_size file_count file_sec file_ok
proof
  fix s :: "int fdb_file_db" and k x :: nat and buf bs :: bytes and sync :: bool
  assume h: "file_ok s" "k < file_count s"
  then show "length (file_sec s k) = db_sec_size s" using has_file_sec [of s k] by (simp add: file_ok_def)
  show "\<exists>s'. fdb_file_erase s (k * db_sec_size s) (db_sec_size s) = Some (FDB_NO_ERR, s')
    \<and> sectors_become file_ok db_sec_size file_count file_sec s s' ((file_sec s)(k := replicate (db_sec_size s) FDB_BYTE_ERASED))"
    using file_erase_law [OF h] by blast
  assume x: "x < db_sec_size s"
  show "\<exists>s'. fdb_file_read s (k * db_sec_size s + x) buf = Some (FDB_NO_ERR, slice x (length buf) (file_sec s k), s')
    \<and> sectors_become file_ok db_sec_size file_count file_sec s s' (file_sec s)" if "x + length buf \<le> db_sec_size s"
    using file_read_law [OF h x that] by blast
  show "\<exists>s'. fdb_file_write s (k * db_sec_size s + x) bs sync = Some (FDB_NO_ERR, s')
    \<and> sectors_become file_ok db_sec_size file_count file_sec s s' ((file_sec s)(k := splice (file_sec s k) x bs))"
    if "x + length bs \<le> db_sec_size s"
    using file_write_law [OF h x that] by blast
qed

end
