(* ===== verification/Fdb_File_Props.thy ===== *)
theory Fdb_File_Props
  imports Fdb_File_Posix
begin

text \<open>
  What file mode promises, over sequences of accesses: it behaves like a partition of the flash
  abstraction layer, it leaks no descriptor, it reports sectors whose file is missing, and its
  paths never collide. The last section shows why the cache must not be larger than two entries.
\<close>

subsection \<open>Sequences of accesses\<close>

definition file_run :: "int fdb_file_db \<Rightarrow> sec_op list \<Rightarrow> ((fdb_err \<times> bytes) list \<times> int fdb_file_db) option" where
  "file_run db cs = store_run fdb_file_read fdb_file_write fdb_file_erase (db_sec_size db) db cs"

definition flash_run :: "fdb_db \<Rightarrow> sec_op list \<Rightarrow> ((fdb_err \<times> bytes) list \<times> fdb_db) option" where
  "flash_run db cs = store_run flash_read_state fdb_flash_write fdb_flash_erase (db_sec_size db) db cs"

lemma file_step_frame:
  assumes "file_ok db" "op_inside (db_sec_size db) (file_count db) c"
    "store_step fdb_file_read fdb_file_write fdb_file_erase (db_sec_size db) db c = Some (out, db')"
  shows "file_frame db db' \<and> file_ok db'"
proof (cases c)
  case (Sec_Read k x n)
  then have h: "k < file_count db" "x < db_sec_size db" "x + length (replicate n (0 :: byte)) \<le> db_sec_size db" using assms(2) by simp_all
  from file_read_law [OF assms(1) this] assms(3) Sec_Read show ?thesis by (auto simp: sectors_become_def)
next
  case (Sec_Write k x bs)
  then have h: "k < file_count db" "x < db_sec_size db" "x + length bs \<le> db_sec_size db" using assms(2) by simp_all
  from file_write_law [OF assms(1) this, of True] assms(3) Sec_Write show ?thesis by (auto simp: sectors_become_def)
next
  case (Sec_Erase k)
  then have "k < file_count db" using assms(2) by simp
  from file_erase_law [OF assms(1) this] assms(3) Sec_Erase show ?thesis by (auto simp: sectors_become_def)
qed

lemma file_run_frame:
  assumes "file_ok db" "\<forall>c \<in> set cs. op_inside (db_sec_size db) (file_count db) c" "file_run db cs = Some (outs, db')"
  shows "file_frame db db' \<and> file_ok db'"
  using assms unfolding file_run_def
proof (induction cs arbitrary: db outs)
  case (Cons c cs)
  obtain out db1 outs1 where s: "store_step fdb_file_read fdb_file_write fdb_file_erase (db_sec_size db) db c = Some (out, db1)"
    "store_run fdb_file_read fdb_file_write fdb_file_erase (db_sec_size db) db1 cs = Some (outs1, db')"
    using Cons.prems(3) by (auto simp: bind_eq_Some_conv)
  have f: "file_frame db db1" "file_ok db1" using file_step_frame [OF Cons.prems(1) _ s(1)] Cons.prems(2) by simp_all
  note g = file_frame_same [OF f(1)]
  have "file_frame db1 db' \<and> file_ok db'" using Cons.IH [OF f(2)] Cons.prems(2) s(2) g by simp
  then show ?case using file_frame_trans [OF f(1)] by blast
qed simp

lemma file_run_total:
  assumes "file_ok db" "\<forall>c \<in> set cs. op_inside (db_sec_size db) (file_count db) c"
  shows "\<exists>db'. file_run db cs = Some (fst (sec_run (db_sec_size db) (file_sec db) cs), db')
    \<and> sectors_become file_ok db_sec_size file_count file_sec db db' (snd (sec_run (db_sec_size db) (file_sec db) cs))"
  unfolding file_run_def using posix_sectors.run_eq [OF assms, of "file_sec db"] by simp

lemma sec_run_no_err: "(e, b) \<in> set (fst (sec_run Z f cs)) \<Longrightarrow> e = FDB_NO_ERR"
  by (induction cs arbitrary: f) (auto simp: case_prod_unfold Let_def)

subsection \<open>Descriptors\<close>

lemma fds_outside_pool:
  assumes "file_env db" "i < fs_open_max (db_fs db)" "i \<notin> own_fds db"
  shows "i \<in> fd_pool db \<longleftrightarrow> fs_fds (db_fs db) i = None"
  using assms by (auto simp: fd_pool_def)

lemma file_deinit_fds:
  assumes "file_env db" "db_init_ok db"
  shows "fs_fds (db_fs (fdb_file_deinit db)) i = (if i \<in> own_fds db then None else fs_fds (db_fs db) i)"
proof -
  obtain s0 f0 s1 f1 where c: "file_cache db s0 f0 s1 f1" using assms by (auto simp: file_env_def)
  then have "db_cur_file db = [f0, f1]" "f0 = -1 \<or> 0 < f0" "f1 = -1 \<or> 0 < f1" by (auto simp: file_cache_def fd_entry_def)
  then show ?thesis using assms(2) unfolding own_fds_cache [OF c] by (auto simp: fdb_file_deinit_def fs_close_def)
qed

subsection \<open>A missing file\<close>

lemma open_db_file_missing:
  assumes "file_env db" "k < file_count db" "x < db_sec_size db" "fs_files (db_fs db) (sec_path db k) = None"
    "get_file_from_cache db (k * db_sec_size db) \<le> 0"
  shows "open_db_file db (k * db_sec_size db + x) False = Some (-1, db\<lparr>db_cur_sec := k * db_sec_size db\<rparr>)"
proof -
  let ?a = "k * db_sec_size db"
  have g: "file_geom db" using assms(1) by (simp add: file_env_def)
  obtain s0 f0 s1 f1 where c: "file_cache db s0 f0 s1 f1" using assms(1) by (auto simp: file_env_def)
  then have l: "db_cur_file db = [f0, f1]" by (simp add: file_cache_def)
  have n: "get_file_from_cache db ?a = -1" using get_file_miss [OF assms(1)] assms(5) by simp
  then have "s0 = ?a \<longrightarrow> f0 = -1" "s0 \<noteq> ?a \<and> s1 = ?a \<longrightarrow> f1 = -1" by (auto simp: get_file_cached [OF c])
  then have u: "update_file_cache db ?a (-1) = db" using l unfolding update_file_cached [OF c]
    by (auto intro!: fdb_file_db.equality)
  have o: "fs_open (db_fs db) (sec_path db k) False = (-1, db_fs db)"
    using assms(4) by (simp add: fs_open_def split: option.split)
  show ?thesis using assms(3) get_db_file_path_eq [OF g assms(2,3)] sec_start [OF assms(3), of k] n o u
    by (simp add: open_db_file_def Let_def)
qed

lemma file_missing_errors:
  assumes "file_env db" "k < file_count db" "x < db_sec_size db" "fs_files (db_fs db) (sec_path db k) = None"
    "get_file_from_cache db (k * db_sec_size db) \<le> 0"
  shows "\<exists>db1. fdb_file_read db (k * db_sec_size db + x) buf = Some (FDB_READ_ERR, buf, db1)
    \<and> fdb_file_write db (k * db_sec_size db + x) bs sync = Some (FDB_WRITE_ERR, db1) \<and> db_fs db1 = db_fs db"
  using open_db_file_missing [OF assms] by (simp add: fdb_file_read_def fdb_file_write_def)

text \<open>After initialisation the cache is empty.\<close>

lemma file_init_env:
  assumes "\<not> db_init_ok db" "fdb_file_init FDB_FILE_CACHE_TABLE_SIZE db name path type u = Some (FDB_NO_ERR, db')"
    and "BUF_SIZE dvd db_sec_size db" "db_max_size db \<le> 2147483648" "length path < 234"
    and "\<forall>p. fs_access (db_fs db) p" "fs_fds (db_fs db) 0 \<noteq> None" "db_sec_size db \<le> fs_file_max (db_fs db)"
    and "3 \<le> card {i. i < fs_open_max (db_fs db) \<and> fs_fds (db_fs db) i = None}"
  shows "file_env db' \<and> db_fs db' = db_fs db \<and> db_sec_size db' = db_sec_size db \<and> (\<forall>a. get_file_from_cache db' a = -1)"
proof -
  let ?d = "db\<lparr>db_name := name, db_type := type, db_user_data := u, db_cur_file_sec := replicate 2 FDB_FAILED_ADDR,
    db_cur_file := replicate 2 (-1), db_dir := path\<rparr>"
  have i: "db' = ?d \<and> 0 < db_sec_size db \<and> 0 < db_max_size db \<and> db_sec_size db dvd db_max_size db"
    using assms(1,2) unfolding fdb_file_init_def FDB_FILE_CACHE_TABLE_SIZE_def Let_def
    by (auto split: if_splits)
  have o: "own_fds ?d = {}" by (auto simp: own_fds_def)
  have p: "fd_pool ?d = {i. i < fs_open_max (db_fs db) \<and> fs_fds (db_fs db) i = None}" by (simp add: fd_pool_def o)
  have "file_geom ?d" using i assms(3-5) by (simp add: file_geom_def)
  moreover have c: "file_cache ?d FDB_FAILED_ADDR (-1) FDB_FAILED_ADDR (-1)" by (simp add: file_cache_def numeral_2_eq_2)
  ultimately have "file_env ?d" using assms(6-9) o p unfolding file_env_def by (auto simp del: One_nat_def)
  moreover have "\<forall>a. get_file_from_cache ?d a = -1" by (simp add: get_file_cached [OF c])
  ultimately show ?thesis using i by simp
qed

subsection \<open>A file system to start with\<close>

text \<open>Four sectors of 32 bytes in the directory \<open>/d\<close>; descriptor 0 is in use.\<close>

definition demo_file_fs :: "bytes list \<Rightarrow> file_sys" where
  "demo_file_fs paths = \<lparr>fs_files = (\<lambda>p. if p \<in> set paths then Some (replicate 32 FDB_BYTE_ERASED) else None),
     fs_fds = [0 \<mapsto> (cstr ''tty'', 0)], fs_access = (\<lambda>_. True), fs_open_max = 8, fs_file_max = 1024\<rparr>"

definition demo_file_db :: "bytes list \<Rightarrow> nat \<Rightarrow> int fdb_file_db" where
  "demo_file_db paths n = fdb_db.extend ((ram_db 128 32)\<lparr>db_name := cstr ''kv'', db_max_size := 128, db_init_ok := True\<rparr>)
     (fdb_file_db.fields (cstr ''/d'') (replicate n FDB_FAILED_ADDR) (replicate n (-1)) 0 (demo_file_fs paths))"

definition demo_paths :: "bytes list" where
  "demo_paths = map (\<lambda>k. cstr ''/d/kv.fdb.'' @ nat_digits k) [0..<4]"

lemma demo_file_fields [simp]:
  "db_name (demo_file_db ps n) = cstr ''kv''" "db_sec_size (demo_file_db ps n) = 32"
  "db_max_size (demo_file_db ps n) = 128" "db_dir (demo_file_db ps n) = cstr ''/d''"
  "db_cur_file_sec (demo_file_db ps n) = replicate n FDB_FAILED_ADDR" "db_cur_file (demo_file_db ps n) = replicate n (-1)"
  "db_fs (demo_file_db ps n) = demo_file_fs ps" "db_init_ok (demo_file_db ps n)"
  by (simp_all add: demo_file_db_def fdb_db.defs fdb_file_db.defs ram_db_def)

lemma demo_file_env: "file_env (demo_file_db ps 2)" "file_count (demo_file_db ps n) = 4"
proof -
  let ?d = "demo_file_db ps 2"
  show "file_count (demo_file_db ps n) = 4" by (simp add: file_count_def)
  have o: "own_fds ?d = {}" by (auto simp: own_fds_def)
  have "fd_pool ?d = {1..<8}" by (auto simp: fd_pool_def o demo_file_fs_def)
  then have "own_fds ?d \<subseteq> fd_pool ?d" "0 \<notin> fd_pool ?d" "3 \<le> card (fd_pool ?d)" using o by simp_all
  moreover have "file_cache ?d FDB_FAILED_ADDR (-1) FDB_FAILED_ADDR (-1)" by (simp add: file_cache_def numeral_2_eq_2)
  moreover have "file_geom ?d" by (simp add: file_geom_def BUF_SIZE_def cstr_def)
  ultimately show "file_env ?d" unfolding file_env_def by (auto simp: demo_file_fs_def)
qed

lemma demo_file_ok: "file_ok (demo_file_db demo_paths 2)" "k < 4 \<Longrightarrow> file_sec (demo_file_db demo_paths 2) k = replicate 32 FDB_BYTE_ERASED"
proof -
  have "sec_path (demo_file_db demo_paths 2) k \<in> set demo_paths" if "k < 4" for k
    using that by (auto simp: sec_path_def demo_paths_def DB_NAME_MAX_def cstr_def)
  then have f: "k < 4 \<Longrightarrow> fs_files (db_fs (demo_file_db demo_paths 2)) (sec_path (demo_file_db demo_paths 2) k) = Some (replicate 32 FDB_BYTE_ERASED)" for k
    by (simp add: demo_file_fs_def)
  then show "file_ok (demo_file_db demo_paths 2)" by (simp add: file_ok_def demo_file_env has_file_def)
  show "k < 4 \<Longrightarrow> file_sec (demo_file_db demo_paths 2) k = replicate 32 FDB_BYTE_ERASED" using f by (simp add: file_sec_def)
qed

definition demo_ops :: "sec_op list" where
  "demo_ops = [Sec_Write 1 4 [1, 2], Sec_Read 1 4 2, Sec_Read 0 0 1, Sec_Read 3 0 1, Sec_Erase 1, Sec_Read 1 4 2]"

lemma demo_ops_inside: "\<forall>c \<in> set demo_ops. op_inside 32 4 c"
  by (simp add: demo_ops_def)

subsection \<open>Properties\<close>

text \<open>C20: File mode is as good as flash. A database kept in files and a database on a partition of
  the flash abstraction layer that start with the same sectors answer every sequence of reads,
  writes and erases inside sectors alike: without an error, with the same bytes, and with the same
  contents at the end.\<close>

theorem file_mode_like_flash:
  assumes "file_ok fdb" "db_sectors_ok db" "db_sec_size db = db_sec_size fdb" "db_count db = file_count fdb"
    and "\<forall>k < file_count fdb. db_sector db k = file_sec fdb k"
    and "\<forall>c \<in> set cs. op_inside (db_sec_size fdb) (file_count fdb) c"
  shows "\<exists>outs fdb' db'. file_run fdb cs = Some (outs, fdb') \<and> flash_run db cs = Some (outs, db')
    \<and> (\<forall>(e, b) \<in> set outs. e = FDB_NO_ERR)
    \<and> file_ok fdb' \<and> db_sectors_ok db' \<and> (\<forall>k < file_count fdb. db_sector db' k = file_sec fdb' k)"
proof -
  let ?Z = "db_sec_size fdb" and ?r = "sec_run (db_sec_size fdb) (file_sec fdb) cs"
  obtain fdb' where f: "file_run fdb cs = Some (fst ?r, fdb')" "sectors_become file_ok db_sec_size file_count file_sec fdb fdb' (snd ?r)"
    using file_run_total [OF assms(1,6)] by blast
  obtain db' where d: "flash_run db cs = Some (fst ?r, db')" "sectors_become db_sectors_ok db_sec_size db_count db_sector db db' (snd ?r)"
    using fal_sectors.run_eq [OF assms(2), of cs "file_sec fdb"] assms(3-6) unfolding flash_run_def by auto
  then show ?thesis using f assms(4) sec_run_no_err [of _ _ ?Z "file_sec fdb" cs]
    by (intro exI [of _ "fst ?r"] exI [of _ fdb'] exI [of _ db']) (auto simp: sectors_become_def)
qed

theorem file_mode_like_flash_witness:
  "\<exists>outs fdb' db'. file_run (demo_file_db demo_paths 2) demo_ops = Some (outs, fdb')
    \<and> flash_run ((ram_db 128 32)\<lparr>db_max_size := 128\<rparr>) demo_ops = Some (outs, db')"
proof -
  let ?d = "(ram_db 128 32)\<lparr>db_max_size := 128\<rparr>"
  have f: "flash_ok ?d" "db_flash_len ?d = 128" "db_img ?d = replicate 128 FDB_BYTE_ERASED" "db_sec_size ?d = 32"
    using ram_db_ok [of 128 32] by (simp_all add: flash_ok_def db_flash_len_def db_img_def fdb_flash_read_def ram_db_def)
  then have "db_sectors_ok ?d" "db_count ?d = 4" by (simp_all add: db_sectors_ok_def db_count_def)
  moreover have "\<forall>k < 4. db_sector ?d k = replicate 32 FDB_BYTE_ERASED"
    using f by (auto simp: db_sector_def slice_def min_def)
  ultimately show ?thesis
    using file_mode_like_flash [OF demo_file_ok(1), of ?d demo_ops] demo_file_ok(2) demo_ops_inside f(4) by (auto simp: demo_file_env)
qed

text \<open>C28: File mode leaks no descriptor. However many sectors are read, written and erased, at most two
  descriptors belong to the database at a time, and after \<open>_fdb_deinit\<close> the table of descriptors is
  the one before the database opened its first file.\<close>

theorem file_mode_no_leak:
  assumes "file_ok db" "db_init_ok db" "\<forall>c \<in> set cs. op_inside (db_sec_size db) (file_count db) c"
  shows "\<exists>outs db'. file_run db cs = Some (outs, db') \<and> card (own_fds db') \<le> 2
    \<and> (\<forall>i < fs_open_max (db_fs db). fs_fds (db_fs (fdb_file_deinit db')) i
         = fs_fds (db_fs (fdb_file_deinit db)) i)"
proof -
  obtain outs db' where r: "file_run db cs = Some (outs, db')" using file_run_total [OF assms(1,3)] by blast
  have f: "file_frame db db'" "file_ok db'" using file_run_frame [OF assms(1,3) r] by simp_all
  then have e: "file_env db'" "file_env db" "db_init_ok db'" "fd_pool db' = fd_pool db" "fs_open_max (db_fs db') = fs_open_max (db_fs db)"
    using assms(1,2) by (simp_all add: file_ok_def file_frame_def)
  have "fs_fds (db_fs (fdb_file_deinit db')) i = fs_fds (db_fs (fdb_file_deinit db)) i" if "i < fs_open_max (db_fs db)" for i
  proof (cases "i \<in> fd_pool db")
    case True
    then show ?thesis using fds_outside_pool [OF e(1), of i] fds_outside_pool [OF e(2), of i] that e
      by (auto simp: file_deinit_fds assms(2))
  next
    case False
    moreover have "own_fds db \<subseteq> fd_pool db" "own_fds db' \<subseteq> fd_pool db" using e(1,2,4) by (auto simp: file_env_def)
    ultimately have "i \<notin> own_fds db" "i \<notin> own_fds db'" "fs_fds (db_fs db') i = fs_fds (db_fs db) i"
      using f(1) by (auto simp: file_frame_def)
    then show ?thesis using e by (simp add: file_deinit_fds assms(2))
  qed
  then show ?thesis using r own_fds_two [OF e(1)] by blast
qed

theorem file_mode_no_leak_witness:
  "\<exists>outs db'. file_run (demo_file_db demo_paths 2) demo_ops = Some (outs, db') \<and> card (own_fds db') \<le> 2"
  using file_mode_no_leak [OF demo_file_ok(1), of demo_ops] demo_ops_inside by (auto simp: demo_file_env)

text \<open>C35: Starting without files. After \<open>_fdb_init_ex\<close> in file mode, every access of a sector that has
  no file reports an error, leaves the buffer as it was and makes no file; erasing the sector makes
  its file, full of erased bytes.\<close>

theorem file_init_then_erase:
  assumes "\<not> db_init_ok db" "fdb_file_init FDB_FILE_CACHE_TABLE_SIZE db name path type u = Some (FDB_NO_ERR, db')"
    and "BUF_SIZE dvd db_sec_size db" "db_max_size db \<le> 2147483648" "length path < 234"
    and "\<forall>p. fs_access (db_fs db) p" "fs_fds (db_fs db) 0 \<noteq> None" "db_sec_size db \<le> fs_file_max (db_fs db)"
    and "3 \<le> card {i. i < fs_open_max (db_fs db) \<and> fs_fds (db_fs db) i = None}"
    and "k < file_count db'" "x < db_sec_size db" "fs_files (db_fs db) (sec_path db' k) = None"
  shows "\<exists>db1 db2. fdb_file_read db' (k * db_sec_size db + x) buf = Some (FDB_READ_ERR, buf, db1)
    \<and> fdb_file_write db' (k * db_sec_size db + x) bs sync = Some (FDB_WRITE_ERR, db1) \<and> db_fs db1 = db_fs db
    \<and> fdb_file_erase db' (k * db_sec_size db) (db_sec_size db) = Some (FDB_NO_ERR, db2)
    \<and> fs_files (db_fs db2) = (fs_files (db_fs db))(sec_path db' k \<mapsto> replicate (db_sec_size db) FDB_BYTE_ERASED)"
proof -
  note e = file_init_env [OF assms(1-9)]
  obtain db1 where "fdb_file_read db' (k * db_sec_size db + x) buf = Some (FDB_READ_ERR, buf, db1)"
    "fdb_file_write db' (k * db_sec_size db + x) bs sync = Some (FDB_WRITE_ERR, db1)" "db_fs db1 = db_fs db"
    using file_missing_errors [of db' k x buf bs sync] e assms(10-12) by auto
  moreover obtain db2 where "fdb_file_erase db' (k * db_sec_size db) (db_sec_size db) = Some (FDB_NO_ERR, db2)"
    "fs_files (db_fs db2) = (fs_files (db_fs db))(sec_path db' k \<mapsto> replicate (db_sec_size db) FDB_BYTE_ERASED)"
    using file_erase_any [of db' k] e assms(10) by auto
  ultimately show ?thesis by blast
qed

theorem file_init_then_erase_witness:
  "\<exists>db' db2. fdb_file_init 2 ((demo_file_db [] 2)\<lparr>db_init_ok := False\<rparr>) (cstr ''kv'') (cstr ''/d'') FDB_DB_TYPE_KV 0 = Some (FDB_NO_ERR, db')
    \<and> fdb_file_erase db' 32 32 = Some (FDB_NO_ERR, db2)"
proof -
  let ?d = "(demo_file_db [] 2)\<lparr>db_init_ok := False\<rparr>"
  have "(32 :: nat) AND 31 = 0" by simp
  then obtain db' where i: "fdb_file_init FDB_FILE_CACHE_TABLE_SIZE ?d (cstr ''kv'') (cstr ''/d'') FDB_DB_TYPE_KV 0 = Some (FDB_NO_ERR, db')"
    and m: "db_max_size db' = 128" "db_sec_size db' = 32"
    by (simp add: fdb_file_init_def Let_def cstr_def u32_sub_def FDB_FILE_CACHE_TABLE_SIZE_def)
  have "{i. i < fs_open_max (db_fs ?d) \<and> fs_fds (db_fs ?d) i = None} = {1..<8}" by (auto simp: demo_file_fs_def)
  then have c: "3 \<le> card {i. i < fs_open_max (db_fs ?d) \<and> fs_fds (db_fs ?d) i = None}" by simp
  have "file_count db' = 4" by (simp add: file_count_def m)
  then show ?thesis using file_init_then_erase [OF _ i _ _ _ _ _ _ c, of 1 0 "[]" "[]" True] i
    by (fastforce simp: demo_file_fs_def BUF_SIZE_def cstr_def FDB_FILE_CACHE_TABLE_SIZE_def)
qed

text \<open>C29: The path of a sector fits its buffer of \<open>DB_PATH_MAX\<close> bytes, is not cut, and belongs to
  this sector only: two addresses have the same path exactly when they lie in the same sector.\<close>

theorem file_paths_distinct:
  assumes "file_geom db" "a < db_max_size db" "b < db_max_size db"
  shows "\<exists>p q. get_db_file_path db a DB_PATH_MAX = Some p \<and> get_db_file_path db b DB_PATH_MAX = Some q
    \<and> length p < DB_PATH_MAX \<and> (p = q \<longleftrightarrow> a div db_sec_size db = b div db_sec_size db)"
proof -
  let ?Z = "db_sec_size db"
  note g = file_geomD [OF assms(1)]
  have k: "a div ?Z < file_count db" "b div ?Z < file_count db"
    using assms(2,3) g(1) unfolding g(3) [symmetric] by (simp_all add: less_mult_imp_div_less)
  have r: "a mod ?Z < ?Z" "b mod ?Z < ?Z" using g(1) by simp_all
  have p: "get_db_file_path db a DB_PATH_MAX = Some (sec_path db (a div ?Z))"
    "get_db_file_path db b DB_PATH_MAX = Some (sec_path db (b div ?Z))"
    using get_db_file_path_eq [OF assms(1) k(1) r(1)] get_db_file_path_eq [OF assms(1) k(2) r(2)] by simp_all
  then show ?thesis using sec_path_length [OF assms(1) k(1)] sec_path_inj by simp
qed

theorem file_paths_distinct_witness:
  "get_db_file_path (demo_file_db [] 2) 5 DB_PATH_MAX \<noteq> get_db_file_path (demo_file_db [] 2) 40 DB_PATH_MAX"
proof -
  have "file_geom (demo_file_db [] 2)" by (simp add: file_geom_def BUF_SIZE_def cstr_def)
  from file_paths_distinct [OF this, of 5 40] show ?thesis by auto
qed

subsection \<open>A larger cache\<close>

text \<open>
  With three entries, the loop that makes room closes the descriptor of the middle entry and then
  copies it to the last one: the cache holds a closed descriptor, which the next \<open>open\<close> may hand
  out for another file.
\<close>

lemma cache_of_three_holds_closed:
  assumes "db_cur_file_sec db = [s0, s1, s2]" "db_cur_file db = [f0, f1, f2]"
    and "0 < f0" "0 < f1" "0 < f2" "0 < fd" "distinct [s0, s1, s2, a]"
  shows "get_file_from_cache (update_file_cache db a fd) s1 = f1
    \<and> fs_lookup (db_fs (update_file_cache db a fd)) f1 = None"
  using assms
  by (simp add: update_file_cache_def get_file_from_cache_def fs_close_def fs_lookup_def Let_def
      numeral_2_eq_2 numeral_3_eq_3 upt_conv_Cons)

end
