(* ===== verification/Fdb_File_Libc.thy ===== *)
theory Fdb_File_Libc
  imports Fdb_File Fdb_Store
begin

text \<open>
  The LIBC variant of file mode, the second half of \<open>fdb_file.c\<close>: the same cache with streams
  (\<open>FILE *\<close>) in place of descriptors, \<^const>\<open>None\<close> for a null pointer. The calls of \<open>fread\<close> and
  \<open>fwrite\<close> ask for one element of \<open>size\<close> bytes and compare the number of elements with \<open>size\<close>,
  and the write reports \<open>FDB_READ_ERR\<close>; both are modelled as they are, and the properties at the
  end say what follows.
\<close>

type_synonym fdb_libc_db = "nat option fdb_file_db"

definition libc_get_file_from_cache :: "fdb_libc_db \<Rightarrow> nat \<Rightarrow> nat option" where
  "libc_get_file_from_cache db sec_addr =
     (case List.find (\<lambda>i. db_cur_file_sec db ! i = sec_addr) [0..<length (db_cur_file_sec db)] of
        Some i \<Rightarrow> db_cur_file db ! i
      | None \<Rightarrow> None)"

fun libc_cache_scan :: "nat list \<Rightarrow> nat option list \<Rightarrow> nat \<Rightarrow> nat \<Rightarrow> nat \<Rightarrow> nat + nat" where
  "libc_cache_scan (s # secs) (fd # fds) sec_addr i free_index =
     (if s = sec_addr then Inl i
      else libc_cache_scan secs fds sec_addr (Suc i) (if fd = None then i else free_index))"
| "libc_cache_scan _ _ sec_addr i free_index = Inr free_index"

text \<open>\<open>fclose\<close>; the code never calls it with a null pointer.\<close>

definition libc_fclose :: "file_sys \<Rightarrow> nat option \<Rightarrow> file_sys" where
  "libc_fclose fs fp = (case fp of None \<Rightarrow> fs | Some i \<Rightarrow> fs_close fs (int i))"

fun libc_cache_shift :: "nat \<Rightarrow> fdb_libc_db \<Rightarrow> fdb_libc_db" where
  "libc_cache_shift 0 db = db"
| "libc_cache_shift (Suc i) db =
     libc_cache_shift i
       (db\<lparr>db_fs := libc_fclose (db_fs db) (db_cur_file db ! Suc i),
           db_cur_file := (db_cur_file db)[Suc i := db_cur_file db ! i],
           db_cur_file_sec := (db_cur_file_sec db)[Suc i := db_cur_file_sec db ! i]\<rparr>)"

definition libc_update_file_cache :: "fdb_libc_db \<Rightarrow> nat \<Rightarrow> nat option \<Rightarrow> fdb_libc_db" where
  "libc_update_file_cache db sec_addr fd =
     (let n = length (db_cur_file_sec db) in
      case libc_cache_scan (db_cur_file_sec db) (db_cur_file db) sec_addr 0 n of
        Inl i \<Rightarrow> db\<lparr>db_cur_file := (db_cur_file db)[i := fd]\<rparr>
      | Inr free_index \<Rightarrow>
          if fd \<noteq> None then
            if free_index < n
            then db\<lparr>db_cur_file := (db_cur_file db)[free_index := fd],
                    db_cur_file_sec := (db_cur_file_sec db)[free_index := sec_addr]\<rparr>
            else
              let db = libc_cache_shift (n - 1) db in
              db\<lparr>db_cur_file := (db_cur_file db)[0 := fd],
                 db_cur_file_sec := (db_cur_file_sec db)[0 := sec_addr]\<rparr>
          else db)"

definition libc_clean_db_file :: "fdb_libc_db \<Rightarrow> bytes \<Rightarrow> fdb_libc_db" where
  "libc_clean_db_file db path =
     (let (clean_fd, fs) = fs_fopen (db_fs db) path True in db\<lparr>db_fs := libc_fclose fs clean_fd\<rparr>)"

definition libc_open_db_file :: "fdb_libc_db \<Rightarrow> nat \<Rightarrow> bool \<Rightarrow> (nat option \<times> fdb_libc_db) option" where
  "libc_open_db_file db addr clean =
     (if db_sec_size db = 0 then None
      else
        let sec_addr = FDB_ALIGN_DOWN addr (db_sec_size db);
            fd = libc_get_file_from_cache db sec_addr in
        if fd = None \<or> clean then do {
          path \<leftarrow> get_db_file_path db addr DB_PATH_MAX;
          let (fd, db) =
            (if fd \<noteq> None
             then (None, libc_update_file_cache (db\<lparr>db_fs := libc_fclose (db_fs db) fd\<rparr>) sec_addr None)
             else (fd, db));
          let db = (if clean then libc_clean_db_file db path else db);
          let (fd, db) =
            (if libc_get_file_from_cache db sec_addr = None then
               let (fd, fs) = fs_fopen (db_fs db) path False in
               (fd, libc_update_file_cache (db\<lparr>db_fs := fs\<rparr>) sec_addr fd)
             else (fd, db));
          Some (fd, db\<lparr>db_cur_sec := sec_addr\<rparr>)
        }
        else Some (fd, db))"

definition libc_file_read :: "fdb_libc_db \<Rightarrow> nat \<Rightarrow> bytes \<Rightarrow> (fdb_err \<times> bytes \<times> fdb_libc_db) option" where
  "libc_file_read db addr buf = do {
     (fp, db) \<leftarrow> libc_open_db_file db addr False;
     case fp of
       Some fp \<Rightarrow>
         let addr = addr mod db_sec_size db;
             (r, fs) = fs_fseek (db_fs db) fp addr in
         if r \<noteq> 0 then Some (FDB_READ_ERR, buf, db\<lparr>db_fs := fs\<rparr>)
         else
           let (n, bs, fs) = fs_fread fs fp (length buf) 1 in
           Some (if n \<noteq> length buf then FDB_READ_ERR else FDB_NO_ERR,
                 bs @ drop (length bs) buf, db\<lparr>db_fs := fs\<rparr>)
     | None \<Rightarrow> Some (FDB_READ_ERR, buf, db)
   }"

definition libc_file_write :: "fdb_libc_db \<Rightarrow> nat \<Rightarrow> bytes \<Rightarrow> bool \<Rightarrow> (fdb_err \<times> fdb_libc_db) option" where
  "libc_file_write db addr buf sync = do {
     (fp, db) \<leftarrow> libc_open_db_file db addr False;
     case fp of
       Some fp \<Rightarrow>
         let addr = addr mod db_sec_size db;
             (r, fs) = fs_fseek (db_fs db) fp addr in
         if r \<noteq> 0 then Some (FDB_READ_ERR, db\<lparr>db_fs := fs\<rparr>)
         else
           let (n, fs) = fs_fwrite fs fp buf (length buf) 1 in
           Some (if n \<noteq> length buf then FDB_READ_ERR else FDB_NO_ERR, db\<lparr>db_fs := fs\<rparr>)
     | None \<Rightarrow> Some (FDB_READ_ERR, db)
   }"

fun libc_erase_loop :: "nat \<Rightarrow> file_sys \<Rightarrow> nat \<Rightarrow> file_sys" where
  "libc_erase_loop 0 fs fp = fs"
| "libc_erase_loop (Suc k) fs fp =
     libc_erase_loop k (snd (fs_fwrite fs fp (replicate BUF_SIZE FDB_BYTE_ERASED) BUF_SIZE 1)) fp"

definition libc_file_erase :: "fdb_libc_db \<Rightarrow> nat \<Rightarrow> nat \<Rightarrow> (fdb_err \<times> fdb_libc_db) option" where
  "libc_file_erase db addr sz = do {
     (fp, db) \<leftarrow> libc_open_db_file db addr True;
     case fp of
       Some fp \<Rightarrow>
         if sz > 4294967264 then None
         else
         let i = (sz + (BUF_SIZE - 1)) div BUF_SIZE;
             fs = libc_erase_loop i (snd (fs_fseek (db_fs db) fp 0)) fp;
             rest = u32_sub sz (i * BUF_SIZE) in
         if rest > BUF_SIZE then None
         else Some (FDB_NO_ERR, db\<lparr>db_fs := snd (fs_fwrite fs fp (replicate rest FDB_BYTE_ERASED) rest 1)\<rparr>)
     | None \<Rightarrow> Some (FDB_ERASE_ERR, db)
   }"

text \<open>The file mode parts of \<open>_fdb_init_ex\<close> and \<open>_fdb_deinit\<close> with streams.\<close>

definition libc_file_init :: "nat \<Rightarrow> fdb_libc_db \<Rightarrow> bytes \<Rightarrow> fdb_libc_db" where
  "libc_file_init n db path =
     db\<lparr>db_cur_file_sec := replicate n FDB_FAILED_ADDR, db_cur_file := replicate n None, db_dir := path\<rparr>"

definition libc_file_deinit :: "fdb_libc_db \<Rightarrow> fdb_libc_db" where
  "libc_file_deinit db =
     (if db_init_ok db
      then db\<lparr>db_fs := fold (\<lambda>fp fs. libc_fclose fs fp) (db_cur_file db) (db_fs db),
              db_init_ok := False\<rparr>
      else db)"

subsection \<open>What the result of a call says\<close>

lemma min_div_le: "min n m div n \<le> (1 :: nat)"
  using div_le_mono [of "min n m" n n] by (cases "n = 0") simp_all

lemma fs_fread_count: "fst (fs_fread fs fp sz 1) \<le> 1"
proof -
  have "length (slice a n (c :: bytes)) div n \<le> 1" for a n c
    using min_div_le [of n "length c - a"] by (simp add: slice_def min.commute)
  then show ?thesis by (auto simp: fs_fread_def fs_read_def Let_def split: option.splits)
qed

lemma fs_fwrite_count: "fst (fs_fwrite fs fp bs (length bs) 1) \<le> 1"
proof -
  have "min (length bs) n div length bs \<le> 1" for n by (rule min_div_le)
  then show ?thesis by (auto simp: fs_fwrite_def fs_write_def Let_def split: option.splits)
qed

text \<open>C40: In the LIBC variant, a read or a write of two bytes or more reports an error whatever
  happened to the file: its return value cannot be used to tell success from failure.\<close>

theorem libc_always_reports_error:
  assumes "2 \<le> length buf" "libc_file_read db addr buf = Some (e, buf', db')"
    and "libc_file_write db addr buf sync = Some (e2, db2)"
  shows "e = FDB_READ_ERR \<and> e2 = FDB_READ_ERR"
proof -
  have "fst (fs_fread fs fp (length buf) 1) \<noteq> length buf" "fst (fs_fwrite fs fp buf (length buf) 1) \<noteq> length buf" for fs fp
    using assms(1) fs_fread_count [of fs fp "length buf"] fs_fwrite_count [of fs fp buf] by linarith+
  then show ?thesis using assms(2,3)
    by (auto simp: libc_file_read_def libc_file_write_def bind_eq_Some_conv Let_def case_prod_unfold split: option.splits if_splits)
qed

text \<open>A file with three bytes whose stream is cached: both bytes arrive, and the read reports an error.\<close>

definition demo_libc :: fdb_libc_db where
  "demo_libc = fdb_db.extend (ram_db 64 32)
     (fdb_file_db.fields (cstr ''/d'') [0] [Some 1] 0
        \<lparr>fs_files = [cstr ''p'' \<mapsto> [7, 8, 9]], fs_fds = [1 \<mapsto> (cstr ''p'', 0)], fs_access = (\<lambda>_. True),
         fs_open_max = 8, fs_file_max = 1024\<rparr>)"

lemma demo_libc_calls:
  "\<exists>db'. libc_file_read demo_libc 0 [0, 0] = Some (FDB_READ_ERR, [7, 8], db')"
  "\<exists>db'. libc_file_write demo_libc 0 [0, 0] True = Some (FDB_READ_ERR, db')"
  by (simp_all add: demo_libc_def fdb_db.defs fdb_file_db.defs ram_db_def libc_file_read_def libc_file_write_def
      libc_open_db_file_def libc_get_file_from_cache_def FDB_ALIGN_DOWN_def Let_def fs_fseek_def fs_seek_def fs_lookup_def
      fs_fread_def fs_read_def fs_fwrite_def fs_write_def slice_def) (simp_all add: numeral_2_eq_2)

theorem libc_always_reports_error_witness:
  "\<exists>e db'. libc_file_read demo_libc 0 [0, 0] = Some (e, [7, 8], db') \<and> e = FDB_READ_ERR"
proof -
  obtain db1 db2 where r: "libc_file_read demo_libc 0 [0, 0] = Some (FDB_READ_ERR, [7, 8], db1)"
    "libc_file_write demo_libc 0 [0, 0] True = Some (FDB_READ_ERR, db2)" using demo_libc_calls by blast
  from libc_always_reports_error [OF _ r] r show ?thesis by simp
qed

end
