(* ===== verification/Ko_Main.thy ===== *)
theory Ko_Main
  imports Fal_Boot
begin

text \<open>
  The kernel module around the databases: \<open>main.c\<close>. Loading it registers a character device and then
  initialises the flash abstraction layer; whatever fails on the way is undone by the \<open>goto\<close> chain.
  Log messages are left out; the class file that prints the partition table is in \<open>Fal_Print\<close>.

  The kernel's answers are a parameter. What matters of the kernel's state is what the module has
  acquired and released; \<open>ko_log\<close> records both in the order of the calls.
\<close>

subsection \<open>The kernel\<close>

text \<open>
  A pointer that the kernel returns, or a global that holds one. \<open>ErrPtr\<close> is an error number in the
  place of an address: the kernel follows no such pointer.
\<close>

datatype kptr = NullPtr | ErrPtr | Ptr nat



datatype kres = Region nat | Cdev | Class kptr | Device nat

datatype kcall = Acquired kres | Released kres





subsection \<open>The module\<close>


record ko =
  ko_major :: nat
  ko_minor :: nat
  ko_devid :: nat
  ko_class :: kptr
  ko_device :: kptr
  ko_fal :: fal
  ko_log :: "kcall list"










text \<open>
  The allocator behind the RAM block. \<open>devm_kmalloc\<close> belongs to the kernel and is a parameter; it
  ties the memory to the device it is given, and follows that pointer.
\<close>

definition flashdb_malloc :: "(nat \<Rightarrow> bytes option) \<Rightarrow> ko \<Rightarrow> nat \<Rightarrow> bytes option option" where
  "flashdb_malloc devm_kmalloc s n =
     (case ko_device s of NullPtr \<Rightarrow> Some None | ErrPtr \<Rightarrow> None | Ptr d \<Rightarrow> Some (devm_kmalloc n))"

text \<open>The file operations of the device do nothing.\<close>

definition ko_open :: int where "ko_open = 0"
definition ko_read :: "nat \<Rightarrow> int" where "ko_read cnt = 0"
definition ko_write :: "nat \<Rightarrow> int" where "ko_write cnt = 0"
definition ko_file_release :: int where "ko_file_release = 0"

subsection \<open>Properties\<close>

text \<open>A loading that failed has given back what it acquired, in the reverse order.\<close>

definition unwound :: "kcall list \<Rightarrow> bool" where
  "unwound l \<longleftrightarrow> (\<exists>rs. l = map Acquired rs @ map Released (rev rs))"

lemma unwound_cases [simp]:
  "unwound []" "unwound [Acquired a, Released a]"
  "unwound [Acquired a, Acquired b, Released b, Released a]"
  "unwound [Acquired a, Acquired b, Acquired c, Released c, Released b, Released a]"
  "unwound [Acquired a, Acquired b, Acquired c, Acquired d, Released d, Released c, Released b, Released a]"
  unfolding unwound_def
  by (rule exI [of _ "[]"], simp, rule exI [of _ "[a]"], simp, rule exI [of _ "[a, b]"], simp, rule exI [of _ "[a, b, c]"], simp,
      rule exI [of _ "[a, b, c, d]"], simp)







end
