(* ===== verification/Fal_Print.thy ===== *)
theory Fal_Print
  imports Fal_Boot Os_Text
begin

text \<open>
  Printing the partition table (\<open>fal_show_part_table\<close> and \<open>fal_print_part_table\<close> of
  \<open>fal_partition.c\<close>) and the class file \<open>partition\<close> of the module (\<open>partition_show\<close> of \<open>main.c\<close>),
  which is the only reader of the second one. The kernel's \<open>snprintf\<close> writes nothing and returns 0
  for a size above \<open>INT_MAX\<close>, which is what the code relies on once the buffer is full.
\<close>

subsection \<open>The code\<close>

definition kernel_snprintf :: "bytes \<Rightarrow> nat \<Rightarrow> nat \<Rightarrow> bytes \<Rightarrow> (nat \<times> bytes) option" where
  "kernel_snprintf buf pos n s =
     (if n > 2147483647 then Some (0, buf)
      else if n = 0 then Some (length s, buf)
      else
        let w = snprintf n s @ [0] in
        if pos + length w > length buf then None else Some (length s, splice buf pos w))"

text \<open>The widths of the two columns of names: the longest name, and at least the title.\<close>

fun part_widths_loop :: "fal_partition list \<Rightarrow> nat \<Rightarrow> nat \<Rightarrow> nat \<times> nat" where
  "part_widths_loop [] part_name_max flash_dev_name_max = (part_name_max, flash_dev_name_max)"
| "part_widths_loop (part # ps) part_name_max flash_dev_name_max =
     part_widths_loop ps
       (if length (part_name part) > part_name_max then length (part_name part) else part_name_max)
       (if length (part_flash_name part) > flash_dev_name_max then length (part_flash_name part)
        else flash_dev_name_max)"

definition part_widths :: "fal \<Rightarrow> nat \<times> nat" where
  "part_widths f =
     (let part_name_max = length (cstr ''name''); flash_dev_name_max = length (cstr ''flash_dev'') in
      if fal_partition_table_len f \<noteq> 0
      then part_widths_loop (take (fal_partition_table_len f) (fal_partition_table f)) part_name_max flash_dev_name_max
      else (part_name_max, flash_dev_name_max))"

definition part_title :: bytes where
  "part_title = cstr ''==================== FAL partition table ===================='' "

definition part_columns :: "nat \<times> nat \<Rightarrow> bytes" where
  "part_columns w =
     cstr ''| '' @ fmt_ls (fst w) FAL_DEV_NAME_MAX (cstr ''name'') @ cstr '' | ''
     @ fmt_ls (snd w) FAL_DEV_NAME_MAX (cstr ''flash_dev'') @ cstr '' |   offset   |    length  |''"

definition part_rule :: bytes where
  "part_rule = replicate 61 45"

definition part_row :: "nat \<times> nat \<Rightarrow> fal_partition \<Rightarrow> bytes" where
  "part_row w part =
     cstr ''| '' @ fmt_ls (fst w) FAL_DEV_NAME_MAX (part_name part) @ cstr '' | ''
     @ fmt_ls (snd w) FAL_DEV_NAME_MAX (part_flash_name part) @ cstr '' | 0x'' @ fmt_x (u32_of_int (part_offset part))
     @ cstr '' | 0x'' @ fmt_x (part_len part) @ cstr '' |''"

definition part_end :: bytes where
  "part_end = replicate 61 61"

text \<open>The partition that the loops print in round \<open>i\<close>: from the last one of the table to the first.\<close>

definition part_from_last :: "fal \<Rightarrow> nat \<Rightarrow> fal_partition" where
  "part_from_last f i = fal_partition_table f ! (fal_partition_table_len f - i - 1)"

definition log_i :: "bytes \<Rightarrow> bytes" where
  "log_i s = [27] @ cstr ''[32;22m[I/FAL] '' @ s @ [27] @ cstr ''[0m'' @ [10]"

definition fal_show_part_table :: "fal \<Rightarrow> bytes" where
  "fal_show_part_table f =
     (let w = part_widths f in
      log_i part_title @ log_i (part_columns w) @ log_i part_rule
      @ concat (map (\<lambda>i. log_i (part_row w (part_from_last f i))) [0..<fal_partition_table_len f])
      @ log_i part_end)"

text \<open>One call of \<open>snprintf\<close> at the end of what is in the buffer; the state is \<open>buf_len\<close> and the buffer.\<close>

definition print_append :: "nat \<Rightarrow> bytes \<Rightarrow> nat \<times> bytes \<Rightarrow> (nat \<times> bytes) option" where
  "print_append len s st = (case st of (buf_len, buf) \<Rightarrow> do {
     (ret, buf) \<leftarrow> kernel_snprintf buf buf_len (u32_sub len buf_len) s;
     Some (u32 (buf_len + ret), buf)
   })"

fun print_rows :: "fal \<Rightarrow> nat \<times> nat \<Rightarrow> nat \<Rightarrow> nat list \<Rightarrow> nat \<times> bytes \<Rightarrow> (nat \<times> bytes) option" where
  "print_rows f w len [] st = Some st"
| "print_rows f w len (i # is) st = do {
     st \<leftarrow> print_append len (part_row w (part_from_last f i) @ [10]) st;
     print_rows f w len is st
   }"

definition fal_print_part_table :: "fal \<Rightarrow> bytes \<Rightarrow> nat \<Rightarrow> (nat \<times> bytes) option" where
  "fal_print_part_table f buf len = do {
     let w = part_widths f;
     st \<leftarrow> print_append len (part_title @ [10]) (0, buf);
     st \<leftarrow> print_append len (part_columns w @ [10]) st;
     st \<leftarrow> print_append len (part_rule @ [10]) st;
     st \<leftarrow> print_rows f w len [0..<fal_partition_table_len f] st;
     print_append len (part_end @ [10]) st
   }"

definition PAGE_SIZE :: nat where
  "PAGE_SIZE = 4096"

definition partition_show :: "fal \<Rightarrow> bytes \<Rightarrow> (nat \<times> bytes) option" where
  "partition_show f buf = fal_print_part_table f buf PAGE_SIZE"

subsection \<open>The table that is printed\<close>

text \<open>Its lines, without the ends of the lines. Both functions print these.\<close>

definition part_table_lines :: "fal \<Rightarrow> bytes list" where
  "part_table_lines f =
     [part_title, part_columns (part_widths f), part_rule]
     @ map (part_row (part_widths f)) (rev (take (fal_partition_table_len f) (fal_partition_table f))) @ [part_end]"

definition part_table_text :: "fal \<Rightarrow> bytes" where
  "part_table_text f = concat (map (\<lambda>l. l @ [10]) (part_table_lines f))"

definition parts_ok :: "fal \<Rightarrow> bool" where
  "parts_ok f \<longleftrightarrow> fal_partition_table_len f \<le> length (fal_partition_table f)
     \<and> (\<forall>p \<in> set (take (fal_partition_table_len f) (fal_partition_table f)).
          length (part_name p) < FAL_DEV_NAME_MAX \<and> length (part_flash_name p) < FAL_DEV_NAME_MAX
          \<and> part_len p < 4294967296)"

lemma from_last:
  assumes "fal_partition_table_len f \<le> length (fal_partition_table f)"
  shows "map (part_from_last f) [0..<fal_partition_table_len f]
    = rev (take (fal_partition_table_len f) (fal_partition_table f))"
  using assms by (intro nth_equalityI) (simp_all add: part_from_last_def rev_nth)

lemma show_lines:
  assumes "parts_ok f"
  shows "fal_show_part_table f = concat (map log_i (part_table_lines f))"
  using assms unfolding part_table_lines_def parts_ok_def
  by (simp add: fal_show_part_table_def Let_def comp_def from_last [symmetric])

subsection \<open>Printing into a buffer\<close>

lemma print_append_eq:
  assumes "length pre + length s < len" "len \<le> length pre + length r" "len < 2147483648"
  shows "print_append len s (length pre, pre @ r) = Some (length pre + length s, pre @ s @ 0 # drop (Suc (length s)) r)"
proof -
  have n: "u32_sub len (length pre) = len - length pre" using assms by (simp add: u32_sub_id)
  have s: "snprintf (len - length pre) s = s" using assms by (intro snprintf_all) simp
  have b: "\<not> len - length pre > 2147483647" "len - length pre \<noteq> 0" using assms by linarith+
  have k: "kernel_snprintf (pre @ r) (length pre) (len - length pre) s
      = Some (length s, pre @ s @ 0 # drop (Suc (length s)) r)"
    using assms b by (simp add: kernel_snprintf_def s splice_def Let_def)
  have "u32 (length pre + length s) = length pre + length s" using assms by (intro u32_id) simp
  then show ?thesis by (simp add: print_append_def n k)
qed

text \<open>A sequence of calls.\<close>

fun print_all :: "nat \<Rightarrow> bytes list \<Rightarrow> nat \<times> bytes \<Rightarrow> (nat \<times> bytes) option" where
  "print_all len [] st = Some st"
| "print_all len (s # ss) st = do { st \<leftarrow> print_append len s st; print_all len ss st }"

lemma print_all_fun:
  "print_all len [] = Some" "print_all len (s # ss) = (\<lambda>st. do { st \<leftarrow> print_append len s st; print_all len ss st })"
  by (rule ext, simp)+

lemma print_all_append:
  "print_all len (ss @ ts) st = do { st \<leftarrow> print_all len ss st; print_all len ts st }"
proof (induction ss arbitrary: st)
  case (Cons s ss)
  then show ?case by (cases "print_append len s st") simp_all
qed simp

lemma print_all_eq:
  assumes "len < 2147483648"
  shows "ss \<noteq> [] \<Longrightarrow> length pre + length (concat ss) < len \<Longrightarrow> len \<le> length pre + length r \<Longrightarrow>
    print_all len ss (length pre, pre @ r)
    = Some (length pre + length (concat ss), pre @ concat ss @ 0 # drop (Suc (length (concat ss))) r)"
proof (induction ss arbitrary: pre r)
  case (Cons s ss)
  let ?r = "0 # drop (Suc (length s)) r"
  have a: "print_append len s (length pre, pre @ r) = Some (length (pre @ s), (pre @ s) @ ?r)"
    using print_append_eq [of pre s len r] Cons.prems assms by simp
  show ?case
  proof (cases "ss = []")
    case False
    have "print_all len ss (length (pre @ s), (pre @ s) @ ?r)
        = Some (length (pre @ s) + length (concat ss), (pre @ s) @ concat ss @ 0 # drop (Suc (length (concat ss))) ?r)"
      using Cons.prems False by (intro Cons.IH) simp_all
    then show ?thesis using a by (simp add: add.commute add.left_commute)
  qed (use a in simp)
qed simp

lemma print_rows_all:
  "print_rows f w len is st = print_all len (map (\<lambda>p. part_row w p @ [10]) (map (part_from_last f) is)) st"
proof (induction "is" arbitrary: st)
  case (Cons i "is")
  show ?case unfolding print_rows.simps Cons.IH by simp
qed simp

lemma print_lines:
  assumes "parts_ok f"
  shows "fal_print_part_table f buf len = print_all len (map (\<lambda>l. l @ [10]) (part_table_lines f)) (0, buf)"
proof -
  let ?w = "part_widths f"
  have "print_rows f ?w len [0..<fal_partition_table_len f] st
      = print_all len (map (\<lambda>l. l @ [10]) (map (part_row ?w) (rev (take (fal_partition_table_len f) (fal_partition_table f))))) st" for st
    using from_last [of f] assms unfolding print_rows_all parts_ok_def by (simp add: comp_def)
  then show ?thesis
    unfolding fal_print_part_table_def part_table_lines_def Let_def list.map map_append
    by (simp add: print_all_fun print_all_append [abs_def] del: print_all.simps map_map)
qed

subsection \<open>The size of the table\<close>

lemma part_widths_loop_le:
  "\<forall>p \<in> set ps. length (part_name p) \<le> m \<and> length (part_flash_name p) \<le> m \<Longrightarrow> a \<le> m \<Longrightarrow> b \<le> m \<Longrightarrow>
    fst (part_widths_loop ps a b) \<le> m \<and> snd (part_widths_loop ps a b) \<le> m"
  by (induction ps a b rule: part_widths_loop.induct) simp_all

lemma parts_okD:
  assumes "parts_ok f" "p \<in> set (take (fal_partition_table_len f) (fal_partition_table f))"
  shows "length (part_name p) \<le> 23" "length (part_flash_name p) \<le> 23" "part_len p < 4294967296"
proof -
  have "length (part_name p) < 24" "length (part_flash_name p) < 24" "part_len p < 4294967296"
    using assms by (auto simp: parts_ok_def FAL_DEV_NAME_MAX_def)
  then show "length (part_name p) \<le> 23" "length (part_flash_name p) \<le> 23" "part_len p < 4294967296" by linarith+
qed

lemma title_lengths: "length (cstr ''name'') = 4" "length (cstr ''flash_dev'') = 9"
  by (simp_all add: cstr_def)

lemma part_widths_le:
  assumes "parts_ok f"
  shows "fst (part_widths f) \<le> 23" "snd (part_widths f) \<le> 23"
  using part_widths_loop_le [of "take (fal_partition_table_len f) (fal_partition_table f)" 23 4 9] parts_okD(1,2) [OF assms]
  by (simp_all add: part_widths_def title_lengths Let_def)

lemma fmt_ls_le: "w \<le> m \<Longrightarrow> length s \<le> m \<Longrightarrow> length (fmt_ls w n s) \<le> m"
  unfolding fmt_ls_length fmt_s_def using length_takeWhile_le [of "\<lambda>b. b \<noteq> 0" "take n s"] by simp

lemma part_row_length:
  assumes "fst w \<le> 23" "snd w \<le> 23" "length (part_name p) \<le> 23" "length (part_flash_name p) \<le> 23" "part_len p < 4294967296"
  shows "length (part_row w p) \<le> 79"
proof -
  have "u32_of_int (part_offset p) < 4294967296" by (simp add: u32_of_int_def nat_less_iff)
  then have x: "length (fmt_x (u32_of_int (part_offset p))) = 8" "length (fmt_x (part_len p)) = 8"
    using assms(5) by (simp_all add: fmt_x_def hex08_length)
  show ?thesis
    using fmt_ls_le [OF assms(1,3), of FAL_DEV_NAME_MAX] fmt_ls_le [OF assms(2,4), of FAL_DEV_NAME_MAX]
    by (simp add: part_row_def x cstr_def)
qed

lemma part_columns_length:
  assumes "fst w \<le> 23" "snd w \<le> 23"
  shows "length (part_columns w) \<le> 79"
  using fmt_ls_le [OF assms(1), of "cstr ''name''" FAL_DEV_NAME_MAX] fmt_ls_le [OF assms(2), of "cstr ''flash_dev''" FAL_DEV_NAME_MAX]
  by (simp add: part_columns_def cstr_def)

lemma lines_length:
  "\<forall>p \<in> set ps. length (g p) \<le> 79 \<Longrightarrow> length (concat (map (\<lambda>l. l @ [10 :: byte]) (map g ps))) \<le> 80 * length ps"
  by (induction ps) fastforce+

lemma table_length:
  assumes "parts_ok f"
  shows "length (part_table_text f) \<le> 266 + 80 * fal_partition_table_len f"
proof -
  let ?w = "part_widths f" let ?ps = "rev (take (fal_partition_table_len f) (fal_partition_table f))"
  note w = part_widths_le [OF assms]
  have "\<forall>p \<in> set ?ps. length (part_row ?w p) \<le> 79"
    using part_row_length [OF w parts_okD [OF assms]] by simp
  then have "length (concat (map (\<lambda>l. l @ [10 :: byte]) (map (part_row ?w) ?ps))) \<le> 80 * length ?ps"
    by (rule lines_length)
  moreover have "length ?ps \<le> fal_partition_table_len f" by simp
  ultimately show ?thesis using part_columns_length [OF w]
    by (simp add: part_table_text_def part_table_lines_def part_title_def part_rule_def part_end_def cstr_def)
qed

subsection \<open>The property\<close>

text \<open>Reading the class file \<open>partition\<close> gives the table that the layer shows on the console, line for
  line and from the last partition to the first, as a C string, and returns its length. For up to 47
  partitions it fits the page of 4096 bytes that the kernel passes, whatever the names; the device
  \<open>virt\<close> has room for 16.\<close>

theorem partition_show_page:
  assumes "parts_ok f" "fal_partition_table_len f \<le> 47" "length buf = PAGE_SIZE"
  shows "partition_show f buf = Some (length (part_table_text f),
      part_table_text f @ 0 # drop (Suc (length (part_table_text f))) buf)
    \<and> length (part_table_text f) < PAGE_SIZE
    \<and> fal_show_part_table f = concat (map log_i (part_table_lines f))"
proof -
  let ?ls = "map (\<lambda>l. l @ [10]) (part_table_lines f)"
  have n: "length (concat ?ls) < PAGE_SIZE"
    using table_length [OF assms(1)] assms(2) unfolding part_table_text_def PAGE_SIZE_def by linarith
  have "?ls \<noteq> []" by (simp add: part_table_lines_def)
  from print_all_eq [OF _ this, of PAGE_SIZE "[]" buf] n assms(3) show ?thesis
    using show_lines [OF assms(1)]
    by (simp add: partition_show_def print_lines [OF assms(1)] PAGE_SIZE_def part_table_text_def)
qed

lemma hex_demo: "hex_digits a 0 = [48]" "hex_digits a 32768 = [56, 48, 48, 48]"
proof -
  show "hex_digits a 0 = [48]" by (subst hex_digits.simps) (simp add: hex_digit_def)
  have "hex_digits a 8 = [56]" by (subst hex_digits.simps) (simp add: hex_digit_def)
  then have "hex_digits a 128 = [56, 48]" by (subst hex_digits.simps) (simp add: hex_digit_def)
  then have "hex_digits a 2048 = [56, 48, 48]" by (subst hex_digits.simps) (simp add: hex_digit_def)
  then show "hex_digits a 32768 = [56, 48, 48, 48]" by (subst hex_digits.simps) (simp add: hex_digit_def)
qed

lemma fmt_demo:
  "fmt_x 0 = cstr ''00000000''" "fmt_x 32768 = cstr ''00008000''" "fmt_ls 9 24 (cstr ''MEM'') = cstr ''MEM      ''"
  "fmt_ls 7 24 (cstr ''flashdb'') = cstr ''flashdb''"
proof -
  have "replicate 7 x = [x, x, x, x, x, x, x]" "replicate 6 x = [x, x, x, x, x, x]" "replicate 4 x = [x, x, x, x]" for x :: byte
    by (simp_all add: numeral_eq_Suc)
  then show "fmt_x 0 = cstr ''00000000''" "fmt_x 32768 = cstr ''00008000''" "fmt_ls 9 24 (cstr ''MEM'') = cstr ''MEM      ''"
    "fmt_ls 7 24 (cstr ''flashdb'') = cstr ''flashdb''"
    by (simp_all add: fmt_x_def hex08_def hex_demo cstr_def fmt_ls_def fmt_s_def)
qed

text \<open>The table of the module just loaded, with its one partition.\<close>

theorem partition_show_page_witness:
  "\<exists>f b. fal_init (db_fal (module_blank 32768)) = Some (1, f)
    \<and> part_table_lines f = [part_title, part_columns (7, 9), part_rule,
        cstr ''| flashdb | MEM       | 0x00000000 | 0x00008000 |'', part_end]
    \<and> partition_show f (replicate PAGE_SIZE 0) = Some (length (part_table_text f), b)"
proof -
  define f where "f = fal_booted (cstr ''flashdb'') 32768 (cstr ''spi0.0'') [demo_mtd] (\<lambda>k. Some (replicate k 0)) (\<lambda>_. True) 0xA5"
  have i: "fal_init (db_fal (module_blank 32768)) = Some (1, f)"
    using fal_init_mem [OF module_blank_facts(1-3), of 32768] by (simp add: module_blank_def f_def)
  have t: "fal_partition_table f = [mem_partition (cstr ''flashdb'')]" "fal_partition_table_len f = 1"
    by (simp_all add: f_def fal_booted_def)
  have ok: "parts_ok f" unfolding parts_ok_def t
    by (simp add: mem_partition_def MEM_FLASH_DEV_NAME_def FAL_DEV_NAME_MAX_def cstr_def)
  have "part_widths f = (7, 9)"
    unfolding part_widths_def t by (simp add: mem_partition_def MEM_FLASH_DEV_NAME_def cstr_def)
  moreover have "part_row (7, 9) (mem_partition (cstr ''flashdb'')) = cstr ''| flashdb | MEM       | 0x00000000 | 0x00008000 |''"
    unfolding part_row_def mem_partition_def MEM_FLASH_DEV_NAME_def
    by (simp add: fmt_demo FAL_DEV_NAME_MAX_def u32_of_int_def) (simp add: cstr_def)
  ultimately have "part_table_lines f = [part_title, part_columns (7, 9), part_rule,
      cstr ''| flashdb | MEM       | 0x00000000 | 0x00008000 |'', part_end]"
    by (simp add: part_table_lines_def t)
  then show ?thesis using i partition_show_page [OF ok, of "replicate PAGE_SIZE 0"] t by simp
qed

end
