(* ===== verification/Fal_Rtt.thy ===== *)
theory Fal_Rtt
  imports Fdb_Store
begin

text \<open>
  The devices that \<open>fal_rtt.c\<close> makes of a partition for RT-Thread: a block device, an MTD NOR
  device, a character device and its file operations. A device holds the number of its partition;
  the layer \<open>f\<close> is the state they all share. The registration of a device with RT-Thread and the
  allocator \<open>rt_malloc\<close> belong to RT-Thread: \<open>malloc_ok\<close> says whether the allocation succeeds.

  Results of \<open>rt_size_t\<close> are \<^typ>\<open>nat\<close>, error codes \<^typ>\<open>int\<close>. The arithmetic is on 32 bits.
\<close>

definition RT_EOK :: int where
  "RT_EOK = 0"

definition RT_ERROR :: int where
  "RT_ERROR = 1"

subsection \<open>Reading into a caller's buffer\<close>

text \<open>
  A read of \<open>n\<close> bytes into a buffer. When the partition accepts a read that is longer than the
  buffer, the driver writes behind it.
\<close>

definition part_read_into :: "fal \<Rightarrow> nat \<Rightarrow> nat \<Rightarrow> nat \<Rightarrow> bytes \<Rightarrow> (int \<times> bytes) option" where
  "part_read_into f p addr n buf =
     (if n \<le> length buf then do {
        (ret, bs) \<leftarrow> fal_partition_read f p addr (take n buf);
        Some (ret, bs @ drop n buf)
      }
      else if u32 (addr + n) > part_len (fal_partition_table f ! p) then Some (- 1, buf)
      else None)"

text \<open>The bytes of a write, \<open>n\<close> of them from the caller's buffer.\<close>

definition part_write_from :: "fal \<Rightarrow> nat \<Rightarrow> nat \<Rightarrow> nat \<Rightarrow> bytes \<Rightarrow> (int \<times> fal) option" where
  "part_write_from f p addr n buf =
     (if n \<le> length buf then fal_partition_write f p addr (take n buf)
      else if u32 (addr + n) > part_len (fal_partition_table f ! p) then Some (- 1, f)
      else None)"

subsection \<open>Block device\<close>

record rt_device_blk_geometry =
  bytes_per_sector :: nat
  block_size :: nat
  sector_count :: nat

record fal_blk_device =
  blk_geometry :: rt_device_blk_geometry
  blk_part :: nat

text \<open>
  The commands of \<open>blk_dev_control\<close> with their arguments: whether the pointer for the geometry is
  not null, and the two addresses of an erase, \<^const>\<open>None\<close> for a null pointer. The code reads both
  addresses before it looks at the pointer.
\<close>

datatype blk_cmd = BLK_GETGEOME bool | BLK_ERASE "(nat \<times> nat) option" | BLK_OTHER

fun blk_dev_control :: "fal_blk_device \<Rightarrow> fal \<Rightarrow> blk_cmd \<Rightarrow> (int \<times> rt_device_blk_geometry option \<times> fal) option" where
  "blk_dev_control dev f (BLK_GETGEOME args) =
     (if \<not> args then Some (- RT_ERROR, None, f) else Some (RT_EOK, Some (blk_geometry dev), f))"
| "blk_dev_control dev f (BLK_ERASE None) = None"
| "blk_dev_control dev f (BLK_ERASE (Some (start_addr, end_addr))) =
     (if start_addr > end_addr then Some (- RT_ERROR, None, f)
      else do {
        let end_addr = (if end_addr = start_addr then u32 (end_addr + 1) else end_addr);
        let phy_start_addr = u32 (start_addr * bytes_per_sector (blk_geometry dev));
        let phy_size = u32 (u32_sub end_addr start_addr * bytes_per_sector (blk_geometry dev));
        (ret, f) \<leftarrow> fal_partition_erase f (blk_part dev) phy_start_addr phy_size;
        if ret < 0 then Some (- RT_ERROR, None, f) else Some (RT_EOK, None, f)
      })"
| "blk_dev_control dev f BLK_OTHER = Some (RT_EOK, None, f)"

definition blk_dev_read :: "fal_blk_device \<Rightarrow> fal \<Rightarrow> nat \<Rightarrow> nat \<Rightarrow> bytes \<Rightarrow> (nat \<times> bytes) option" where
  "blk_dev_read dev f pos sz buf = do {
     let n = u32 (sz * block_size (blk_geometry dev));
     (ret, buf) \<leftarrow> part_read_into f (blk_part dev) (u32 (pos * block_size (blk_geometry dev))) n buf;
     Some (if ret \<noteq> s32 (int n) then 0 else sz, buf)
   }"

definition blk_dev_write :: "fal_blk_device \<Rightarrow> fal \<Rightarrow> nat \<Rightarrow> nat \<Rightarrow> bytes \<Rightarrow> (nat \<times> fal) option" where
  "blk_dev_write dev f pos sz buf = do {
     let phy_pos = u32 (pos * bytes_per_sector (blk_geometry dev));
     let phy_size = u32 (sz * bytes_per_sector (blk_geometry dev));
     (ret, f) \<leftarrow> fal_partition_erase f (blk_part dev) phy_pos phy_size;
     (ret, f) \<leftarrow> (if ret = s32 (int phy_size) then part_write_from f (blk_part dev) phy_pos phy_size buf
                  else Some (ret, f));
     Some (if ret \<noteq> s32 (int phy_size) then 0 else sz, f)
   }"

text \<open>
  \<open>fal_blk_device_create\<close>: \<^const>\<open>None\<close> inside the option is the null pointer it returns. A flash
  device with blocks of 0 bytes makes it divide by zero.
\<close>

definition fal_blk_device_create :: "fal \<Rightarrow> bool \<Rightarrow> bytes \<Rightarrow> fal_blk_device option option" where
  "fal_blk_device_create f malloc_ok parition_name =
     (case fal_partition_find f parition_name of
        None \<Rightarrow> Some None
      | Some p \<Rightarrow>
          (case fal_flash_device_find f (part_flash_name (fal_partition_table f ! p)) of
             None \<Rightarrow> Some None
           | Some d \<Rightarrow>
               if \<not> malloc_ok then Some None
               else let blk_size = dev_blk_size (fal_infos f ! d) in
                 if blk_size = 0 then None
                 else Some (Some \<lparr>blk_geometry = \<lparr>bytes_per_sector = blk_size, block_size = blk_size,
                    sector_count = part_len (fal_partition_table f ! p) div blk_size\<rparr>, blk_part = p\<rparr>)))"

subsection \<open>MTD NOR device\<close>

record fal_mtd_nor_device =
  mtd_block_start :: nat
  mtd_block_end :: nat
  mtd_block_size :: nat
  mtd_part :: nat

definition mtd_nor_dev_read :: "fal_mtd_nor_device \<Rightarrow> fal \<Rightarrow> nat \<Rightarrow> nat \<Rightarrow> bytes \<Rightarrow> (nat \<times> bytes) option" where
  "mtd_nor_dev_read dev f offset len data = do {
     (ret, data) \<leftarrow> part_read_into f (mtd_part dev) offset len data;
     Some (if ret \<noteq> s32 (int len) then 0 else len, data)
   }"

definition mtd_nor_dev_write :: "fal_mtd_nor_device \<Rightarrow> fal \<Rightarrow> nat \<Rightarrow> nat \<Rightarrow> bytes \<Rightarrow> (nat \<times> fal) option" where
  "mtd_nor_dev_write dev f offset len data = do {
     (ret, f) \<leftarrow> part_write_from f (mtd_part dev) offset len data;
     Some (if ret \<noteq> s32 (int len) then 0 else len, f)
   }"

definition mtd_nor_dev_erase :: "fal_mtd_nor_device \<Rightarrow> fal \<Rightarrow> nat \<Rightarrow> nat \<Rightarrow> (int \<times> fal) option" where
  "mtd_nor_dev_erase dev f offset len = do {
     (ret, f) \<leftarrow> fal_partition_erase f (mtd_part dev) offset len;
     Some (if u32_of_int ret \<noteq> len then - RT_ERROR else RT_EOK, f)
   }"

definition fal_mtd_nor_device_create :: "fal \<Rightarrow> bool \<Rightarrow> bytes \<Rightarrow> fal_mtd_nor_device option option" where
  "fal_mtd_nor_device_create f malloc_ok parition_name =
     (case fal_partition_find f parition_name of
        None \<Rightarrow> Some None
      | Some p \<Rightarrow>
          (case fal_flash_device_find f (part_flash_name (fal_partition_table f ! p)) of
             None \<Rightarrow> Some None
           | Some d \<Rightarrow>
               if \<not> malloc_ok then Some None
               else let blk_size = dev_blk_size (fal_infos f ! d) in
                 if blk_size = 0 then None
                 else Some (Some \<lparr>mtd_block_start = 0, mtd_block_end = part_len (fal_partition_table f ! p) div blk_size,
                    mtd_block_size = blk_size, mtd_part = p\<rparr>)))"

subsection \<open>Character device\<close>

record fal_char_device =
  char_part :: nat

definition char_dev_read :: "fal_char_device \<Rightarrow> fal \<Rightarrow> nat \<Rightarrow> nat \<Rightarrow> bytes \<Rightarrow> (nat \<times> bytes) option" where
  "char_dev_read dev f pos sz buf = do {
     let plen = part_len (fal_partition_table f ! char_part dev);
     let sz = (if u32 (pos + sz) > plen then u32_sub plen pos else sz);
     (ret, buf) \<leftarrow> part_read_into f (char_part dev) pos sz buf;
     Some (if ret \<noteq> s32 (int sz) then 0 else u32_of_int ret, buf)
   }"

definition char_dev_write :: "fal_char_device \<Rightarrow> fal \<Rightarrow> nat \<Rightarrow> nat \<Rightarrow> bytes \<Rightarrow> (nat \<times> fal) option" where
  "char_dev_write dev f pos sz buf = do {
     let plen = part_len (fal_partition_table f ! char_part dev);
     (sz, f) \<leftarrow> (if pos = 0 then do { (ret, f) \<leftarrow> fal_partition_erase_all f (char_part dev); Some (sz, f) }
                 else if u32 (pos + sz) > plen then Some (u32_sub plen pos, f)
                 else Some (sz, f));
     (ret, f) \<leftarrow> part_write_from f (char_part dev) pos sz buf;
     Some (if ret \<noteq> s32 (int sz) then 0 else u32_of_int ret, f)
   }"

definition fal_char_device_create :: "fal \<Rightarrow> bool \<Rightarrow> bytes \<Rightarrow> fal_char_device option" where
  "fal_char_device_create f malloc_ok parition_name =
     (case fal_partition_find f parition_name of
        None \<Rightarrow> None
      | Some p \<Rightarrow>
          (case fal_flash_device_find f (part_flash_name (fal_partition_table f ! p)) of
             None \<Rightarrow> None
           | Some d \<Rightarrow> if malloc_ok then Some \<lparr>char_part = p\<rparr> else None))"

subsection \<open>Files on the character device\<close>

datatype open_mode = O_RDONLY | O_WRONLY | O_RDWR

record dfs_fd =
  fd_mode :: open_mode
  fd_pos :: nat

definition char_dev_fopen :: "fal_char_device \<Rightarrow> fal \<Rightarrow> dfs_fd \<Rightarrow> (int \<times> dfs_fd \<times> fal) option" where
  "char_dev_fopen dev f fd = do {
     f \<leftarrow> (if fd_mode fd = O_WRONLY \<or> fd_mode fd = O_RDWR
           then do { (ret, f) \<leftarrow> fal_partition_erase_all f (char_part dev); Some f } else Some f);
     Some (RT_EOK, fd\<lparr>fd_pos := 0\<rparr>, f)
   }"

definition char_dev_fread :: "fal_char_device \<Rightarrow> fal \<Rightarrow> dfs_fd \<Rightarrow> nat \<Rightarrow> bytes \<Rightarrow> (int \<times> bytes \<times> dfs_fd) option" where
  "char_dev_fread dev f fd count buf = do {
     let plen = part_len (fal_partition_table f ! char_part dev);
     let count = (if u32 (fd_pos fd + count) > plen then u32_sub plen (fd_pos fd) else count);
     (ret, buf) \<leftarrow> part_read_into f (char_part dev) (fd_pos fd) count buf;
     if ret \<noteq> s32 (int count) then Some (0, buf, fd)
     else Some (ret, buf, fd\<lparr>fd_pos := u32_of_int (int (fd_pos fd) + ret)\<rparr>)
   }"

definition char_dev_fwrite :: "fal_char_device \<Rightarrow> fal \<Rightarrow> dfs_fd \<Rightarrow> nat \<Rightarrow> bytes \<Rightarrow> (int \<times> dfs_fd \<times> fal) option" where
  "char_dev_fwrite dev f fd count buf = do {
     let plen = part_len (fal_partition_table f ! char_part dev);
     let count = (if u32 (fd_pos fd + count) > plen then u32_sub plen (fd_pos fd) else count);
     (ret, f) \<leftarrow> part_write_from f (char_part dev) (fd_pos fd) count buf;
     if ret \<noteq> s32 (int count) then Some (0, fd, f)
     else Some (ret, fd\<lparr>fd_pos := u32_of_int (int (fd_pos fd) + ret)\<rparr>, f)
   }"

subsection \<open>A partition on the RAM device\<close>

definition part_ok :: "fal \<Rightarrow> nat \<Rightarrow> bool" where
  "part_ok f p \<longleftrightarrow> (\<exists>malloc d mem. on_mem_blk f p malloc d mem)"

definition part_img :: "fal \<Rightarrow> nat \<Rightarrow> bytes" where
  "part_img f p = (case fal_partition_read f p 0 (replicate (part_len (fal_partition_table f ! p)) 0) of
     Some (_, m) \<Rightarrow> m | None \<Rightarrow> [])"

abbreviation part_size :: "fal \<Rightarrow> nat \<Rightarrow> nat" where
  "part_size f p \<equiv> part_len (fal_partition_table f ! p)"

lemma part_img_eq:
  assumes "on_mem_blk f p malloc d mem"
  shows "part_img f p = slice (nat (part_offset (fal_partition_table f ! p))) (part_size f p) mem"
  using part_read [OF assms, of 0 "replicate (part_size f p) 0"] by (simp add: part_img_def)

lemma part_facts:
  assumes "part_ok f p"
  shows "length (part_img f p) = part_size f p" "part_size f p < 2147483648"
proof -
  obtain malloc d mem where o: "on_mem_blk f p malloc d mem" using assms by (auto simp: part_ok_def)
  then show "length (part_img f p) = part_size f p" "part_size f p < 2147483648"
    by (simp_all add: part_img_eq [OF o] on_mem_blk_def)
qed

lemma part_read_img:
  assumes "part_ok f p" "a + n \<le> part_size f p" "n \<le> length buf"
  shows "part_read_into f p a n buf = Some (int n, slice a n (part_img f p) @ drop n buf)"
proof -
  obtain malloc d mem where o: "on_mem_blk f p malloc d mem" using assms(1) by (auto simp: part_ok_def)
  show ?thesis using part_read [OF o, of a "take n buf"] assms(2,3)
    by (simp add: part_read_into_def part_img_eq [OF o] slice_slice min_absorb2)
qed

lemma part_img_update:
  assumes "on_mem_blk f p malloc d mem" "a + length bs \<le> part_size f p"
  defines "f' \<equiv> mem_update f d (splice mem (nat (part_offset (fal_partition_table f ! p)) + a) bs)"
  shows "part_ok f' p" "part_img f' p = splice (part_img f p) a bs"
proof -
  let ?o = "nat (part_offset (fal_partition_table f ! p))"
  have b: "?o + part_size f p \<le> length mem" using assms(1) by (simp add: on_mem_blk_def)
  then have "length (splice mem (?o + a) bs) = length mem" using assms(2) by simp
  then have o: "on_mem_blk f' p malloc d (splice mem (?o + a) bs)"
    unfolding f'_def by (rule on_mem_blk_update [OF assms(1)])
  then show "part_ok f' p" by (auto simp: part_ok_def)
  show "part_img f' p = splice (part_img f p) a bs"
    using mem_slice_splice(1) [OF b assms(2)] by (simp add: part_img_eq [OF o] part_img_eq [OF assms(1)]) (simp add: f'_def)
qed

lemma part_write_img:
  assumes "part_ok f p" "a + n \<le> part_size f p" "n \<le> length buf"
  shows "\<exists>f'. part_write_from f p a n buf = Some (int n, f') \<and> part_ok f' p \<and> part_img f' p = splice (part_img f p) a (take n buf)
    \<and> fal_partition_table f' = fal_partition_table f"
proof -
  obtain malloc d mem where o: "on_mem_blk f p malloc d mem" using assms(1) by (auto simp: part_ok_def)
  have l: "a + length (take n buf) \<le> part_size f p" using assms(2,3) by simp
  show ?thesis using part_write [OF o l] part_img_update [OF o l] assms(3)
    by (simp add: part_write_from_def min_absorb2)
qed

lemma part_erase_img:
  assumes "part_ok f p" "a + n \<le> part_size f p"
  shows "\<exists>f'. fal_partition_erase f p a n = Some (int n, f') \<and> part_ok f' p
    \<and> part_img f' p = splice (part_img f p) a (replicate n 0xFF) \<and> fal_partition_table f' = fal_partition_table f"
proof -
  obtain malloc d mem where o: "on_mem_blk f p malloc d mem" using assms(1) by (auto simp: part_ok_def)
  have l: "a + length (replicate n (0xFF :: byte)) \<le> part_size f p" using assms(2) by simp
  show ?thesis using part_erase [OF o assms(2)] part_img_update [OF o l] by simp
qed

subsection \<open>Properties\<close>

lemma blk_device_fields:
  assumes "fal_blk_device_create f True name = Some (Some dev)" "fal_partition_find f name = Some p"
  shows "blk_part dev = p" "block_size (blk_geometry dev) = bytes_per_sector (blk_geometry dev)"
    "0 < bytes_per_sector (blk_geometry dev)"
    "sector_count (blk_geometry dev) * bytes_per_sector (blk_geometry dev) \<le> part_size f p"
  using assms by (auto simp: fal_blk_device_create_def Let_def split: option.splits if_splits)

text \<open>Blocks inside the device are bytes inside its partition.\<close>

lemma blk_range:
  assumes "q + k \<le> count" "count * Z \<le> L" "L < 2147483648"
  shows "u32 (q * Z) = q * Z" "u32 (k * Z) = k * Z" "q * Z + k * Z \<le> L" "s32 (int (k * Z)) = int (k * Z)"
proof -
  have "(q + k) * Z \<le> count * Z" using assms(1) by (rule mult_le_mono1)
  then have b: "q * Z + k * Z \<le> L" using assms(2) by (simp add: add_mult_distrib)
  then show "u32 (q * Z) = q * Z" "u32 (k * Z) = k * Z" "q * Z + k * Z \<le> L" "s32 (int (k * Z)) = int (k * Z)"
    using assms(3) by (simp_all add: u32_id s32_id del: of_nat_mult)
qed

lemma blk_read_img:
  assumes "part_ok f (blk_part dev)" "block_size (blk_geometry dev) = Z"
    and "q + k \<le> count" "count * Z \<le> part_size f (blk_part dev)" "length buf = k * Z"
  shows "blk_dev_read dev f q k buf = Some (k, slice (q * Z) (k * Z) (part_img f (blk_part dev)))"
  using part_read_img [OF assms(1), of "q * Z" "k * Z" buf] blk_range [OF assms(3,4) part_facts(2) [OF assms(1)]] assms(2,5)
  by (simp add: blk_dev_read_def Let_def del: of_nat_mult)

lemma blk_dev_image:
  assumes "part_ok f p" "fal_blk_device_create f True name = Some (Some dev)" "fal_partition_find f name = Some p"
    and "q + k \<le> sector_count (blk_geometry dev)" "Z = block_size (blk_geometry dev)" "length data = k * Z"
    and "a \<le> b" "b \<le> sector_count (blk_geometry dev)" "a < sector_count (blk_geometry dev)"
  shows "\<exists>f'. blk_dev_write dev f q k data = Some (k, f') \<and> part_ok f' p
      \<and> part_img f' p = splice (part_img f p) (q * Z) data
      \<and> (\<forall>q' k' buf. q' + k' \<le> sector_count (blk_geometry dev) \<longrightarrow> length buf = k' * Z
           \<longrightarrow> blk_dev_read dev f' q' k' buf = Some (k', slice (q' * Z) (k' * Z) (part_img f' p)))"
    "\<exists>f'. blk_dev_control dev f (BLK_ERASE (Some (a, b))) = Some (RT_EOK, None, f') \<and> part_ok f' p
      \<and> part_img f' p = splice (part_img f p) (a * Z) (replicate (max 1 (b - a) * Z) 0xFF)"
proof -
  note d = blk_device_fields [OF assms(2,3)] and L = part_facts(2) [OF assms(1)]
  have Z: "bytes_per_sector (blk_geometry dev) = Z" "sector_count (blk_geometry dev) * Z \<le> part_size f p"
    using d(2,4) assms(5) by simp_all
  note r = blk_range [OF assms(4) Z(2) L]
  obtain f1 where e: "fal_partition_erase f p (q * Z) (k * Z) = Some (int (k * Z), f1)" "part_ok f1 p"
    "part_img f1 p = splice (part_img f p) (q * Z) (replicate (k * Z) 0xFF)" "fal_partition_table f1 = fal_partition_table f"
    using part_erase_img [OF assms(1) r(3)] by blast
  obtain f2 where w: "part_write_from f1 p (q * Z) (k * Z) data = Some (int (k * Z), f2)" "part_ok f2 p"
    "part_img f2 p = splice (part_img f1 p) (q * Z) (take (k * Z) data)" "fal_partition_table f2 = fal_partition_table f1"
    using part_write_img [OF e(2), of "q * Z" "k * Z" data] r(3) e(4) assms(6) by auto
  have i: "part_img f2 p = splice (part_img f p) (q * Z) data"
    using w(3) e(3) assms(6) r(3) part_facts(1) [OF assms(1)] by (simp add: splice_splice_over)
  have "blk_dev_write dev f q k data = Some (k, f2)"
    using e(1) w(1) r d(1) Z(1) by (simp add: blk_dev_write_def Let_def del: of_nat_mult)
  moreover have "blk_dev_read dev f2 q' k' buf = Some (k', slice (q' * Z) (k' * Z) (part_img f2 p))"
    if "q' + k' \<le> sector_count (blk_geometry dev)" "length buf = k' * Z" for q' k' buf
    using blk_read_img [OF _ assms(5) [symmetric] that(1) _ that(2), of f2] w(2,4) e(4) d(1) Z(2) by simp
  ultimately show "\<exists>f'. blk_dev_write dev f q k data = Some (k, f') \<and> part_ok f' p
      \<and> part_img f' p = splice (part_img f p) (q * Z) data
      \<and> (\<forall>q' k' buf. q' + k' \<le> sector_count (blk_geometry dev) \<longrightarrow> length buf = k' * Z
           \<longrightarrow> blk_dev_read dev f' q' k' buf = Some (k', slice (q' * Z) (k' * Z) (part_img f' p)))"
    using w(2) i by blast
  let ?n = "max 1 (b - a)"
  have n: "a + ?n \<le> sector_count (blk_geometry dev)" using assms(7-9) by simp
  note s = blk_range [OF n Z(2) L]
  have "sector_count (blk_geometry dev) * 1 \<le> sector_count (blk_geometry dev) * Z" using d(3) Z(1) by (intro mult_le_mono2) simp
  then have "b < 4294967295" using assms(8) Z(2) L by linarith
  then have m: "u32_sub (if b = a then u32 (b + 1) else b) a = ?n" using assms(7) by (auto simp: u32_id u32_sub_id)
  obtain f3 where "fal_partition_erase f p (a * Z) (?n * Z) = Some (int (?n * Z), f3)" "part_ok f3 p"
    "part_img f3 p = splice (part_img f p) (a * Z) (replicate (?n * Z) 0xFF)"
    using part_erase_img [OF assms(1) s(3)] by blast
  then show "\<exists>f'. blk_dev_control dev f (BLK_ERASE (Some (a, b))) = Some (RT_EOK, None, f') \<and> part_ok f' p
      \<and> part_img f' p = splice (part_img f p) (a * Z) (replicate (?n * Z) 0xFF)"
    using assms(7) m s(1,2) d(1) Z(1) by (simp add: Let_def RT_EOK_def del: of_nat_mult)
qed

text \<open>C33: The block device of a partition is an array of blocks: a write of whole blocks inside it succeeds
  and replaces exactly these, every read of blocks delivers their bytes, and the erase command fills
  the blocks between its two addresses, one block when they are equal.\<close>

theorem blk_dev_refines:
  assumes "part_ok f p" "fal_blk_device_create f True name = Some (Some dev)" "fal_partition_find f name = Some p"
    and "q + k \<le> sector_count (blk_geometry dev)" "Z = block_size (blk_geometry dev)" "length data = k * Z"
    and "a \<le> b" "b \<le> sector_count (blk_geometry dev)" "a < sector_count (blk_geometry dev)"
  shows "(\<exists>f'. blk_dev_write dev f q k data = Some (k, f') \<and> part_ok f' p
      \<and> part_img f' p = splice (part_img f p) (q * Z) data
      \<and> (\<forall>q' k' buf. q' + k' \<le> sector_count (blk_geometry dev) \<longrightarrow> length buf = k' * Z
           \<longrightarrow> blk_dev_read dev f' q' k' buf = Some (k', slice (q' * Z) (k' * Z) (part_img f' p))))
    \<and> (\<exists>f'. blk_dev_control dev f (BLK_ERASE (Some (a, b))) = Some (RT_EOK, None, f') \<and> part_ok f' p
      \<and> part_img f' p = splice (part_img f p) (a * Z) (replicate (max 1 (b - a) * Z) 0xFF))"
  using blk_dev_image [OF assms] by (rule conjI)

lemma demo_blk:
  "part_ok (ram_fal 8192) 0" "fal_partition_find (ram_fal 8192) (cstr ''db'') = Some 0" "part_img (ram_fal 8192) 0 = replicate 8192 0xFF"
  "fal_blk_device_create (ram_fal 8192) True (cstr ''db'') = Some (Some \<lparr>blk_geometry =
     \<lparr>bytes_per_sector = 4096, block_size = 4096, sector_count = 2\<rparr>, blk_part = 0\<rparr>)"
proof -
  have o: "on_mem_blk (ram_fal 8192) 0 (\<lambda>_. None) 0 (replicate 8192 FDB_BYTE_ERASED)"
    by (simp add: on_mem_blk_def ram_fal_def mem_blk_ops_def get_mem_blk_addr_def)
  then show "part_ok (ram_fal 8192) 0" by (auto simp: part_ok_def)
  show "part_img (ram_fal 8192) 0 = replicate 8192 0xFF"
    unfolding part_img_eq [OF o] by (simp add: ram_fal_def slice_def FDB_BYTE_ERASED_def)
  show p: "fal_partition_find (ram_fal 8192) (cstr ''db'') = Some 0" by (simp add: fal_partition_find_def ram_fal_def)
  have "fal_flash_device_find (ram_fal 8192) MEM_FLASH_DEV_NAME = Some 0"
    by (simp add: fal_flash_device_find_def flash_device_find_def ram_fal_def mem_blk_def strncmp_eq_refl)
  then show "fal_blk_device_create (ram_fal 8192) True (cstr ''db'') = Some (Some \<lparr>blk_geometry =
     \<lparr>bytes_per_sector = 4096, block_size = 4096, sector_count = 2\<rparr>, blk_part = 0\<rparr>)"
    using p by (simp add: fal_blk_device_create_def ram_fal_def mem_blk_def)
qed

theorem blk_dev_refines_witness:
  "\<exists>f'. blk_dev_write \<lparr>blk_geometry = \<lparr>bytes_per_sector = 4096, block_size = 4096, sector_count = 2\<rparr>, blk_part = 0\<rparr>
      (ram_fal 8192) 1 1 (replicate 4096 7) = Some (1, f')
    \<and> part_img f' 0 = splice (replicate 8192 0xFF) 4096 (replicate 4096 7)"
  using blk_dev_refines [OF demo_blk(1,4,2), of 1 1 4096 "replicate 4096 7" 0 1] by (auto simp: demo_blk(3))

text \<open>
  The character device cuts a read that ends behind the partition at its end. For a position behind
  the end the length wraps to almost 4 GB, and the partition's own test wraps back: the read
  overruns the caller's buffer.
\<close>

lemma char_read_past_end:
  assumes "part_size f (char_part dev) < pos" "pos < 2147483648" "pos + sz < 4294967296" "length buf < 2147483648"
  shows "char_dev_read dev f pos sz buf = None"
proof -
  let ?L = "part_size f (char_part dev)" let ?n = "u32_sub ?L pos"
  have n: "?n = 4294967296 + ?L - pos" using assms(1,2) by (simp add: u32_sub_wrap)
  have "u32 (pos + sz) > ?L" using assms(1,3) by (simp add: u32_id)
  moreover have "length buf < ?n" using n assms by linarith
  moreover have "\<not> u32 (pos + ?n) > ?L" using n assms(1,2) by (simp add: u32_def)
  ultimately show ?thesis by (simp add: char_dev_read_def part_read_into_def Let_def)
qed

end
