(* ===== verification/Fal_Stm32.thy ===== *)
theory Fal_Stm32
  imports Fal_Flash
begin

text \<open>
  The sample flash ports under \<open>port/fal/samples/porting\<close>: the on-chip flash of STM32 F1, F2, F4
  and L4, and SPI flash through SFUD. The vendor's flash library is a parameter, \<open>stm32_hal\<close>; it
  works on a chip whose flash is mapped at 0x08000000 and can be locked. Reading outside this flash
  is \<^const>\<open>None\<close>. Status flags that are cleared before an operation are not modelled.
\<close>

subsection \<open>The chip\<close>

record stm32_chip =
  chip_mem :: bytes
  chip_unlocked :: bool

text \<open>
  \<open>hal_program addr data\<close> programs one unit, \<open>hal_erase first count\<close> erases sectors or pages; both say
  whether they succeeded.
\<close>

record stm32_hal =
  hal_program :: "nat \<Rightarrow> bytes \<Rightarrow> stm32_chip \<Rightarrow> bool \<times> stm32_chip"
  hal_erase :: "nat \<Rightarrow> nat \<Rightarrow> stm32_chip \<Rightarrow> bool \<times> stm32_chip"

definition FLASH_BASE :: nat where
  [fdb_const]: "FLASH_BASE = 0x08000000"

definition flash_unlock :: "stm32_chip \<Rightarrow> stm32_chip" where
  "flash_unlock c = c\<lparr>chip_unlocked := True\<rparr>"

definition flash_lock :: "stm32_chip \<Rightarrow> stm32_chip" where
  "flash_lock c = c\<lparr>chip_unlocked := False\<rparr>"

definition chip_load :: "stm32_chip \<Rightarrow> nat \<Rightarrow> nat \<Rightarrow> bytes option" where
  "chip_load c addr n =
     (if FLASH_BASE \<le> addr \<and> addr - FLASH_BASE + n \<le> length (chip_mem c)
      then Some (slice (addr - FLASH_BASE) n (chip_mem c)) else None)"

text \<open>The device objects of the ports; \<open>page\<close> is the vendor's page size.\<close>

definition f2_onchip_flash :: flash_info where
  "f2_onchip_flash = \<lparr>dev_name = cstr ''stm32_onchip'', dev_addr = 0x08000000, dev_len = 1024 * 1024,
     dev_blk_size = 128 * 1024, dev_write_gran = 8, dev_mem = None\<rparr>"

definition f4_onchip_flash :: flash_info where
  "f4_onchip_flash = \<lparr>dev_name = cstr ''stm32_onchip'', dev_addr = 0x08000000, dev_len = 1024 * 1024,
     dev_blk_size = 128 * 1024, dev_write_gran = 8, dev_mem = None\<rparr>"

definition f1_onchip_flash :: flash_info where
  "f1_onchip_flash = \<lparr>dev_name = cstr ''stm32_onchip'', dev_addr = 0x08000000, dev_len = 256 * 1024,
     dev_blk_size = 2 * 1024, dev_write_gran = 32, dev_mem = None\<rparr>"

definition l4_onchip_flash :: "nat \<Rightarrow> flash_info" where
  "l4_onchip_flash page = \<lparr>dev_name = cstr ''stm32_onchip'', dev_addr = 0x08000000, dev_len = 256 * 1024,
     dev_blk_size = page, dev_write_gran = 64, dev_mem = None\<rparr>"

lemma onchip_addr [simp]:
  "dev_addr f2_onchip_flash = FLASH_BASE" "dev_addr f4_onchip_flash = FLASH_BASE" "dev_addr f1_onchip_flash = FLASH_BASE"
  by (simp_all add: f2_onchip_flash_def f4_onchip_flash_def f1_onchip_flash_def FLASH_BASE_def)

text \<open>The byte loop of every \<open>read\<close>.\<close>

fun read_loop :: "stm32_chip \<Rightarrow> nat \<Rightarrow> nat \<Rightarrow> bytes option" where
  "read_loop c addr 0 = Some []"
| "read_loop c addr (Suc n) = do {
     b \<leftarrow> chip_load c addr 1;
     bs \<leftarrow> read_loop c (u32 (addr + 1)) n;
     Some (b @ bs)
   }"

subsection \<open>STM32 F2\<close>

text \<open>The label \<open>FLASH_Sector_n\<close> is the number \<open>n\<close>.\<close>

definition f2_get_sector :: "nat \<Rightarrow> nat" where
  "f2_get_sector address =
     (if address < 0x08004000 \<and> 0x08000000 \<le> address then 0
      else if address < 0x08008000 \<and> 0x08004000 \<le> address then 1
      else if address < 0x0800C000 \<and> 0x08008000 \<le> address then 2
      else if address < 0x08010000 \<and> 0x0800C000 \<le> address then 3
      else if address < 0x08020000 \<and> 0x08010000 \<le> address then 4
      else if address < 0x08040000 \<and> 0x08020000 \<le> address then 5
      else if address < 0x08060000 \<and> 0x08040000 \<le> address then 6
      else if address < 0x08080000 \<and> 0x08060000 \<le> address then 7
      else if address < 0x080A0000 \<and> 0x08080000 \<le> address then 8
      else if address < 0x080C0000 \<and> 0x080A0000 \<le> address then 9
      else if address < 0x080E0000 \<and> 0x080C0000 \<le> address then 10
      else 11)"

definition f2_get_sector_size :: "nat \<Rightarrow> nat" where
  "f2_get_sector_size sector =
     (if sector \<le> 3 then 16 * 1024 else if sector = 4 then 64 * 1024 else 128 * 1024)"

definition f2_read :: "stm32_chip \<Rightarrow> nat \<Rightarrow> nat \<Rightarrow> (int \<times> bytes) option" where
  "f2_read c offset sz = map_option (Pair (s32 (int sz))) (read_loop c (u32 (dev_addr f2_onchip_flash + offset)) sz)"

fun f2_write_loop :: "stm32_hal \<Rightarrow> stm32_chip \<Rightarrow> nat \<Rightarrow> bytes \<Rightarrow> (bool \<times> stm32_chip) option" where
  "f2_write_loop hal c addr [] = Some (True, c)"
| "f2_write_loop hal c addr (b # bs) = do {
     let c = snd (hal_program hal addr [b] c);
     read_data \<leftarrow> chip_load c addr 1;
     if read_data \<noteq> [b] then Some (False, c) else f2_write_loop hal c (u32 (addr + 1)) bs
   }"

definition f2_write :: "stm32_hal \<Rightarrow> stm32_chip \<Rightarrow> nat \<Rightarrow> bytes \<Rightarrow> (int \<times> stm32_chip) option" where
  "f2_write hal c offset buf = do {
     (done, c) \<leftarrow> f2_write_loop hal (flash_unlock c) (u32 (dev_addr f2_onchip_flash + offset)) buf;
     Some (if done then s32 (int (length buf)) else - 1, flash_lock c)
   }"

partial_function (option) f2_erase_loop ::
  "stm32_hal \<Rightarrow> stm32_chip \<Rightarrow> nat \<Rightarrow> nat \<Rightarrow> nat \<Rightarrow> (bool \<times> stm32_chip) option" where
  "f2_erase_loop hal c addr sz erased_size =
     (if erased_size < sz then do {
        let cur_erase_sector = f2_get_sector (u32 (addr + erased_size));
        let (complete, c) = hal_erase hal cur_erase_sector 1 c;
        if \<not> complete then Some (False, c)
        else f2_erase_loop hal c addr sz (u32 (erased_size + f2_get_sector_size cur_erase_sector))
      }
      else Some (True, c))"

definition f2_erase :: "stm32_hal \<Rightarrow> stm32_chip \<Rightarrow> nat \<Rightarrow> nat \<Rightarrow> (int \<times> stm32_chip) option" where
  "f2_erase hal c offset sz = do {
     (done, c) \<leftarrow> f2_erase_loop hal (flash_unlock c) (u32 (dev_addr f2_onchip_flash + offset)) sz 0;
     Some (if done then s32 (int sz) else - 1, flash_lock c)
   }"

subsection \<open>STM32 F4\<close>

text \<open>For chips with the twelve sectors of bank 1; an address outside them counts as sector 0.\<close>

definition f4_get_sector :: "nat \<Rightarrow> nat" where
  "f4_get_sector addr =
     (if addr < 0x08004000 \<and> 0x08000000 \<le> addr then 0
      else if addr < 0x08008000 \<and> 0x08004000 \<le> addr then 1
      else if addr < 0x0800C000 \<and> 0x08008000 \<le> addr then 2
      else if addr < 0x08010000 \<and> 0x0800C000 \<le> addr then 3
      else if addr < 0x08020000 \<and> 0x08010000 \<le> addr then 4
      else if addr < 0x08040000 \<and> 0x08020000 \<le> addr then 5
      else if addr < 0x08060000 \<and> 0x08040000 \<le> addr then 6
      else if addr < 0x08080000 \<and> 0x08060000 \<le> addr then 7
      else if addr < 0x080A0000 \<and> 0x08080000 \<le> addr then 8
      else if addr < 0x080C0000 \<and> 0x080A0000 \<le> addr then 9
      else if addr < 0x080E0000 \<and> 0x080C0000 \<le> addr then 10
      else if addr < 0x08100000 \<and> 0x080E0000 \<le> addr then 11
      else 0)"

definition f4_read :: "stm32_chip \<Rightarrow> nat \<Rightarrow> nat \<Rightarrow> (int \<times> bytes) option" where
  "f4_read c offset sz = map_option (Pair (s32 (int sz))) (read_loop c (u32 (dev_addr f4_onchip_flash + offset)) sz)"

fun f4_write_loop :: "stm32_hal \<Rightarrow> stm32_chip \<Rightarrow> nat \<Rightarrow> bytes \<Rightarrow> (bool \<times> stm32_chip) option" where
  "f4_write_loop hal c addr [] = Some (True, c)"
| "f4_write_loop hal c addr (b # bs) =
     (let (ok, c) = hal_program hal addr [b] c in
      if ok then do {
        read_data \<leftarrow> chip_load c addr 1;
        if read_data \<noteq> [b] then Some (False, c) else f4_write_loop hal c (u32 (addr + 1)) bs
      }
      else Some (False, c))"

definition f4_write :: "stm32_hal \<Rightarrow> stm32_chip \<Rightarrow> nat \<Rightarrow> bytes \<Rightarrow> (int \<times> stm32_chip) option" where
  "f4_write hal c offset buf = do {
     (done, c) \<leftarrow> f4_write_loop hal (flash_unlock c) (u32 (dev_addr f4_onchip_flash + offset)) buf;
     Some (if done then s32 (int (length buf)) else - 1, flash_lock c)
   }"

definition f4_erase :: "stm32_hal \<Rightarrow> stm32_chip \<Rightarrow> nat \<Rightarrow> nat \<Rightarrow> int \<times> stm32_chip" where
  "f4_erase hal c offset sz =
     (let addr = u32 (dev_addr f4_onchip_flash + offset);
          FirstSector = f4_get_sector addr;
          NbOfSectors = u32 (u32_sub (f4_get_sector (u32_sub (u32 (addr + sz)) 1)) FirstSector + 1);
          (ok, c) = hal_erase hal FirstSector NbOfSectors (flash_unlock c)
      in (if ok then s32 (int sz) else - 1, flash_lock c))"

subsection \<open>STM32 F1 and L4\<close>

text \<open>
  Both program units of several bytes, which they copy from the caller's buffer: with a size that is
  no multiple of the unit they read behind the buffer. The counters for debugging are left out.
  \<open>F103xE\<close> says whether the macro \<open>STM32F103xE\<close> is defined; \<open>FLASH_PAGE_SIZE\<close> is the vendor's.
\<close>

definition F1_PAGE_SIZE :: "bool \<Rightarrow> nat" where
  "F1_PAGE_SIZE F103xE = (if F103xE then 2048 else 1024)"

fun f1_write_loop :: "nat \<Rightarrow> stm32_hal \<Rightarrow> stm32_chip \<Rightarrow> nat \<Rightarrow> bytes \<Rightarrow> (bool \<times> stm32_chip) option" where
  "f1_write_loop 0 hal c addr buf = Some (True, c)"
| "f1_write_loop (Suc n) hal c addr buf =
     (if length buf < 4 then None
      else do {
        let write_data = take 4 buf;
        let c = snd (hal_program hal addr write_data c);
        read_data \<leftarrow> chip_load c addr 4;
        if read_data \<noteq> write_data then Some (False, c) else f1_write_loop n hal c (u32 (addr + 4)) (drop 4 buf)
      })"

definition f1_read :: "stm32_chip \<Rightarrow> nat \<Rightarrow> nat \<Rightarrow> (int \<times> bytes) option" where
  "f1_read c offset sz = map_option (Pair (s32 (int sz))) (read_loop c (u32 (dev_addr f1_onchip_flash + offset)) sz)"

definition f1_write :: "stm32_hal \<Rightarrow> stm32_chip \<Rightarrow> nat \<Rightarrow> bytes \<Rightarrow> (int \<times> stm32_chip) option" where
  "f1_write hal c offset buf = do {
     (done, c) \<leftarrow> f1_write_loop ((length buf + 3) div 4) hal (flash_unlock c) (u32 (dev_addr f1_onchip_flash + offset)) buf;
     Some (if done then s32 (int (length buf)) else - 1, flash_lock c)
   }"

text \<open>One page after the other: \<open>page i\<close> is what the port hands to the vendor for the \<open>i\<close>-th page.\<close>

fun erase_pages_loop :: "stm32_hal \<Rightarrow> (nat \<Rightarrow> nat) \<Rightarrow> nat list \<Rightarrow> stm32_chip \<Rightarrow> bool \<times> stm32_chip" where
  "erase_pages_loop hal page [] c = (True, c)"
| "erase_pages_loop hal page (i # is) c =
     (let (ok, c) = hal_erase hal (page i) 1 c in
      if \<not> ok then (False, c) else erase_pages_loop hal page is c)"

definition page_count :: "nat \<Rightarrow> nat \<Rightarrow> nat" where
  "page_count page_size sz = sz div page_size + (if sz mod page_size \<noteq> 0 then 1 else 0)"

definition f1_erase :: "bool \<Rightarrow> nat \<Rightarrow> stm32_hal \<Rightarrow> stm32_chip \<Rightarrow> nat \<Rightarrow> nat \<Rightarrow> int \<times> stm32_chip" where
  "f1_erase F103xE FLASH_PAGE_SIZE hal c offset sz =
     (let addr = u32 (dev_addr f1_onchip_flash + offset);
          erase_pages = page_count (F1_PAGE_SIZE F103xE) sz;
          (ok, c) = erase_pages_loop hal (\<lambda>i. u32 (addr + FLASH_PAGE_SIZE * i)) [0..<erase_pages] (flash_unlock c)
      in (if ok then s32 (int sz) else - 1, flash_lock c))"

fun l4_write_loop :: "nat \<Rightarrow> stm32_hal \<Rightarrow> stm32_chip \<Rightarrow> nat \<Rightarrow> bytes \<Rightarrow> (bool \<times> stm32_chip) option" where
  "l4_write_loop 0 hal c addr buf = Some (True, c)"
| "l4_write_loop (Suc n) hal c addr buf =
     (if length buf < 8 then None
      else do {
        let write_data = take 8 buf;
        let c = (if write_data \<noteq> replicate 8 0xFF then snd (hal_program hal addr write_data c) else c);
        read_data \<leftarrow> chip_load c addr 8;
        if read_data \<noteq> write_data then Some (False, c) else l4_write_loop n hal c (u32 (addr + 8)) (drop 8 buf)
      })"

definition l4_read :: "nat \<Rightarrow> stm32_chip \<Rightarrow> nat \<Rightarrow> nat \<Rightarrow> (int \<times> bytes) option" where
  "l4_read FLASH_PAGE_SIZE c offset sz = map_option (Pair (s32 (int sz))) (read_loop c (u32 (dev_addr (l4_onchip_flash FLASH_PAGE_SIZE) + offset)) sz)"

definition l4_write :: "nat \<Rightarrow> stm32_hal \<Rightarrow> stm32_chip \<Rightarrow> nat \<Rightarrow> bytes \<Rightarrow> (int \<times> stm32_chip) option" where
  "l4_write FLASH_PAGE_SIZE hal c offset buf = do {
     (done, c) \<leftarrow> l4_write_loop ((length buf + 7) div 8) hal (flash_unlock c) (u32 (dev_addr (l4_onchip_flash FLASH_PAGE_SIZE) + offset)) buf;
     Some (if done then s32 (int (length buf)) else - 1, flash_lock c)
   }"

definition l4_erase :: "nat \<Rightarrow> stm32_hal \<Rightarrow> stm32_chip \<Rightarrow> nat \<Rightarrow> nat \<Rightarrow> int \<times> stm32_chip" where
  "l4_erase FLASH_PAGE_SIZE hal c offset sz =
     (let erase_pages = page_count FLASH_PAGE_SIZE sz;
          (ok, c) = erase_pages_loop hal (\<lambda>i. u32 (offset div FLASH_PAGE_SIZE + i)) [0..<erase_pages] (flash_unlock c)
      in (if ok then s32 (int sz) else - 1, flash_lock c))"

subsection \<open>SPI flash through SFUD\<close>

text \<open>
  \<open>sfud_dev\<close> is \<^const>\<open>None\<close> when the pointer is null. The functions of SFUD are parameters: what a read
  delivers, and for writing and erasing whether they succeeded.
\<close>

record 'm sfud_flash =
  sfud_init_ok :: bool
  sfud_erase_gran :: nat
  sfud_capacity :: nat
  sfud_read :: "nat \<Rightarrow> bytes \<Rightarrow> 'm \<Rightarrow> bool \<times> bytes"
  sfud_write :: "nat \<Rightarrow> bytes \<Rightarrow> 'm \<Rightarrow> bool \<times> 'm"
  sfud_erase :: "nat \<Rightarrow> nat \<Rightarrow> 'm \<Rightarrow> bool \<times> 'm"

record sfud_port =
  sfud_addr :: nat
  sfud_len :: nat
  sfud_blk_size :: nat

definition sfud_nor_flash0 :: sfud_port where
  "sfud_nor_flash0 = \<lparr>sfud_addr = 0, sfud_len = 8 * 1024 * 1024, sfud_blk_size = 4096\<rparr>"

definition sfud_port_init :: "'m sfud_flash option \<Rightarrow> sfud_port \<Rightarrow> int \<times> sfud_port" where
  "sfud_port_init sfud_dev p =
     (case sfud_dev of None \<Rightarrow> (- 1, p)
      | Some d \<Rightarrow> (0, p\<lparr>sfud_blk_size := sfud_erase_gran d, sfud_len := sfud_capacity d\<rparr>))"

definition sfud_port_read :: "'m sfud_flash option \<Rightarrow> sfud_port \<Rightarrow> 'm \<Rightarrow> nat \<Rightarrow> bytes \<Rightarrow> (int \<times> bytes) option" where
  "sfud_port_read sfud_dev p m offset buf =
     (case sfud_dev of None \<Rightarrow> None
      | Some d \<Rightarrow> if \<not> sfud_init_ok d then None
          else Some (s32 (int (length buf)), snd (sfud_read d (u32 (sfud_addr p + offset)) buf m)))"

definition sfud_port_write :: "'m sfud_flash option \<Rightarrow> sfud_port \<Rightarrow> 'm \<Rightarrow> nat \<Rightarrow> bytes \<Rightarrow> (int \<times> 'm) option" where
  "sfud_port_write sfud_dev p m offset buf =
     (case sfud_dev of None \<Rightarrow> None
      | Some d \<Rightarrow> if \<not> sfud_init_ok d then None
          else let (ok, m) = sfud_write d (u32 (sfud_addr p + offset)) buf m
            in Some (if \<not> ok then - 1 else s32 (int (length buf)), m))"

definition sfud_port_erase :: "'m sfud_flash option \<Rightarrow> sfud_port \<Rightarrow> 'm \<Rightarrow> nat \<Rightarrow> nat \<Rightarrow> (int \<times> 'm) option" where
  "sfud_port_erase sfud_dev p m offset sz =
     (case sfud_dev of None \<Rightarrow> None
      | Some d \<Rightarrow> if \<not> sfud_init_ok d then None
          else let (ok, m) = sfud_erase d (u32 (sfud_addr p + offset)) sz m
            in Some (if \<not> ok then - 1 else s32 (int sz), m))"

subsection \<open>The sectors of F2 and F4\<close>

definition sector_sizes :: "nat list" where
  "sector_sizes = [16384, 16384, 16384, 16384, 65536, 131072, 131072, 131072, 131072, 131072, 131072, 131072]"

definition sector_start :: "nat \<Rightarrow> nat" where
  "sector_start n = sum_list (take n sector_sizes)"

lemmas sector_defs = sector_start_def sector_sizes_def f2_get_sector_size_def

lemma sector_start_ends [simp]: "sector_start 0 = 0" "sector_start 12 = 0x100000"
  by (simp_all add: sector_defs)

lemma each_sector: "list_all P [0..<12] \<Longrightarrow> n < 12 \<Longrightarrow> P n"
  by (simp add: list_all_iff)

lemma sector_start_Suc: "n < 12 \<Longrightarrow> sector_start (Suc n) = sector_start n + f2_get_sector_size n"
  by (rule each_sector [where P = "\<lambda>n. sector_start (Suc n) = sector_start n + f2_get_sector_size n"])
    (simp_all add: sector_defs upt_rec)

lemma sector_start_mono: "m \<le> n \<Longrightarrow> n \<le> 12 \<Longrightarrow> sector_start m \<le> sector_start n"
  by (induction n rule: dec_induct) (simp_all add: sector_start_Suc)

definition sector_map_ok :: "nat \<Rightarrow> bool" where
  "sector_map_ok n \<longleftrightarrow> (\<forall>a. sector_start n \<le> a \<and> a < sector_start (Suc n)
     \<longrightarrow> f2_get_sector (FLASH_BASE + a) = n \<and> f4_get_sector (FLASH_BASE + a) = n)"

lemma all_sector_maps: "list_all sector_map_ok [0..<12]"
proof -
  have "sector_map_ok n" if "n \<in> set [0..<12]" for n
    using that by (simp add: upt_rec) (elim disjE; hypsubst;
      simp add: sector_map_ok_def sector_defs f2_get_sector_def f4_get_sector_def FLASH_BASE_def)
  then show ?thesis unfolding list_all_iff by blast
qed

lemma get_sector_eq:
  assumes "n < 12" "sector_start n \<le> a" "a < sector_start (Suc n)"
  shows "f2_get_sector (FLASH_BASE + a) = n" "f4_get_sector (FLASH_BASE + a) = n"
  using each_sector [OF all_sector_maps assms(1)] assms(2,3) by (simp_all add: sector_map_ok_def)

text \<open>Every address inside the flash is in a sector.\<close>

lemma sector_of:
  assumes "a < sector_start 12"
  obtains n where "n < 12" "sector_start n \<le> a" "a < sector_start (Suc n)"
proof -
  define n where "n = (GREATEST n. n < 12 \<and> sector_start n \<le> a)"
  have g: "n < 12 \<and> sector_start n \<le> a" unfolding n_def by (rule GreatestI_nat [of _ 0 12]) (simp_all add: sector_start_ends)
  have "a < sector_start (Suc n)"
  proof (rule ccontr)
    assume c: "\<not> a < sector_start (Suc n)"
    have "Suc n \<noteq> 12" using c assms by auto
    then have "Suc n < 12 \<and> sector_start (Suc n) \<le> a" using g c by simp
    then have "Suc n \<le> n" unfolding n_def by (rule Greatest_le_nat [of _ _ 12]) simp
    then show False by simp
  qed
  then show thesis using that g by blast
qed

text \<open>A vendor library that erases the sectors it is told to, when the flash is unlocked.\<close>

definition hal_erases :: "stm32_hal \<Rightarrow> bool" where
  "hal_erases hal \<longleftrightarrow> (\<forall>c first count. chip_unlocked c \<and> length (chip_mem c) = sector_start 12 \<and> first + count \<le> 12 \<longrightarrow>
     hal_erase hal first count c = (True, c\<lparr>chip_mem := splice (chip_mem c) (sector_start first)
       (replicate (sector_start (first + count) - sector_start first) 0xFF)\<rparr>))"

lemma splice_replicate_adj:
  assumes "a \<le> b" "b \<le> e" "e \<le> length m"
  shows "splice (splice m a (replicate (b - a) x)) b (replicate (e - b) x) = splice m a (replicate (e - a) x)"
  using assms by (intro nth_equalityI) (auto simp: nth_splice)

lemma f2_erase_sectors:
  assumes hal: "hal_erases hal" and c: "chip_unlocked c" "length (chip_mem c) = sector_start 12"
    and e: "lst < 12" "sector_start lst < sector_start first + sz" "sector_start first + sz \<le> sector_start (Suc lst)"
  shows "first \<le> k \<Longrightarrow> k \<le> Suc lst \<Longrightarrow>
    f2_erase_loop hal (c\<lparr>chip_mem := splice (chip_mem c) (sector_start first)
        (replicate (sector_start k - sector_start first) 0xFF)\<rparr>) (FLASH_BASE + sector_start first) sz
        (sector_start k - sector_start first)
    = Some (True, c\<lparr>chip_mem := splice (chip_mem c) (sector_start first)
        (replicate (sector_start (Suc lst) - sector_start first) 0xFF)\<rparr>)"
proof (induction "Suc lst - k" arbitrary: k)
  case 0
  then have "k = Suc lst" by simp
  moreover have "\<not> sector_start (Suc lst) - sector_start first < sz" using e(3) by linarith
  ultimately show ?case by (subst f2_erase_loop.simps) simp
next
  case (Suc d)
  let ?F = "sector_start first" let ?c = "\<lambda>k. c\<lparr>chip_mem := splice (chip_mem c) ?F (replicate (sector_start k - ?F) 0xFF)\<rparr>"
  have k: "k \<le> lst" "k < 12" using Suc.hyps(2) e(1) by simp_all
  have F: "?F \<le> sector_start k" "sector_start k \<le> sector_start lst" "sector_start (Suc k) \<le> sector_start 12"
    using sector_start_mono [of first k] sector_start_mono [of k lst] sector_start_mono [of "Suc k" 12] Suc.prems(1) k e(1) by simp_all
  note S = sector_start_Suc [OF k(2)]
  have z: "0 < f2_get_sector_size k" by (simp add: f2_get_sector_size_def)
  have b: "sector_start (Suc k) \<le> 0x100000" using F(3) by (simp add: sector_start_ends)
  have "FLASH_BASE + ?F + (sector_start k - ?F) < 4294967296" using F(1) b S by (simp add: FLASH_BASE_def)
  then have "u32 (FLASH_BASE + ?F + (sector_start k - ?F)) = FLASH_BASE + sector_start k" using F(1) by (simp add: u32_id)
  then have s: "f2_get_sector (u32 (FLASH_BASE + ?F + (sector_start k - ?F))) = k"
    using get_sector_eq(1) [OF k(2), of "sector_start k"] S z by simp
  have "hal_erase hal k 1 (?c k) = (True, ?c (Suc k))"
    using hal c F k splice_replicate_adj [of ?F "sector_start k" "sector_start (Suc k)" "chip_mem c" "0xFF"] S
    by (simp add: hal_erases_def)
  moreover have "u32 (sector_start k - ?F + f2_get_sector_size k) = sector_start (Suc k) - ?F" using F(1) b S by (simp add: u32_id)
  moreover have "sector_start k - ?F < sz" using F(1,2) e(2) by linarith
  ultimately have "f2_erase_loop hal (?c k) (FLASH_BASE + ?F) sz (sector_start k - ?F)
      = f2_erase_loop hal (?c (Suc k)) (FLASH_BASE + ?F) sz (sector_start (Suc k) - ?F)"
    using s by (subst f2_erase_loop.simps) (simp add: Let_def)
  then show ?case using Suc.hyps(1) [of "Suc k"] Suc.hyps(2) Suc.prems(1) k by simp
qed

lemma stm32_erase_eq:
  assumes hal: "hal_erases hal" and c: "length (chip_mem c) = sector_start 12"
    and f: "first < 12" "0 < sz" "sector_start first + sz \<le> sector_start 12"
    and l: "lst < 12" "sector_start lst < sector_start first + sz" "sector_start first + sz \<le> sector_start (Suc lst)"
  defines "c' \<equiv> c\<lparr>chip_mem := splice (chip_mem c) (sector_start first)
      (replicate (sector_start (Suc lst) - sector_start first) 0xFF), chip_unlocked := False\<rparr>"
  shows "f2_erase hal c (sector_start first) sz = Some (int sz, c')" "f4_erase hal c (sector_start first) sz = (int sz, c')"
proof -
  let ?F = "sector_start first" let ?c = "flash_unlock c"
  have b: "?F + sz \<le> 0x100000" using f(3) by (simp add: sector_start_ends)
  have u: "u32 (FLASH_BASE + ?F) = FLASH_BASE + ?F" "s32 (int sz) = int sz" "u32 (FLASH_BASE + ?F + sz) = FLASH_BASE + ?F + sz"
    using b by (simp_all add: FLASH_BASE_def u32_id s32_id)
  have fl: "first \<le> lst"
  proof (rule ccontr)
    assume "\<not> first \<le> lst"
    then have "sector_start (Suc lst) \<le> ?F" using sector_start_mono [of "Suc lst" first] f(1) by simp
    then show False using l(3) f(2) by linarith
  qed
  have "?c\<lparr>chip_mem := splice (chip_mem ?c) ?F []\<rparr> = ?c" by simp
  then have "f2_erase_loop hal ?c (FLASH_BASE + ?F) sz 0 = Some (True, ?c\<lparr>chip_mem := splice (chip_mem ?c) ?F
      (replicate (sector_start (Suc lst) - ?F) 0xFF)\<rparr>)"
    using f2_erase_sectors [OF hal _ _ l, of ?c first] fl c by (simp add: flash_unlock_def)
  then show "f2_erase hal c ?F sz = Some (int sz, c')"
    using u by (simp add: f2_erase_def c'_def flash_lock_def flash_unlock_def)
  have "u32_sub (FLASH_BASE + ?F + sz) 1 = FLASH_BASE + (?F + sz - 1)" using b f(2) by (simp add: FLASH_BASE_def u32_sub_id)
  moreover have "f4_get_sector (FLASH_BASE + (?F + sz - 1)) = lst"
    by (rule get_sector_eq(2)) (use l f(2) in linarith)+
  moreover have "f4_get_sector (FLASH_BASE + ?F) = first"
    by (rule get_sector_eq(2)) (use f(1) sector_start_Suc [OF f(1)] in \<open>simp_all add: f2_get_sector_size_def\<close>)
  moreover have "u32 (u32_sub lst first + 1) = Suc lst - first" using l(1) fl by (simp add: u32_sub_id u32_id)
  ultimately have "f4_erase hal c ?F sz = (let (ok, c) = hal_erase hal first (Suc lst - first) ?c
      in (if ok then s32 (int sz) else - 1, flash_lock c))"
    using u by (simp add: f4_erase_def Let_def)
  then show "f4_erase hal c ?F sz = (int sz, c')"
    using hal c fl l(1) u(2) by (simp add: hal_erases_def c'_def flash_lock_def flash_unlock_def)
qed

text \<open>C34: Erasing on-chip flash from the start of a sector: the F2 loop ends, and it erases exactly the
  sectors that the F4 port computes from the first and the last address, namely those that hold a
  byte of the range. Both return the size and leave the flash locked.\<close>

theorem stm32_erase_sectors:
  assumes "hal_erases hal" "length (chip_mem c) = sector_start 12"
    and "first < 12" "0 < sz" "sector_start first + sz \<le> sector_start 12"
  shows "\<exists>e c'. f2_erase hal c (sector_start first) sz = Some (int sz, c') \<and> f4_erase hal c (sector_start first) sz = (int sz, c')
    \<and> sector_start first + sz \<le> e \<and> (\<exists>n \<le> 12. e = sector_start n \<and> (\<forall>m < n. sector_start m < sector_start first + sz))
    \<and> chip_mem c' = splice (chip_mem c) (sector_start first) (replicate (e - sector_start first) 0xFF) \<and> \<not> chip_unlocked c'"
proof -
  have "sector_start first + sz - 1 < sector_start 12" using assms(4,5) by linarith
  then obtain n where n: "n < 12" "sector_start n \<le> sector_start first + sz - 1" "sector_start first + sz - 1 < sector_start (Suc n)"
    using sector_of by blast
  have l: "sector_start n < sector_start first + sz" "sector_start first + sz \<le> sector_start (Suc n)" using n assms(4) by linarith+
  have "sector_start m < sector_start first + sz" if "m < Suc n" for m
    using sector_start_mono [of m n] that n(1) l(1) by simp
  then show ?thesis using stm32_erase_eq [OF assms n(1) l] n(1) l
    by (intro exI [of _ "sector_start (Suc n)"]) (auto intro!: exI [of _ "Suc n"])
qed

definition demo_hal :: stm32_hal where
  "demo_hal = \<lparr>hal_program = (\<lambda>addr bs c. (True, c\<lparr>chip_mem := splice (chip_mem c) (addr - FLASH_BASE) bs\<rparr>)),
     hal_erase = (\<lambda>first count c. (True, c\<lparr>chip_mem := splice (chip_mem c) (sector_start first)
       (replicate (sector_start (first + count) - sector_start first) 0xFF)\<rparr>))\<rparr>"

theorem stm32_erase_sectors_witness:
  "\<exists>c'. f2_erase demo_hal \<lparr>chip_mem = replicate 1048576 0, chip_unlocked = False\<rparr> (sector_start 3) 20000 = Some (20000, c')
    \<and> f4_erase demo_hal \<lparr>chip_mem = replicate 1048576 0, chip_unlocked = False\<rparr> (sector_start 3) 20000 = (20000, c')"
proof -
  have "hal_erases demo_hal" by (simp add: hal_erases_def demo_hal_def)
  moreover have "sector_start 3 = 49152" by (simp add: sector_defs)
  ultimately show ?thesis
    using stm32_erase_sectors [of demo_hal "\<lparr>chip_mem = replicate 1048576 0, chip_unlocked = False\<rparr>" 3 20000] by auto
qed

text \<open>
  Away from the start of a sector the F2 loop steps over the sectors by their size and can stop before
  the last one: here 16 KB from the middle of sector 0 leave the half of the range in sector 1.
\<close>

lemma f2_erase_misses_tail:
  assumes "hal_erases hal" "length (chip_mem c) = sector_start 12"
  shows "\<exists>c'. f2_erase hal c 8192 16384 = Some (16384, c') \<and> drop 16384 (chip_mem c') = drop 16384 (chip_mem c)"
proof -
  let ?u = "flash_unlock c" let ?c = "?u\<lparr>chip_mem := splice (chip_mem c) 0 (replicate 16384 0xFF)\<rparr>"
  have "hal_erase hal 0 (Suc 0) ?u = (True, ?c)"
    using assms by (simp add: hal_erases_def flash_unlock_def sector_start_def sector_sizes_def)
  moreover have "f2_erase_loop hal ?c 134225920 16384 16384 = Some (True, ?c)" by (subst f2_erase_loop.simps) simp
  ultimately have "f2_erase_loop hal ?u 134225920 16384 0 = Some (True, ?c)"
    by (subst f2_erase_loop.simps) (simp add: f2_get_sector_def f2_get_sector_size_def u32_id)
  then have "f2_erase hal c 8192 16384 = Some (16384, flash_lock ?c)"
    by (simp add: f2_erase_def FLASH_BASE_def u32_id s32_id)
  then show ?thesis using assms(2) by (simp add: flash_lock_def splice_def sector_start_ends)
qed

end
