(* ===== verification/Spec2Isabelle.thy ===== *)
theory Spec2Isabelle
  imports Kvdb_Fresh Kvdb_Print Kvdb_Recover Kvdb_Typed Kvdb_Upgrade Tsdb_Props Fdb_File_Props Fdb_File_Libc Ko_Main Fal_Print Fal_Rtt Fal_Stm32
begin

text \<open>
  Verification of FlashDB as built by this kernel module.

  \<^bold>\<open>The program.\<close> FlashDB keeps a key-value database (KVDB, \<open>FlashDB/src/fdb_kvdb.c\<close>) and a time
  series database (TSDB, \<open>FlashDB/src/fdb_tsdb.c\<close>) in the sectors of a flash partition. Both share
  \<open>struct fdb_db\<close> and the primitives of \<open>fdb.c\<close> and \<open>fdb_utils.c\<close>, which read, write and erase
  through the flash abstraction layer (\<open>port/fal\<close>), and that calls the drivers of
  \<open>src/porting\<close>: a partition table page (\<open>virt_parts\<close>), a block of RAM (\<open>mem_blk\<close>) and the MTD
  detection (\<open>nor_flash\<close>). \<open>main.c\<close> loads the module. Not built into it are the file mode (\<open>fdb_file.c\<close>,
  sectors are files), the devices for RT-Thread (\<open>fal_rtt.c\<close>) and the sample flash ports.

  \<^bold>\<open>Configuration.\<close> The one of \<open>porting/inc/fdb_cfg.h\<close>: write granularity 1, flash abstraction layer
  mode, caches on, no automatic update of defaults, a 32-bit little-endian target. Unsigned C values
  are \<^typ>\<open>nat\<close> with the wrap-around written out (\<open>u32\<close>, \<open>u32_sub\<close>), signed ones \<^typ>\<open>int\<close>, bytes are
  8-bit words, the CRC works on 32-bit words. \<open>FDB_STATUS_TABLE_SIZE\<close>, \<open>_fdb_set_status\<close> and
  \<open>_fdb_get_status\<close> are modelled for every granularity.

  \<^bold>\<open>Results.\<close> An operation returns an option. \<^const>\<open>None\<close> is an execution that has no defined
  continuation: an endless loop, a failed \<open>FDB_ASSERT\<close> (an endless loop too), a null pointer, or an
  access outside an array or a memory block. Loops that the code bounds only by data on flash are
  \<open>partial_function (option)\<close>; every property that says an operation returns gives \<^const>\<open>Some\<close>, so
  it includes termination. Errors of the API are the values of \<^typ>\<open>fdb_err\<close>. Memory that was never
  written (stack variables, \<open>malloc\<close>) is a parameter, as are the kernel's allocator and MTD layer.

  \<^bold>\<open>Theories of the model\<close>, in the order of the code:
  \<^item> \<open>Fdb_Prelude\<close>: error codes, 32-bit arithmetic, byte buffers, little-endian fields, C strings;
  \<^item> \<open>Fdb_Crc\<close> and \<open>Fdb_Status\<close>: \<open>fdb_calc_crc32\<close> and the status words (\<open>fdb_utils.c\<close>), with their
    properties (equal to the bitwise CRC, detects a changed byte; round trip, monotone programming);
  \<^item> \<open>Fal_Flash\<close>, \<open>Fal_Partition\<close>: drivers and device table, partition table search, lookup, access;
  \<^item> \<open>Fdb_Flash\<close>: \<open>struct fdb_db\<close>, flash primitives, blobs, \<open>_fdb_init_ex\<close>;
  \<^item> \<open>Kvdb_Cache\<close>, \<open>Kvdb_Read\<close>, \<open>Kvdb_Write\<close>, \<open>Kvdb_Api\<close>: \<open>fdb_kvdb.c\<close> from the caches to loading;
  \<^item> \<open>Tsdb_Core\<close>, \<open>Tsdb_Api\<close>: \<open>fdb_tsdb.c\<close>;
  \<^item> \<open>Os_Files\<close>, \<open>Fdb_File\<close>, \<open>Fdb_File_Libc\<close>: the C library's files, and \<open>fdb_file.c\<close> in both variants;
  \<^item> \<open>Ko_Main\<close>: \<open>main.c\<close>, with the answers of the kernel as a parameter and a log of what the module acquires
    and releases; the property is that nothing leaks;
  \<^item> \<open>Os_Text\<close>, \<open>Fal_Print\<close>, \<open>Kvdb_Print\<close>: the conversions of \<open>printf\<close>; the partition table on the console and in
    the module's class file, which fits its page; \<open>fdb_kv_print\<close>, which lists the map;
  \<^item> \<open>Fal_Rtt\<close>: the devices of \<open>fal_rtt.c\<close> on a partition; the block device is an array of blocks;
  \<^item> \<open>Fal_Stm32\<close>: the sample flash ports for STM32 chips and SFUD, with the vendor library as a parameter; the
    property compares the erase functions of F2 and F4.

  \<^bold>\<open>Interfaces.\<close>
  \<^item> \<open>flash_store\<close> (\<open>Fdb_Store\<close>): what the databases rely on below them; proved for the primitives on
    the RAM device (\<open>dbs\<close>), carried to both databases by \<open>lifted_store\<close> (\<open>kvl\<close>, \<open>kvf\<close>, \<open>tsl\<close>, \<open>tsf\<close>);
  \<^item> \<open>sector_ring\<close> (\<open>Fdb_Ring\<close>): walking the sectors once around from the oldest one; proved for
    the sector iterators of KVDB (\<open>kvr\<close>) and TSDB in both directions (\<open>ts_up\<close>, \<open>ts_down\<close>);
  \<^item> \<open>lossy_cache\<close> (\<open>Kvdb_Caches\<close>): a cache may forget but never lies; proved for the sector cache
    (\<open>scc\<close>) and the KV address cache (\<open>kvc\<close>);
  \<^item> \<open>sector_store\<close> (\<open>Fdb_Sectors\<close>): an array of sectors; proved for the flash abstraction layer
    (\<open>fal_sectors\<close>) and for files (\<open>posix_sectors\<close>).

  \<^bold>\<open>KVDB.\<close> \<open>Kvdb_Spec\<close> describes a sector as a list of nodes (status, key, value) and the database as a
  list of sectors; \<open>kv_map\<close> is the map it stands for. \<open>kv_rep\<close> relates it to flash and caches,
  \<open>kv_state\<close> adds what holds between calls. \<open>Kvdb_Sector\<close>, \<open>Kvdb_Walk\<close>, \<open>Kvdb_Find\<close>, \<open>Kvdb_Lookup\<close>
  are about reading, \<open>Kvdb_Change\<close>, \<open>Kvdb_Set\<close>, \<open>Kvdb_Alloc\<close> about writing one KV, \<open>Kvdb_Gc\<close>,
  \<open>Kvdb_Collect\<close> about garbage collection, \<open>Kvdb_Format\<close>, \<open>Kvdb_Reset\<close> about formatting and
  defaults, \<open>Kvdb_State\<close>, \<open>Kvdb_Update\<close> put the calls together, \<open>Kvdb_Boot\<close> is loading, \<open>Kvdb_Iter\<close>
  the iterator. The properties are in \<open>Kvdb_Props\<close> (set, get, delete), \<open>Kvdb_Upkeep\<close> (collection,
  reset, restart, iteration), \<open>Kvdb_Trace\<close> (sequences of calls and restarts refine runs of a map),
  \<open>Kvdb_Upgrade\<close> (the automatic update of defaults, which the module is built without) and \<open>Kvdb_Recover\<close> (setting a key is atomic when power is lost between its steps; the database
  has three empty sectors there, so that no collection is under way).

  \<^bold>\<open>Starting the module.\<close> \<open>Fal_Boot\<close> follows \<open>fal_init\<close> and \<open>_fdb_init_ex\<close> of a system without a usable MTD
  partition down to the RAM block, \<open>Kvdb_Fresh\<close> the first start of a KVDB on sectors without headers,
  and both together a KVDB on the freshly loaded module.

  \<^bold>\<open>TSDB.\<close> \<open>Tsdb_Spec\<close> describes a sector of logs and \<open>Tsdb_Hist\<close> a database by its history, the list of
  logs per sector from the oldest; \<open>Tsdb_Walk\<close> and \<open>Tsdb_Search\<close> are about iteration and the binary
  search, \<open>Tsdb_Roll\<close> about rollover, \<open>Tsdb_Init\<close>, \<open>Tsdb_Boot\<close> about formatting and loading; the
  properties are in \<open>Tsdb_Props\<close>.

  \<^bold>\<open>File mode.\<close> \<open>Fdb_File_Posix\<close> proves the sector contract for the POSIX variant with its cache of two
  descriptors, \<open>Fdb_File_Props\<close> its properties, \<open>Fdb_File_Libc\<close> what the LIBC variant returns.

  \<^bold>\<open>Bounds.\<close> Partitions have less than 2 GB. \<open>kv_iterate_all\<close> iterates with fuel, the number of KVs
  and one more, and the property shows that this many steps reach the end. Keys in properties have
  at most 63 characters and no clash of the 16-bit CRC of the address cache (\<open>no_clash\<close>).

  \<^bold>\<open>Arbitrary flash.\<close> The theories above reason about sectors that the code wrote. \<open>Kvdb_Typed\<close> shows what reading
  a KV guarantees whatever the flash holds, \<open>Kvdb_Fresh\<close> covers sectors without headers.

  \<^bold>\<open>Not modelled.\<close> Log messages, the shell command of \<open>fal_rtt.c\<close>, registration with RT-Thread, samples and tests. Mutexes are not modelled: the drivers hold
  them around one access. Loss of power is considered between the steps of setting a key, not inside
  one flash write or during a collection.
\<close>

end
